(* ===== verification/Kernel_Prelude.thy ===== *)
theory Kernel_Prelude
  imports Main "HOL-Library.Word" "HOL-Library.Monad_Syntax" "HOL-Library.Signed_Division"
begin

text \<open>
  What every component of the kernel model shares: the C integer types as words, arrays
  whose accesses are checked, the meaning of the result type, and the word lemmas behind
  address arithmetic.

  An operation of the kernel is a HOL function into \<open>'a option\<close>. \<open>Some x\<close> says that the C
  code returns with \<open>x\<close>; \<open>None\<close> says that it does not: it touched an unmapped page (the
  handler \<open>page_fault\<close> of \<open>interrupts.c\<close> never returns), it indexed an array out of
  bounds, or it stays in a loop forever. The error codes of the source (\<open>-1\<close>) are values.
\<close>

unbundle bit_operations_syntax

text \<open>Intervals between numerals stay folded: the screen and the page tables are long.\<close>

declare upt_rec_numeral [simp del]

section \<open>The types of types.h\<close>

type_synonym u8 = "8 word"    \<comment> \<open>\<open>uint8_t\<close>, \<open>int8_t\<close>, \<open>unsigned char\<close>\<close>
type_synonym u16 = "16 word"
type_synonym u32 = "32 word"  \<comment> \<open>\<open>uint32_t\<close>, \<open>unsigned int\<close> and every pointer\<close>
type_synonym i32 = "32 word"  \<comment> \<open>\<open>int32_t\<close>, \<open>int\<close>: compared with \<open><s\<close>, read by \<open>sint\<close>\<close>

named_theorems kernel_unfold \<open>definitions of the small accessors of the kernel\<close>
named_theorems frame \<open>what an operation leaves alone\<close>

section \<open>Division of signed integers\<close>

text \<open>\<open>/\<close> and \<open>%\<close> of C on \<open>int\<close>: rounded towards zero.\<close>

definition int_div :: "i32 \<Rightarrow> i32 \<Rightarrow> i32" where
  "int_div a b = word_of_int (sint a sdiv sint b)"

definition int_mod :: "i32 \<Rightarrow> i32 \<Rightarrow> i32" where
  "int_mod a b = word_of_int (sint a smod sint b)"

section \<open>Checked arrays\<close>

definition arr_get :: "'a list \<Rightarrow> nat \<Rightarrow> 'a option" where
  "arr_get xs i = (if i < length xs then Some (xs ! i) else None)"

definition arr_set :: "nat \<Rightarrow> 'a \<Rightarrow> 'a list \<Rightarrow> 'a list option" where
  "arr_set i v xs = (if i < length xs then Some (xs[i := v]) else None)"

lemma arr_get_Some [simp]: "i < length xs \<Longrightarrow> arr_get xs i = Some (xs ! i)"
  by (simp add: arr_get_def)

lemma arr_get_None [simp]: "\<not> i < length xs \<Longrightarrow> arr_get xs i = None"
  by (simp add: arr_get_def)

lemma arr_set_Some [simp]: "i < length xs \<Longrightarrow> arr_set i v xs = Some (xs[i := v])"
  by (simp add: arr_set_def)

lemma arr_set_None [simp]: "\<not> i < length xs \<Longrightarrow> arr_set i v xs = None"
  by (simp add: arr_set_def)

lemma arr_get_eq_Some: "arr_get xs i = Some v \<longleftrightarrow> i < length xs \<and> v = xs ! i"
  by (auto simp: arr_get_def)

lemma arr_set_eq_Some: "arr_set i v xs = Some ys \<longleftrightarrow> i < length xs \<and> ys = xs[i := v]"
  by (auto simp: arr_set_def)

section \<open>Counted loops\<close>

text \<open>A \<open>for\<close> loop over fixed bounds: the body for each index in turn.\<close>

primrec for_each :: "('i \<Rightarrow> 's \<Rightarrow> 's option) \<Rightarrow> 'i list \<Rightarrow> 's \<Rightarrow> 's option" where
  "for_each f [] s = Some s"
| "for_each f (i # is) s = do { s \<leftarrow> f i s; for_each f is s }"

lemma for_each_append:
  "for_each f (is @ js) s = do { s \<leftarrow> for_each f is s; for_each f js s }"
  by (induction "is" arbitrary: s) (auto intro: Option.bind_cong)

text \<open>A loop whose body always succeeds is a fold; one that keeps an invariant keeps it.\<close>

lemma for_each_fold:
  assumes "\<And>i s. i \<in> set is \<Longrightarrow> P s \<Longrightarrow> f i s = Some (g i s) \<and> P (g i s)" "P s"
  shows "for_each f is s = Some (fold g is s) \<and> P (fold g is s)"
  using assms by (induction "is" arbitrary: s) auto

text \<open>
  A loop that waits for an interrupt: while \<open>waiting\<close> holds, the next interrupt of the list
  arrives and is handled. It returns with the interrupts that are left, and is \<open>None\<close> when it
  still waits after the last one.
\<close>

fun spin :: "('s \<Rightarrow> bool) \<Rightarrow> ('e \<Rightarrow> 's \<Rightarrow> 's option) \<Rightarrow> 'e list \<Rightarrow> 's \<Rightarrow> ('e list \<times> 's) option" where
  "spin waiting irq [] s = (if waiting s then None else Some ([], s))"
| "spin waiting irq (e # es) s =
     (if waiting s then do { s \<leftarrow> irq e s; spin waiting irq es s } else Some (e # es, s))"

lemma spin_done: "\<not> waiting s \<Longrightarrow> spin waiting irq es s = Some (es, s)"
  by (cases es) simp_all

section \<open>Effects\<close>

text \<open>
  The interface of a frame: \<open>eff s s'\<close> says what may have changed from \<open>s\<close> to \<open>s'\<close>. Whatever
  respects it in each step respects it as a whole.
\<close>

locale effect =
  fixes eff :: "'s \<Rightarrow> 's \<Rightarrow> bool"
  assumes eff_refl: "eff s s"
    and eff_trans: "eff s s1 \<Longrightarrow> eff s1 s2 \<Longrightarrow> eff s s2"
begin

definition obeys :: "('s \<Rightarrow> 's option) \<Rightarrow> bool" where
  "obeys f \<longleftrightarrow> (\<forall>s s'. f s = Some s' \<longrightarrow> eff s s')"

lemma obeysD: "obeys f \<Longrightarrow> f s = Some s' \<Longrightarrow> eff s s'"
  by (simp add: obeys_def)

lemma obeysI: "(\<And>s s'. f s = Some s' \<Longrightarrow> eff s s') \<Longrightarrow> obeys f"
  by (simp add: obeys_def)

lemma obeys_Some: "obeys Some"
  by (simp add: obeys_def eff_refl)

lemma obeys_bind: "obeys f \<Longrightarrow> obeys g \<Longrightarrow> obeys (\<lambda>s. f s \<bind> g)"
  unfolding obeys_def Option.bind_eq_Some_conv by (blast intro: eff_trans)

lemma obeys_for_each: "(\<And>i. i \<in> set is \<Longrightarrow> obeys (f i)) \<Longrightarrow> obeys (for_each f is)"
proof (induction "is")
  case Nil
  then show ?case by (simp add: obeys_def eff_refl)
next
  case (Cons i "is")
  then have "obeys (f i)" "obeys (for_each f is)" by simp_all
  then show ?case
    unfolding obeys_def for_each.simps Option.bind_eq_Some_conv by (blast intro: eff_trans)
qed

lemma obeys_spin:
  assumes "\<And>e. obeys (irq e)"
  shows "spin waiting irq es s = Some (es', s') \<Longrightarrow> eff s s'"
proof (induction es arbitrary: s)
  case Nil
  then show ?case by (simp add: eff_refl split: if_splits)
next
  case (Cons e es)
  show ?case
  proof (cases "waiting s")
    case True
    with Cons.prems obtain s1 where s1: "irq e s = Some s1" "spin waiting irq es s1 = Some (es', s')"
      by (auto simp: Option.bind_eq_Some_conv)
    with Cons.IH [of s1] obeysD [OF assms s1(1)] show ?thesis by (blast intro: eff_trans)
  next
    case False
    with Cons.prems show ?thesis by (simp add: eff_refl)
  qed
qed

end

section \<open>Little-endian values\<close>

text \<open>The four bytes of a 32-bit value, as the x86 stores them, and back.\<close>

definition le_bytes :: "u32 \<Rightarrow> u8 list" where
  "le_bytes w = [ucast w, ucast (drop_bit 8 w), ucast (drop_bit 16 w), ucast (drop_bit 24 w)]"

definition le_word :: "u8 \<Rightarrow> u8 \<Rightarrow> u8 \<Rightarrow> u8 \<Rightarrow> u32" where
  "le_word b0 b1 b2 b3 =
     ucast b0 OR push_bit 8 (ucast b1) OR push_bit 16 (ucast b2) OR push_bit 24 (ucast b3)"

lemma length_le_bytes [simp]: "length (le_bytes w) = 4"
  by (simp add: le_bytes_def)

lemma le_word_le_bytes:
  "le_word (ucast w) (ucast (drop_bit 8 w)) (ucast (drop_bit 16 w)) (ucast (drop_bit 24 w)) = w"
proof (rule bit_word_eqI)
  fix n :: nat
  assume "n < LENGTH(32)"
  then consider "n < 8" | "8 \<le> n" "n < 16" | "16 \<le> n" "n < 24" | "24 \<le> n" "n < 32"
    by fastforce
  then show "bit (le_word (ucast w) (ucast (drop_bit 8 w)) (ucast (drop_bit 16 w))
      (ucast (drop_bit 24 w))) n = bit w n"
    unfolding le_word_def
    by cases (simp_all only: bit_or_iff bit_push_bit_iff bit_ucast_iff bit_drop_bit_eq comp_def,
        auto)
qed

lemma le_bytes_le_word: "le_bytes (le_word b0 b1 b2 b3) = [b0, b1, b2, b3]"
proof -
  have "ucast (le_word b0 b1 b2 b3) = b0"
    and "ucast (drop_bit 8 (le_word b0 b1 b2 b3)) = b1"
    and "ucast (drop_bit 16 (le_word b0 b1 b2 b3)) = b2"
    and "ucast (drop_bit 24 (le_word b0 b1 b2 b3)) = b3"
    unfolding le_word_def by (intro bit_word_eqI; auto simp: bit_simps dest: bit_imp_le_length)+
  then show ?thesis by (simp add: le_bytes_def)
qed

section \<open>Address arithmetic\<close>

lemma of_nat_eq_u32_iff:
  "i < 2 ^ 32 \<Longrightarrow> j < 2 ^ 32 \<Longrightarrow> ((of_nat i :: u32) = of_nat j) = (i = j)"
  by (auto simp: word_of_nat_eq_iff take_bit_nat_eq_self)

lemma unat_of_nat_u32: "i < 2 ^ 32 \<Longrightarrow> unat (of_nat i :: u32) = i"
  by (simp add: unat_of_nat take_bit_nat_eq_self)

lemma unat_u32_less: "unat (a :: u32) < 2 ^ 32"
  using unsigned_less [of a] by simp

lemma unat_add_1:
  assumes "i < (n :: u32)"
  shows "unat (i + 1) = Suc (unat i)"
proof -
  have "Suc (unat i) < 2 ^ 32"
    using assms unat_u32_less [of n] by (simp add: word_less_nat_alt)
  then show ?thesis by (simp add: unat_word_ariths)
qed

lemma sint_of_nat_u32: "n < 2 ^ 31 \<Longrightarrow> sint (of_nat n :: u32) = int n"
  by (simp add: signed_of_nat signed_take_bit_int_eq_self)

lemma sint_of_nat_minus_1:
  assumes "n \<le> 2 ^ 31"
  shows "sint (of_nat n - 1 :: u32) = int n - 1"
proof -
  have "(of_nat n - 1 :: u32) = word_of_int (int n - 1)" by simp
  then have "sint (of_nat n - 1 :: u32) = signed_take_bit 31 (int n - 1)"
    by (simp only: signed_of_int) simp
  moreover have "signed_take_bit 31 (int n - 1) = int n - 1"
    using assms by (intro signed_take_bit_int_eq_self) simp_all
  ultimately show ?thesis by simp
qed

lemma add_of_nat_eq_u32_iff:
  "i < 2 ^ 32 \<Longrightarrow> j < 2 ^ 32 \<Longrightarrow> ((a :: u32) + of_nat i = a + of_nat j) = (i = j)"
  by (simp add: of_nat_eq_u32_iff)

lemma sdiv_of_nat: "int n sdiv int m = int (n div m)"
  by (cases "n = 0"; cases "m = 0") (simp_all add: signed_divide_int_def zdiv_int)

lemma smod_of_nat: "int n smod int m = int (n mod m)"
  by (cases "n = 0") (simp_all add: signed_modulo_int_def zmod_int)

lemma int_div_of_nat:
  "n < 2 ^ 31 \<Longrightarrow> m < 2 ^ 31 \<Longrightarrow> int_div (of_nat n) (of_nat m) = of_nat (n div m)"
  unfolding int_div_def by (simp only: sint_of_nat_u32 sdiv_of_nat of_int_of_nat_eq)

lemma int_mod_of_nat:
  "n < 2 ^ 31 \<Longrightarrow> m < 2 ^ 31 \<Longrightarrow> int_mod (of_nat n) (of_nat m) = of_nat (n mod m)"
  unfolding int_mod_def by (simp only: sint_of_nat_u32 smod_of_nat of_int_of_nat_eq)

lemma of_nat_sless_iff:
  "n < 2 ^ 31 \<Longrightarrow> m < 2 ^ 31 \<Longrightarrow> (of_nat n <s (of_nat m :: i32)) = (n < m)"
  by (simp add: word_sless_alt sint_of_nat_u32)

lemma unat_ucast_u8 [simp]: "unat (ucast (b :: u8) :: u32) = unat b"
proof -
  have "unat b < 2 ^ LENGTH(8)" by (rule unsigned_less)
  then have "unat b < 2 ^ 32" by simp
  then show ?thesis by (simp add: unsigned_ucast_eq take_bit_nat_eq_self)
qed

lemma unat_eqD: "unat (a :: 'a::len word) = unat b \<Longrightarrow> a = b"
proof -
  assume "unat a = unat b"
  then have "(of_nat (unat a) :: 'a word) = of_nat (unat b)" by (simp only:)
  then show "a = b" by simp
qed

lemma ucast_u8_eq [simp]: "((ucast (a :: u8) :: u32) = ucast b) = (a = b)"
  by (metis unat_eqD unat_ucast_u8)

end
