(* ===== verification/Memory.thy ===== *)
theory Memory
  imports Kernel_Prelude
begin

text \<open>
  Byte-addressed memory. Three things are here: the interface of a memory as the C code of
  the kernel uses one (the locale \<open>memory\<close>, with what follows from it for runs of bytes),
  a C object on its own (a local array or struct, addressed from 0), and the memory of the
  machine behind the x86 page walk. The string functions of \<open>lib.c\<close> are parametrised over
  the memory they work on; the locale is what their proofs use, and the last two are its
  interpretations.
\<close>

section \<open>Runs of bytes\<close>

text \<open>The bytes a reader finds from an address on.\<close>

definition bytes_at :: "(u32 \<Rightarrow> u8 option) \<Rightarrow> u32 \<Rightarrow> u8 list \<Rightarrow> bool" where
  "bytes_at r a bs \<longleftrightarrow> (\<forall>i < length bs. r (a + of_nat i) = Some (bs ! i))"

fun read_bytes :: "(u32 \<Rightarrow> u8 option) \<Rightarrow> u32 \<Rightarrow> nat \<Rightarrow> u8 list option" where
  "read_bytes r a 0 = Some []"
| "read_bytes r a (Suc n) = do {
     b \<leftarrow> r a;
     bs \<leftarrow> read_bytes r (a + 1) n;
     Some (b # bs)
   }"

fun write_bytes :: "(u32 \<Rightarrow> u8 \<Rightarrow> 'm \<Rightarrow> 'm option) \<Rightarrow> u32 \<Rightarrow> u8 list \<Rightarrow> 'm \<Rightarrow> 'm option" where
  "write_bytes st a [] m = Some m"
| "write_bytes st a (b # bs) m = do {
     m \<leftarrow> st a b m;
     write_bytes st (a + 1) bs m
   }"

text \<open>A 32-bit load.\<close>

definition ld32 :: "(u32 \<Rightarrow> u8 option) \<Rightarrow> u32 \<Rightarrow> u32 option" where
  "ld32 r a = do {
     b0 \<leftarrow> r a;
     b1 \<leftarrow> r (a + 1);
     b2 \<leftarrow> r (a + 2);
     b3 \<leftarrow> r (a + 3);
     Some (le_word b0 b1 b2 b3)
   }"

lemma bytes_at_Nil [simp]: "bytes_at r a []"
  by (simp add: bytes_at_def)

lemma bytes_at_Cons: "bytes_at r a (b # bs) \<longleftrightarrow> r a = Some b \<and> bytes_at r (a + 1) bs"
  by (auto simp: bytes_at_def less_Suc_eq_0_disj add.assoc)

lemma bytes_at_append:
  "bytes_at r a (bs @ cs) \<longleftrightarrow> bytes_at r a bs \<and> bytes_at r (a + of_nat (length bs)) cs"
  by (induction bs arbitrary: a) (auto simp: bytes_at_Cons algebra_simps)

lemma bytes_at_nth: "bytes_at r a bs \<Longrightarrow> i < length bs \<Longrightarrow> r (a + of_nat i) = Some (bs ! i)"
  by (simp add: bytes_at_def)

lemma bytes_at_take: "bytes_at r a bs \<Longrightarrow> bytes_at r a (take n bs)"
  by (simp add: bytes_at_def)

lemma read_bytes_Some: "read_bytes r a n = Some bs \<longleftrightarrow> length bs = n \<and> bytes_at r a bs"
  by (induction n arbitrary: a bs)
    (auto simp: bytes_at_Cons Option.bind_eq_Some_conv length_Suc_conv)

lemma write_bytes_append:
  "write_bytes st a (bs @ cs) m =
     do { m \<leftarrow> write_bytes st a bs m; write_bytes st (a + of_nat (length bs)) cs m }"
  by (induction bs arbitrary: a m) (auto simp: algebra_simps intro: Option.bind_cong)

lemma ld32_bytes_at:
  assumes "bytes_at r a (le_bytes w)"
  shows "ld32 r a = Some w"
proof -
  have "r a = Some (ucast w)" "r (a + 1) = Some (ucast (drop_bit 8 w))"
    "r (a + 2) = Some (ucast (drop_bit 16 w))" "r (a + 3) = Some (ucast (drop_bit 24 w))"
    using assms by (simp_all add: le_bytes_def bytes_at_Cons add.commute)
  then show ?thesis by (simp only: ld32_def Option.bind.bind_lunit le_word_le_bytes)
qed

section \<open>The interface of a memory\<close>

text \<open>
  \<open>cell m a\<close> is the storage behind address \<open>a\<close> (\<open>None\<close>: nothing is there), so that two
  addresses with the same cell are aliases; \<open>rest m\<close> is the part of the state that a store
  leaves alone.
\<close>

definition range_ok :: "('m \<Rightarrow> u32 \<Rightarrow> 'c option) \<Rightarrow> 'm \<Rightarrow> u32 \<Rightarrow> nat \<Rightarrow> bool" where
  "range_ok cell m a n \<longleftrightarrow>
     (\<forall>i < n. cell m (a + of_nat i) \<noteq> None) \<and>
     (\<forall>i < n. \<forall>j < n. cell m (a + of_nat i) = cell m (a + of_nat j) \<longrightarrow> i = j)"

definition outside :: "('m \<Rightarrow> u32 \<Rightarrow> 'c option) \<Rightarrow> 'm \<Rightarrow> u32 \<Rightarrow> nat \<Rightarrow> u32 \<Rightarrow> bool" where
  "outside cell m a n b \<longleftrightarrow> (\<forall>i < n. cell m b \<noteq> cell m (a + of_nat i))"

definition apart :: "('m \<Rightarrow> u32 \<Rightarrow> 'c option) \<Rightarrow> 'm \<Rightarrow> u32 \<Rightarrow> nat \<Rightarrow> u32 \<Rightarrow> nat \<Rightarrow> bool" where
  "apart cell m a n b k \<longleftrightarrow> (\<forall>j < k. outside cell m a n (b + of_nat j))"

text \<open>What a write of a run of bytes has to achieve, and nothing else.\<close>

definition stored ::
  "('m \<Rightarrow> u32 \<Rightarrow> 'c option) \<Rightarrow> ('m \<Rightarrow> u32 \<Rightarrow> u8 option) \<Rightarrow> ('m \<Rightarrow> 'r) \<Rightarrow>
   'm \<Rightarrow> u32 \<Rightarrow> u8 list \<Rightarrow> 'm \<Rightarrow> bool" where
  "stored cell ld rest m a bs m' \<longleftrightarrow>
     bytes_at (ld m') a bs \<and>
     (\<forall>b. outside cell m a (length bs) b \<longrightarrow> ld m' b = ld m b) \<and>
     rest m' = rest m"

lemma range_ok_Suc:
  "range_ok cell m a (Suc n) \<longleftrightarrow>
     cell m a \<noteq> None \<and> outside cell m (a + 1) n a \<and> range_ok cell m (a + 1) n"
  unfolding range_ok_def outside_def All_less_Suc2 of_nat_Suc
  by (auto simp: add.assoc)

lemma range_ok_cell: "range_ok cell m a n \<Longrightarrow> i < n \<Longrightarrow> cell m (a + of_nat i) \<noteq> None"
  by (simp add: range_ok_def)

lemma range_ok_mono: "range_ok cell m a n \<Longrightarrow> k \<le> n \<Longrightarrow> range_ok cell m a k"
  by (auto simp: range_ok_def)

lemma range_ok_shift:
  assumes "range_ok cell m a (k + n)"
  shows "range_ok cell m (a + of_nat k) n"
proof -
  have "cell m (a + of_nat k + of_nat i) = cell m (a + of_nat (k + i))" for i
    by (simp add: add.assoc)
  with assms show ?thesis
    unfolding range_ok_def by (metis add_left_cancel nat_add_left_cancel_less)
qed

lemma outside_sub:
  assumes "outside cell m a n b" "p + q \<le> n"
  shows "outside cell m (a + of_nat p) q b"
  unfolding outside_def
proof (intro allI impI)
  fix i assume "i < q"
  then have "cell m b \<noteq> cell m (a + of_nat (p + i))"
    using assms by (simp add: outside_def del: of_nat_add)
  then show "cell m b \<noteq> cell m (a + of_nat p + of_nat i)" by (simp add: add.assoc)
qed

lemma range_ok_outside:
  assumes "range_ok cell m a n" "i < n" "k + j \<le> n" "i < k \<or> k + j \<le> i"
  shows "outside cell m (a + of_nat k) j (a + of_nat i)"
  unfolding outside_def
proof (intro allI impI notI)
  fix l assume l: "l < j"
    and eq: "cell m (a + of_nat i) = cell m (a + of_nat k + of_nat l)"
  then have "cell m (a + of_nat i) = cell m (a + of_nat (k + l))"
    by (simp add: add.assoc)
  moreover have "k + l < n" using l assms(3) by simp
  ultimately have "i = k + l" using assms(1,2) by (auto simp: range_ok_def)
  with l assms(4) show False by simp
qed

locale memory =
  fixes cell :: "'m \<Rightarrow> u32 \<Rightarrow> 'c option"
    and ld :: "'m \<Rightarrow> u32 \<Rightarrow> u8 option"
    and st :: "u32 \<Rightarrow> u8 \<Rightarrow> 'm \<Rightarrow> 'm option"
    and rest :: "'m \<Rightarrow> 'r"
  assumes ld_unmapped: "cell m a = None \<Longrightarrow> ld m a = None"
    and st_unmapped: "cell m a = None \<Longrightarrow> st a v m = None"
    and st_mapped: "cell m a = Some c \<Longrightarrow> \<exists>m'. st a v m = Some m'"
    and ld_st_same: "st a v m = Some m' \<Longrightarrow> cell m b = cell m a \<Longrightarrow> ld m' b = Some v"
    and ld_st_other: "st a v m = Some m' \<Longrightarrow> cell m b \<noteq> cell m a \<Longrightarrow> ld m' b = ld m b"
    and rest_st: "st a v m = Some m' \<Longrightarrow> rest m' = rest m"
    and cell_rest: "rest m' = rest m \<Longrightarrow> cell m' = cell m"
begin

lemma stored_Nil: "stored cell ld rest m a [] m"
  by (simp add: stored_def)

lemma stored_cell: "stored cell ld rest m a bs m' \<Longrightarrow> cell m' = cell m"
  by (auto simp: stored_def intro: cell_rest)

lemma stored_one: "st a v m = Some m' \<Longrightarrow> stored cell ld rest m a [v] m'"
  by (auto simp: stored_def bytes_at_Cons outside_def
      intro: ld_st_same ld_st_other rest_st)

text \<open>Two adjacent writes are one.\<close>

lemma stored_append:
  assumes ok: "range_ok cell m a (length bs + length cs)"
    and 1: "stored cell ld rest m a bs m1"
    and 2: "stored cell ld rest m1 (a + of_nat (length bs)) cs m2"
  shows "stored cell ld rest m a (bs @ cs) m2"
proof -
  have c: "cell m1 = cell m" using 1 by (rule stored_cell)
  have "ld m2 (a + of_nat i) = Some (bs ! i)" if "i < length bs" for i
  proof -
    have "outside cell m (a + of_nat (length bs)) (length cs) (a + of_nat i)"
      using that by (intro range_ok_outside [OF ok]) auto
    with 2 c have "ld m2 (a + of_nat i) = ld m1 (a + of_nat i)"
      by (simp add: stored_def outside_def)
    with 1 that show ?thesis by (simp add: stored_def bytes_at_def)
  qed
  then have "bytes_at (ld m2) a (bs @ cs)"
    using 2 by (simp add: bytes_at_append stored_def) (simp add: bytes_at_def)
  moreover have "ld m2 b = ld m b" if "outside cell m a (length (bs @ cs)) b" for b
  proof -
    have "outside cell m a (length bs) b" using that by (simp add: outside_def)
    moreover have "outside cell m (a + of_nat (length bs)) (length cs) b"
      using that by (rule outside_sub) simp
    ultimately show ?thesis using 1 2 c by (simp add: stored_def outside_def)
  qed
  moreover have "rest m2 = rest m" using 1 2 by (simp add: stored_def)
  ultimately show ?thesis by (simp add: stored_def)
qed

text \<open>The same, when the upper part is written first.\<close>

lemma stored_prepend:
  assumes ok: "range_ok cell m a (length bs + length cs)"
    and 1: "stored cell ld rest m (a + of_nat (length bs)) cs m1"
    and 2: "stored cell ld rest m1 a bs m2"
  shows "stored cell ld rest m a (bs @ cs) m2"
proof -
  have c: "cell m1 = cell m" using 1 by (rule stored_cell)
  have "ld m2 (a + of_nat (length bs) + of_nat i) = Some (cs ! i)" if i: "i < length cs" for i
  proof -
    have "outside cell m (a + of_nat 0) (length bs) (a + of_nat (length bs + i))"
      using i by (intro range_ok_outside [OF ok]) auto
    with 2 c have "ld m2 (a + of_nat (length bs) + of_nat i)
        = ld m1 (a + of_nat (length bs) + of_nat i)"
      by (simp add: stored_def outside_def add.assoc)
    with 1 i show ?thesis by (simp add: stored_def bytes_at_def)
  qed
  then have "bytes_at (ld m2) a (bs @ cs)"
    using 2 by (simp add: bytes_at_append stored_def) (simp add: bytes_at_def)
  moreover have "ld m2 b = ld m b" if o: "outside cell m a (length (bs @ cs)) b" for b
  proof -
    have "outside cell m a (length bs) b"
      using outside_sub [OF o, of 0 "length bs"] by simp
    moreover have "outside cell m (a + of_nat (length bs)) (length cs) b"
      using o by (rule outside_sub) simp
    ultimately show ?thesis using 1 2 c by (simp add: stored_def outside_def)
  qed
  moreover have "rest m2 = rest m" using 1 2 by (simp add: stored_def)
  ultimately show ?thesis by (simp add: stored_def)
qed

text \<open>One byte of a run is replaced.\<close>

lemma stored_update:
  assumes ok: "range_ok cell m a (length bs)" and bs: "bytes_at (ld m) a bs"
    and i: "i < length bs" and st: "st (a + of_nat i) v m = Some m'"
  shows "stored cell ld rest m a (bs[i := v]) m'"
proof -
  have s: "stored cell ld rest m (a + of_nat i) [v] m'" using st by (rule stored_one)
  have "ld m' (a + of_nat j) = Some (bs[i := v] ! j)" if j: "j < length bs" for j
  proof (cases "j = i")
    case True
    with s i show ?thesis by (simp add: stored_def bytes_at_Cons)
  next
    case False
    then have "outside cell m (a + of_nat i) 1 (a + of_nat j)"
      using i j by (intro range_ok_outside [OF ok]) auto
    with s have "ld m' (a + of_nat j) = ld m (a + of_nat j)" by (simp add: stored_def)
    with bs j False show ?thesis by (simp add: bytes_at_def)
  qed
  moreover have "ld m' b = ld m b" if o: "outside cell m a (length bs) b" for b
    using s outside_sub [OF o, of i 1] i by (simp add: stored_def)
  ultimately show ?thesis using s by (simp add: stored_def bytes_at_def)
qed

text \<open>A second write of the same place replaces the first.\<close>

lemma stored_overwrite:
  assumes 1: "stored cell ld rest m a bs m1" and 2: "stored cell ld rest m1 a cs m2"
    and len: "length cs = length bs"
  shows "stored cell ld rest m a cs m2"
proof -
  have "cell m1 = cell m" using 1 by (rule stored_cell)
  then show ?thesis using 1 2 len by (simp add: stored_def outside_def)
qed

lemma stored_prefix:
  assumes ok: "range_ok cell m a (length bs)"
    and 1: "stored cell ld rest m a bs m1" and 2: "stored cell ld rest m1 a cs m2"
    and len: "length cs \<le> length bs"
  shows "stored cell ld rest m a (cs @ drop (length cs) bs) m2"
proof -
  have c: "cell m1 = cell m" using 1 by (rule stored_cell)
  have "ld m2 (a + of_nat i) = Some (bs ! i)" if "length cs \<le> i" "i < length bs" for i
  proof -
    have "outside cell m (a + of_nat 0) (length cs) (a + of_nat i)"
      using that by (intro range_ok_outside [OF ok]) auto
    with 2 c have "ld m2 (a + of_nat i) = ld m1 (a + of_nat i)"
      by (simp add: stored_def outside_def)
    with 1 that show ?thesis by (simp add: stored_def bytes_at_def)
  qed
  moreover have "outside cell m a (length cs) b" if "outside cell m a (length bs) b" for b
    using that len by (simp add: outside_def)
  ultimately show ?thesis
    using 1 2 c len by (simp add: stored_def bytes_at_def nth_append outside_def)
qed

lemma stored_keeps:
  assumes "stored cell ld rest m a bs m'" "apart cell m a (length bs) b k" "bytes_at (ld m) b cs"
    "length cs \<le> k"
  shows "bytes_at (ld m') b cs"
  using assms by (simp add: stored_def apart_def bytes_at_def)

lemma write_bytes_stored:
  "range_ok cell m a (length bs) \<Longrightarrow>
     \<exists>m'. write_bytes st a bs m = Some m' \<and> stored cell ld rest m a bs m'"
proof (induction bs arbitrary: a m)
  case Nil
  then show ?case by (simp add: stored_Nil)
next
  case (Cons b bs)
  then obtain m1 where m1: "st a b m = Some m1"
    using st_mapped by (fastforce simp: range_ok_Suc)
  then have s1: "stored cell ld rest m a [b] m1" by (rule stored_one)
  then have c: "cell m1 = cell m" by (rule stored_cell)
  with Cons.prems have "range_ok cell m1 (a + 1) (length bs)"
    by (simp add: range_ok_Suc) (simp add: range_ok_def)
  then obtain m2 where m2: "write_bytes st (a + 1) bs m1 = Some m2"
    and s2: "stored cell ld rest m1 (a + 1) bs m2"
    using Cons.IH by blast
  have "stored cell ld rest m a ([b] @ bs) m2"
    using Cons.prems by (intro stored_append [OF _ s1]) (simp_all add: s2)
  with m1 m2 show ?case by auto
qed

text \<open>
  What a write to \<open>n\<close> bytes at \<open>d\<close> cannot change, however much of it has been done.
\<close>

definition kept :: "'m \<Rightarrow> u32 \<Rightarrow> nat \<Rightarrow> ('m \<Rightarrow> bool) \<Rightarrow> bool" where
  "kept m d n P \<longleftrightarrow>
     (\<forall>m'. rest m' = rest m \<longrightarrow> (\<forall>b. outside cell m d n b \<longrightarrow> ld m' b = ld m b) \<longrightarrow> P m')"

lemma kept_now: "kept m d n P \<Longrightarrow> P m"
  by (simp add: kept_def)

lemma kept_mono: "kept m d n P \<Longrightarrow> (\<And>m. P m \<Longrightarrow> Q m) \<Longrightarrow> kept m d n Q"
  by (simp add: kept_def)

lemma kept_stored:
  assumes f: "kept m d n P" and s: "stored cell ld rest m (d + of_nat k) cs m1"
    and le: "k + length cs \<le> n" "k + length cs \<le> l" "l + j = n"
  shows "kept m1 (d + of_nat l) j P"
  unfolding kept_def
proof (intro allI impI)
  have c: "cell m1 = cell m" using s by (rule stored_cell)
  fix m' assume r: "rest m' = rest m1"
    and same: "\<forall>b. outside cell m1 (d + of_nat l) j b \<longrightarrow> ld m' b = ld m1 b"
  have "ld m' b = ld m b" if o: "outside cell m d n b" for b
  proof -
    have "ld m' b = ld m1 b"
      using same outside_sub [OF o, of l j] le c by (simp add: outside_def)
    also have "\<dots> = ld m b"
      using s outside_sub [OF o, of k "length cs"] le by (simp add: stored_def)
    finally show ?thesis .
  qed
  moreover have "rest m' = rest m" using r s by (simp add: stored_def)
  ultimately show "P m'" using f by (simp add: kept_def)
qed

text \<open>
  A source that a write to \<open>n\<close> bytes at \<open>d\<close> does not disturb: whatever has been written
  there so far, the reader still finds the same bytes.
\<close>

definition feeds :: "('m \<Rightarrow> u32 \<Rightarrow> u8 option) \<Rightarrow> 'm \<Rightarrow> u32 \<Rightarrow> nat \<Rightarrow> u32 \<Rightarrow> u8 list \<Rightarrow> bool" where
  "feeds rd m d n a bs \<longleftrightarrow>
     (\<forall>m'. rest m' = rest m \<longrightarrow> (\<forall>b. outside cell m d n b \<longrightarrow> ld m' b = ld m b) \<longrightarrow>
        bytes_at (rd m') a bs)"

lemma feeds_kept: "feeds rd m d n a bs \<longleftrightarrow> kept m d n (\<lambda>m. bytes_at (rd m) a bs)"
  by (simp add: feeds_def kept_def)

lemma feeds_const: "bytes_at r a bs \<Longrightarrow> feeds (\<lambda>_. r) m d n a bs"
  by (simp add: feeds_def)

lemma feeds_self:
  "bytes_at (ld m) a bs \<Longrightarrow> apart cell m d n a (length bs) \<Longrightarrow> feeds ld m d n a bs"
  by (simp add: feeds_def apart_def bytes_at_def)

lemma feeds_now: "feeds rd m d n a bs \<Longrightarrow> bytes_at (rd m) a bs"
  by (simp add: feeds_def)

lemma feeds_append:
  "feeds rd m d n a (bs @ cs) \<longleftrightarrow>
     feeds rd m d n a bs \<and> feeds rd m d n (a + of_nat (length bs)) cs"
  by (auto simp: feeds_def bytes_at_append)

lemma feeds_Cons:
  "feeds rd m d n a (b # bs) \<longleftrightarrow> feeds rd m d n a [b] \<and> feeds rd m d n (a + 1) bs"
  using feeds_append [of rd m d n a "[b]" bs] by simp

text \<open>After part of the target is written, the source still feeds what remains.\<close>

lemma feeds_stored:
  assumes f: "feeds rd m d n a bs" and s: "stored cell ld rest m (d + of_nat k) cs m1"
    and le: "k + length cs \<le> n" "k + length cs \<le> l" "l + j = n"
  shows "feeds rd m1 (d + of_nat l) j a bs"
  using kept_stored [of m d n "\<lambda>m. bytes_at (rd m) a bs"] assms by (simp add: feeds_kept)

text \<open>
  Ready to copy \<open>bs\<close> from \<open>s\<close> to \<open>d\<close>: the target is there and the source feeds it. A copy
  made in two parts leaves the second part ready after the first.
\<close>

definition ready :: "('m \<Rightarrow> u32 \<Rightarrow> u8 option) \<Rightarrow> 'm \<Rightarrow> u32 \<Rightarrow> u32 \<Rightarrow> u8 list \<Rightarrow> bool" where
  "ready rd m d s bs \<longleftrightarrow> range_ok cell m d (length bs) \<and> feeds rd m d (length bs) s bs"

lemma range_ok_stored:
  "stored cell ld rest m a bs m' \<Longrightarrow> range_ok cell m' b n = range_ok cell m b n"
  by (drule stored_cell) (simp add: range_ok_def)

lemma feeds_mono:
  assumes "feeds rd m d n s bs" "k \<le> n"
  shows "feeds rd m d k s bs"
  unfolding feeds_def
proof (intro allI impI)
  fix m' assume r: "rest m' = rest m" and same: "\<forall>b. outside cell m d k b \<longrightarrow> ld m' b = ld m b"
  then have "\<forall>b. outside cell m d n b \<longrightarrow> ld m' b = ld m b"
    using assms(2) by (auto simp: outside_def)
  with r assms(1) show "bytes_at (rd m') s bs" by (simp add: feeds_def)
qed

lemma ready_now: "ready rd m d s bs \<Longrightarrow> bytes_at (rd m) s bs"
  by (auto simp: ready_def intro: feeds_now)

lemma ready_first:
  "ready rd m d s (bs @ cs) \<Longrightarrow> ready rd m d s bs"
  unfolding ready_def
  by (metis feeds_append feeds_mono length_append le_add1 range_ok_mono)

lemma ready_second:
  assumes r: "ready rd m d s (bs @ cs)" and s1: "stored cell ld rest m d bs m1"
  shows "ready rd m1 (d + of_nat (length bs)) (s + of_nat (length bs)) cs"
proof -
  have "range_ok cell m (d + of_nat (length bs)) (length cs)"
    using r by (auto simp: ready_def intro: range_ok_shift)
  moreover have "feeds rd m1 (d + of_nat (length bs)) (length cs) (s + of_nat (length bs)) cs"
    using r s1 by (intro feeds_stored [where m = m and n = "length (bs @ cs)" and k = 0])
      (auto simp: ready_def feeds_append)
  ultimately show ?thesis by (simp add: ready_def range_ok_stored [OF s1])
qed

lemma ready_join:
  assumes "ready rd m d s (bs @ cs)" "stored cell ld rest m d bs m1"
    "stored cell ld rest m1 (d + of_nat (length bs)) cs m2"
  shows "stored cell ld rest m d (bs @ cs) m2"
  using assms by (intro stored_append) (auto simp: ready_def)

lemma ready_write:
  "ready rd m d s bs \<Longrightarrow> \<exists>m'. write_bytes st d bs m = Some m' \<and> stored cell ld rest m d bs m'"
  by (intro write_bytes_stored) (simp add: ready_def)

lemma ready_byte:
  assumes "ready rd m d s [b]"
  obtains m' where "rd m s = Some b" "st d b m = Some m'" "stored cell ld rest m d [b] m'"
proof -
  obtain m' where "write_bytes st d [b] m = Some m'" using ready_write [OF assms] by blast
  then have "st d b m = Some m'" by (simp add: Option.bind_eq_Some_conv)
  then show thesis
    using that ready_now [OF assms] by (auto simp: bytes_at_Cons intro: stored_one)
qed

end

section \<open>A C object on its own\<close>

text \<open>
  A local array or struct: a list of bytes, addressed by offset. An access outside it is
  undefined in C and is \<open>None\<close> here.
\<close>

definition obj_cell :: "u8 list \<Rightarrow> u32 \<Rightarrow> nat option" where
  "obj_cell xs a = (if unat a < length xs then Some (unat a) else None)"

definition ldo :: "u8 list \<Rightarrow> u32 \<Rightarrow> u8 option" where
  "ldo xs a = arr_get xs (unat a)"

definition sto :: "u32 \<Rightarrow> u8 \<Rightarrow> u8 list \<Rightarrow> u8 list option" where
  "sto a v xs = arr_set (unat a) v xs"

interpretation obj: memory obj_cell ldo sto length
  by unfold_locales
    (auto simp: obj_cell_def ldo_def sto_def arr_get_def arr_set_def fun_eq_iff
      split: if_splits)

lemma obj_range_ok: "n \<le> length xs \<Longrightarrow> n < 2 ^ 32 \<Longrightarrow> range_ok obj_cell xs 0 n"
  by (auto simp: range_ok_def obj_cell_def unat_of_nat_u32)

lemma obj_stored:
  assumes s: "stored obj_cell ldo length xs (of_nat k) bs ys"
    and le: "k + length bs \<le> length xs" and small: "length xs < 2 ^ 32"
  shows "ys = take k xs @ bs @ drop (k + length bs) xs"
proof (rule nth_equalityI)
  have len: "length ys = length xs" using s by (simp add: stored_def)
  then show "length ys = length (take k xs @ bs @ drop (k + length bs) xs)" using le by simp
  fix i assume "i < length ys"
  then have i: "i < length xs" by (simp add: len)
  then have u: "unat (of_nat i :: u32) = i" using small by (intro unat_of_nat_u32) simp
  show "ys ! i = (take k xs @ bs @ drop (k + length bs) xs) ! i"
  proof (cases "k \<le> i \<and> i < k + length bs")
    case True
    then have "ldo ys (of_nat k + of_nat (i - k)) = Some (bs ! (i - k))"
      using s by (intro bytes_at_nth [of "ldo ys"]) (auto simp: stored_def)
    then have "ldo ys (of_nat i) = Some (bs ! (i - k))" using True by simp
    then show ?thesis using True le u by (auto simp: ldo_def arr_get_eq_Some nth_append)
  next
    case False
    have "unat (of_nat k + of_nat j :: u32) = k + j" if "j < length bs" for j
      using unat_of_nat_u32 [of "k + j"] that le small by simp
    then have "outside obj_cell xs (of_nat k) (length bs) (of_nat i)"
      using False i u by (auto simp: outside_def obj_cell_def)
    then have "ldo ys (of_nat i) = ldo xs (of_nat i)" using s by (simp add: stored_def)
    then have "ys ! i = xs ! i" using i u by (simp add: ldo_def len)
    then show ?thesis using False le i by (auto simp: nth_append)
  qed
qed

lemma obj_bytes_at: "length xs < 2 ^ 32 \<Longrightarrow> bytes_at (ldo xs) 0 xs"
  by (simp add: bytes_at_def ldo_def unat_of_nat_u32)

end
