(* ===== verification/Paging.thy ===== *)
theory Paging
  imports Memory
begin

text \<open>
  The machine's memory and \<open>page.c\<close>: physical bytes, the three page tables of the kernel
  and the page walk of the x86, then the code that fills the tables. The walk is the
  processor's (two levels, 4 MB pages by the PS bit, user access by the U/S bits); it is
  taken without a TLB, as if every change of a table were seen at once, which the code does
  not always see to: several changes of \<open>page_table_vid[0]\<close> are not followed by a reload of CR3.
\<close>

section \<open>page.h\<close>

abbreviation "NUM_ENTRIES \<equiv> (1024 :: nat)"
abbreviation "FOUR_KB \<equiv> (4096 :: u32)"
abbreviation "ONE_GIG \<equiv> (0x40000000 :: u32)"
abbreviation (input) "PRESENT \<equiv> (1 :: u32)"
abbreviation (input) "RW \<equiv> (2 :: u32)"
abbreviation (input) "USER \<equiv> (4 :: u32)"
abbreviation "MB_4 \<equiv> (0x400000 :: u32)"
abbreviation "SET_4MB \<equiv> (0x80 :: u32)"
abbreviation "VIM_MEM_INDEX \<equiv> (0xB8000 :: u32)"

text \<open>
  The tables are the arrays of \<open>page.h\<close>. Where the linker puts two of them is part of the
  state, since a page directory entry names them by address. \<open>paging\<close> is bit 31 of CR0.
\<close>

record mach =
  phys :: "u32 \<Rightarrow> u8"
  paging :: bool
  page_directory :: "nat \<Rightarrow> u32"
  page_table :: "nat \<Rightarrow> u32"
  page_table_vid :: "nat \<Rightarrow> u32"
  page_table_at :: u32
  page_table_vid_at :: u32

section \<open>The page walk\<close>

datatype privilege = Supervisor | User

definition frame_of :: "u32 \<Rightarrow> u32" where
  "frame_of e = push_bit 12 (drop_bit 12 e)"

text \<open>An entry lets an access through: it is present, and open to the user if need be.\<close>

definition allows :: "privilege \<Rightarrow> u32 \<Rightarrow> bool" where
  "allows pr e \<longleftrightarrow> bit e 0 \<and> (pr = User \<longrightarrow> bit e 2)"

definition table_at :: "'a mach_scheme \<Rightarrow> u32 \<Rightarrow> (nat \<Rightarrow> u32) option" where
  "table_at s p =
     (if p = page_table_at s then Some (page_table s)
      else if p = page_table_vid_at s then Some (page_table_vid s)
      else None)"

definition xlate :: "privilege \<Rightarrow> 'a mach_scheme \<Rightarrow> u32 \<Rightarrow> u32 option" where
  "xlate pr s a =
     (if \<not> paging s then Some a
      else let pde = page_directory s (unat (drop_bit 22 a)) in
        if \<not> allows pr pde then None
        else if bit pde 7 then Some (push_bit 22 (drop_bit 22 pde) OR take_bit 22 a)
        else do {
          t \<leftarrow> table_at s (frame_of pde);
          let pte = t (unat (take_bit 10 (drop_bit 12 a)));
          if allows pr pte then Some (frame_of pte OR take_bit 12 a) else None
        })"

section \<open>Loads and stores of the kernel\<close>

definition ld8 :: "'a mach_scheme \<Rightarrow> u32 \<Rightarrow> u8 option" where
  "ld8 s a = map_option (phys s) (xlate Supervisor s a)"

definition st8 :: "u32 \<Rightarrow> u8 \<Rightarrow> 'a mach_scheme \<Rightarrow> 'a mach_scheme option" where
  "st8 a v s = do { p \<leftarrow> xlate Supervisor s a; Some (s\<lparr>phys := (phys s)(p := v)\<rparr>) }"

text \<open>What a store cannot change: everything but the bytes behind the mapped addresses.\<close>

definition hidden :: "privilege \<Rightarrow> 'a mach_scheme \<Rightarrow> 'a mach_scheme" where
  "hidden pr s = s\<lparr>phys := (\<lambda>p. if p \<in> ran (xlate pr s) then 0 else phys s p)\<rparr>"

lemma xlate_phys [simp]: "xlate pr (s\<lparr>phys := f\<rparr>) = xlate pr s"
  by (simp add: fun_eq_iff xlate_def table_at_def Let_def)

lemma xlate_hidden: "xlate pr (hidden pr' s) = xlate pr s"
  by (simp add: hidden_def)

lemma hidden_eqD:
  assumes "hidden pr s' = hidden pr s"
  shows "s' = s\<lparr>phys := phys s'\<rparr>" "p \<notin> ran (xlate pr s) \<Longrightarrow> phys s' p = phys s p"
proof -
  show "s' = s\<lparr>phys := phys s'\<rparr>"
    using assms unfolding hidden_def
    by (metis (no_types, lifting) mach.surjective mach.update_convs(1))
  have "xlate pr s' = xlate pr s" using arg_cong [OF assms, of "xlate pr"] by (simp add: xlate_hidden)
  moreover have "phys (hidden pr s') p = phys (hidden pr s) p" by (simp only: assms)
  ultimately show "p \<notin> ran (xlate pr s) \<Longrightarrow> phys s' p = phys s p" by (simp add: hidden_def)
qed

lemma hidden_st: "xlate pr s a = Some p \<Longrightarrow> hidden pr (s\<lparr>phys := (phys s)(p := v)\<rparr>) = hidden pr s"
  by (auto simp: hidden_def fun_eq_iff ran_def intro!: mach.fold_congs)

interpretation kmem: memory "xlate Supervisor" ld8 st8 "hidden Supervisor"
proof unfold_locales
  fix m m' :: "'a mach_scheme"
  assume "hidden Supervisor m' = hidden Supervisor m"
  then show "xlate Supervisor m' = xlate Supervisor m"
    by (metis xlate_hidden)
qed (auto simp: ld8_def st8_def hidden_st Option.bind_eq_Some_conv map_option_case
      split: option.splits)

abbreviation mem_stored :: "'a mach_scheme \<Rightarrow> u32 \<Rightarrow> u8 list \<Rightarrow> 'a mach_scheme \<Rightarrow> bool" where
  "mem_stored \<equiv> stored (xlate Supervisor) ld8 (hidden Supervisor)"

lemma mem_stored_phys: "mem_stored s a bs s' \<Longrightarrow> s' = s\<lparr>phys := phys s'\<rparr>"
  unfolding stored_def by (blast dest: hidden_eqD(1))

text \<open>In physical memory, only the bytes behind the range change.\<close>

lemma mem_stored_frame:
  assumes "mem_stored s a bs s'" "\<And>i. i < length bs \<Longrightarrow> xlate Supervisor s (a + of_nat i) \<noteq> Some p"
  shows "phys s' p = phys s p"
proof (cases "\<exists>b. xlate Supervisor s b = Some p")
  case True
  then obtain b where b: "xlate Supervisor s b = Some p" by blast
  then have "outside (xlate Supervisor) s a (length bs) b"
    unfolding outside_def using assms(2) by metis
  then have "ld8 s' b = ld8 s b" using assms(1) by (simp add: stored_def)
  moreover have "xlate Supervisor s' b = Some p" using b kmem.stored_cell [OF assms(1)] by simp
  ultimately show ?thesis using b by (simp add: ld8_def)
next
  case False
  then have "p \<notin> ran (xlate Supervisor s)" by (auto simp: ran_def)
  moreover have "hidden Supervisor s' = hidden Supervisor s" using assms(1) by (simp add: stored_def)
  ultimately show ?thesis by (rule hidden_eqD(2) [rotated])
qed

section \<open>page.c\<close>

definition init_page_table_entry :: "nat \<Rightarrow> 'a mach_scheme \<Rightarrow> 'a mach_scheme" where
  "init_page_table_entry i s =
     (let s = s\<lparr>page_table := (page_table s)(i := (of_nat i * FOUR_KB) OR RW OR USER)\<rparr>;
          s = (if of_nat i = VIM_MEM_INDEX div FOUR_KB
               then s\<lparr>page_table :=
                 (page_table s)(i := (of_nat i * FOUR_KB) OR RW OR PRESENT OR USER)\<rparr>
               else s)
      in s\<lparr>page_table_vid := (page_table_vid s)(i := (of_nat i * FOUR_KB) OR RW OR USER)\<rparr>)"

definition init_page_table :: "'a mach_scheme \<Rightarrow> 'a mach_scheme" where
  "init_page_table s =
     (let s = fold init_page_table_entry [0..<NUM_ENTRIES] s
      in s\<lparr>page_table_vid := (page_table_vid s)(
           0 := VIM_MEM_INDEX OR RW OR PRESENT OR USER,
           1 := (VIM_MEM_INDEX + 1 * FOUR_KB) OR RW OR PRESENT OR USER,
           2 := (VIM_MEM_INDEX + 2 * FOUR_KB) OR RW OR PRESENT OR USER,
           3 := (VIM_MEM_INDEX + 3 * FOUR_KB) OR RW OR PRESENT OR USER)\<rparr>)"

text \<open>The inline assembly at the end loads CR3, sets CR4.PSE and then CR0.PG.\<close>

definition initialize_page :: "'a mach_scheme \<Rightarrow> 'a mach_scheme" where
  "initialize_page s =
     (let s = fold (\<lambda>i s. s\<lparr>page_directory := (page_directory s)(i := RW)\<rparr>) [0..<NUM_ENTRIES] s;
          s = init_page_table s;
          s = s\<lparr>page_directory := (page_directory s)(
                0 := page_table_at s OR RW OR PRESENT,
                1 := MB_4 OR RW OR PRESENT OR SET_4MB,
                unat (ONE_GIG div MB_4) := page_table_vid_at s OR RW OR PRESENT OR USER)\<rparr>
      in s\<lparr>paging := True\<rparr>)"

section \<open>The tables after the fill\<close>

lemma fold_upd: "fold (\<lambda>i f. f(i := g i)) [0..<n] f = (\<lambda>i. if i < n then g i else f i)"
  by (induction n) (auto simp: fun_eq_iff less_Suc_eq)

lemma page_directory_fill:
  "fold (\<lambda>i s. s\<lparr>page_directory := (page_directory s)(i := v)\<rparr>) xs s
   = s\<lparr>page_directory := fold (\<lambda>i f. f(i := v)) xs (page_directory s)\<rparr>"
  by (induction xs arbitrary: s) simp_all

definition low_entry :: "nat \<Rightarrow> u32" where
  "low_entry i = (if of_nat i = VIM_MEM_INDEX div FOUR_KB
     then (of_nat i * FOUR_KB) OR RW OR PRESENT OR USER
     else (of_nat i * FOUR_KB) OR RW OR USER)"

definition vid_entry :: "nat \<Rightarrow> u32" where
  "vid_entry i = (of_nat i * FOUR_KB) OR RW OR USER"

lemma init_page_table_fill:
  "fold init_page_table_entry xs s
   = s\<lparr>page_table := fold (\<lambda>i f. f(i := low_entry i)) xs (page_table s),
      page_table_vid :=
        fold (\<lambda>i f. f(i := vid_entry i)) xs (page_table_vid s)\<rparr>"
  by (induction xs arbitrary: s)
    (simp_all add: init_page_table_entry_def low_entry_def vid_entry_def Let_def)


lemma initialize_page_eq:
  "initialize_page s = s\<lparr>paging := True,
     page_directory := (\<lambda>i. if i < NUM_ENTRIES then RW else page_directory s i)
       (0 := page_table_at s OR RW OR PRESENT,
        1 := MB_4 OR RW OR PRESENT OR SET_4MB,
        256 := page_table_vid_at s OR RW OR PRESENT OR USER),
     page_table := (\<lambda>i. if i < NUM_ENTRIES then low_entry i else page_table s i),
     page_table_vid :=
       (\<lambda>i. if i < NUM_ENTRIES then vid_entry i else page_table_vid s i)
       (0 := VIM_MEM_INDEX OR RW OR PRESENT OR USER,
        1 := (VIM_MEM_INDEX + 1 * FOUR_KB) OR RW OR PRESENT OR USER,
        2 := (VIM_MEM_INDEX + 2 * FOUR_KB) OR RW OR PRESENT OR USER,
        3 := (VIM_MEM_INDEX + 3 * FOUR_KB) OR RW OR PRESENT OR USER)\<rparr>"
  by (simp add: initialize_page_def init_page_table_def init_page_table_fill
      page_directory_fill Let_def) (simp add: fold_upd)

section \<open>Entries as words\<close>

lemma frame_of_aligned: "take_bit 12 p = 0 \<Longrightarrow> frame_of p = p"
  by (metis add.right_neutral bits_ident frame_of_def)

lemma frame_of_or: "frame_of (p OR q) = frame_of p OR frame_of q"
  by (simp add: frame_of_def drop_bit_or push_bit_or)

lemma frame_of_flags:
  "frame_of PRESENT = 0" "frame_of RW = 0" "frame_of USER = 0" "frame_of SET_4MB = 0"
  by (simp_all add: frame_of_def)

lemma aligned_low_bit: "take_bit 12 (p :: u32) = 0 \<Longrightarrow> n < 12 \<Longrightarrow> \<not> bit p n"
  by (metis bit_take_bit_iff bit_0_eq bot_apply bot_bool_def)

lemma same_page: "push_bit 12 (drop_bit 12 a) OR take_bit 12 a = (a :: u32)"
  by (rule bit_word_eqI) (auto simp: bit_simps)

lemma same_region: "push_bit 22 (drop_bit 22 a) OR take_bit 22 a = (a :: u32)"
  by (rule bit_word_eqI) (auto simp: bit_simps)

text \<open>
  The entries the boot code writes: the tables sit on page boundaries (\<open>aligned(FOUR_KB)\<close>
  in \<open>page.h\<close>) at two different places.
\<close>

definition linked :: "'a mach_scheme \<Rightarrow> bool" where
  "linked s \<longleftrightarrow> take_bit 12 (page_table_at s) = 0 \<and> take_bit 12 (page_table_vid_at s) = 0 \<and>
     page_table_at s \<noteq> page_table_vid_at s"

definition region :: "u32 \<Rightarrow> nat" where
  "region a = unat (drop_bit 22 a)"

definition page_in_region :: "u32 \<Rightarrow> nat" where
  "page_in_region a = unat (take_bit 10 (drop_bit 12 a))"

lemma region_less: "region a < NUM_ENTRIES"
proof -
  have "unat a < 2 ^ 32" using unsigned_less [of a] by simp
  then show ?thesis by (simp add: region_def unat_drop_bit_eq drop_bit_nat_def)
qed

lemma page_in_region_less: "page_in_region a < NUM_ENTRIES"
  using take_bit_nat_less_exp [of 10 "unat (drop_bit 12 a)"]
  by (simp add: page_in_region_def unsigned_take_bit_eq)

lemma frame_of_table:
  assumes "take_bit 12 p = 0"
  shows "frame_of (p OR 3) = p" "frame_of (p OR 7) = p"
  using frame_of_or [of p 3] frame_of_or [of p 7] assms
  by (simp_all add: frame_of_aligned) (simp_all add: frame_of_def)

lemma allows_table:
  "take_bit 12 p = 0 \<Longrightarrow> allows pr (p OR 3) \<longleftrightarrow> pr = Supervisor"
  "take_bit 12 p = 0 \<Longrightarrow> allows pr (p OR 7)"
  by (cases pr; simp add: allows_def bit_or_iff aligned_low_bit)+

lemma big_page_bit:
  "take_bit 12 p = 0 \<Longrightarrow> \<not> bit (p OR 3 :: u32) 7"
  "take_bit 12 p = 0 \<Longrightarrow> \<not> bit (p OR 7 :: u32) 7"
  by (simp_all add: bit_or_iff aligned_low_bit)

lemma page_aligned: "take_bit 12 (of_nat i * FOUR_KB) = 0"
proof -
  have "of_nat i * FOUR_KB = push_bit 12 (of_nat i)" by (simp add: push_bit_eq_mult)
  then show ?thesis by (simp only: take_bit_push_bit) simp
qed

lemma low_entry_walk:
  assumes "i < NUM_ENTRIES"
  shows "allows pr (low_entry i) \<longleftrightarrow> i = 0xB8" "frame_of (low_entry i) = of_nat i * FOUR_KB"
proof -
  have "(of_nat i = (0xB8 :: u32)) = (i = 0xB8)"
    using of_nat_eq_u32_iff [of i "0xB8"] assms by simp
  then show "allows pr (low_entry i) \<longleftrightarrow> i = 0xB8"
    by (simp add: low_entry_def allows_def bit_or_iff aligned_low_bit [OF page_aligned])
  show "frame_of (low_entry i) = of_nat i * FOUR_KB"
    by (simp add: low_entry_def frame_of_or frame_of_flags frame_of_aligned page_aligned)
      (simp add: frame_of_def)
qed

lemma vid_entry_walk:
  "allows pr (vid_entry i) \<longleftrightarrow> False"
  by (simp add: vid_entry_def allows_def bit_or_iff aligned_low_bit [OF page_aligned])

section \<open>The address space after boot\<close>

lemma aligned_or_offset:
  assumes "take_bit 12 (p :: u32) = 0"
  shows "p OR take_bit 12 a = p + take_bit 12 a"
proof -
  have "p AND take_bit 12 a = 0"
    using aligned_low_bit [OF assms] by (intro bit_word_eqI) (auto simp: bit_simps)
  then show ?thesis by (simp add: disjunctive_add_eq_or)
qed

lemma drop_bit_12_eq: "unat (drop_bit 12 a) = region a * 1024 + page_in_region a"
proof -
  have "unat a div 2 ^ 22 = unat a div 2 ^ 12 div 2 ^ 10"
    by (simp add: div_mult2_eq [symmetric])
  moreover have "unat a mod 2 ^ 32 = unat a"
    using unsigned_less [of a] by (intro mod_less) simp
  ultimately show ?thesis
    by (simp add: region_def page_in_region_def unsigned_drop_bit_eq unsigned_take_bit_eq
        drop_bit_nat_def take_bit_nat_def)
qed

lemma address_split:
  "a = of_nat ((region a * 1024 + page_in_region a) * 4096) + take_bit 12 a"
proof -
  have "push_bit 12 (drop_bit 12 a) + take_bit 12 a = a" by (rule bits_ident)
  moreover have "push_bit 12 (drop_bit 12 a) = drop_bit 12 a * 4096"
    by (simp add: push_bit_eq_mult)
  moreover have "drop_bit 12 a = of_nat (region a * 1024 + page_in_region a)"
    by (simp flip: drop_bit_12_eq)
  ultimately show ?thesis by simp
qed

lemma region_eqD: "region a = n \<Longrightarrow> drop_bit 22 a = of_nat n"
  by (auto simp: region_def)

text \<open>The three ways the walk goes.\<close>

lemma xlate_blocked:
  "paging s \<Longrightarrow> \<not> allows pr (page_directory s (region a)) \<Longrightarrow> xlate pr s a = None"
  by (simp add: xlate_def region_def)

lemma xlate_big:
  "paging s \<Longrightarrow> page_directory s (region a) = e \<Longrightarrow> allows pr e \<Longrightarrow> bit e 7 \<Longrightarrow>
     xlate pr s a = Some (push_bit 22 (drop_bit 22 e) OR take_bit 22 a)"
  by (simp add: xlate_def region_def)

lemma xlate_small:
  "paging s \<Longrightarrow> page_directory s (region a) = e \<Longrightarrow> allows pr e \<Longrightarrow> \<not> bit e 7 \<Longrightarrow>
     table_at s (frame_of e) = Some t \<Longrightarrow>
     xlate pr s a = (if allows pr (t (page_in_region a))
       then Some (frame_of (t (page_in_region a)) OR take_bit 12 a) else None)"
  by (simp add: xlate_def region_def page_in_region_def)

lemma table_at_vid: "linked s \<Longrightarrow> table_at s (page_table_vid_at s) = Some (page_table_vid s)"
  by (auto simp: linked_def table_at_def)

lemma initialize_page_at:
  "page_table_at (initialize_page s) = page_table_at s"
  "page_table_vid_at (initialize_page s) = page_table_vid_at s"
  by (simp_all add: initialize_page_eq)

lemma initialize_page_linked: "linked (initialize_page s) = linked s"
  by (simp add: linked_def initialize_page_at)

lemma boot_xlate_0:
  assumes l: "linked s" and r: "region a = 0"
  shows "xlate pr (initialize_page s) a =
    (if pr = Supervisor \<and> page_in_region a = 0xB8 then Some a else None)"
proof (cases pr)
  case User
  with l r show ?thesis
    by (simp add: xlate_blocked initialize_page_eq linked_def allows_table)
next
  case Supervisor
  have p: "page_in_region a < NUM_ENTRIES" by (rule page_in_region_less)
  have a: "of_nat (page_in_region a) * FOUR_KB OR take_bit 12 a = a"
    using address_split [of a] r by (simp add: aligned_or_offset page_aligned)
  have "xlate pr (initialize_page s) a = (if allows pr (low_entry (page_in_region a))
      then Some (frame_of (low_entry (page_in_region a)) OR take_bit 12 a) else None)"
    using l r p Supervisor
    by (subst xlate_small [where e = "page_table_at s OR 3" and t = "page_table (initialize_page s)"])
      (simp_all add: initialize_page_eq linked_def allows_table big_page_bit frame_of_table
        table_at_def)
  then show ?thesis by (simp only: low_entry_walk [OF p] a Supervisor simp_thms)
qed

lemma boot_xlate_1:
  assumes r: "region a = 1"
  shows "xlate pr (initialize_page s) a = (if pr = Supervisor then Some a else None)"
proof (cases pr)
  case User
  with r show ?thesis by (simp add: xlate_blocked initialize_page_eq allows_def)
next
  case Supervisor
  have "push_bit 22 (drop_bit 22 a) = MB_4"
    using region_eqD [OF r] by simp
  then have "MB_4 OR take_bit 22 a = a" using same_region [of a] by simp
  with Supervisor r show ?thesis
    by (subst xlate_big [where e = "0x400083"]) (simp_all add: initialize_page_eq allows_def)
qed

lemma vid_page_aligned: "take_bit 12 (VIM_MEM_INDEX + of_nat i * FOUR_KB) = 0"
  using page_aligned [of "0xB8 + i"] by (simp add: algebra_simps)

lemma vid_window_entry:
  assumes "i < 4"
  shows "page_table_vid (initialize_page s) i = (VIM_MEM_INDEX + of_nat i * FOUR_KB) OR 7"
proof -
  have "i = 0 \<or> i = 1 \<or> i = 2 \<or> i = 3" using assms by linarith
  then show ?thesis by (elim disjE) (simp_all add: initialize_page_eq)
qed

lemma boot_xlate_256:
  assumes l: "linked s" and r: "region a = 256"
  shows "xlate pr (initialize_page s) a =
    (if page_in_region a < 4 then Some (VIM_MEM_INDEX + (a - ONE_GIG)) else None)"
proof -
  let ?t = "page_table_vid (initialize_page s)" and ?p = "page_in_region a"
  have p: "?p < NUM_ENTRIES" by (rule page_in_region_less)
  have a: "a - ONE_GIG = of_nat ?p * FOUR_KB + take_bit 12 a"
  proof -
    have "a = ONE_GIG + (of_nat ?p * FOUR_KB + take_bit 12 a)"
      using address_split [of a] unfolding r by (simp add: add.assoc)
    then show ?thesis by (metis add_diff_cancel_left')
  qed
  have x: "xlate pr (initialize_page s) a =
      (if allows pr (?t ?p) then Some (frame_of (?t ?p) OR take_bit 12 a) else None)"
  proof (rule xlate_small [where e = "page_table_vid_at s OR 7"])
    show "table_at (initialize_page s) (frame_of (page_table_vid_at s OR 7)) = Some ?t"
      using l table_at_vid [of "initialize_page s"]
      by (simp add: linked_def frame_of_table initialize_page_at)
  qed (use l r in \<open>simp_all add: initialize_page_eq linked_def allows_table big_page_bit\<close>)
  show ?thesis
  proof (cases "?p < 4")
    case True
    then have t: "?t ?p = (VIM_MEM_INDEX + of_nat ?p * FOUR_KB) OR 7"
      by (rule vid_window_entry)
    have "take_bit 12 (VIM_MEM_INDEX + of_nat ?p * FOUR_KB) = 0"
      by (rule vid_page_aligned)
    then show ?thesis using True
      by (simp add: x a t allows_table frame_of_table aligned_or_offset)
  next
    case False
    with p show ?thesis by (simp add: x) (simp add: initialize_page_eq vid_entry_walk)
  qed
qed

lemma boot_xlate_other:
  assumes "region a \<notin> {0, 1, 256}"
  shows "xlate pr (initialize_page s) a = None"
  using assms region_less [of a]
  by (intro xlate_blocked) (simp_all add: initialize_page_eq allows_def)

text \<open>
  C1. The address space after \<open>initialize_page\<close>, at every address. The kernel sees the video
  page of the first megabytes, its own four megabytes at their physical place and the four
  video pages at one gigabyte; a user program sees only the last. Everything else, the null
  page included, faults.
\<close>

theorem initialize_page_maps:
  assumes "linked s"
  shows "xlate pr (initialize_page s) a =
    (if region a = 0 \<and> page_in_region a = 0xB8 \<and> pr = Supervisor then Some a
     else if region a = 1 \<and> pr = Supervisor then Some a
     else if region a = 256 \<and> page_in_region a < 4 then Some (VIM_MEM_INDEX + (a - ONE_GIG))
     else None)"
proof -
  consider "region a = 0" | "region a = 1" | "region a = 256" | "region a \<notin> {0, 1, 256}"
    by auto
  then show ?thesis
  proof cases
    case 1
    with boot_xlate_0 [OF assms 1] show ?thesis by simp
  next
    case 2
    with boot_xlate_1 [OF 2, of pr s] show ?thesis by simp
  next
    case 3
    with boot_xlate_256 [OF assms 3] show ?thesis by simp
  next
    case 4
    with boot_xlate_other [OF 4] show ?thesis by simp
  qed
qed

lemma region_offset:
  assumes "r < 1023" "k < 0x400000"
  shows "region (of_nat r * MB_4 + of_nat k) = r"
proof -
  have "unat (of_nat (r * 0x400000 + k) :: u32) = r * 0x400000 + k"
    using assms by (intro unat_of_nat_u32) simp
  then have u: "unat (of_nat r * MB_4 + of_nat k) = r * 0x400000 + k" by simp
  have "take_bit 32 (r * 0x400000 + k) = r * 0x400000 + k"
    using assms by (intro take_bit_nat_eq_self) simp
  then show ?thesis
    using assms by (simp add: region_def unsigned_drop_bit_eq drop_bit_nat_def u)
qed

section \<open>A machine before paging\<close>

text \<open>
  With paging off every address is its own cell: such a machine, holding the bytes \<open>bs\<close> from
  \<open>base\<close> on and zeros elsewhere, is where the properties about memory are tried out.
\<close>

definition flat_mach :: "u32 \<Rightarrow> u8 list \<Rightarrow> mach" where
  "flat_mach base bs =
     \<lparr>phys = (\<lambda>a. if unat (a - base) < length bs then bs ! unat (a - base) else 0),
      paging = False, page_directory = (\<lambda>_. 0), page_table = (\<lambda>_. 0), page_table_vid = (\<lambda>_. 0),
      page_table_at = 0x1000, page_table_vid_at = 0x2000\<rparr>"

lemma unpaged_xlate [simp]: "\<not> paging s \<Longrightarrow> xlate pr s = Some"
  by (simp add: xlate_def fun_eq_iff)

lemma unpaged_range_ok: "\<not> paging s \<Longrightarrow> n \<le> 2 ^ 32 \<Longrightarrow> range_ok (xlate pr) s a n"
  by (simp add: range_ok_def of_nat_eq_u32_iff)

lemma unpaged_ld8 [simp]: "\<not> paging s \<Longrightarrow> ld8 s = (\<lambda>a. Some (phys s a))"
  by (simp add: ld8_def fun_eq_iff)

lemma unpaged_apart:
  assumes "\<not> paging s" "unat (b - a) + k \<le> 2 ^ 32" "n \<le> unat (b - a)"
  shows "apart (xlate pr) s a n b k"
proof -
  have "b + of_nat j \<noteq> a + of_nat i" if "j < k" "i < n" for i j
  proof
    assume "b + of_nat j = a + of_nat i"
    then have "(b - a) + of_nat j = of_nat i" by (simp add: algebra_simps)
    then have "of_nat (unat (b - a) + j) = (of_nat i :: u32)" by simp
    then have "unat (b - a) + j = i"
      using that assms unat_u32_less [of "b - a"] by (subst (asm) of_nat_eq_u32_iff) simp_all
    with that assms show False by simp
  qed
  then show ?thesis using assms(1) by (simp add: apart_def outside_def)
qed

lemma flat_mach_unpaged [simp]: "\<not> paging (flat_mach base bs)"
  by (simp add: flat_mach_def)

lemma flat_mach_bytes:
  assumes "length bs \<le> 2 ^ 32"
  shows "bytes_at (ld8 (flat_mach base bs)) base bs"
proof -
  have "unat (of_nat i :: u32) = i" if "i < length bs" for i
    using that assms by (intro unat_of_nat_u32) simp
  then show ?thesis by (simp add: bytes_at_def flat_mach_def)
qed

theorem initialize_page_maps_witness:
  "xlate User (initialize_page (flat_mach 0 [])) 0x40001234 = Some 0xB9234 \<and>
   xlate User (initialize_page (flat_mach 0 [])) 0xB8000 = None"
  using initialize_page_maps [of "flat_mach 0 []" User "0x40001234"]
    initialize_page_maps [of "flat_mach 0 []" User "0xB8000"]
  by (simp add: linked_def flat_mach_def region_def page_in_region_def)

end
