(* ===== verification/Lib_String.thy ===== *)
theory Lib_String
  imports Paging
begin

text \<open>
  The string and memory routines of \<open>lib.c\<close>. Each takes the operations of the memory it
  works on (\<open>ld\<close>, \<open>st\<close>; a routine that copies takes the reader \<open>rd\<close> of its source apart,
  since the source may be another object). The inline assembly of \<open>memset\<close>, \<open>memcpy\<close> and
  \<open>memmove\<close> is followed instruction group by instruction group; registers that count are
  natural numbers. What they achieve is proved in the locale \<open>memory\<close> and so holds of the
  machine's memory and of local arrays alike.
\<close>

section \<open>String literals\<close>

definition chars :: "string \<Rightarrow> u8 list" where
  "chars s = map of_char s"

definition cstr_at :: "(u32 \<Rightarrow> u8 option) \<Rightarrow> u32 \<Rightarrow> u8 list \<Rightarrow> bool" where
  "cstr_at r s cs \<longleftrightarrow> bytes_at r s (cs @ [0]) \<and> 0 \<notin> set cs"

section \<open>Scanning\<close>

partial_function (option) strlen_from :: "(u32 \<Rightarrow> u8 option) \<Rightarrow> u32 \<Rightarrow> u32 \<Rightarrow> u32 option" where
  "strlen_from r s len = do {
     c \<leftarrow> r (s + len);
     if c \<noteq> 0 then strlen_from r s (len + 1) else Some len
   }"

definition strlen :: "(u32 \<Rightarrow> u8 option) \<Rightarrow> u32 \<Rightarrow> u32 option" where
  "strlen r s = strlen_from r s 0"

text \<open>\<open>int8_t\<close> is \<open>char\<close>, signed here: the difference is taken after sign extension.\<close>

partial_function (option) strncmp_from ::
  "(u32 \<Rightarrow> u8 option) \<Rightarrow> u32 \<Rightarrow> (u32 \<Rightarrow> u8 option) \<Rightarrow> u32 \<Rightarrow> u32 \<Rightarrow> i32 \<Rightarrow> i32 option" where
  "strncmp_from r1 s1 r2 s2 n i =
     (if i < n then do {
        a \<leftarrow> r1 (s1 + i);
        b \<leftarrow> r2 (s2 + i);
        if a \<noteq> b \<or> a = 0 then Some (scast a - scast b)
        else strncmp_from r1 s1 r2 s2 n (i + 1)
      }
      else Some 0)"

definition strncmp ::
  "(u32 \<Rightarrow> u8 option) \<Rightarrow> u32 \<Rightarrow> (u32 \<Rightarrow> u8 option) \<Rightarrow> u32 \<Rightarrow> u32 \<Rightarrow> i32 option" where
  "strncmp r1 s1 r2 s2 n = strncmp_from r1 s1 r2 s2 n 0"

section \<open>Copying strings\<close>

partial_function (option) strcpy_from ::
  "('m \<Rightarrow> u32 \<Rightarrow> u8 option) \<Rightarrow> (u32 \<Rightarrow> u8 \<Rightarrow> 'm \<Rightarrow> 'm option) \<Rightarrow> u32 \<Rightarrow> u32 \<Rightarrow> i32 \<Rightarrow> 'm \<Rightarrow> 'm option"
where
  "strcpy_from rd st dest src i m = do {
     c \<leftarrow> rd m (src + i);
     if c \<noteq> 0 then do {
       m \<leftarrow> st (dest + i) c m;
       strcpy_from rd st dest src (i + 1) m
     } else st (dest + i) 0 m
   }"

definition strcpy ::
  "('m \<Rightarrow> u32 \<Rightarrow> u8 option) \<Rightarrow> (u32 \<Rightarrow> u8 \<Rightarrow> 'm \<Rightarrow> 'm option) \<Rightarrow> u32 \<Rightarrow> u32 \<Rightarrow> 'm \<Rightarrow> 'm option" where
  "strcpy rd st dest src m = strcpy_from rd st dest src 0 m"

text \<open>The first loop of \<open>strncpy\<close> reads \<open>src[i]\<close> before it looks at \<open>i < n\<close>.\<close>

partial_function (option) strncpy_copy ::
  "('m \<Rightarrow> u32 \<Rightarrow> u8 option) \<Rightarrow> (u32 \<Rightarrow> u8 \<Rightarrow> 'm \<Rightarrow> 'm option) \<Rightarrow> u32 \<Rightarrow> u32 \<Rightarrow> u32 \<Rightarrow> i32 \<Rightarrow> 'm \<Rightarrow>
   (i32 \<times> 'm) option"
where
  "strncpy_copy rd st dest src n i m = do {
     c \<leftarrow> rd m (src + i);
     if c \<noteq> 0 \<and> i < n then do {
       m \<leftarrow> st (dest + i) c m;
       strncpy_copy rd st dest src n (i + 1) m
     } else Some (i, m)
   }"

partial_function (option) strncpy_pad ::
  "(u32 \<Rightarrow> u8 \<Rightarrow> 'm \<Rightarrow> 'm option) \<Rightarrow> u32 \<Rightarrow> u32 \<Rightarrow> i32 \<Rightarrow> 'm \<Rightarrow> 'm option"
where
  "strncpy_pad st dest n i m =
     (if i < n then do { m \<leftarrow> st (dest + i) 0 m; strncpy_pad st dest n (i + 1) m } else Some m)"

definition strncpy ::
  "('m \<Rightarrow> u32 \<Rightarrow> u8 option) \<Rightarrow> (u32 \<Rightarrow> u8 \<Rightarrow> 'm \<Rightarrow> 'm option) \<Rightarrow> u32 \<Rightarrow> u32 \<Rightarrow> u32 \<Rightarrow> 'm \<Rightarrow> 'm option"
where
  "strncpy rd st dest src n m = do {
     (i, m) \<leftarrow> strncpy_copy rd st dest src n 0 m;
     strncpy_pad st dest n i m
   }"

section \<open>The block routines\<close>

text \<open>\<open>.memset_top\<close>: bytes until the target is aligned or nothing is left.\<close>

fun memset_top ::
  "(u32 \<Rightarrow> u8 \<Rightarrow> 'm \<Rightarrow> 'm option) \<Rightarrow> u8 \<Rightarrow> nat \<Rightarrow> u32 \<Rightarrow> 'm \<Rightarrow> (nat \<times> u32 \<times> 'm) option" where
  "memset_top st al 0 edi m = Some (0, edi, m)"
| "memset_top st al (Suc ecx) edi m =
     (if edi AND 3 = 0 then Some (Suc ecx, edi, m)
      else do { m \<leftarrow> st edi al m; memset_top st al ecx (edi + 1) m })"

fun rep_stosl ::
  "(u32 \<Rightarrow> u8 \<Rightarrow> 'm \<Rightarrow> 'm option) \<Rightarrow> u32 \<Rightarrow> nat \<Rightarrow> u32 \<Rightarrow> 'm \<Rightarrow> (u32 \<times> 'm) option" where
  "rep_stosl st eax 0 edi m = Some (edi, m)"
| "rep_stosl st eax (Suc ecx) edi m = do {
     m \<leftarrow> write_bytes st edi (le_bytes eax) m;
     rep_stosl st eax ecx (edi + 4) m
   }"

fun memset_bottom ::
  "(u32 \<Rightarrow> u8 \<Rightarrow> 'm \<Rightarrow> 'm option) \<Rightarrow> u8 \<Rightarrow> nat \<Rightarrow> u32 \<Rightarrow> 'm \<Rightarrow> 'm option" where
  "memset_bottom st al 0 edi m = Some m"
| "memset_bottom st al (Suc edx) edi m =
     do { m \<leftarrow> st edi al m; memset_bottom st al edx (edi + 1) m }"

definition memset :: "(u32 \<Rightarrow> u8 \<Rightarrow> 'm \<Rightarrow> 'm option) \<Rightarrow> u32 \<Rightarrow> i32 \<Rightarrow> u32 \<Rightarrow> 'm \<Rightarrow> 'm option" where
  "memset st s c n m =
     (let c = c AND 0xFF;
          eax = push_bit 24 c OR push_bit 16 c OR push_bit 8 c OR c;
          al = ucast eax
      in do {
        (ecx, edi, m) \<leftarrow> memset_top st al (unat n) s m;
        if ecx = 0 then Some m
        else do {
          (edi, m) \<leftarrow> rep_stosl st eax (ecx div 4) edi m;
          memset_bottom st al (ecx mod 4) edi m
        }
      })"

fun rep_stosw ::
  "(u32 \<Rightarrow> u8 \<Rightarrow> 'm \<Rightarrow> 'm option) \<Rightarrow> u32 \<Rightarrow> nat \<Rightarrow> u32 \<Rightarrow> 'm \<Rightarrow> 'm option" where
  "rep_stosw st eax 0 edi m = Some m"
| "rep_stosw st eax (Suc ecx) edi m = do {
     m \<leftarrow> write_bytes st edi [ucast eax, ucast (drop_bit 8 eax)] m;
     rep_stosw st eax ecx (edi + 2) m
   }"

definition memset_word :: "(u32 \<Rightarrow> u8 \<Rightarrow> 'm \<Rightarrow> 'm option) \<Rightarrow> u32 \<Rightarrow> i32 \<Rightarrow> u32 \<Rightarrow> 'm \<Rightarrow> 'm option" where
  "memset_word st s c n m = rep_stosw st c (unat n) s m"

definition memset_dword :: "(u32 \<Rightarrow> u8 \<Rightarrow> 'm \<Rightarrow> 'm option) \<Rightarrow> u32 \<Rightarrow> i32 \<Rightarrow> u32 \<Rightarrow> 'm \<Rightarrow> 'm option" where
  "memset_dword st s c n m = do { (edi, m) \<leftarrow> rep_stosl st c (unat n) s m; Some m }"

fun memcpy_top ::
  "('m \<Rightarrow> u32 \<Rightarrow> u8 option) \<Rightarrow> (u32 \<Rightarrow> u8 \<Rightarrow> 'm \<Rightarrow> 'm option) \<Rightarrow> nat \<Rightarrow> u32 \<Rightarrow> u32 \<Rightarrow> 'm \<Rightarrow>
   (nat \<times> u32 \<times> u32 \<times> 'm) option" where
  "memcpy_top rd st 0 edi esi m = Some (0, edi, esi, m)"
| "memcpy_top rd st (Suc ecx) edi esi m =
     (if edi AND 3 = 0 then Some (Suc ecx, edi, esi, m)
      else do {
        al \<leftarrow> rd m esi;
        m \<leftarrow> st edi al m;
        memcpy_top rd st ecx (edi + 1) (esi + 1) m
      })"

fun rep_movsl ::
  "('m \<Rightarrow> u32 \<Rightarrow> u8 option) \<Rightarrow> (u32 \<Rightarrow> u8 \<Rightarrow> 'm \<Rightarrow> 'm option) \<Rightarrow> nat \<Rightarrow> u32 \<Rightarrow> u32 \<Rightarrow> 'm \<Rightarrow>
   (u32 \<times> u32 \<times> 'm) option" where
  "rep_movsl rd st 0 edi esi m = Some (edi, esi, m)"
| "rep_movsl rd st (Suc ecx) edi esi m = do {
     w \<leftarrow> ld32 (rd m) esi;
     m \<leftarrow> write_bytes st edi (le_bytes w) m;
     rep_movsl rd st ecx (edi + 4) (esi + 4) m
   }"

fun memcpy_bottom ::
  "('m \<Rightarrow> u32 \<Rightarrow> u8 option) \<Rightarrow> (u32 \<Rightarrow> u8 \<Rightarrow> 'm \<Rightarrow> 'm option) \<Rightarrow> nat \<Rightarrow> u32 \<Rightarrow> u32 \<Rightarrow> 'm \<Rightarrow> 'm option"
where
  "memcpy_bottom rd st 0 edi esi m = Some m"
| "memcpy_bottom rd st (Suc edx) edi esi m = do {
     al \<leftarrow> rd m esi;
     m \<leftarrow> st edi al m;
     memcpy_bottom rd st edx (edi + 1) (esi + 1) m
   }"

definition memcpy ::
  "('m \<Rightarrow> u32 \<Rightarrow> u8 option) \<Rightarrow> (u32 \<Rightarrow> u8 \<Rightarrow> 'm \<Rightarrow> 'm option) \<Rightarrow> u32 \<Rightarrow> u32 \<Rightarrow> u32 \<Rightarrow> 'm \<Rightarrow> 'm option"
where
  "memcpy rd st dest src n m = do {
     (ecx, edi, esi, m) \<leftarrow> memcpy_top rd st (unat n) dest src m;
     if ecx = 0 then Some m
     else do {
       (edi, esi, m) \<leftarrow> rep_movsl rd st (ecx div 4) edi esi m;
       memcpy_bottom rd st (ecx mod 4) edi esi m
     }
   }"

text \<open>
  \<open>memmove\<close> also returns the direction flag it leaves behind: \<open>std\<close> is executed for a target
  above the source and nothing clears the flag again.
\<close>

fun rep_movsb ::
  "('m \<Rightarrow> u32 \<Rightarrow> u8 option) \<Rightarrow> (u32 \<Rightarrow> u8 \<Rightarrow> 'm \<Rightarrow> 'm option) \<Rightarrow> bool \<Rightarrow> nat \<Rightarrow> u32 \<Rightarrow> u32 \<Rightarrow> 'm \<Rightarrow> 'm option"
where
  "rep_movsb rd st df 0 edi esi m = Some m"
| "rep_movsb rd st df (Suc ecx) edi esi m = do {
     b \<leftarrow> rd m esi;
     m \<leftarrow> st edi b m;
     (if df then rep_movsb rd st df ecx (edi - 1) (esi - 1) m
      else rep_movsb rd st df ecx (edi + 1) (esi + 1) m)
   }"

definition memmove ::
  "('m \<Rightarrow> u32 \<Rightarrow> u8 option) \<Rightarrow> (u32 \<Rightarrow> u8 \<Rightarrow> 'm \<Rightarrow> 'm option) \<Rightarrow> u32 \<Rightarrow> u32 \<Rightarrow> u32 \<Rightarrow> 'm \<Rightarrow>
   ('m \<times> bool) option"
where
  "memmove rd st dest src n m =
     (if dest \<le> src then do { m \<leftarrow> rep_movsb rd st False (unat n) dest src m; Some (m, False) }
      else do {
        m \<leftarrow> rep_movsb rd st True (unat n) (dest + n - 1) (src + n - 1) m;
        Some (m, True)
      })"

section \<open>Numbers\<close>

partial_function (option) strrev_from ::
  "('m \<Rightarrow> u32 \<Rightarrow> u8 option) \<Rightarrow> (u32 \<Rightarrow> u8 \<Rightarrow> 'm \<Rightarrow> 'm option) \<Rightarrow> u32 \<Rightarrow> i32 \<Rightarrow> i32 \<Rightarrow> 'm \<Rightarrow> 'm option"
where
  "strrev_from ld st s beg end' m =
     (if beg <s end' then do {
        tmp \<leftarrow> ld m (s + end');
        b \<leftarrow> ld m (s + beg);
        m \<leftarrow> st (s + end') b m;
        m \<leftarrow> st (s + beg) tmp m;
        strrev_from ld st s (beg + 1) (end' - 1) m
      }
      else Some m)"

definition strrev ::
  "('m \<Rightarrow> u32 \<Rightarrow> u8 option) \<Rightarrow> (u32 \<Rightarrow> u8 \<Rightarrow> 'm \<Rightarrow> 'm option) \<Rightarrow> u32 \<Rightarrow> 'm \<Rightarrow> 'm option" where
  "strrev ld st s m = do { n \<leftarrow> strlen (ld m) s; strrev_from ld st s 0 (n - 1) m }"

definition lookup_digits :: "u8 list" where
  "lookup_digits = chars ''0123456789ABCDEFGHIJKLMNOPQRSTUVWXYZ'' @ [0]"

partial_function (option) itoa_digits ::
  "(u32 \<Rightarrow> u8 \<Rightarrow> 'm \<Rightarrow> 'm option) \<Rightarrow> u32 \<Rightarrow> u32 \<Rightarrow> i32 \<Rightarrow> 'm \<Rightarrow> (u32 \<times> 'm) option" where
  "itoa_digits st newval newbuf radix m =
     (if newval > 0 then
        if radix = 0 then None
        else do {
          c \<leftarrow> arr_get lookup_digits (unat (newval mod radix));
          m \<leftarrow> st newbuf c m;
          itoa_digits st (newval div radix) (newbuf + 1) radix m
        }
      else Some (newbuf, m))"

definition itoa ::
  "('m \<Rightarrow> u32 \<Rightarrow> u8 option) \<Rightarrow> (u32 \<Rightarrow> u8 \<Rightarrow> 'm \<Rightarrow> 'm option) \<Rightarrow> u32 \<Rightarrow> u32 \<Rightarrow> i32 \<Rightarrow> 'm \<Rightarrow> 'm option" where
  "itoa ld st value buf radix m =
     (if value = 0 then do {
        m \<leftarrow> st buf (of_char (CHR ''0'')) m;
        st (buf + 1) 0 m
      }
      else do {
        (newbuf, m) \<leftarrow> itoa_digits st value buf radix m;
        m \<leftarrow> st newbuf 0 m;
        strrev ld st buf m
      })"

section \<open>What scanning finds\<close>

lemma cstr_at_Cons: "cstr_at r s (c # cs) \<longleftrightarrow> r s = Some c \<and> c \<noteq> 0 \<and> cstr_at r (s + 1) cs"
  by (auto simp: cstr_at_def bytes_at_Cons)

lemma cstr_at_Nil: "cstr_at r s [] \<longleftrightarrow> r s = Some 0"
  by (simp add: cstr_at_def bytes_at_Cons)

lemma cstr_at_short:
  assumes "cstr_at r s cs"
  shows "length cs < 2 ^ 32"
proof (rule ccontr)
  let ?k = "length cs - 2 ^ 32"
  assume "\<not> length cs < 2 ^ 32"
  then have k: "length cs = ?k + 2 ^ 32" "?k < length cs" by auto
  then have "(of_nat (length cs) :: u32) = of_nat ?k + of_nat (2 ^ 32)"
    by (metis of_nat_add)
  then have "(of_nat (length cs) :: u32) = of_nat ?k" by simp
  moreover have "r (s + of_nat ?k) = Some (cs ! ?k)"
    and "r (s + of_nat (length cs)) = Some 0"
    using assms k(2) bytes_at_nth [of r s "cs @ [0]"]
    by (auto simp: cstr_at_def nth_append less_Suc_eq)
  ultimately have "cs ! ?k = 0" by simp
  with k(2) assms show False by (metis cstr_at_def nth_mem)
qed

lemma strlen_from_cstr:
  "cstr_at r (s + len) cs \<Longrightarrow> strlen_from r s len = Some (len + of_nat (length cs))"
  by (induction cs arbitrary: len)
    (subst strlen_from.simps, simp add: cstr_at_Cons cstr_at_Nil add.assoc)+

lemma strlen_from_Some:
  assumes "strlen_from r s len = Some n"
  shows "\<exists>cs. cstr_at r (s + len) cs \<and> n = len + of_nat (length cs)"
proof (rule strlen_from.raw_induct [where
      P = "\<lambda>r s len n. \<exists>cs. cstr_at r (s + len) cs \<and> n = len + of_nat (length cs)", OF _ assms])
  fix f r s len n
  assume IH: "\<And>r s len n. f r s len = Some n \<Longrightarrow>
      \<exists>cs. cstr_at r (s + len) cs \<and> n = len + of_nat (length cs)"
    and eq: "do { c \<leftarrow> r (s + len); if c \<noteq> 0 then f r s (len + 1) else Some len } = Some n"
  from eq obtain c where c: "r (s + len) = Some c" and
    r: "(if c \<noteq> 0 then f r s (len + 1) else Some len) = Some n"
    by (auto simp: Option.bind_eq_Some_conv)
  show "\<exists>cs. cstr_at r (s + len) cs \<and> n = len + of_nat (length cs)"
  proof (cases "c = 0")
    case True
    with c r have "cstr_at r (s + len) []" "n = len + of_nat (length ([] :: u8 list))"
      by (simp_all add: cstr_at_Nil)
    then show ?thesis by blast
  next
    case False
    with r have "f r s (len + 1) = Some n" by simp
    from IH [OF this] obtain cs where
      "cstr_at r (s + (len + 1)) cs" "n = len + 1 + of_nat (length cs)" by blast
    with c False have "cstr_at r (s + len) (c # cs)" "n = len + of_nat (length (c # cs))"
      by (simp_all add: cstr_at_Cons add.assoc)
    then show ?thesis by blast
  qed
qed

text \<open>
  \<open>strlen\<close> returns exactly on the strings: it gives \<open>n\<close> if and only if \<open>n\<close> non-zero
  bytes and then a zero byte are readable at \<open>s\<close>; in every other case it does not return.
\<close>

theorem strlen_iff:
  "strlen r s = Some n \<longleftrightarrow> (\<exists>cs. cstr_at r s cs \<and> length cs = unat n)"
proof
  assume "strlen r s = Some n"
  then obtain cs where "cstr_at r s cs" "n = of_nat (length cs)"
    using strlen_from_Some [of r s 0 n] by (auto simp: strlen_def)
  then show "\<exists>cs. cstr_at r s cs \<and> length cs = unat n"
    by (metis cstr_at_short unat_of_nat_u32)
next
  assume "\<exists>cs. cstr_at r s cs \<and> length cs = unat n"
  then obtain cs where "cstr_at r s cs" "length cs = unat n" by blast
  then show "strlen r s = Some n" using strlen_from_cstr [of r s 0 cs] by (simp add: strlen_def)
qed

lemma strlen_cstr: "cstr_at r s cs \<Longrightarrow> strlen r s = Some (of_nat (length cs))"
  using strlen_from_cstr [of r s 0 cs] by (simp add: strlen_def)

text \<open>Comparison, on the bytes themselves.\<close>

fun strncmp_ref :: "nat \<Rightarrow> u8 list \<Rightarrow> u8 list \<Rightarrow> i32 option" where
  "strncmp_ref 0 xs ys = Some 0"
| "strncmp_ref (Suc n) (x # xs) (y # ys) =
     (if x \<noteq> y \<or> x = 0 then Some (scast x - scast y) else strncmp_ref n xs ys)"
| "strncmp_ref (Suc n) xs ys = None"

lemma is_up_u8_u32: "is_up (scast :: u8 \<Rightarrow> i32)"
  by (simp add: is_up)

lemma scast_u8_inj: "(scast (x :: u8) = (scast y :: i32)) = (x = y)"
  by (metis (no_types) scast_up_scast_id is_up_u8_u32)

lemma scast_diff_0: "((scast (x :: u8) :: i32) - scast y = 0) = (x = y)"
  by (simp add: scast_u8_inj)

lemma strncmp_from_ref:
  "bytes_at r1 (s1 + i) xs \<Longrightarrow> bytes_at r2 (s2 + i) ys \<Longrightarrow> strncmp_ref k xs ys = Some v \<Longrightarrow>
     k = unat n - unat i \<Longrightarrow> strncmp_from r1 s1 r2 s2 n i = Some v"
proof (induction k xs ys arbitrary: i rule: strncmp_ref.induct)
  case (1 xs ys)
  then show ?case by (subst strncmp_from.simps) (simp add: word_less_nat_alt)
next
  case (2 k x xs y ys)
  then have i: "i < n" by (simp add: word_less_nat_alt)
  then have suc: "unat (i + 1) = Suc (unat i)"
    by (rule unat_add_1)
  have r: "r1 (s1 + i) = Some x" "r2 (s2 + i) = Some y"
    using 2 by (simp_all add: bytes_at_Cons)
  show ?case
  proof (cases "x \<noteq> y \<or> x = 0")
    case True
    then have "v = scast x - scast y" using "2.prems"(3) by auto
    with True show ?thesis using i r by (subst strncmp_from.simps) auto
  next
    case False
    then have "strncmp_ref k xs ys = Some v" using "2.prems"(3) by auto
    with False have "strncmp_from r1 s1 r2 s2 n (i + 1) = Some v"
      using "2.prems" suc by (intro "2.IH") (simp_all add: bytes_at_Cons add.assoc)
    then show ?thesis using False i r by (subst strncmp_from.simps) auto
  qed
qed (metis option.distinct(1) strncmp_ref.simps(3), metis option.distinct(1) strncmp_ref.simps(4))

lemma strncmp_eq_ref:
  "bytes_at r1 s1 xs \<Longrightarrow> bytes_at r2 s2 ys \<Longrightarrow> strncmp_ref (unat n) xs ys = Some v \<Longrightarrow>
     strncmp r1 s1 r2 s2 n = Some v"
  by (simp add: strncmp_def) (rule strncmp_from_ref [of r1 s1 0 xs r2 s2 ys "unat n"], simp_all)

lemma strncmp_ref_cstr:
  "0 \<notin> set xs \<Longrightarrow> 0 \<notin> set ys \<Longrightarrow>
     \<exists>v. strncmp_ref k (xs @ [0]) (ys @ [0]) = Some v \<and> (v = 0) = (take k xs = take k ys)"
proof (induction k arbitrary: xs ys)
  case (Suc k)
  show ?case
  proof (cases xs)
    case Nil
    with Suc.prems show ?thesis
      using scast_diff_0 [of 0] by (cases ys) auto
  next
    case xs: (Cons x xs')
    with Suc.prems have x: "x \<noteq> 0" by auto
    show ?thesis
    proof (cases ys)
      case Nil
      with x xs show ?thesis using scast_diff_0 [of x 0] by simp
    next
      case (Cons y ys')
      with xs x Suc show ?thesis by (cases "x = y") (auto simp: scast_u8_inj)
    qed
  qed
qed simp

lemma strncmp_cstr:
  assumes "cstr_at r1 s1 xs" "cstr_at r2 s2 ys"
  shows "\<exists>v. strncmp r1 s1 r2 s2 n = Some v \<and> (v = 0) = (take (unat n) xs = take (unat n) ys)"
proof -
  obtain v where v: "strncmp_ref (unat n) (xs @ [0]) (ys @ [0]) = Some v"
    and iff: "(v = 0) = (take (unat n) xs = take (unat n) ys)"
    using strncmp_ref_cstr [of xs ys] assms by (auto simp: cstr_at_def)
  have "strncmp r1 s1 r2 s2 n = Some v"
    using assms v by (intro strncmp_eq_ref) (simp_all add: cstr_at_def)
  with iff show ?thesis by blast
qed

text \<open>
  On strings \<open>strncmp\<close> returns, and returns zero exactly for strings that agree on their
  first \<open>n\<close> bytes.
\<close>

theorem strncmp_zero_iff:
  assumes "cstr_at r1 s1 xs" "cstr_at r2 s2 ys"
  shows "\<exists>v. strncmp r1 s1 r2 s2 n = Some v \<and> (v = 0) = (take (unat n) xs = take (unat n) ys)"
  using assms by (rule strncmp_cstr)

section \<open>What copying achieves\<close>

context memory
begin

lemma strcpy_from_stored:
  "ready rd m (d + i) (s + i) (cs @ [0]) \<Longrightarrow> 0 \<notin> set cs \<Longrightarrow>
     \<exists>m'. strcpy_from rd st d s i m = Some m' \<and> stored cell ld rest m (d + i) (cs @ [0]) m'"
proof (induction cs arbitrary: i m)
  case Nil
  then obtain m' where "rd m (s + i) = Some 0" "st (d + i) 0 m = Some m'"
    "stored cell ld rest m (d + i) [0] m'"
    by (auto elim: ready_byte)
  then show ?case by (subst strcpy_from.simps) simp
next
  case (Cons c cs)
  then have r: "ready rd m (d + i) (s + i) ([c] @ (cs @ [0]))" by simp
  then obtain m1 where m1: "rd m (s + i) = Some c" "st (d + i) c m = Some m1"
    "stored cell ld rest m (d + i) [c] m1"
    by (rule ready_byte [OF ready_first])
  have "ready rd m1 (d + (i + 1)) (s + (i + 1)) (cs @ [0])"
    using ready_second [OF r m1(3)] by (simp add: add.assoc)
  then obtain m2 where m2: "strcpy_from rd st d s (i + 1) m1 = Some m2"
    "stored cell ld rest m1 (d + (i + 1)) (cs @ [0]) m2"
    using Cons by fastforce
  have "stored cell ld rest m (d + i) ([c] @ (cs @ [0])) m2"
    using r m1(3) by (rule ready_join) (simp add: m2(2) add.assoc)
  with m1 m2 Cons.prems show ?case by (subst strcpy_from.simps) simp
qed

lemma strcpy_stored:
  "ready rd m d s (cs @ [0]) \<Longrightarrow> 0 \<notin> set cs \<Longrightarrow>
     \<exists>m'. strcpy rd st d s m = Some m' \<and> stored cell ld rest m d (cs @ [0]) m'"
  using strcpy_from_stored [of rd m d 0 s cs] by (simp add: strcpy_def)

lemma memset_bottom_stored:
  "range_ok cell m d n \<Longrightarrow>
     \<exists>m'. memset_bottom st c n d m = Some m' \<and> stored cell ld rest m d (replicate n c) m'"
proof (induction n arbitrary: d m)
  case (Suc n)
  then obtain m1 where m1: "st d c m = Some m1"
    using st_mapped by (fastforce simp: range_ok_Suc)
  then have s1: "stored cell ld rest m d [c] m1" by (rule stored_one)
  have "range_ok cell m1 (d + 1) n"
    using Suc.prems by (simp add: range_ok_stored [OF s1] range_ok_Suc)
  then obtain m2 where m2: "memset_bottom st c n (d + 1) m1 = Some m2"
    "stored cell ld rest m1 (d + 1) (replicate n c) m2"
    using Suc.IH by blast
  have "stored cell ld rest m d ([c] @ replicate n c) m2"
    using Suc.prems m2 by (intro stored_append [OF _ s1]) simp_all
  with m1 m2 show ?case by simp
qed (simp add: stored_Nil)

end

context memory
begin

text \<open>
  The two phases of \<open>memset\<close> before the tail: each writes a prefix of the run and says how
  much is left.
\<close>

lemma memset_top_stored:
  "range_ok cell m d n \<Longrightarrow>
     \<exists>k m'. k \<le> n \<and> memset_top st c n d m = Some (n - k, d + of_nat k, m') \<and>
       stored cell ld rest m d (replicate k c) m'"
proof (induction n arbitrary: d m)
  case 0
  have "stored cell ld rest m d (replicate 0 c) m" by (simp add: stored_Nil)
  then show ?case by fastforce
next
  case (Suc n)
  show ?case
  proof (cases "d AND 3 = 0")
    case True
    have "stored cell ld rest m d (replicate 0 c) m" by (simp add: stored_Nil)
    with True show ?thesis by (intro exI [of _ 0] exI [of _ m]) simp
  next
    case False
    obtain m1 where m1: "st d c m = Some m1"
      using Suc.prems st_mapped by (fastforce simp: range_ok_Suc)
    then have s1: "stored cell ld rest m d [c] m1" by (rule stored_one)
    have "range_ok cell m1 (d + 1) n"
      using Suc.prems by (simp add: range_ok_stored [OF s1] range_ok_Suc)
    then obtain k m2 where k: "k \<le> n" and
      m2: "memset_top st c n (d + 1) m1 = Some (n - k, d + 1 + of_nat k, m2)"
      "stored cell ld rest m1 (d + 1) (replicate k c) m2"
      using Suc.IH by blast
    have "range_ok cell m d (Suc k)" using Suc.prems k by (auto intro: range_ok_mono)
    then have "stored cell ld rest m d ([c] @ replicate k c) m2"
      using m2 by (intro stored_append [OF _ s1]) simp_all
    with False m1 m2 k show ?thesis
      by (intro exI [of _ "Suc k"] exI [of _ m2]) (simp add: add.assoc)
  qed
qed

lemma rep_stosl_stored:
  assumes "le_bytes w = replicate 4 c"
  shows "range_ok cell m d (4 * n) \<Longrightarrow>
     \<exists>m'. rep_stosl st w n d m = Some (d + of_nat (4 * n), m') \<and>
       stored cell ld rest m d (replicate (4 * n) c) m'"
proof (induction n arbitrary: d m)
  case (Suc n)
  then have ok: "range_ok cell m d (4 + 4 * n)" by simp
  then have "range_ok cell m d (length (le_bytes w))" by (auto intro: range_ok_mono)
  then obtain m1 where m1: "write_bytes st d (le_bytes w) m = Some m1"
    and s1: "stored cell ld rest m d (replicate 4 c) m1"
    using write_bytes_stored assms by metis
  have "range_ok cell m1 (d + of_nat 4) (4 * n)"
    using ok by (simp only: range_ok_stored [OF s1] range_ok_shift)
  then obtain m2 where m2: "rep_stosl st w n (d + 4) m1 = Some (d + 4 + of_nat (4 * n), m2)"
    "stored cell ld rest m1 (d + 4) (replicate (4 * n) c) m2"
    using Suc.IH by fastforce
  have "stored cell ld rest m d (replicate 4 c @ replicate (4 * n) c) m2"
    using ok m2 by (intro stored_append [OF _ s1]) simp_all
  then have "stored cell ld rest m d (replicate (4 * Suc n) c) m2"
    by (simp flip: replicate_add)
  with m1 m2 show ?case by (simp add: add.assoc)
qed (simp add: stored_Nil)

lemma le_bytes_fill:
  fixes c :: i32
  defines "w \<equiv> push_bit 24 (c AND 0xFF) OR push_bit 16 (c AND 0xFF) OR
    push_bit 8 (c AND 0xFF) OR (c AND 0xFF)"
  shows "le_bytes w = replicate 4 (ucast c)" "ucast w = (ucast c :: u8)"
proof -
  have c: "c AND 0xFF = take_bit 8 c"
    by (simp add: take_bit_eq_mask mask_eq_exp_minus_1)
  have "ucast (drop_bit k w) = (ucast c :: u8)" if "k = 0 \<or> k = 8 \<or> k = 16 \<or> k = 24" for k
    using that unfolding w_def c
    by (intro bit_word_eqI)
      (elim disjE; simp add: bit_simps)
  from this [of 0] this [of 8] this [of 16] this [of 24]
  have *: "ucast w = (ucast c :: u8)" "ucast (drop_bit 8 w) = (ucast c :: u8)"
    "ucast (drop_bit 16 w) = (ucast c :: u8)" "ucast (drop_bit 24 w) = (ucast c :: u8)"
    by simp_all
  have "replicate 4 x = [x, x, x, x]" for x :: u8
    by (simp add: eval_nat_numeral)
  then show "le_bytes w = replicate 4 (ucast c)" "ucast w = (ucast c :: u8)"
    by (simp_all only: le_bytes_def *)
qed

lemma memset_stored:
  assumes ok: "range_ok cell m s (unat n)"
  shows "\<exists>m'. memset st s c n m = Some m' \<and>
    stored cell ld rest m s (replicate (unat n) (ucast c)) m'"
proof -
  define w where "w = push_bit 24 (c AND 0xFF) OR push_bit 16 (c AND 0xFF) OR
    push_bit 8 (c AND 0xFF) OR (c AND 0xFF)"
  have w: "le_bytes w = replicate 4 (ucast c)" and al: "ucast w = (ucast c :: u8)"
    unfolding w_def by (rule le_bytes_fill)+
  define N where "N = unat n"
  have memset: "memset st s c n m = do {
      (ecx, edi, m) \<leftarrow> memset_top st (ucast w) N s m;
      if ecx = 0 then Some m
      else do {
        (edi, m) \<leftarrow> rep_stosl st w (ecx div 4) edi m;
        memset_bottom st (ucast w) (ecx mod 4) edi m
      }
    }"
    unfolding memset_def Let_def w_def N_def ..
  obtain k m1 where k: "k \<le> N"
    and top: "memset_top st (ucast w) N s m = Some (N - k, s + of_nat k, m1)"
    and s1: "stored cell ld rest m s (replicate k (ucast c)) m1"
    using memset_top_stored [OF ok, of "ucast c"] unfolding al N_def by blast
  show ?thesis
  proof (cases "N - k = 0")
    case True
    with k top s1 show ?thesis by (simp add: memset flip: N_def)
  next
    case False
    define q r where "q = (N - k) div 4" and "r = (N - k) mod 4"
    have N: "N = k + (4 * q + r)" using k by (simp add: q_def r_def)
    have okm: "range_ok cell m s (k + (4 * q + r))" using ok by (simp add: N flip: N_def)
    then have ok1: "range_ok cell m1 (s + of_nat k) (4 * q + r)"
      by (simp only: range_ok_stored [OF s1] range_ok_shift)
    then have "range_ok cell m1 (s + of_nat k) (4 * q)" by (rule range_ok_mono) simp
    then obtain m2 where
      mid: "rep_stosl st w q (s + of_nat k) m1 = Some (s + of_nat k + of_nat (4 * q), m2)"
      and s2: "stored cell ld rest m1 (s + of_nat k) (replicate (4 * q) (ucast c)) m2"
      using rep_stosl_stored [OF w] by blast
    have "range_ok cell m2 (s + of_nat k + of_nat (4 * q)) r"
      using ok1 by (simp only: range_ok_stored [OF s2] range_ok_shift)
    then obtain m3 where
      bot: "memset_bottom st (ucast w) r (s + of_nat k + of_nat (4 * q)) m2 = Some m3"
      and s3: "stored cell ld rest m2 (s + of_nat k + of_nat (4 * q)) (replicate r (ucast c)) m3"
      using memset_bottom_stored unfolding al by blast
    have "stored cell ld rest m1 (s + of_nat k)
        (replicate (4 * q) (ucast c) @ replicate r (ucast c)) m3"
      using ok1 s3 by (intro stored_append [OF _ s2]) simp_all
    then have "stored cell ld rest m s
        (replicate k (ucast c) @ (replicate (4 * q) (ucast c) @ replicate r (ucast c))) m3"
      using okm by (intro stored_append [OF _ s1]) simp_all
    then have "stored cell ld rest m s (replicate N (ucast c)) m3"
      by (simp add: N flip: replicate_add)
    with False top mid bot show ?thesis
      by (simp add: memset q_def r_def flip: N_def)
  qed
qed

end

context memory
begin

lemma memcpy_bottom_stored:
  "ready rd m d s bs \<Longrightarrow>
     \<exists>m'. memcpy_bottom rd st (length bs) d s m = Some m' \<and> stored cell ld rest m d bs m'"
proof (induction bs arbitrary: d s m)
  case (Cons b bs)
  then have r: "ready rd m d s ([b] @ bs)" by simp
  then obtain m1 where m1: "rd m s = Some b" "st d b m = Some m1"
    "stored cell ld rest m d [b] m1"
    by (rule ready_byte [OF ready_first])
  have "ready rd m1 (d + 1) (s + 1) bs" using ready_second [OF r m1(3)] by simp
  then obtain m2 where m2: "memcpy_bottom rd st (length bs) (d + 1) (s + 1) m1 = Some m2"
    "stored cell ld rest m1 (d + 1) bs m2"
    using Cons.IH by blast
  have "stored cell ld rest m d ([b] @ bs) m2" using r m1(3) by (rule ready_join) (simp add: m2)
  with m1 m2 show ?case by simp
qed (simp add: stored_Nil)

lemma memcpy_top_stored:
  "ready rd m d s bs \<Longrightarrow>
     \<exists>k m'. k \<le> length bs \<and>
       memcpy_top rd st (length bs) d s m =
         Some (length bs - k, d + of_nat k, s + of_nat k, m') \<and>
       stored cell ld rest m d (take k bs) m'"
proof (induction bs arbitrary: d s m)
  case Nil
  then show ?case by (intro exI [of _ 0] exI [of _ m]) (simp add: stored_Nil)
next
  case (Cons b bs)
  show ?case
  proof (cases "d AND 3 = 0")
    case True
    then show ?thesis by (intro exI [of _ 0] exI [of _ m]) (simp add: stored_Nil)
  next
    case False
    from Cons have r: "ready rd m d s ([b] @ bs)" by simp
    then obtain m1 where m1: "rd m s = Some b" "st d b m = Some m1"
      "stored cell ld rest m d [b] m1"
      by (rule ready_byte [OF ready_first])
    have "ready rd m1 (d + 1) (s + 1) bs" using ready_second [OF r m1(3)] by simp
    then obtain k m2 where k: "k \<le> length bs" and
      m2: "memcpy_top rd st (length bs) (d + 1) (s + 1) m1 =
        Some (length bs - k, d + 1 + of_nat k, s + 1 + of_nat k, m2)"
      "stored cell ld rest m1 (d + 1) (take k bs) m2"
      using Cons.IH by blast
    have "ready rd m d s (([b] @ take k bs) @ drop k bs)" using r by simp
    then have "stored cell ld rest m d ([b] @ take k bs) m2"
      by (rule ready_join [OF ready_first _ _, OF _ m1(3)]) (simp add: m2)
    with False m1 m2 k show ?thesis
      by (intro exI [of _ "Suc k"] exI [of _ m2]) (simp add: add.assoc)
  qed
qed

lemma rep_movsl_stored:
  "ready rd m d s bs \<Longrightarrow> length bs = 4 * n \<Longrightarrow>
     \<exists>m'. rep_movsl rd st n d s m = Some (d + of_nat (4 * n), s + of_nat (4 * n), m') \<and>
       stored cell ld rest m d bs m'"
proof (induction n arbitrary: d s m bs)
  case (Suc n)
  have "length bs = Suc (Suc (Suc (Suc (4 * n))))" using Suc.prems(2) by simp
  then obtain b0 b1 b2 b3 cs where bs: "bs = [b0, b1, b2, b3] @ cs" and cs: "length cs = 4 * n"
    by (auto simp: length_Suc_conv)
  define w where "w = le_word b0 b1 b2 b3"
  have w: "le_bytes w = [b0, b1, b2, b3]" by (simp add: w_def le_bytes_le_word)
  have r: "ready rd m d s (le_bytes w @ cs)" using Suc.prems(1) by (simp add: bs w)
  then have r1: "ready rd m d s (le_bytes w)" by (rule ready_first)
  then have ld: "ld32 (rd m) s = Some w" by (intro ld32_bytes_at ready_now)
  obtain m1 where m1: "write_bytes st d (le_bytes w) m = Some m1"
    "stored cell ld rest m d (le_bytes w) m1"
    using ready_write [OF r1] by blast
  have "ready rd m1 (d + 4) (s + 4) cs" using ready_second [OF r m1(2)] by simp
  then obtain m2 where m2: "rep_movsl rd st n (d + 4) (s + 4) m1 =
      Some (d + 4 + of_nat (4 * n), s + 4 + of_nat (4 * n), m2)"
    "stored cell ld rest m1 (d + 4) cs m2"
    using Suc.IH cs by blast
  have "stored cell ld rest m d (le_bytes w @ cs) m2"
    using r m1(2) by (rule ready_join) (simp add: m2)
  with ld m1 m2 show ?case by (simp add: bs w add.assoc)
qed (simp add: stored_Nil)

lemma memcpy_stored:
  assumes r: "ready rd m d s bs" and n: "length bs = unat n"
  shows "\<exists>m'. memcpy rd st d s n m = Some m' \<and> stored cell ld rest m d bs m'"
proof -
  obtain k m1 where k: "k \<le> length bs"
    and top: "memcpy_top rd st (length bs) d s m =
      Some (length bs - k, d + of_nat k, s + of_nat k, m1)"
    and s1: "stored cell ld rest m d (take k bs) m1"
    using memcpy_top_stored [OF r] by blast
  show ?thesis
  proof (cases "length bs - k = 0")
    case True
    with k top s1 show ?thesis by (simp add: memcpy_def flip: n)
  next
    case False
    define q where "q = (length bs - k) div 4"
    define mid bot where "mid = take (4 * q) (drop k bs)" and "bot = drop (4 * q) (drop k bs)"
    have q: "4 * q \<le> length bs - k" by (simp add: q_def)
    have bs: "bs = take k bs @ (mid @ bot)" by (simp only: mid_def bot_def append_take_drop_id)
    have lens: "length mid = 4 * q" "length bot = (length bs - k) mod 4"
      using q by (simp add: mid_def, simp only: bot_def length_drop q_def minus_mult_div_eq_mod)
    have r1: "ready rd m1 (d + of_nat k) (s + of_nat k) (mid @ bot)"
      using ready_second [of rd m d s "take k bs" "mid @ bot" m1] r s1 k bs by simp
    obtain m2 where m2: "rep_movsl rd st q (d + of_nat k) (s + of_nat k) m1 =
        Some (d + of_nat k + of_nat (4 * q), s + of_nat k + of_nat (4 * q), m2)"
      and s2: "stored cell ld rest m1 (d + of_nat k) mid m2"
      using rep_movsl_stored [OF ready_first [OF r1] lens(1)] by blast
    obtain m3 where m3: "memcpy_bottom rd st (length bot) (d + of_nat k + of_nat (4 * q))
        (s + of_nat k + of_nat (4 * q)) m2 = Some m3"
      and s3: "stored cell ld rest m2 (d + of_nat k + of_nat (4 * q)) bot m3"
      using memcpy_bottom_stored ready_second [OF r1 s2] lens(1) by metis
    have "stored cell ld rest m1 (d + of_nat k) (mid @ bot) m3"
      using r1 s2 by (rule ready_join) (simp add: s3 lens(1) del: of_nat_mult)
    then have "stored cell ld rest m d bs m3"
      using ready_join [of rd m d s "take k bs" "mid @ bot" m1 m3] r s1 k bs by simp
    with False top m2 m3 lens show ?thesis
      by (simp add: memcpy_def q_def flip: n)
  qed
qed

lemma strncpy_copy_stored:
  "feeds rd m (d + i) N (s + i) (cs @ [0]) \<Longrightarrow> 0 \<notin> set cs \<Longrightarrow> range_ok cell m (d + i) N \<Longrightarrow>
     N = unat n - unat i \<Longrightarrow>
     \<exists>m'. strncpy_copy rd st d s n i m = Some (i + of_nat (min (length cs) N), m') \<and>
       stored cell ld rest m (d + i) (take N cs) m'"
proof (induction cs arbitrary: i m N)
  case Nil
  then have "rd m (s + i) = Some 0"
    using feeds_now [of rd m] by (force simp: bytes_at_Cons)
  then show ?case by (subst strncpy_copy.simps) (simp add: stored_Nil)
next
  case (Cons c cs)
  then have rd: "rd m (s + i) = Some c" "c \<noteq> 0"
    using feeds_now [of rd m] by (force simp: bytes_at_Cons)+
  show ?case
  proof (cases "i < n")
    case False
    with Cons.prems have "N = 0" by (simp add: word_less_nat_alt)
    with False rd show ?thesis by (subst strncpy_copy.simps) (simp add: stored_Nil)
  next
    case True
    then obtain N' where N: "N = Suc N'"
      using Cons.prems(4) by (metis Suc_diff_Suc word_less_nat_alt)
    have N': "N' = unat n - unat (i + 1)" using N Cons.prems(4) unat_add_1 [OF True] by simp
    obtain m1 where m1: "st (d + i) c m = Some m1"
      using Cons.prems(3) st_mapped by (fastforce simp: N range_ok_Suc)
    then have s1: "stored cell ld rest m (d + i) [c] m1" by (rule stored_one)
    have "feeds rd m (d + i) N (s + i + 1) (cs @ [0])"
      using Cons.prems(1) feeds_Cons [of rd m "d + i" N "s + i" c "cs @ [0]"] by simp
    then have "feeds rd m1 (d + i + of_nat 1) N' (s + i + 1) (cs @ [0])"
      using s1 N by (intro feeds_stored [where m = m and n = N and k = 0]) auto
    moreover have ok1: "range_ok cell m1 (d + i + 1) N'"
      using Cons.prems(3) by (simp add: range_ok_stored [OF s1] N range_ok_Suc)
    ultimately obtain m2 where
      m2: "strncpy_copy rd st d s n (i + 1) m1 = Some (i + 1 + of_nat (min (length cs) N'), m2)"
      "stored cell ld rest m1 (d + i + 1) (take N' cs) m2"
      using Cons.IH [of m1 "i + 1" N'] Cons.prems(2) N' by (auto simp: add.assoc)
    have "range_ok cell m (d + i) (length [c] + length (take N' cs))"
      using Cons.prems(3) by (rule range_ok_mono) (simp add: N)
    then have "stored cell ld rest m (d + i) ([c] @ take N' cs) m2"
      by (rule stored_append [OF _ s1]) (simp add: m2)
    with True rd m1 m2 show ?thesis
      by (subst strncpy_copy.simps) (simp add: N add.assoc)
  qed
qed

lemma strncpy_pad_stored:
  "range_ok cell m (d + i) N \<Longrightarrow> N = unat n - unat i \<Longrightarrow>
     \<exists>m'. strncpy_pad st d n i m = Some m' \<and> stored cell ld rest m (d + i) (replicate N 0) m'"
proof (induction N arbitrary: i m)
  case 0
  then have "\<not> i < n" by (simp add: word_less_nat_alt)
  then show ?case by (subst strncpy_pad.simps) (simp add: stored_Nil)
next
  case (Suc N)
  then have i: "i < n" by (simp add: word_less_nat_alt)
  obtain m1 where m1: "st (d + i) 0 m = Some m1"
    using Suc.prems(1) st_mapped by (fastforce simp: range_ok_Suc)
  then have s1: "stored cell ld rest m (d + i) [0] m1" by (rule stored_one)
  have N: "N = unat n - unat (i + 1)" using Suc.prems(2) unat_add_1 [OF i] by simp
  have "range_ok cell m1 (d + i + 1) N"
    using Suc.prems(1) by (simp add: range_ok_stored [OF s1] range_ok_Suc)
  then obtain m2 where m2: "strncpy_pad st d n (i + 1) m1 = Some m2"
    "stored cell ld rest m1 (d + i + 1) (replicate N 0) m2"
    using Suc.IH [of m1 "i + 1"] N by (auto simp: add.assoc)
  have "stored cell ld rest m (d + i) ([0] @ replicate N 0) m2"
    using Suc.prems(1) m2 by (intro stored_append [OF _ s1]) simp_all
  with i m1 m2 show ?case by (subst strncpy_pad.simps) simp
qed

lemma strncpy_stored:
  assumes f: "feeds rd m d (unat n) s (cs @ [0])" and z: "0 \<notin> set cs"
    and ok: "range_ok cell m d (unat n)"
  shows "\<exists>m'. strncpy rd st d s n m = Some m' \<and>
    stored cell ld rest m d (take (unat n) cs @ replicate (unat n - length cs) 0) m'"
proof -
  define k where "k = min (length cs) (unat n)"
  obtain m1 where m1: "strncpy_copy rd st d s n 0 m = Some (of_nat k, m1)"
    and s1: "stored cell ld rest m d (take (unat n) cs) m1"
    using strncpy_copy_stored [of rd m d 0 "unat n" s cs n] f z ok by (auto simp: k_def)
  have "k < 2 ^ 32" using unat_u32_less [of n] by (simp add: k_def)
  then have k: "unat (of_nat k :: u32) = k" by (rule unat_of_nat_u32)
  have k_le: "k \<le> unat n" by (simp add: k_def)
  have len: "length (take (unat n) cs) = k" "unat n - k = unat n - length cs"
    by (simp_all add: k_def min_def)
  have "range_ok cell m1 (d + of_nat k) (unat n - k)"
    unfolding range_ok_stored [OF s1]
    by (rule range_ok_shift) (use ok k_le in simp)
  then obtain m2 where m2: "strncpy_pad st d n (of_nat k) m1 = Some m2"
    and s2: "stored cell ld rest m1 (d + of_nat k) (replicate (unat n - k) 0) m2"
    using strncpy_pad_stored [of m1 d "of_nat k" "unat n - k" n] unfolding k by blast
  have "stored cell ld rest m d (take (unat n) cs @ replicate (unat n - k) 0) m2"
    using s1
  proof (rule stored_append [rotated])
    show "range_ok cell m d (length (take (unat n) cs) + length (replicate (unat n - k) (0::u8)))"
    proof -
      have "length (take (unat n) cs) + length (replicate (unat n - k) (0::u8)) = unat n"
        by (simp add: k_def)
      with ok show ?thesis by metis
    qed
    show "stored cell ld rest m1 (d + of_nat (length (take (unat n) cs)))
        (replicate (unat n - k) 0) m2"
      using s2 by (simp only: len(1))
  qed
  with m1 m2 show ?thesis by (simp add: strncpy_def len(2))
qed

end

section \<open>Overlapping moves\<close>

context memory
begin

lemma rep_movsb_up:
  "range_ok cell m d (length bs) \<Longrightarrow> bytes_at (ld m) s bs \<Longrightarrow>
     (\<And>i j. i < j \<Longrightarrow> j < length bs \<Longrightarrow> cell m (d + of_nat i) \<noteq> cell m (s + of_nat j)) \<Longrightarrow>
     \<exists>m'. rep_movsb ld st False (length bs) d s m = Some m' \<and> stored cell ld rest m d bs m'"
proof (induction bs arbitrary: d s m)
  case (Cons b bs)
  obtain m1 where m1: "st d b m = Some m1"
    using Cons.prems(1) st_mapped by (fastforce simp: range_ok_Suc)
  then have s1: "stored cell ld rest m d [b] m1" by (rule stored_one)
  then have c: "cell m1 = cell m" by (rule stored_cell)
  have "cell m (s + of_nat (Suc j)) \<noteq> cell m d" if "j < length bs" for j
    using Cons.prems(3) [of 0 "Suc j"] that by auto
  then have "ld m1 (s + 1 + of_nat j) = ld m (s + 1 + of_nat j)" if "j < length bs" for j
    using s1 that by (auto simp: stored_def outside_def add.assoc)
  then have b1: "bytes_at (ld m1) (s + 1) bs"
    using Cons.prems(2) by (simp add: bytes_at_Cons) (simp add: bytes_at_def)
  have ap: "cell m1 (d + 1 + of_nat i) \<noteq> cell m1 (s + 1 + of_nat j)"
    if "i < j" "j < length bs" for i j
    using Cons.prems(3) [of "Suc i" "Suc j"] that c by (simp add: add.assoc)
  have "range_ok cell m1 (d + 1) (length bs)"
    using Cons.prems(1) by (simp add: range_ok_stored [OF s1] range_ok_Suc)
  from Cons.IH [OF this b1 ap] obtain m2 where
    m2: "rep_movsb ld st False (length bs) (d + 1) (s + 1) m1 = Some m2"
    "stored cell ld rest m1 (d + 1) bs m2"
    by blast
  have "stored cell ld rest m d ([b] @ bs) m2"
    using Cons.prems(1) m2 by (intro stored_append [OF _ s1]) simp_all
  with Cons.prems(2) m1 m2 show ?case by (simp add: bytes_at_Cons)
qed (simp add: stored_Nil)

lemma rep_movsb_down:
  "range_ok cell m d (length bs) \<Longrightarrow> bytes_at (ld m) s bs \<Longrightarrow>
     (\<And>i j. j < i \<Longrightarrow> i < length bs \<Longrightarrow> cell m (d + of_nat i) \<noteq> cell m (s + of_nat j)) \<Longrightarrow>
     \<exists>m'. rep_movsb ld st True (length bs)
         (d + of_nat (length bs) - 1) (s + of_nat (length bs) - 1) m = Some m' \<and>
       stored cell ld rest m d bs m'"
proof (induction bs arbitrary: m rule: rev_induct)
  case (snoc b bs)
  let ?d = "d + of_nat (length bs)" and ?s = "s + of_nat (length bs)"
  have "cell m ?d \<noteq> None"
    using snoc.prems(1) by (simp add: range_ok_def)
  then obtain m1 where m1: "st ?d b m = Some m1" using st_mapped by blast
  then have s1: "stored cell ld rest m ?d [b] m1" by (rule stored_one)
  then have c: "cell m1 = cell m" by (rule stored_cell)
  have "cell m (s + of_nat j) \<noteq> cell m ?d" if "j < length bs" for j
    using snoc.prems(3) [of j "length bs"] that by auto
  then have "ld m1 (s + of_nat j) = ld m (s + of_nat j)" if "j < length bs" for j
    using s1 that by (auto simp: stored_def outside_def)
  then have b1: "bytes_at (ld m1) s bs"
    using snoc.prems(2) by (simp add: bytes_at_append) (simp add: bytes_at_def)
  have ap: "cell m1 (d + of_nat i) \<noteq> cell m1 (s + of_nat j)" if "j < i" "i < length bs" for i j
    using snoc.prems(3) [of j i] that c by simp
  have "range_ok cell m1 d (length bs)"
    unfolding range_ok_stored [OF s1] using snoc.prems(1) by (rule range_ok_mono) simp
  from snoc.IH [OF this b1 ap] obtain m2 where
    m2: "rep_movsb ld st True (length bs) (?d - 1) (?s - 1) m1 = Some m2"
    "stored cell ld rest m1 d bs m2"
    by blast
  have "stored cell ld rest m d (bs @ [b]) m2"
    using snoc.prems(1) m2 by (intro stored_prepend [OF _ s1]) simp_all
  moreover have "ld m ?s = Some b" using snoc.prems(2) by (simp add: bytes_at_append bytes_at_Cons)
  moreover have "d + (of_nat (length bs) + 1) - 1 = ?d" "s + (of_nat (length bs) + 1) - 1 = ?s"
    by simp_all
  ultimately show ?case using m1 m2 by (simp add: add.commute)
qed (simp add: stored_Nil)

lemma memmove_stored:
  assumes ok: "range_ok cell m d (unat n)" and bs: "bytes_at (ld m) s bs" "length bs = unat n"
    and fits: "unat d + unat n \<le> 2 ^ 32" "unat s + unat n \<le> 2 ^ 32"
    and inj: "\<And>i j. i < unat n \<Longrightarrow> j < unat n \<Longrightarrow> cell m (d + of_nat i) = cell m (s + of_nat j) \<Longrightarrow>
      d + of_nat i = s + of_nat j"
  shows "\<exists>m'. memmove ld st d s n m = Some (m', s < d) \<and> stored cell ld rest m d bs m'"
proof -
  have sum: "unat (a + of_nat i) = unat a + i" if "unat a + unat n \<le> 2 ^ 32" "i < unat n"
    for a :: u32 and i
    using that unat_u32_less [of n] by (simp add: unat_word_ariths unat_of_nat_u32)
  have ap: "cell m (d + of_nat i) \<noteq> cell m (s + of_nat j)"
    if "i < unat n" "j < unat n" "unat d + i \<noteq> unat s + j" for i j
    using inj [OF that(1,2)] sum [OF fits(1) that(1)] sum [OF fits(2) that(2)] that(3) by auto
  show ?thesis
  proof (cases "d \<le> s")
    case True
    then have "unat d \<le> unat s" by (simp add: word_le_nat_alt)
    then have "cell m (d + of_nat i) \<noteq> cell m (s + of_nat j)" if "i < j" "j < length bs" for i j
      using ap [of i j] that bs(2) by simp
    with rep_movsb_up [of m d bs s] ok bs True show ?thesis
      by (auto simp: memmove_def not_less)
  next
    case False
    then have "unat s < unat d" by (simp add: word_le_nat_alt)
    then have "cell m (d + of_nat i) \<noteq> cell m (s + of_nat j)" if "j < i" "i < length bs" for i j
      using ap [of i j] that bs(2) by simp
    with rep_movsb_down [of m d bs s] ok bs False show ?thesis
      by (auto simp: memmove_def not_le)
  qed
qed

section \<open>Reversal\<close>

lemma strrev_from_stored:
  "range_ok cell m s (length (pre @ mid @ suf)) \<Longrightarrow> bytes_at (ld m) s (pre @ mid @ suf) \<Longrightarrow>
     length (pre @ mid @ suf) < 2 ^ 31 \<Longrightarrow>
     \<exists>m'. strrev_from ld st s (of_nat (length pre)) (of_nat (length (pre @ mid)) - 1) m = Some m' \<and>
       stored cell ld rest m s (pre @ rev mid @ suf) m'"
proof (induction "length mid" arbitrary: pre mid suf m rule: less_induct)
  case less
  let ?b = "of_nat (length pre) :: u32" and ?e = "of_nat (length (pre @ mid)) - 1 :: u32"
  have "(?b <s ?e) = (int (length pre) < int (length (pre @ mid)) - 1)"
    using less.prems(3)
    by (simp add: word_sless_alt sint_of_nat_u32 sint_of_nat_minus_1 del: of_nat_add)
  then have cond: "(?b <s ?e) = (2 \<le> length mid)" by auto
  show ?case
  proof (cases "2 \<le> length mid")
    case False
    then have "rev mid = mid" by (cases mid; cases "tl mid") auto
    moreover have "stored cell ld rest m s (pre @ mid @ suf) m"
      using less.prems(2) by (simp add: stored_def)
    ultimately show ?thesis using False cond by (subst strrev_from.simps) simp
  next
    case True
    then obtain x mid1 where "mid = x # mid1" "mid1 \<noteq> []" by (cases mid; cases "tl mid") auto
    then obtain y M where mid: "mid = x # M @ [y]" by (metis rev_exhaust)
    have e: "?e = of_nat (length pre + Suc (length M))" by (simp add: mid)
    let ?xs = "pre @ mid @ suf" and ?i = "length pre" and ?j = "length pre + Suc (length M)"
    have ld: "ld m (s + of_nat ?j) = Some y" "ld m (s + of_nat ?i) = Some x"
      using bytes_at_nth [OF less.prems(2), of ?j] bytes_at_nth [OF less.prems(2), of ?i]
      by (simp_all add: mid nth_append)
    have ok: "range_ok cell m s (length ?xs)" by (rule less.prems(1))
    have "cell m (s + of_nat ?j) \<noteq> None" by (rule range_ok_cell [OF ok]) (simp add: mid)
    then obtain m1 where m1: "st (s + of_nat ?j) x m = Some m1" using st_mapped by blast
    have s1: "stored cell ld rest m s (?xs[?j := x]) m1"
      by (rule stored_update [OF ok less.prems(2) _ m1]) (simp add: mid)
    then have c: "cell m1 = cell m" by (rule stored_cell)
    have "cell m (s + of_nat ?i) \<noteq> None" by (rule range_ok_cell [OF ok]) (simp add: mid)
    then have "cell m1 (s + of_nat ?i) \<noteq> None" by (simp only: c not_False_eq_True)
    then obtain m2 where m2: "st (s + of_nat ?i) y m1 = Some m2" using st_mapped by blast
    have ok1: "range_ok cell m1 s (length (?xs[?j := x]))"
      using ok by (simp add: range_ok_stored [OF s1])
    have s2: "stored cell ld rest m1 s (?xs[?j := x, ?i := y]) m2"
      by (rule stored_update [OF ok1 _ _ m2]) (use s1 in \<open>simp_all add: stored_def mid\<close>)
    have xs: "?xs[?j := x, ?i := y] = (pre @ [y]) @ M @ (x # suf)"
      by (simp add: mid list_update_append)
    have s12: "stored cell ld rest m s ((pre @ [y]) @ M @ (x # suf)) m2"
      using stored_overwrite [OF s1 s2] unfolding xs by (simp add: mid)
    have ok2: "range_ok cell m2 s (length ((pre @ [y]) @ M @ (x # suf)))"
      using ok by (simp add: range_ok_stored [OF s12] mid)
    have b2: "bytes_at (ld m2) s ((pre @ [y]) @ M @ (x # suf))"
      using s12 by (simp add: stored_def)
    obtain m3 where m3: "strrev_from ld st s (of_nat (length (pre @ [y])))
        (of_nat (length ((pre @ [y]) @ M)) - 1) m2 = Some m3"
      and s3: "stored cell ld rest m2 s ((pre @ [y]) @ rev M @ (x # suf)) m3"
      using less.hyps [OF _ ok2 b2] less.prems(3) by (auto simp: mid)
    have "stored cell ld rest m s ((pre @ [y]) @ rev M @ (x # suf)) m3"
      by (rule stored_overwrite [OF s12 s3]) simp
    moreover have "strrev_from ld st s ?b ?e m = Some m3"
      using cond True ld m1 m2 m3 unfolding e
      by (subst strrev_from.simps) (simp add: algebra_simps)
    ultimately show ?thesis by (simp add: mid)
  qed
qed

lemma strrev_stored:
  assumes "range_ok cell m s (length cs)" "cstr_at (ld m) s cs" "length cs < 2 ^ 31"
  shows "\<exists>m'. strrev ld st s m = Some m' \<and> stored cell ld rest m s (rev cs) m'"
  using strrev_from_stored [of m s "[]" cs "[]"] assms strlen_cstr [OF assms(2)]
  by (simp add: strrev_def cstr_at_def bytes_at_append)

end

section \<open>Numbers in a radix\<close>

text \<open>The digits of a number, the least significant first.\<close>

fun digits_le :: "nat \<Rightarrow> nat \<Rightarrow> nat list" where
  "digits_le r n = (if n = 0 \<or> r < 2 then [] else n mod r # digits_le r (n div r))"

declare digits_le.simps [simp del]

lemma length_lookup_digits [simp]: "length lookup_digits = 37"
  by (simp add: lookup_digits_def chars_def)

lemma lookup_digits_0 [simp]: "lookup_digits ! 0 = of_char (CHR ''0'')"
  by (simp add: lookup_digits_def chars_def)

lemma zero_notin_lookup: "d < 36 \<Longrightarrow> lookup_digits ! d \<noteq> 0"
proof -
  have "\<forall>d < 36. lookup_digits ! d \<noteq> 0" by code_simp
  then show "d < 36 \<Longrightarrow> lookup_digits ! d \<noteq> 0" by simp
qed

definition number_of :: "nat \<Rightarrow> nat list \<Rightarrow> nat" where
  "number_of r ds = foldl (\<lambda>v d. v * r + d) 0 ds"

lemma number_of_digits: "2 \<le> r \<Longrightarrow> number_of r (rev (digits_le r n)) = n"
  unfolding number_of_def foldl_conv_foldr rev_rev_ident
  by (induction r n rule: digits_le.induct) (subst digits_le.simps, simp)

lemma digits_le_less: "2 \<le> r \<Longrightarrow> d \<in> set (digits_le r n) \<Longrightarrow> d < r"
  by (induction r n rule: digits_le.induct) (subst (asm) (2) digits_le.simps, auto split: if_splits)

lemma digits_le_last: "2 \<le> r \<Longrightarrow> 0 < n \<Longrightarrow> digits_le r n \<noteq> [] \<and> last (digits_le r n) \<noteq> 0"
proof (induction r n rule: digits_le.induct)
  case (1 r n)
  show ?case
  proof (cases "n div r = 0")
    case True
    moreover have "digits_le r 0 = []" by (simp add: digits_le.simps)
    moreover have "n mod r = n" using True 1 by (auto simp: div_eq_0_iff)
    ultimately show ?thesis using 1 by (subst (1 2) digits_le.simps) simp
  next
    case False
    with 1 show ?thesis by (subst (1 2) digits_le.simps) simp
  qed
qed

lemma digits_le_length: "2 \<le> r \<Longrightarrow> n < r ^ k \<Longrightarrow> length (digits_le r n) \<le> k"
proof (induction k arbitrary: n)
  case 0
  then show ?case by (simp add: digits_le.simps)
next
  case (Suc k)
  have "n div r < r ^ k" using Suc.prems by (simp add: less_mult_imp_div_less mult.commute)
  with Suc show ?case by (subst digits_le.simps) simp
qed

definition numeral_digits :: "nat \<Rightarrow> nat \<Rightarrow> nat list" where
  "numeral_digits r n = (if n = 0 then [0] else rev (digits_le r n))"

lemma numeral_digits:
  assumes "2 \<le> r"
  shows "number_of r (numeral_digits r n) = n" "d \<in> set (numeral_digits r n) \<Longrightarrow> d < r" "numeral_digits r n \<noteq> []"
    "hd (numeral_digits r n) = 0 \<Longrightarrow> n = 0" "0 < k \<Longrightarrow> n < r ^ k \<Longrightarrow> length (numeral_digits r n) \<le> k"
  using assms number_of_digits [OF assms, of n] digits_le_less [OF assms, of d n] digits_le_last [OF assms, of n]
    digits_le_length [OF assms, of n k]
  by (auto simp: numeral_digits_def hd_rev number_of_def split: if_splits)

context memory
begin

lemma itoa_digits_stored:
  assumes r: "2 \<le> unat radix" "unat radix \<le> 36"
  shows "range_ok cell m a (length (digits_le (unat radix) (unat v))) \<Longrightarrow>
     \<exists>m'. itoa_digits st v a radix m =
         Some (a + of_nat (length (digits_le (unat radix) (unat v))), m') \<and>
       stored cell ld rest m a (map ((!) lookup_digits) (digits_le (unat radix) (unat v))) m'"
proof (induction "unat v" arbitrary: v a m rule: less_induct)
  case less
  let ?r = "unat radix"
  show ?case
  proof (cases "v = 0")
    case True
    then show ?thesis
      by (subst itoa_digits.simps) (simp add: digits_le.simps stored_Nil)
  next
    case False
    then have pos: "0 < v" "0 < unat v" by (simp_all add: word_gt_0 unat_gt_0)
    have r0: "radix \<noteq> 0" using r by auto
    have step: "digits_le ?r (unat v) = unat v mod ?r # digits_le ?r (unat (v div radix))"
      using pos r by (subst digits_le.simps) (simp add: unat_div)
    have smaller: "unat (v div radix) < unat v"
      using pos r by (simp add: unat_div)
    have "unat v mod ?r < 36" using r by (intro less_le_trans [OF mod_less_divisor]) simp_all
    then have look: "arr_get lookup_digits (unat (v mod radix)) =
        Some (lookup_digits ! (unat v mod ?r))"
      by (simp add: unat_mod)
    obtain m1 where m1: "st a (lookup_digits ! (unat v mod ?r)) m = Some m1"
      using range_ok_cell [OF less.prems, of 0] st_mapped by (fastforce simp: step)
    then have s1: "stored cell ld rest m a [lookup_digits ! (unat v mod ?r)] m1"
      by (rule stored_one)
    have ok1: "range_ok cell m1 (a + 1) (length (digits_le ?r (unat (v div radix))))"
      using less.prems by (simp add: range_ok_stored [OF s1] step range_ok_Suc)
    obtain m2 where
      m2: "itoa_digits st (v div radix) (a + 1) radix m1 =
          Some (a + 1 + of_nat (length (digits_le ?r (unat (v div radix)))), m2)"
        "stored cell ld rest m1 (a + 1)
          (map ((!) lookup_digits) (digits_le ?r (unat (v div radix)))) m2"
      using less.hyps [OF smaller ok1] by blast
    have "stored cell ld rest m a ([lookup_digits ! (unat v mod ?r)] @
        map ((!) lookup_digits) (digits_le ?r (unat (v div radix)))) m2"
      by (rule stored_append [OF _ s1]) (use less.prems m2 in \<open>simp_all add: step\<close>)
    with pos r0 look m1 m2 show ?thesis
      by (subst itoa_digits.simps) (simp add: step add.assoc)
  qed
qed

lemma itoa_text:
  assumes r: "2 \<le> unat radix" "unat radix \<le> 36" and ok: "range_ok cell m a 33"
  shows "\<exists>m'. itoa ld st v a radix m = Some m' \<and>
    stored cell ld rest m a (map ((!) lookup_digits) (numeral_digits (unat radix) (unat v)) @ [0]) m'"
proof (cases "v = 0")
  case True
  have "range_ok cell m a (length [of_char (CHR ''0''), 0::u8])"
    using ok by (rule range_ok_mono) simp
  then obtain m' where m': "write_bytes st a [of_char (CHR ''0''), 0] m = Some m'"
    "stored cell ld rest m a [of_char (CHR ''0''), 0] m'"
    using write_bytes_stored by blast
  then have "itoa ld st v a radix m = Some m'"
    using True by (auto simp: itoa_def Option.bind_eq_Some_conv)
  with True m' r show ?thesis
    by (auto simp: numeral_digits_def)
next
  case False
  let ?ds = "digits_le (unat radix) (unat v)"
  let ?cs = "map ((!) lookup_digits) ?ds"
  have "2 ^ 32 \<le> unat radix ^ 32" using r(1) by (rule power_mono) simp
  then have len: "length ?ds \<le> 32"
    using r unat_u32_less [of v] by (intro digits_le_length) simp_all
  have ok1: "range_ok cell m a (length ?ds)" using ok by (rule range_ok_mono) (use len in simp)
  obtain m1 where m1: "itoa_digits st v a radix m = Some (a + of_nat (length ?ds), m1)"
    and s1: "stored cell ld rest m a ?cs m1"
    using itoa_digits_stored [OF r ok1] by blast
  have "cell m1 (a + of_nat (length ?ds)) \<noteq> None"
    unfolding stored_cell [OF s1] by (rule range_ok_cell [OF ok]) (use len in simp)
  then obtain m2 where m2: "st (a + of_nat (length ?ds)) 0 m1 = Some m2" using st_mapped by blast
  have ok2: "range_ok cell m a (length (?cs @ [0::u8]))"
    using ok by (rule range_ok_mono) (use len in simp)
  have s2: "stored cell ld rest m a (?cs @ [0]) m2"
    by (rule stored_append [OF _ s1]) (use ok2 stored_one [OF m2] in simp_all)
  have nz: "0 \<notin> set ?cs"
  proof
    assume "0 \<in> set ?cs"
    then obtain d where d: "d \<in> set ?ds" "lookup_digits ! d = 0" by auto
    show False using digits_le_less [OF r(1) d(1)] r(2) zero_notin_lookup d(2) by fastforce
  qed
  have c2: "cstr_at (ld m2) a ?cs" using s2 nz by (simp add: cstr_at_def stored_def)
  have ok3: "range_ok cell m2 a (length ?cs)"
    unfolding range_ok_stored [OF s2] using ok by (rule range_ok_mono) (use len in simp)
  obtain m3 where m3: "strrev ld st a m2 = Some m3" "stored cell ld rest m2 a (rev ?cs) m3"
    using strrev_stored [OF ok3 c2] len by auto
  have out: "outside cell m2 a (length (rev ?cs)) (a + of_nat (length ?cs))"
    using range_ok_outside [of cell m2 a "length ?cs + 1" "length ?cs" 0 "length ?cs"] ok2 range_ok_stored [OF s2]
    by simp
  have "stored cell ld rest m2 a (rev ?cs @ [0]) m3"
    using m3(2) out s2 by (auto simp: stored_def bytes_at_append bytes_at_Cons outside_def less_Suc_eq)
  then have "stored cell ld rest m a (rev ?cs @ [0]) m3"
    by (rule stored_overwrite [OF s2]) simp
  moreover have "itoa ld st v a radix m = Some m3" using False m1 m2 m3 by (simp add: itoa_def)
  ultimately show ?thesis
    using False by (intro exI [of _ m3]) (simp add: numeral_digits_def rev_map unat_eq_0)
qed

lemma itoa_stored:
  assumes r: "2 \<le> unat radix" "unat radix \<le> 36" and ok: "range_ok cell m a 33"
  shows "\<exists>ds m'. itoa ld st v a radix m = Some m' \<and>
    stored cell ld rest m a (map ((!) lookup_digits) ds @ [0]) m' \<and>
    number_of (unat radix) ds = unat v \<and> (\<forall>d \<in> set ds. d < unat radix) \<and> ds \<noteq> [] \<and>
    (hd ds = 0 \<longrightarrow> v = 0) \<and>
    (\<forall>k > 0. unat v < unat radix ^ k \<longrightarrow> length ds \<le> k)"
proof -
  obtain m' where "itoa ld st v a radix m = Some m'"
    "stored cell ld rest m a (map ((!) lookup_digits) (numeral_digits (unat radix) (unat v)) @ [0]) m'"
    using itoa_text [OF assms] by blast
  moreover note numeral_digits [OF r(1), where n = "unat v"]
  ultimately show ?thesis
    by (intro exI [of _ "numeral_digits (unat radix) (unat v)"] exI [of _ m']) (auto simp: unat_eq_0)
qed

end

section \<open>The routines on the kernel's memory\<close>

text \<open>
  C39. \<open>memcpy\<close>, with its byte loops around \<open>rep movsl\<close>, copies exactly the \<open>n\<close> bytes when
  target and source share no memory: for every alignment and length the target holds the
  bytes afterwards, no other address changes, and it does return.
\<close>

theorem memcpy_copies:
  assumes "range_ok (xlate Supervisor) s dest (unat n)"
    and "bytes_at (ld8 s) src bs" "length bs = unat n"
    and "apart (xlate Supervisor) s dest (unat n) src (unat n)"
  shows "\<exists>s'. memcpy ld8 st8 dest src n s = Some s' \<and> mem_stored s dest bs s'"
  using assms by (intro kmem.memcpy_stored) (simp_all add: kmem.ready_def kmem.feeds_self)

theorem memcpy_copies_witness:
  "\<exists>s'. memcpy ld8 st8 0x1003 0x2000 7 (flat_mach 0x2000 [1, 2, 3, 4, 5, 6, 7]) = Some s' \<and>
     mem_stored (flat_mach 0x2000 [1, 2, 3, 4, 5, 6, 7]) 0x1003 [1, 2, 3, 4, 5, 6, 7] s'"
proof (rule memcpy_copies)
  show "bytes_at (ld8 (flat_mach 0x2000 [1, 2, 3, 4, 5, 6, 7])) 0x2000 [1, 2, 3, 4, 5, 6, 7]"
    by (rule flat_mach_bytes) simp
qed (simp_all add: unpaged_range_ok unpaged_apart)

text \<open>
  C13. \<open>memmove\<close> copies the \<open>n\<close> bytes also when source and target overlap, in either
  direction: what it leaves at the target is what the source held before. The direction flag
  is left set when it copied backwards.
\<close>

theorem memmove_copies:
  assumes "range_ok (xlate Supervisor) s dest (unat n)"
    and "bytes_at (ld8 s) src bs" "length bs = unat n"
    and "unat dest + unat n \<le> 2 ^ 32" "unat src + unat n \<le> 2 ^ 32"
    and "\<And>i j. i < unat n \<Longrightarrow> j < unat n \<Longrightarrow>
      xlate Supervisor s (dest + of_nat i) = xlate Supervisor s (src + of_nat j) \<Longrightarrow>
      dest + of_nat i = src + of_nat j"
  shows "\<exists>s'. memmove ld8 st8 dest src n s = Some (s', src < dest) \<and> mem_stored s dest bs s'"
  using assms by (rule kmem.memmove_stored)

theorem memmove_copies_witness:
  "\<exists>s'. memmove ld8 st8 0x2002 0x2000 5 (flat_mach 0x2000 [1, 2, 3, 4, 5]) = Some (s', True) \<and>
     mem_stored (flat_mach 0x2000 [1, 2, 3, 4, 5]) 0x2002 [1, 2, 3, 4, 5] s'"
proof -
  have "\<exists>s'. memmove ld8 st8 0x2002 0x2000 5 (flat_mach 0x2000 [1, 2, 3, 4, 5]) =
        Some (s', 0x2000 < (0x2002 :: u32)) \<and>
      mem_stored (flat_mach 0x2000 [1, 2, 3, 4, 5]) 0x2002 [1, 2, 3, 4, 5] s'"
  proof (rule memmove_copies)
    show "bytes_at (ld8 (flat_mach 0x2000 [1, 2, 3, 4, 5])) 0x2000 [1, 2, 3, 4, 5]"
      by (rule flat_mach_bytes) simp
  qed (simp_all add: unpaged_range_ok)
  then show ?thesis by simp
qed

text \<open>
  C30. \<open>memset\<close>, with its byte loops around \<open>rep stosl\<close>, fills exactly \<open>n\<close> bytes with the
  low byte of \<open>c\<close>.
\<close>

theorem memset_fills:
  assumes "range_ok (xlate Supervisor) s a (unat n)"
  shows "\<exists>s'. memset st8 a c n s = Some s' \<and> mem_stored s a (replicate (unat n) (ucast c)) s'"
  using assms by (rule kmem.memset_stored)

theorem memset_fills_witness:
  "\<exists>s'. memset st8 0x1001 0x141 11 (flat_mach 0 []) = Some s' \<and>
     mem_stored (flat_mach 0 []) 0x1001 (replicate (unat (11 :: u32)) (ucast (0x141 :: i32))) s'"
  by (rule memset_fills) (simp add: unpaged_range_ok)

text \<open>
  C40. \<open>itoa\<close>, for any radix from 2 to 36, leaves a zero-terminated numeral: its digits read
  back in that radix give the value, each is below the radix, there is no leading zero except
  in the numeral of zero, and so no more digits than needed. 33 bytes are enough.
\<close>

theorem itoa_numeral:
  assumes "2 \<le> unat radix" "unat radix \<le> 36" "range_ok (xlate Supervisor) s buf 33"
  shows "\<exists>ds s'. itoa ld8 st8 v buf radix s = Some s' \<and>
    mem_stored s buf (map ((!) lookup_digits) ds @ [0]) s' \<and>
    number_of (unat radix) ds = unat v \<and> (\<forall>d \<in> set ds. d < unat radix) \<and> ds \<noteq> [] \<and>
    (hd ds = 0 \<longrightarrow> v = 0) \<and>
    (\<forall>k > 0. unat v < unat radix ^ k \<longrightarrow> length ds \<le> k)"
  using assms by (rule kmem.itoa_stored)

theorem itoa_numeral_witness:
  "\<exists>ds s'. itoa ld8 st8 255 0x1000 16 (flat_mach 0 []) = Some s' \<and>
    mem_stored (flat_mach 0 []) 0x1000 (map ((!) lookup_digits) ds @ [0]) s' \<and>
    number_of (unat (16 :: i32)) ds = unat (255 :: u32) \<and>
    (\<forall>d \<in> set ds. d < unat (16 :: i32)) \<and> ds \<noteq> [] \<and> (hd ds = 0 \<longrightarrow> (255 :: u32) = 0) \<and>
    (\<forall>k > 0. unat (255 :: u32) < unat (16 :: i32) ^ k \<longrightarrow> length ds \<le> k)"
  by (rule itoa_numeral) (simp_all add: unpaged_range_ok)

text \<open>
  \<open>strncpy\<close> copies at most \<open>n\<close> characters of the string and pads with zeros up to \<open>n\<close>;
  a string of \<open>n\<close> characters or more is cut and not terminated.
\<close>

theorem strncpy_pads:
  assumes "range_ok (xlate Supervisor) s dest (unat n)"
    and "cstr_at (ld8 s) src cs"
    and "apart (xlate Supervisor) s dest (unat n) src (Suc (length cs))"
  shows "\<exists>s'. strncpy ld8 st8 dest src n s = Some s' \<and>
    mem_stored s dest (take (unat n) cs @ replicate (unat n - length cs) 0) s'"
  using assms by (intro kmem.strncpy_stored) (auto simp: cstr_at_def intro!: kmem.feeds_self)

theorem strncpy_pads_witness:
  "\<exists>s'. strncpy ld8 st8 0x1000 0x2000 4 (flat_mach 0x2000 [65, 66, 0]) = Some s' \<and>
     mem_stored (flat_mach 0x2000 [65, 66, 0]) 0x1000
       (take (unat (4 :: u32)) [65, 66] @ replicate (unat (4 :: u32) - length [65, 66 :: u8]) 0) s'"
proof (rule strncpy_pads)
  show "cstr_at (ld8 (flat_mach 0x2000 [65, 66, 0])) 0x2000 [65, 66]"
    using flat_mach_bytes [of "[65, 66, 0]" "0x2000"] by (simp add: cstr_at_def)
qed (simp_all add: unpaged_range_ok unpaged_apart)

text \<open>
  \<open>strrev\<close> reverses a string in place; the terminator stays where it is.
\<close>

theorem strrev_reverses:
  assumes "range_ok (xlate Supervisor) s a (length cs)" "cstr_at (ld8 s) a cs" "length cs < 2 ^ 31"
  shows "\<exists>s'. strrev ld8 st8 a s = Some s' \<and> mem_stored s a (rev cs) s'"
  using assms by (rule kmem.strrev_stored)

theorem strrev_reverses_witness:
  "\<exists>s'. strrev ld8 st8 0x2000 (flat_mach 0x2000 [65, 66, 67, 0]) = Some s' \<and>
     mem_stored (flat_mach 0x2000 [65, 66, 67, 0]) 0x2000 (rev [65, 66, 67]) s'"
proof (rule strrev_reverses)
  show "cstr_at (ld8 (flat_mach 0x2000 [65, 66, 67, 0])) 0x2000 [65, 66, 67]"
    using flat_mach_bytes [of "[65, 66, 67, 0]" "0x2000"] by (simp add: cstr_at_def)
qed (simp_all add: unpaged_range_ok)

text \<open>What \<open>strncmp\<close> says of two strings held at two places, and of a prefix.\<close>

theorem strncmp_zero_iff_witness:
  "\<exists>v. strncmp (ldo [65, 66, 0]) 0 (ldo [65, 67, 0]) 0 1 = Some v \<and>
     (v = 0) = (take (unat (1 :: u32)) [65, 66] = take (unat (1 :: u32)) [65, 67 :: u8])"
  using obj_bytes_at [of "[65, 66, 0]"] obj_bytes_at [of "[65, 67, 0]"]
  by (intro strncmp_zero_iff) (simp_all add: cstr_at_def)

end
