(* ===== verification/File_System.thy ===== *)
theory File_System
  imports Lib_String
begin

text \<open>
  The read-only file system of \<open>file.c\<close>: the directory entries and inodes of the image the
  boot loader left in memory, read through the kernel's address space. Local \<open>dentry_t\<close>
  objects are their 64 bytes; what an uninitialised one holds is part of the state
  (\<open>stack_junk\<close>).
\<close>

section \<open>State and types\<close>

abbreviation "MAX_NAME_LEN \<equiv> (32 :: u32)"

text \<open>\<open>boot_block\<close> is the address the module was loaded at.\<close>

record fs_state = mach +
  boot_block :: u32
  dir_location :: i32
  stack_junk :: "u8 list"

text \<open>The jump tables of \<open>syscalls.c\<close>, by name, and the entries of a descriptor table.\<close>

datatype fot = Null_fot | Stdin_fot | Stdout_fot | File_fot | Rtc_fot | Dir_fot

record file_desc =
  fot_ptr :: fot
  inode :: u32
  file_position :: u32
  flags :: u32

text \<open>Fields of the structures of \<open>file.h\<close>, by their offset.\<close>

definition dir_count :: "(u32 \<Rightarrow> u8 option) \<Rightarrow> u32 \<Rightarrow> i32 option" where
  "dir_count r bb = ld32 r bb"

definition inode_count :: "(u32 \<Rightarrow> u8 option) \<Rightarrow> u32 \<Rightarrow> i32 option" where
  "inode_count r bb = ld32 r (bb + 4)"

definition d_entry :: "(u32 \<Rightarrow> u8 option) \<Rightarrow> u32 \<Rightarrow> u32 \<Rightarrow> u8 list option" where
  "d_entry r bb i = read_bytes r (bb + 64 + 64 * i) 64"

definition inode_length :: "(u32 \<Rightarrow> u8 option) \<Rightarrow> u32 \<Rightarrow> i32 option" where
  "inode_length r ino = ld32 r ino"

definition data_block_num :: "(u32 \<Rightarrow> u8 option) \<Rightarrow> u32 \<Rightarrow> i32 \<Rightarrow> i32 option" where
  "data_block_num r ino k = ld32 r (ino + 4 + 4 * k)"

definition file_type :: "u8 list \<Rightarrow> i32 option" where
  "file_type d = ld32 (ldo d) 32"

definition inode_num :: "u8 list \<Rightarrow> i32 option" where
  "inode_num d = ld32 (ldo d) 36"

definition inode_address :: "u32 \<Rightarrow> u32 \<Rightarrow> u32" where
  "inode_address bb i = FOUR_KB * i + (FOUR_KB + bb)"

section \<open>Directory entries\<close>

definition get_block_address :: "u32 \<Rightarrow> 'a fs_state_scheme \<Rightarrow> 'a fs_state_scheme" where
  "get_block_address address s = s\<lparr>boot_block := address\<rparr>"

definition read_dentry_by_index ::
  "u32 \<Rightarrow> u8 list \<Rightarrow> 'a fs_state_scheme \<Rightarrow> (i32 \<times> u8 list) option" where
  "read_dentry_by_index index dentry s = do {
     n \<leftarrow> dir_count (ld8 s) (boot_block s);
     if index \<ge> n then Some (-1, dentry)
     else do {
       entry \<leftarrow> d_entry (ld8 s) (boot_block s) index;
       a \<leftarrow> ldo entry 0;
       dentry \<leftarrow> sto 0 a dentry;
       dentry \<leftarrow> strcpy (\<lambda>_. ldo entry) sto 0 0 dentry;
       t \<leftarrow> file_type entry;
       dentry \<leftarrow> write_bytes sto 32 (le_bytes t) dentry;
       i \<leftarrow> inode_num entry;
       dentry \<leftarrow> write_bytes sto 36 (le_bytes i) dentry;
       Some (0, dentry)
     }
   }"

text \<open>The loop of \<open>read_dentry_by_name\<close>; \<open>rf\<close> reads the name that is looked for.\<close>

partial_function (option) search_dentry ::
  "(u32 \<Rightarrow> u8 option) \<Rightarrow> u32 \<Rightarrow> u32 \<Rightarrow> i32 \<Rightarrow> i32 \<Rightarrow> u8 list \<Rightarrow> 'a fs_state_scheme \<Rightarrow> (i32 \<times> u8 list) option"
where
  "search_dentry rf fname str_len d_count i dentry s =
     (if i <s d_count then do {
        entry \<leftarrow> d_entry (ld8 s) (boot_block s) i;
        l \<leftarrow> strlen (ldo entry) 0;
        let entry_fname_length = (if l > MAX_NAME_LEN then MAX_NAME_LEN else l);
        c \<leftarrow> (if entry_fname_length > str_len
             then strncmp (ldo entry) 0 rf fname entry_fname_length
             else strncmp (ldo entry) 0 rf fname str_len);
        if c = 0 then do {
          (_, dentry) \<leftarrow> read_dentry_by_index i dentry s;
          Some (0, dentry)
        } else search_dentry rf fname str_len d_count (i + 1) dentry s
      }
      else Some (-1, dentry))"

definition read_dentry_by_name ::
  "(u32 \<Rightarrow> u8 option) \<Rightarrow> u32 \<Rightarrow> u8 list \<Rightarrow> 'a fs_state_scheme \<Rightarrow> (i32 \<times> u8 list) option" where
  "read_dentry_by_name rf fname dentry s = do {
     d_count \<leftarrow> dir_count (ld8 s) (boot_block s);
     str_len \<leftarrow> strlen rf fname;
     if str_len > MAX_NAME_LEN then Some (-1, dentry)
     else search_dentry rf fname str_len d_count 0 dentry s
   }"

section \<open>Data\<close>

text \<open>
  The loop of \<open>read_data\<close>. The image is read through \<open>rd m\<close> and the bytes are stored by
  \<open>st\<close>: into the same memory when the target is a user buffer, into a local array in
  \<open>sys_execute\<close>.
\<close>

partial_function (option) read_blocks ::
  "('m \<Rightarrow> u32 \<Rightarrow> u8 option) \<Rightarrow> (u32 \<Rightarrow> u8 \<Rightarrow> 'm \<Rightarrow> 'm option) \<Rightarrow> u32 \<Rightarrow> u32 \<Rightarrow> u32 \<Rightarrow>
   i32 \<Rightarrow> u32 \<Rightarrow> u32 \<Rightarrow> u32 \<Rightarrow> 'm \<Rightarrow> (i32 \<times> 'm) option"
where
  "read_blocks rd st f_addr inode_ptr save_length blk_idx b_offset buf len m = do {
     b \<leftarrow> data_block_num (rd m) inode_ptr blk_idx;
     c \<leftarrow> inode_count (rd m) f_addr;
     let dest = FOUR_KB * (b + c + 1) + f_addr + b_offset;
     if FOUR_KB - b_offset \<ge> len then do {
       m \<leftarrow> memcpy rd st buf dest len m;
       Some (save_length, m)
     } else do {
       m \<leftarrow> memcpy rd st buf dest (FOUR_KB - b_offset) m;
       read_blocks rd st f_addr inode_ptr save_length (blk_idx + 1) 0
         (buf + FOUR_KB - b_offset) (len - FOUR_KB + b_offset) m
     }
   }"

definition read_data ::
  "('m \<Rightarrow> u32 \<Rightarrow> u8 option) \<Rightarrow> (u32 \<Rightarrow> u8 \<Rightarrow> 'm \<Rightarrow> 'm option) \<Rightarrow> u32 \<Rightarrow>
   u32 \<Rightarrow> u32 \<Rightarrow> u32 \<Rightarrow> u32 \<Rightarrow> 'm \<Rightarrow> (i32 \<times> 'm) option" where
  "read_data rd st bb i offset buf len m = do {
     let inode_ptr = inode_address bb i;
     l \<leftarrow> inode_length (rd m) inode_ptr;
     if offset \<ge> l then Some (0, m)
     else read_blocks rd st bb inode_ptr len (offset div FOUR_KB) (offset mod FOUR_KB) buf len m
   }"

definition get_file_length :: "u8 list \<Rightarrow> 'a fs_state_scheme \<Rightarrow> i32 option" where
  "get_file_length dentry s = do {
     t \<leftarrow> file_type dentry;
     if t \<noteq> 2 then Some 0
     else do {
       i \<leftarrow> inode_num dentry;
       inode_length (ld8 s) (inode_address (boot_block s) i)
     }
   }"

definition get_file_length_by_name ::
  "(u32 \<Rightarrow> u8 option) \<Rightarrow> u32 \<Rightarrow> 'a fs_state_scheme \<Rightarrow> i32 option" where
  "get_file_length_by_name rf fname s = do {
     (_, dentry) \<leftarrow> read_dentry_by_name rf fname (stack_junk s) s;
     i \<leftarrow> inode_num dentry;
     inode_length (ld8 s) (inode_address (boot_block s) i)
   }"

section \<open>The operations of the jump tables\<close>

definition fopen :: i32 where "fopen = 0"
definition fclose :: i32 where "fclose = 0"
definition fwrite :: i32 where "fwrite = -1"
definition dir_open :: i32 where "dir_open = 0"
definition dir_close :: i32 where "dir_close = 0"
definition dir_write :: i32 where "dir_write = -1"

text \<open>\<open>fread\<close> is given the descriptor itself, cast to an integer.\<close>

definition fread ::
  "file_desc \<Rightarrow> u32 \<Rightarrow> i32 \<Rightarrow> 'a fs_state_scheme \<Rightarrow> (i32 \<times> file_desc \<times> 'a fs_state_scheme) option" where
  "fread fd buf nbytes s = do {
     (val, s) \<leftarrow> read_data ld8 st8 (boot_block s) (inode fd) (file_position fd) buf nbytes s;
     Some (val, fd\<lparr>file_position := file_position fd + val\<rparr>, s)
   }"

definition dir_read :: "u32 \<Rightarrow> 'a fs_state_scheme \<Rightarrow> (i32 \<times> 'a fs_state_scheme) option" where
  "dir_read buf s = do {
     (v, dentry) \<leftarrow> read_dentry_by_index (dir_location s) (stack_junk s) s;
     if v = 0 then do {
       s \<leftarrow> write_bytes st8 buf (replicate 33 0) s;
       len \<leftarrow> strlen (ldo dentry) 0;
       let len = (if 32 <s len then 32 else len);
       s \<leftarrow> strncpy (\<lambda>_. ldo dentry) st8 buf 0 len s;
       Some (len, s\<lparr>dir_location := dir_location s + 1\<rparr>)
     }
     else Some (0, s\<lparr>dir_location := 0\<rparr>)
   }"

section \<open>The directory as a list of entries\<close>

text \<open>
  What the directory block stands for: at most 63 entries of 64 bytes. A name is the bytes of
  \<open>fname\<close> up to the first zero, all 32 of them when there is none.
\<close>

definition ename :: "u8 list \<Rightarrow> u8 list" where
  "ename e = takeWhile (\<lambda>b. b \<noteq> 0) (take 32 e)"

definition dirent_ok :: "u8 list \<Rightarrow> bool" where
  "dirent_ok e \<longleftrightarrow> length e = 64 \<and> file_type e \<in> {Some 0, Some 1, Some 2}"

definition same_dentry :: "u8 list \<Rightarrow> u8 list \<Rightarrow> bool" where
  "same_dentry d e \<longleftrightarrow>
     length d = 64 \<and> ename d = ename e \<and> file_type d = file_type e \<and> inode_num d = inode_num e"

definition directory :: "(u32 \<Rightarrow> u8 option) \<Rightarrow> u32 \<Rightarrow> u8 list list \<Rightarrow> bool" where
  "directory r bb es \<longleftrightarrow>
     dir_count r bb = Some (of_nat (length es)) \<and> length es \<le> 63 \<and>
     (\<forall>i < length es. d_entry r bb (of_nat i) = Some (es ! i)) \<and> (\<forall>e \<in> set es. dirent_ok e)"

lemma file_type_bytes:
  "length e = 64 \<Longrightarrow> file_type e = Some (le_word (e ! 32) (e ! 33) (e ! 34) (e ! 35))"
  by (simp add: file_type_def ld32_def ldo_def)

lemma inode_num_bytes:
  "length e = 64 \<Longrightarrow> inode_num e = Some (le_word (e ! 36) (e ! 37) (e ! 38) (e ! 39))"
  by (simp add: inode_num_def ld32_def ldo_def)

lemma dirent_zero:
  assumes "dirent_ok e"
  shows "e ! 33 = 0"
proof -
  obtain t where t: "le_word (e ! 32) (e ! 33) (e ! 34) (e ! 35) = t" "t \<in> {0, 1, 2}"
    using assms by (auto simp: dirent_ok_def file_type_bytes)
  then have "le_bytes t = [e ! 32, e ! 33, e ! 34, e ! 35]" using le_bytes_le_word by blast
  then have "e ! 33 = ucast (drop_bit 8 t)" by (simp add: le_bytes_def)
  with t(2) show ?thesis by (elim insertE) (simp_all add: drop_bit_eq_div)
qed

lemma takeWhile_take: "takeWhile P (take n xs) = take n (takeWhile P xs)"
  by (induction xs arbitrary: n) (auto simp: take_Cons split: nat.split)

text \<open>Seen as a string, an entry may run on from its name into the type, no further.\<close>

lemma dirent_cstr:
  assumes "dirent_ok e"
  obtains xs where "cstr_at (ldo e) 0 xs" "take 32 xs = ename e" "length xs \<le> 33"
    "xs @ [0] = take (Suc (length xs)) e"
proof -
  let ?xs = "takeWhile (\<lambda>b. b \<noteq> 0) e"
  have len: "length e = 64" using assms by (simp add: dirent_ok_def)
  have zero: "e ! 33 = 0" using assms by (rule dirent_zero)
  have short: "length ?xs \<le> 33"
  proof (rule ccontr)
    assume "\<not> length ?xs \<le> 33"
    then have "?xs ! 33 \<in> set ?xs" by (intro nth_mem) simp
    then have "?xs ! 33 \<noteq> 0" using set_takeWhileD [of "?xs ! 33"] by blast
    then show False using zero \<open>\<not> length ?xs \<le> 33\<close> by (simp add: takeWhile_nth)
  qed
  have "e ! length ?xs = 0" using nth_length_takeWhile [of "\<lambda>b. b \<noteq> 0" e] short len by simp
  then have pre: "?xs @ [0] = take (Suc (length ?xs)) e"
    using short len by (simp add: take_Suc_conv_app_nth takeWhile_eq_take [symmetric])
  have "bytes_at (ldo e) 0 (?xs @ [0])"
    unfolding pre by (intro bytes_at_take obj_bytes_at) (simp add: len)
  then have "cstr_at (ldo e) 0 ?xs" by (auto simp: cstr_at_def dest: set_takeWhileD)
  then show thesis using that short pre by (simp add: ename_def takeWhile_take)
qed

lemma ename_length: "length (ename e) \<le> 32"
  using length_takeWhile_le [of "\<lambda>b. b \<noteq> 0" "take 32 e"] by (simp add: ename_def)

text \<open>The local \<open>dentry\<close> after the copy.\<close>

lemma copy_dentry:
  assumes e: "dirent_ok e" and d: "length d = 64"
  shows "\<exists>d'. do {
       a \<leftarrow> ldo e 0;
       d \<leftarrow> sto 0 a d;
       d \<leftarrow> strcpy (\<lambda>_. ldo e) sto 0 0 d;
       t \<leftarrow> file_type e;
       d \<leftarrow> write_bytes sto 32 (le_bytes t) d;
       i \<leftarrow> inode_num e;
       d \<leftarrow> write_bytes sto 36 (le_bytes i) d;
       Some (0 :: i32, d)
     } = Some (0, d') \<and> same_dentry d' e"
proof -
  obtain xs where xs: "cstr_at (ldo e) 0 xs" "take 32 xs = ename e" "length xs \<le> 33"
    using e by (rule dirent_cstr)
  have len: "length e = 64" using e by (simp add: dirent_ok_def)
  let ?d1 = "d[0 := e ! 0]"
  have "obj.ready (\<lambda>_. ldo e) ?d1 0 0 (xs @ [0])"
    using xs d by (auto simp: obj.ready_def cstr_at_def intro!: obj_range_ok obj.feeds_const)
  then obtain d2 where d2: "strcpy (\<lambda>_. ldo e) sto 0 0 ?d1 = Some d2"
    "stored obj_cell ldo length ?d1 0 (xs @ [0]) d2"
    using obj.strcpy_stored [of "\<lambda>_. ldo e" ?d1 0 0 xs] xs by (auto simp: cstr_at_def)
  have d2': "d2 = (xs @ [0]) @ drop (Suc (length xs)) ?d1"
    using obj_stored [of ?d1 0 "xs @ [0]" d2] d2 xs d by simp
  then have l2: "length d2 = 64" using xs d by simp
  obtain t i where ti: "file_type e = Some t" "inode_num e = Some i"
    using len by (simp add: file_type_bytes inode_num_bytes)
  obtain d3 where d3: "write_bytes sto 32 (le_bytes t) d2 = Some d3"
    "stored obj_cell ldo length d2 32 (le_bytes t) d3"
    using obj.write_bytes_stored [of d2 32 "le_bytes t"]
      range_ok_shift [of obj_cell d2 0 32 4] obj_range_ok [of 36 d2] l2 by auto
  have d3': "d3 = take 32 d2 @ le_bytes t @ drop 36 d2"
    using obj_stored [of d2 32 "le_bytes t" d3] d3 l2 by simp
  then have l3: "length d3 = 64" using l2 by simp
  obtain d4 where d4: "write_bytes sto 36 (le_bytes i) d3 = Some d4"
    "stored obj_cell ldo length d3 36 (le_bytes i) d4"
    using obj.write_bytes_stored [of d3 36 "le_bytes i"]
      range_ok_shift [of obj_cell d3 0 36 4] obj_range_ok [of 40 d3] l3 by auto
  have d4': "d4 = take 32 d2 @ le_bytes t @ le_bytes i @ drop 40 d3"
    using obj_stored [of d3 36 "le_bytes i" d4] d4 l3 l2 by (simp add: d3')
  have nz: "takeWhile (\<lambda>b. b \<noteq> 0) xs = xs" using xs(1) by (auto simp: cstr_at_def takeWhile_eq_all_conv)
  have "ename d4 = ename e"
  proof -
    have "takeWhile (\<lambda>b. b \<noteq> 0) (xs @ 0 # drop (Suc (length xs)) ?d1) = xs"
      using nz by (simp add: takeWhile_append)
    then have "takeWhile (\<lambda>b. b \<noteq> 0) (take 32 d2) = take 32 xs"
      unfolding takeWhile_take d2' by simp
    then show ?thesis using xs(2) l2 by (simp add: ename_def d4')
  qed
  moreover have "file_type d4 = Some t" "inode_num d4 = Some i"
  proof -
    have "bytes_at (ldo d4) 0 (take 32 d2 @ le_bytes t @ le_bytes i @ drop 40 d3)"
      using obj_bytes_at [of d4] l2 l3 by (simp add: d4')
    then have "bytes_at (ldo d4) 32 (le_bytes t)" "bytes_at (ldo d4) 36 (le_bytes i)"
      using l2 by (simp_all add: bytes_at_append)
    then show "file_type d4 = Some t" "inode_num d4 = Some i"
      by (simp_all add: file_type_def inode_num_def ld32_bytes_at)
  qed
  moreover have "ldo e 0 = Some (e ! 0)" "sto 0 (e ! 0) d = Some ?d1"
    using len d by (simp_all add: ldo_def sto_def)
  moreover have "length d4 = 64" using l2 l3 by (simp add: d4')
  ultimately show ?thesis
    using ti d2 d3 d4 by (intro exI [of _ d4]) (simp add: same_dentry_def)
qed

lemma read_dentry_by_index_ok:
  assumes dir: "directory (ld8 s) (boot_block s) es" and i: "i < length es"
    and d: "length d = 64"
  shows "\<exists>d'. read_dentry_by_index (of_nat i) d s = Some (0, d') \<and> same_dentry d' (es ! i)"
proof -
  have "(of_nat (length es) :: u32) \<le> of_nat i \<longleftrightarrow> length es \<le> i"
    using dir i by (simp add: directory_def word_le_nat_alt unat_of_nat_u32)
  moreover have "dirent_ok (es ! i)" using dir i by (simp add: directory_def)
  then obtain d' where "do {
       a \<leftarrow> ldo (es ! i) 0;
       d \<leftarrow> sto 0 a d;
       d \<leftarrow> strcpy (\<lambda>_. ldo (es ! i)) sto 0 0 d;
       t \<leftarrow> file_type (es ! i);
       d \<leftarrow> write_bytes sto 32 (le_bytes t) d;
       j \<leftarrow> inode_num (es ! i);
       d \<leftarrow> write_bytes sto 36 (le_bytes j) d;
       Some (0 :: i32, d)
     } = Some (0, d')" "same_dentry d' (es ! i)"
    using copy_dentry d by blast
  ultimately show ?thesis
    using dir i by (simp add: read_dentry_by_index_def directory_def)
qed

lemma read_dentry_by_index_out:
  assumes "directory (ld8 s) (boot_block s) es" "length es \<le> unat i"
  shows "read_dentry_by_index i d s = Some (-1, d)"
  using assms
  by (simp add: read_dentry_by_index_def directory_def word_le_nat_alt unat_of_nat_u32)

text \<open>The comparison of \<open>read_dentry_by_name\<close> is equality of names.\<close>

lemma dirent_matches:
  assumes e: "dirent_ok e" and nm: "cstr_at rf fname nm" "length nm \<le> 32"
  shows "\<exists>l c. strlen (ldo e) 0 = Some l \<and>
    (let k = (if l > MAX_NAME_LEN then MAX_NAME_LEN else l) in
      (if k > of_nat (length nm) then strncmp (ldo e) 0 rf fname k
       else strncmp (ldo e) 0 rf fname (of_nat (length nm))) = Some c) \<and>
    (c = 0) = (ename e = nm)"
proof -
  obtain xs where xs: "cstr_at (ldo e) 0 xs" "take 32 xs = ename e" "length xs \<le> 33"
    using e by (rule dirent_cstr)
  let ?l = "of_nat (length xs) :: u32" and ?n = "of_nat (length nm) :: u32"
  define k where "k = (if ?l > MAX_NAME_LEN then MAX_NAME_LEN else ?l)"
  define n where "n = (if k > ?n then k else ?n)"
  have u: "unat ?l = length xs" "unat ?n = length nm"
    using xs(3) nm(2) by (simp_all add: unat_of_nat_u32)
  have k: "unat k = min 32 (length xs)" by (simp add: k_def word_less_nat_alt u)
  have n: "unat n = max (min 32 (length xs)) (length nm)"
    by (auto simp: n_def word_less_nat_alt k u)
  obtain c where c: "strncmp (ldo e) 0 rf fname n = Some c"
    "(c = 0) = (take (unat n) xs = take (unat n) nm)"
    using strncmp_cstr [OF xs(1) nm(1)] by blast
  have "(take (unat n) xs = take (unat n) nm) = (take 32 xs = nm)"
  proof (cases "min 32 (length xs) \<le> length nm")
    case True
    then show ?thesis using nm(2) by (auto simp: n max_def min_def split: if_splits)
  next
    case False
    then have "length (take 32 xs) \<noteq> length nm" "length (take (unat n) xs) \<noteq> length nm"
      by (auto simp: n max_def)
    moreover have "length nm \<le> unat n" unfolding n by simp
    then have "take (unat n) nm = nm" by simp
    ultimately show ?thesis by (metis)
  qed
  with c xs(2) have "(c = 0) = (ename e = nm)" by simp
  moreover have "strlen (ldo e) 0 = Some ?l" using xs(1) by (rule strlen_cstr)
  ultimately show ?thesis
    using c(1) unfolding n_def k_def by (intro exI [of _ ?l] exI [of _ c]) (simp add: Let_def split: if_splits)
qed

lemma search_dentry_find:
  assumes dir: "directory (ld8 s) (boot_block s) es" and d: "length d = 64"
    and nm: "cstr_at rf fname nm" "length nm \<le> 32"
  shows "es = pre @ suf \<Longrightarrow>
    (case find (\<lambda>e. ename e = nm) suf of
       None \<Rightarrow> search_dentry rf fname (of_nat (length nm)) (of_nat (length es))
         (of_nat (length pre)) d s = Some (-1, d)
     | Some e \<Rightarrow> \<exists>d'. search_dentry rf fname (of_nat (length nm)) (of_nat (length es))
         (of_nat (length pre)) d s = Some (0, d') \<and> same_dentry d' e)"
proof (induction suf arbitrary: pre)
  case Nil
  then show ?case by (subst search_dentry.simps) (simp add: word_sless_alt)
next
  case (Cons e suf)
  let ?i = "of_nat (length pre) :: i32"
  have short: "length es \<le> 63" using dir by (simp add: directory_def)
  have i: "length pre < length es" "es ! length pre = e" using Cons.prems by simp_all
  have lt: "?i <s of_nat (length es)"
    using short i by (simp add: word_sless_alt sint_of_nat_u32)
  have e: "d_entry (ld8 s) (boot_block s) ?i = Some e" "dirent_ok e"
    using dir i by (auto simp: directory_def)
  obtain l c where lc: "strlen (ldo e) 0 = Some l"
    "(let k = (if l > MAX_NAME_LEN then MAX_NAME_LEN else l) in
      (if k > of_nat (length nm) then strncmp (ldo e) 0 rf fname k
       else strncmp (ldo e) 0 rf fname (of_nat (length nm))) = Some c)"
    "(c = 0) = (ename e = nm)"
    using dirent_matches [OF e(2) nm] by blast
  show ?case
  proof (cases "ename e = nm")
    case True
    obtain d' where "read_dentry_by_index ?i d s = Some (0, d')" "same_dentry d' e"
      using read_dentry_by_index_ok [OF dir i(1) d] i(2) by auto
    then show ?thesis
      using True lt e lc by (subst search_dentry.simps) (simp add: Let_def)
  next
    case False
    then have step: "search_dentry rf fname (of_nat (length nm)) (of_nat (length es)) ?i d s =
        search_dentry rf fname (of_nat (length nm)) (of_nat (length es))
          (of_nat (length (pre @ [e]))) d s"
      using lt e lc by (subst search_dentry.simps) (simp add: Let_def add.commute)
    have "es = (pre @ [e]) @ suf" using Cons.prems by simp
    from Cons.IH [OF this] False show ?thesis unfolding step by simp
  qed
qed

lemma read_dentry_by_name_find:
  assumes dir: "directory (ld8 s) (boot_block s) es" and d: "length d = 64"
    and nm: "cstr_at rf fname nm"
  shows "case find (\<lambda>e. ename e = nm) es of
     None \<Rightarrow> read_dentry_by_name rf fname d s = Some (-1, d)
   | Some e \<Rightarrow> \<exists>d'. read_dentry_by_name rf fname d s = Some (0, d') \<and> same_dentry d' e"
proof (cases "length nm \<le> 32")
  case True
  have "\<not> (of_nat (length nm) :: u32) > 32" using True by (simp add: word_less_nat_alt unat_of_nat_u32)
  with search_dentry_find [OF dir d nm True, of "[]" es] show ?thesis
    using dir strlen_cstr [OF nm]
    by (simp add: read_dentry_by_name_def directory_def split: option.splits)
next
  case False
  have "find (\<lambda>e. ename e = nm) es = None"
    using False ename_length by (auto simp: find_None_iff)
  moreover have "(of_nat (length nm) :: u32) > 32"
    using False cstr_at_short [OF nm] by (simp add: word_less_nat_alt unat_of_nat_u32)
  ultimately show ?thesis
    using dir strlen_cstr [OF nm] by (simp add: read_dentry_by_name_def directory_def)
qed

section \<open>A file as a list of bytes\<close>

text \<open>
  The inode at \<open>p\<close> lists the blocks \<open>blks\<close>; \<open>bs\<close> are bytes stored in them, in order. The
  bytes may go on past the length the inode records.
\<close>

definition block_byte :: "u32 \<Rightarrow> i32 \<Rightarrow> u32 list \<Rightarrow> nat \<Rightarrow> u32" where
  "block_byte bb c blks k = FOUR_KB * (blks ! (k div 4096) + c + 1) + bb + of_nat (k mod 4096)"

definition file_at :: "(u32 \<Rightarrow> u8 option) \<Rightarrow> u32 \<Rightarrow> u32 \<Rightarrow> i32 \<Rightarrow> u32 list \<Rightarrow> u8 list \<Rightarrow> bool" where
  "file_at r bb p c blks bs \<longleftrightarrow>
     inode_count r bb = Some c \<and> length bs \<le> 4096 * length blks \<and>
     (\<forall>j < length blks. data_block_num r p (of_nat j) = Some (blks ! j)) \<and>
     (\<forall>k < length bs. r (block_byte bb c blks k) = Some (bs ! k))"

lemma file_at_chunk:
  assumes f: "file_at r bb p c blks bs" and q: "off = 4096 * q + o'" and n: "o' + n \<le> 4096"
    and le: "off + n \<le> length bs"
  shows "bytes_at r (FOUR_KB * (blks ! q + c + 1) + bb + of_nat o') (take n (drop off bs))"
  unfolding bytes_at_def
proof (intro allI impI)
  fix i assume "i < length (take n (drop off bs))"
  then have i: "i < n" by simp
  have "(off + i) div 4096 = q" "(off + i) mod 4096 = o' + i"
    using q n i by (simp_all add: add.assoc)
  then have "block_byte bb c blks (off + i) =
      FOUR_KB * (blks ! q + c + 1) + bb + of_nat o' + of_nat i"
    by (simp add: block_byte_def)
  moreover have "r (block_byte bb c blks (off + i)) = Some (bs ! (off + i))"
    using f i le by (simp add: file_at_def)
  ultimately show "r (FOUR_KB * (blks ! q + c + 1) + bb + of_nat o' + of_nat i) =
      Some (take n (drop off bs) ! i)"
    using i le by simp
qed

lemma file_at_blocks:
  "file_at r bb p c blks bs \<Longrightarrow> inode_count r bb = Some c"
  "file_at r bb p c blks bs \<Longrightarrow> off = 4096 * q + o' \<Longrightarrow> off < length bs \<Longrightarrow>
     data_block_num r p (of_nat q) = Some (blks ! q)"
  by (simp_all add: file_at_def)

context memory
begin

lemma read_blocks_stored:
  assumes "kept m buf N (\<lambda>m. file_at (rd m) bb p c blks bs)" "range_ok cell m buf N"
    and "N = unat len" "off = 4096 * q + o'" "o' < 4096" "off < length bs" "off + N \<le> length bs"
  shows "\<exists>m'. read_blocks rd st bb p save (of_nat q) (of_nat o') buf len m = Some (save, m') \<and>
    stored cell ld rest m buf (take N (drop off bs)) m'"
  using assms
proof (induction N arbitrary: m buf len off q o' rule: less_induct)
  case (less N)
  let ?a = "FOUR_KB * (blks ! q + c + 1) + bb + of_nat o'"
  have now: "file_at (rd m) bb p c blks bs" using less.prems(1) by (rule kept_now)
  have head: "data_block_num (rd m) p (of_nat q) = Some (blks ! q)" "inode_count (rd m) bb = Some c"
    using file_at_blocks [OF now] less.prems(4,6) by blast+
  define n1 where "n1 = 4096 - o'"
  have "FOUR_KB - of_nat o' = of_nat n1" using less.prems(5) by (simp add: n1_def of_nat_diff)
  moreover have "unat (of_nat n1 :: u32) = n1" by (rule unat_of_nat_u32) (simp add: n1_def)
  ultimately have o': "FOUR_KB - of_nat o' = of_nat n1" "unat (of_nat n1 :: u32) = n1"
    by simp_all
  have cond: "(FOUR_KB - of_nat o' \<ge> len) = (N \<le> n1)"
    unfolding o' using less.prems(3) o'(2) by (simp add: word_le_nat_alt)
  show ?case
  proof (cases "N \<le> n1")
    case True
    have "feeds rd m buf N ?a (take N (drop off bs))"
      unfolding feeds_kept using less.prems True
      by (intro kept_mono [OF less.prems(1)] file_at_chunk) (simp_all add: n1_def)
    then have "ready rd m buf ?a (take N (drop off bs))"
      using less.prems(2,7) by (simp add: ready_def)
    then obtain m' where "memcpy rd st buf ?a len m = Some m'"
      "stored cell ld rest m buf (take N (drop off bs)) m'"
      using memcpy_stored [of rd m buf ?a "take N (drop off bs)" len] less.prems(3,7) by auto
    with head cond True show ?thesis by (subst read_blocks.simps) simp
  next
    case False
    let ?xs = "take n1 (drop off bs)"
    have n1: "0 < n1" "n1 < N" "o' + n1 = 4096" using False less.prems(5) by (simp_all add: n1_def)
    have xs: "length ?xs = n1" using n1 less.prems(7) by simp
    have "range_ok cell m buf n1" using less.prems(2) by (rule range_ok_mono) (use n1 in simp)
    moreover have "feeds rd m buf N ?a ?xs"
      unfolding feeds_kept using less.prems n1
      by (intro kept_mono [OF less.prems(1)] file_at_chunk) simp_all
    then have "feeds rd m buf n1 ?a ?xs" by (rule feeds_mono) (use n1 in simp)
    ultimately have "ready rd m buf ?a ?xs" by (simp only: ready_def xs)
    then obtain m1 where m1: "memcpy rd st buf ?a (of_nat n1) m = Some m1"
      and s1: "stored cell ld rest m buf ?xs m1"
      using memcpy_stored [of rd m buf ?a ?xs "of_nat n1"] xs o'(2) by auto
    have k1: "kept m1 (buf + of_nat n1) (N - n1) (\<lambda>m. file_at (rd m) bb p c blks bs)"
    proof (rule kept_stored [OF less.prems(1), where k = 0])
      show "0 + length ?xs \<le> N" "0 + length ?xs \<le> n1" unfolding xs using n1 by simp_all
    qed (use n1 s1 in simp_all)
    have r1: "range_ok cell m1 (buf + of_nat n1) (N - n1)"
      unfolding range_ok_stored [OF s1] by (rule range_ok_shift) (use less.prems(2) n1 in simp)
    have len: "len - FOUR_KB + of_nat o' = len - of_nat n1"
      using o'(1) by (simp add: algebra_simps)
    have "unat (len - of_nat n1) = N - n1"
      using n1 less.prems(3) o'(2) by (simp add: unat_sub_if_size)
    then have N1: "N - n1 = unat (len - FOUR_KB + of_nat o')" by (simp only: len)
    have "\<exists>m'. read_blocks rd st bb p save (of_nat (Suc q)) (of_nat 0) (buf + of_nat n1)
        (len - FOUR_KB + of_nat o') m1 = Some (save, m') \<and>
      stored cell ld rest m1 (buf + of_nat n1) (take (N - n1) (drop (off + n1) bs)) m'"
      using less.prems n1 by (intro less.IH k1 r1 N1) simp_all
    then obtain m2 where m2: "read_blocks rd st bb p save (of_nat q + 1) 0 (buf + of_nat n1)
        (len - FOUR_KB + of_nat o') m1 = Some (save, m2)"
      "stored cell ld rest m1 (buf + of_nat n1) (take (N - n1) (drop (off + n1) bs)) m2"
      by (auto simp: add.commute)
    have "stored cell ld rest m buf (?xs @ take (N - n1) (drop (off + n1) bs)) m2"
      by (rule stored_append [OF _ s1]) (use less.prems(2,7) n1 m2 xs in \<open>simp_all\<close>)
    moreover have "?xs @ take (N - n1) (drop (off + n1) bs) = take N (drop off bs)"
      using n1 by (metis add.commute drop_drop le_add_diff_inverse less_imp_le take_add)
    moreover have buf_next: "buf + FOUR_KB - of_nat o' = buf + of_nat n1" using o'(1) by (simp add: algebra_simps)
    ultimately show ?thesis
      using head cond False m1 m2 by (subst read_blocks.simps) (simp add: o' buf_next)
  qed
qed

lemma read_data_stored:
  assumes k: "kept m buf (unat len) (\<lambda>m. file_at (rd m) bb (inode_address bb i) c blks bs)"
    and l: "inode_length (rd m) (inode_address bb i) = Some l"
    and ok: "range_ok cell m buf (unat len)"
    and off: "off < l" "unat off < length bs" "unat off + unat len \<le> length bs"
  shows "\<exists>m'. read_data rd st bb i off buf len m = Some (len, m') \<and>
    stored cell ld rest m buf (take (unat len) (drop (unat off) bs)) m'"
proof -
  have "off div FOUR_KB = of_nat (unat off div 4096)" "off mod FOUR_KB = of_nat (unat off mod 4096)"
    by (simp_all add: word_arith_nat_div word_arith_nat_mod)
  moreover have "unat off = 4096 * (unat off div 4096) + unat off mod 4096" by simp
  moreover have "\<not> off \<ge> l" using off(1) by (simp add: not_le)
  ultimately show ?thesis
    using read_blocks_stored [OF k ok refl, of "unat off" "unat off div 4096" "unat off mod 4096"] l off(2,3)
    by (simp add: read_data_def)
qed

lemma read_data_at_end:
  "inode_length (rd m) (inode_address bb i) = Some l \<Longrightarrow> l \<le> off \<Longrightarrow>
     read_data rd st bb i off buf len m = Some (0, m)"
  by (simp add: read_data_def)

end

text \<open>The addresses of the image that a read of the file looks at, kept apart from the target.\<close>

definition file_apart ::
  "('m \<Rightarrow> u32 \<Rightarrow> 'c option) \<Rightarrow> 'm \<Rightarrow> u32 \<Rightarrow> nat \<Rightarrow> u32 \<Rightarrow> u32 \<Rightarrow> i32 \<Rightarrow> u32 list \<Rightarrow> nat \<Rightarrow> bool" where
  "file_apart cell m buf n bb p c blks len \<longleftrightarrow>
     apart cell m buf n (bb + 4) 4 \<and>
     (\<forall>j < length blks. apart cell m buf n (p + 4 + 4 * of_nat j) 4) \<and>
     (\<forall>k < len. outside cell m buf n (block_byte bb c blks k))"

lemma ld32_cong:
  assumes "\<And>i. i < 4 \<Longrightarrow> r' (a + of_nat i) = r (a + of_nat i)"
  shows "ld32 r' a = ld32 r a"
  using assms [of 0] assms [of 1] assms [of 2] assms [of 3] by (simp add: ld32_def)

context memory
begin

lemma kept_file:
  assumes f: "file_at (ld m) bb p c blks bs"
    and a: "file_apart cell m buf n bb p c blks (length bs)"
  shows "kept m buf n (\<lambda>m. file_at (ld m) bb p c blks bs)"
  unfolding kept_def
proof (intro allI impI)
  fix m' assume same: "\<forall>b. outside cell m buf n b \<longrightarrow> ld m' b = ld m b"
  have "ld32 (ld m') x = ld32 (ld m) x" if "apart cell m buf n x 4" for x
    using that same by (intro ld32_cong) (simp add: apart_def)
  then show "file_at (ld m') bb p c blks bs"
    using f a same by (simp add: file_at_def file_apart_def inode_count_def data_block_num_def)
qed

end

section \<open>Reading files and the directory\<close>

lemma fread_reads:
  fixes s :: "'a fs_state_scheme"
  assumes f: "file_at (ld8 s) (boot_block s) (inode_address (boot_block s) (inode fd)) c blks bs"
    and l: "inode_length (ld8 s) (inode_address (boot_block s) (inode fd)) = Some l"
    and ok: "range_ok (xlate Supervisor) s buf (unat n)"
    and ap: "file_apart (xlate Supervisor) s buf (unat n) (boot_block s)
      (inode_address (boot_block s) (inode fd)) c blks (length bs)"
    and off: "file_position fd < l" "unat (file_position fd) < length bs"
      "unat (file_position fd) + unat n \<le> length bs"
  shows "\<exists>s'. fread fd buf n s = Some (n, fd\<lparr>file_position := file_position fd + n\<rparr>, s') \<and>
    mem_stored s buf (take (unat n) (drop (unat (file_position fd)) bs)) s'"
  using kmem.read_data_stored [OF kmem.kept_file [OF f ap] l ok off] by (auto simp: fread_def)

lemma fread_at_end:
  assumes "inode_length (ld8 s) (inode_address (boot_block s) (inode fd)) = Some l"
    and "l \<le> file_position fd"
  shows "fread fd buf n s = Some (0, fd, s)"
  using kmem.read_data_at_end [where rd = ld8, OF assms] by (simp add: fread_def)

lemma dir_read_end:
  "directory (ld8 s) (boot_block s) es \<Longrightarrow> length es \<le> unat (dir_location s) \<Longrightarrow>
     dir_read buf s = Some (0, s\<lparr>dir_location := 0\<rparr>)"
  using read_dentry_by_index_out [of s es "dir_location s"] by (simp add: dir_read_def)

text \<open>A step of the enumeration leaves the name, padded with zeros, in 33 bytes of the buffer.\<close>

lemma dir_read_name:
  fixes s :: "'a fs_state_scheme"
  assumes dir: "directory (ld8 s) (boot_block s) es" and i: "dir_location s = of_nat i" "i < length es"
    and junk: "length (stack_junk s) = 64"
    and ok: "range_ok (xlate Supervisor) s buf 33"
  shows "\<exists>s'. dir_read buf s = Some (of_nat (length (ename (es ! i))), s'\<lparr>dir_location := of_nat (Suc i)\<rparr>) \<and>
    mem_stored s buf (ename (es ! i) @ replicate (33 - length (ename (es ! i))) 0) s'"
proof -
  let ?nm = "ename (es ! i)"
  obtain d where d: "read_dentry_by_index (dir_location s) (stack_junk s) s = Some (0, d)"
    "same_dentry d (es ! i)"
    using read_dentry_by_index_ok [OF dir i(2) junk] i(1) by auto
  have "dirent_ok (es ! i)" using dir i by (simp add: directory_def)
  then have "dirent_ok d" using d(2) by (simp add: same_dentry_def dirent_ok_def)
  then obtain xs where xs: "cstr_at (ldo d) 0 xs" "take 32 xs = ename d" "length xs \<le> 33"
    by (rule dirent_cstr)
  have nm: "ename d = ?nm" using d(2) by (simp add: same_dentry_def)
  have len: "length ?nm = min 32 (length xs)" using xs(2) nm by (metis length_take min.commute)
  have tk: "take (length ?nm) xs = ?nm" unfolding len using xs(2) nm
    by (cases "length xs \<le> 32") (simp_all add: min_def)
  obtain s1 where s1: "write_bytes st8 buf (replicate 33 0) s = Some s1"
    "mem_stored s buf (replicate 33 0) s1"
    using kmem.write_bytes_stored [of s buf "replicate 33 0"] ok by auto
  let ?l = "of_nat (length xs) :: i32"
  have "(32 <s ?l) = (32 < length xs)"
    using xs(3) by (simp add: word_sless_alt sint_of_nat_u32)
  then have l: "(if 32 <s ?l then 32 else ?l) = of_nat (length ?nm)"
    by (simp add: len min_def)
  have u: "unat (of_nat (length ?nm) :: u32) = length ?nm"
    by (rule unat_of_nat_u32) (simp add: len)
  have "range_ok (xlate Supervisor) s1 buf (length ?nm)"
    unfolding kmem.range_ok_stored [OF s1(2)] using ok by (rule range_ok_mono) (simp add: len)
  moreover have "kmem.feeds (\<lambda>_. ldo d) s1 buf (length ?nm) 0 (xs @ [0])"
    using xs(1) by (intro kmem.feeds_const) (simp add: cstr_at_def)
  ultimately obtain s2 where
    s2: "strncpy (\<lambda>_. ldo d) st8 buf 0 (of_nat (length ?nm)) s1 = Some s2"
    "mem_stored s1 buf ?nm s2"
    using kmem.strncpy_stored [of "\<lambda>_. ldo d" s1 buf "of_nat (length ?nm)" 0 xs] xs(1)
    unfolding u tk cstr_at_def by (auto simp: len)
  have "dir_read buf s = Some (of_nat (length ?nm), s2\<lparr>dir_location := dir_location s2 + 1\<rparr>)"
    using d s1 s2 l strlen_cstr [OF xs(1)] by (simp add: dir_read_def)
  moreover have st: "mem_stored s buf (?nm @ replicate (33 - length ?nm) 0) s2"
    using kmem.stored_prefix [OF _ s1(2) s2(2)] ok by (simp add: len)
  moreover have "dir_location s2 = of_nat i"
    using arg_cong [OF mem_stored_phys [OF st], of dir_location] i(1) by simp
  ultimately show ?thesis by (intro exI [of _ s2]) (simp add: add.commute)
qed

section \<open>What the file system promises\<close>

text \<open>A machine before paging with an image at \<open>0x10000\<close>: two entries, one file of five bytes.\<close>

definition image_bytes :: "(u32 \<times> u8 list) list \<Rightarrow> u32 \<Rightarrow> u8" where
  "image_bytes segs a = (case find (\<lambda>(b, bs). unat (a - b) < length bs) segs of
     Some (b, bs) \<Rightarrow> bs ! unat (a - b) | None \<Rightarrow> 0)"

definition demo_entry :: "u8 list \<Rightarrow> u32 \<Rightarrow> u32 \<Rightarrow> u8 list" where
  "demo_entry nm t i = nm @ replicate (32 - length nm) 0 @ le_bytes t @ le_bytes i @ replicate 24 0"

definition demo_image :: "(u32 \<times> u8 list) list" where
  "demo_image =
     [(0x10000, le_bytes 2 @ le_bytes 1 @ le_bytes 1), (0x10040, demo_entry [46] 1 0),
      (0x10080, demo_entry [97, 98] 2 0), (0x11000, le_bytes 5 @ le_bytes 0),
      (0x12000, [1, 2, 3, 4, 5])]"

definition demo_fs :: "fs_state" where
  "demo_fs = mach.extend ((flat_mach 0 [])\<lparr>phys := image_bytes demo_image\<rparr>)
     \<lparr>boot_block = 0x10000, dir_location = 1, stack_junk = replicate 64 0\<rparr>"

lemma demo_fs_sel [simp]:
  "\<not> paging demo_fs" "phys demo_fs = image_bytes demo_image" "boot_block demo_fs = 0x10000"
  "dir_location demo_fs = 1" "stack_junk demo_fs = replicate 64 0"
  by (simp_all add: demo_fs_def mach.defs flat_mach_def)

lemma image_head:
  assumes "length bs \<le> 2 ^ 32"
  shows "bytes_at (\<lambda>a. Some (image_bytes ((b, bs) # segs) a)) b bs"
proof -
  have "unat (of_nat i :: u32) = i" if "i < length bs" for i
    using that assms by (intro unat_of_nat_u32) simp
  then show ?thesis by (simp add: bytes_at_def image_bytes_def)
qed

lemma image_tail:
  assumes "bytes_at (\<lambda>a. Some (image_bytes segs a)) a cs"
    and "length bs \<le> unat (a - b)" "unat (a - b) + length cs \<le> 2 ^ 32"
  shows "bytes_at (\<lambda>a. Some (image_bytes ((b, bs) # segs) a)) a cs"
proof -
  have "\<not> unat (a + of_nat i - b) < length bs" if "i < length cs" for i
  proof -
    have "a + of_nat i - b = of_nat (unat (a - b) + i)" by simp
    then have "unat (a + of_nat i - b) = unat (of_nat (unat (a - b) + i) :: u32)" by (simp only:)
    also have "\<dots> = unat (a - b) + i" using that assms(3) by (intro unat_of_nat_u32) simp
    finally show ?thesis using assms(2) by simp
  qed
  then show ?thesis using assms(1) by (simp add: bytes_at_def image_bytes_def)
qed

lemma demo_bytes:
  "bytes_at (\<lambda>a. Some (image_bytes demo_image a)) 0x10000 (le_bytes 2 @ le_bytes 1 @ le_bytes 1)"
  "bytes_at (\<lambda>a. Some (image_bytes demo_image a)) 0x10040 (demo_entry [46] 1 0)"
  "bytes_at (\<lambda>a. Some (image_bytes demo_image a)) 0x10080 (demo_entry [97, 98] 2 0)"
  "bytes_at (\<lambda>a. Some (image_bytes demo_image a)) 0x11000 (le_bytes 5 @ le_bytes 0)"
  "bytes_at (\<lambda>a. Some (image_bytes demo_image a)) 0x12000 [1, 2, 3, 4, 5]"
  unfolding demo_image_def demo_entry_def
  by (intro image_tail image_head; simp)+

lemma demo_entry_fields:
  assumes "length nm \<le> 32" "0 \<notin> set nm"
  shows "length (demo_entry nm t i) = 64" "ename (demo_entry nm t i) = nm"
    "file_type (demo_entry nm t i) = Some t" "inode_num (demo_entry nm t i) = Some i"
proof -
  show len: "length (demo_entry nm t i) = 64" using assms by (simp add: demo_entry_def)
  show "ename (demo_entry nm t i) = nm"
  proof -
    have "takeWhile (\<lambda>b. b \<noteq> 0) (nm @ replicate k 0) = nm" for k
      using assms(2) by (cases k) (auto simp: takeWhile_append takeWhile_eq_all_conv)
    then show ?thesis using assms(1) by (simp add: ename_def demo_entry_def)
  qed
  have "bytes_at (ldo (demo_entry nm t i)) 0 (demo_entry nm t i)"
    by (rule obj_bytes_at) (simp add: len)
  then have "bytes_at (ldo (demo_entry nm t i)) 32 (le_bytes t)"
    "bytes_at (ldo (demo_entry nm t i)) 36 (le_bytes i)"
    using assms(1) by (simp_all add: bytes_at_append demo_entry_def)
  then show "file_type (demo_entry nm t i) = Some t" "inode_num (demo_entry nm t i) = Some i"
    by (simp_all add: file_type_def inode_num_def ld32_bytes_at)
qed

lemma demo_directory:
  "directory (ld8 demo_fs) (boot_block demo_fs) [demo_entry [46] 1 0, demo_entry [97, 98] 2 0]"
  using demo_bytes(1-3)
  by (auto simp: directory_def dir_count_def d_entry_def bytes_at_append ld32_bytes_at
      read_bytes_Some demo_entry_fields dirent_ok_def less_Suc_eq)

lemma demo_file:
  "file_at (ld8 demo_fs) (boot_block demo_fs) (inode_address (boot_block demo_fs) 0) 1 [0] [1, 2, 3, 4, 5]"
  "inode_length (ld8 demo_fs) (inode_address (boot_block demo_fs) 0) = Some 5"
proof -
  have "block_byte 0x10000 1 [0] k = 0x12000 + of_nat k" if "k < 5" for k
    using that by (simp add: block_byte_def)
  then show "file_at (ld8 demo_fs) (boot_block demo_fs) (inode_address (boot_block demo_fs) 0) 1 [0]
      [1, 2, 3, 4, 5]"
    using demo_bytes(1,4,5)
    by (simp add: file_at_def inode_count_def data_block_num_def bytes_at_append ld32_bytes_at
        inode_address_def) (simp add: bytes_at_def)
  show "inode_length (ld8 demo_fs) (inode_address (boot_block demo_fs) 0) = Some 5"
    using demo_bytes(4) by (simp add: inode_length_def inode_address_def bytes_at_append ld32_bytes_at)
qed

text \<open>
  C19. \<open>read_dentry_by_name\<close> finds exactly the first entry of the directory that has the
  given name, names being compared in full and over all 32 bytes when they fill the field;
  it copies name, type and inode. A name that no entry has, or one longer than 32 bytes, is
  refused and the caller's \<open>dentry\<close> is left as it was.
\<close>

theorem read_dentry_by_name_first:
  assumes "directory (ld8 s) (boot_block s) es" "length d = 64" "cstr_at rf fname nm"
  shows "case find (\<lambda>e. ename e = nm) es of
     None \<Rightarrow> read_dentry_by_name rf fname d s = Some (-1, d)
   | Some e \<Rightarrow> \<exists>d'. read_dentry_by_name rf fname d s = Some (0, d') \<and> same_dentry d' e"
  using assms by (rule read_dentry_by_name_find)

theorem read_dentry_by_name_first_witness:
  "\<exists>d'. read_dentry_by_name (ldo [97, 98, 0]) 0 (replicate 64 0) demo_fs = Some (0, d') \<and>
     same_dentry d' (demo_entry [97, 98] 2 0)"
  using read_dentry_by_name_first [OF demo_directory, of "replicate 64 0" "ldo [97, 98, 0]" 0 "[97, 98]"]
    obj_bytes_at [of "[97, 98, 0]"]
  by (simp add: cstr_at_def demo_entry_fields)

text \<open>
  \<open>fread\<close> below the end of the file delivers the next \<open>n\<close> bytes of the file's blocks,
  across block boundaries, moves the position by \<open>n\<close> and touches nothing else. It always
  answers \<open>n\<close>: the length of the inode is only looked at to see that the position is below it.
\<close>

theorem fread_delivers:
  fixes s :: "'a fs_state_scheme"
  assumes "file_at (ld8 s) (boot_block s) (inode_address (boot_block s) (inode fd)) c blks bs"
    and "inode_length (ld8 s) (inode_address (boot_block s) (inode fd)) = Some l"
    and "range_ok (xlate Supervisor) s buf (unat n)"
    and "file_apart (xlate Supervisor) s buf (unat n) (boot_block s)
      (inode_address (boot_block s) (inode fd)) c blks (length bs)"
    and "file_position fd < l" "unat (file_position fd) < length bs"
      "unat (file_position fd) + unat n \<le> length bs"
  shows "\<exists>s'. fread fd buf n s = Some (n, fd\<lparr>file_position := file_position fd + n\<rparr>, s') \<and>
    mem_stored s buf (take (unat n) (drop (unat (file_position fd)) bs)) s'"
  using assms by (rule fread_reads)

theorem fread_delivers_witness:
  "\<exists>s'. fread \<lparr>fot_ptr = File_fot, inode = 0, file_position = 1, flags = 1\<rparr> 0x20000 3 demo_fs =
      Some (3, \<lparr>fot_ptr = File_fot, inode = 0, file_position = 4, flags = 1\<rparr>, s') \<and>
    mem_stored demo_fs 0x20000 [2, 3, 4] s'"
proof -
  let ?fd = "\<lparr>fot_ptr = File_fot, inode = 0, file_position = 1, flags = 1\<rparr>"
  have ap: "file_apart (xlate Supervisor) demo_fs 0x20000 (unat (3 :: u32)) (boot_block demo_fs)
      (inode_address (boot_block demo_fs) (inode ?fd)) 1 [0] (length [1, 2, 3, 4, 5 :: u8])"
  proof -
    have "block_byte 0x10000 1 [0] k = 0x12000 + of_nat k" if "k < 5" for k
      using that by (simp add: block_byte_def)
    moreover have "apart (xlate Supervisor) demo_fs 0x20000 3 0x12000 5"
      by (rule unpaged_apart) simp_all
    moreover have "apart (xlate Supervisor) demo_fs 0x20000 3 0x10004 4"
      "apart (xlate Supervisor) demo_fs 0x20000 3 0x11004 4"
      by (rule unpaged_apart; simp)+
    ultimately show ?thesis
      by (simp add: file_apart_def inode_address_def) (simp add: apart_def)
  qed
  have "\<exists>s'. fread ?fd 0x20000 3 demo_fs = Some (3, ?fd\<lparr>file_position := file_position ?fd + 3\<rparr>, s') \<and>
    mem_stored demo_fs 0x20000 (take (unat (3 :: u32)) (drop (unat (file_position ?fd)) [1, 2, 3, 4, 5])) s'"
  proof (rule fread_delivers [where l = 5 and c = 1 and blks = "[0]" and bs = "[1, 2, 3, 4, 5]"])
    have "(1 :: u32) < 5" by code_simp
    then show "file_position ?fd < 5" by simp
  qed (use demo_file ap in \<open>simp_all add: unpaged_range_ok\<close>)
  then show ?thesis by simp
qed

text \<open>
  C21. Each \<open>dir_read\<close> leaves the next name of the directory in the buffer, zero-padded to 33
  bytes whatever count was asked for, answers its length and steps on; after the last name it
  answers 0 and starts over.
\<close>

theorem dir_read_enumerates:
  fixes s :: "'a fs_state_scheme"
  assumes "directory (ld8 s) (boot_block s) es" "dir_location s = of_nat i" "i \<le> length es"
    and "length (stack_junk s) = 64" "range_ok (xlate Supervisor) s buf 33"
  shows "if i < length es
    then \<exists>s'. dir_read buf s =
        Some (of_nat (length (ename (es ! i))), s'\<lparr>dir_location := of_nat (Suc i)\<rparr>) \<and>
      mem_stored s buf (ename (es ! i) @ replicate (33 - length (ename (es ! i))) 0) s'
    else dir_read buf s = Some (0, s\<lparr>dir_location := 0\<rparr>)"
proof (cases "i < length es")
  case True
  with dir_read_name [OF assms(1,2) True assms(4,5)] show ?thesis by simp
next
  case False
  have "length es \<le> 63" using assms(1) by (simp add: directory_def)
  then have "length es \<le> unat (dir_location s)"
    using assms(2,3) False by (simp add: unat_of_nat_u32)
  from dir_read_end [OF assms(1) this] show ?thesis using False by simp
qed

theorem dir_read_enumerates_witness:
  "\<exists>s'. dir_read 0x20000 demo_fs = Some (2, s'\<lparr>dir_location := 2\<rparr>) \<and>
     mem_stored demo_fs 0x20000 ([97, 98] @ replicate 31 0) s'"
  using dir_read_enumerates [OF demo_directory, of 1 "0x20000"]
  by (simp add: unpaged_range_ok demo_entry_fields)

end
