(* ===== verification/Pic.thy ===== *)
theory Pic
  imports File_System
begin

text \<open>
  Port input and output, and the interrupt controllers of \<open>i8259.c\<close>. What the devices answer
  is a parameter of the state (\<open>device\<close>), a function of everything that has been read and
  written so far; the accesses themselves are kept as a log, the latest first.
\<close>

section \<open>Ports\<close>

datatype io_event = InB u16 u8 | OutB u16 u8

record io_state = fs_state +
  io :: "io_event list"
  device :: "io_event list \<Rightarrow> u16 \<Rightarrow> u8"
  int_flag :: bool

definition inb :: "u16 \<Rightarrow> 'a io_state_scheme \<Rightarrow> u8 \<times> 'a io_state_scheme" where
  "inb port s = (let v = device s (io s) port in (v, s\<lparr>io := InB port v # io s\<rparr>))"

definition outb :: "u8 \<Rightarrow> u16 \<Rightarrow> 'a io_state_scheme \<Rightarrow> 'a io_state_scheme" where
  "outb v port s = s\<lparr>io := OutB port v # io s\<rparr>"

definition cli :: "'a io_state_scheme \<Rightarrow> 'a io_state_scheme" where
  "cli s = s\<lparr>int_flag := False\<rparr>"

definition sti :: "'a io_state_scheme \<Rightarrow> 'a io_state_scheme" where
  "sti s = s\<lparr>int_flag := True\<rparr>"

lemmas port_defs [kernel_unfold] = inb_def outb_def cli_def sti_def

section \<open>i8259.c\<close>

abbreviation (input) "MASTER_8259_PORT \<equiv> (0x20 :: u16)"
abbreviation (input) "MASTER_8259_DATA \<equiv> (0x21 :: u16)"
abbreviation (input) "SLAVE_8259_PORT \<equiv> (0xA0 :: u16)"
abbreviation (input) "SLAVE_8259_DATA \<equiv> (0xA1 :: u16)"
abbreviation (input) "ICW1 \<equiv> (0x11 :: u8)"
abbreviation (input) "ICW2_MASTER \<equiv> (0x20 :: u8)"
abbreviation (input) "ICW2_SLAVE \<equiv> (0x28 :: u8)"
abbreviation (input) "ICW3_MASTER \<equiv> (0x04 :: u8)"
abbreviation (input) "ICW3_SLAVE \<equiv> (0x02 :: u8)"
abbreviation (input) "ICW4 \<equiv> (0x01 :: u8)"
abbreviation (input) "EOI \<equiv> (0x60 :: u8)"

record pic_state = io_state +
  master_mask :: u8
  slave_mask :: u8
  master_connected :: u8
  slave_connected :: u8

text \<open>\<open>1 << n\<close> computed as an \<open>int\<close> and stored in a byte.\<close>

definition irq_bit :: "u32 \<Rightarrow> u8" where
  "irq_bit n = ucast (push_bit (unat n) (1 :: i32))"

definition mask_all :: "'a io_state_scheme \<Rightarrow> 'a io_state_scheme" where
  "mask_all s = outb 0xFF SLAVE_8259_DATA (outb 0xFF MASTER_8259_DATA s)"

definition unmask_irq_line :: "u8 \<Rightarrow> 'a pic_state_scheme \<Rightarrow> 'a pic_state_scheme" where
  "unmask_irq_line irq_line s =
     (let s = s\<lparr>master_mask := 0, slave_mask := 0\<rparr>
      in if irq_line > 7 then
        (let s = s\<lparr>slave_mask := irq_bit (ucast (irq_line - 8))\<rparr>;
             s = s\<lparr>slave_connected := slave_connected s AND NOT (slave_mask s)\<rparr>
         in outb (slave_connected s) SLAVE_8259_DATA s)
      else
        (let s = s\<lparr>master_mask := irq_bit (ucast irq_line)\<rparr>;
             s = s\<lparr>master_connected := master_connected s AND NOT (master_mask s)\<rparr>
         in outb (master_connected s) MASTER_8259_DATA s))"

definition i8259_init :: "'a pic_state_scheme \<Rightarrow> 'a pic_state_scheme" where
  "i8259_init s =
     (let s = s\<lparr>master_connected := 0xFF, slave_connected := 0xFF\<rparr>;
          s = outb ICW1 MASTER_8259_PORT s;
          s = outb ICW2_MASTER MASTER_8259_DATA s;
          s = outb ICW3_MASTER MASTER_8259_DATA s;
          s = outb ICW4 MASTER_8259_DATA s;
          s = outb ICW1 SLAVE_8259_PORT s;
          s = outb ICW2_SLAVE SLAVE_8259_DATA s;
          s = outb ICW3_SLAVE SLAVE_8259_DATA s;
          s = outb ICW4 SLAVE_8259_DATA s
      in mask_all s)"

definition enable_irq :: "u32 \<Rightarrow> 'a pic_state_scheme \<Rightarrow> 'a pic_state_scheme" where
  "enable_irq irq_num s =
     (if irq_num > 7 then
        (let irq_num = irq_num - 8;
             s = s\<lparr>slave_mask := 0\<rparr>;
             (orig_mask, s) = inb SLAVE_8259_DATA s;
             s = s\<lparr>slave_mask := NOT (irq_bit irq_num)\<rparr>
         in outb (orig_mask AND slave_mask s) SLAVE_8259_DATA s)
      else
        (let s = s\<lparr>master_mask := 0\<rparr>;
             (orig_mask, s) = inb MASTER_8259_DATA s;
             s = s\<lparr>master_mask := NOT (irq_bit irq_num)\<rparr>
         in outb (orig_mask AND master_mask s) MASTER_8259_DATA s))"

definition disable_irq :: "u32 \<Rightarrow> 'a pic_state_scheme \<Rightarrow> 'a pic_state_scheme" where
  "disable_irq irq_num s =
     (if irq_num > 7 then
        (let irq_num = irq_num - 8;
             s = s\<lparr>slave_mask := 0\<rparr>;
             (orig_mask, s) = inb SLAVE_8259_DATA s;
             s = s\<lparr>slave_mask := irq_bit irq_num\<rparr>
         in outb (orig_mask OR slave_mask s) SLAVE_8259_DATA s)
      else
        (let s = s\<lparr>master_mask := 0\<rparr>;
             (orig_mask, s) = inb MASTER_8259_DATA s;
             s = s\<lparr>master_mask := irq_bit irq_num\<rparr>
         in outb (orig_mask OR master_mask s) MASTER_8259_DATA s))"

definition send_eoi :: "u32 \<Rightarrow> 'a io_state_scheme \<Rightarrow> 'a io_state_scheme" where
  "send_eoi irq_num s =
     (if irq_num > 7 then
        outb (2 OR EOI) MASTER_8259_PORT (outb (ucast (irq_num - 8) OR EOI) SLAVE_8259_PORT s)
      else outb (ucast irq_num OR EOI) MASTER_8259_PORT s)"

section \<open>The lines that are masked\<close>

text \<open>
  The mask register of a controller is what was last written to its data port and is what a
  read of the port gives (datasheet of the 8259A, OCW1). \<open>masks\<close> reads it off the log;
  \<open>pic_device\<close> says that the device answers so.
\<close>

fun last_out :: "u16 \<Rightarrow> io_event list \<Rightarrow> u8" where
  "last_out p [] = 0"
| "last_out p (OutB q v # log) = (if q = p then v else last_out p log)"
| "last_out p (InB q v # log) = last_out p log"

definition pic_device :: "(io_event list \<Rightarrow> u16 \<Rightarrow> u8) \<Rightarrow> bool" where
  "pic_device dev \<longleftrightarrow>
     (\<forall>log. dev log MASTER_8259_DATA = last_out MASTER_8259_DATA log \<and>
       dev log SLAVE_8259_DATA = last_out SLAVE_8259_DATA log)"

definition masked :: "'a io_state_scheme \<Rightarrow> nat \<Rightarrow> bool" where
  "masked s n \<longleftrightarrow> (if n < 8 then bit (last_out MASTER_8259_DATA (io s)) n
     else bit (last_out SLAVE_8259_DATA (io s)) (n - 8))"

lemma bit_irq_bit: "n < 8 \<Longrightarrow> bit (irq_bit (of_nat n)) k \<longleftrightarrow> k = n"
proof -
  assume n: "n < 8"
  then have "unat (of_nat n :: u32) = n" by (intro unat_of_nat_u32) simp
  then show ?thesis
    using n by (auto simp: irq_bit_def bit_simps dest: bit_imp_le_length)
qed

lemma irq_line_cases:
  assumes "n < 16"
  shows "(of_nat n > (7 :: u32)) = (8 \<le> n)" "8 \<le> n \<Longrightarrow> of_nat n - (8 :: u32) = of_nat (n - 8)"
  using assms by (simp_all add: word_less_nat_alt unat_of_nat_u32 of_nat_diff) linarith

lemma enable_irq_io:
  assumes "n < 16"
  shows "io (enable_irq (of_nat n) s) =
    (let p = (if n < 8 then MASTER_8259_DATA else SLAVE_8259_DATA); m = device s (io s) p
     in OutB p (m AND NOT (irq_bit (of_nat (n mod 8)))) # InB p m # io s)"
proof (cases "n < 8")
  case True
  with assms irq_line_cases [of n] show ?thesis
    by (simp add: enable_irq_def port_defs Let_def)
next
  case False
  then have "n mod 8 = n - 8" using assms by (simp add: mod_if)
  with False assms irq_line_cases [of n] show ?thesis
    by (simp add: enable_irq_def port_defs Let_def)
qed

lemma disable_irq_io:
  assumes "n < 16"
  shows "io (disable_irq (of_nat n) s) =
    (let p = (if n < 8 then MASTER_8259_DATA else SLAVE_8259_DATA); m = device s (io s) p
     in OutB p (m OR irq_bit (of_nat (n mod 8))) # InB p m # io s)"
proof (cases "n < 8")
  case True
  with assms irq_line_cases [of n] show ?thesis
    by (simp add: disable_irq_def port_defs Let_def)
next
  case False
  then have "n mod 8 = n - 8" using assms by (simp add: mod_if)
  with False assms irq_line_cases [of n] show ?thesis
    by (simp add: disable_irq_def port_defs Let_def)
qed

lemma bit_irq_bit_mod: "bit (irq_bit (of_nat (n mod 8))) k \<longleftrightarrow> k = n mod 8"
  by (rule bit_irq_bit) simp

lemma irq_mod_8: "(n :: nat) < 16 \<Longrightarrow> n mod 8 = (if n < 8 then n else n - 8)"
  by (simp add: mod_if)

lemma enable_irq_masked:
  assumes dev: "pic_device (device s)" and n: "n < 16" and k: "k < 16"
  shows "masked (enable_irq (of_nat n) s) k \<longleftrightarrow> masked s k \<and> k \<noteq> n"
proof -
  define b where "b = irq_bit (of_nat (n mod 8))"
  then have "bit b j \<longleftrightarrow> j = (if n < 8 then n else n - 8)" for j
    using n bit_irq_bit_mod [of n j] by (simp add: irq_mod_8)
  then show ?thesis
    using dev n k
    by (auto simp: enable_irq_io pic_device_def masked_def Let_def bit_and_iff bit_not_iff
        simp flip: b_def)
qed

lemma disable_irq_masked:
  assumes dev: "pic_device (device s)" and n: "n < 16" and k: "k < 16"
  shows "masked (disable_irq (of_nat n) s) k \<longleftrightarrow> masked s k \<or> k = n"
proof -
  define b where "b = irq_bit (of_nat (n mod 8))"
  then have "bit b j \<longleftrightarrow> j = (if n < 8 then n else n - 8)" for j
    using n bit_irq_bit_mod [of n j] by (simp add: irq_mod_8)
  then show ?thesis
    using dev n k
    by (auto simp: disable_irq_io pic_device_def masked_def Let_def bit_or_iff
        simp flip: b_def)
qed

lemma i8259_init_masked: "k < 16 \<Longrightarrow> masked (i8259_init s) k"
proof -
  have "bit (0xFF :: u8) j" if "j < 8" for j
    using that by (auto simp: less_Suc_eq numeral_eq_Suc)
  then show "k < 16 \<Longrightarrow> masked (i8259_init s) k"
    by (auto simp: i8259_init_def mask_all_def masked_def port_defs Let_def)
qed

section \<open>What the interrupt controllers promise\<close>

text \<open>
  C36. \<open>enable_irq\<close> opens exactly the given one of the 16 interrupt lines and \<open>disable_irq\<close>
  masks exactly it, on whichever of the two controllers it is; after \<open>i8259_init\<close> all lines
  are masked.
\<close>

theorem irq_masking:
  assumes "pic_device (device s)" "n < 16" "k < 16"
  shows "(masked (enable_irq (of_nat n) s) k \<longleftrightarrow> masked s k \<and> k \<noteq> n) \<and>
    (masked (disable_irq (of_nat n) s) k \<longleftrightarrow> masked s k \<or> k = n) \<and> masked (i8259_init s) k"
  using enable_irq_masked [OF assms] disable_irq_masked [OF assms] i8259_init_masked [OF assms(3)]
  by blast

definition demo_pic :: "pic_state" where
  "demo_pic = fs_state.extend demo_fs
     \<lparr>io = [OutB 0xA1 0xFF, OutB 0x21 0xFF], device = (\<lambda>log p. last_out p log), int_flag = False,
      master_mask = 0, slave_mask = 0, master_connected = 0, slave_connected = 0\<rparr>"

theorem irq_masking_witness:
  "(masked (enable_irq 9 demo_pic) 9 \<longleftrightarrow> False) \<and> (masked (disable_irq 9 demo_pic) 9 \<longleftrightarrow> True)"
proof -
  have "pic_device (device demo_pic)" by (simp add: demo_pic_def fs_state.defs pic_device_def)
  from irq_masking [OF this, of 9 9] show ?thesis by simp
qed

end
