(* ===== verification/Idt.thy ===== *)
theory Idt
  imports Pic
begin

text \<open>
  The interrupt descriptor table and \<open>idt.c\<close>: gates as the bit fields of \<open>idt_desc_t\<close>, the
  split of a handler's address over two of them, and the vectors the kernel fills in at boot.
  Where the linker puts the handlers is a parameter.
\<close>

section \<open>Descriptors (x86_desc.h)\<close>

abbreviation (input) "KERNEL_CS \<equiv> (0x0010 :: u16)"
abbreviation (input) "KERNEL_DS \<equiv> (0x0018 :: u16)"
abbreviation (input) "USER_CS \<equiv> (0x0023 :: u16)"
abbreviation (input) "USER_DS \<equiv> (0x002B :: u16)"

record idt_desc =
  offset_15_00 :: u16
  seg_selector :: u16
  reserved4 :: u8
  reserved3 :: bool
  reserved2 :: bool
  reserved1 :: bool
  gate_size :: bool
  reserved0 :: bool
  dpl :: "2 word"
  present :: bool
  offset_31_16 :: u16

datatype handler =
    divide_error | reserved_error | nonmask_interrupt | breakpoint | overflow
  | bound_range_exceeded | invalid_opcode | device_unavailable | double_fault
  | coprocessor_segment_overrun | invalid_tss | segment_not_present | stack_segment_fault
  | general_protection | page_fault | fpu_floating_point_error | alignment_check
  | machine_check | simd_floating_point_exception
  | syscall_linker | kb_linker | rtc_linker | pit_linker

record idt_state = pic_state +
  idt :: "nat \<Rightarrow> idt_desc"
  handler_at :: "handler \<Rightarrow> u32"

definition SET_IDT_ENTRY :: "idt_desc \<Rightarrow> u32 \<Rightarrow> idt_desc" where
  "SET_IDT_ENTRY d h = d\<lparr>
     offset_31_16 := ucast (drop_bit 16 (h AND 0xFFFF0000)),
     offset_15_00 := ucast (h AND 0xFFFF)\<rparr>"

text \<open>The assignments that \<open>idt_init\<close>, \<open>rtc_init\<close>, \<open>keyboard_init\<close> and \<open>init_pit\<close> share.\<close>

definition set_gate :: "nat \<Rightarrow> u32 \<Rightarrow> 'a idt_state_scheme \<Rightarrow> 'a idt_state_scheme" where
  "set_gate i h s =
     (let d = (idt s i)\<lparr>gate_size := True, seg_selector := KERNEL_CS,
            reserved1 := True, reserved2 := True\<rparr>;
          d = SET_IDT_ENTRY d h
      in s\<lparr>idt := (idt s)(i := d\<lparr>present := True\<rparr>)\<rparr>)"

section \<open>idt.c\<close>

definition intFuncArr :: "handler list" where
  "intFuncArr = [divide_error, reserved_error, nonmask_interrupt, breakpoint, overflow,
     bound_range_exceeded, invalid_opcode, device_unavailable, double_fault,
     coprocessor_segment_overrun, invalid_tss, segment_not_present, stack_segment_fault,
     general_protection, page_fault, reserved_error, fpu_floating_point_error, alignment_check,
     machine_check, simd_floating_point_exception]"

definition idt_init :: "'a idt_state_scheme \<Rightarrow> 'a idt_state_scheme" where
  "idt_init s =
     (let s = fold (\<lambda>i s. set_gate i
            (handler_at s (if i < 20 then intFuncArr ! i else reserved_error)) s) [0..<32] s;
          s = s\<lparr>idt := (idt s)(0x80 := (idt s 0x80)\<lparr>dpl := 3, reserved3 := True\<rparr>)\<rparr>
      in set_gate 0x80 (handler_at s syscall_linker) s)"

definition keyboard_init :: "'a idt_state_scheme \<Rightarrow> 'a idt_state_scheme" where
  "keyboard_init s = set_gate 0x21 (handler_at s kb_linker) s"

section \<open>What the table holds\<close>

text \<open>The address the processor puts together from a gate.\<close>

definition gate_target :: "idt_desc \<Rightarrow> u32" where
  "gate_target d = push_bit 16 (ucast (offset_31_16 d)) OR ucast (offset_15_00 d)"

text \<open>A present 32-bit gate into the kernel's code segment.\<close>

definition gate_to :: "idt_desc \<Rightarrow> u32 \<Rightarrow> bool" where
  "gate_to d h \<longleftrightarrow> present d \<and> gate_size d \<and> seg_selector d = KERNEL_CS \<and>
     reserved1 d \<and> reserved2 d \<and> gate_target d = h"

lemma split_halves:
  "push_bit 16 (ucast (ucast (drop_bit 16 (h AND 0xFFFF0000)) :: u16)) OR
     ucast (ucast (h AND 0xFFFF) :: u16) = (h :: u32)"
proof -
  have hi: "h AND 0xFFFF0000 = push_bit 16 (drop_bit 16 h)"
  proof -
    have m: "(0xFFFF0000 :: u32) = push_bit 16 (mask 16)"
      by (simp add: mask_eq_exp_minus_1 push_bit_eq_mult)
    show ?thesis unfolding m by (rule bit_word_eqI) (auto simp: bit_simps)
  qed
  have lo: "h AND 0xFFFF = take_bit 16 h"
    using take_bit_eq_mask [of 16 h] by (simp add: mask_eq_exp_minus_1)
  show ?thesis unfolding hi lo by (rule bit_word_eqI) (auto simp: bit_simps)
qed

lemma SET_IDT_ENTRY_target: "gate_target (SET_IDT_ENTRY d h) = h"
  using split_halves [of h] by (simp add: gate_target_def SET_IDT_ENTRY_def)

lemma SET_IDT_ENTRY_keeps [simp]:
  "present (SET_IDT_ENTRY d h) = present d" "gate_size (SET_IDT_ENTRY d h) = gate_size d"
  "seg_selector (SET_IDT_ENTRY d h) = seg_selector d" "dpl (SET_IDT_ENTRY d h) = dpl d"
  "reserved1 (SET_IDT_ENTRY d h) = reserved1 d" "reserved2 (SET_IDT_ENTRY d h) = reserved2 d"
  "reserved3 (SET_IDT_ENTRY d h) = reserved3 d"
  by (simp_all add: SET_IDT_ENTRY_def)

lemma set_gate_to: "gate_to (idt (set_gate i h s) i) h"
  using SET_IDT_ENTRY_target by (simp add: set_gate_def gate_to_def Let_def gate_target_def)

lemma set_gate_other [frame]: "j \<noteq> i \<Longrightarrow> idt (set_gate i h s) j = idt s j"
  by (simp add: set_gate_def Let_def)

lemma set_gate_dpl: "dpl (idt (set_gate i h s) j) = dpl (idt s j)"
  "reserved3 (idt (set_gate i h s) j) = reserved3 (idt s j)"
  by (simp_all add: set_gate_def Let_def)

lemma set_gate_handler_at [simp]: "handler_at (set_gate i h s) = handler_at s"
  by (simp add: set_gate_def Let_def)

lemma set_gates:
  fixes hs :: "nat \<Rightarrow> handler"
  defines "fill n s \<equiv> fold (\<lambda>i s. set_gate i (handler_at s (hs i)) s) [0..<n] s"
  shows "handler_at (fill n s) = handler_at s"
    and "i < n \<Longrightarrow> gate_to (idt (fill n s) i) (handler_at s (hs i))"
    and "n \<le> i \<Longrightarrow> idt (fill n s) i = idt s i"
    and "dpl (idt (fill n s) i) = dpl (idt s i)"
    and "reserved3 (idt (fill n s) i) = reserved3 (idt s i)"
  unfolding fill_def
  by (induction n) (auto simp: less_Suc_eq set_gate_to set_gate_other set_gate_dpl)

lemma idt_init_gates:
  shows "i < 32 \<Longrightarrow> gate_to (idt (idt_init s) i)
      (handler_at s (if i < 20 then intFuncArr ! i else reserved_error))"
    and "i < 32 \<Longrightarrow> dpl (idt (idt_init s) i) = dpl (idt s i)"
    and "gate_to (idt (idt_init s) 0x80) (handler_at s syscall_linker)"
    and "dpl (idt (idt_init s) 0x80) = 3"
    and "reserved3 (idt (idt_init s) 0x80)"
    and "32 \<le> i \<Longrightarrow> i \<noteq> 0x80 \<Longrightarrow> idt (idt_init s) i = idt s i"
  using set_gates(2-5) [where n = 32 and s = s and i = i and
      hs = "\<lambda>i. if i < 20 then intFuncArr ! i else reserved_error"]
    set_gates(1) [where n = 32 and s = s and
      hs = "\<lambda>i. if i < 20 then intFuncArr ! i else reserved_error"]
  by (simp_all add: idt_init_def Let_def set_gate_to set_gate_other set_gate_dpl)

text \<open>
  After \<open>idt_init\<close> each of the 32 exception vectors is a present kernel gate to its own
  handler (the reserved ones to \<open>reserved_error\<close>), vector \<open>0x80\<close> is the system call gate and
  the only one whose privilege level was opened to user programs, and no other vector changed.
\<close>

theorem idt_init_vectors:
  "if i < 32 then
     gate_to (idt (idt_init s) i)
       (handler_at s (if i < 20 then intFuncArr ! i else reserved_error)) \<and>
     dpl (idt (idt_init s) i) = dpl (idt s i)
   else if i = 0x80 then
     gate_to (idt (idt_init s) i) (handler_at s syscall_linker) \<and>
     dpl (idt (idt_init s) i) = 3 \<and> reserved3 (idt (idt_init s) i)
   else idt (idt_init s) i = idt s i"
proof (cases "i < 32")
  case True
  with idt_init_gates(1,2) [of i s] show ?thesis by simp
next
  case False
  with idt_init_gates(3-5) [of s] idt_init_gates(6) [of i s] show ?thesis by simp
qed

end
