(* ===== verification/Console.thy ===== *)
theory Console
  imports Idt
begin

text \<open>
  Output to the screen: \<open>putc\<close>, \<open>puts\<close>, \<open>scroll\<close> and \<open>clear\<close> of \<open>lib.c\<close>, with the state of
  \<open>terminal.c\<close> they depend on. The code writes to the first page at one gigabyte, and
  \<open>page_table_vid[0]\<close> decides which terminal's memory that is: the displayed page of the VGA
  or the backing page of a terminal in the background. The second half gives each terminal
  the abstract screen it shows (25 rows of 80 characters and a cursor) and proves that
  \<open>putc\<close> is typing on that screen and on no other.
\<close>

section \<open>State\<close>

abbreviation (input) "VIDEO \<equiv> ONE_GIG"
abbreviation (input) "ATTRIB \<equiv> (7 :: u8)"

text \<open>
  \<open>NUM_COLS\<close> and \<open>NUM_ROWS\<close> are 80 and 25. The cursor arrays \<open>term_cursor_x\<close> and
  \<open>term_cursor_y\<close> of \<open>keyboard.c\<close> have an entry per terminal.
\<close>

record tty_state = idt_state +
  screen_x :: i32
  screen_y :: i32
  cur_term_num :: u8
  term_in_service :: u8
  terminal_opened :: u8
  terminal_buf :: "u8 list"
  buf_sent :: u8
  x_start_tw :: u32
  y_start_tw :: u32
  override_start :: u32
  term_cursor_x :: "u32 list"
  term_cursor_y :: "u32 list"

definition set_screen_coords :: "i32 \<Rightarrow> i32 \<Rightarrow> 'a tty_state_scheme \<Rightarrow> 'a tty_state_scheme" where
  "set_screen_coords new_x new_y s = s\<lparr>screen_x := new_x, screen_y := new_y\<rparr>"

definition get_term_cursor_x :: "u32 \<Rightarrow> 'a tty_state_scheme \<Rightarrow> u32 option" where
  "get_term_cursor_x i s = arr_get (term_cursor_x s) (unat i)"

definition get_term_cursor_y :: "u32 \<Rightarrow> 'a tty_state_scheme \<Rightarrow> u32 option" where
  "get_term_cursor_y i s = arr_get (term_cursor_y s) (unat i)"

definition set_term_cursor_x :: "u32 \<Rightarrow> u32 \<Rightarrow> 'a tty_state_scheme \<Rightarrow> 'a tty_state_scheme option" where
  "set_term_cursor_x i x s = do {
     xs \<leftarrow> arr_set (unat i) x (term_cursor_x s);
     Some (s\<lparr>term_cursor_x := xs\<rparr>)
   }"

definition set_term_cursor_y :: "u32 \<Rightarrow> u32 \<Rightarrow> 'a tty_state_scheme \<Rightarrow> 'a tty_state_scheme option" where
  "set_term_cursor_y i y s = do {
     ys \<leftarrow> arr_set (unat i) y (term_cursor_y s);
     Some (s\<lparr>term_cursor_y := ys\<rparr>)
   }"

definition init_term_cursor :: "'a tty_state_scheme \<Rightarrow> 'a tty_state_scheme option" where
  "init_term_cursor = for_each (\<lambda>i s. do {
     s \<leftarrow> set_term_cursor_x (of_nat i) 0 s;
     set_term_cursor_y (of_nat i) 0 s
   }) [0..<3]"

section \<open>lib.c\<close>

text \<open>A character and its attribute at position \<open>p\<close> of the screen, \<open>video_mem + (p << 1)\<close>.\<close>

definition store_cell :: "i32 \<Rightarrow> u8 \<Rightarrow> 'a tty_state_scheme \<Rightarrow> 'a tty_state_scheme option" where
  "store_cell p c s = do {
     s \<leftarrow> st8 (VIDEO + push_bit 1 p) c s;
     st8 (VIDEO + push_bit 1 p + 1) ATTRIB s
   }"

definition clear_char :: "'a tty_state_scheme \<Rightarrow> 'a tty_state_scheme option" where
  "clear_char s = store_cell (80 * screen_y s + screen_x s) (of_char (CHR '' '')) s"

definition scroll :: "'a tty_state_scheme \<Rightarrow> 'a tty_state_scheme option" where
  "scroll = for_each (\<lambda>i s. do {
     c \<leftarrow> ld8 s (VIDEO + push_bit 1 (of_nat i));
     s \<leftarrow> st8 (VIDEO + push_bit 1 (of_nat (i - 80))) c s;
     if i > 25 * 80 - 80 - 1 then store_cell (of_nat i) (of_char (CHR '' '')) s else Some s
   }) [80..<25 * 80]"

definition clear :: "'a tty_state_scheme \<Rightarrow> 'a tty_state_scheme option" where
  "clear = for_each (\<lambda>i s. store_cell (of_nat i) (of_char (CHR '' '')) s) [0..<25 * 80]"

definition cursor_check :: "'a tty_state_scheme \<Rightarrow> (u32 \<times> 'a tty_state_scheme) option" where
  "cursor_check s = do {
     let service_term = (ucast (term_in_service s) :: u32);
     let cur_term = (ucast (cur_term_num s) :: u32);
     x \<leftarrow> get_term_cursor_x service_term s;
     y \<leftarrow> get_term_cursor_y service_term s;
     let s = set_screen_coords x y s;
     if service_term = cur_term then
       Some (1, s\<lparr>page_table_vid := (page_table_vid s)(0 := VIM_MEM_INDEX OR RW OR PRESENT OR USER)\<rparr>)
     else
       Some (0, s\<lparr>page_table_vid := (page_table_vid s)(0 :=
         (VIM_MEM_INDEX + (service_term + 1) * FOUR_KB) OR RW OR PRESENT OR USER)\<rparr>)
   }"

definition term_cursor_update :: "'a tty_state_scheme \<Rightarrow> 'a tty_state_scheme option" where
  "term_cursor_update s = do {
     let service_term = (ucast (term_in_service s) :: u32);
     s \<leftarrow> set_term_cursor_x service_term (screen_x s) s;
     set_term_cursor_y service_term (screen_y s) s
   }"

text \<open>The two branches of \<open>putc\<close>, and the hardware cursor at its end.\<close>

definition putc_newline :: "'a tty_state_scheme \<Rightarrow> 'a tty_state_scheme option" where
  "putc_newline s = do {
     s \<leftarrow> (if screen_y s = 25 - 1 then scroll s else Some (s\<lparr>screen_y := screen_y s + 1\<rparr>));
     Some (s\<lparr>screen_x := 0\<rparr>)
   }"

definition putc_glyph :: "u8 \<Rightarrow> 'a tty_state_scheme \<Rightarrow> 'a tty_state_scheme option" where
  "putc_glyph c s = do {
     s \<leftarrow> store_cell (80 * screen_y s + screen_x s) c s;
     let s = s\<lparr>screen_x := screen_x s + 1\<rparr>;
     let s = (if 80 - 1 <s screen_x s then s\<lparr>screen_y := screen_y s + 1\<rparr> else s);
     let s = s\<lparr>screen_x := int_mod (screen_x s) 80\<rparr>;
     let s = s\<lparr>screen_y := screen_y s + int_div (screen_x s) 80\<rparr>;
     if 25 - 1 <s screen_y s then do {
       s \<leftarrow> scroll s;
       Some (s\<lparr>screen_y := 25 - 1, screen_x := 0\<rparr>)
     } else Some s
   }"

definition write_cursor :: "i32 \<Rightarrow> 'a io_state_scheme \<Rightarrow> 'a io_state_scheme" where
  "write_cursor pos s =
     (let s = outb 0x0F 0x3D4 s;
          s = outb (ucast (pos AND 0xFF)) 0x3D5 s;
          s = outb 0x0E 0x3D4 s
      in outb (ucast (signed_drop_bit 8 pos AND 0xFF)) 0x3D5 s)"

definition putc :: "u8 \<Rightarrow> 'a tty_state_scheme \<Rightarrow> 'a tty_state_scheme option" where
  "putc c s = do {
     (flag, s) \<leftarrow> cursor_check s;
     s \<leftarrow> (if c = of_char (CHR ''\<newline>'') \<or> c = 13 then putc_newline s else putc_glyph c s);
     let s = (if flag = 1 then write_cursor (screen_y s * 80 + screen_x s) s else s);
     term_cursor_update s
   }"

partial_function (option) puts_from ::
  "('a tty_state_scheme \<Rightarrow> u32 \<Rightarrow> u8 option) \<Rightarrow> u32 \<Rightarrow> i32 \<Rightarrow> 'a tty_state_scheme \<Rightarrow>
   (i32 \<times> 'a tty_state_scheme) option"
where
  "puts_from rd a index s = do {
     c \<leftarrow> rd s (a + index);
     if c \<noteq> 0 then do {
       s \<leftarrow> putc c s;
       puts_from rd a (index + 1) s
     } else Some (index, s)
   }"

definition puts ::
  "('a tty_state_scheme \<Rightarrow> u32 \<Rightarrow> u8 option) \<Rightarrow> u32 \<Rightarrow> 'a tty_state_scheme \<Rightarrow>
   (i32 \<times> 'a tty_state_scheme) option" where
  "puts rd a s = puts_from rd a 0 s"

text \<open>\<open>test_interrupts\<close>: every character of the screen is incremented.\<close>

definition test_interrupts :: "'a tty_state_scheme \<Rightarrow> 'a tty_state_scheme option" where
  "test_interrupts = for_each (\<lambda>i s. do {
     c \<leftarrow> ld8 s (VIDEO + push_bit 1 (of_nat i));
     st8 (VIDEO + push_bit 1 (of_nat i)) (c + 1) s
   }) [0..<25 * 80]"

text \<open>A string literal is an object of its own.\<close>

definition puts_lit :: "string \<Rightarrow> 'a tty_state_scheme \<Rightarrow> 'a tty_state_scheme option" where
  "puts_lit str s = do {
     (_, s) \<leftarrow> puts (\<lambda>_. ldo (chars str @ [0])) 0 s;
     Some s
   }"

section \<open>The video window\<close>

text \<open>
  \<open>video_ok\<close>: the page directory shows \<open>page_table_vid\<close> at one gigabyte, as
  \<open>initialize_page\<close> sets it up and nothing undoes. \<open>displays s F\<close>: the first page of the window
  is the page at physical address \<open>F\<close>; before paging that can only be the window itself. \<open>with_page F bs s\<close> is \<open>s\<close> with the contents \<open>bs\<close> in
  that page.
\<close>

definition video_ok :: "'a mach_scheme \<Rightarrow> bool" where
  "video_ok s \<longleftrightarrow> paging s \<and> linked s \<and> page_directory s 256 = page_table_vid_at s OR 7"

definition displays :: "'a mach_scheme \<Rightarrow> u32 \<Rightarrow> bool" where
  "displays s F \<longleftrightarrow>
     (if paging s then video_ok s \<and> take_bit 12 F = 0 \<and> page_table_vid s 0 = F OR 7 else F = VIDEO)"

lemma displays_paged: "video_ok s \<Longrightarrow> displays s F \<longleftrightarrow> take_bit 12 F = 0 \<and> page_table_vid s 0 = F OR 7"
  by (simp add: displays_def video_ok_def)

definition page_bytes :: "'a mach_scheme \<Rightarrow> u32 \<Rightarrow> u8 list" where
  "page_bytes s F = map (\<lambda>k. phys s (F + of_nat k)) [0..<4096]"

definition with_page :: "u32 \<Rightarrow> u8 list \<Rightarrow> 'a mach_scheme \<Rightarrow> 'a mach_scheme" where
  "with_page F bs s =
     s\<lparr>phys := (\<lambda>a. if unat (a - F) < 4096 then bs ! unat (a - F) else phys s a)\<rparr>"

lemma initialize_page_video_ok: "linked s \<Longrightarrow> video_ok (initialize_page s)"
  by (simp add: video_ok_def initialize_page_linked) (simp add: initialize_page_eq)

lemma video_window:
  assumes "k < 4096"
  shows "region (VIDEO + of_nat k) = 256" "page_in_region (VIDEO + of_nat k) = 0"
    "take_bit 12 (VIDEO + of_nat k) = of_nat k"
proof -
  have u: "unat (VIDEO + of_nat k) = 0x40000000 + k"
    using unat_of_nat_u32 [of "0x40000000 + k"] assms by simp
  have small: "take_bit 32 (0x40000000 + k) = 0x40000000 + k"
    using assms by (intro take_bit_nat_eq_self) simp
  show "region (VIDEO + of_nat k) = 256"
    using assms by (simp add: region_def unsigned_drop_bit_eq drop_bit_nat_def u small)
  have "(0x40000000 + k) div 4096 = 0x40000" using assms by (intro div_nat_eqI) simp_all
  then show "page_in_region (VIDEO + of_nat k) = 0"
    by (simp add: page_in_region_def unsigned_drop_bit_eq unsigned_take_bit_eq
        drop_bit_nat_def take_bit_nat_def u)
  have "(0x40000000 + k) mod 4096 = k" using mod_mult_self3 [of "0x40000" 4096 k] assms by simp
  then have "unat (take_bit 12 (VIDEO + of_nat k)) = k"
    by (simp add: unsigned_take_bit_eq take_bit_nat_def u)
  then have "of_nat (unat (take_bit 12 (VIDEO + of_nat k))) = (of_nat k :: u32)" by (simp only:)
  then show "take_bit 12 (VIDEO + of_nat k) = of_nat k" by simp
qed

lemma displays_xlate:
  assumes s: "displays s F" and k: "k < 4096"
  shows "xlate pr s (VIDEO + of_nat k) = Some (F + of_nat k)"
proof (cases "paging s")
  case True
  then have l: "linked s" "paging s" "page_directory s 256 = page_table_vid_at s OR 7"
    using s by (simp_all add: displays_def video_ok_def)
  then have "xlate pr s (VIDEO + of_nat k) =
      (if allows pr (page_table_vid s 0)
       then Some (frame_of (page_table_vid s 0) OR take_bit 12 (VIDEO + of_nat k)) else None)"
    using video_window [OF k] table_at_vid [of s]
    by (subst xlate_small [where e = "page_table_vid_at s OR 7" and t = "page_table_vid s"])
      (simp_all add: linked_def allows_table big_page_bit frame_of_table)
  then show ?thesis
    using s True aligned_or_offset [of F "VIDEO + of_nat k"] video_window(3) [OF k]
    by (simp add: displays_def allows_table frame_of_table)
qed (use s in \<open>simp add: displays_def xlate_def\<close>)

lemma with_page_sel [simp]:
  "displays (with_page F bs s) G = displays s G" "xlate pr (with_page F bs s) = xlate pr s"
  by (simp_all add: with_page_def displays_def video_ok_def linked_def)

lemma with_page_phys:
  "k < 4096 \<Longrightarrow> phys (with_page F bs s) (F + of_nat k) = bs ! k"
  by (simp add: with_page_def unat_of_nat_u32)

lemma with_page_outside: "\<not> unat (a - F) < 4096 \<Longrightarrow> phys (with_page F bs s) a = phys s a"
  by (simp add: with_page_def)

lemma with_page_self: "with_page F (page_bytes s F) s = s"
proof -
  have "page_bytes s F ! unat (a - F) = phys s a" if "unat (a - F) < 4096" for a
    using that by (simp add: page_bytes_def)
  then have "(\<lambda>a. if unat (a - F) < 4096 then page_bytes s F ! unat (a - F) else phys s a) = phys s"
    by auto
  then show ?thesis by (simp add: with_page_def)
qed

lemma page_bytes_with_page: "length bs = 4096 \<Longrightarrow> page_bytes (with_page F bs s) F = bs"
  by (rule nth_equalityI) (simp_all add: page_bytes_def with_page_phys)

lemma length_page_bytes [simp]: "length (page_bytes s F) = 4096"
  by (simp add: page_bytes_def)

lemma page_ld8:
  "displays s F \<Longrightarrow> k < 4096 \<Longrightarrow> ld8 (with_page F bs s) (VIDEO + of_nat k) = Some (bs ! k)"
  by (simp add: ld8_def displays_xlate with_page_phys)

lemma page_st8:
  assumes "displays s F" "k < 4096" "length bs = 4096"
  shows "st8 (VIDEO + of_nat k) v (with_page F bs s) = Some (with_page F (bs[k := v]) s)"
proof -
  have "(\<lambda>a. if unat (a - F) < 4096 then bs ! unat (a - F) else phys s a)(F + of_nat k := v) =
      (\<lambda>a. if unat (a - F) < 4096 then bs[k := v] ! unat (a - F) else phys s a)"
  proof
    fix a
    have "a = F + of_nat k \<longleftrightarrow> unat (a - F) = k"
    proof
      assume "unat (a - F) = k"
      then have "of_nat (unat (a - F)) = (of_nat k :: u32)" by (simp only:)
      then have "a - F = of_nat k" by simp
      then show "a = F + of_nat k" by (simp add: algebra_simps)
    qed (use assms(2) in \<open>simp add: unat_of_nat_u32\<close>)
    then show "((\<lambda>a. if unat (a - F) < 4096 then bs ! unat (a - F) else phys s a)(F + of_nat k := v)) a =
      (if unat (a - F) < 4096 then bs[k := v] ! unat (a - F) else phys s a)"
      using assms(2,3) by (auto simp: nth_list_update)
  qed
  then show ?thesis using assms(1,2) by (simp add: st8_def displays_xlate with_page_def)
qed

text \<open>What the routines do to the 4096 bytes of the page.\<close>

definition put_cell :: "u8 \<Rightarrow> nat \<Rightarrow> u8 list \<Rightarrow> u8 list" where
  "put_cell c i bs = bs[2 * i := c, 2 * i + 1 := ATTRIB]"

definition scroll_cell :: "nat \<Rightarrow> u8 list \<Rightarrow> u8 list" where
  "scroll_cell i bs =
     (let bs = bs[2 * (i - 80) := bs ! (2 * i)]
      in if 1919 < i then put_cell 32 i bs else bs)"

lemma length_put_cell [simp]: "length (put_cell c i bs) = length bs"
  by (simp add: put_cell_def)

lemma length_scroll_cell [simp]: "length (scroll_cell i bs) = length bs"
  by (simp add: scroll_cell_def Let_def)

lemma length_fold [simp]:
  "(\<And>i bs. length (g i bs) = length bs) \<Longrightarrow> length (fold g is bs) = length bs"
  by (induction "is" arbitrary: bs) auto

lemma cell_address: "push_bit 1 (of_nat i) = (of_nat (2 * i) :: u32)"
  by (simp add: push_bit_eq_mult)

lemma page_store_cell:
  assumes "displays s F" "i < 2000" "length bs = 4096"
  shows "store_cell (of_nat i) c (with_page F bs s) = Some (with_page F (put_cell c i bs) s)"
proof -
  have "VIDEO + of_nat (2 * i) + 1 = VIDEO + of_nat (2 * i + 1)" by simp
  with assms page_st8 [of s F "2 * i" bs c] page_st8 [of s F "2 * i + 1" "bs[2 * i := c]" 7]
  show ?thesis unfolding store_cell_def cell_address put_cell_def by (simp del: of_nat_add of_nat_mult)
qed

lemma for_each_page:
  assumes "displays s F" "length bs = 4096"
    and step: "\<And>i bs. i \<in> set is \<Longrightarrow> length bs = 4096 \<Longrightarrow>
      f i (with_page F bs s) = Some (with_page F (g i bs) s) \<and> length (g i bs) = 4096"
  shows "for_each f is (with_page F bs s) = Some (with_page F (fold g is bs) s)"
  using assms(2) step by (induction "is" arbitrary: bs) simp_all

lemma page_clear:
  assumes "displays s F" "length bs = 4096"
  shows "clear (with_page F bs s) = Some (with_page F (fold (put_cell 32) [0..<2000] bs) s)"
proof -
  have n: "25 * 80 = (2000 :: nat)" by simp
  show ?thesis
    unfolding clear_def n using assms by (intro for_each_page) (simp_all add: page_store_cell)
qed

lemma page_scroll:
  assumes "displays s F" "length bs = 4096"
  shows "scroll (with_page F bs s) = Some (with_page F (fold scroll_cell [80..<2000] bs) s)"
proof -
  have n: "25 * 80 = (2000 :: nat)" by simp
  show ?thesis unfolding scroll_def n
  proof (rule for_each_page)
    fix i and bs :: "u8 list"
    assume i: "i \<in> set [80..<2000]" and len: "length bs = 4096"
    have a: "push_bit 1 (of_nat (i - 80)) = (of_nat (2 * (i - 80)) :: u32)" by (rule cell_address)
    have lt: "2 * i < 4096" "2 * (i - 80) < 4096" "i < 2000" using i by auto
    have "ld8 (with_page F bs s) (VIDEO + of_nat (2 * i)) = Some (bs ! (2 * i))"
      "st8 (VIDEO + of_nat (2 * (i - 80))) (bs ! (2 * i)) (with_page F bs s) =
        Some (with_page F (bs[2 * (i - 80) := bs ! (2 * i)]) s)"
      using lt len assms(1) by (simp_all only: page_ld8 page_st8)
    moreover have "store_cell (of_nat i) 32 (with_page F (bs[2 * (i - 80) := bs ! (2 * i)]) s) =
        Some (with_page F (put_cell 32 i (bs[2 * (i - 80) := bs ! (2 * i)])) s)"
      using lt(3) len assms(1) by (intro page_store_cell) simp_all
    ultimately show "(do {
         c \<leftarrow> ld8 (with_page F bs s) (VIDEO + push_bit 1 (of_nat i));
         s \<leftarrow> st8 (VIDEO + push_bit 1 (of_nat (i - 80))) c (with_page F bs s);
         if i > 2000 - 80 - 1 then store_cell (of_nat i) (of_char (CHR '' '')) s else Some s
       }) = Some (with_page F (scroll_cell i bs) s) \<and> length (scroll_cell i bs) = 4096"
      unfolding a cell_address [of i] using len
      by (simp add: scroll_cell_def Let_def del: of_nat_mult of_nat_diff)
  qed (use assms in simp_all)
qed

section \<open>The screen of a terminal\<close>

text \<open>The 2000 characters of a page; attributes are not looked at.\<close>

definition glyphs :: "u8 list \<Rightarrow> u8 list" where
  "glyphs bs = map (\<lambda>i. bs ! (2 * i)) [0..<2000]"

lemma length_glyphs [simp]: "length (glyphs bs) = 2000"
  by (simp add: glyphs_def)

lemma glyphs_nth [simp]: "i < 2000 \<Longrightarrow> glyphs bs ! i = bs ! (2 * i)"
  by (simp add: glyphs_def)

lemma put_cell_nth: "length bs = 4096 \<Longrightarrow> i < 2000 \<Longrightarrow> j < 2000 \<Longrightarrow>
    put_cell c i bs ! (2 * j) = (if j = i then c else bs ! (2 * j))"
  by (auto simp: put_cell_def nth_list_update)

lemma glyphs_put_cell:
  "length bs = 4096 \<Longrightarrow> i < 2000 \<Longrightarrow> glyphs (put_cell c i bs) = (glyphs bs)[i := c]"
  by (rule nth_equalityI) (simp_all add: put_cell_nth nth_list_update)

lemma scroll_cell_nth:
  assumes "length bs = 4096" "80 \<le> i" "i < 2000" "j < 2000"
  shows "scroll_cell i bs ! (2 * j) =
    (if j = i - 80 then bs ! (2 * i) else if j = i \<and> 1919 < i then 32 else bs ! (2 * j))"
  using assms by (auto simp: scroll_cell_def Let_def put_cell_nth nth_list_update)

lemma scroll_cells_nth:
  "length bs = 4096 \<Longrightarrow> 80 \<le> n \<Longrightarrow> n \<le> 2000 \<Longrightarrow> j < 2000 \<Longrightarrow>
   fold scroll_cell [80..<n] bs ! (2 * j) =
     (if j < n - 80 then bs ! (2 * (j + 80))
      else if 1920 \<le> j \<and> j < n then 32 else bs ! (2 * j))"
proof (induction n arbitrary: j)
  case (Suc n)
  show ?case
  proof (cases "80 \<le> n")
    case False
    with Suc.prems have "n = 79" by simp
    then show ?thesis using Suc.prems by auto
  next
    case True
    have len: "length (fold scroll_cell [80..<n] bs) = 4096" using Suc.prems(1) by simp
    have "fold scroll_cell [80..<Suc n] bs = scroll_cell n (fold scroll_cell [80..<n] bs)"
      using True by simp
    moreover have "2 * (n - 80) + 160 = 2 * n" using True by simp
    ultimately show ?thesis
      using True Suc.prems Suc.IH [of n] Suc.IH [of j] scroll_cell_nth [OF len, of n j]
      by (auto simp del: fold_append)
  qed
qed simp

lemma glyphs_scroll:
  assumes "length bs = 4096"
  shows "glyphs (fold scroll_cell [80..<2000] bs) = drop 80 (glyphs bs) @ replicate 80 32"
proof (rule nth_equalityI)
  fix j assume "j < length (glyphs (fold scroll_cell [80..<2000] bs))"
  then have "j < 2000" by simp
  then show "glyphs (fold scroll_cell [80..<2000] bs) ! j = (drop 80 (glyphs bs) @ replicate 80 32) ! j"
    using scroll_cells_nth [OF assms, of 2000 j] by (simp add: nth_append add.commute)
qed simp

lemma glyphs_clear:
  assumes "length bs = 4096"
  shows "glyphs (fold (put_cell 32) [0..<2000] bs) = replicate 2000 32"
proof -
  have "n \<le> 2000 \<Longrightarrow> glyphs (fold (put_cell 32) [0..<n] bs) = replicate n 32 @ drop n (glyphs bs)" for n
  proof (induction n)
    case (Suc n)
    have len: "length (fold (put_cell 32) [0..<n] bs) = 4096" using assms by simp
    have "fold (put_cell 32) [0..<Suc n] bs = put_cell 32 n (fold (put_cell 32) [0..<n] bs)" by simp
    then have "glyphs (fold (put_cell 32) [0..<Suc n] bs) = (replicate n 32 @ drop n (glyphs bs))[n := 32]"
      using Suc glyphs_put_cell [OF len, of n] by simp
    also have "\<dots> = replicate (Suc n) 32 @ drop (Suc n) (glyphs bs)"
      using Suc.prems
      by (simp add: list_update_append Cons_nth_drop_Suc [symmetric] replicate_append_same
          del: append_Cons flip: append_Cons)
    finally show ?case .
  qed simp
  from this [of 2000] show ?thesis by simp
qed

text \<open>Typing on an abstract screen: its characters, row by row, and the cursor.\<close>

type_synonym console = "u8 list \<times> nat \<times> nat"

definition newline :: "console \<Rightarrow> console" where
  "newline = (\<lambda>(g, x, y). if y = 24 then (drop 80 g @ replicate 80 32, 0, 24) else (g, 0, Suc y))"

definition type_char :: "u8 \<Rightarrow> console \<Rightarrow> console" where
  "type_char c = (\<lambda>(g, x, y).
     if c = 10 \<or> c = 13 then newline (g, x, y)
     else if x = 79 then newline (g[80 * y + x := c], x, y)
     else (g[80 * y + x := c], Suc x, y))"

definition on_screen :: "console \<Rightarrow> bool" where
  "on_screen = (\<lambda>(g, x, y). length g = 2000 \<and> x < 80 \<and> y < 25)"

lemma type_char_on_screen: "on_screen con \<Longrightarrow> on_screen (type_char c con)"
  by (auto simp: on_screen_def type_char_def newline_def split: prod.splits)

text \<open>Where terminal \<open>t\<close> is drawn, and that it holds a given screen.\<close>

definition frame_for :: "'a tty_state_scheme \<Rightarrow> nat \<Rightarrow> u32" where
  "frame_for s t = (if t = unat (cur_term_num s) then VIM_MEM_INDEX
     else VIM_MEM_INDEX + of_nat (t + 1) * FOUR_KB)"

definition console :: "'a tty_state_scheme \<Rightarrow> nat \<Rightarrow> console \<Rightarrow> bool" where
  "console s t = (\<lambda>(g, x, y).
     video_ok s \<and> t < 3 \<and> length (term_cursor_x s) = 3 \<and> length (term_cursor_y s) = 3 \<and>
     term_cursor_x s ! t = of_nat x \<and> term_cursor_y s ! t = of_nat y \<and> x < 80 \<and> y < 25 \<and>
     glyphs (page_bytes s (frame_for s t)) = g)"

text \<open>
  \<open>elsewhere t s s'\<close>: between \<open>s\<close> and \<open>s'\<close> nothing changed but the screen and cursor of
  terminal \<open>t\<close>, the page shown in the window, the screen coordinates and, of the ports, those
  of the hardware cursor.
\<close>

definition elsewhere :: "nat \<Rightarrow> 'a tty_state_scheme \<Rightarrow> 'a tty_state_scheme \<Rightarrow> bool" where
  "elsewhere t s s' \<longleftrightarrow>
     s' = s\<lparr>phys := phys s', page_table_vid := (page_table_vid s)(0 := page_table_vid s' 0),
       io := io s', screen_x := screen_x s', screen_y := screen_y s',
       term_cursor_x := term_cursor_x s', term_cursor_y := term_cursor_y s'\<rparr> \<and>
     (\<forall>a. \<not> unat (a - frame_for s t) < 4096 \<longrightarrow> phys s' a = phys s a) \<and>
     (\<forall>u. u \<noteq> t \<longrightarrow> term_cursor_x s' ! u = term_cursor_x s ! u \<and>
       term_cursor_y s' ! u = term_cursor_y s ! u) \<and>
     (\<forall>p. p \<noteq> 0x3D4 \<longrightarrow> p \<noteq> 0x3D5 \<longrightarrow> last_out p (io s') = last_out p (io s))"

section \<open>Typing a character\<close>

lemma with_page_screen [simp]:
  "(with_page F bs s)\<lparr>screen_x := u\<rparr> = with_page F bs (s\<lparr>screen_x := u\<rparr>)"
  "(with_page F bs s)\<lparr>screen_y := v\<rparr> = with_page F bs (s\<lparr>screen_y := v\<rparr>)"
  "screen_x (with_page F bs s) = screen_x s" "screen_y (with_page F bs s) = screen_y s"
  by (simp_all add: with_page_def cong: if_cong)

lemma screen_swap [simp]:
  "s\<lparr>screen_y := v, screen_x := u\<rparr> = (s :: 'a tty_state_scheme)\<lparr>screen_x := u, screen_y := v\<rparr>"
  by simp

lemma displays_screen [simp]:
  "displays (s\<lparr>screen_x := u\<rparr>) F = displays s F" "displays (s\<lparr>screen_y := v\<rparr>) F = displays s F"
  by (simp_all add: displays_def video_ok_def linked_def)

lemma putc_newline_page:
  assumes "displays s F" "length bs = 4096" "screen_y s = of_nat y" "y < 25"
  shows "\<exists>bs' x' y'. putc_newline (with_page F bs s) =
      Some (with_page F bs' (s\<lparr>screen_x := of_nat x', screen_y := of_nat y'\<rparr>)) \<and>
    length bs' = 4096 \<and> (glyphs bs', x', y') = newline (glyphs bs, x, y)"
proof (cases "y = 24")
  case True
  have eta: "s\<lparr>screen_x := of_nat 0, screen_y := of_nat 24\<rparr> = s\<lparr>screen_x := 0\<rparr>"
    using assms(3) True by (intro tty_state.equality) simp_all
  have "putc_newline (with_page F bs s) = Some (with_page F (fold scroll_cell [80..<2000] bs)
      (s\<lparr>screen_x := of_nat 0, screen_y := of_nat 24\<rparr>))"
    unfolding eta using assms(3) True page_scroll [OF assms(1,2)] by (simp add: putc_newline_def)
  moreover have "(glyphs (fold scroll_cell [80..<2000] bs), 0, 24) = newline (glyphs bs, x, y)"
    using True glyphs_scroll [OF assms(2)] by (simp add: newline_def)
  ultimately show ?thesis using assms(2) by (metis length_fold length_scroll_cell)
next
  case False
  have "screen_y s \<noteq> 24"
    using assms(3,4) False of_nat_eq_u32_iff [of y 24] by simp
  then have "putc_newline (with_page F bs s) =
      Some (with_page F bs (s\<lparr>screen_x := of_nat 0, screen_y := of_nat (Suc y)\<rparr>))"
    using assms(3) by (simp add: putc_newline_def add.commute)
  moreover have "(glyphs bs, 0, Suc y) = newline (glyphs bs, x, y)"
    using False by (simp add: newline_def)
  ultimately show ?thesis using assms(2) by metis
qed

lemma putc_glyph_page:
  assumes s: "displays s F" "length bs = 4096" and xy: "screen_x s = of_nat x" "screen_y s = of_nat y"
    "x < 80" "y < 25" and c: "c \<noteq> 10" "c \<noteq> 13"
  shows "\<exists>bs' x' y'. putc_glyph c (with_page F bs s) =
      Some (with_page F bs' (s\<lparr>screen_x := of_nat x', screen_y := of_nat y'\<rparr>)) \<and>
    length bs' = 4096 \<and> (glyphs bs', x', y') = type_char c (glyphs bs, x, y)"
proof -
  let ?bs = "put_cell c (80 * y + x) bs"
  have i: "80 * y + x < 2000" using xy by simp
  have pos: "80 * screen_y s + screen_x s = of_nat (80 * y + x)" using xy by simp
  have cell: "store_cell (80 * screen_y s + screen_x s) c (with_page F bs s) = Some (with_page F ?bs s)"
    unfolding pos using s i by (intro page_store_cell) simp_all
  have len: "length ?bs = 4096" using s by simp
  have g: "glyphs ?bs = (glyphs bs)[80 * y + x := c]" using s i by (simp add: glyphs_put_cell)
  have x1: "screen_x s + 1 = of_nat (Suc x)" using xy by simp
  have lt: "(79 <s screen_x s + 1) = (x = 79)"
    using of_nat_sless_iff [of 79 "Suc x"] xy unfolding x1 by auto
  show ?thesis
  proof (cases "x = 79")
    case False
    then have "int_mod (screen_x s + 1) 80 = screen_x s + 1" "int_div (screen_x s + 1) 80 = 0"
      unfolding x1 using int_mod_of_nat [of "Suc x" 80] int_div_of_nat [of "Suc x" 80] xy
      by simp_all
    moreover have "\<not> 24 <s screen_y s"
      using of_nat_sless_iff [of 24 y] xy by simp
    ultimately have "putc_glyph c (with_page F bs s) =
        Some (with_page F ?bs (s\<lparr>screen_x := of_nat (Suc x), screen_y := of_nat y\<rparr>))"
      unfolding x1 [symmetric] xy(2) [symmetric] using cell lt False
      by (simp add: putc_glyph_def Let_def)
    moreover have "(glyphs ?bs, Suc x, y) = type_char c (glyphs bs, x, y)"
      using g False c by (simp add: type_char_def)
    ultimately show ?thesis using len by metis
  next
    case True
    have m: "int_mod (screen_x s + 1) 80 = 0" "int_div 0 80 = 0"
      unfolding x1 using True int_mod_of_nat [of 80 80] int_div_of_nat [of 0 80] by simp_all
    have y1: "screen_y s + 1 = of_nat (Suc y)" using xy by simp
    have y24: "(24 <s screen_y s + 1) = (y = 24)"
      using of_nat_sless_iff [of 24 "Suc y"] xy unfolding y1 by auto
    show ?thesis
    proof (cases "y = 24")
      case y: True
      let ?bs' = "fold scroll_cell [80..<2000] ?bs"
      have "scroll (with_page F ?bs (s\<lparr>screen_x := 0, screen_y := screen_y s + 1\<rparr>)) =
          Some (with_page F ?bs' (s\<lparr>screen_x := 0, screen_y := screen_y s + 1\<rparr>))"
        using s len by (intro page_scroll) simp_all
      then have "putc_glyph c (with_page F bs s) =
          Some (with_page F ?bs' (s\<lparr>screen_x := of_nat 0, screen_y := of_nat 24\<rparr>))"
        using cell lt True m y24 y by (simp add: putc_glyph_def Let_def)
      moreover have "(glyphs ?bs', 0, 24) = type_char c (glyphs bs, x, y)"
        using True y c glyphs_scroll [OF len] g by (simp add: type_char_def newline_def)
      ultimately show ?thesis using len by (metis length_fold length_scroll_cell)
    next
      case False
      then have "putc_glyph c (with_page F bs s) =
          Some (with_page F ?bs (s\<lparr>screen_x := of_nat 0, screen_y := of_nat (Suc y)\<rparr>))"
        using cell lt True m y24 xy(2) by (simp add: putc_glyph_def Let_def add.commute)
      moreover have "(glyphs ?bs, 0, Suc y) = type_char c (glyphs bs, x, y)"
        using True False c g by (simp add: type_char_def newline_def)
      ultimately show ?thesis using len by metis
    qed
  qed
qed

lemma frame_for_aligned: "take_bit 12 (frame_for s t) = 0"
proof -
  have "VIM_MEM_INDEX + of_nat (t + 1) * FOUR_KB = of_nat (0xB8 + t + 1) * FOUR_KB"
    by (simp add: algebra_simps)
  then show ?thesis
    using page_aligned [of "0xB8 + t + 1"] page_aligned [of "0xB8"] by (simp add: frame_for_def)
qed

lemma cursor_check_eq:
  assumes c: "console s t (g, x, y)" and t: "unat (term_in_service s) = t"
  shows "cursor_check s = Some (if t = unat (cur_term_num s) then 1 else 0,
    s\<lparr>screen_x := of_nat x, screen_y := of_nat y,
      page_table_vid := (page_table_vid s)(0 := frame_for s t OR 7)\<rparr>)"
proof -
  have u: "unat (ucast (term_in_service s) :: u32) = t" using t by simp
  have w: "(ucast (term_in_service s) :: u32) = of_nat t" using t by auto
  have eq: "((ucast (term_in_service s) :: u32) = ucast (cur_term_num s)) = (t = unat (cur_term_num s))"
    using t unat_eqD [of "term_in_service s" "cur_term_num s"] by auto
  show ?thesis
    using c u unfolding eq
    by (auto simp: cursor_check_def get_term_cursor_x_def get_term_cursor_y_def set_screen_coords_def
        console_def frame_for_def Let_def w or.assoc)
qed

lemma write_cursor_io:
  "\<exists>l. write_cursor pos s = s\<lparr>io := l\<rparr> \<and>
     (\<forall>p. p \<noteq> 0x3D4 \<longrightarrow> p \<noteq> 0x3D5 \<longrightarrow> last_out p l = last_out p (io s))"
  by (auto simp: write_cursor_def outb_def Let_def)

lemma displays_cursor_check:
  "video_ok s \<Longrightarrow> take_bit 12 F = 0 \<Longrightarrow>
     displays (s\<lparr>screen_x := u, screen_y := v, page_table_vid := (page_table_vid s)(0 := F OR 7)\<rparr>) F"
  by (subst displays_paged) (simp_all add: video_ok_def linked_def)

text \<open>
  \<open>putc\<close> on the page \<open>F\<close> that the window shows once \<open>cursor_check\<close> has set its entry to \<open>w\<close>.
\<close>

definition drawn_on :: "nat \<Rightarrow> u32 \<Rightarrow> u32 \<Rightarrow> console \<Rightarrow> 'a tty_state_scheme \<Rightarrow> 'a tty_state_scheme \<Rightarrow> bool" where
  "drawn_on t w F = (\<lambda>(g, x, y) s s'.
     s' = s\<lparr>phys := phys s', page_table_vid := (page_table_vid s)(0 := w), io := io s',
       screen_x := screen_x s', screen_y := screen_y s',
       term_cursor_x := (term_cursor_x s)[t := of_nat x], term_cursor_y := (term_cursor_y s)[t := of_nat y]\<rparr> \<and>
     glyphs (page_bytes s' F) = g \<and> x < 80 \<and> y < 25 \<and>
     (\<forall>a. \<not> unat (a - F) < 4096 \<longrightarrow> phys s' a = phys s a) \<and>
     (\<forall>p. p \<noteq> 0x3D4 \<longrightarrow> p \<noteq> 0x3D5 \<longrightarrow> last_out p (io s') = last_out p (io s)))"

lemma putc_on_page:
  fixes s :: "'a tty_state_scheme"
  defines "s1 x y w \<equiv> s\<lparr>screen_x := of_nat x, screen_y := of_nat y, page_table_vid := (page_table_vid s)(0 := w)\<rparr>"
  assumes cc: "cursor_check s = Some (flag, s1 x y w)" and d: "displays (s1 x y w) F"
    and t: "unat (term_in_service s) = t" "t < length (term_cursor_x s)" "t < length (term_cursor_y s)"
    and xy: "x < 80" "y < 25"
  shows "\<exists>s'. putc ch s = Some s' \<and> drawn_on t w F (type_char ch (glyphs (page_bytes s F), x, y)) s s'"
proof -
  let ?s1 = "s1 x y w"
  define bs where "bs = page_bytes s F"
  have s1: "?s1 = with_page F bs ?s1"
    using with_page_self [of F ?s1] by (simp add: s1_def bs_def page_bytes_def)
  have xy1: "screen_x ?s1 = of_nat x" "screen_y ?s1 = of_nat y" by (simp_all add: s1_def)
  have len: "length bs = 4096" by (simp add: bs_def)
  obtain bs' x' y' where body: "(if ch = of_char (CHR ''\<newline>'') \<or> ch = 13 then putc_newline ?s1 else putc_glyph ch ?s1) =
      Some (with_page F bs' (?s1\<lparr>screen_x := of_nat x', screen_y := of_nat y'\<rparr>))"
    and bs': "length bs' = 4096" "(glyphs bs', x', y') = type_char ch (glyphs bs, x, y)"
  proof (cases "ch = 10 \<or> ch = 13")
    case True
    then show thesis
      using that putc_newline_page [OF d len xy1(2) xy(2), of x] s1 by (auto simp: type_char_def)
  next
    case False
    then show thesis using that putc_glyph_page [OF d len xy1 xy, of ch] s1 by auto
  qed
  let ?s2 = "with_page F bs' (?s1\<lparr>screen_x := of_nat x', screen_y := of_nat y'\<rparr>)"
  obtain l where l: "(if flag = 1 then write_cursor (screen_y ?s2 * 80 + screen_x ?s2) ?s2 else ?s2) = ?s2\<lparr>io := l\<rparr>"
    and lp: "\<forall>p. p \<noteq> 0x3D4 \<longrightarrow> p \<noteq> 0x3D5 \<longrightarrow> last_out p l = last_out p (io ?s2)"
    using write_cursor_io [of "screen_y ?s2 * 80 + screen_x ?s2" ?s2] by (cases "flag = 1") (auto intro: that [of "io ?s2"])
  let ?s' = "?s2\<lparr>io := l, term_cursor_x := (term_cursor_x s)[t := of_nat x'],
    term_cursor_y := (term_cursor_y s)[t := of_nat y']\<rparr>"
  have u: "unat (ucast (term_in_service s) :: u32) = t" using t(1) by simp
  have upd: "term_cursor_update (?s2\<lparr>io := l\<rparr>) = Some ?s'"
    using t(2,3) u by (simp add: term_cursor_update_def set_term_cursor_x_def set_term_cursor_y_def
        s1_def with_page_def Let_def)
  have "putc ch s = Some ?s'"
    by (simp only: putc_def cc Option.bind.bind_lunit prod.case body Let_def l upd)
  moreover have "on_screen (glyphs bs', x', y')"
    unfolding bs'(2) using xy by (intro type_char_on_screen) (simp add: on_screen_def)
  then have "x' < 80" "y' < 25" by (simp_all add: on_screen_def)
  moreover have "page_bytes ?s' F = bs'"
    using page_bytes_with_page [OF bs'(1), of F "?s1\<lparr>screen_x := of_nat x', screen_y := of_nat y'\<rparr>"]
    by (simp add: page_bytes_def)
  ultimately have "drawn_on t w F (glyphs bs', x', y') s ?s'"
    using lp by (simp add: drawn_on_def s1_def with_page_def)
  then show ?thesis using \<open>putc ch s = Some ?s'\<close> by (auto simp: bs' bs_def)
qed

lemma putc_console:
  assumes c: "console s t con" and t: "unat (term_in_service s) = t"
  shows "\<exists>s'. putc ch s = Some s' \<and> console s' t (type_char ch con) \<and> elsewhere t s s'"
proof -
  obtain g x y where con: "con = (g, x, y)" by (cases con)
  let ?F = "frame_for s t"
  have cs: "video_ok s" "t < 3" "length (term_cursor_x s) = 3" "length (term_cursor_y s) = 3"
    "x < 80" "y < 25" "glyphs (page_bytes s ?F) = g"
    using c by (simp_all add: console_def con)
  obtain s' where s': "putc ch s = Some s'" "drawn_on t (?F OR 7) ?F (type_char ch con) s s'"
    using putc_on_page [OF cursor_check_eq [OF c [unfolded con] t] displays_cursor_check [OF cs(1) frame_for_aligned] t, of ch] cs
    by (auto simp: con)
  obtain g' x' y' where con': "type_char ch con = (g', x', y')" by (cases "type_char ch con")
  have e: "s' = s\<lparr>phys := phys s', page_table_vid := (page_table_vid s)(0 := ?F OR 7), io := io s',
       screen_x := screen_x s', screen_y := screen_y s',
       term_cursor_x := (term_cursor_x s)[t := of_nat x'], term_cursor_y := (term_cursor_y s)[t := of_nat y']\<rparr>"
    using s'(2) by (simp only: drawn_on_def con' prod.case)
  have f: "frame_for s' t = ?F" by (subst e) (simp add: frame_for_def)
  have k: "term_cursor_x s' = (term_cursor_x s)[t := of_nat x']" "term_cursor_y s' = (term_cursor_y s)[t := of_nat y']"
    "page_table_vid s' = (page_table_vid s)(0 := ?F OR 7)"
    by (subst e, simp)+
  have "video_ok s'" by (subst e) (use cs(1) in \<open>simp add: video_ok_def linked_def\<close>)
  then have "console s' t (type_char ch con)"
    using s'(2) cs f k by (simp add: console_def con' drawn_on_def)
  moreover have "elsewhere t s s'"
  proof -
    have "s' = s\<lparr>phys := phys s', page_table_vid := (page_table_vid s)(0 := page_table_vid s' 0), io := io s',
       screen_x := screen_x s', screen_y := screen_y s', term_cursor_x := term_cursor_x s', term_cursor_y := term_cursor_y s'\<rparr>"
      unfolding k by (subst e) simp
    then show ?thesis using s'(2) k(1,2) by (simp add: elsewhere_def drawn_on_def con')
  qed
  ultimately show ?thesis using s'(1) by blast
qed

section \<open>What typing leaves alone\<close>

lemma elsewhere_refl: "elsewhere t s s"
  by (simp add: elsewhere_def)

lemma elsewhere_sel:
  assumes "elsewhere t s s'"
  shows "term_in_service s' = term_in_service s" "cur_term_num s' = cur_term_num s"
    "paging s' = paging s" "page_directory s' = page_directory s" "page_table s' = page_table s"
    "page_table_at s' = page_table_at s" "page_table_vid_at s' = page_table_vid_at s"
    "tty_state.more s' = tty_state.more s" "frame_for s' t = frame_for s t"
proof -
  have e: "s' = s\<lparr>phys := phys s', page_table_vid := (page_table_vid s)(0 := page_table_vid s' 0),
       io := io s', screen_x := screen_x s', screen_y := screen_y s',
       term_cursor_x := term_cursor_x s', term_cursor_y := term_cursor_y s'\<rparr>"
    using assms by (simp only: elsewhere_def)
  show "term_in_service s' = term_in_service s" by (subst e) simp
  show c: "cur_term_num s' = cur_term_num s" by (subst e) simp
  show "paging s' = paging s" by (subst e) simp
  show "page_directory s' = page_directory s" by (subst e) simp
  show "page_table s' = page_table s" by (subst e) simp
  show "page_table_at s' = page_table_at s" by (subst e) simp
  show "page_table_vid_at s' = page_table_vid_at s" by (subst e) simp
  show "tty_state.more s' = tty_state.more s" by (subst e) simp
  show "frame_for s' t = frame_for s t" by (simp add: frame_for_def c)
qed

lemma elsewhere_trans:
  assumes 1: "elsewhere t s s1" and 2: "elsewhere t s1 s2"
  shows "elsewhere t s s2"
proof -
  have e1: "s1 = s\<lparr>phys := phys s1, page_table_vid := (page_table_vid s)(0 := page_table_vid s1 0),
       io := io s1, screen_x := screen_x s1, screen_y := screen_y s1,
       term_cursor_x := term_cursor_x s1, term_cursor_y := term_cursor_y s1\<rparr>"
    using 1 by (simp only: elsewhere_def)
  have e2: "s2 = s1\<lparr>phys := phys s2, page_table_vid := (page_table_vid s1)(0 := page_table_vid s2 0),
       io := io s2, screen_x := screen_x s2, screen_y := screen_y s2,
       term_cursor_x := term_cursor_x s2, term_cursor_y := term_cursor_y s2\<rparr>"
    using 2 by (simp only: elsewhere_def)
  have v: "(page_table_vid s1)(0 := w) = (page_table_vid s)(0 := w)" for w
    by (subst e1) simp
  have "s2 = s\<lparr>phys := phys s2, page_table_vid := (page_table_vid s)(0 := page_table_vid s2 0),
       io := io s2, screen_x := screen_x s2, screen_y := screen_y s2,
       term_cursor_x := term_cursor_x s2, term_cursor_y := term_cursor_y s2\<rparr>"
    by (subst e2, subst e1) (simp add: v)
  then show ?thesis
    using 1 2 elsewhere_sel(9) [OF 1] by (simp add: elsewhere_def)
qed

text \<open>The pages of different terminals do not meet, so their screens stay.\<close>

definition slot_of :: "'a tty_state_scheme \<Rightarrow> nat \<Rightarrow> nat" where
  "slot_of s t = (if t = unat (cur_term_num s) then 0 else t + 1)"

lemma frame_for_slot: "frame_for s t = of_nat ((0xB8 + slot_of s t) * 4096)"
  by (simp add: frame_for_def slot_of_def algebra_simps)

lemma frames_apart:
  assumes "t < 3" "u < 3" "u \<noteq> t" "k < 4096"
  shows "\<not> unat (frame_for s u + of_nat k - frame_for s t) < 4096"
proof
  let ?d = "frame_for s u + of_nat k - frame_for s t"
  assume d: "unat ?d < 4096"
  have "frame_for s u + of_nat k = frame_for s t + of_nat (unat ?d)" by simp
  then have "(of_nat ((0xB8 + slot_of s u) * 4096 + k) :: u32) =
      of_nat ((0xB8 + slot_of s t) * 4096 + unat ?d)"
    unfolding frame_for_slot by (simp only: of_nat_add)
  moreover have slots: "slot_of s u < 4" "slot_of s t < 4" "slot_of s u \<noteq> slot_of s t"
    using assms(1-3) by (simp_all add: slot_of_def)
  ultimately have "(0xB8 + slot_of s u) * 4096 + k = (0xB8 + slot_of s t) * 4096 + unat ?d"
    using assms(4) d by (subst (asm) of_nat_eq_u32_iff) simp_all
  then have "((0xB8 + slot_of s u) * 4096 + k) div 4096 =
      ((0xB8 + slot_of s t) * 4096 + unat ?d) div 4096"
    by (rule arg_cong)
  moreover have "(q * 4096 + r) div 4096 = q" if "r < 4096" for q r :: nat using that by simp
  ultimately have "0xB8 + slot_of s u = 0xB8 + slot_of s t" using assms(4) d by metis
  then show False using slots(3) by simp
qed

lemma console_elsewhere:
  assumes e: "elsewhere t s s'" and c: "console s u con" and t: "console s' t con'" and u: "u \<noteq> t"
  shows "console s' u con"
proof -
  obtain g x y where con: "con = (g, x, y)" by (cases con)
  have "t < 3" "u < 3" using c t by (auto simp: console_def split: prod.splits)
  have f: "frame_for s' u = frame_for s u" using elsewhere_sel(2) [OF e] by (simp add: frame_for_def)
  have "page_bytes s' (frame_for s u) = page_bytes s (frame_for s u)"
    using e frames_apart [OF \<open>t < 3\<close> \<open>u < 3\<close> u, of _ s] by (simp add: page_bytes_def elsewhere_def)
  then show ?thesis
    using c t u f e unfolding con by (auto simp: console_def elsewhere_def split: prod.splits)
qed

section \<open>Runs of characters\<close>

text \<open>
  The interface of everything that prints: \<open>putc\<close> types a character on the screen that \<open>screen s\<close>
  describes, and changes nothing else but what the frame allows, among it not the memory that the
  conversions of \<open>printf\<close> use.
\<close>

locale typing = effect frame
  for frame :: "'a tty_state_scheme \<Rightarrow> 'a tty_state_scheme \<Rightarrow> bool" +
  fixes screen :: "'a tty_state_scheme \<Rightarrow> console \<Rightarrow> bool"
  assumes putc_screen: "screen s con \<Longrightarrow> \<exists>s'. putc ch s = Some s' \<and> screen s' (type_char ch con) \<and> frame s s'"
    and frame_junk: "frame s s' \<Longrightarrow> stack_junk s' = stack_junk s"
begin

lemma run_types:
  "screen s con \<Longrightarrow> (\<And>s' i. frame s s' \<Longrightarrow> i < length cs \<Longrightarrow> rd s' (a + of_nat i) = Some (cs ! i)) \<Longrightarrow>
     \<exists>s'. for_each (\<lambda>i s. do { c \<leftarrow> rd s (a + of_nat i); putc c s }) [0..<length cs] s = Some s' \<and>
       screen s' (fold type_char cs con) \<and> frame s s'"
proof (induction cs rule: rev_induct)
  case Nil
  then show ?case by (simp add: eff_refl)
next
  case (snoc c cs)
  have "\<exists>s'. for_each (\<lambda>i s. do { c \<leftarrow> rd s (a + of_nat i); putc c s }) [0..<length cs] s = Some s' \<and>
      screen s' (fold type_char cs con) \<and> frame s s'"
    using snoc.prems(2) by (intro snoc.IH snoc.prems(1)) (fastforce simp: nth_append)
  then obtain s1 where s1: "for_each (\<lambda>i s. do { c \<leftarrow> rd s (a + of_nat i); putc c s }) [0..<length cs] s = Some s1"
    "screen s1 (fold type_char cs con)" "frame s s1"
    by blast
  obtain s2 where s2: "putc c s1 = Some s2" "screen s2 (type_char c (fold type_char cs con))" "frame s1 s2"
    using putc_screen [OF s1(2)] by blast
  have "rd s1 (a + of_nat (length cs)) = Some c" using snoc.prems(2) [OF s1(3), of "length cs"] by simp
  then show ?case
    using s1 s2 eff_trans [OF s1(3) s2(3)] by (simp add: for_each_append)
qed

lemma puts_from_types:
  "screen s con \<Longrightarrow> (\<And>s'. frame s s' \<Longrightarrow> cstr_at (rd s') (a + i) cs) \<Longrightarrow>
     \<exists>s'. puts_from rd a i s = Some (i + of_nat (length cs), s') \<and> screen s' (fold type_char cs con) \<and> frame s s'"
proof (induction cs arbitrary: i s con)
  case Nil
  then have "rd s (a + i) = Some 0" using eff_refl [of s] by (simp add: cstr_at_Nil)
  with Nil show ?case by (subst puts_from.simps) (simp add: eff_refl)
next
  case (Cons c cs)
  have c: "rd s (a + i) = Some c" "c \<noteq> 0"
    using Cons.prems(2) [OF eff_refl] by (simp_all add: cstr_at_Cons)
  obtain s1 where s1: "putc c s = Some s1" "screen s1 (type_char c con)" "frame s s1"
    using putc_screen [OF Cons.prems(1)] by blast
  have "cstr_at (rd s') (a + (i + 1)) cs" if "frame s1 s'" for s'
    using Cons.prems(2) [OF eff_trans [OF s1(3) that]] by (simp add: cstr_at_Cons add.assoc)
  then obtain s2 where s2: "puts_from rd a (i + 1) s1 = Some (i + 1 + of_nat (length cs), s2)"
    "screen s2 (fold type_char cs (type_char c con))" "frame s1 s2"
    using Cons.IH [OF s1(2)] by blast
  then show ?case
    using c s1 eff_trans [OF s1(3) s2(3)] by (subst puts_from.simps) (simp add: add.assoc)
qed

lemma puts_types:
  assumes "screen s con" and "\<And>s'. frame s s' \<Longrightarrow> cstr_at (rd s') a cs"
  shows "\<exists>s'. puts rd a s = Some (of_nat (length cs), s') \<and> screen s' (fold type_char cs con) \<and> frame s s'"
  using puts_from_types [of s con rd a 0 cs] assms by (simp add: puts_def)

lemma puts_lit_types:
  assumes "screen s con" "0 \<notin> set (chars str)" "length str < 2 ^ 31"
  shows "\<exists>s'. puts_lit str s = Some s' \<and> screen s' (fold type_char (chars str) con) \<and> frame s s'"
proof -
  have "bytes_at (ldo (chars str @ [0])) 0 (chars str @ [0])"
    using assms(3) by (intro obj_bytes_at) (simp add: chars_def)
  then have "cstr_at (ldo (chars str @ [0])) 0 (chars str)"
    using assms(2) by (simp add: cstr_at_def)
  then show ?thesis
    using puts_types [OF assms(1), of "\<lambda>_. ldo (chars str @ [0])" 0 "chars str"]
    by (auto simp: puts_lit_def)
qed

end

definition on_terminal :: "nat \<Rightarrow> 'a tty_state_scheme \<Rightarrow> console \<Rightarrow> bool" where
  "on_terminal t s con \<longleftrightarrow> console s t con \<and> unat (term_in_service s) = t"

interpretation screen: typing "elsewhere t" "on_terminal t" for t
proof
  fix s s' :: "'a tty_state_scheme" and con ch
  assume "on_terminal t s con"
  then have "unat (term_in_service s) = t" and "\<exists>s'. putc ch s = Some s' \<and> console s' t (type_char ch con) \<and> elsewhere t s s'"
    using putc_console [of s t con ch] by (simp_all add: on_terminal_def)
  then obtain s' where s': "putc ch s = Some s'" "console s' t (type_char ch con)" "elsewhere t s s'" by blast
  then show "\<exists>s'. putc ch s = Some s' \<and> on_terminal t s' (type_char ch con) \<and> elsewhere t s s'"
    using elsewhere_sel(1) [OF s'(3)] \<open>unat (term_in_service s) = t\<close> by (simp add: on_terminal_def)
next
  fix s s' :: "'a tty_state_scheme"
  assume "elsewhere t s s'"
  then have e: "s' = s\<lparr>phys := phys s', page_table_vid := (page_table_vid s)(0 := page_table_vid s' 0),
       io := io s', screen_x := screen_x s', screen_y := screen_y s',
       term_cursor_x := term_cursor_x s', term_cursor_y := term_cursor_y s'\<rparr>"
    by (simp only: elsewhere_def)
  show "stack_junk s' = stack_junk s" by (subst e) simp
qed (fact elsewhere_refl, fact elsewhere_trans)

lemmas putc_run = screen.run_types [unfolded on_terminal_def, OF conjI]
lemmas puts_console = screen.puts_types [unfolded on_terminal_def, OF conjI]
lemmas puts_lit_console = screen.puts_lit_types [unfolded on_terminal_def, OF conjI]

lemma clear_displayed:
  assumes "displays s F"
  shows "\<exists>s'. clear s = Some s' \<and> glyphs (page_bytes s' F) = replicate 2000 32 \<and>
    s' = s\<lparr>phys := phys s'\<rparr> \<and> (\<forall>a. \<not> unat (a - F) < 4096 \<longrightarrow> phys s' a = phys s a)"
proof -
  let ?bs = "fold (put_cell 32) [0..<2000] (page_bytes s F)"
  have "clear s = Some (with_page F ?bs s)"
    using page_clear [OF assms, of "page_bytes s F"] by (simp add: with_page_self)
  moreover have "glyphs (page_bytes (with_page F ?bs s) F) = replicate 2000 32"
    using page_bytes_with_page [of ?bs F s] glyphs_clear [of "page_bytes s F"] by simp
  ultimately show ?thesis by (simp add: with_page_def)
qed

section \<open>What the screen promises\<close>

definition demo_tty :: tty_state where
  "demo_tty = initialize_page
     \<lparr>phys = (\<lambda>_. 32), paging = False, page_directory = (\<lambda>_. 0), page_table = (\<lambda>_. 0),
      page_table_vid = (\<lambda>_. 0), page_table_at = 0x1000, page_table_vid_at = 0x2000,
      boot_block = 0x10000, dir_location = 0, stack_junk = replicate 64 0,
      io = [], device = (\<lambda>log p. last_out p log), int_flag = False,
      master_mask = 0, slave_mask = 0, master_connected = 0, slave_connected = 0,
      idt = (\<lambda>_. \<lparr>offset_15_00 = 0, seg_selector = 0, reserved4 = 0, reserved3 = False,
        reserved2 = False, reserved1 = False, gate_size = False, reserved0 = False, dpl = 0,
        present = False, offset_31_16 = 0\<rparr>), handler_at = (\<lambda>_. 0),
      screen_x = 0, screen_y = 0, cur_term_num = 0, term_in_service = 1, terminal_opened = 0,
      terminal_buf = replicate 128 0, buf_sent = 0, x_start_tw = 0, y_start_tw = 0,
      override_start = 0, term_cursor_x = [0, 79, 0], term_cursor_y = [0, 24, 0]\<rparr>"

lemma demo_tty_console:
  "console demo_tty 1 (replicate 2000 32, 79, 24)" "console demo_tty 0 (replicate 2000 32, 0, 0)"
  "unat (term_in_service demo_tty) = 1"
proof -
  have "phys demo_tty a = 32" for a by (simp add: demo_tty_def initialize_page_eq)
  then have "glyphs (page_bytes demo_tty F) = replicate 2000 32" for F
    by (intro nth_equalityI) (simp_all add: page_bytes_def)
  moreover have "video_ok demo_tty"
    unfolding demo_tty_def by (rule initialize_page_video_ok) (simp add: linked_def)
  ultimately show "console demo_tty 1 (replicate 2000 32, 79, 24)"
    "console demo_tty 0 (replicate 2000 32, 0, 0)"
    by (simp_all add: console_def) (simp_all add: demo_tty_def initialize_page_eq)
  show "unat (term_in_service demo_tty) = 1" by (simp add: demo_tty_def initialize_page_eq)
qed

text \<open>
  C12. \<open>putc\<close> types one character on the screen of the terminal in service: the character
  appears at the cursor, the cursor advances, wraps at column 80 and scrolls the 25 rows at the
  bottom; newline and return start a new row. The invariant of the screen is kept. This is so
  whether the terminal is displayed or drawn into its backing page, and \<open>putc\<close> always returns.
\<close>

theorem putc_types:
  assumes "console s (unat (term_in_service s)) con"
  shows "\<exists>s'. putc c s = Some s' \<and> console s' (unat (term_in_service s)) (type_char c con) \<and>
    term_in_service s' = term_in_service s \<and> cur_term_num s' = cur_term_num s"
  using putc_console [OF assms refl] elsewhere_sel(1,2) by blast

theorem putc_types_witness:
  "\<exists>s'. putc 65 demo_tty = Some s' \<and>
     console s' 1 (replicate 1919 32 @ [65] @ replicate 80 32, 0, 24)"
proof -
  have "drop 80 ((replicate 2000 32)[1999 := 65 :: u8]) @ replicate 80 32 =
      replicate 1919 32 @ [65] @ replicate 80 32"
    by (intro nth_equalityI) (auto simp: nth_append nth_list_update nth_Cons')
  then have "type_char 65 (replicate 2000 32, 79, 24) = (replicate 1919 32 @ [65] @ replicate 80 32, 0, 24)"
    by (simp add: type_char_def newline_def)
  then show ?thesis
    using putc_types [of demo_tty "(replicate 2000 32, 79, 24)" 65] demo_tty_console by auto
qed

text \<open>
  In the tables as \<open>putc\<close> leaves them: what is typed on the terminal in service changes no screen
  and cursor of another terminal and no memory outside the one page that shows the terminal. On
  the processor this needs a translation cache without a stale entry for the window, which
  \<open>cursor_check\<close> does not see to.
\<close>

theorem putc_isolated:
  assumes "console s (unat (term_in_service s)) con" "console s u con'"
    and "u \<noteq> unat (term_in_service s)"
  shows "\<exists>s'. putc c s = Some s' \<and> console s' u con' \<and>
    (\<forall>a. \<not> unat (a - frame_for s (unat (term_in_service s))) < 4096 \<longrightarrow> phys s' a = phys s a)"
proof -
  obtain s' where s': "putc c s = Some s'"
    "console s' (unat (term_in_service s)) (type_char c con)"
    "elsewhere (unat (term_in_service s)) s s'"
    using putc_console [OF assms(1) refl] by blast
  from s'(3) have "\<forall>a. \<not> unat (a - frame_for s (unat (term_in_service s))) < 4096 \<longrightarrow>
      phys s' a = phys s a"
    by (simp add: elsewhere_def)
  with s'(1) console_elsewhere [OF s'(3) assms(2) s'(2) assms(3)] show ?thesis by blast
qed

theorem putc_isolated_witness:
  "\<exists>s'. putc 65 demo_tty = Some s' \<and> console s' 0 (replicate 2000 32, 0, 0)"
  using putc_isolated [of demo_tty "(replicate 2000 32, 79, 24)" 0 "(replicate 2000 32, 0, 0)" 65]
    demo_tty_console by auto

text \<open>
  \<open>puts\<close> types a string, character by character, and answers its length, as long as the
  string does not lie in the page that is being drawn.
\<close>

theorem puts_prints:
  assumes "console s (unat (term_in_service s)) con"
    and "\<And>s'. elsewhere (unat (term_in_service s)) s s' \<Longrightarrow> cstr_at (rd s') a cs"
  shows "\<exists>s'. puts rd a s = Some (of_nat (length cs), s') \<and>
    console s' (unat (term_in_service s)) (fold type_char cs con)"
  using puts_console [OF assms(1) refl, of rd a cs] assms(2) by blast

theorem puts_prints_witness:
  "\<exists>s'. puts (\<lambda>_. ldo [104, 105, 0]) 0 demo_tty = Some (2, s') \<and>
     console s' 1 (fold type_char [104, 105] (replicate 2000 32, 79, 24))"
  using puts_prints [of demo_tty "(replicate 2000 32, 79, 24)" "\<lambda>_. ldo [104, 105, 0]" 0 "[104, 105]"]
    demo_tty_console obj_bytes_at [of "[104, 105, 0]"]
  by (simp add: cstr_at_def)

text \<open>
  \<open>clear\<close> blanks the 2000 characters of the page the window shows and nothing else.
\<close>

theorem clear_blanks:
  assumes "displays s F"
  shows "\<exists>s'. clear s = Some s' \<and> glyphs (page_bytes s' F) = replicate 2000 32 \<and>
    s' = s\<lparr>phys := phys s'\<rparr> \<and> (\<forall>a. \<not> unat (a - F) < 4096 \<longrightarrow> phys s' a = phys s a)"
  using assms by (rule clear_displayed)

theorem clear_blanks_witness:
  "\<exists>s'. clear demo_tty = Some s' \<and> glyphs (page_bytes s' VIM_MEM_INDEX) = replicate 2000 32"
proof -
  have "video_ok demo_tty"
    unfolding demo_tty_def by (rule initialize_page_video_ok) (simp add: linked_def)
  then have "displays demo_tty VIM_MEM_INDEX"
    by (simp add: displays_def) (simp add: demo_tty_def initialize_page_eq)
  from clear_blanks [OF this] show ?thesis by blast
qed

end
