(* ===== verification/Printf.thy ===== *)
theory Printf
  imports Console
begin

text \<open>
  \<open>printf\<close> of \<open>lib.c\<close>: the format is walked character by character, the arguments on the
  stack are a list of 32-bit values, and each conversion builds its text in a local array with
  \<open>itoa\<close> before it is put on the screen. As in the code, a \<open>%\<close> at the very end of the format
  steps over the terminator.
\<close>

section \<open>The conversions\<close>

partial_function (option) pad_zeros :: "i32 \<Rightarrow> u8 list \<Rightarrow> u8 list option" where
  "pad_zeros i conv_buf =
     (if i <s 8 then do {
        conv_buf \<leftarrow> sto i (of_char (CHR ''0'')) conv_buf;
        pad_zeros (i + 1) conv_buf
      }
      else Some conv_buf)"

definition conv_hex :: "bool \<Rightarrow> u32 \<Rightarrow> 'a tty_state_scheme \<Rightarrow> 'a tty_state_scheme option" where
  "conv_hex alternate v s =
     (let conv_buf = take 64 (stack_junk s)
      in if \<not> alternate then do {
        conv_buf \<leftarrow> itoa ldo sto v 0 16 conv_buf;
        (_, s) \<leftarrow> puts (\<lambda>_. ldo conv_buf) 0 s;
        Some s
      }
      else do {
        conv_buf \<leftarrow> itoa ldo sto v 8 16 conv_buf;
        starting_index \<leftarrow> strlen (ldo conv_buf) 8;
        conv_buf \<leftarrow> pad_zeros starting_index conv_buf;
        (_, s) \<leftarrow> puts (\<lambda>_. ldo conv_buf) starting_index s;
        Some s
      })"

definition conv_unsigned :: "u32 \<Rightarrow> 'a tty_state_scheme \<Rightarrow> 'a tty_state_scheme option" where
  "conv_unsigned v s = do {
     conv_buf \<leftarrow> itoa ldo sto v 0 10 (take 36 (stack_junk s));
     (_, s) \<leftarrow> puts (\<lambda>_. ldo conv_buf) 0 s;
     Some s
   }"

definition conv_signed :: "i32 \<Rightarrow> 'a tty_state_scheme \<Rightarrow> 'a tty_state_scheme option" where
  "conv_signed value s = do {
     let conv_buf = take 36 (stack_junk s);
     conv_buf \<leftarrow> (if value <s 0 then do {
         conv_buf \<leftarrow> sto 0 (of_char (CHR ''-'')) conv_buf;
         itoa ldo sto (- value) 1 10 conv_buf
       }
       else itoa ldo sto value 0 10 conv_buf);
     (_, s) \<leftarrow> puts (\<lambda>_. ldo conv_buf) 0 s;
     Some s
   }"

section \<open>The format\<close>

definition next_arg :: "u32 list \<Rightarrow> (u32 \<times> u32 list) option" where
  "next_arg esp = (case esp of [] \<Rightarrow> None | v # vs \<Rightarrow> Some (v, vs))"

text \<open>The inner \<open>switch\<close>, entered again by the \<open>goto\<close> after a \<open>#\<close>.\<close>

partial_function (option) format_char ::
  "('a tty_state_scheme \<Rightarrow> u32 \<Rightarrow> u8 option) \<Rightarrow> u32 \<Rightarrow> bool \<Rightarrow> u32 list \<Rightarrow> 'a tty_state_scheme \<Rightarrow>
   (u32 \<times> u32 list \<times> 'a tty_state_scheme) option"
where
  "format_char rd buf alternate esp s = do {
     c \<leftarrow> rd s buf;
     if c = of_char (CHR ''%'') then do {
       s \<leftarrow> putc (of_char (CHR ''%'')) s;
       Some (buf, esp, s)
     }
     else if c = of_char (CHR ''#'') then format_char rd (buf + 1) True esp s
     else if c = of_char (CHR ''x'') then do {
       (v, esp) \<leftarrow> next_arg esp;
       s \<leftarrow> conv_hex alternate v s;
       Some (buf, esp, s)
     }
     else if c = of_char (CHR ''u'') then do {
       (v, esp) \<leftarrow> next_arg esp;
       s \<leftarrow> conv_unsigned v s;
       Some (buf, esp, s)
     }
     else if c = of_char (CHR ''d'') then do {
       (v, esp) \<leftarrow> next_arg esp;
       s \<leftarrow> conv_signed v s;
       Some (buf, esp, s)
     }
     else if c = of_char (CHR ''c'') then do {
       (v, esp) \<leftarrow> next_arg esp;
       s \<leftarrow> putc (ucast v) s;
       Some (buf, esp, s)
     }
     else if c = of_char (CHR ''s'') then do {
       (v, esp) \<leftarrow> next_arg esp;
       (_, s) \<leftarrow> puts ld8 v s;
       Some (buf, esp, s)
     }
     else Some (buf, esp, s)
   }"

partial_function (option) printf_from ::
  "('a tty_state_scheme \<Rightarrow> u32 \<Rightarrow> u8 option) \<Rightarrow> u32 \<Rightarrow> u32 list \<Rightarrow> 'a tty_state_scheme \<Rightarrow>
   (u32 \<times> 'a tty_state_scheme) option"
where
  "printf_from rd buf esp s = do {
     c \<leftarrow> rd s buf;
     if c = 0 then Some (buf, s)
     else if c = of_char (CHR ''%'') then do {
       (buf, esp, s) \<leftarrow> format_char rd (buf + 1) False esp s;
       printf_from rd (buf + 1) esp s
     }
     else do {
       s \<leftarrow> putc c s;
       printf_from rd (buf + 1) esp s
     }
   }"

definition printf ::
  "('a tty_state_scheme \<Rightarrow> u32 \<Rightarrow> u8 option) \<Rightarrow> u32 \<Rightarrow> u32 list \<Rightarrow> 'a tty_state_scheme \<Rightarrow>
   (i32 \<times> 'a tty_state_scheme) option" where
  "printf rd format args s = do {
     (buf, s) \<leftarrow> printf_from rd format args s;
     Some (buf - format, s)
   }"

definition printf_lit :: "string \<Rightarrow> u32 list \<Rightarrow> 'a tty_state_scheme \<Rightarrow> 'a tty_state_scheme option" where
  "printf_lit str args s = do {
     (_, s) \<leftarrow> printf (\<lambda>_. ldo (chars str @ [0])) 0 args s;
     Some s
   }"

section \<open>What the conversions print\<close>

lemma pad_zeros_stored:
  "range_ok obj_cell xs 0 (length xs) \<Longrightarrow> 8 \<le> length xs \<Longrightarrow> k \<le> 8 \<Longrightarrow> length xs < 2 ^ 31 \<Longrightarrow>
     pad_zeros (of_nat k) xs = Some (take k xs @ replicate (8 - k) 48 @ drop 8 xs)"
proof (induction "8 - k" arbitrary: k xs)
  case 0
  then have "k = 8" by simp
  then show ?case by (subst pad_zeros.simps) (simp add: word_sless_alt)
next
  case (Suc n)
  then have k: "k < 8" by simp
  then have lt: "of_nat k <s (8 :: i32)" using of_nat_sless_iff [of k 8] by simp
  have st: "sto (of_nat k) 48 xs = Some (xs[k := 48])"
    using k Suc.prems(2) by (simp add: sto_def unat_of_nat_u32)
  have "pad_zeros (of_nat (Suc k)) (xs[k := 48]) =
      Some (take (Suc k) (xs[k := 48]) @ replicate (8 - Suc k) 48 @ drop 8 (xs[k := 48]))"
    using Suc.prems k by (intro Suc.hyps(1)) (use Suc.hyps(2) in \<open>simp_all add: obj_range_ok\<close>)
  moreover have "take (Suc k) (xs[k := 48]) = take k xs @ [48]"
    using k Suc.prems(2) by (simp add: take_Suc_conv_app_nth)
  moreover have "replicate (8 - k) (48 :: u8) = 48 # replicate (8 - Suc k) 48"
    using k by (metis Suc_diff_Suc replicate_Suc)
  ultimately show ?case
    using lt st k by (subst pad_zeros.simps) (simp add: add.commute)
qed

subsection \<open>The text of a conversion\<close>

definition hex_text :: "u32 \<Rightarrow> u8 list" where
  "hex_text v = map ((!) lookup_digits) (numeral_digits 16 (unat v))"

definition padded_hex_text :: "u32 \<Rightarrow> u8 list" where
  "padded_hex_text v = replicate (8 - length (hex_text v)) 48 @ hex_text v"

definition unsigned_text :: "u32 \<Rightarrow> u8 list" where
  "unsigned_text v = map ((!) lookup_digits) (numeral_digits 10 (unat v))"

definition signed_text :: "u32 \<Rightarrow> u8 list" where
  "signed_text v = (if v <s 0 then 45 # unsigned_text (- v) else unsigned_text v)"

lemma numeral_text_nonzero: "2 \<le> r \<Longrightarrow> r \<le> 36 \<Longrightarrow> 0 \<notin> set (map ((!) lookup_digits) (numeral_digits r n))"
  using numeral_digits(2) [of r _ n] zero_notin_lookup by (fastforce simp: numeral_digits_def)

lemma length_texts: "length (hex_text v) \<le> 8" "length (unsigned_text v) \<le> 10"
  using numeral_digits(5) [of 16 8 "unat v"] numeral_digits(5) [of 10 10 "unat v"] unat_u32_less [of v]
  by (simp_all add: hex_text_def unsigned_text_def)

text \<open>A numeral in a local array.\<close>

lemma local_itoa:
  fixes v :: u32
  assumes "2 \<le> unat radix" "unat radix \<le> 36" "a + 33 \<le> length xs" "length xs < 2 ^ 31"
  defines "cs \<equiv> map ((!) lookup_digits) (numeral_digits (unat radix) (unat v))"
  shows "\<exists>ys. itoa ldo sto v (of_nat a) radix xs = Some ys \<and> ys = take a xs @ cs @ [0] @ drop (a + Suc (length cs)) xs \<and>
    length cs < 33"
proof -
  have "range_ok obj_cell xs (0 + of_nat a) 33"
    by (rule range_ok_shift) (use obj_range_ok [of "a + 33" xs] assms(3,4) in simp)
  then obtain ys where ys: "itoa ldo sto v (of_nat a) radix xs = Some ys"
    "stored obj_cell ldo length xs (of_nat a) (cs @ [0]) ys"
    using obj.itoa_text [OF assms(1,2), of xs "of_nat a" v] by (auto simp: cs_def)
  have "2 ^ 32 \<le> unat radix ^ 32" using assms(1) by (rule power_mono) simp
  then have "length cs \<le> 32"
    using numeral_digits(5) [OF assms(1), of 32 "unat v"] unat_u32_less [of v] by (simp add: cs_def)
  then show ?thesis
    using ys obj_stored [of xs a "cs @ [0]" ys] assms(3,4) by simp
qed

lemma local_string:
  assumes "ys = pre @ cs @ [0] @ post" "length pre = a" "length ys < 2 ^ 31" "0 \<notin> set cs"
  shows "cstr_at (ldo ys) (of_nat a) cs"
proof -
  have "bytes_at (ldo ys) 0 ys" using assms(3) by (intro obj_bytes_at) simp
  then have "bytes_at (ldo ys) (of_nat a) (cs @ [0])"
    using assms(2) by (subst (asm) (2) assms(1)) (simp add: bytes_at_append bytes_at_Cons)
  then show ?thesis using assms(4) by (simp add: cstr_at_def)
qed

context typing
begin

lemma conv_unsigned_types:
  assumes c: "screen s con" and junk: "length (stack_junk s) = 64"
  shows "\<exists>s'. conv_unsigned v s = Some s' \<and> screen s' (fold type_char (unsigned_text v) con) \<and> frame s s'"
proof -
  let ?xs = "take 36 (stack_junk s)"
  obtain ys where ys: "itoa ldo sto v 0 10 ?xs = Some ys" "ys = unsigned_text v @ [0] @ drop (Suc (length (unsigned_text v))) ?xs"
    using local_itoa [of 10 0 ?xs v] junk by (auto simp: unsigned_text_def)
  have "length ys < 2 ^ 31" using junk length_texts(2) [of v] by (simp add: ys(2))
  then have "cstr_at (ldo ys) (of_nat 0) (unsigned_text v)"
    using ys(2) numeral_text_nonzero [of 10] by (intro local_string [where pre = "[]"]) (simp_all add: unsigned_text_def)
  then show ?thesis
    using puts_types [OF c, of "\<lambda>_. ldo ys" 0 "unsigned_text v"] ys(1) by (auto simp: conv_unsigned_def)
qed

lemma conv_signed_types:
  assumes c: "screen s con" and junk: "length (stack_junk s) = 64"
  shows "\<exists>s'. conv_signed v s = Some s' \<and> screen s' (fold type_char (signed_text v) con) \<and> frame s s'"
proof (cases "v <s 0")
  case False
  then show ?thesis
    using conv_unsigned_types [OF assms, of v] by (simp add: conv_signed_def conv_unsigned_def signed_text_def)
next
  case True
  let ?xs = "(take 36 (stack_junk s))[0 := 45]" and ?cs = "unsigned_text (- v)"
  have st: "sto 0 45 (take 36 (stack_junk s)) = Some ?xs" using junk by (simp add: sto_def)
  have x0: "take 1 ?xs = [45]" using junk by (cases "stack_junk s") simp_all
  obtain ys where ys: "itoa ldo sto (- v) 1 10 ?xs = Some ys" "ys = [45] @ ?cs @ [0] @ drop (Suc (Suc (length ?cs))) ?xs"
    using local_itoa [of 10 1 ?xs "- v"] junk x0 by (auto simp: unsigned_text_def)
  have "length ys < 2 ^ 31" using junk length_texts(2) [of "- v"] by (simp add: ys(2))
  then have "cstr_at (ldo ys) (of_nat 0) (signed_text v)"
    using ys(2) True numeral_text_nonzero [of 10] by (intro local_string [where pre = "[]"]) (simp_all add: signed_text_def unsigned_text_def)
  then show ?thesis
    using puts_types [OF c, of "\<lambda>_. ldo ys" 0 "signed_text v"] ys(1) st True by (auto simp: conv_signed_def Let_def)
qed

lemma conv_hex_types:
  assumes c: "screen s con" and junk: "length (stack_junk s) = 64"
  shows "\<exists>s'. conv_hex alt v s = Some s' \<and>
    screen s' (fold type_char (if alt then padded_hex_text v else hex_text v) con) \<and> frame s s'"
proof (cases alt)
  case False
  let ?xs = "take 64 (stack_junk s)"
  obtain ys where ys: "itoa ldo sto v 0 16 ?xs = Some ys" "ys = hex_text v @ [0] @ drop (Suc (length (hex_text v))) ?xs"
    using local_itoa [of 16 0 ?xs v] junk by (auto simp: hex_text_def)
  have "length ys < 2 ^ 31" using junk length_texts(1) [of v] by (simp add: ys(2))
  then have "cstr_at (ldo ys) (of_nat 0) (hex_text v)"
    using ys(2) numeral_text_nonzero [of 16] by (intro local_string [where pre = "[]"]) (simp_all add: hex_text_def)
  then show ?thesis
    using puts_types [OF c, of "\<lambda>_. ldo ys" 0 "hex_text v"] ys(1) False by (auto simp: conv_hex_def Let_def)
next
  case True
  let ?junk = "stack_junk s" and ?cs = "hex_text v" and ?n = "length (hex_text v)"
  have n: "?n \<le> 8" by (rule length_texts)
  obtain cb where cb: "itoa ldo sto v 8 16 ?junk = Some cb" "cb = take 8 ?junk @ ?cs @ [0] @ drop (9 + ?n) ?junk"
    using local_itoa [of 16 8 ?junk v] junk by (auto simp: hex_text_def)
  have len: "length cb = 64" using n junk by (simp add: cb(2))
  have nz: "0 \<notin> set ?cs" using numeral_text_nonzero [of 16] by (simp add: hex_text_def)
  have "cstr_at (ldo cb) (of_nat 8) ?cs"
    using cb(2) len nz junk by (intro local_string [where pre = "take 8 ?junk" and post = "drop (9 + ?n) ?junk"]) simp_all
  then have sl: "strlen (ldo cb) 8 = Some (of_nat ?n)" using strlen_cstr by fastforce
  define out where "out = take ?n cb @ replicate (8 - ?n) 48 @ drop 8 cb"
  have pad: "pad_zeros (of_nat ?n) cb = Some out"
    unfolding out_def using n len by (intro pad_zeros_stored obj_range_ok) simp_all
  have "drop 8 cb = ?cs @ [0] @ drop (9 + ?n) ?junk" using junk by (simp add: cb(2))
  then have out: "out = take ?n cb @ padded_hex_text v @ [0] @ drop (9 + ?n) ?junk"
    by (simp add: out_def padded_hex_text_def)
  have "length out = 64" using n len by (simp add: out_def)
  moreover have "0 \<notin> set (padded_hex_text v)" using nz by (simp add: padded_hex_text_def)
  ultimately have "cstr_at (ldo out) (of_nat ?n) (padded_hex_text v)"
    using n len by (intro local_string [OF out]) simp_all
  then show ?thesis
    using puts_types [OF c, of "\<lambda>_. ldo out" "of_nat ?n" "padded_hex_text v"] cb(1) sl pad junk True
    by (auto simp: conv_hex_def Let_def)
qed

end

section \<open>What printf prints\<close>

text \<open>
  The text that a format stands for: \<open>None\<close> in plain text, \<open>Some alt\<close> after a \<open>%\<close>. \<open>str\<close> gives the strings
  that \<open>%s\<close> may name. There is no text when the arguments run out, or when the format ends in \<open>%\<close>.
\<close>

fun conversion :: "(u32 \<Rightarrow> u8 list option) \<Rightarrow> bool \<Rightarrow> u8 \<Rightarrow> u32 \<Rightarrow> u8 list option" where
  "conversion str alt c v =
     (if c = of_char (CHR ''x'') then Some (if alt then padded_hex_text v else hex_text v)
      else if c = of_char (CHR ''u'') then Some (unsigned_text v)
      else if c = of_char (CHR ''d'') then Some (signed_text v)
      else if c = of_char (CHR ''c'') then Some [ucast v]
      else str v)"

definition takes_argument :: "u8 \<Rightarrow> bool" where
  "takes_argument c \<longleftrightarrow> c \<in> {of_char (CHR ''x''), of_char (CHR ''u''), of_char (CHR ''d''), of_char (CHR ''c''), of_char (CHR ''s'')}"

fun formatted :: "(u32 \<Rightarrow> u8 list option) \<Rightarrow> bool option \<Rightarrow> u8 list \<Rightarrow> u32 list \<Rightarrow> u8 list option" where
  "formatted str None [] args = Some []"
| "formatted str (Some alt) [] args = None"
| "formatted str None (c # cs) args =
     (if c = of_char (CHR ''%'') then formatted str (Some False) cs args
      else map_option ((#) c) (formatted str None cs args))"
| "formatted str (Some alt) (c # cs) args =
     (if c = of_char (CHR ''%'') then map_option ((#) c) (formatted str None cs args)
      else if c = of_char (CHR ''#'') then formatted str (Some True) cs args
      else if takes_argument c then do {
        (v, args) \<leftarrow> next_arg args;
        t \<leftarrow> conversion str alt c v;
        rest \<leftarrow> formatted str None cs args;
        Some (t @ rest)
      }
      else formatted str None cs args)"

context typing
begin

lemma format_char_converts:
  assumes c: "rd s buf = Some c" "c \<noteq> of_char (CHR ''%'')" "c \<noteq> of_char (CHR ''#'')" "takes_argument c"
    and v: "next_arg args = Some (v, args')" "conversion str alt c v = Some t"
    and s: "screen s con" "length (stack_junk s) = 64"
    and str: "\<And>v cs s'. str v = Some cs \<Longrightarrow> frame s s' \<Longrightarrow> cstr_at (ld8 s') v cs"
  shows "\<exists>s'. format_char rd buf alt args s = Some (buf, args', s') \<and> screen s' (fold type_char t con) \<and> frame s s'"
proof -
  consider "c = of_char (CHR ''x'')" | "c = of_char (CHR ''u'')" | "c = of_char (CHR ''d'')" | "c = of_char (CHR ''c'')" | "c = of_char (CHR ''s'')"
    using c(4) by (auto simp: takes_argument_def)
  then show ?thesis
  proof cases
    case 1
    then show ?thesis using c v conv_hex_types [OF s, of alt v] by (subst format_char.simps) auto
  next
    case 2
    then show ?thesis using c v conv_unsigned_types [OF s, of v] by (subst format_char.simps) auto
  next
    case 3
    then show ?thesis using c v conv_signed_types [OF s, of v] by (subst format_char.simps) auto
  next
    case 4
    then show ?thesis using c v putc_screen [OF s(1), of "ucast v"] by (subst format_char.simps) auto
  next
    case 5
    then have "str v = Some t" using v(2) by simp
    then show ?thesis using 5 c v puts_types [OF s(1), of ld8 v t] str by (subst format_char.simps) auto
  qed
qed

lemma format_types:
  assumes "screen s con" "length (stack_junk s) = 64"
    and "\<And>s'. frame s s' \<Longrightarrow> cstr_at (rd s') buf fmt" and "formatted str mode fmt args = Some out"
    and "\<And>v cs s'. str v = Some cs \<Longrightarrow> frame s s' \<Longrightarrow> cstr_at (ld8 s') v cs"
  shows "\<exists>s'. (case mode of None \<Rightarrow> printf_from rd buf args s
      | Some alt \<Rightarrow> do { (buf, esp, s) \<leftarrow> format_char rd buf alt args s; printf_from rd (buf + 1) esp s }) =
      Some (buf + of_nat (length fmt), s') \<and> screen s' (fold type_char out con) \<and> frame s s'"
  using assms
proof (induction str mode fmt args arbitrary: s con buf out rule: formatted.induct)
  case (1 str args)
  then have "rd s buf = Some 0" using eff_refl [of s] by (simp add: cstr_at_Nil)
  then show ?case using 1 by (subst printf_from.simps) (auto simp: eff_refl)
next
  case (2 str alt args)
  then show ?case by simp
next
  case (3 str c cs args)
  have c: "rd s buf = Some c" "c \<noteq> 0" using "3.prems"(3) [OF eff_refl] by (simp_all add: cstr_at_Cons)
  have tail: "cstr_at (rd s') (buf + 1) cs" if "frame s s'" for s' using "3.prems"(3) [OF that] by (simp add: cstr_at_Cons)
  show ?case
  proof (cases "c = of_char (CHR ''%'')")
    case True
    then show ?thesis
      using "3.IH"(1) [OF True "3.prems"(1,2) tail _ "3.prems"(5)] "3.prems"(4) c by (subst option.case(1), subst printf_from.simps) (simp add: add.assoc)
  next
    case False
    obtain out' where out: "formatted str None cs args = Some out'" "out = c # out'" using "3.prems"(4) False by auto
    obtain s1 where s1: "putc c s = Some s1" "screen s1 (type_char c con)" "frame s s1"
      using putc_screen [OF "3.prems"(1)] by blast
    obtain s2 where "printf_from rd (buf + 1) args s1 = Some (buf + 1 + of_nat (length cs), s2)"
      "screen s2 (fold type_char out' (type_char c con))" "frame s1 s2"
      using "3.IH"(2) [OF False s1(2) _ _ out(1), of "buf + 1"] tail "3.prems"(2,5) frame_junk [OF s1(3)] eff_trans [OF s1(3)] by fastforce
    then show ?thesis
      using c s1 False out(2) eff_trans [OF s1(3)] by (subst option.case(1), subst printf_from.simps) (auto simp: add.assoc)
  qed
next
  case (4 str alt c cs args)
  have c: "rd s buf = Some c" "c \<noteq> 0" using "4.prems"(3) [OF eff_refl] by (simp_all add: cstr_at_Cons)
  have tail: "cstr_at (rd s') (buf + 1) cs" if "frame s s'" for s' using "4.prems"(3) [OF that] by (simp add: cstr_at_Cons)
  consider "c = of_char (CHR ''%'')" | "c \<noteq> of_char (CHR ''%'')" "c = of_char (CHR ''#'')"
    | "c \<noteq> of_char (CHR ''%'')" "c \<noteq> of_char (CHR ''#'')" "takes_argument c"
    | "c \<noteq> of_char (CHR ''%'')" "c \<noteq> of_char (CHR ''#'')" "\<not> takes_argument c" by blast
  then show ?case
  proof cases
    case p: 1
    obtain out' where out: "formatted str None cs args = Some out'" "out = c # out'" using "4.prems"(4) p by auto
    obtain s1 where s1: "putc c s = Some s1" "screen s1 (type_char c con)" "frame s s1"
      using putc_screen [OF "4.prems"(1)] by blast
    obtain s2 where "printf_from rd (buf + 1) args s1 = Some (buf + 1 + of_nat (length cs), s2)"
      "screen s2 (fold type_char out' (type_char c con))" "frame s1 s2"
      using "4.IH"(1) [OF p s1(2) _ _ out(1), of "buf + 1"] tail "4.prems"(2,5) frame_junk [OF s1(3)] eff_trans [OF s1(3)] by fastforce
    then show ?thesis
      using c s1 p out(2) eff_trans [OF s1(3)] by (subst option.case(2), subst format_char.simps) (auto simp: add.assoc)
  next
    case 2
    then show ?thesis
      using "4.IH"(2) [OF 2 "4.prems"(1,2) tail _ "4.prems"(5)] "4.prems"(4) c
      by (subst option.case(2), subst format_char.simps) (auto simp: add.assoc)
  next
    case p: 3
    obtain v args' t rest where v: "next_arg args = Some (v, args')" "conversion str alt c v = Some t"
      "formatted str None cs args' = Some rest" "out = t @ rest"
      using "4.prems"(4) p by (auto simp: Option.bind_eq_Some_conv simp del: conversion.simps)
    obtain s1 where s1: "format_char rd buf alt args s = Some (buf, args', s1)"
      "screen s1 (fold type_char t con)" "frame s s1"
      using format_char_converts [where rd = rd and str = str, OF c(1) p v(1,2) "4.prems"(1,2,5)] by blast
    obtain s2 where "printf_from rd (buf + 1) args' s1 = Some (buf + 1 + of_nat (length cs), s2)"
      "screen s2 (fold type_char rest (fold type_char t con))" "frame s1 s2"
      using "4.IH"(3) [OF p v(1) refl v(2) s1(2) _ _ v(3), of "buf + 1"] tail "4.prems"(2,5) frame_junk [OF s1(3)] eff_trans [OF s1(3)]
      by fastforce
    then show ?thesis using s1 v(4) eff_trans [OF s1(3)] by (auto simp: add.assoc)
  next
    case p: 4
    then have f: "formatted str None cs args = Some out" using "4.prems"(4) by simp
    have "format_char rd buf alt args s = Some (buf, args, s)"
      using c p by (subst format_char.simps) (auto simp: takes_argument_def)
    then show ?thesis
      using "4.IH"(4) [OF p "4.prems"(1,2) tail f "4.prems"(5)] by (simp add: add.assoc)
  qed
qed

lemma printf_types:
  assumes "screen s con" "length (stack_junk s) = 64"
    and "\<And>s'. frame s s' \<Longrightarrow> cstr_at (rd s') format fmt" and "formatted str None fmt args = Some out"
    and "\<And>v cs s'. str v = Some cs \<Longrightarrow> frame s s' \<Longrightarrow> cstr_at (ld8 s') v cs"
  shows "\<exists>s'. printf rd format args s = Some (of_nat (length fmt), s') \<and> screen s' (fold type_char out con) \<and> frame s s'"
  using format_types [where rd = rd and mode = None and str = str, OF assms] by (auto simp: printf_def)

lemma printf_lit_types:
  assumes "screen s con" "length (stack_junk s) = 64"
    and "formatted str None (chars fmt) args = Some out" "0 \<notin> set (chars fmt)" "length fmt < 1000"
    and "\<And>v cs s'. str v = Some cs \<Longrightarrow> frame s s' \<Longrightarrow> cstr_at (ld8 s') v cs"
  shows "\<exists>s'. printf_lit fmt args s = Some s' \<and> screen s' (fold type_char out con) \<and> frame s s'"
proof -
  have "cstr_at (ldo (chars fmt @ [0])) (of_nat 0) (chars fmt)"
    using assms(4,5) by (intro local_string [where pre = "[]" and post = "[]"]) (simp_all add: chars_def)
  then show ?thesis
    using printf_types [OF assms(1,2), of "\<lambda>_. ldo (chars fmt @ [0])" 0, OF _ assms(3,6)] by (auto simp: printf_lit_def)
qed

end

text \<open>
  C14. \<open>printf\<close> types on the screen of the terminal in service the text that the format stands for:
  \<open>%x\<close>, \<open>%u\<close> and \<open>%d\<close> print numerals without leading zeros, \<open>%#x\<close> exactly eight digits, \<open>%c\<close> a character,
  \<open>%s\<close> a string, \<open>%%\<close> a percent sign, and another letter after a \<open>%\<close> is dropped. It returns the length of
  the format, and changes nothing but that screen, whatever the stack held before.
\<close>

theorem printf_formats:
  assumes "console s (unat (term_in_service s)) con" "length (stack_junk s) = 64"
    and "\<And>s'. elsewhere (unat (term_in_service s)) s s' \<Longrightarrow> cstr_at (rd s') format fmt"
    and "formatted str None fmt args = Some out"
    and "\<And>v cs s'. str v = Some cs \<Longrightarrow> elsewhere (unat (term_in_service s)) s s' \<Longrightarrow> cstr_at (ld8 s') v cs"
  shows "\<exists>s'. printf rd format args s = Some (of_nat (length fmt), s') \<and>
    console s' (unat (term_in_service s)) (fold type_char out con) \<and> elsewhere (unat (term_in_service s)) s s'"
proof -
  have "on_terminal (unat (term_in_service s)) s con" using assms(1) by (simp add: on_terminal_def)
  from screen.printf_types [where rd = rd and str = str, OF this assms(2-5)] show ?thesis by (auto simp: on_terminal_def)
qed

theorem printf_formats_witness:
  "\<exists>s'. printf (\<lambda>_. ldo (chars ''%#x, %d%%'' @ [0])) 0 [0xBEEF, -5] demo_tty = Some (9, s') \<and>
    console s' 1 (fold type_char (chars ''0000BEEF, -5%'') (replicate 2000 32, 79, 24))"
proof -
  have h: "hex_text 0xBEEF = chars ''BEEF''" "unsigned_text 5 = chars ''5''"
    by (simp_all add: hex_text_def unsigned_text_def numeral_digits_def digits_le.simps lookup_digits_def chars_def)
  moreover have "padded_hex_text 0xBEEF = chars ''0000BEEF''" "signed_text (-5) = chars ''-5''"
    unfolding padded_hex_text_def signed_text_def
    by (simp_all add: h chars_def word_sless_alt eval_nat_numeral)
  ultimately have "formatted (\<lambda>_. None) None (chars ''%#x, %d%%'') [0xBEEF, -5] = Some (chars ''0000BEEF, -5%'')"
    by (simp add: chars_def takes_argument_def next_arg_def)
  moreover have "length (stack_junk demo_tty) = 64" by (simp add: demo_tty_def initialize_page_eq)
  moreover have "cstr_at (ldo (chars ''%#x, %d%%'' @ [0])) (of_nat 0) (chars ''%#x, %d%%'')"
    by (intro local_string [where pre = "[]" and post = "[]"]) (simp_all add: chars_def)
  ultimately have "\<exists>s'. printf (\<lambda>_. ldo (chars ''%#x, %d%%'' @ [0])) 0 [0xBEEF, -5] demo_tty =
        Some (of_nat (length (chars ''%#x, %d%%'')), s') \<and>
      console s' (unat (term_in_service demo_tty)) (fold type_char (chars ''0000BEEF, -5%'') (replicate 2000 32, 79, 24)) \<and>
      elsewhere (unat (term_in_service demo_tty)) demo_tty s'"
    using demo_tty_console by (intro printf_formats [where str = "\<lambda>_. None"]) simp_all
  moreover have "length (chars ''%#x, %d%%'') = 9" "unat (term_in_service demo_tty) = 1"
    using demo_tty_console by (simp_all add: chars_def)
  ultimately show ?thesis by auto
qed

end
