(* ===== verification/Terminal.thy ===== *)
theory Terminal
  imports Printf
begin

text \<open>
  The terminal driver \<open>terminal.c\<close>: the line the keyboard hands over, the hardware cursor, and
  the operations behind descriptors 0 and 1. \<open>terminal_read\<close> waits for an interrupt to deliver
  a line; which interrupts come, and what handling one does, are arguments of the definition.
\<close>

section \<open>terminal.c\<close>

abbreviation (input) "MAX_BUF \<equiv> (128 :: nat)"

definition send_buffer :: "u8 list \<Rightarrow> 'a tty_state_scheme \<Rightarrow> 'a tty_state_scheme option" where
  "send_buffer buf s = do {
     s \<leftarrow> for_each (\<lambda>i s. do {
         v \<leftarrow> arr_get buf i;
         tb \<leftarrow> arr_set i v (terminal_buf s);
         Some (s\<lparr>terminal_buf := tb\<rparr>)
       }) [0..<MAX_BUF] s;
     Some (s\<lparr>buf_sent := 1\<rparr>)
   }"

definition get_x_start_tw :: "'a tty_state_scheme \<Rightarrow> u32" where
  "get_x_start_tw s = x_start_tw s"

definition get_y_start_tw :: "'a tty_state_scheme \<Rightarrow> u32" where
  "get_y_start_tw s = y_start_tw s"

definition get_override :: "'a tty_state_scheme \<Rightarrow> u32" where
  "get_override s = override_start s"

definition set_override :: "u32 \<Rightarrow> 'a tty_state_scheme \<Rightarrow> 'a tty_state_scheme" where
  "set_override ovr s = s\<lparr>override_start := ovr\<rparr>"

definition get_cur_term :: "'a tty_state_scheme \<Rightarrow> u8" where
  "get_cur_term s = cur_term_num s"

definition set_cur_term :: "u8 \<Rightarrow> 'a tty_state_scheme \<Rightarrow> 'a tty_state_scheme" where
  "set_cur_term num s = s\<lparr>cur_term_num := num\<rparr>"

definition get_term_in_service :: "'a tty_state_scheme \<Rightarrow> u8" where
  "get_term_in_service s = term_in_service s"

definition set_term_in_service :: "u8 \<Rightarrow> 'a tty_state_scheme \<Rightarrow> 'a tty_state_scheme" where
  "set_term_in_service num s = s\<lparr>term_in_service := num\<rparr>"

lemmas terminal_accessors [kernel_unfold] =
  get_x_start_tw_def get_y_start_tw_def get_override_def set_override_def get_cur_term_def
  set_cur_term_def get_term_in_service_def set_term_in_service_def

definition enable_cursor :: "u8 \<Rightarrow> u8 \<Rightarrow> 'a io_state_scheme \<Rightarrow> 'a io_state_scheme" where
  "enable_cursor start end' s =
     (let s = outb 0x0A 0x3D4 s;
          (v, s) = inb 0x3D5 s;
          s = outb ((v AND 0xC0) OR start) 0x3D5 s;
          s = outb 0x0B 0x3D4 s;
          (v, s) = inb 0x3D5 s
      in outb ((v AND 0x60) OR end') 0x3D5 s)"

definition disable_cursor :: "'a io_state_scheme \<Rightarrow> 'a io_state_scheme" where
  "disable_cursor s = outb 0x20 0x3D5 (outb 0x0A 0x3D4 s)"

definition update_cursor :: "i32 \<Rightarrow> i32 \<Rightarrow> 'a io_state_scheme \<Rightarrow> 'a io_state_scheme" where
  "update_cursor x y s =
     (let pos = y * 80 + x;
          s = outb 0x0F 0x3D4 s;
          s = outb (ucast (pos AND 0x00FF)) 0x3D5 s;
          s = outb 0x0E 0x3D4 s
      in outb (ucast (signed_drop_bit 8 pos AND 0x00FF)) 0x3D5 s)"

definition terminal_open :: "'a tty_state_scheme \<Rightarrow> (i32 \<times> 'a tty_state_scheme) option" where
  "terminal_open s =
     (if terminal_opened s \<noteq> 0 then do {
        s \<leftarrow> puts_lit ''Terminal already open.\<newline>'' s;
        Some (-1, s)
      }
      else do {
        let s = s\<lparr>terminal_opened := 1\<rparr>;
        let s = outb 0x09 0x3D4 s;
        let (msl, s) = inb 0x3D5 s;
        let s = enable_cursor 0x00 (msl AND 0x1F) s;
        s \<leftarrow> clear s;
        let s = update_cursor 0 0 s;
        let s = set_screen_coords 0 0 s;
        Some (0, s)
      })"

definition terminal_close :: "'a tty_state_scheme \<Rightarrow> (i32 \<times> 'a tty_state_scheme) option" where
  "terminal_close s =
     (if terminal_opened s = 0 then do {
        s \<leftarrow> puts_lit ''Terminal already closed.\<newline>'' s;
        Some (-1, s)
      }
      else Some (0, s\<lparr>terminal_opened := 0\<rparr>))"

text \<open>A line is there for the terminal in service when it is the displayed one.\<close>

definition no_line :: "'a tty_state_scheme \<Rightarrow> bool" where
  "no_line s \<longleftrightarrow> \<not> (buf_sent s \<noteq> 0 \<and> cur_term_num s = term_in_service s)"

text \<open>\<open>ECHO_ON\<close> is 0: the echo is not compiled in.\<close>

definition terminal_read ::
  "('e \<Rightarrow> 'a tty_state_scheme \<Rightarrow> 'a tty_state_scheme option) \<Rightarrow> 'e list \<Rightarrow> u32 \<Rightarrow> i32 \<Rightarrow>
   'a tty_state_scheme \<Rightarrow> (i32 \<times> 'e list \<times> 'a tty_state_scheme) option" where
  "terminal_read irq irqs buf num_bytes s = do {
     (irqs, s) \<leftarrow> spin no_line irq irqs s;
     let num_bytes = (if 128 <s num_bytes then 128 else num_bytes);
     s \<leftarrow> for_each (\<lambda>i s. do {
         c \<leftarrow> arr_get (terminal_buf s) i;
         st8 (buf + of_nat i) c s
       }) [0..<nat (sint num_bytes)] s;
     Some (num_bytes, irqs, s\<lparr>buf_sent := 0\<rparr>)
   }"

definition terminal_write :: "u32 \<Rightarrow> i32 \<Rightarrow> 'a tty_state_scheme \<Rightarrow> (i32 \<times> 'a tty_state_scheme) option"
where
  "terminal_write buf num_bytes s = do {
     s \<leftarrow> for_each (\<lambda>i s. do { c \<leftarrow> ld8 s (buf + of_nat i); putc c s }) [0..<nat (sint num_bytes)] s;
     Some (0, s\<lparr>x_start_tw := screen_x s, y_start_tw := screen_y s, override_start := 1\<rparr>)
   }"

section \<open>Handing over a line\<close>

lemma send_buffer_copies:
  assumes "length buf = 128" "length (terminal_buf s) = 128"
  shows "send_buffer buf s = Some (s\<lparr>terminal_buf := buf, buf_sent := 1\<rparr>)"
proof -
  let ?f = "\<lambda>i s. do {
         v \<leftarrow> arr_get buf i;
         tb \<leftarrow> arr_set i v (terminal_buf s);
         Some (s\<lparr>terminal_buf := tb\<rparr>)
       }"
  have "n \<le> 128 \<Longrightarrow> for_each ?f [0..<n] s = Some (s\<lparr>terminal_buf := take n buf @ drop n (terminal_buf s)\<rparr>)"
    for n
  proof (induction n)
    case (Suc n)
    have "(take n buf @ drop n (terminal_buf s))[n := buf ! n] =
        take (Suc n) buf @ drop (Suc n) (terminal_buf s)"
      using Suc.prems assms
      by (intro nth_equalityI) (auto simp: nth_append nth_list_update less_Suc_eq min_def)
    with Suc assms show ?case by (simp add: for_each_append min_def)
  qed simp
  from this [of 128] assms show ?thesis by (simp add: send_buffer_def)
qed

lemma terminal_read_stored:
  assumes sp: "spin no_line irq irqs s = Some (irqs', s1)"
    and len: "length (terminal_buf s1) = 128" and n: "0 \<le> sint n"
    and ok: "range_ok (xlate Supervisor) s1 buf (min (nat (sint n)) 128)"
  shows "\<exists>s2. terminal_read irq irqs buf n s =
      Some (if 128 <s n then 128 else n, irqs', s2\<lparr>buf_sent := 0\<rparr>) \<and>
    mem_stored s1 buf (take (nat (sint n)) (terminal_buf s1)) s2"
proof -
  let ?n = "if 128 <s n then 128 else n"
  let ?f = "\<lambda>i s. do { c \<leftarrow> arr_get (terminal_buf s) i; st8 (buf + of_nat i) c s }"
  have m: "nat (sint ?n) = min (nat (sint n)) 128"
    using n by (auto simp: word_sless_alt min_def)
  have "k \<le> min (nat (sint n)) 128 \<Longrightarrow>
      \<exists>s2. for_each ?f [0..<k] s1 = Some s2 \<and> mem_stored s1 buf (take k (terminal_buf s1)) s2" for k
  proof (induction k)
    case 0
    then show ?case by (simp add: kmem.stored_Nil)
  next
    case (Suc k)
    then obtain s2 where s2: "for_each ?f [0..<k] s1 = Some s2"
      "mem_stored s1 buf (take k (terminal_buf s1)) s2" by auto
    have k: "k < 128" "length (take k (terminal_buf s1)) = k" using Suc.prems len by auto
    have tb: "terminal_buf s2 = terminal_buf s1"
      using arg_cong [OF mem_stored_phys [OF s2(2)], of terminal_buf] by simp
    have "xlate Supervisor s2 (buf + of_nat k) \<noteq> None"
      unfolding kmem.stored_cell [OF s2(2)] using Suc.prems
      by (intro range_ok_cell [OF ok]) simp
    then obtain s3 where s3: "st8 (buf + of_nat k) (terminal_buf s1 ! k) s2 = Some s3"
      using kmem.st_mapped by blast
    have "mem_stored s1 buf (take k (terminal_buf s1) @ [terminal_buf s1 ! k]) s3"
    proof (rule kmem.stored_append [OF _ s2(2)])
      show "range_ok (xlate Supervisor) s1 buf
          (length (take k (terminal_buf s1)) + length [terminal_buf s1 ! k])"
        using ok by (rule range_ok_mono) (use Suc.prems k in simp)
      show "mem_stored s2 (buf + of_nat (length (take k (terminal_buf s1)))) [terminal_buf s1 ! k] s3"
        using s3 unfolding k(2) by (rule kmem.stored_one)
    qed
    then show ?case using s2 s3 k len tb by (simp add: for_each_append take_Suc_conv_app_nth)
  qed
  from this [of "min (nat (sint n)) 128"] obtain s2 where
    s2: "for_each ?f [0..<nat (sint ?n)] s1 = Some s2"
      "mem_stored s1 buf (take (nat (sint n)) (terminal_buf s1)) s2"
    unfolding m using len by (auto simp: min_def split: if_splits)
  then show ?thesis using sp by (auto simp: terminal_read_def)
qed

lemma terminal_write_types:
  assumes c: "console s (unat (term_in_service s)) con"
    and b: "\<And>s' i. elsewhere (unat (term_in_service s)) s s' \<Longrightarrow> i < length cs \<Longrightarrow>
      ld8 s' (buf + of_nat i) = Some (cs ! i)"
    and n: "nat (sint n) = length cs"
  shows "\<exists>s'. terminal_write buf n s = Some (0, s') \<and>
    console s' (unat (term_in_service s)) (fold type_char cs con)"
proof -
  obtain s1 where s1: "for_each (\<lambda>i s. do { c \<leftarrow> ld8 s (buf + of_nat i); putc c s }) [0..<length cs] s = Some s1"
    "console s1 (unat (term_in_service s)) (fold type_char cs con)"
    using putc_run [OF c refl, of cs ld8 buf] b by blast
  then show ?thesis
    by (auto simp: terminal_write_def n console_def video_ok_def linked_def frame_for_def page_bytes_def
        split: prod.splits)
qed

section \<open>What the terminal promises\<close>

text \<open>A buffer in a 4 MB page is read the same whatever the window shows.\<close>

lemma elsewhere_ld8_big:
  assumes e: "elsewhere t s s'" and big: "bit (page_directory s (region a)) 7"
    and p: "xlate Supervisor s a = Some p" "\<not> unat (p - frame_for s t) < 4096"
  shows "ld8 s' a = ld8 s a"
proof -
  have "xlate Supervisor s' a = xlate Supervisor s a"
    using big elsewhere_sel(3,4) [OF e] by (simp add: xlate_def region_def Let_def)
  with e p show ?thesis by (simp add: ld8_def elsewhere_def)
qed

text \<open>
  \<open>send_buffer\<close> hands the whole 128-byte line to the terminal and marks it as sent.
\<close>

theorem send_buffer_hands_over:
  assumes "length buf = 128" "length (terminal_buf s) = 128"
  shows "send_buffer buf s = Some (s\<lparr>terminal_buf := buf, buf_sent := 1\<rparr>)"
  using assms by (rule send_buffer_copies)

theorem send_buffer_hands_over_witness:
  "send_buffer (replicate 128 7) demo_tty =
     Some (demo_tty\<lparr>terminal_buf := replicate 128 7, buf_sent := 1\<rparr>)"
  by (rule send_buffer_hands_over) (simp_all add: demo_tty_def initialize_page_eq)

text \<open>
  \<open>terminal_read\<close> waits until the keyboard has sent a line while the reading terminal is
  the displayed one; then it stores the first bytes of the line, as many as asked for and at
  most 128, at the caller's buffer and nowhere else, answers their number and takes the line.
\<close>

theorem terminal_read_takes_line:
  assumes "spin no_line irq irqs s = Some (irqs', s1)"
    and "length (terminal_buf s1) = 128" "0 \<le> sint n"
    and "range_ok (xlate Supervisor) s1 buf (min (nat (sint n)) 128)"
  shows "\<exists>s2. terminal_read irq irqs buf n s =
      Some (if 128 <s n then 128 else n, irqs', s2\<lparr>buf_sent := 0\<rparr>) \<and>
    mem_stored s1 buf (take (nat (sint n)) (terminal_buf s1)) s2"
  using assms by (rule terminal_read_stored)

theorem terminal_read_takes_line_witness:
  "\<exists>s2. terminal_read (\<lambda>_ s. Some (s\<lparr>terminal_buf := replicate 128 7, buf_sent := 1\<rparr>)) [(), ()] 0x400000 3
      (demo_tty\<lparr>term_in_service := 0\<rparr>) = Some (3, [()], s2\<lparr>buf_sent := 0\<rparr>) \<and>
    mem_stored (demo_tty\<lparr>term_in_service := 0, terminal_buf := replicate 128 7, buf_sent := 1\<rparr>)
      0x400000 [7, 7, 7] s2"
proof -
  let ?s1 = "demo_tty\<lparr>term_in_service := 0, terminal_buf := replicate 128 7, buf_sent := 1\<rparr>"
  have sp: "spin no_line (\<lambda>_ s. Some (s\<lparr>terminal_buf := replicate 128 7, buf_sent := 1\<rparr>)) [(), ()]
      (demo_tty\<lparr>term_in_service := 0\<rparr>) = Some ([()], ?s1)"
    by (simp add: no_line_def) (simp add: demo_tty_def initialize_page_eq)
  have x: "xlate Supervisor ?s1 (0x400000 + of_nat i) = Some (0x400000 + of_nat i)" if "i < 3" for i
  proof -
    have "region (0x400000 + of_nat i) = 1"
      using that region_offset [of 1 i] by simp
    moreover have "xlate Supervisor ?s1 a = xlate Supervisor demo_tty a" for a
      by (simp add: xlate_def table_at_def Let_def)
    ultimately show ?thesis by (simp add: demo_tty_def boot_xlate_1)
  qed
  have ok: "range_ok (xlate Supervisor) ?s1 0x400000 (min (nat (sint (3 :: i32))) 128)"
    using x by (auto simp: range_ok_def of_nat_eq_u32_iff)
  show ?thesis
    using terminal_read_takes_line [OF sp _ _ ok] by (simp add: word_sless_alt numeral_eq_Suc)
qed

text \<open>
  \<open>terminal_write\<close> types the bytes of the caller's buffer, in order, on the screen of the
  terminal in service. The buffer may be anywhere in a 4 MB page (a program's, or the
  kernel's) outside the page being drawn.
\<close>

theorem terminal_write_prints:
  assumes "console s (unat (term_in_service s)) con" and "nat (sint n) = length cs"
    and "\<And>i. i < length cs \<Longrightarrow> \<exists>p. xlate Supervisor s (buf + of_nat i) = Some p \<and>
      phys s p = cs ! i \<and> \<not> unat (p - frame_for s (unat (term_in_service s))) < 4096 \<and>
      bit (page_directory s (region (buf + of_nat i))) 7"
  shows "\<exists>s'. terminal_write buf n s = Some (0, s') \<and>
    console s' (unat (term_in_service s)) (fold type_char cs con)"
proof (rule terminal_write_types [OF assms(1) _ assms(2)])
  fix s' i
  assume e: "elsewhere (unat (term_in_service s)) s s'" and i: "i < length cs"
  then obtain p where "xlate Supervisor s (buf + of_nat i) = Some p" "phys s p = cs ! i"
    "\<not> unat (p - frame_for s (unat (term_in_service s))) < 4096"
    "bit (page_directory s (region (buf + of_nat i))) 7"
    using assms(3) by blast
  with elsewhere_ld8_big [OF e, of "buf + of_nat i" p] show "ld8 s' (buf + of_nat i) = Some (cs ! i)"
    by (simp add: ld8_def [of s])
qed

theorem terminal_write_prints_witness:
  "\<exists>s'. terminal_write 0x400000 2 demo_tty = Some (0, s') \<and>
     console s' 1 (fold type_char [32, 32] (replicate 2000 32, 79, 24))"
proof -
  have "\<exists>p. xlate Supervisor demo_tty (0x400000 + of_nat i) = Some p \<and>
      phys demo_tty p = [32, 32] ! i \<and>
      \<not> unat (p - frame_for demo_tty (unat (term_in_service demo_tty))) < 4096 \<and>
      bit (page_directory demo_tty (region (0x400000 + of_nat i))) 7" if "i < 2" for i
  proof -
    have r: "region (0x400000 + of_nat i) = 1"
      using that region_offset [of 1 i] by simp
    then have "xlate Supervisor demo_tty (0x400000 + of_nat i) = Some (0x400000 + of_nat i)"
      by (simp add: demo_tty_def boot_xlate_1)
    moreover have "page_directory demo_tty 1 = 0x400083" "phys demo_tty a = 32" for a
      by (simp_all add: demo_tty_def initialize_page_eq)
    moreover have "frame_for demo_tty 1 = 0xBA000"
      by (simp add: frame_for_def) (simp add: demo_tty_def initialize_page_eq)
    moreover have "i = 0 \<or> i = 1" using that by auto
    then have "\<not> unat (0x400000 + of_nat i - 0xBA000 :: u32) < 4096" "[32, 32] ! i = (32 :: u8)"
      by (elim disjE; simp)+
    ultimately show ?thesis using r demo_tty_console(3) by simp
  qed
  then show ?thesis
    using terminal_write_prints [of demo_tty "(replicate 2000 32, 79, 24)" 2 "[32, 32]" "0x400000"]
      demo_tty_console by simp
qed

end
