(* ===== verification/Rtc.thy ===== *)
theory Rtc
  imports Terminal
begin

text \<open>
  The real-time clock driver \<open>rtc.c\<close>: the chip is programmed through an index and a data port,
  a read waits for the next periodic interrupt, a write sets the rate.
\<close>

section \<open>rtc.c\<close>

abbreviation (input) "RTC_INDEX_PORT \<equiv> (0x70 :: u16)"
abbreviation (input) "RTC_DATA_PORT \<equiv> (0x71 :: u16)"

record rtc_state = tty_state +
  read_wait :: u8
  rtc_opened :: u8

definition rtc_init :: "'a rtc_state_scheme \<Rightarrow> 'a rtc_state_scheme option" where
  "rtc_init s = do {
     let s = s\<lparr>rtc_opened := 1\<rparr>;
     let s = outb 0x8A RTC_INDEX_PORT s;
     let s = outb 0x2F RTC_DATA_PORT s;
     let s = outb 0x8B RTC_INDEX_PORT s;
     let (b_orig, s) = inb RTC_DATA_PORT s;
     let s = outb 0x8B RTC_INDEX_PORT s;
     let s = outb (0x40 OR b_orig) RTC_DATA_PORT s;
     let s = outb 0x8C RTC_INDEX_PORT s;
     let (_, s) = inb RTC_DATA_PORT s;
     let s = set_gate 0x28 (handler_at s rtc_linker) s;
     puts_lit ''RTC initialized.\<newline>'' s
   }"

definition rtc_handler :: "'a rtc_state_scheme \<Rightarrow> 'a rtc_state_scheme" where
  "rtc_handler s =
     (let s = outb 0x8C RTC_INDEX_PORT s;
          (_, s) = inb RTC_DATA_PORT s;
          s = s\<lparr>read_wait := 0\<rparr>
      in send_eoi 8 s)"

definition rtc_open :: "'a rtc_state_scheme \<Rightarrow> i32 \<times> 'a rtc_state_scheme" where
  "rtc_open s =
     (let s = s\<lparr>rtc_opened := 1\<rparr>;
          s = cli s;
          s = outb 0x8A RTC_INDEX_PORT s;
          (a_orig, s) = inb RTC_DATA_PORT s;
          a_orig = a_orig AND 0xF0;
          s = outb 0x8A RTC_INDEX_PORT s;
          s = outb (a_orig OR 0x0F) RTC_DATA_PORT s
      in (0, sti s))"

definition rtc_close :: "'a rtc_state_scheme \<Rightarrow> (i32 \<times> 'a rtc_state_scheme) option" where
  "rtc_close s =
     (if rtc_opened s = 0 then do {
        s \<leftarrow> puts_lit ''The RTC is already closed.\<newline>'' s;
        Some (-1, s)
      }
      else Some (0, s\<lparr>rtc_opened := 0\<rparr>))"

definition rtc_read ::
  "('e \<Rightarrow> 'a rtc_state_scheme \<Rightarrow> 'a rtc_state_scheme option) \<Rightarrow> 'e list \<Rightarrow> 'a rtc_state_scheme \<Rightarrow>
   (i32 \<times> 'e list \<times> 'a rtc_state_scheme) option" where
  "rtc_read irq irqs s = do {
     let s = s\<lparr>read_wait := 1\<rparr>;
     (irqs, s) \<leftarrow> spin (\<lambda>s. read_wait s \<noteq> 0) irq irqs s;
     Some (0, irqs, s)
   }"

text \<open>The \<open>switch\<close> over the frequencies.\<close>

definition rtc_select_bits :: "i32 \<Rightarrow> u8 option" where
  "rtc_select_bits freq =
     (if freq = 2 then Some 0x0F
      else if freq = 4 then Some 0x0E
      else if freq = 8 then Some 0x0D
      else if freq = 16 then Some 0x0C
      else if freq = 32 then Some 0x0B
      else if freq = 64 then Some 0x0A
      else if freq = 128 then Some 0x09
      else if freq = 256 then Some 0x08
      else if freq = 512 then Some 0x07
      else if freq = 1024 then Some 0x06
      else None)"

definition rtc_set_rate :: "u8 \<Rightarrow> 'a io_state_scheme \<Rightarrow> 'a io_state_scheme" where
  "rtc_set_rate select_bits s =
     (let s = cli s;
          s = outb 0x8A RTC_INDEX_PORT s;
          (a_orig, s) = inb RTC_DATA_PORT s;
          a_orig = a_orig AND 0xF0;
          select_bits = select_bits OR a_orig;
          s = outb 0x8A RTC_INDEX_PORT s;
          s = outb select_bits RTC_DATA_PORT s
      in sti s)"

definition rtc_write :: "u32 \<Rightarrow> i32 \<Rightarrow> 'a rtc_state_scheme \<Rightarrow> (i32 \<times> 'a rtc_state_scheme) option" where
  "rtc_write buf nbytes s =
     (if buf = 0 then Some (-1, s)
      else if nbytes \<noteq> 4 then Some (-1, s)
      else do {
        freq \<leftarrow> ld32 (ld8 s) buf;
        if freq <s 2 \<or> 1024 <s freq then do {
          s \<leftarrow> puts_lit ''This frequency is out of range.\<newline>'' s;
          Some (-1, s)
        }
        else case rtc_select_bits freq of
          None \<Rightarrow> do {
            s \<leftarrow> puts_lit ''Frequency given is invalid.\<newline>'' s;
            Some (-1, s)
          }
        | Some select_bits \<Rightarrow> Some (0, rtc_set_rate select_bits s)
      })"

section \<open>The rate of the chip\<close>

text \<open>
  The periodic rate of the MC146818: the low four bits \<open>r\<close> of register A divide 32768 Hz by
  \<open>2 ^ (r - 1)\<close> (datasheet; the table is this for rates 3 to 15). Register A is what was last
  written to the data port while the index port selected it.
\<close>

definition rtc_frequency :: "u8 \<Rightarrow> nat" where
  "rtc_frequency a = 32768 div 2 ^ (unat (a AND 0x0F) - 1)"

lemma rtc_select_bits_power:
  "rtc_select_bits freq = Some v \<longleftrightarrow> (\<exists>k. 1 \<le> k \<and> k \<le> 10 \<and> freq = of_nat (2 ^ k) \<and> v = of_nat (16 - k))"
proof
  assume "rtc_select_bits freq = Some v"
  then have "(freq, v) \<in> {(2, 15), (4, 14), (8, 13), (16, 12), (32, 11), (64, 10), (128, 9),
      (256, 8), (512, 7), (1024, 6)}"
    by (auto simp: rtc_select_bits_def split: if_splits)
  then have "(freq, v) \<in> set (map (\<lambda>k. (of_nat (2 ^ k), of_nat (16 - k))) [1, 2, 3, 4, 5, 6, 7, 8, 9, 10])"
    by (elim insertE emptyE) simp_all
  then obtain k :: nat where "k \<in> set [1, 2, 3, 4, 5, 6, 7, 8, 9, 10]"
    "(freq, v) = (of_nat (2 ^ k), of_nat (16 - k))"
    unfolding set_map by blast
  then show "\<exists>k. 1 \<le> k \<and> k \<le> 10 \<and> freq = of_nat (2 ^ k) \<and> v = of_nat (16 - k)"
    by (intro exI [of _ k]) auto
next
  assume "\<exists>k. 1 \<le> k \<and> k \<le> 10 \<and> freq = of_nat (2 ^ k) \<and> v = of_nat (16 - k)"
  then obtain k :: nat where k: "1 \<le> k" "k \<le> 10"
    and fv: "freq = of_nat (2 ^ k)" "v = of_nat (16 - k)"
    by blast
  from k have "k = 1 \<or> k = 2 \<or> k = 3 \<or> k = 4 \<or> k = 5 \<or> k = 6 \<or> k = 7 \<or> k = 8 \<or> k = 9 \<or> k = 10"
    by presburger
  then show "rtc_select_bits freq = Some v"
    unfolding fv by (elim disjE) (simp_all add: rtc_select_bits_def)
qed

lemma rtc_rate_frequency:
  assumes "rtc_select_bits freq = Some v"
  shows "rtc_frequency (v OR (a AND 0xF0)) = unat freq"
    "(v OR (a AND 0xF0)) AND 0xF0 = a AND 0xF0"
proof -
  have "(v OR (a AND 0xF0)) AND 0x0F = v AND 0x0F" for v a :: u8
    by (simp add: and.assoc bit.conj_disj_distrib2)
  moreover have "(freq, v) \<in> {(2, 15), (4, 14), (8, 13), (16, 12), (32, 11), (64, 10), (128, 9),
      (256, 8), (512, 7), (1024, 6)}"
    using assms by (auto simp: rtc_select_bits_def split: if_splits)
  ultimately show "rtc_frequency (v OR (a AND 0xF0)) = unat freq"
    unfolding rtc_frequency_def by (elim insertE emptyE) simp_all
  have "v AND 0xF0 = 0"
    using \<open>(freq, v) \<in> _\<close> by (elim insertE emptyE) simp_all
  then show "(v OR (a AND 0xF0)) AND 0xF0 = a AND 0xF0"
    by (simp add: and.assoc bit.conj_disj_distrib2)
qed

section \<open>What the clock promises\<close>

lemma rtc_set_rate_io:
  "io (rtc_set_rate v s) =
     (let a = device s (OutB RTC_INDEX_PORT 0x8A # io s) RTC_DATA_PORT
      in OutB RTC_DATA_PORT (v OR (a AND 0xF0)) # OutB RTC_INDEX_PORT 0x8A #
         InB RTC_DATA_PORT a # OutB RTC_INDEX_PORT 0x8A # io s)"
  by (simp add: rtc_set_rate_def port_defs Let_def)

lemma power_of_two_range:
  assumes "1 \<le> k" "k \<le> 10"
  shows "\<not> (of_nat (2 ^ k) <s (2 :: i32)) \<and> \<not> (1024 <s (of_nat (2 ^ k) :: i32))"
proof -
  have lo: "2 ^ 1 \<le> (2 :: nat) ^ k" using assms by (intro power_increasing) simp_all
  have hi: "(2 :: nat) ^ k \<le> 2 ^ 10" using assms by (intro power_increasing) simp_all
  then show ?thesis
    using lo of_nat_sless_iff [of "2 ^ k" 2] of_nat_sless_iff [of 1024 "2 ^ k"] by simp
qed

text \<open>
  \<open>rtc_write\<close> with a power of two from 2 to 1024 programs the chip to just that rate:
  register A is selected, read, selected again and written with the code of the frequency in
  its low four bits and its upper four bits as they were.
\<close>

theorem rtc_write_sets_rate:
  assumes "buf \<noteq> 0" "ld32 (ld8 s) buf = Some (of_nat (2 ^ k))" "1 \<le> k" "k \<le> 10"
  shows "\<exists>s' a v. rtc_write buf 4 s = Some (0, s') \<and> int_flag s' \<and>
    io s' = OutB RTC_DATA_PORT v # OutB RTC_INDEX_PORT 0x8A # InB RTC_DATA_PORT a #
      OutB RTC_INDEX_PORT 0x8A # io s \<and>
    rtc_frequency v = 2 ^ k \<and> v AND 0xF0 = a AND 0xF0"
proof -
  let ?f = "of_nat (2 ^ k) :: i32"
  obtain c where c: "rtc_select_bits ?f = Some c"
    using assms(3,4) rtc_select_bits_power by blast
  have "(2 :: nat) ^ k \<le> 2 ^ 10" using assms by (intro power_increasing) simp_all
  then have u: "unat ?f = 2 ^ k" by (intro unat_of_nat_u32) simp
  have "rtc_write buf 4 s = Some (0, rtc_set_rate c s)"
    using assms(1,2) c power_of_two_range [OF assms(3,4)] by (simp add: rtc_write_def)
  moreover have "int_flag (rtc_set_rate c s)" by (simp add: rtc_set_rate_def port_defs Let_def)
  ultimately show ?thesis
    using rtc_rate_frequency [OF c] rtc_set_rate_io [of c s] u by (auto simp: Let_def)
qed

definition demo_rtc :: "u32 \<Rightarrow> rtc_state" where
  "demo_rtc w = tty_state.extend
     (demo_tty\<lparr>paging := False, phys := (\<lambda>a. if unat (a - 0x1000) < 4 then le_bytes w ! unat (a - 0x1000) else 32)\<rparr>)
     \<lparr>read_wait = 0, rtc_opened = 1\<rparr>"

lemma demo_rtc_ld32: "ld32 (ld8 (demo_rtc w)) 0x1000 = Some w"
proof -
  have "\<not> paging (demo_rtc w)" "phys (demo_rtc w) =
      (\<lambda>a. if unat (a - 0x1000) < 4 then le_bytes w ! unat (a - 0x1000) else 32)"
    by (simp_all add: demo_rtc_def tty_state.defs)
  then have "bytes_at (ld8 (demo_rtc w)) 0x1000 (le_bytes w)"
    by (simp add: bytes_at_def unat_of_nat_u32)
  then show ?thesis by (rule ld32_bytes_at)
qed

theorem rtc_write_sets_rate_witness:
  "\<exists>s' a v. rtc_write 0x1000 4 (demo_rtc 64) = Some (0, s') \<and> int_flag s' \<and>
    io s' = OutB 0x71 v # OutB 0x70 0x8A # InB 0x71 a # OutB 0x70 0x8A # io (demo_rtc 64) \<and>
    rtc_frequency v = 64 \<and> v AND 0xF0 = a AND 0xF0"
  using rtc_write_sets_rate [of "0x1000" "demo_rtc 64" 6] demo_rtc_ld32 [of 64] by simp

text \<open>
  Every other request is refused with -1 and without touching the chip: a null buffer, a
  count that is not 4, and any frequency that is not a power of two from 2 to 1024 (which only
  prints a message).
\<close>

theorem rtc_write_refuses:
  assumes "console s (unat (term_in_service s)) con" "ld32 (ld8 s) buf = Some freq"
    and "buf = 0 \<or> nbytes \<noteq> 4 \<or> (\<nexists>k. 1 \<le> k \<and> k \<le> 10 \<and> freq = of_nat (2 ^ k))"
  shows "\<exists>s'. rtc_write buf nbytes s = Some (-1, s') \<and> elsewhere (unat (term_in_service s)) s s' \<and>
    last_out RTC_DATA_PORT (io s') = last_out RTC_DATA_PORT (io s)"
proof (cases "buf = 0 \<or> nbytes \<noteq> 4")
  case True
  then show ?thesis by (auto simp: rtc_write_def elsewhere_refl)
next
  case False
  then have "rtc_select_bits freq = None"
    using assms(3) rtc_select_bits_power [of freq] by (cases "rtc_select_bits freq") auto
  moreover have "\<exists>s'. puts_lit str s = Some s' \<and> elsewhere (unat (term_in_service s)) s s'"
    if "0 \<notin> set (chars str)" "length str < 2 ^ 31" for str
    using puts_lit_console [OF assms(1) refl that] by blast
  from this [of "''This frequency is out of range.\<newline>''"] this [of "''Frequency given is invalid.\<newline>''"]
  obtain s1 s2 where
    "puts_lit ''This frequency is out of range.\<newline>'' s = Some s1" "elsewhere (unat (term_in_service s)) s s1"
    "puts_lit ''Frequency given is invalid.\<newline>'' s = Some s2" "elsewhere (unat (term_in_service s)) s s2"
    by (auto simp: chars_def)
  ultimately show ?thesis
    using False assms(2) by (auto simp: rtc_write_def elsewhere_def)
qed

lemma console_extend: "console (tty_state.extend s m) t con = console s t con"
  by (simp add: console_def video_ok_def linked_def page_bytes_def frame_for_def tty_state.defs
      split: prod.splits)

theorem rtc_write_refuses_witness:
  "\<exists>s'. rtc_write 0x400000 4 (tty_state.extend demo_tty \<lparr>read_wait = 0, rtc_opened = 0\<rparr>) = Some (-1, s') \<and>
     last_out 0x71 (io s') = 0"
proof -
  let ?s = "tty_state.extend demo_tty \<lparr>read_wait = 0, rtc_opened = 0\<rparr>"
  have sel: "term_in_service ?s = term_in_service demo_tty" "io ?s = io demo_tty"
    "phys ?s = phys demo_tty" "xlate pr ?s = xlate pr demo_tty" for pr
    by (simp_all add: tty_state.defs xlate_def table_at_def fun_eq_iff Let_def)
  have "phys demo_tty a = 32" "io demo_tty = []" for a
    by (simp_all add: demo_tty_def initialize_page_eq)
  moreover have "xlate Supervisor demo_tty (0x400000 + of_nat i) = Some (0x400000 + of_nat i)"
    if "i < 4" for i
    using that region_offset [of 1 i] by (simp add: demo_tty_def boot_xlate_1)
  moreover have "le_bytes 0x20202020 = [32, 32, 32, 32]" by (simp add: le_bytes_def)
  then have "le_bytes 0x20202020 = replicate 4 32"
    by (simp only:) (intro replicate_eqI; auto)
  ultimately have "bytes_at (ld8 ?s) 0x400000 (le_bytes 0x20202020)"
    by (simp add: bytes_at_def ld8_def sel)
  then have l: "ld32 (ld8 ?s) 0x400000 = Some 0x20202020" by (rule ld32_bytes_at)
  have "rtc_select_bits 0x20202020 = None" by (simp add: rtc_select_bits_def)
  then have "\<nexists>k. 1 \<le> k \<and> k \<le> 10 \<and> (0x20202020 :: i32) = of_nat (2 ^ k)"
    using rtc_select_bits_power [of "0x20202020"] by fastforce
  then show ?thesis
    using rtc_write_refuses [of ?s "(replicate 2000 32, 79, 24)" "0x400000" "0x20202020" 4] l
      demo_tty_console(1,3)
    by (auto simp: console_extend sel) (simp add: demo_tty_def initialize_page_eq)
qed

text \<open>
  C38. \<open>rtc_read\<close> answers 0 as soon as the clock has interrupted, and not before: other
  interrupts, as long as they leave the flag of the driver alone, are taken and waited out, and
  without a clock interrupt it never returns.
\<close>

theorem rtc_read_waits:
  assumes "\<And>s. \<exists>s'. other s = Some s' \<and> read_wait s' = read_wait s"
  shows "if True \<in> set irqs
    then \<exists>s'. rtc_read (\<lambda>rtc s. if rtc then Some (rtc_handler s) else other s) irqs s =
      Some (0, drop (Suc (length (takeWhile Not irqs))) irqs, s') \<and> read_wait s' = 0
    else rtc_read (\<lambda>rtc s. if rtc then Some (rtc_handler s) else other s) irqs s = None"
proof -
  let ?irq = "\<lambda>rtc s. if rtc then Some (rtc_handler s) else other s"
  have w: "read_wait (rtc_handler s) = 0" for s :: "'a rtc_state_scheme"
    by (simp add: rtc_handler_def send_eoi_def port_defs Let_def)
  have "read_wait s \<noteq> 0 \<Longrightarrow> if True \<in> set irqs
      then \<exists>s'. spin (\<lambda>s. read_wait s \<noteq> 0) ?irq irqs s =
        Some (drop (Suc (length (takeWhile Not irqs))) irqs, s') \<and> read_wait s' = 0
      else spin (\<lambda>s. read_wait s \<noteq> 0) ?irq irqs s = None" for s
  proof (induction irqs arbitrary: s)
    case (Cons e es)
    show ?case
    proof (cases e)
      case True
      then show ?thesis using Cons.prems w [of s] by (simp add: spin_done)
    next
      case False
      obtain s1 where "other s = Some s1" "read_wait s1 = read_wait s" using assms by blast
      then show ?thesis using False Cons.prems Cons.IH [of s1] by simp
    qed
  qed simp
  from this [of "s\<lparr>read_wait := 1\<rparr>"] show ?thesis by (auto simp: rtc_read_def split: if_splits)
qed

theorem rtc_read_waits_witness:
  "\<exists>s'. rtc_read (\<lambda>rtc s. if rtc then Some (rtc_handler s) else Some s) [False, True, False] (demo_rtc 2) =
     Some (0, [False], s') \<and> read_wait s' = 0"
  using rtc_read_waits [of Some "[False, True, False]" "demo_rtc 2"] by simp

end
