(* ===== verification/Keyboard.thy ===== *)
theory Keyboard
  imports Rtc
begin

text \<open>
  The keyboard driver \<open>keyboard.c\<close>: scan codes and modifier keys, the line being edited, the
  switch between the three terminals, and the interrupt handler that puts them together. Each
  block of the handler is a definition of its own, in the order of the code.
\<close>

section \<open>State and tables\<close>

abbreviation (input) "BUFSIZE \<equiv> (128 :: nat)"
abbreviation (input) "SHIFT \<equiv> (128 :: u8)"
abbreviation (input) "CAPSLOCK \<equiv> (129 :: u8)"
abbreviation (input) "BACKSPACE \<equiv> (8 :: u8)"
abbreviation (input) "CTRL \<equiv> (130 :: u8)"
abbreviation (input) "ENTER \<equiv> (10 :: u8)"
abbreviation (input) "F1 \<equiv> (131 :: u8)"
abbreviation (input) "F2 \<equiv> (132 :: u8)"
abbreviation (input) "F3 \<equiv> (133 :: u8)"
abbreviation (input) "ALT \<equiv> (134 :: u8)"

record kbd_state = rtc_state +
  term_bufs :: "u8 list list"
  shift_pressed :: u8
  capslock_pressed :: u8
  ctrl_pressed :: u8
  alt_pressed :: u8
  print_me :: u8
  kbd_buf :: "u8 list"
  kbd_buf_idx :: u8
  x_start :: u32
  y_start :: u32
  freq_idx :: i32

definition freqs :: "i32 list" where
  "freqs = [2, 4, 8, 16, 32, 64, 128, 256, 512, 1024]"

definition kbdus :: "u8 list" where
  "kbdus = [
     0, 27, 49, 50, 51, 52, 53, 54, 55, 56, 57, 48, 45, 61, 8, 9,
     113, 119, 101, 114, 116, 121, 117, 105, 111, 112, 91, 93, 10, 130, 97, 115,
     100, 102, 103, 104, 106, 107, 108, 59, 39, 96, 128, 92, 122, 120, 99, 118,
     98, 110, 109, 44, 46, 47, 128, 42, 134, 32, 129, 131, 132, 133, 0, 0,
     0, 0, 0, 0, 0, 0, 0, 0, 0, 0, 45, 0, 0, 0, 43, 0,
     0, 0, 0, 0, 0, 0, 0, 0, 0, 0, 0, 0, 0, 0, 0, 0,
     0, 0, 0, 0, 0, 0, 0, 0, 0, 0, 0, 0, 0, 0, 0, 0,
     0, 0, 0, 0, 0, 0, 0, 0, 0, 0, 0, 0, 0, 0, 0, 0]"

section \<open>The blocks of the handler\<close>

definition flush_kbd_buf :: "'a kbd_state_scheme \<Rightarrow> 'a kbd_state_scheme option" where
  "flush_kbd_buf s = do {
     b \<leftarrow> memset sto 0 0 128 (kbd_buf s);
     Some (s\<lparr>kbd_buf := b, kbd_buf_idx := 0\<rparr>)
   }"

text \<open>\<open>term_cursor_x[cur_term_num] = get_screen_x()\<close> and the same for \<open>y\<close>.\<close>

definition save_cursor :: "u8 \<Rightarrow> 'a tty_state_scheme \<Rightarrow> 'a tty_state_scheme option" where
  "save_cursor cur s = do {
     s \<leftarrow> set_term_cursor_x (ucast cur) (screen_x s) s;
     set_term_cursor_y (ucast cur) (screen_y s) s
   }"

definition move_cursor :: "u8 \<Rightarrow> i32 \<Rightarrow> i32 \<Rightarrow> 'a tty_state_scheme \<Rightarrow> 'a tty_state_scheme option" where
  "move_cursor cur x y s = save_cursor cur (update_cursor x y (set_screen_coords x y s))"

definition key_release :: "u8 \<Rightarrow> 'a kbd_state_scheme \<Rightarrow> 'a kbd_state_scheme option" where
  "key_release scancode s = do {
     scan_char \<leftarrow> arr_get kbdus (unat (scancode AND 0x7F));
     Some (if scan_char = SHIFT then s\<lparr>shift_pressed := 0\<rparr>
       else if scan_char = CTRL then s\<lparr>ctrl_pressed := 0\<rparr>
       else if scan_char = ALT then s\<lparr>alt_pressed := 0\<rparr>
       else s)
   }"

definition key_modifiers :: "u8 \<Rightarrow> 'a kbd_state_scheme \<Rightarrow> 'a kbd_state_scheme" where
  "key_modifiers scan_char s =
     (let s = (if 0x20 \<le> scan_char \<and> scan_char < 0x7F \<and> ctrl_pressed s = 0
            then s\<lparr>print_me := 1\<rparr> else s\<lparr>print_me := 0\<rparr>)
      in if scan_char = SHIFT then s\<lparr>shift_pressed := 1\<rparr>
        else if scan_char = CAPSLOCK then
          s\<lparr>capslock_pressed := (if capslock_pressed s = 0 then 1 else 0)\<rparr>
        else if scan_char = CTRL then s\<lparr>ctrl_pressed := 1\<rparr>
        else if scan_char = ALT then s\<lparr>alt_pressed := 1\<rparr>
        else s)"

text \<open>The swap of the displays; \<open>cur\<close> is the handler's copy of the displayed terminal.\<close>

definition switch_terminal :: "u8 \<Rightarrow> u8 \<Rightarrow> 'a kbd_state_scheme \<Rightarrow> 'a kbd_state_scheme option" where
  "switch_terminal cur new_term s = do {
     let vidmem = VIM_MEM_INDEX;
     let cur_term_mem = ONE_GIG + FOUR_KB * (ucast cur + 1);
     let new_term_mem = ONE_GIG + FOUR_KB * (ucast new_term + 1);
     s \<leftarrow> memcpy ld8 st8 cur_term_mem vidmem FOUR_KB s;
     s \<leftarrow> memcpy ld8 st8 vidmem new_term_mem FOUR_KB s;
     b \<leftarrow> arr_get (term_bufs s) (unat cur);
     b \<leftarrow> memcpy (\<lambda>_. ldo (kbd_buf s)) sto 0 0 128 b;
     let s = s\<lparr>term_bufs := (term_bufs s)[unat cur := b]\<rparr>;
     tb \<leftarrow> arr_get (term_bufs s) (unat new_term);
     b \<leftarrow> memcpy (\<lambda>_. ldo tb) sto 0 0 128 (kbd_buf s);
     let s = s\<lparr>kbd_buf := b\<rparr>;
     x \<leftarrow> get_term_cursor_x (ucast new_term) s;
     y \<leftarrow> get_term_cursor_y (ucast new_term) s;
     let s = set_screen_coords x y s;
     let s = update_cursor x y s;
     Some (set_cur_term new_term s)
   }"

definition alt_keys :: "u8 \<Rightarrow> u8 \<Rightarrow> 'a kbd_state_scheme \<Rightarrow> 'a kbd_state_scheme option" where
  "alt_keys cur scan_char s =
     (if alt_pressed s = 1 \<and> (scan_char = F1 \<or> scan_char = F2 \<or> scan_char = F3) then
        (let new_term = (if scan_char = F1 then 0 else if scan_char = F2 then 1 else 2)
         in if cur \<noteq> new_term then switch_terminal cur new_term s else Some s)
      else Some s)"

text \<open>An uninitialised pointer holds what the stack held.\<close>

definition stack_word :: "'a fs_state_scheme \<Rightarrow> u32 option" where
  "stack_word s = ld32 (ldo (stack_junk s)) 0"

definition ctrl_keys :: "u8 \<Rightarrow> u8 \<Rightarrow> 'a kbd_state_scheme \<Rightarrow> 'a kbd_state_scheme option" where
  "ctrl_keys cur scan_char s =
     (if ctrl_pressed s \<noteq> 1 then Some s
      else if scan_char = of_char (CHR ''l'') then do {
        s \<leftarrow> clear s;
        let s = update_cursor 0 0 s;
        let s = set_screen_coords 0 0 s;
        save_cursor cur s
      }
      else if scan_char = of_char (CHR ''1'') then do {
        s \<leftarrow> clear s;
        let s = update_cursor 0 0 s;
        let s = set_screen_coords 0 0 s;
        s \<leftarrow> save_cursor cur s;
        let s = s\<lparr>freq_idx := freq_idx s + 1\<rparr>;
        let s = (if freq_idx s = 10 then s\<lparr>freq_idx := 0\<rparr> else s);
        freq \<leftarrow> arr_get freqs (unat (freq_idx s));
        s \<leftarrow> printf_lit ''Testing freq: %d\<newline>'' [freq] s;
        buf \<leftarrow> stack_word s;
        (_, s) \<leftarrow> rtc_write buf freq s;
        Some s
      }
      else if scan_char = of_char (CHR ''2'') then do {
        s \<leftarrow> puts_lit ''\<newline>Resetting RTC!\<newline>'' s;
        (_, s) \<leftarrow> rtc_close s;
        let (_, s) = rtc_open s;
        Some s
      }
      else Some s)"

definition backspace_key :: "u8 \<Rightarrow> u8 \<Rightarrow> 'a kbd_state_scheme \<Rightarrow> 'a kbd_state_scheme option" where
  "backspace_key cur scan_char s =
     (if scan_char \<noteq> BACKSPACE then Some s
      else do {
        let (curr_x, curr_y) =
          (if screen_x s = 0 \<and> screen_y s = 0 then (screen_x s, screen_y s)
           else if screen_x s \<noteq> x_start s then (screen_x s - 1, screen_y s)
           else if screen_y s > y_start s then (80, screen_y s - 1)
           else (screen_x s, screen_y s));
        let s = update_cursor curr_x curr_y s;
        let s = set_screen_coords curr_x curr_y s;
        s \<leftarrow> save_cursor cur s;
        s \<leftarrow> clear_char s;
        b \<leftarrow> arr_set (unat (kbd_buf_idx s)) 0 (kbd_buf s);
        Some (s\<lparr>kbd_buf := b, kbd_buf_idx := kbd_buf_idx s - 1\<rparr>)
      })"

definition enter_key :: "u8 \<Rightarrow> u8 \<Rightarrow> 'a kbd_state_scheme \<Rightarrow> 'a kbd_state_scheme option" where
  "enter_key cur scan_char s =
     (if scan_char \<noteq> ENTER then Some s
      else do {
        s \<leftarrow> send_buffer (kbd_buf s) s;
        s \<leftarrow> flush_kbd_buf s;
        curr_y \<leftarrow> get_term_cursor_y (ucast cur) s;
        s \<leftarrow> (if curr_y = 25 - 1 then scroll s else Some s);
        let curr_y = (if curr_y = 25 - 1 then curr_y else curr_y + 1);
        s \<leftarrow> move_cursor cur 0 curr_y s;
        Some (s\<lparr>x_start := 0, y_start := curr_y\<rparr>)
      })"

text \<open>
  The character a key stands for under SHIFT and CAPSLOCK; the table is the \<open>switch\<close> from
  backquote to slash, by the codes of the characters.
\<close>

definition shift_symbol :: "u8 \<Rightarrow> u8" where
  "shift_symbol c = (case map_of (zip
     [96, 49, 50, 51, 52, 53, 54, 55, 56, 57, 48, 45, 61, 91, 93, 92, 59, 39, 44, 46, 47]
     [126, 33, 64, 35, 36, 37, 94, 38, 42, 40, 41, 95, 43, 123, 125, 124, 58, 34, 60, 62, 63]) c of
     Some d \<Rightarrow> d | None \<Rightarrow> c)"

definition shift_char :: "u8 \<Rightarrow> u8 \<Rightarrow> u8 \<Rightarrow> u8" where
  "shift_char shift caps scan_char =
     (let c = (if shift XOR caps \<noteq> 0 \<and> 0x60 < scan_char \<and> scan_char < 0x7B
            then scan_char - 0x20 else scan_char)
      in if shift \<noteq> 0 then shift_symbol c else c)"

definition print_key :: "u8 \<Rightarrow> u8 \<Rightarrow> 'a kbd_state_scheme \<Rightarrow> 'a kbd_state_scheme option" where
  "print_key cur scan_char s =
     (if print_me s \<noteq> 1 then Some s
      else do {
        let curr_x = screen_x s;
        let curr_y = screen_y s;
        s \<leftarrow> (if curr_x = 80 - 1 then
            if curr_y = 25 - 1 then do { s \<leftarrow> scroll s; move_cursor cur 0 curr_y s }
            else move_cursor cur 0 (curr_y + 1) s
          else Some s);
        s \<leftarrow> putc scan_char s;
        s \<leftarrow> (if kbd_buf_idx s > 127 then flush_kbd_buf s else Some s);
        b \<leftarrow> arr_set (unat (kbd_buf_idx s)) scan_char (kbd_buf s);
        Some (s\<lparr>kbd_buf := b, kbd_buf_idx := kbd_buf_idx s + 1\<rparr>)
      })"

definition key_press :: "u8 \<Rightarrow> u8 \<Rightarrow> 'a kbd_state_scheme \<Rightarrow> 'a kbd_state_scheme option" where
  "key_press cur scancode s = do {
     scan_char \<leftarrow> arr_get kbdus (unat scancode);
     let s = key_modifiers scan_char s;
     s \<leftarrow> alt_keys cur scan_char s;
     s \<leftarrow> ctrl_keys cur scan_char s;
     s \<leftarrow> backspace_key cur scan_char s;
     s \<leftarrow> enter_key cur scan_char s;
     let scan_char = shift_char (shift_pressed s) (capslock_pressed s) scan_char;
     print_key cur scan_char s
   }"

definition keyboard_handler :: "'a kbd_state_scheme \<Rightarrow> 'a kbd_state_scheme option" where
  "keyboard_handler s = do {
     let temp_vidmap = page_table_vid s 0;
     let s = s\<lparr>page_table_vid := (page_table_vid s)(0 := VIM_MEM_INDEX OR RW OR PRESENT OR USER)\<rparr>;
     let cur = get_cur_term s;
     let term_save = get_term_in_service s;
     let s = set_term_in_service cur s;
     let s = (if get_override s \<noteq> 0
       then set_override 0 (s\<lparr>x_start := get_x_start_tw s, y_start := get_y_start_tw s\<rparr>) else s);
     let s = disable_irq 1 s;
     let (scancode, s) = inb 0x60 s;
     s \<leftarrow> (if scancode AND 0x80 \<noteq> 0 then key_release scancode s else key_press cur scancode s);
     let s = s\<lparr>page_table_vid := (page_table_vid s)(0 := temp_vidmap)\<rparr>;
     let s = set_term_in_service term_save s;
     let s = send_eoi 1 s;
     Some (enable_irq 1 s)
   }"

section \<open>The pages behind the terminals\<close>

text \<open>
  The display and the three backing pages, as the kernel reaches them while it swaps screens:
  the display at its physical address, the others through the window. \<open>screens_mapped\<close> is what
  \<open>initialize_page\<close> leaves in the tables for them; only entry 0 of the window changes later.
\<close>

definition screens_mapped :: "'a mach_scheme \<Rightarrow> bool" where
  "screens_mapped s \<longleftrightarrow> video_ok s \<and> page_directory s 0 = page_table_at s OR 3 \<and>
     page_table s 0xB8 = VIM_MEM_INDEX OR 7 \<and>
     (\<forall>i. 1 \<le> i \<longrightarrow> i < 4 \<longrightarrow> page_table_vid s i = (VIM_MEM_INDEX + of_nat i * FOUR_KB) OR 7)"

definition slot_page :: "nat \<Rightarrow> u32" where
  "slot_page i = VIM_MEM_INDEX + of_nat i * FOUR_KB"

definition slot_addr :: "nat \<Rightarrow> u32" where
  "slot_addr i = (if i = 0 then VIM_MEM_INDEX else ONE_GIG + of_nat i * FOUR_KB)"

lemma initialize_page_screens_mapped:
  assumes "linked s"
  shows "screens_mapped (initialize_page s)"
proof -
  have "page_table_vid (initialize_page s) i = (VIM_MEM_INDEX + of_nat i * FOUR_KB) OR 7"
    if "1 \<le> i" "i < 4" for i
  proof -
    have "i = 1 \<or> i = 2 \<or> i = 3" using that by auto
    then show ?thesis by (elim disjE) (simp_all add: initialize_page_eq)
  qed
  moreover have "page_directory (initialize_page s) 0 = page_table_at s OR 3"
    "page_table (initialize_page s) 0xB8 = VIM_MEM_INDEX OR 7"
    by (simp_all add: initialize_page_eq low_entry_def)
  ultimately show ?thesis
    using initialize_page_video_ok [OF assms] by (simp add: screens_mapped_def initialize_page_at)
qed

lemma small_address:
  assumes "n < 2 ^ 32"
  shows "region (of_nat n) = n div 2 ^ 22" "page_in_region (of_nat n) = n div 2 ^ 12 mod 2 ^ 10"
    "take_bit 12 (of_nat n :: u32) = of_nat (n mod 2 ^ 12)"
proof -
  have u: "unat (of_nat n :: u32) = n" using assms by (rule unat_of_nat_u32)
  have m: "n mod 2 ^ 32 = n" using assms by simp
  show "region (of_nat n) = n div 2 ^ 22"
    using m by (simp add: region_def unsigned_drop_bit_eq drop_bit_nat_def take_bit_nat_def u)
  show "page_in_region (of_nat n) = n div 2 ^ 12 mod 2 ^ 10"
    using m by (simp add: page_in_region_def unsigned_drop_bit_eq unsigned_take_bit_eq
        drop_bit_nat_def take_bit_nat_def u)
  have "unat (take_bit 12 (of_nat n :: u32)) = n mod 2 ^ 12"
    by (simp add: unsigned_take_bit_eq take_bit_nat_def u)
  then have "(of_nat (unat (take_bit 12 (of_nat n :: u32))) :: u32) = of_nat (n mod 2 ^ 12)"
    by (simp only:)
  then show "take_bit 12 (of_nat n :: u32) = of_nat (n mod 2 ^ 12)" by simp
qed

lemma page_offset:
  assumes "k < 4096" "p < 0xFFFFF"
  shows "region (of_nat (p * 4096 + k)) = p div 1024"
    "page_in_region (of_nat (p * 4096 + k)) = p mod 1024"
    "take_bit 12 (of_nat (p * 4096 + k) :: u32) = of_nat k"
proof -
  have n: "p * 4096 + k < 2 ^ 32" using assms by simp
  have d: "(p * 4096 + k) div 2 ^ 12 = p" "(p * 4096 + k) mod 2 ^ 12 = k"
    using assms(1) by simp_all
  have "(p * 4096 + k) div 2 ^ 22 = (p * 4096 + k) div 2 ^ 12 div 2 ^ 10"
    by (simp only: div_mult2_eq [symmetric]) simp
  with small_address [OF n] d show "region (of_nat (p * 4096 + k)) = p div 1024"
    "page_in_region (of_nat (p * 4096 + k)) = p mod 1024"
    "take_bit 12 (of_nat (p * 4096 + k) :: u32) = of_nat k"
    by simp_all
qed

lemma slot_xlate:
  assumes s: "screens_mapped s" and i: "i < 4" and k: "k < 4096"
  shows "xlate Supervisor s (slot_addr i + of_nat k) = Some (slot_page i + of_nat k)"
proof -
  have l: "linked s" "paging s" "page_directory s 256 = page_table_vid_at s OR 7"
    "page_directory s 0 = page_table_at s OR 3" "page_table s 0xB8 = VIM_MEM_INDEX OR 7"
    "take_bit 12 (page_table_vid_at s) = 0" "take_bit 12 (page_table_at s) = 0"
    using s by (simp_all add: screens_mapped_def video_ok_def linked_def)
  have al: "take_bit 12 (slot_page i) = 0" unfolding slot_page_def by (rule vid_page_aligned)
  have offset: "slot_page i OR of_nat k = slot_page i + of_nat k"
    using aligned_or_offset [OF al, of "of_nat (0 * 4096 + k)"] page_offset(3) [OF k, of 0] by simp
  show ?thesis
  proof (cases "i = 0")
    case True
    have a: "slot_addr i + of_nat k = of_nat (0xB8 * 4096 + k)" by (simp add: slot_addr_def True)
    have "table_at s (page_table_at s) = Some (page_table s)" by (simp add: table_at_def)
    moreover have "allows Supervisor 0xB8007" "frame_of 0xB8007 = VIM_MEM_INDEX"
      by (simp_all add: allows_def frame_of_def)
    ultimately show ?thesis
      unfolding a using l al offset page_offset [OF k, of "0xB8"]
      by (subst xlate_small [where e = "page_table_at s OR 3" and t = "page_table s"])
        (simp_all add: allows_table big_page_bit frame_of_table slot_page_def True)
  next
    case False
    then have e: "page_table_vid s i = slot_page i OR 7"
      using s i by (simp add: screens_mapped_def slot_page_def)
    have a: "slot_addr i + of_nat k = of_nat ((0x40000 + i) * 4096 + k)"
      using False by (simp add: slot_addr_def algebra_simps)
    have "i = 0 \<or> i = 1 \<or> i = 2 \<or> i = 3" using i by auto
    then have "(0x40000 + i) div 1024 = 256" "(0x40000 + i) mod 1024 = i" by (elim disjE; simp)+
    then show ?thesis
      unfolding a using l al offset e i page_offset [OF k, of "0x40000 + i"] table_at_vid [of s]
      by (subst xlate_small [where e = "page_table_vid_at s OR 7" and t = "page_table_vid s"])
        (simp_all add: allows_table big_page_bit frame_of_table)
  qed
qed

lemma slot_page_nat: "slot_page i + of_nat k = of_nat ((0xB8 + i) * 4096 + k)"
  by (simp add: slot_page_def algebra_simps)

lemma slot_page_inj:
  assumes "i < 4" "j < 4" "k < 4096" "l < 4096" "slot_page i + of_nat k = slot_page j + of_nat l"
  shows "i = j \<and> k = l"
proof -
  have "(0xB8 + i) * 4096 + k = (0xB8 + j) * 4096 + l"
    using assms of_nat_eq_u32_iff [of "(0xB8 + i) * 4096 + k" "(0xB8 + j) * 4096 + l"]
    unfolding slot_page_nat by simp
  moreover have "(q * 4096 + r) div 4096 = q" if "r < 4096" for q r :: nat using that by simp
  ultimately have "0xB8 + i = 0xB8 + j" using assms(3,4) by metis
  with \<open>(0xB8 + i) * 4096 + k = (0xB8 + j) * 4096 + l\<close> show ?thesis by simp
qed

lemma slot_page_bytes:
  assumes "screens_mapped s" "i < 4"
  shows "bytes_at (ld8 s) (slot_addr i) (page_bytes s (slot_page i))"
  using slot_xlate [OF assms] by (simp add: bytes_at_def ld8_def page_bytes_def)

lemma slot_page_readback:
  assumes "screens_mapped s" "i < 4" "bytes_at (ld8 s) (slot_addr i) bs" "length bs = 4096"
  shows "page_bytes s (slot_page i) = bs"
proof (rule nth_equalityI)
  fix k assume "k < length (page_bytes s (slot_page i))"
  then have k: "k < 4096" by simp
  then have "ld8 s (slot_addr i + of_nat k) = Some (bs ! k)"
    using bytes_at_nth [OF assms(3)] assms(4) by simp
  with slot_xlate [OF assms(1,2) k] k show "page_bytes s (slot_page i) ! k = bs ! k"
    by (simp add: ld8_def page_bytes_def)
qed (simp add: assms(4))

lemma screens_mapped_phys [simp]: "screens_mapped (s\<lparr>phys := p\<rparr>) = screens_mapped s"
  by (simp add: screens_mapped_def video_ok_def linked_def)

lemma slots_apart:
  assumes "screens_mapped s" "i < 4" "j < 4" "i \<noteq> j"
  shows "apart (xlate Supervisor) s (slot_addr i) 4096 (slot_addr j) 4096"
  using slot_xlate [OF assms(1)] slot_page_inj assms by (fastforce simp: apart_def outside_def)

lemma copy_slot:
  assumes s: "screens_mapped s" and ij: "i < 4" "j < 4" "i \<noteq> j"
  shows "\<exists>s'. memcpy ld8 st8 (slot_addr i) (slot_addr j) FOUR_KB s = Some s' \<and>
    s' = s\<lparr>phys := phys s'\<rparr> \<and> page_bytes s' (slot_page i) = page_bytes s (slot_page j) \<and>
    (\<forall>k < 4. k \<noteq> i \<longrightarrow> page_bytes s' (slot_page k) = page_bytes s (slot_page k))"
proof -
  have u: "unat FOUR_KB = 4096" by simp
  have ok: "range_ok (xlate Supervisor) s (slot_addr i) 4096"
    using slot_xlate [OF s ij(1)] slot_page_inj [OF ij(1) ij(1)] by (auto simp: range_ok_def)
  have "\<exists>s'. memcpy ld8 st8 (slot_addr i) (slot_addr j) FOUR_KB s = Some s' \<and>
      mem_stored s (slot_addr i) (page_bytes s (slot_page j)) s'"
    using ok slot_page_bytes [OF s ij(2)] slots_apart [OF s ij]
    by (intro kmem.memcpy_stored) (simp_all add: kmem.ready_def kmem.feeds_self)
  then obtain s' where m: "memcpy ld8 st8 (slot_addr i) (slot_addr j) FOUR_KB s = Some s'"
    and st: "mem_stored s (slot_addr i) (page_bytes s (slot_page j)) s'" by blast
  have p: "s' = s\<lparr>phys := phys s'\<rparr>" using st by (rule mem_stored_phys)
  have s': "screens_mapped s'" using s by (subst p) simp
  have "page_bytes s' (slot_page i) = page_bytes s (slot_page j)"
    using st by (intro slot_page_readback [OF s' ij(1)]) (simp_all add: stored_def)
  moreover have "page_bytes s' (slot_page k) = page_bytes s (slot_page k)" if "k < 4" "k \<noteq> i" for k
  proof (rule slot_page_readback [OF s' \<open>k < 4\<close>])
    show "bytes_at (ld8 s') (slot_addr k) (page_bytes s (slot_page k))"
      using slots_apart [OF s ij(1) \<open>k < 4\<close>] that slot_page_bytes [OF s \<open>k < 4\<close>]
      by (intro kmem.stored_keeps [OF st, where k = 4096]) simp_all
  qed simp
  ultimately show ?thesis using m p by blast
qed

lemma slot_addr_0: "VIM_MEM_INDEX = slot_addr 0"
  by (simp add: slot_addr_def)

lemma obj_copy:
  assumes "length a = 128" "length b = 128"
  shows "memcpy (\<lambda>_. ldo a) sto 0 0 128 b = Some a"
proof -
  have "\<exists>b'. memcpy (\<lambda>_. ldo a) sto 0 0 128 b = Some b' \<and> stored obj_cell ldo length b 0 a b'"
    using assms
    by (intro obj.memcpy_stored) (simp_all add: obj.ready_def obj_range_ok obj.feeds_const obj_bytes_at)
  then show ?thesis using obj_stored [of b 0 a] assms by auto
qed

text \<open>The three screens survive the swap; the line being edited follows its terminal.\<close>

lemma frame_for_slot_page:
  "frame_for s t = slot_page (if t = unat (cur_term_num s) then 0 else t + 1)"
  by (simp add: frame_for_def slot_page_def)

lemma switch_terminal_screens:
  assumes s: "screens_mapped s" and con: "console s (unat new_term) con"
    and t: "cur = cur_term_num s" "unat cur < 3" "new_term \<noteq> cur"
    and len: "length (kbd_buf s) = 128" "length (term_bufs s) = 3" "\<forall>b \<in> set (term_bufs s). length b = 128"
  shows "\<exists>s'. switch_terminal cur new_term s = Some s' \<and> cur_term_num s' = new_term \<and>
    kbd_buf s' = term_bufs s ! unat new_term \<and> term_bufs s' = (term_bufs s)[unat cur := kbd_buf s] \<and>
    (\<forall>u con. console s u con \<longrightarrow> console s' u con)"
proof -
  have nt: "unat new_term < 3" using con by (auto simp: console_def split: prod.splits)
  have addr: "ONE_GIG + FOUR_KB * (ucast t + 1) = slot_addr (unat t + 1)" for t :: u8
    by (simp add: slot_addr_def algebra_simps)
  have neq: "unat new_term \<noteq> unat cur" using t(3) unat_eqD by blast
  obtain s1 where s1: "memcpy ld8 st8 (slot_addr (unat cur + 1)) (slot_addr 0) FOUR_KB s = Some s1"
    "s1 = s\<lparr>phys := phys s1\<rparr>" "page_bytes s1 (slot_page (unat cur + 1)) = page_bytes s (slot_page 0)"
    "\<forall>k < 4. k \<noteq> unat cur + 1 \<longrightarrow> page_bytes s1 (slot_page k) = page_bytes s (slot_page k)"
    using copy_slot [OF s, of "unat cur + 1" 0] t(2) by auto
  have m1: "screens_mapped s1" using s by (subst s1(2)) simp
  obtain s2 where s2: "memcpy ld8 st8 (slot_addr 0) (slot_addr (unat new_term + 1)) FOUR_KB s1 = Some s2"
    "s2 = s1\<lparr>phys := phys s2\<rparr>"
    "page_bytes s2 (slot_page 0) = page_bytes s1 (slot_page (unat new_term + 1))"
    "\<forall>k < 4. k \<noteq> 0 \<longrightarrow> page_bytes s2 (slot_page k) = page_bytes s1 (slot_page k)"
    using copy_slot [OF m1, of 0 "unat new_term + 1"] nt by auto
  have e: "s2 = s\<lparr>phys := phys s2\<rparr>" by (subst s2(2), subst s1(2)) simp
  have sel: "term_bufs s2 = term_bufs s" "kbd_buf s2 = kbd_buf s" "term_cursor_x s2 = term_cursor_x s"
    "term_cursor_y s2 = term_cursor_y s" "cur_term_num s2 = cur_term_num s"
    by (subst e, simp)+
  let ?bufs = "(term_bufs s)[unat cur := kbd_buf s]"
  have b: "length (term_bufs s ! unat cur) = 128" "length (term_bufs s ! unat new_term) = 128"
    using len t(2) nt by auto
  define s3 where "s3 = s2\<lparr>term_bufs := ?bufs, kbd_buf := term_bufs s ! unat new_term\<rparr>"
  define s' where "s' = set_cur_term new_term (update_cursor (term_cursor_x s ! unat new_term)
    (term_cursor_y s ! unat new_term) (set_screen_coords (term_cursor_x s ! unat new_term)
    (term_cursor_y s ! unat new_term) s3))"
  have cl: "length (term_cursor_x s) = 3" "length (term_cursor_y s) = 3"
    using con by (auto simp: console_def split: prod.splits)
  have "switch_terminal cur new_term s = Some s'"
    unfolding switch_terminal_def Let_def addr slot_addr_0
    using s1(1) s2(1) t(2) nt neq len b cl sel
    by (simp add: obj_copy get_term_cursor_x_def get_term_cursor_y_def s'_def s3_def)
  moreover have s': "phys s' = phys s2" "cur_term_num s' = new_term" "term_cursor_x s' = term_cursor_x s"
    "term_cursor_y s' = term_cursor_y s" "paging s' = paging s" "page_directory s' = page_directory s"
    "page_table_at s' = page_table_at s" "page_table_vid_at s' = page_table_vid_at s"
    by (simp_all add: s'_def s3_def update_cursor_def set_screen_coords_def set_cur_term_def outb_def
        Let_def sel) (subst e, simp)+
  moreover have "kbd_buf s' = term_bufs s ! unat new_term" "term_bufs s' = ?bufs"
    by (simp_all add: s'_def s3_def update_cursor_def set_screen_coords_def set_cur_term_def outb_def Let_def)
  moreover have "console s' u con'" if "console s u con'" for u con'
  proof -
    have "page_bytes s' (frame_for s' u) = page_bytes s (frame_for s u)"
    proof -
      have "u < 3" using that by (auto simp: console_def split: prod.splits)
      have p: "page_bytes s' F = page_bytes s2 F" for F by (simp add: page_bytes_def s' )
      have "page_bytes s2 (slot_page (if u = unat new_term then 0 else u + 1)) =
          page_bytes s (slot_page (if u = unat cur then 0 else u + 1))"
        using s1(3,4) s2(3,4) \<open>u < 3\<close> nt t(2) neq by (cases "u = unat new_term"; cases "u = unat cur") auto
      then show ?thesis
        unfolding frame_for_slot_page p using t(1) by (simp add: s')
    qed
    then show ?thesis
      using that by (simp add: console_def video_ok_def linked_def s' sel split: prod.splits)
  qed
  ultimately show ?thesis by blast
qed

section \<open>Keys on the displayed terminal\<close>

lemma console_cong:
  assumes "phys s' = phys s" "paging s' = paging s" "page_directory s' = page_directory s"
    "page_table_at s' = page_table_at s" "page_table_vid_at s' = page_table_vid_at s"
    "cur_term_num s' = cur_term_num s" "term_cursor_x s' = term_cursor_x s"
    "term_cursor_y s' = term_cursor_y s"
  shows "console s' t con = console s t con"
  using assms by (simp add: console_def video_ok_def linked_def frame_for_def page_bytes_def split: prod.splits)

definition others_kept :: "nat \<Rightarrow> 'a tty_state_scheme \<Rightarrow> 'b tty_state_scheme \<Rightarrow> bool" where
  "others_kept t s s' \<longleftrightarrow> (\<forall>u con. u \<noteq> t \<longrightarrow> console s u con \<longrightarrow> console s' u con)"

lemma others_kept_trans: "others_kept t s s1 \<Longrightarrow> others_kept t s1 s2 \<Longrightarrow> others_kept t s s2"
  by (simp add: others_kept_def)

lemma others_kept_elsewhere: "elsewhere t s s' \<Longrightarrow> console s' t con \<Longrightarrow> others_kept t s s'"
  using console_elsewhere by (simp add: others_kept_def) blast

lemma scroll_displayed:
  assumes "displays s F"
  shows "\<exists>s'. scroll s = Some s' \<and> s' = s\<lparr>phys := phys s'\<rparr> \<and>
    glyphs (page_bytes s' F) = drop 80 (glyphs (page_bytes s F)) @ replicate 80 32 \<and>
    (\<forall>a. \<not> unat (a - F) < 4096 \<longrightarrow> phys s' a = phys s a)"
proof -
  let ?bs = "fold scroll_cell [80..<2000] (page_bytes s F)"
  have "scroll s = Some (with_page F ?bs s)"
    using page_scroll [OF assms, of "page_bytes s F"] by (simp add: with_page_self)
  moreover have "glyphs (page_bytes (with_page F ?bs s) F) = drop 80 (glyphs (page_bytes s F)) @ replicate 80 32"
    using page_bytes_with_page [of ?bs F s] glyphs_scroll [of "page_bytes s F"] by simp
  ultimately show ?thesis by (simp add: with_page_def)
qed

lemma update_cursor_io:
  "\<exists>l. update_cursor x y s = s\<lparr>io := l\<rparr> \<and>
     (\<forall>p. p \<noteq> 0x3D4 \<longrightarrow> p \<noteq> 0x3D5 \<longrightarrow> last_out p l = last_out p (io s))"
  by (auto simp: update_cursor_def outb_def Let_def)

lemma move_cursor_console:
  assumes c: "console s (unat cur) (g, x, y)" and xy: "x' < 80" "y' < 25"
  shows "\<exists>s'. move_cursor cur (of_nat x') (of_nat y') s = Some s' \<and>
    console s' (unat cur) (g, x', y') \<and> elsewhere (unat cur) s s' \<and>
    phys s' = phys s \<and> page_table_vid s' = page_table_vid s \<and>
    screen_x s' = of_nat x' \<and> screen_y s' = of_nat y'"
proof -
  let ?s1 = "set_screen_coords (of_nat x') (of_nat y') s"
  obtain l where l: "update_cursor (of_nat x') (of_nat y') ?s1 = ?s1\<lparr>io := l\<rparr>"
    "\<forall>p. p \<noteq> 0x3D4 \<longrightarrow> p \<noteq> 0x3D5 \<longrightarrow> last_out p l = last_out p (io s)"
    using update_cursor_io [of "of_nat x'" "of_nat y'" ?s1] by (auto simp: set_screen_coords_def)
  let ?s' = "?s1\<lparr>io := l, term_cursor_x := (term_cursor_x s)[unat cur := of_nat x'],
    term_cursor_y := (term_cursor_y s)[unat cur := of_nat y']\<rparr>"
  have "move_cursor cur (of_nat x') (of_nat y') s = Some ?s'"
    unfolding move_cursor_def save_cursor_def l(1)
    using c by (simp add: set_term_cursor_x_def set_term_cursor_y_def set_screen_coords_def console_def)
  moreover have "console ?s' (unat cur) (g, x', y')"
    using c xy by (simp add: console_def set_screen_coords_def video_ok_def linked_def frame_for_def
        page_bytes_def)
  moreover have "elsewhere (unat cur) s ?s'"
    using l(2) by (simp add: elsewhere_def set_screen_coords_def)
  ultimately show ?thesis by (intro exI [of _ ?s']) (simp add: set_screen_coords_def)
qed

text \<open>The two ways the handler starts a new row are the same.\<close>

lemma row_down:
  assumes c: "console s (unat cur) (g, x, y)" and cur: "cur = cur_term_num s"
    and w: "page_table_vid s 0 = VIM_MEM_INDEX OR 7"
  shows "\<exists>s1 s2. (if y = 24 then scroll s else Some s) = Some s1 \<and>
    move_cursor cur 0 (of_nat (if y = 24 then 24 else Suc y)) s1 = Some s2 \<and>
    console s2 (unat cur) (newline (g, x, y)) \<and> elsewhere (unat cur) s s2"
proof -
  have y: "y < 25" and v: "video_ok s" using c by (simp_all add: console_def)
  have F: "frame_for s (unat cur) = VIM_MEM_INDEX" by (simp add: frame_for_def cur)
  show ?thesis
  proof (cases "y = 24")
    case False
    then show ?thesis
      using move_cursor_console [OF c, of 0 "Suc y"] y by (auto simp: newline_def)
  next
    case True
    have "displays s VIM_MEM_INDEX" using v w by (simp add: displays_paged)
    then obtain s1 where s1: "scroll s = Some s1" "s1 = s\<lparr>phys := phys s1\<rparr>"
      "glyphs (page_bytes s1 VIM_MEM_INDEX) =
        drop 80 (glyphs (page_bytes s VIM_MEM_INDEX)) @ replicate 80 32"
      "\<forall>a. \<not> unat (a - VIM_MEM_INDEX) < 4096 \<longrightarrow> phys s1 a = phys s a"
      using scroll_displayed by blast
    have "console s1 (unat cur) (drop 80 g @ replicate 80 32, x, y)"
      using c s1(3) F by (subst s1(2)) (simp add: console_def video_ok_def linked_def frame_for_def page_bytes_def)
    from move_cursor_console [OF this, of 0 24] obtain s2 where s2:
      "move_cursor cur 0 24 s1 = Some s2"
      "console s2 (unat cur) (drop 80 g @ replicate 80 32, 0, 24)" "elsewhere (unat cur) s1 s2"
      by auto
    have "elsewhere (unat cur) s s1"
      unfolding elsewhere_def F using s1(4) by (intro conjI) (subst s1(2), simp)+
    then have "elsewhere (unat cur) s s2" using s2(3) by (rule elsewhere_trans)
    with s1 s2 True show ?thesis by (auto simp: newline_def)
  qed
qed

lemma elsewhere_kbd:
  fixes s :: "'a kbd_state_scheme"
  assumes "elsewhere t s s'"
  shows "device s' = device s" "kbd_buf s' = kbd_buf s" "kbd_buf_idx s' = kbd_buf_idx s"
    "term_bufs s' = term_bufs s" "terminal_buf s' = terminal_buf s" "buf_sent s' = buf_sent s"
    "shift_pressed s' = shift_pressed s" "capslock_pressed s' = capslock_pressed s"
    "ctrl_pressed s' = ctrl_pressed s" "alt_pressed s' = alt_pressed s" "print_me s' = print_me s"
proof -
  have e: "s' = s\<lparr>phys := phys s', page_table_vid := (page_table_vid s)(0 := page_table_vid s' 0),
       io := io s', screen_x := screen_x s', screen_y := screen_y s',
       term_cursor_x := term_cursor_x s', term_cursor_y := term_cursor_y s'\<rparr>"
    using assms by (simp only: elsewhere_def)
  show "device s' = device s" "kbd_buf s' = kbd_buf s" "kbd_buf_idx s' = kbd_buf_idx s"
    "term_bufs s' = term_bufs s" "terminal_buf s' = terminal_buf s" "buf_sent s' = buf_sent s"
    "shift_pressed s' = shift_pressed s" "capslock_pressed s' = capslock_pressed s"
    "ctrl_pressed s' = ctrl_pressed s" "alt_pressed s' = alt_pressed s" "print_me s' = print_me s"
    by (subst e, simp)+
qed

lemma elsewhere_ports:
  "elsewhere t s s' \<Longrightarrow> p \<noteq> 0x3D4 \<Longrightarrow> p \<noteq> 0x3D5 \<Longrightarrow> last_out p (io s') = last_out p (io s)"
  by (simp add: elsewhere_def)

lemma elsewhere_window:
  "elsewhere t s s' \<Longrightarrow> page_table_vid s' = (page_table_vid s)(0 := page_table_vid s' 0)"
  unfolding elsewhere_def by (drule conjunct1, drule arg_cong [of _ _ page_table_vid]) simp

lemma flush_kbd_buf_eq:
  assumes "length (kbd_buf s) = 128"
  shows "flush_kbd_buf s = Some (s\<lparr>kbd_buf := replicate 128 0, kbd_buf_idx := 0\<rparr>)"
proof -
  have u: "unat (128 :: u32) = 128" by simp
  obtain b where "memset sto 0 0 128 (kbd_buf s) = Some b"
    "stored obj_cell ldo length (kbd_buf s) 0 (replicate 128 0) b"
    using obj.memset_stored [of "kbd_buf s" 0 128 0] obj_range_ok [of 128 "kbd_buf s"] assms
    by auto
  then show ?thesis
    using obj_stored [of "kbd_buf s" 0 "replicate 128 0" b] assms by (simp add: flush_kbd_buf_def)
qed

text \<open>
  The line after a key: the character goes behind what was typed so far, and starts a new line
  when the 128 bytes are used up.
\<close>

definition add_to_line :: "u8 \<Rightarrow> u8 list \<times> u8 \<Rightarrow> u8 list \<times> u8" where
  "add_to_line c = (\<lambda>(b, i). if i > 127 then ((replicate 128 0)[0 := c], 1) else (b[unat i := c], i + 1))"

lemma print_key_types:
  fixes s :: "'a kbd_state_scheme"
  assumes c: "console s t (g, x, y)" and t: "t = unat (cur_term_num s)" "term_in_service s = cur_term_num s"
    and w: "page_table_vid s 0 = VIM_MEM_INDEX OR 7" and p: "print_me s = 1"
    and len: "length (kbd_buf s) = 128"
    and xy: "screen_x s = 79 \<Longrightarrow> screen_y s = of_nat y"
  shows "\<exists>s1. print_key (cur_term_num s) ch s =
      Some (s1\<lparr>kbd_buf := fst (add_to_line ch (kbd_buf s, kbd_buf_idx s)),
        kbd_buf_idx := snd (add_to_line ch (kbd_buf s, kbd_buf_idx s))\<rparr>) \<and>
    console s1 t (type_char ch (if screen_x s = 79 then newline (g, x, y) else (g, x, y))) \<and>
    elsewhere t s s1"
proof -
  let ?con = "if screen_x s = 79 then newline (g, x, y) else (g, x, y)"
  have y: "y < 25" using c by (simp add: console_def)
  obtain s1 where s1: "(if screen_x s = 80 - 1 then
      if screen_y s = 25 - 1 then do { s' \<leftarrow> scroll s; move_cursor (cur_term_num s) 0 (screen_y s) s' }
      else move_cursor (cur_term_num s) 0 (screen_y s + 1) s
    else Some s) = Some s1" "console s1 t ?con" "elsewhere t s s1"
  proof (cases "screen_x s = 79")
    case False
    then show thesis using that [of s] c elsewhere_refl [of t s] by simp
  next
    case True
    have y24: "(screen_y s = 24) = (y = 24)"
      using xy [OF True] of_nat_eq_u32_iff [of y 24] y by simp
    obtain s0 s1 where "(if y = 24 then scroll s else Some s) = Some s0"
      "move_cursor (cur_term_num s) 0 (of_nat (if y = 24 then 24 else Suc y)) s0 = Some s1"
      "console s1 t (newline (g, x, y))" "elsewhere t s s1"
      using row_down [of s "cur_term_num s" g x y] c t w by blast
    then show thesis
      using that [of s1] True xy [OF True] y24 by (cases "y = 24") (simp_all add: add.commute)
  qed
  have "unat (term_in_service s1) = t" using elsewhere_sel(1) [OF s1(3)] t by simp
  then obtain s2 where s2: "putc ch s1 = Some s2" "console s2 t (type_char ch ?con)" "elsewhere t s1 s2"
    using putc_console [OF s1(2)] by blast
  have e: "elsewhere t s s2" using s1(3) s2(3) by (rule elsewhere_trans)
  have k: "kbd_buf s2 = kbd_buf s" "kbd_buf_idx s2 = kbd_buf_idx s" using elsewhere_kbd [OF e] by simp_all
  have i: "unat (kbd_buf_idx s) < 128" if "\<not> kbd_buf_idx s > 127"
    using that by (simp add: word_less_nat_alt)
  have "print_key (cur_term_num s) ch s =
      Some (s2\<lparr>kbd_buf := fst (add_to_line ch (kbd_buf s, kbd_buf_idx s)),
        kbd_buf_idx := snd (add_to_line ch (kbd_buf s, kbd_buf_idx s))\<rparr>)"
    unfolding print_key_def Let_def s1(1)
    using p s1(1) s2(1) k len i flush_kbd_buf_eq [of s2] by (simp add: add_to_line_def)
  with s2(2) e show ?thesis by blast
qed

text \<open>The handler around its body: what it sets up and what it restores.\<close>

definition handler_entry :: "'a kbd_state_scheme \<Rightarrow> 'a kbd_state_scheme" where
  "handler_entry s =
     (let s = s\<lparr>page_table_vid := (page_table_vid s)(0 := VIM_MEM_INDEX OR 7)\<rparr>;
          s = s\<lparr>term_in_service := cur_term_num s\<rparr>;
          s = (if override_start s \<noteq> 0
            then s\<lparr>x_start := x_start_tw s, y_start := y_start_tw s, override_start := 0\<rparr> else s)
      in snd (inb 0x60 (disable_irq 1 s)))"

definition handler_exit :: "'a kbd_state_scheme \<Rightarrow> 'a kbd_state_scheme \<Rightarrow> 'a kbd_state_scheme" where
  "handler_exit s0 s = enable_irq 1 (send_eoi 1
     (s\<lparr>page_table_vid := (page_table_vid s)(0 := page_table_vid s0 0), term_in_service := term_in_service s0\<rparr>))"

lemma keyboard_handler_split:
  assumes "\<And>log. device s log 0x60 = sc"
  shows "keyboard_handler s = map_option (handler_exit s)
    ((if sc AND 0x80 \<noteq> 0 then key_release sc else key_press (cur_term_num s) sc) (handler_entry s))"
proof -
  have "(1 :: u32) > 7 \<longleftrightarrow> False" by simp
  then show ?thesis
    using assms
    by (auto simp: keyboard_handler_def handler_entry_def handler_exit_def kernel_unfold disable_irq_def
        Let_def map_conv_bind_option intro!: Option.bind_cong)
qed

lemma handler_entry_sel [simp]:
  "kbd_buf (handler_entry s) = kbd_buf s" "kbd_buf_idx (handler_entry s) = kbd_buf_idx s"
  "term_bufs (handler_entry s) = term_bufs s" "terminal_buf (handler_entry s) = terminal_buf s"
  "shift_pressed (handler_entry s) = shift_pressed s" "capslock_pressed (handler_entry s) = capslock_pressed s"
  "ctrl_pressed (handler_entry s) = ctrl_pressed s" "alt_pressed (handler_entry s) = alt_pressed s"
  "cur_term_num (handler_entry s) = cur_term_num s" "term_in_service (handler_entry s) = cur_term_num s"
  "page_table_vid (handler_entry s) = (page_table_vid s)(0 := VIM_MEM_INDEX OR 7)"
  "screen_x (handler_entry s) = screen_x s" "screen_y (handler_entry s) = screen_y s"
  "device (handler_entry s) = device s"
  by (simp_all add: handler_entry_def disable_irq_def kernel_unfold Let_def split: prod.splits)

lemma console_handler_entry [simp]: "console (handler_entry s) t con = console s t con"
  by (rule console_cong; simp add: handler_entry_def disable_irq_def kernel_unfold Let_def split: prod.splits)

lemma handler_exit_sel [simp]:
  "kbd_buf (handler_exit s0 s) = kbd_buf s" "kbd_buf_idx (handler_exit s0 s) = kbd_buf_idx s"
  "term_bufs (handler_exit s0 s) = term_bufs s" "terminal_buf (handler_exit s0 s) = terminal_buf s"
  "buf_sent (handler_exit s0 s) = buf_sent s" "cur_term_num (handler_exit s0 s) = cur_term_num s"
  "term_in_service (handler_exit s0 s) = term_in_service s0"
  "page_table_vid (handler_exit s0 s) = (page_table_vid s)(0 := page_table_vid s0 0)"
  by (simp_all add: handler_exit_def enable_irq_def send_eoi_def kernel_unfold Let_def split: prod.splits)

lemma console_handler_exit [simp]: "console (handler_exit s0 s) t con = console s t con"
  by (rule console_cong; simp add: handler_exit_def enable_irq_def send_eoi_def kernel_unfold Let_def
      split: prod.splits)

text \<open>
  On the ports: the line of the keyboard is masked while the handler runs; at the end it is
  open again and the controller has been told.
\<close>

lemma handler_entry_ports:
  "p \<noteq> 0x21 \<Longrightarrow> last_out p (io (handler_entry s)) = last_out p (io s)"
  "pic_device (device s) \<Longrightarrow> k < 16 \<Longrightarrow> masked (handler_entry s) k \<longleftrightarrow> masked s k \<or> k = 1"
proof -
  define s1 where "s1 = (let s = s\<lparr>page_table_vid := (page_table_vid s)(0 := VIM_MEM_INDEX OR 7)\<rparr>;
          s = s\<lparr>term_in_service := cur_term_num s\<rparr>
      in if override_start s \<noteq> 0
            then s\<lparr>x_start := x_start_tw s, y_start := y_start_tw s, override_start := 0\<rparr> else s)"
  have e: "handler_entry s = snd (inb 0x60 (disable_irq 1 s1))"
    by (simp add: handler_entry_def s1_def Let_def)
  have s1: "io s1 = io s" "device s1 = device s" by (simp_all add: s1_def Let_def)
  then show "p \<noteq> 0x21 \<Longrightarrow> last_out p (io (handler_entry s)) = last_out p (io s)"
    using disable_irq_io [of 1 s1] by (simp add: e inb_def Let_def)
  have m: "masked (handler_entry s) k = masked (disable_irq 1 s1) k" "masked s1 k = masked s k"
    by (simp_all add: e inb_def Let_def masked_def s1)
  assume "pic_device (device s)" "k < 16"
  with disable_irq_masked [of s1 1 k] show "masked (handler_entry s) k \<longleftrightarrow> masked s k \<or> k = 1"
    by (simp add: m s1)
qed

lemma handler_exit_ports:
  assumes "pic_device (device s)" "k < 16"
  shows "masked (handler_exit s0 s) k \<longleftrightarrow> masked s k \<and> k \<noteq> 1"
    "last_out 0x20 (io (handler_exit s0 s)) = 0x61"
proof -
  let ?s = "s\<lparr>page_table_vid := (page_table_vid s)(0 := page_table_vid s0 0), term_in_service := term_in_service s0\<rparr>"
  have m: "masked (send_eoi 1 ?s) k = masked s k" and d: "device (send_eoi 1 ?s) = device s"
    and l: "last_out 0x20 (io (send_eoi 1 ?s)) = 0x61"
    by (simp_all add: send_eoi_def masked_def outb_def)
  show "masked (handler_exit s0 s) k \<longleftrightarrow> masked s k \<and> k \<noteq> 1"
    using enable_irq_masked [of "send_eoi 1 ?s" 1 k] assms m d by (simp add: handler_exit_def)
  show "last_out 0x20 (io (handler_exit s0 s)) = 0x61"
    using enable_irq_io [of 1 "send_eoi 1 ?s"] l by (simp add: handler_exit_def Let_def)
qed

definition printable :: "u8 \<Rightarrow> bool" where
  "printable c \<longleftrightarrow> 0x20 \<le> c \<and> c < 0x7F"

lemma printable_plain:
  assumes "printable c"
  shows "c \<noteq> SHIFT" "c \<noteq> CAPSLOCK" "c \<noteq> CTRL" "c \<noteq> ALT" "c \<noteq> F1" "c \<noteq> F2" "c \<noteq> F3"
    "c \<noteq> BACKSPACE" "c \<noteq> ENTER"
  using assms by (auto simp: printable_def word_less_nat_alt word_le_nat_alt)

lemma press_code: "unat (sc :: u8) < 128 \<Longrightarrow> sc AND 0x80 = 0"
proof -
  assume sc: "unat sc < 128"
  have "\<not> bit (unat sc) 7" using sc by (simp add: bit_iff_odd)
  then have "\<not> bit sc 7" by (simp add: bit_unsigned_iff)
  then have "sc AND push_bit 7 1 = 0"
    by (intro bit_word_eqI) (auto simp only: bit_and_iff bit_push_bit_iff bit_1_iff bit_0_eq bot_apply bot_bool_def diff_is_0_eq dest: le_antisym)
  then show ?thesis by simp
qed

lemma length_kbdus [simp]: "length kbdus = 128"
  by (simp add: kbdus_def)

lemma key_press_printable:
  assumes "unat sc < 128" "printable (kbdus ! unat sc)" "ctrl_pressed s = 0"
  shows "key_press cur sc s =
    print_key cur (shift_char (shift_pressed s) (capslock_pressed s) (kbdus ! unat sc)) (s\<lparr>print_me := 1\<rparr>)"
proof -
  note plain = printable_plain [OF assms(2)]
  have "key_modifiers (kbdus ! unat sc) s = s\<lparr>print_me := 1\<rparr>"
    using assms(2,3) plain by (simp add: key_modifiers_def printable_def)
  then show ?thesis
    using assms plain by (simp add: key_press_def alt_keys_def ctrl_keys_def backspace_key_def enter_key_def)
qed

text \<open>
  What every press of a key leaves as it was: the window, the terminal in service, and the
  interrupt lines, but that the keyboard's is open and the controller has been told.
\<close>

definition handler_done :: "'a kbd_state_scheme \<Rightarrow> 'a kbd_state_scheme \<Rightarrow> bool" where
  "handler_done s s' \<longleftrightarrow>
     page_table_vid s' = page_table_vid s \<and> term_in_service s' = term_in_service s \<and>
     (\<forall>k < 16. masked s' k \<longleftrightarrow> masked s k \<and> k \<noteq> 1) \<and> last_out 0x20 (io s') = 0x61"

lemma handler_exit_done:
  fixes s s0 s1 s2 :: "'a kbd_state_scheme"
  assumes dev: "pic_device (device s)"
    and s0: "page_table_vid s0 = page_table_vid (handler_entry s)" "io s0 = io (handler_entry s)"
      "device s0 = device s"
    and e: "elsewhere t s0 s1"
    and s2: "page_table_vid s2 = page_table_vid s1" "io s2 = io s1" "device s2 = device s1"
  shows "handler_done s (handler_exit s s2)"
proof -
  have d: "device s2 = device s" using elsewhere_kbd(1) [OF e] s0 s2 by simp
  have "page_table_vid (handler_exit s s2) = page_table_vid s"
    using elsewhere_window [OF e] s0(1) s2(1) by (simp add: fun_eq_iff)
  moreover have "masked (handler_exit s s2) k \<longleftrightarrow> masked s k \<and> k \<noteq> 1" if "k < 16" for k
  proof -
    have "masked (handler_exit s s2) k \<longleftrightarrow> masked s2 k \<and> k \<noteq> 1"
      using handler_exit_ports(1) [of s2 k s] dev d that by simp
    moreover have "masked s2 k = masked (handler_entry s) k"
      using elsewhere_ports [OF e, of "0x21"] elsewhere_ports [OF e, of "0xA1"] s0 s2
      by (simp add: masked_def)
    ultimately show ?thesis using handler_entry_ports(2) [OF dev that] by blast
  qed
  moreover have "last_out 0x20 (io (handler_exit s s2)) = 0x61"
    using handler_exit_ports(2) [of s2 1 s] dev d by simp
  ultimately show ?thesis by (simp add: handler_done_def)
qed

lemma keyboard_types:
  fixes s :: "'a kbd_state_scheme"
  assumes c: "console s (unat (cur_term_num s)) (g, x, y)"
    and dev: "\<And>log. device s log 0x60 = sc" "pic_device (device s)"
    and key: "unat sc < 128" "printable (kbdus ! unat sc)" "ctrl_pressed s = 0"
    and len: "length (kbd_buf s) = 128" and xy: "screen_x s = 79 \<Longrightarrow> screen_y s = of_nat y"
    and ch: "ch = shift_char (shift_pressed s) (capslock_pressed s) (kbdus ! unat sc)"
  shows "\<exists>s'. keyboard_handler s = Some s' \<and> handler_done s s' \<and>
    console s' (unat (cur_term_num s)) (type_char ch (if screen_x s = 79 then newline (g, x, y) else (g, x, y))) \<and>
    others_kept (unat (cur_term_num s)) s s' \<and>
    (kbd_buf s', kbd_buf_idx s') = add_to_line ch (kbd_buf s, kbd_buf_idx s)"
proof -
  let ?t = "unat (cur_term_num s)" and ?s = "(handler_entry s)\<lparr>print_me := 1\<rparr>"
  have cong: "console ?s u con = console s u con" for u con
    using console_cong [of ?s "handler_entry s"] by simp
  obtain s1 where s1: "print_key (cur_term_num ?s) ch ?s =
      Some (s1\<lparr>kbd_buf := fst (add_to_line ch (kbd_buf ?s, kbd_buf_idx ?s)),
        kbd_buf_idx := snd (add_to_line ch (kbd_buf ?s, kbd_buf_idx ?s))\<rparr>)"
    "console s1 ?t (type_char ch (if screen_x ?s = 79 then newline (g, x, y) else (g, x, y)))"
    "elsewhere ?t ?s s1"
  proof -
    have "console ?s ?t (g, x, y)" using c cong by blast
    from print_key_types [OF this, where ch = ch] show thesis using that len xy by simp blast
  qed
  let ?s2 = "s1\<lparr>kbd_buf := fst (add_to_line ch (kbd_buf s, kbd_buf_idx s)),
        kbd_buf_idx := snd (add_to_line ch (kbd_buf s, kbd_buf_idx s))\<rparr>"
  have "keyboard_handler s = Some (handler_exit s ?s2)"
    using keyboard_handler_split [of s sc] dev(1) key s1(1) press_code [OF key(1)]
    by (simp add: key_press_printable ch)
  moreover have c2: "console ?s2 u con = console s1 u con" for u con by (rule console_cong) simp_all
  moreover have "others_kept ?t s (handler_exit s ?s2)"
    using others_kept_elsewhere [OF s1(3,2)] cong c2 by (simp add: others_kept_def)
  moreover have "handler_done s (handler_exit s ?s2)"
    using dev(2) by (rule handler_exit_done [where ?s0.0 = ?s and t = ?t and ?s1.0 = s1]) (simp_all add: s1(3))
  ultimately show ?thesis using s1(2) by auto
qed

text \<open>ENTER and BACKSPACE are keys without a character.\<close>

lemma key_modifiers_enter: "key_modifiers ENTER s = s\<lparr>print_me := 0\<rparr>"
  by (simp add: key_modifiers_def word_le_nat_alt)

lemma key_modifiers_backspace: "key_modifiers BACKSPACE s = s\<lparr>print_me := 0\<rparr>"
  by (simp add: key_modifiers_def word_le_nat_alt)

lemma ctrl_keys_other: "c \<noteq> 108 \<Longrightarrow> c \<noteq> 49 \<Longrightarrow> c \<noteq> 50 \<Longrightarrow> ctrl_keys cur c s = Some s"
  by (simp add: ctrl_keys_def)

lemma key_press_enter:
  assumes "unat sc < 128" "kbdus ! unat sc = ENTER"
    and "enter_key cur ENTER (s\<lparr>print_me := 0\<rparr>) = Some s2" "print_me s2 = 0"
  shows "key_press cur sc s = Some s2"
  using assms
  by (simp add: key_press_def key_modifiers_enter alt_keys_def ctrl_keys_other backspace_key_def print_key_def Let_def)

lemma key_press_backspace:
  assumes "unat sc < 128" "kbdus ! unat sc = BACKSPACE"
    and "backspace_key cur BACKSPACE (s\<lparr>print_me := 0\<rparr>) = Some s2" "print_me s2 = 0"
  shows "key_press cur sc s = Some s2"
  using assms
  by (simp add: key_press_def key_modifiers_backspace alt_keys_def ctrl_keys_other enter_key_def print_key_def Let_def)

lemma enter_key_line:
  fixes s :: "'a kbd_state_scheme"
  assumes c: "console s (unat cur) (g, x, y)" and cur: "cur = cur_term_num s"
    and w: "page_table_vid s 0 = VIM_MEM_INDEX OR 7"
    and len: "length (kbd_buf s) = 128" "length (terminal_buf s) = 128"
  shows "\<exists>s1 s2. enter_key cur ENTER s = Some (s2\<lparr>x_start := 0, y_start := of_nat (if y = 24 then 24 else Suc y)\<rparr>) \<and>
    s1 = s\<lparr>terminal_buf := kbd_buf s, buf_sent := 1, kbd_buf := replicate 128 0, kbd_buf_idx := 0\<rparr> \<and>
    elsewhere (unat cur) s1 s2 \<and> console s2 (unat cur) (newline (g, x, y))"
proof -
  let ?s1 = "s\<lparr>terminal_buf := kbd_buf s, buf_sent := 1, kbd_buf := replicate 128 0, kbd_buf_idx := 0\<rparr>"
  have cs: "unat cur < 3" "length (term_cursor_y s) = 3" "term_cursor_y s ! unat cur = of_nat y" "y < 25"
    using c by (simp_all add: console_def)
  have "console ?s1 (unat cur) (g, x, y)" using c console_cong [of ?s1 s] by simp
  then obtain s2 s3 where s: "(if y = 24 then scroll ?s1 else Some ?s1) = Some s2"
    "move_cursor cur 0 (of_nat (if y = 24 then 24 else Suc y)) s2 = Some s3"
    "console s3 (unat cur) (newline (g, x, y))" "elsewhere (unat cur) ?s1 s3"
    using row_down [of ?s1 cur g x y] cur w by auto
  have y24: "((of_nat y :: u32) = 24) = (y = 24)" using of_nat_eq_u32_iff [of y 24] cs(4) by simp
  have y1: "(if y = 24 then of_nat y else of_nat y + 1) = (of_nat (if y = 24 then 24 else Suc y) :: u32)"
    by (simp add: add.commute)
  have "enter_key cur ENTER s = Some (s3\<lparr>x_start := 0, y_start := of_nat (if y = 24 then 24 else Suc y)\<rparr>)"
  proof -
    have "send_buffer (kbd_buf s) s = Some (s\<lparr>terminal_buf := kbd_buf s, buf_sent := 1\<rparr>)"
      using len by (rule send_buffer_copies)
    moreover have "flush_kbd_buf (s\<lparr>terminal_buf := kbd_buf s, buf_sent := 1\<rparr>) = Some ?s1"
      using flush_kbd_buf_eq [of "s\<lparr>terminal_buf := kbd_buf s, buf_sent := 1\<rparr>"] len by simp
    moreover have "get_term_cursor_y (ucast cur) ?s1 = Some (of_nat y)"
      using cs by (simp add: get_term_cursor_y_def)
    ultimately show ?thesis
      using s(1,2) by (simp only: enter_key_def Let_def Option.bind.bind_lunit if_False simp_thms
          diff_numeral_special y24 y1) (cases "y = 24"; simp add: y24 add.commute)
  qed
  with s(3,4) show ?thesis by blast
qed

lemma keyboard_enter:
  fixes s :: "'a kbd_state_scheme"
  assumes c: "console s (unat (cur_term_num s)) (g, x, y)"
    and dev: "\<And>log. device s log 0x60 = sc" "pic_device (device s)"
    and key: "unat sc < 128" "kbdus ! unat sc = ENTER"
    and len: "length (kbd_buf s) = 128" "length (terminal_buf s) = 128"
  shows "\<exists>s'. keyboard_handler s = Some s' \<and> handler_done s s' \<and>
    console s' (unat (cur_term_num s)) (newline (g, x, y)) \<and> others_kept (unat (cur_term_num s)) s s' \<and>
    terminal_buf s' = kbd_buf s \<and> buf_sent s' = 1 \<and> kbd_buf s' = replicate 128 0 \<and> kbd_buf_idx s' = 0"
proof -
  let ?t = "unat (cur_term_num s)" and ?s = "(handler_entry s)\<lparr>print_me := 0\<rparr>"
  let ?s1 = "?s\<lparr>terminal_buf := kbd_buf s, buf_sent := 1, kbd_buf := replicate 128 0, kbd_buf_idx := 0\<rparr>"
  let ?y = "of_nat (if y = 24 then 24 else Suc y)"
  have cong: "console ?s u con = console s u con" "console ?s1 u con = console s u con" for u con
    using console_cong [of ?s "handler_entry s"] console_cong [of ?s1 "handler_entry s"] by simp_all
  have "console ?s (unat (cur_term_num ?s)) (g, x, y)" using c cong by simp
  from enter_key_line [OF this] obtain s2 where
    e: "enter_key (cur_term_num s) ENTER ?s = Some (s2\<lparr>x_start := 0, y_start := ?y\<rparr>)"
      "elsewhere ?t ?s1 s2" "console s2 ?t (newline (g, x, y))"
    using len by auto
  let ?s2 = "s2\<lparr>x_start := 0, y_start := ?y\<rparr>"
  note k = elsewhere_kbd [OF e(2)]
  have "key_press (cur_term_num s) sc (handler_entry s) = Some ?s2"
    using e(1) k key by (intro key_press_enter) simp_all
  then have "keyboard_handler s = Some (handler_exit s ?s2)"
    using keyboard_handler_split [of s sc] dev(1) press_code [OF key(1)] by simp
  moreover have c2: "console ?s2 u con = console s2 u con" for u con by (rule console_cong) simp_all
  moreover have "others_kept ?t s (handler_exit s ?s2)"
    using others_kept_elsewhere [OF e(2,3)] cong c2 by (simp add: others_kept_def)
  moreover have "handler_done s (handler_exit s ?s2)"
    using dev(2) by (rule handler_exit_done [where ?s0.0 = ?s1 and t = ?t and ?s1.0 = s2]) (simp_all add: e(2))
  ultimately show ?thesis using e(3) k by auto
qed

lemma update_cursor_coords:
  "update_cursor x y (set_screen_coords x y s) = set_screen_coords x y (update_cursor x y s)"
  by (simp add: update_cursor_def set_screen_coords_def outb_def Let_def)

text \<open>The first column BACKSPACE does not leave, as of the handler.\<close>

lemma handler_entry_x_start:
  "x_start (handler_entry s) = (if override_start s \<noteq> 0 then x_start_tw s else x_start s)"
  by (simp add: handler_entry_def disable_irq_def kernel_unfold Let_def split: prod.splits)

lemma clear_char_console:
  assumes c: "console s t (g, x, y)" and t: "t = unat (cur_term_num s)"
    and w: "page_table_vid s 0 = VIM_MEM_INDEX OR 7"
    and xy: "screen_x s = of_nat x" "screen_y s = of_nat y"
  shows "\<exists>s'. clear_char s = Some s' \<and> console s' t (g[80 * y + x := 32], x, y) \<and> elsewhere t s s'"
proof -
  let ?F = "frame_for s t" and ?i = "80 * y + x"
  let ?s' = "with_page ?F (put_cell 32 ?i (page_bytes s ?F)) s"
  have lt: "x < 80" "y < 25" "video_ok s" using c by (auto simp: console_def)
  have "displays s ?F" using lt(3) w by (simp add: displays_paged frame_for_def t)
  moreover have "80 * screen_y s + screen_x s = of_nat ?i" using xy by simp
  ultimately have "clear_char s = Some ?s'"
    using page_store_cell [of s ?F ?i "page_bytes s ?F" 32] lt
    by (simp add: clear_char_def with_page_self)
  moreover have "page_bytes ?s' ?F = put_cell 32 ?i (page_bytes s ?F)" by (rule page_bytes_with_page) simp
  then have "glyphs (page_bytes ?s' ?F) = (glyphs (page_bytes s ?F))[?i := 32]"
    using lt by (simp add: glyphs_put_cell)
  then have "console ?s' t (g[?i := 32], x, y)"
    using c by (simp add: console_def video_ok_def linked_def frame_for_def page_bytes_def with_page_def)
  moreover have "elsewhere t s ?s'" by (simp add: elsewhere_def with_page_def)
  ultimately show ?thesis by blast
qed

lemma keyboard_backspace:
  fixes s :: "'a kbd_state_scheme"
  assumes c: "console s (unat (cur_term_num s)) (g, x, y)"
    and dev: "\<And>log. device s log 0x60 = sc" "pic_device (device s)"
    and key: "unat sc < 128" "kbdus ! unat sc = BACKSPACE"
    and len: "length (kbd_buf s) = 128" "unat (kbd_buf_idx s) < 128"
    and xy: "screen_x s = of_nat x" "screen_y s = of_nat y" "0 < x"
      "of_nat x \<noteq> (if override_start s \<noteq> 0 then x_start_tw s else x_start s)"
  shows "\<exists>s'. keyboard_handler s = Some s' \<and> handler_done s s' \<and>
    console s' (unat (cur_term_num s)) (g[80 * y + (x - 1) := 32], x - 1, y) \<and>
    others_kept (unat (cur_term_num s)) s s' \<and>
    kbd_buf s' = (kbd_buf s)[unat (kbd_buf_idx s) := 0] \<and> kbd_buf_idx s' = kbd_buf_idx s - 1"
proof -
  let ?t = "unat (cur_term_num s)" and ?s = "(handler_entry s)\<lparr>print_me := 0\<rparr>"
  have lt: "x < 80" "y < 25" "video_ok s" "x - 1 < 80" using c by (auto simp: console_def)
  have cong: "console ?s u con = console s u con" for u con
    using console_cong [of ?s "handler_entry s"] by simp
  have x1: "of_nat x - 1 = (of_nat (x - 1) :: u32)" using xy(3) by (simp add: of_nat_diff)
  have x0: "(of_nat x :: u32) \<noteq> 0" using of_nat_eq_u32_iff [of x 0] lt xy(3) by simp
  have "console ?s ?t (g, x, y)" using c cong by simp
  from move_cursor_console [OF this, of "x - 1" y] lt obtain s1 where
    m: "move_cursor (cur_term_num s) (of_nat (x - 1)) (of_nat y) ?s = Some s1"
      "console s1 ?t (g, x - 1, y)" "elsewhere ?t ?s s1"
      "page_table_vid s1 = page_table_vid ?s"
      "screen_x s1 = of_nat (x - 1)" "screen_y s1 = of_nat y"
    by auto
  have "cur_term_num s1 = cur_term_num s" using elsewhere_sel(2) [OF m(3)] by simp
  then obtain s2 where cl: "clear_char s1 = Some s2"
    and c2: "console s2 ?t (g[80 * y + (x - 1) := 32], x - 1, y)" and e2: "elsewhere ?t s1 s2"
    using clear_char_console [OF m(2)] m(4-6) by auto
  from m(3) e2 have e: "elsewhere ?t ?s s2" by (rule elsewhere_trans)
  note k = elsewhere_kbd [OF e]
  let ?s3 = "s2\<lparr>kbd_buf := (kbd_buf s)[unat (kbd_buf_idx s) := 0], kbd_buf_idx := kbd_buf_idx s - 1\<rparr>"
  have "backspace_key (cur_term_num s) BACKSPACE ?s = Some ?s3"
  proof -
    have "save_cursor (cur_term_num s) (set_screen_coords (of_nat (x - 1)) (of_nat y)
        (update_cursor (of_nat (x - 1)) (of_nat y) ?s)) = Some s1"
      using m(1) by (simp add: move_cursor_def update_cursor_coords)
    moreover have "(if screen_x ?s = 0 \<and> screen_y ?s = 0 then (screen_x ?s, screen_y ?s)
        else if screen_x ?s \<noteq> x_start ?s then (screen_x ?s - 1, screen_y ?s)
        else if screen_y ?s > y_start ?s then (80, screen_y ?s - 1)
        else (screen_x ?s, screen_y ?s)) = (of_nat (x - 1), of_nat y)"
    proof -
      have "screen_x ?s = of_nat x" "screen_y ?s = of_nat y" "x_start ?s = x_start (handler_entry s)"
        using xy(1,2) by simp_all
      then show ?thesis
        using xy(4) x0 unfolding handler_entry_x_start x1 [symmetric] by (simp only: simp_thms if_False if_True split: if_splits)
    qed
    moreover have "arr_set (unat (kbd_buf_idx s2)) 0 (kbd_buf s2) = Some ((kbd_buf s)[unat (kbd_buf_idx s) := 0])"
      using k(2,3) len by simp
    ultimately show ?thesis
      using cl k(3) unfolding backspace_key_def by (simp only: Let_def prod.case if_False simp_thms Option.bind.bind_lunit) simp
  qed
  then have "key_press (cur_term_num s) sc (handler_entry s) = Some ?s3"
    using k key by (intro key_press_backspace) simp_all
  then have "keyboard_handler s = Some (handler_exit s ?s3)"
    using keyboard_handler_split [of s sc] dev(1) press_code [OF key(1)] by simp
  moreover have c3: "console ?s3 u con = console s2 u con" for u con by (rule console_cong) simp_all
  moreover have "others_kept ?t s (handler_exit s ?s3)"
    using others_kept_elsewhere [OF e c2] cong c3 by (simp add: others_kept_def)
  moreover have "handler_done s (handler_exit s ?s3)"
    using dev(2) by (rule handler_exit_done [where ?s0.0 = ?s and t = ?t and ?s1.0 = s2]) (simp_all add: e)
  ultimately show ?thesis using c2 by auto
qed

section \<open>What the keyboard promises\<close>

definition demo_kbd :: "u8 \<Rightarrow> kbd_state" where
  "demo_kbd sc = tty_state.extend
     (demo_tty\<lparr>device := (\<lambda>log p. if p = 0x60 then sc else last_out p log)\<rparr>)
     \<lparr>read_wait = 0, rtc_opened = 0, term_bufs = replicate 3 (replicate 128 1), shift_pressed = 1,
      capslock_pressed = 0, ctrl_pressed = 0, alt_pressed = 0, print_me = 0,
      kbd_buf = replicate 128 0, kbd_buf_idx = 0, x_start = 0, y_start = 0, freq_idx = 0\<rparr>"

lemma demo_kbd_sel:
  "shift_pressed (demo_kbd sc) = 1" "capslock_pressed (demo_kbd sc) = 0" "ctrl_pressed (demo_kbd sc) = 0"
  "kbd_buf (demo_kbd sc) = replicate 128 0" "kbd_buf_idx (demo_kbd sc) = 0"
  "term_bufs (demo_kbd sc) = replicate 3 (replicate 128 1)" "cur_term_num (demo_kbd sc) = 0"
  "device (demo_kbd sc) log 0x60 = sc" "pic_device (device (demo_kbd sc))"
  "screen_x (demo_kbd sc) = 0" "screen_y (demo_kbd sc) = 0" "length (terminal_buf (demo_kbd sc)) = 128"
  "x_start (demo_kbd sc) = 0" "override_start (demo_kbd sc) = 0"
  by (simp_all add: demo_kbd_def tty_state.defs pic_device_def) (simp_all add: demo_tty_def initialize_page_eq)

lemma demo_kbd_console:
  "console (demo_kbd sc) 0 (replicate 2000 32, 0, 0)" "console (demo_kbd sc) 1 (replicate 2000 32, 79, 24)"
proof -
  have "console (demo_tty\<lparr>device := d\<rparr>) t con = console demo_tty t con" for d t con
    by (rule console_cong) simp_all
  then show "console (demo_kbd sc) 0 (replicate 2000 32, 0, 0)"
    "console (demo_kbd sc) 1 (replicate 2000 32, 79, 24)"
    using demo_tty_console by (simp_all add: demo_kbd_def console_extend)
qed

lemma demo_kbd_mapped: "screens_mapped (demo_kbd sc)"
proof -
  have "screens_mapped demo_tty"
    unfolding demo_tty_def by (rule initialize_page_screens_mapped) (simp add: linked_def)
  then show ?thesis
    by (simp add: demo_kbd_def screens_mapped_def video_ok_def linked_def tty_state.defs)
qed

text \<open>
  C15. A key with a character, while CTRL is not held: the handler types the character, as SHIFT
  and CAPSLOCK make it, on the displayed terminal, whichever terminal was in service; it adds it
  to the line being edited; the screens of the other terminals stay. It leaves the window, the
  terminal in service and the other interrupt lines as it found them, opens the keyboard's line
  again and tells the controller. In column 79 it starts a new row before it types.
\<close>

theorem key_types_character:
  fixes s :: "'a kbd_state_scheme"
  assumes "console s (unat (cur_term_num s)) (g, x, y)"
    and "\<And>log. device s log 0x60 = sc" "pic_device (device s)"
    and "unat sc < 128" "printable (kbdus ! unat sc)" "ctrl_pressed s = 0"
    and "length (kbd_buf s) = 128" "screen_x s = 79 \<Longrightarrow> screen_y s = of_nat y"
    and "ch = shift_char (shift_pressed s) (capslock_pressed s) (kbdus ! unat sc)"
  shows "\<exists>s'. keyboard_handler s = Some s' \<and> handler_done s s' \<and>
    console s' (unat (cur_term_num s)) (type_char ch (if screen_x s = 79 then newline (g, x, y) else (g, x, y))) \<and>
    others_kept (unat (cur_term_num s)) s s' \<and>
    (kbd_buf s', kbd_buf_idx s') = add_to_line ch (kbd_buf s, kbd_buf_idx s)"
  using assms by (rule keyboard_types)

theorem key_types_character_witness:
  "\<exists>s'. keyboard_handler (demo_kbd 30) = Some s' \<and>
     console s' 0 ((replicate 2000 32)[0 := 65], 1, 0) \<and>
     kbd_buf s' = (replicate 128 0)[0 := 65] \<and> kbd_buf_idx s' = 1"
proof -
  have a: "kbdus ! unat (30 :: u8) = 97" "shift_char 1 0 97 = 65" "printable 97" "\<not> (0 :: u8) > 127"
    by (simp_all add: kbdus_def shift_char_def shift_symbol_def printable_def)
  then show ?thesis
    using key_types_character [of "demo_kbd 30" "replicate 2000 32" 0 0 30 65] demo_kbd_console
    by (auto simp: demo_kbd_sel type_char_def add_to_line_def)
qed

text \<open>
  C16. Switching the displayed terminal keeps all three screens and cursors: the old display goes
  to its backing page, the new one's backing page to the display. The line being edited is put
  away with the old terminal and the new terminal's line is taken up.
\<close>

theorem switch_keeps_screens:
  assumes "screens_mapped s" "console s (unat new_term) con"
    and "cur = cur_term_num s" "unat cur < 3" "new_term \<noteq> cur"
    and "length (kbd_buf s) = 128" "length (term_bufs s) = 3" "\<forall>b \<in> set (term_bufs s). length b = 128"
  shows "\<exists>s'. switch_terminal cur new_term s = Some s' \<and> cur_term_num s' = new_term \<and>
    kbd_buf s' = term_bufs s ! unat new_term \<and> term_bufs s' = (term_bufs s)[unat cur := kbd_buf s] \<and>
    (\<forall>u con. console s u con \<longrightarrow> console s' u con)"
  using assms by (rule switch_terminal_screens)

theorem switch_keeps_screens_witness:
  "\<exists>s'. switch_terminal 0 1 (demo_kbd 0) = Some s' \<and> cur_term_num s' = 1 \<and>
     console s' 0 (replicate 2000 32, 0, 0) \<and> console s' 1 (replicate 2000 32, 79, 24)"
  using switch_keeps_screens [OF demo_kbd_mapped, of 0 1 "(replicate 2000 32, 79, 24)" 0] demo_kbd_console [of 0]
  by (auto simp: demo_kbd_sel)

text \<open>
  C17. ENTER hands the line being edited to the terminal, whole, marks it as sent, clears it, and
  starts a new row on the displayed terminal; other screens stay.
\<close>

theorem enter_sends_line:
  fixes s :: "'a kbd_state_scheme"
  assumes "console s (unat (cur_term_num s)) (g, x, y)"
    and "\<And>log. device s log 0x60 = sc" "pic_device (device s)"
    and "unat sc < 128" "kbdus ! unat sc = ENTER"
    and "length (kbd_buf s) = 128" "length (terminal_buf s) = 128"
  shows "\<exists>s'. keyboard_handler s = Some s' \<and> handler_done s s' \<and>
    console s' (unat (cur_term_num s)) (newline (g, x, y)) \<and> others_kept (unat (cur_term_num s)) s s' \<and>
    terminal_buf s' = kbd_buf s \<and> buf_sent s' = 1 \<and> kbd_buf s' = replicate 128 0 \<and> kbd_buf_idx s' = 0"
  using assms by (rule keyboard_enter)

theorem enter_sends_line_witness:
  "\<exists>s'. keyboard_handler (demo_kbd 28) = Some s' \<and> console s' 0 (replicate 2000 32, 0, 1) \<and>
     buf_sent s' = 1 \<and> terminal_buf s' = replicate 128 0"
proof -
  have "kbdus ! unat (28 :: u8) = 10" by (simp add: kbdus_def)
  then show ?thesis
    using enter_sends_line [of "demo_kbd 28" "replicate 2000 32" 0 0 28] demo_kbd_console
    by (auto simp: demo_kbd_sel newline_def)
qed

text \<open>
  C18. BACKSPACE inside a row, with a character in the line, blanks the character before the
  cursor on the displayed terminal, moves the cursor back over it and steps back in the line
  being edited; the other terminals keep screen and cursor, and the handler restores what it
  borrowed. Required: the screen coordinates are those of the displayed terminal and the row was
  not started there.
\<close>

theorem backspace_erases:
  fixes s :: "'a kbd_state_scheme"
  assumes "console s (unat (cur_term_num s)) (g, x, y)"
    and "\<And>log. device s log 0x60 = sc" "pic_device (device s)"
    and "unat sc < 128" "kbdus ! unat sc = BACKSPACE"
    and "length (kbd_buf s) = 128" "unat (kbd_buf_idx s) < 128" "0 < kbd_buf_idx s"
    and "screen_x s = of_nat x" "screen_y s = of_nat y" "0 < x"
      "of_nat x \<noteq> (if override_start s \<noteq> 0 then x_start_tw s else x_start s)"
  shows "\<exists>s'. keyboard_handler s = Some s' \<and> handler_done s s' \<and>
    console s' (unat (cur_term_num s)) (g[80 * y + (x - 1) := 32], x - 1, y) \<and>
    others_kept (unat (cur_term_num s)) s s' \<and> kbd_buf_idx s' = kbd_buf_idx s - 1"
  using keyboard_backspace [OF assms(1-7,9-12)] by blast

theorem backspace_erases_witness:
  "\<exists>s'. keyboard_handler ((demo_kbd 14)\<lparr>screen_x := 1, term_cursor_x := [1, 79, 0],
       kbd_buf := 97 # replicate 127 0, kbd_buf_idx := 1\<rparr>) = Some s' \<and>
     console s' 0 (replicate 2000 32, 0, 0) \<and> kbd_buf_idx s' = 0"
proof -
  let ?s = "(demo_kbd 14)\<lparr>screen_x := 1, term_cursor_x := [1, 79, 0],
    kbd_buf := 97 # replicate 127 0, kbd_buf_idx := 1\<rparr>"
  have k: "kbdus ! unat (14 :: u8) = 8" by (simp add: kbdus_def)
  have c: "console ?s (unat (cur_term_num ?s)) (replicate 2000 32, 1, 0)"
    using demo_kbd_console(1) [of 14]
    by (simp add: console_def demo_kbd_sel video_ok_def linked_def page_bytes_def frame_for_def)
  have b: "(replicate 2000 32)[0 := 32] = (replicate 2000 32 :: u8 list)"
    by (simp add: list_update_same_conv)
  show ?thesis
    using backspace_erases [OF c, of 14] k b by (simp add: demo_kbd_sel) blast
qed

end
