(* ===== verification/Exceptions.thy ===== *)
theory Exceptions
  imports Keyboard
begin

text \<open>
  The exception handlers of \<open>interrupts.c\<close>. Each prints its message and then loops forever;
  what such a handler does is the state it loops in. \<open>exception_handler\<close> prints over and over.
\<close>

section \<open>interrupts.c\<close>

text \<open>\<open>Hang s\<close>: the code has reached an empty endless loop with the state \<open>s\<close>.\<close>

datatype 's hang = Hang 's

fun exception_text :: "handler \<Rightarrow> string option" where
  "exception_text reserved_error = Some ''RESERVED INTERRUPT CALLED!!!\<newline>''"
| "exception_text divide_error = Some ''Division error\<newline>''"
| "exception_text nonmask_interrupt = Some ''Nonmaskable interrupt\<newline>''"
| "exception_text breakpoint = Some ''Breakpoint reached\<newline>''"
| "exception_text overflow = Some ''OVERFLOW error!\<newline>''"
| "exception_text bound_range_exceeded = Some ''Index out of bounds!\<newline>''"
| "exception_text invalid_opcode = Some ''Invalid opcode\<newline>''"
| "exception_text device_unavailable = Some ''Device unavailable\<newline>''"
| "exception_text double_fault = Some ''Double fault\<newline>''"
| "exception_text coprocessor_segment_overrun = Some ''coprocessor segment overrun\<newline>''"
| "exception_text invalid_tss = Some ''Invalid tss\<newline>''"
| "exception_text segment_not_present = Some ''Segment not present\<newline>''"
| "exception_text stack_segment_fault = Some ''Stack segment fault\<newline>''"
| "exception_text general_protection = Some ''General protection exception\<newline>''"
| "exception_text page_fault = Some ''PAGE FAULT\<newline>''"
| "exception_text fpu_floating_point_error = Some ''FPU floating point error\<newline>''"
| "exception_text alignment_check = Some ''Alignment check exception\<newline>''"
| "exception_text machine_check = Some ''Machine check exception''"
| "exception_text simd_floating_point_exception = Some ''SIMD floating point exception''"
| "exception_text syscall_linker = None"
| "exception_text kb_linker = None"
| "exception_text rtc_linker = None"
| "exception_text pit_linker = None"

definition raise_exception :: "handler \<Rightarrow> 'a tty_state_scheme \<Rightarrow> 'a tty_state_scheme hang option" where
  "raise_exception h s = do {
     str \<leftarrow> exception_text h;
     s \<leftarrow> puts_lit str s;
     Some (Hang s)
   }"

partial_function (option) exception_handler :: "'a tty_state_scheme \<Rightarrow> u32 option" where
  "exception_handler s = do {
     s \<leftarrow> puts_lit ''Made it to the exception handler\<newline>'' s;
     exception_handler s
   }"

lemma exception_text_printable:
  "exception_text h = Some str \<Longrightarrow> 0 \<notin> set (chars str) \<and> length str < 2 ^ 31"
  by (cases h) (auto simp: chars_def)

section \<open>What an exception does\<close>

text \<open>
  An exception of the processor that has a vector below 20 prints the message of its handler
  on the terminal in service, disturbs no other terminal, and then the machine stays where it is.
\<close>

theorem exception_reports:
  assumes "console s (unat (term_in_service s)) con" and "v < 20"
  shows "\<exists>str s'. exception_text (intFuncArr ! v) = Some str \<and>
    raise_exception (intFuncArr ! v) s = Some (Hang s') \<and>
    console s' (unat (term_in_service s)) (fold type_char (chars str) con) \<and>
    others_kept (unat (term_in_service s)) s s'"
proof -
  have "h \<in> set intFuncArr \<Longrightarrow> exception_text h \<noteq> None" for h
    unfolding intFuncArr_def set_simps by (elim insertE emptyE) simp_all
  moreover have "intFuncArr ! v \<in> set intFuncArr"
    using assms(2) by (intro nth_mem) (simp add: intFuncArr_def)
  ultimately obtain str where str: "exception_text (intFuncArr ! v) = Some str" by blast
  from puts_lit_console [OF assms(1) refl] exception_text_printable [OF str]
  obtain s' where "puts_lit str s = Some s'"
    "console s' (unat (term_in_service s)) (fold type_char (chars str) con)"
    "elsewhere (unat (term_in_service s)) s s'"
    by blast
  with str show ?thesis by (auto simp: raise_exception_def intro: others_kept_elsewhere)
qed

theorem exception_reports_witness:
  "\<exists>s'. raise_exception page_fault demo_tty = Some (Hang s') \<and>
     console s' 1 (fold type_char (chars ''PAGE FAULT\<newline>'') (replicate 2000 32, 79, 24))"
proof -
  have "intFuncArr ! 14 = page_fault" by (simp add: intFuncArr_def)
  then show ?thesis
    using exception_reports [OF demo_tty_console(1) [folded demo_tty_console(3)], of 14] demo_tty_console(3)
    by auto
qed

text \<open>The catch-all handler never returns, from any state.\<close>

theorem exception_handler_diverges: "exception_handler s = None"
proof -
  have "exception_handler s = Some v \<Longrightarrow> False" for v
    by (rule exception_handler.raw_induct [where P = "\<lambda>_ _. False"]) (auto simp: Option.bind_eq_Some_conv)
  then show ?thesis by (cases "exception_handler s") auto
qed

end
