(* ===== verification/Frames.thy ===== *)
theory Frames
  imports Exceptions
begin

text \<open>
  What the operations of the drivers leave alone, whatever the state: output to the screen
  changes memory contents, entry 0 of the window, the port log and the cursors; the routines on
  memory change memory contents only.
\<close>

section \<open>Memory\<close>

definition in_memory :: "'a mach_scheme \<Rightarrow> 'a mach_scheme \<Rightarrow> bool" where
  "in_memory s s' \<longleftrightarrow> s' = s\<lparr>phys := phys s'\<rparr>"

interpretation mem_effect: effect in_memory
proof
  fix s s1 s2 :: "'a mach_scheme"
  assume "in_memory s s1" "in_memory s1 s2"
  then have e: "s1 = s\<lparr>phys := phys s1\<rparr>" "s2 = s1\<lparr>phys := phys s2\<rparr>" by (simp_all add: in_memory_def)
  have "s2 = s\<lparr>phys := phys s2\<rparr>" by (subst e(2), subst e(1)) simp
  then show "in_memory s s2" by (simp add: in_memory_def)
qed (simp add: in_memory_def)

lemma st8_in_memory: "mem_effect.obeys (st8 a v)"
  by (auto simp: mem_effect.obeys_def in_memory_def st8_def Option.bind_eq_Some_conv)

lemma write_bytes_in_memory: "mem_effect.obeys (write_bytes st8 a bs)"
proof (induction bs arbitrary: a)
  case Nil
  then show ?case by (simp add: mem_effect.obeys_def mem_effect.eff_refl)
next
  case (Cons b bs)
  show ?case
    unfolding write_bytes.simps by (intro mem_effect.obeys_bind st8_in_memory Cons.IH)
qed

text \<open>The block routines, whatever they are called with.\<close>

lemma mem_step: "st8 a v s = Some s1 \<Longrightarrow> in_memory s1 s' \<Longrightarrow> in_memory s s'"
  using mem_effect.eff_trans mem_effect.obeysD [OF st8_in_memory] by blast

lemma mem_run: "write_bytes st8 a bs s = Some s1 \<Longrightarrow> in_memory s1 s' \<Longrightarrow> in_memory s s'"
  using mem_effect.eff_trans mem_effect.obeysD [OF write_bytes_in_memory] by blast

lemmas in_memory_steps = mem_step mem_run mem_effect.eff_refl

lemma memset_top_in_memory: "memset_top st8 al n a s = Some (n', a', s') \<Longrightarrow> in_memory s s'"
  by (induction n arbitrary: a s)
    (auto simp: Option.bind_eq_Some_conv intro: in_memory_steps split: if_splits)

lemma rep_stosl_in_memory: "rep_stosl st8 eax n a s = Some (a', s') \<Longrightarrow> in_memory s s'"
  by (induction n arbitrary: a s) (auto simp: Option.bind_eq_Some_conv intro: in_memory_steps)

lemma memset_bottom_in_memory: "memset_bottom st8 al n a s = Some s' \<Longrightarrow> in_memory s s'"
  by (induction n arbitrary: a s) (auto simp: Option.bind_eq_Some_conv intro: in_memory_steps)

lemma memset_in_memory: "memset st8 a c n s = Some s' \<Longrightarrow> in_memory s s'"
  by (auto simp: memset_def Let_def Option.bind_eq_Some_conv split: if_splits
      dest!: memset_top_in_memory rep_stosl_in_memory memset_bottom_in_memory
      intro: mem_effect.eff_trans)

lemma memcpy_top_in_memory: "memcpy_top rd st8 n a b s = Some (n', a', b', s') \<Longrightarrow> in_memory s s'"
  by (induction n arbitrary: a b s)
    (auto simp: Option.bind_eq_Some_conv intro: in_memory_steps split: if_splits)

lemma rep_movsl_in_memory: "rep_movsl rd st8 n a b s = Some (a', b', s') \<Longrightarrow> in_memory s s'"
  by (induction n arbitrary: a b s) (auto simp: Option.bind_eq_Some_conv intro: in_memory_steps)

lemma memcpy_bottom_in_memory: "memcpy_bottom rd st8 n a b s = Some s' \<Longrightarrow> in_memory s s'"
  by (induction n arbitrary: a b s) (auto simp: Option.bind_eq_Some_conv intro: in_memory_steps)

lemma memcpy_in_memory: "memcpy rd st8 a b n s = Some s' \<Longrightarrow> in_memory s s'"
  by (auto simp: memcpy_def Option.bind_eq_Some_conv split: if_splits
      dest!: memcpy_top_in_memory rep_movsl_in_memory memcpy_bottom_in_memory
      intro: mem_effect.eff_trans)

lemma read_blocks_in_memory:
  "read_blocks rd st8 bb ip n k off buf len s = Some r \<Longrightarrow> in_memory s (snd r)"
proof (rule read_blocks.raw_induct
    [where P = "\<lambda>rd st bb ip n k off buf len s r. st = st8 \<longrightarrow> in_memory s (snd r)", rule_format])
  fix p rd bb ip n k off buf len r and st :: "u32 \<Rightarrow> u8 \<Rightarrow> 'a mach_scheme \<Rightarrow> 'a mach_scheme option" and s
  assume IH: "\<And>rd st bb ip n k off buf len s r.
      p rd st bb ip n k off buf len s = Some r \<Longrightarrow> st = st8 \<Longrightarrow> in_memory s (snd r)"
    and eq: "do {
     b \<leftarrow> data_block_num (rd s) ip k;
     c \<leftarrow> inode_count (rd s) bb;
     let dest = FOUR_KB * (b + c + 1) + bb + off;
     if FOUR_KB - off \<ge> len then do {
       m \<leftarrow> memcpy rd st buf dest len s;
       Some (n, m)
     } else do {
       m \<leftarrow> memcpy rd st buf dest (FOUR_KB - off) s;
       p rd st bb ip n (k + 1) 0 (buf + FOUR_KB - off) (len - FOUR_KB + off) m
     }
   } = Some r" and st: "st = st8"
  from eq consider dest s1 where "memcpy rd st buf dest len s = Some s1" "r = (n, s1)"
    | dest s1 where "memcpy rd st buf dest (FOUR_KB - off) s = Some s1"
      "p rd st bb ip n (k + 1) 0 (buf + FOUR_KB - off) (len - FOUR_KB + off) s1 = Some r"
    by (auto simp: Option.bind_eq_Some_conv Let_def split: if_splits)
  then show "in_memory s (snd r)"
  proof cases
    case 1
    then show ?thesis using memcpy_in_memory st by auto
  next
    case 2
    then have "in_memory s s1" "in_memory s1 (snd r)" using memcpy_in_memory IH st by blast+
    then show ?thesis by (rule mem_effect.eff_trans)
  qed
qed simp_all

lemma read_data_in_memory: "read_data rd st8 bb i off buf len s = Some (v, s') \<Longrightarrow> in_memory s s'"
  by (auto simp: read_data_def Let_def Option.bind_eq_Some_conv mem_effect.eff_refl split: if_splits
      dest: read_blocks_in_memory)

lemma fread_in_memory: "fread fd buf n s = Some (v, fd', s') \<Longrightarrow> in_memory s s'"
  by (auto simp: fread_def Option.bind_eq_Some_conv dest: read_data_in_memory)

lemma strncpy_copy_in_memory: "strncpy_copy rd st8 a b n i s = Some r \<Longrightarrow> in_memory s (snd r)"
proof (rule strncpy_copy.raw_induct
    [where P = "\<lambda>rd st a b n i s r. st = st8 \<longrightarrow> in_memory s (snd r)", rule_format])
  fix p rd a b n i r and st :: "u32 \<Rightarrow> u8 \<Rightarrow> 'a mach_scheme \<Rightarrow> 'a mach_scheme option" and s
  assume IH: "\<And>rd st a b n i s r. p rd st a b n i s = Some r \<Longrightarrow> st = st8 \<Longrightarrow> in_memory s (snd r)"
    and eq: "do {
     c \<leftarrow> rd s (b + i);
     if c \<noteq> 0 \<and> i < n then do { m \<leftarrow> st (a + i) c s; p rd st a b n (i + 1) m } else Some (i, s)
   } = Some r" and st: "st = st8"
  from eq consider "r = (i, s)"
    | c s1 where "st (a + i) c s = Some s1" "p rd st a b n (i + 1) s1 = Some r"
    by (auto simp: Option.bind_eq_Some_conv split: if_splits)
  then show "in_memory s (snd r)"
  proof cases
    case 1
    then show ?thesis by (simp add: mem_effect.eff_refl)
  next
    case 2
    then have "st8 (a + i) c s = Some s1" "in_memory s1 (snd r)" using IH st by blast+
    then show ?thesis by (rule mem_step)
  qed
qed simp_all

lemma strncpy_pad_in_memory: "strncpy_pad st8 a n i s = Some s' \<Longrightarrow> in_memory s s'"
proof (rule strncpy_pad.raw_induct
    [where P = "\<lambda>st a n i s s'. st = st8 \<longrightarrow> in_memory s s'", rule_format])
  fix p a n i s' and st :: "u32 \<Rightarrow> u8 \<Rightarrow> 'a mach_scheme \<Rightarrow> 'a mach_scheme option" and s
  assume IH: "\<And>st a n i s s'. p st a n i s = Some s' \<Longrightarrow> st = st8 \<Longrightarrow> in_memory s s'"
    and "(if i < n then do { m \<leftarrow> st (a + i) 0 s; p st a n (i + 1) m } else Some s) = Some s'" "st = st8"
  then consider "s' = s" | s1 where "st8 (a + i) 0 s = Some s1" "p st a n (i + 1) s1 = Some s'"
    by (auto simp: Option.bind_eq_Some_conv split: if_splits)
  then show "in_memory s s'"
  proof cases
    case 1
    then show ?thesis by (simp add: mem_effect.eff_refl)
  next
    case 2
    then show ?thesis using IH \<open>st = st8\<close> mem_step by blast
  qed
qed simp_all

lemma strncpy_in_memory: "strncpy rd st8 a b n s = Some s' \<Longrightarrow> in_memory s s'"
  by (auto simp: strncpy_def Option.bind_eq_Some_conv
      dest!: strncpy_copy_in_memory strncpy_pad_in_memory intro: mem_effect.eff_trans)

section \<open>Screen output\<close>

definition in_drawing :: "'a tty_state_scheme \<Rightarrow> 'a tty_state_scheme \<Rightarrow> bool" where
  "in_drawing s s' \<longleftrightarrow>
     s' = s\<lparr>phys := phys s', page_table_vid := (page_table_vid s)(0 := page_table_vid s' 0),
       io := io s', screen_x := screen_x s', screen_y := screen_y s',
       term_cursor_x := term_cursor_x s', term_cursor_y := term_cursor_y s'\<rparr>"

lemma in_drawing_window: "in_drawing s s' \<Longrightarrow> page_table_vid s' = (page_table_vid s)(0 := page_table_vid s' 0)"
  unfolding in_drawing_def by (drule arg_cong [of _ _ page_table_vid]) simp

interpretation draw: effect in_drawing
proof
  fix s s1 s2 :: "'a tty_state_scheme"
  assume a: "in_drawing s s1" and b: "in_drawing s1 s2"
  note e1 = a [unfolded in_drawing_def] and e2 = b [unfolded in_drawing_def]
  have v: "(page_table_vid s1)(0 := w) = (page_table_vid s)(0 := w)" for w
    by (subst in_drawing_window [OF a]) simp
  show "in_drawing s s2"
    unfolding in_drawing_def by (subst e2, subst e1) (simp add: v)
qed (simp add: in_drawing_def)

lemma in_memory_in_drawing: "in_memory s s' \<Longrightarrow> in_drawing s s'"
  unfolding in_memory_def
proof -
  assume "s' = s\<lparr>phys := phys s'\<rparr>"
  then obtain p where "s' = s\<lparr>phys := p\<rparr>" by blast
  then show "in_drawing s s'" by (simp add: in_drawing_def)
qed

lemma st8_draws: "draw.obeys (st8 a v)"
  using mem_effect.obeysD [OF st8_in_memory] in_memory_in_drawing by (intro draw.obeysI) blast

lemma update_draws:
  "draw.obeys (\<lambda>s. Some (s\<lparr>screen_x := x s\<rparr>))" "draw.obeys (\<lambda>s. Some (s\<lparr>screen_y := y s\<rparr>))"
  "draw.obeys (\<lambda>s. Some (s\<lparr>term_cursor_x := cx s\<rparr>))" "draw.obeys (\<lambda>s. Some (s\<lparr>term_cursor_y := cy s\<rparr>))"
  "draw.obeys (\<lambda>s. Some (s\<lparr>io := l s\<rparr>))"
  by (simp_all add: draw.obeys_def in_drawing_def)

lemma store_cell_draws: "draw.obeys (store_cell p c)"
  unfolding store_cell_def by (intro draw.obeys_bind st8_draws)

lemma clear_char_draws: "draw.obeys clear_char"
  using draw.obeysD [OF store_cell_draws] by (intro draw.obeysI) (simp add: clear_char_def)

lemma clear_draws: "draw.obeys clear"
  unfolding clear_def by (intro draw.obeys_for_each store_cell_draws)

lemma scroll_draws: "draw.obeys scroll"
  unfolding scroll_def
proof (rule draw.obeys_for_each, rule draw.obeysI)
  fix i and s s' :: "'a tty_state_scheme"
  assume "do {
     c \<leftarrow> ld8 s (VIDEO + push_bit 1 (of_nat i));
     s \<leftarrow> st8 (VIDEO + push_bit 1 (of_nat (i - 80))) c s;
     if i > 25 * 80 - 80 - 1 then store_cell (of_nat i) (of_char (CHR '' '')) s else Some s
   } = Some s'"
  then obtain c s1 where "st8 (VIDEO + push_bit 1 (of_nat (i - 80))) c s = Some s1"
    "(if i > 25 * 80 - 80 - 1 then store_cell (of_nat i) (of_char (CHR '' '')) s1 else Some s1) = Some s'"
    by (auto simp: Option.bind_eq_Some_conv simp del: of_nat_diff)
  then show "in_drawing s s'"
    using draw.obeysD [OF st8_draws] draw.obeysD [OF store_cell_draws] draw.eff_trans
    by (metis option.inject)
qed

lemma cursor_check_draws: "cursor_check s = Some (fl, s') \<Longrightarrow> in_drawing s s'"
  by (auto simp: cursor_check_def set_screen_coords_def in_drawing_def Let_def
      Option.bind_eq_Some_conv split: if_splits)

lemma term_cursor_update_draws: "draw.obeys term_cursor_update"
  by (auto simp: draw.obeys_def term_cursor_update_def set_term_cursor_x_def set_term_cursor_y_def
      in_drawing_def Let_def Option.bind_eq_Some_conv)

text \<open>As rules that walk back from the end of an operation to its start.\<close>

lemma drawing_updates [intro]:
  assumes "in_drawing s0 s"
  shows "in_drawing s0 (s\<lparr>screen_x := x\<rparr>)" "in_drawing s0 (s\<lparr>screen_y := y\<rparr>)"
    "in_drawing s0 (s\<lparr>screen_x := x, screen_y := y\<rparr>)"
    "in_drawing s0 (s\<lparr>io := l\<rparr>)"
  by (rule draw.eff_trans [OF assms], simp add: in_drawing_def)+

lemma draw_after:
  "draw.obeys f \<Longrightarrow> f s = Some s' \<Longrightarrow> in_drawing s0 s \<Longrightarrow> in_drawing s0 s'"
  using draw.eff_trans draw.obeysD by blast

lemma putc_newline_draws: "draw.obeys putc_newline"
proof (rule draw.obeysI)
  fix s s' :: "'a tty_state_scheme"
  assume "putc_newline s = Some s'"
  then obtain s1 where s1: "(if screen_y s = 25 - 1 then scroll s else Some (s\<lparr>screen_y := screen_y s + 1\<rparr>)) = Some s1"
    and s': "s' = s1\<lparr>screen_x := 0\<rparr>"
    unfolding putc_newline_def Option.bind_eq_Some_conv by blast
  have "in_drawing s s1"
  proof (cases "screen_y s = 25 - 1")
    case True
    with s1 show ?thesis using draw.obeysD [OF scroll_draws, of s s1] by simp
  next
    case False
    with s1 have "s1 = s\<lparr>screen_y := screen_y s + 1\<rparr>" by simp
    then show ?thesis using draw.eff_refl by blast
  qed
  then show "in_drawing s s'" unfolding s' by (rule drawing_updates)
qed

lemma putc_glyph_draws: "draw.obeys (putc_glyph c)"
proof (rule draw.obeysI)
  fix s s' :: "'a tty_state_scheme"
  define wrap :: "'a tty_state_scheme \<Rightarrow> 'a tty_state_scheme" where
    "wrap s = (let s = s\<lparr>screen_x := screen_x s + 1\<rparr>;
       s = (if 80 - 1 <s screen_x s then s\<lparr>screen_y := screen_y s + 1\<rparr> else s);
       s = s\<lparr>screen_x := int_mod (screen_x s) 80\<rparr>
     in s\<lparr>screen_y := screen_y s + int_div (screen_x s) 80\<rparr>)" for s
  assume "putc_glyph c s = Some s'"
  then obtain s1 where s1: "store_cell (80 * screen_y s + screen_x s) c s = Some s1"
    and r: "(if 25 - 1 <s screen_y (wrap s1) then do {
       s \<leftarrow> scroll (wrap s1);
       Some (s\<lparr>screen_y := 25 - 1, screen_x := 0\<rparr>)
     } else Some (wrap s1)) = Some s'"
    unfolding putc_glyph_def wrap_def Let_def Option.bind_eq_Some_conv by blast
  have "in_drawing s s1" using draw.obeysD [OF store_cell_draws s1] .
  moreover have "in_drawing s1 (wrap s1)"
    using draw.eff_refl [of s1] by (auto simp only: wrap_def Let_def split: if_split intro: drawing_updates)
  ultimately have w: "in_drawing s (wrap s1)" by (rule draw.eff_trans)
  show "in_drawing s s'"
  proof (cases "25 - 1 <s screen_y (wrap s1)")
    case True
    with r obtain s2 where "scroll (wrap s1) = Some s2" "s' = s2\<lparr>screen_y := 25 - 1, screen_x := 0\<rparr>"
      by (auto simp: Option.bind_eq_Some_conv)
    then show ?thesis using draw_after [OF scroll_draws _ w] by blast
  next
    case False
    with r w show ?thesis by simp
  qed
qed

lemma write_cursor_draws: "in_drawing s0 s \<Longrightarrow> in_drawing s0 (write_cursor pos s)"
  by (auto simp: write_cursor_def outb_def Let_def)

lemma putc_draws: "draw.obeys (putc c)"
proof (rule draw.obeysI)
  fix s s' :: "'a tty_state_scheme"
  assume "putc c s = Some s'"
  then obtain flag s1 s2 where s1: "cursor_check s = Some (flag, s1)"
    and s2: "(if c = of_char (CHR ''\<newline>'') \<or> c = 13 then putc_newline s1 else putc_glyph c s1) = Some s2"
    and s': "term_cursor_update (if flag = 1 then write_cursor (screen_y s2 * 80 + screen_x s2) s2 else s2) = Some s'"
    by (auto simp: putc_def Let_def Option.bind_eq_Some_conv)
  have "in_drawing s s1" using s1 by (rule cursor_check_draws)
  then have "in_drawing s s2"
    using s2 draw_after [OF putc_newline_draws] draw_after [OF putc_glyph_draws] by (auto split: if_splits)
  then have "in_drawing s (if flag = 1 then write_cursor (screen_y s2 * 80 + screen_x s2) s2 else s2)"
    by (auto intro: write_cursor_draws)
  with s' show "in_drawing s s'" by (rule draw_after [OF term_cursor_update_draws])
qed

lemma puts_from_draws: "puts_from rd a i s = Some r \<Longrightarrow> in_drawing s (snd r)"
proof (rule puts_from.raw_induct [where P = "\<lambda>rd a i s r. in_drawing s (snd r)"])
  fix p rd a i and s :: "'a tty_state_scheme" and r
  assume IH: "\<And>rd a i s r. p rd a i s = Some r \<Longrightarrow> in_drawing s (snd r)"
    and "do { c \<leftarrow> rd s (a + i); if c \<noteq> 0 then do { s \<leftarrow> putc c s; p rd a (i + 1) s } else Some (i, s) } = Some r"
  then consider "r = (i, s)" | c s1 where "putc c s = Some s1" "p rd a (i + 1) s1 = Some r"
    by (auto simp: Option.bind_eq_Some_conv split: if_splits)
  then show "in_drawing s (snd r)"
  proof cases
    case 1
    then show ?thesis by (simp add: draw.eff_refl)
  next
    case 2
    then show ?thesis using draw.obeysD [OF putc_draws] draw.eff_trans IH by blast
  qed
qed

lemma puts_draws: "puts rd a s = Some (n, s') \<Longrightarrow> in_drawing s s'"
  using puts_from_draws [of rd a 0 s "(n, s')"] by (simp add: puts_def)

lemma puts_lit_draws: "draw.obeys (puts_lit str)"
  by (rule draw.obeysI) (auto simp: puts_lit_def Option.bind_eq_Some_conv dest: puts_draws)

lemma conv_draws: "draw.obeys (conv_hex al v)" "draw.obeys (conv_unsigned v)" "draw.obeys (conv_signed v)"
  by (rule draw.obeysI, auto simp: conv_hex_def conv_unsigned_def conv_signed_def Let_def
      Option.bind_eq_Some_conv split: if_splits dest: puts_draws)+

lemma format_char_draws: "format_char rd a al args s = Some r \<Longrightarrow> in_drawing s (snd (snd r))"
proof (rule format_char.raw_induct [where P = "\<lambda>rd a al args s r. in_drawing s (snd (snd r))"])
  fix p :: "('a tty_state_scheme \<Rightarrow> u32 \<Rightarrow> u8 option) \<Rightarrow> u32 \<Rightarrow> bool \<Rightarrow> u32 list \<Rightarrow> 'a tty_state_scheme \<Rightarrow>
      (u32 \<times> u32 list \<times> 'a tty_state_scheme) option"
    and rd a al args s r
  assume IH: "\<And>rd a al args s r. p rd a al args s = Some r \<Longrightarrow> in_drawing s (snd (snd r))"
    and eq: "do {
     c \<leftarrow> rd s a;
     if c = of_char (CHR ''%'') then do { s \<leftarrow> putc (of_char (CHR ''%'')) s; Some (a, args, s) }
     else if c = of_char (CHR ''#'') then p rd (a + 1) True args s
     else if c = of_char (CHR ''x'') then do {
       (v, args) \<leftarrow> next_arg args; s \<leftarrow> conv_hex al v s; Some (a, args, s) }
     else if c = of_char (CHR ''u'') then do {
       (v, args) \<leftarrow> next_arg args; s \<leftarrow> conv_unsigned v s; Some (a, args, s) }
     else if c = of_char (CHR ''d'') then do {
       (v, args) \<leftarrow> next_arg args; s \<leftarrow> conv_signed v s; Some (a, args, s) }
     else if c = of_char (CHR ''c'') then do {
       (v, args) \<leftarrow> next_arg args; s \<leftarrow> putc (ucast v) s; Some (a, args, s) }
     else if c = of_char (CHR ''s'') then do {
       (v, args) \<leftarrow> next_arg args; (_, s) \<leftarrow> puts ld8 v s; Some (a, args, s) }
     else Some (a, args, s)
   } = Some r"
  obtain c where "rd s a = Some c" using eq by (auto simp: Option.bind_eq_Some_conv)
  note eq' = eq [unfolded this Option.bind.bind_lunit]
  note parts = draw.obeysD [OF putc_draws] draw.obeysD [OF conv_draws(1)] draw.obeysD [OF conv_draws(2)]
    draw.obeysD [OF conv_draws(3)] puts_draws draw.eff_refl
  show "in_drawing s (snd (snd r))"
  proof (cases "c = of_char (CHR ''#'')")
    case True
    then have "p rd (a + 1) True args s = Some r" using eq' by simp
    then show ?thesis by (rule IH)
  next
    case False
    with eq' show ?thesis
      by (auto simp: Option.bind_eq_Some_conv split: if_splits intro: parts)
  qed
qed

lemma printf_from_draws: "printf_from rd a args s = Some r \<Longrightarrow> in_drawing s (snd r)"
proof (rule printf_from.raw_induct [where P = "\<lambda>rd a args s r. in_drawing s (snd r)"])
  fix p rd a args and s :: "'a tty_state_scheme" and r
  assume IH: "\<And>rd a args s r. p rd a args s = Some r \<Longrightarrow> in_drawing s (snd r)"
    and "do {
     c \<leftarrow> rd s a;
     if c = 0 then Some (a, s)
     else if c = of_char (CHR ''%'') then do {
       (a, args, s) \<leftarrow> format_char rd (a + 1) False args s;
       p rd (a + 1) args s
     }
     else do { s \<leftarrow> putc c s; p rd (a + 1) args s }
   } = Some r"
  then consider "r = (a, s)" | a' args' s1 where "format_char rd (a + 1) False args s = Some (a', args', s1)"
      "p rd (a' + 1) args' s1 = Some r"
    | c s1 where "putc c s = Some s1" "p rd (a + 1) args s1 = Some r"
    by (auto simp: Option.bind_eq_Some_conv split: if_splits)
  then show "in_drawing s (snd r)"
  proof cases
    case 1
    then show ?thesis by (simp add: draw.eff_refl)
  next
    case 2
    then have "in_drawing s s1" using format_char_draws by force
    then show ?thesis using 2 draw.eff_trans IH by blast
  next
    case 3
    then show ?thesis using draw.obeysD [OF putc_draws] draw.eff_trans IH by blast
  qed
qed

lemma printf_lit_draws: "printf_lit str args s = Some s' \<Longrightarrow> in_drawing s s'"
  by (auto simp: printf_lit_def printf_def Option.bind_eq_Some_conv dest: printf_from_draws)

section \<open>What no driver touches\<close>

text \<open>
  The drivers and their interrupt handlers leave the page tables (entry 0 of the window
  excepted), the interrupt table, and everything above the keyboard driver's state alone.
\<close>

definition driver_kept :: "'a kbd_state_scheme \<Rightarrow> 'a kbd_state_scheme \<Rightarrow> bool" where
  "driver_kept s s' \<longleftrightarrow>
     paging s' = paging s \<and> page_directory s' = page_directory s \<and> page_table s' = page_table s \<and>
     (\<forall>i > 0. page_table_vid s' i = page_table_vid s i) \<and>
     page_table_at s' = page_table_at s \<and> page_table_vid_at s' = page_table_vid_at s \<and>
     boot_block s' = boot_block s \<and> stack_junk s' = stack_junk s \<and> device s' = device s \<and>
     idt s' = idt s \<and> handler_at s' = handler_at s \<and> kbd_state.more s' = kbd_state.more s"

interpretation drv: effect driver_kept
  by unfold_locales (simp_all add: driver_kept_def)

lemma drawing_kept: "in_drawing s s' \<Longrightarrow> driver_kept s s'"
  for s s' :: "'a kbd_state_scheme"
proof -
  assume "in_drawing s s'"
  then obtain p w l x y cx cy where "s' = s\<lparr>phys := p, page_table_vid := (page_table_vid s)(0 := w), io := l,
       screen_x := x, screen_y := y, term_cursor_x := cx, term_cursor_y := cy\<rparr>"
    unfolding in_drawing_def by blast
  then show ?thesis by (simp add: driver_kept_def)
qed

lemma memory_kept: "in_memory s s' \<Longrightarrow> driver_kept s s'"
  for s s' :: "'a kbd_state_scheme"
  using drawing_kept in_memory_in_drawing [of s s'] by blast

subsection \<open>The pieces of the handlers\<close>

text \<open>Assignments to a driver's own variables, walking back from the end of an operation.\<close>

lemma driver_assigns:
  fixes s :: "'a kbd_state_scheme"
  assumes "driver_kept s0 s"
  shows "driver_kept s0 (s\<lparr>io := l\<rparr>)" "driver_kept s0 (s\<lparr>int_flag := f\<rparr>)"
    "driver_kept s0 (s\<lparr>screen_x := w\<rparr>)" "driver_kept s0 (s\<lparr>screen_y := w\<rparr>)"
    "driver_kept s0 (s\<lparr>cur_term_num := b\<rparr>)" "driver_kept s0 (s\<lparr>term_in_service := b\<rparr>)"
    "driver_kept s0 (s\<lparr>terminal_buf := bs\<rparr>)" "driver_kept s0 (s\<lparr>buf_sent := b\<rparr>)"
    "driver_kept s0 (s\<lparr>x_start_tw := w\<rparr>)" "driver_kept s0 (s\<lparr>y_start_tw := w\<rparr>)"
    "driver_kept s0 (s\<lparr>override_start := w\<rparr>)" "driver_kept s0 (s\<lparr>terminal_opened := b\<rparr>)"
    "driver_kept s0 (s\<lparr>term_cursor_x := ws\<rparr>)" "driver_kept s0 (s\<lparr>term_cursor_y := ws\<rparr>)"
    "driver_kept s0 (s\<lparr>dir_location := w\<rparr>)" "driver_kept s0 (s\<lparr>read_wait := b\<rparr>)"
    "driver_kept s0 (s\<lparr>rtc_opened := b\<rparr>)" "driver_kept s0 (s\<lparr>master_mask := b\<rparr>)"
    "driver_kept s0 (s\<lparr>slave_mask := b\<rparr>)" "driver_kept s0 (s\<lparr>freq_idx := w\<rparr>)"
    "driver_kept s0 (s\<lparr>kbd_buf := bs\<rparr>)" "driver_kept s0 (s\<lparr>kbd_buf_idx := b\<rparr>)"
    "driver_kept s0 (s\<lparr>term_bufs := bss\<rparr>)" "driver_kept s0 (s\<lparr>print_me := b\<rparr>)"
    "driver_kept s0 (s\<lparr>shift_pressed := b\<rparr>)" "driver_kept s0 (s\<lparr>capslock_pressed := b\<rparr>)"
    "driver_kept s0 (s\<lparr>ctrl_pressed := b\<rparr>)" "driver_kept s0 (s\<lparr>alt_pressed := b\<rparr>)"
    "driver_kept s0 (s\<lparr>x_start := w\<rparr>)" "driver_kept s0 (s\<lparr>y_start := w\<rparr>)"
    "driver_kept s0 (s\<lparr>page_table_vid := (page_table_vid s)(0 := w)\<rparr>)"
  using assms by (simp_all add: driver_kept_def)

lemma driver_after:
  fixes s :: "'a kbd_state_scheme"
  assumes "driver_kept s0 s"
  shows "in_drawing s s' \<Longrightarrow> driver_kept s0 s'" "in_memory s s' \<Longrightarrow> driver_kept s0 s'"
    "driver_kept s s' \<Longrightarrow> driver_kept s0 s'"
  using assms drawing_kept memory_kept drv.eff_trans by blast+

lemmas screen_steps = draw.obeysD [OF putc_draws] draw.obeysD [OF scroll_draws] draw.obeysD [OF clear_draws]
  draw.obeysD [OF clear_char_draws] draw.obeysD [OF puts_lit_draws] printf_lit_draws

lemma cursor_kept:
  fixes s :: "'a kbd_state_scheme"
  shows "driver_kept s (update_cursor x y s)" "driver_kept s (set_screen_coords x y s)"
    "save_cursor cur s = Some s' \<Longrightarrow> driver_kept s s'"
    "move_cursor cur x y s = Some s' \<Longrightarrow> driver_kept s s'"
  by (auto simp: driver_kept_def move_cursor_def save_cursor_def update_cursor_def set_screen_coords_def
      outb_def set_term_cursor_x_def set_term_cursor_y_def Let_def Option.bind_eq_Some_conv)

lemma line_kept:
  fixes s :: "'a kbd_state_scheme"
  shows "flush_kbd_buf s = Some s' \<Longrightarrow> driver_kept s s'"
    "key_release c s = Some s' \<Longrightarrow> driver_kept s s'"
    "driver_kept s (key_modifiers c s)"
  by (auto simp: flush_kbd_buf_def key_release_def key_modifiers_def Let_def
      Option.bind_eq_Some_conv intro!: driver_assigns drv.eff_refl)

lemma send_buffer_kept: "send_buffer b s = Some s' \<Longrightarrow> driver_kept s s'"
  for s :: "'a kbd_state_scheme"
proof -
  assume "send_buffer b s = Some s'"
  moreover have "drv.obeys (for_each (\<lambda>i s :: 'a kbd_state_scheme. do {
         v \<leftarrow> arr_get b i;
         tb \<leftarrow> arr_set i v (terminal_buf s);
         Some (s\<lparr>terminal_buf := tb\<rparr>)
       }) [0..<MAX_BUF])"
    by (intro drv.obeys_for_each drv.obeysI) (auto simp: driver_kept_def Option.bind_eq_Some_conv)
  ultimately show ?thesis
    by (auto simp: send_buffer_def Option.bind_eq_Some_conv dest!: drv.obeysD intro: driver_assigns)
qed

lemma rtc_kept:
  fixes s :: "'a kbd_state_scheme"
  shows "driver_kept s (snd (rtc_open s))" "driver_kept s (rtc_handler s)"
    "rtc_close s = Some (v, s') \<Longrightarrow> driver_kept s s'"
    "rtc_write a n s = Some (v, s') \<Longrightarrow> driver_kept s s'"
proof -
  show "driver_kept s (snd (rtc_open s))" "driver_kept s (rtc_handler s)"
    by (simp_all add: driver_kept_def rtc_open_def rtc_handler_def send_eoi_def port_defs Let_def)
  show "driver_kept s s'" if "rtc_close s = Some (v, s')"
    using that drawing_kept [OF draw.obeysD [OF puts_lit_draws]]
    by (auto simp: rtc_close_def Option.bind_eq_Some_conv driver_kept_def split: if_splits)
  have "driver_kept s (rtc_set_rate b s)" for b
    by (simp add: driver_kept_def rtc_set_rate_def port_defs Let_def)
  then show "driver_kept s s'" if "rtc_write a n s = Some (v, s')"
    using that drawing_kept [OF draw.obeysD [OF puts_lit_draws]] drv.eff_refl
    by (auto simp: rtc_write_def Option.bind_eq_Some_conv split: if_splits option.splits)
qed

lemma switch_terminal_kept: "switch_terminal c n s = Some s' \<Longrightarrow> driver_kept s s'"
  for s :: "'a kbd_state_scheme"
  by (auto simp: switch_terminal_def set_cur_term_def Let_def Option.bind_eq_Some_conv
      dest!: memcpy_in_memory [of ld8]
      intro!: driver_assigns drv.eff_trans [OF _ cursor_kept(1)] drv.eff_trans [OF _ cursor_kept(2)]
      intro: memory_kept driver_after(2))

text \<open>The same assignments on the other side.\<close>

lemma driver_from:
  fixes s :: "'a kbd_state_scheme"
  shows "driver_kept (s\<lparr>freq_idx := w\<rparr>) s' \<longleftrightarrow> driver_kept s s'"
    "driver_kept (update_cursor x y s) s' \<longleftrightarrow> driver_kept s s'"
    "driver_kept (set_screen_coords x y s) s' \<longleftrightarrow> driver_kept s s'"
    "driver_kept (s\<lparr>page_table_vid := (page_table_vid s)(0 := w)\<rparr>) s' \<longleftrightarrow> driver_kept s s'"
    "driver_kept (set_term_in_service b s) s' \<longleftrightarrow> driver_kept s s'"
    "driver_kept (key_modifiers c s) s' \<longleftrightarrow> driver_kept s s'"
proof -
  show "driver_kept (update_cursor x y s) s' \<longleftrightarrow> driver_kept s s'"
    by (simp add: driver_kept_def update_cursor_def outb_def Let_def)
  show "driver_kept (key_modifiers c s) s' \<longleftrightarrow> driver_kept s s'"
    by (simp add: driver_kept_def key_modifiers_def Let_def)
qed (simp_all add: driver_kept_def set_screen_coords_def set_term_in_service_def)

lemmas handler_steps = screen_steps [THEN drawing_kept] cursor_kept(3,4) line_kept(1,2) send_buffer_kept
  rtc_kept(3,4) switch_terminal_kept

lemma ctrl_keys_kept: "ctrl_keys c k s = Some s' \<Longrightarrow> driver_kept s s'"
  for s :: "'a kbd_state_scheme"
  by (auto simp: ctrl_keys_def Let_def Option.bind_eq_Some_conv drv.eff_refl driver_from case_prod_beta
      split: if_splits dest!: handler_steps intro: drv.eff_trans [OF _ rtc_kept(1)] drv.eff_trans)
    (simp_all add: driver_kept_def)

lemma backspace_key_kept: "backspace_key c k s = Some s' \<Longrightarrow> driver_kept s s'"
  for s :: "'a kbd_state_scheme"
  by (auto simp: backspace_key_def Let_def Option.bind_eq_Some_conv drv.eff_refl driver_from
      split: if_splits dest!: handler_steps intro!: driver_assigns intro: drv.eff_trans)

lemma enter_key_kept: "enter_key c k s = Some s' \<Longrightarrow> driver_kept s s'"
  for s :: "'a kbd_state_scheme"
  by (auto simp: enter_key_def Let_def Option.bind_eq_Some_conv drv.eff_refl driver_from
      split: if_splits dest!: handler_steps intro!: driver_assigns intro: drv.eff_trans)

lemma print_key_kept: "print_key c k s = Some s' \<Longrightarrow> driver_kept s s'"
  for s :: "'a kbd_state_scheme"
  by (auto simp: print_key_def Let_def Option.bind_eq_Some_conv drv.eff_refl driver_from
      split: if_splits dest!: handler_steps intro!: driver_assigns intro: drv.eff_trans)

lemma alt_keys_kept: "alt_keys c k s = Some s' \<Longrightarrow> driver_kept s s'"
  for s :: "'a kbd_state_scheme"
  by (auto simp: alt_keys_def Let_def drv.eff_refl split: if_splits dest!: switch_terminal_kept)

lemma key_press_kept: "key_press c k s = Some s' \<Longrightarrow> driver_kept s s'"
  for s :: "'a kbd_state_scheme"
  by (auto simp: key_press_def Let_def Option.bind_eq_Some_conv driver_from
      dest!: ctrl_keys_kept backspace_key_kept enter_key_kept print_key_kept alt_keys_kept)
    (simp add: driver_kept_def)

lemma handler_frame_kept:
  fixes s :: "'a kbd_state_scheme"
  shows "driver_kept s (snd (inb p s))" "driver_kept s (disable_irq n s)" "driver_kept s (enable_irq n s)"
    "driver_kept s (send_eoi n s)"
  by (simp_all add: driver_kept_def disable_irq_def enable_irq_def send_eoi_def port_defs Let_def)

lemma keyboard_handler_kept: "keyboard_handler s = Some s' \<Longrightarrow> driver_kept s s'"
  for s :: "'a kbd_state_scheme"
proof -
  define s1 where "s1 = (let s = set_term_in_service (get_cur_term s) (s\<lparr>page_table_vid := (page_table_vid s)(0 := VIM_MEM_INDEX OR RW OR PRESENT OR USER)\<rparr>)
       in if get_override s \<noteq> 0
       then set_override 0 (s\<lparr>x_start := get_x_start_tw s, y_start := get_y_start_tw s\<rparr>) else s)"
  define cur sc where "cur = cur_term_num s" and "sc = fst (inb 0x60 (disable_irq 1 s1))"
  have k: "keyboard_handler s = do {
       s2 \<leftarrow> (if sc AND 0x80 \<noteq> 0 then key_release sc (snd (inb 0x60 (disable_irq 1 s1)))
         else key_press cur sc (snd (inb 0x60 (disable_irq 1 s1))));
       Some (enable_irq 1 (send_eoi 1 (set_term_in_service (term_in_service s)
         (s2\<lparr>page_table_vid := (page_table_vid s2)(0 := page_table_vid s 0)\<rparr>))))
     }"
    by (simp add: keyboard_handler_def s1_def cur_def sc_def Let_def case_prod_beta
        get_cur_term_def get_term_in_service_def)
  assume "keyboard_handler s = Some s'"
  then obtain s2 where s2: "(if sc AND 0x80 \<noteq> 0 then key_release sc (snd (inb 0x60 (disable_irq 1 s1)))
         else key_press cur sc (snd (inb 0x60 (disable_irq 1 s1)))) = Some s2"
    and s': "s' = enable_irq 1 (send_eoi 1 (set_term_in_service (term_in_service s)
       (s2\<lparr>page_table_vid := (page_table_vid s2)(0 := page_table_vid s 0)\<rparr>)))"
    unfolding k Option.bind_eq_Some_conv option.inject by blast
  have "driver_kept s s1"
    by (auto simp: s1_def Let_def kernel_unfold intro!: driver_assigns drv.eff_refl)
  moreover have "driver_kept s1 s2"
  proof -
    have "driver_kept s1 (snd (inb 0x60 (disable_irq 1 s1)))"
      by (rule drv.eff_trans [OF handler_frame_kept(2) handler_frame_kept(1)])
    moreover have "driver_kept (snd (inb 0x60 (disable_irq 1 s1))) s2"
      using s2 by (auto split: if_splits intro: line_kept(2) key_press_kept)
    ultimately show ?thesis by (rule drv.eff_trans)
  qed
  moreover have "driver_kept s2 s'"
    unfolding s' set_term_in_service_def
    by (intro drv.eff_trans [OF _ handler_frame_kept(3)] drv.eff_trans [OF _ handler_frame_kept(4)]
        driver_assigns drv.eff_refl)
  ultimately show ?thesis using drv.eff_trans by blast
qed

end
