(* ===== verification/Process.thy ===== *)
theory Process
  imports Frames
begin

text \<open>
  Processes and system calls: \<open>syscalls.c\<close> and the dispatch of \<open>syscall_linker\<close>. A process
  control block is a typed object at the address \<open>get_pcb_loc\<close> computes, apart from the bytes of
  memory: a call that is given a pointer into a control block, which \<open>sys_read\<close> and \<open>sys_getargs\<close>
  do not refuse, is not expressed. A call is one step, except where it waits; on the machine its
  gate lets interrupts through. Which process runs is read off the stack pointer, as in the
  code. A call that does not return to its caller (\<open>sys_execute\<close> enters the new program,
  \<open>sys_halt\<close> leaves on the parent's stack) answers with where it goes.
\<close>

section \<open>State (syscalls.h)\<close>

abbreviation (input) "MAX_PROCESSES \<equiv> (6 :: nat)"
abbreviation (input) "FREE \<equiv> (0 :: i32)"
abbreviation (input) "RUNNING \<equiv> (1 :: i32)"
abbreviation (input) "EIGHT_MB \<equiv> (0x800000 :: u32)"
abbreviation (input) "EIGHT_KB \<equiv> (0x2000 :: u32)"
abbreviation (input) "OTE_MB \<equiv> (0x8000000 :: u32)"
abbreviation (input) "KERNEL_LOC \<equiv> (0x400000 :: u32)"
abbreviation (input) "USER_IDX \<equiv> (0x48000 :: u32)"
abbreviation (input) "KB_BUF_SIZE_MAX \<equiv> (128 :: u32)"
abbreviation (input) "MAX_FILENAME_LENGTH \<equiv> (32 :: u32)"

record pcb =
  file_descs :: "file_desc list"
  pid :: i32
  parent_pid :: i32
  parent_phys_addr :: u32
  parent_esp :: u32
  parent_ebp :: u32
  pcb_file_position :: u32
  status :: u32
  arg :: "u8 list"
  arg_size :: u32
  term_number :: u8

text \<open>\<open>stack_pcb\<close> is what the stack holds where a local \<open>pcb\<close> is not yet initialised.\<close>

record proc_state = kbd_state +
  proc_arr :: "i32 list"
  pcb_at :: "u32 \<Rightarrow> pcb"
  stack_pcb :: pcb
  esp :: u32
  ebp :: u32
  tss_esp0 :: u32
  tss_ss0 :: u16

record user_frame =
  user_eip :: u32
  user_cs :: u16
  user_if :: bool
  user_esp :: u32
  user_ss :: u16

text \<open>
  How a call ends: with a value, in user mode through \<open>iret\<close>, or by \<open>leave; ret\<close> on another
  stack, at a return address with a value in EAX.
\<close>

datatype transfer = Ret i32 | Enter_user user_frame | Resume u32 u32

section \<open>Process numbers and control blocks\<close>

definition get_process_number :: "'a proc_state_scheme \<Rightarrow> i32" where
  "get_process_number s = ((EIGHT_MB - esp s) + 1) div EIGHT_KB"

definition get_pcb_loc :: "i32 \<Rightarrow> u32" where
  "get_pcb_loc process_number = KERNEL_LOC + MB_4 - EIGHT_KB * (process_number + 1)"

definition get_proc_arr :: "'a proc_state_scheme \<Rightarrow> i32 list" where
  "get_proc_arr s = proc_arr s"

definition set_proc :: "u32 \<Rightarrow> i32 \<Rightarrow> 'a proc_state_scheme \<Rightarrow> 'a proc_state_scheme option" where
  "set_proc n v s = do {
     a \<leftarrow> arr_set (unat n) v (proc_arr s);
     Some (s\<lparr>proc_arr := a\<rparr>)
   }"

definition get_desc :: "u32 \<Rightarrow> i32 \<Rightarrow> 'a proc_state_scheme \<Rightarrow> file_desc option" where
  "get_desc loc fd s = arr_get (file_descs (pcb_at s loc)) (unat fd)"

definition set_desc :: "u32 \<Rightarrow> i32 \<Rightarrow> file_desc \<Rightarrow> 'a proc_state_scheme \<Rightarrow> 'a proc_state_scheme option" where
  "set_desc loc fd d s = do {
     ds \<leftarrow> arr_set (unat fd) d (file_descs (pcb_at s loc));
     Some (s\<lparr>pcb_at := (pcb_at s)(loc := (pcb_at s loc)\<lparr>file_descs := ds\<rparr>)\<rparr>)
   }"

section \<open>Calls through the jump tables\<close>

definition empty_function :: i32 where "empty_function = -1"

text \<open>A null \<open>fot_ptr\<close> faults. \<open>fread\<close> works on the descriptor in place.\<close>

fun fot_read ::
  "('e \<Rightarrow> 'a proc_state_scheme \<Rightarrow> 'a proc_state_scheme option) \<Rightarrow> 'e list \<Rightarrow> fot \<Rightarrow> u32 \<Rightarrow> i32 \<Rightarrow>
   u32 \<Rightarrow> i32 \<Rightarrow> 'a proc_state_scheme \<Rightarrow> (i32 \<times> 'e list \<times> 'a proc_state_scheme) option"
where
  "fot_read irq irqs Null_fot loc fd buf nbytes s = None"
| "fot_read irq irqs Stdin_fot loc fd buf nbytes s = terminal_read irq irqs buf nbytes s"
| "fot_read irq irqs Stdout_fot loc fd buf nbytes s = Some (empty_function, irqs, s)"
| "fot_read irq irqs File_fot loc fd buf nbytes s = do {
     d \<leftarrow> get_desc loc fd s;
     (v, d, s) \<leftarrow> fread d buf nbytes s;
     s \<leftarrow> set_desc loc fd d s;
     Some (v, irqs, s)
   }"
| "fot_read irq irqs Rtc_fot loc fd buf nbytes s = rtc_read irq irqs s"
| "fot_read irq irqs Dir_fot loc fd buf nbytes s = do {
     (v, s) \<leftarrow> dir_read buf s;
     Some (v, irqs, s)
   }"

fun fot_write :: "fot \<Rightarrow> u32 \<Rightarrow> i32 \<Rightarrow> 'a proc_state_scheme \<Rightarrow> (i32 \<times> 'a proc_state_scheme) option" where
  "fot_write Null_fot buf nbytes s = None"
| "fot_write Stdin_fot buf nbytes s = Some (empty_function, s)"
| "fot_write Stdout_fot buf nbytes s = terminal_write buf nbytes s"
| "fot_write File_fot buf nbytes s = Some (fwrite, s)"
| "fot_write Rtc_fot buf nbytes s = rtc_write buf nbytes s"
| "fot_write Dir_fot buf nbytes s = Some (dir_write, s)"

fun fot_close :: "fot \<Rightarrow> 'a proc_state_scheme \<Rightarrow> (i32 \<times> 'a proc_state_scheme) option" where
  "fot_close Null_fot s = None"
| "fot_close Stdin_fot s = Some (empty_function, s)"
| "fot_close Stdout_fot s = Some (empty_function, s)"
| "fot_close File_fot s = Some (fclose, s)"
| "fot_close Rtc_fot s = rtc_close s"
| "fot_close Dir_fot s = Some (dir_close, s)"

section \<open>Files\<close>

definition sys_read ::
  "('e \<Rightarrow> 'a proc_state_scheme \<Rightarrow> 'a proc_state_scheme option) \<Rightarrow> 'e list \<Rightarrow> i32 \<Rightarrow> u32 \<Rightarrow> i32 \<Rightarrow>
   'a proc_state_scheme \<Rightarrow> (i32 \<times> 'e list \<times> 'a proc_state_scheme) option" where
  "sys_read irq irqs fd buf nbytes s = do {
     let loc = get_pcb_loc (get_process_number s);
     if fd <s 0 \<or> 8 \<le>s fd then Some (-1, irqs, s)
     else do {
       d \<leftarrow> get_desc loc fd s;
       if flags d AND 1 = 0 then Some (-1, irqs, s)
       else fot_read irq irqs (fot_ptr d) loc fd buf nbytes s
     }
   }"

definition sys_write :: "i32 \<Rightarrow> u32 \<Rightarrow> i32 \<Rightarrow> 'a proc_state_scheme \<Rightarrow> (i32 \<times> 'a proc_state_scheme) option" where
  "sys_write fd buf nbytes s = do {
     let loc = get_pcb_loc (get_process_number s);
     if fd <s 0 \<or> 8 \<le>s fd then Some (-1, s)
     else do {
       d \<leftarrow> get_desc loc fd s;
       if flags d AND 1 = 0 then Some (-1, s)
       else fot_write (fot_ptr d) buf nbytes s
     }
   }"

text \<open>The loop of \<open>sys_open\<close> over the descriptors from 2 on; 8 when all are in use.\<close>

primrec find_desc :: "file_desc list \<Rightarrow> nat list \<Rightarrow> nat option" where
  "find_desc ds [] = Some 8"
| "find_desc ds (i # is) = do {
     d \<leftarrow> arr_get ds i;
     if flags d = 0 then Some i else find_desc ds is
   }"

definition open_as :: "u32 \<Rightarrow> i32 \<Rightarrow> u32 \<Rightarrow> fot \<Rightarrow> 'a proc_state_scheme \<Rightarrow> 'a proc_state_scheme option" where
  "open_as loc i ino f s = do {
     d \<leftarrow> get_desc loc i s;
     set_desc loc i (d\<lparr>inode := ino, fot_ptr := f\<rparr>) s
   }"

definition sys_open :: "u32 \<Rightarrow> 'a proc_state_scheme \<Rightarrow> (i32 \<times> 'a proc_state_scheme) option" where
  "sys_open filename s = do {
     let loc = get_pcb_loc (get_process_number s);
     (v, dentry) \<leftarrow> read_dentry_by_name (ld8 s) filename (stack_junk s) s;
     if v = -1 then Some (-1, s)
     else do {
       n \<leftarrow> find_desc (file_descs (pcb_at s loc)) [2..<8];
       if n = 8 then Some (-1, s)
       else do {
         let i = of_nat n;
         d \<leftarrow> get_desc loc i s;
         s \<leftarrow> set_desc loc i (d\<lparr>flags := 1, file_position := 0\<rparr>) s;
         t \<leftarrow> file_type dentry;
         ino \<leftarrow> inode_num dentry;
         if t = 0 then do {
           let (r, s) = rtc_open s;
           if r = -1 then Some (-1, s)
           else do { s \<leftarrow> open_as loc i (-1) Rtc_fot s; Some (i, s) }
         }
         else if t = 1 then
           if dir_open \<noteq> 0 then Some (-1, s)
           else do { s \<leftarrow> open_as loc i (-1) Dir_fot s; Some (i, s) }
         else if t = 2 then
           if fopen \<noteq> 0 then Some (-1, s)
           else do { s \<leftarrow> open_as loc i ino File_fot s; Some (i, s) }
         else Some (i, s)
       }
     }
   }"

definition sys_close :: "i32 \<Rightarrow> 'a proc_state_scheme \<Rightarrow> (i32 \<times> 'a proc_state_scheme) option" where
  "sys_close fd s = do {
     let loc = get_pcb_loc (get_process_number s);
     if fd <s 0 \<or> 8 \<le>s fd then Some (-1, s)
     else do {
       d \<leftarrow> get_desc loc fd s;
       if flags d AND 1 = 0 then Some (-1, s)
       else do {
         (v, s) \<leftarrow> fot_close (fot_ptr d) s;
         if v = -1 then Some (-1, s)
         else do {
           d \<leftarrow> get_desc loc fd s;
           s \<leftarrow> set_desc loc fd (d\<lparr>flags := 0\<rparr>) s;
           Some (0, s)
         }
       }
     }
   }"

section \<open>Arguments, video memory, signals\<close>

text \<open>The comparison of \<open>nbytes\<close> with \<open>arg_size\<close> is unsigned, the one with 128 signed.\<close>

definition sys_getargs :: "u32 \<Rightarrow> i32 \<Rightarrow> 'a proc_state_scheme \<Rightarrow> (i32 \<times> 'a proc_state_scheme) option" where
  "sys_getargs buf nbytes s = do {
     let p = pcb_at s (get_pcb_loc (get_process_number s));
     if buf = 0 then Some (-1, s)
     else do {
       c \<leftarrow> arr_get (arg p) 0;
       if c = 0 \<or> nbytes < arg_size p then Some (-1, s)
       else do {
         let nbytes = (if 128 <s nbytes then 128 else nbytes);
         s \<leftarrow> memset st8 buf 0 (nbytes + 1) s;
         s \<leftarrow> memcpy (\<lambda>_. ldo (arg p)) st8 buf 0 nbytes s;
         Some (0, s)
       }
     }
   }"

definition sys_vidmap :: "u32 \<Rightarrow> 'a proc_state_scheme \<Rightarrow> (i32 \<times> 'a proc_state_scheme) option" where
  "sys_vidmap screen_start s =
     (if screen_start < OTE_MB \<or> screen_start > OTE_MB + MB_4 then Some (-1, s)
      else do {
        let proc_term = term_number (pcb_at s (get_pcb_loc (get_process_number s)));
        let cur_term = get_cur_term s;
        let s = (if cur_term \<noteq> proc_term
          then s\<lparr>page_table_vid := (page_table_vid s)(0 :=
            (VIM_MEM_INDEX + FOUR_KB * (ucast proc_term + 1)) OR RW OR PRESENT OR USER)\<rparr>
          else s\<lparr>page_table_vid := (page_table_vid s)(0 := VIM_MEM_INDEX OR RW OR PRESENT OR USER)\<rparr>);
        s \<leftarrow> write_bytes st8 screen_start (le_bytes ONE_GIG) s;
        Some (ONE_GIG, s)
      })"

definition sys_set_handler :: i32 where "sys_set_handler = 0"
definition sys_sigreturn :: i32 where "sys_sigreturn = 0"

section \<open>Starting and ending programs\<close>

primrec find_free :: "i32 list \<Rightarrow> nat list \<Rightarrow> u32 option" where
  "find_free arr [] = Some (-1)"
| "find_free arr (i # is) = do {
     v \<leftarrow> arr_get arr i;
     if v = FREE then Some (of_nat i) else find_free arr is
   }"

text \<open>
  The two loops over the command; \<open>Inl\<close> is an early return. A name of 33 characters or more
  writes past \<open>filename\<close> before the check stops it.
\<close>

partial_function (option) parse_name ::
  "(u32 \<Rightarrow> u8 option) \<Rightarrow> u32 \<Rightarrow> u32 \<Rightarrow> u8 list \<Rightarrow> (i32 + u32 \<times> u8 list) option"
where
  "parse_name rd command arg_it filename = do {
     c \<leftarrow> rd (command + arg_it);
     if c \<noteq> of_char (CHR '' '') \<and> c \<noteq> 0 then
       if arg_it > MAX_FILENAME_LENGTH then Some (Inl (-1))
       else do {
         filename \<leftarrow> sto arg_it c filename;
         parse_name rd command (arg_it + 1) filename
       }
     else Some (Inr (arg_it, filename))
   }"

partial_function (option) parse_arg ::
  "(u32 \<Rightarrow> u8 option) \<Rightarrow> u32 \<Rightarrow> u32 \<Rightarrow> u32 \<Rightarrow> u8 list \<Rightarrow> (i32 + u32 \<times> u8 list) option"
where
  "parse_arg rd command arg_it getargs_it argument = do {
     c \<leftarrow> rd (command + arg_it);
     if c \<noteq> 0 then
       if getargs_it > KB_BUF_SIZE_MAX - 1 then Some (Inl (-1))
       else do {
         argument \<leftarrow> sto getargs_it c argument;
         parse_arg rd command (arg_it + 1) (getargs_it + 1) argument
       }
     else Some (Inr (getargs_it, argument))
   }"

definition parse_command ::
  "(u32 \<Rightarrow> u8 option) \<Rightarrow> u32 \<Rightarrow> (i32 + u8 list \<times> u32 \<times> u8 list) option" where
  "parse_command rd command = do {
     r \<leftarrow> parse_name rd command 0 (replicate 32 0);
     case r of Inl e \<Rightarrow> Some (Inl e)
     | Inr (arg_it, filename) \<Rightarrow> do {
         r \<leftarrow> parse_arg rd command (arg_it + 1) 0 (replicate 128 0);
         case r of Inl e \<Rightarrow> Some (Inl e)
         | Inr (getargs_it, argument) \<Rightarrow> Some (Inr (filename, getargs_it, argument))
       }
   }"

definition magic_nums :: "u8 list" where
  "magic_nums = [0x7F, 0x45, 0x4C, 0x46]"

primrec check_magic :: "u8 list \<Rightarrow> nat list \<Rightarrow> bool option" where
  "check_magic file_buf [] = Some True"
| "check_magic file_buf (i # is) = do {
     b \<leftarrow> arr_get file_buf i;
     m \<leftarrow> arr_get magic_nums i;
     if b \<noteq> m then Some False else check_magic file_buf is
   }"

definition fetch_entry_point :: "u8 list \<Rightarrow> u32 option" where
  "fetch_entry_point file_buf = for_each (\<lambda>i entry_point. do {
     b \<leftarrow> arr_get file_buf (i + 24);
     Some (entry_point + push_bit (8 * i) (ucast b))
   }) [0..<4] 0"

text \<open>The paging part: the parent's mapping of the program page is what is returned.\<close>

definition map_program :: "u32 \<Rightarrow> 'a mach_scheme \<Rightarrow> u32 \<times> 'a mach_scheme" where
  "map_program process_number s =
     (let phys_addr = EIGHT_MB + process_number * MB_4;
          virt_addr_128mb_idx = unat (OTE_MB div MB_4);
          par_phys_addr = page_directory s virt_addr_128mb_idx
      in (par_phys_addr, s\<lparr>page_directory := (page_directory s)(virt_addr_128mb_idx :=
           phys_addr OR RW OR SET_4MB OR USER OR PRESENT)\<rparr>))"

definition closed_desc :: file_desc where
  "closed_desc = \<lparr>fot_ptr = Null_fot, inode = 0, file_position = 0, flags = 0\<rparr>"

definition create_pcb ::
  "u32 \<Rightarrow> i32 \<Rightarrow> u32 \<Rightarrow> u8 list \<Rightarrow> u32 \<Rightarrow> 'a proc_state_scheme \<Rightarrow> 'a proc_state_scheme option" where
  "create_pcb process_number parent par_phys_addr argument getargs_it s = do {
     let p = (stack_pcb s)\<lparr>file_descs := replicate 8 closed_desc\<rparr>;
     let (pesp, pebp) = (esp s, ebp s);
     let s = sti (cli s);
     let ds = (file_descs p)[0 := (file_descs p ! 0)\<lparr>fot_ptr := Stdin_fot, flags := 1\<rparr>];
     let ds = ds[1 := (ds ! 1)\<lparr>fot_ptr := Stdout_fot, flags := 1\<rparr>];
     let p = p\<lparr>file_descs := ds, parent_esp := pesp, parent_ebp := pebp\<rparr>;
     a \<leftarrow> memcpy (\<lambda>_. ldo argument) sto 0 0 KB_BUF_SIZE_MAX (arg p);
     let p = p\<lparr>arg := a, arg_size := getargs_it, parent_phys_addr := par_phys_addr,
       term_number := get_cur_term s, parent_pid := parent\<rparr>;
     Some (s\<lparr>pcb_at := (pcb_at s)(get_pcb_loc process_number := p)\<rparr>)
   }"

definition kernel_stack_of :: "u32 \<Rightarrow> u32" where
  "kernel_stack_of process_number = KERNEL_LOC + MB_4 - EIGHT_KB * process_number - 1"

text \<open>The last part: task state segment and the frame for \<open>iret\<close>.\<close>

definition enter_program :: "u32 \<Rightarrow> u32 \<Rightarrow> 'a proc_state_scheme \<Rightarrow> transfer \<times> 'a proc_state_scheme" where
  "enter_program process_number entry_point s =
     (let s = s\<lparr>tss_esp0 := kernel_stack_of process_number, tss_ss0 := KERNEL_DS\<rparr>
      in (Enter_user \<lparr>user_eip = entry_point, user_cs = USER_CS, user_if = True,
            user_esp = OTE_MB + MB_4 - 5, user_ss = USER_DS\<rparr>, cli s))"

definition sys_execute ::
  "(u32 \<Rightarrow> u8 option) \<Rightarrow> u32 \<Rightarrow> 'a proc_state_scheme \<Rightarrow> (transfer \<times> 'a proc_state_scheme) option" where
  "sys_execute rd command s = do {
     let parent = get_process_number s;
     process_number \<leftarrow> find_free (proc_arr s) [0..<MAX_PROCESSES];
     if process_number = -1 then Some (Ret (-1), s)
     else do {
       s \<leftarrow> set_proc process_number RUNNING s;
       let refuse = (do { s \<leftarrow> set_proc process_number FREE s; Some (Ret (-1), s) });
       r \<leftarrow> parse_command rd command;
       case r of Inl e \<Rightarrow> refuse
       | Inr (filename, getargs_it, argument) \<Rightarrow> do {
           (v, dentry) \<leftarrow> read_dentry_by_name (ldo filename) 0 (stack_junk s) s;
           if v \<noteq> 0 then refuse
           else do {
             buf_size \<leftarrow> get_file_length_by_name (ldo filename) 0 s;
             ino \<leftarrow> inode_num dentry;
             (_, file_buf) \<leftarrow> read_data (\<lambda>_. ld8 s) sto (boot_block s) ino 0 0 40 (take 40 (stack_junk s));
             ok \<leftarrow> check_magic file_buf [0..<3];
             if \<not> ok then refuse
             else do {
               entry_point \<leftarrow> fetch_entry_point file_buf;
               let (par_phys_addr, s) = map_program process_number s;
               (_, s) \<leftarrow> read_data ld8 st8 (boot_block s) ino 0 (OTE_MB + USER_IDX) buf_size s;
               s \<leftarrow> create_pcb process_number parent par_phys_addr argument getargs_it s;
               Some (enter_program process_number entry_point s)
             }
           }
         }
     }
   }"

text \<open>After \<open>cli\<close>, \<open>leave\<close> and \<open>ret\<close> pop the parent's frame.\<close>

definition sys_halt :: "u8 \<Rightarrow> 'a proc_state_scheme \<Rightarrow> (transfer \<times> 'a proc_state_scheme) option" where
  "sys_halt st s = do {
     let process_number = get_process_number s;
     if process_number = 0 then Some (Ret 0, s)
     else do {
       let loc = get_pcb_loc process_number;
       s \<leftarrow> for_each (\<lambda>i s. do { (_, s) \<leftarrow> sys_close (of_nat i) s; Some s }) [2..<8] s;
       let p = pcb_at s loc;
       let s = s\<lparr>tss_esp0 := kernel_stack_of (parent_pid p)\<rparr>;
       let s = s\<lparr>page_directory := (page_directory s)(unat (OTE_MB div MB_4) := parent_phys_addr p)\<rparr>;
       s \<leftarrow> set_proc process_number FREE s;
       let s = cli s;
       let s = s\<lparr>esp := parent_esp p, ebp := parent_ebp p\<rparr>;
       old_ebp \<leftarrow> ld32 (ld8 s) (ebp s);
       eip \<leftarrow> ld32 (ld8 s) (ebp s + 4);
       Some (Resume eip (ucast st), s\<lparr>esp := ebp s + 8, ebp := old_ebp\<rparr>)
     }
   }"

text \<open>
  \<open>syscall_linker\<close>: the number in EAX, compared as a signed value, selects the call; the other
  registers are its arguments.
\<close>

definition syscall ::
  "('e \<Rightarrow> 'a proc_state_scheme \<Rightarrow> 'a proc_state_scheme option) \<Rightarrow> 'e list \<Rightarrow>
   u32 \<Rightarrow> u32 \<Rightarrow> u32 \<Rightarrow> u32 \<Rightarrow> 'a proc_state_scheme \<Rightarrow> (transfer \<times> 'e list \<times> 'a proc_state_scheme) option" where
  "syscall irq irqs eax ebx ecx edx s =
     (let ret = map_option (\<lambda>(v, s). (Ret v, irqs, s)); leave' = map_option (\<lambda>(t, s). (t, irqs, s))
      in if eax <s 1 \<or> 10 <s eax then Some (Ret (-1), irqs, s)
      else if eax = 1 then leave' (sys_halt (ucast ebx) s)
      else if eax = 2 then leave' (sys_execute (ld8 s) ebx s)
      else if eax = 3 then map_option (\<lambda>(v, irqs, s). (Ret v, irqs, s)) (sys_read irq irqs ebx ecx edx s)
      else if eax = 4 then ret (sys_write ebx ecx edx s)
      else if eax = 5 then ret (sys_open ebx s)
      else if eax = 6 then ret (sys_close ebx s)
      else if eax = 7 then ret (sys_getargs ebx ecx s)
      else if eax = 8 then ret (sys_vidmap ebx s)
      else if eax = 9 then Some (Ret sys_set_handler, irqs, s)
      else Some (Ret sys_sigreturn, irqs, s))"

section \<open>Stacks and control blocks\<close>

lemma kernel_stack_of_nat:
  assumes "n \<le> 6"
  shows "kernel_stack_of (of_nat n) = of_nat (0x7FFFFF - 0x2000 * n)"
proof -
  have "(of_nat (0x7FFFFF - 0x2000 * n) :: u32) = of_nat 0x7FFFFF - of_nat (0x2000 * n)"
    using assms by (intro of_nat_diff) simp
  then show ?thesis by (simp add: kernel_stack_of_def algebra_simps)
qed

lemma get_pcb_loc_nat:
  assumes "n < 6"
  shows "get_pcb_loc (of_nat n) = of_nat (0x800000 - 0x2000 * (n + 1))"
proof -
  have "(of_nat (0x800000 - 0x2000 * (n + 1)) :: u32) = of_nat 0x800000 - of_nat (0x2000 * (n + 1))"
    using assms by (intro of_nat_diff) simp
  then show ?thesis by (simp add: get_pcb_loc_def algebra_simps)
qed

lemma get_pcb_loc_inj:
  assumes "m < 6" "n < 6" "get_pcb_loc (of_nat m) = get_pcb_loc (of_nat n)"
  shows "m = n"
proof -
  have "0x800000 - 0x2000 * (m + 1) = 0x800000 - 0x2000 * (n + 1)"
    using assms of_nat_eq_u32_iff [of "0x800000 - 0x2000 * (m + 1)" "0x800000 - 0x2000 * (n + 1)"]
    by (simp add: get_pcb_loc_nat)
  with assms show ?thesis by simp
qed

lemma process_number_on_stack:
  assumes n: "n < 6" and k: "k < 8190" and e: "esp s = kernel_stack_of (of_nat n) - of_nat k"
  shows "get_process_number s = of_nat n"
proof -
  let ?d = "0x2000 * n + (k + 2)"
  have d: "(EIGHT_MB - esp s) + 1 = of_nat ?d"
    by (simp add: e kernel_stack_of_def algebra_simps)
  have u: "unat (of_nat ?d :: u32) = ?d" using n k by (intro unat_of_nat_u32) simp
  have "unat (of_nat ?d div EIGHT_KB) = ?d div 0x2000"
    by (simp only: unat_div u) simp
  also have "\<dots> = n" using k by (intro div_nat_eqI) simp_all
  finally have "of_nat (unat (of_nat ?d div EIGHT_KB)) = (of_nat n :: u32)" by (simp only:)
  then show ?thesis by (simp add: get_process_number_def d del: of_nat_add of_nat_mult)
qed

text \<open>The addresses from a process' control block up to the top of its stack.\<close>

definition kernel_area :: "nat \<Rightarrow> u32 set" where
  "kernel_area n = {a. unat (a - get_pcb_loc (of_nat n)) < 0x2000}"

lemma kernel_area_nat:
  assumes "n < 6"
  shows "a \<in> kernel_area n \<longleftrightarrow> 0x800000 - 0x2000 * (n + 1) \<le> unat a \<and> unat a < 0x800000 - 0x2000 * n"
proof -
  let ?l = "0x800000 - 0x2000 * (n + 1)"
  have u: "unat (get_pcb_loc (of_nat n)) = ?l"
    unfolding get_pcb_loc_nat [OF assms] by (rule unat_of_nat_u32) simp
  have l: "?l + 0x2000 = 0x800000 - 0x2000 * n" using assms by simp
  show ?thesis
  proof (cases "?l \<le> unat a")
    case True
    then have "unat (a - get_pcb_loc (of_nat n)) = unat a - ?l"
      using u unat_sub [of "get_pcb_loc (of_nat n)" a] by (simp add: word_le_nat_alt)
    with True l show ?thesis by (auto simp: kernel_area_def)
  next
    case False
    have "\<not> unat (a - get_pcb_loc (of_nat n)) < 0x2000"
    proof
      assume c: "unat (a - get_pcb_loc (of_nat n)) < 0x2000"
      have "a = of_nat (unat (a - get_pcb_loc (of_nat n)) + ?l)"
        by (simp add: get_pcb_loc_nat [OF assms] del: of_nat_diff)
      then have "unat a = unat (of_nat (unat (a - get_pcb_loc (of_nat n)) + ?l) :: u32)" by (simp only:)
      also have "\<dots> = unat (a - get_pcb_loc (of_nat n)) + ?l"
        using c by (intro unat_of_nat_u32) simp
      finally show False using False by simp
    qed
    with False show ?thesis by (simp add: kernel_area_def)
  qed
qed

lemma kernel_area_region:
  assumes "n < 6" "a \<in> kernel_area n"
  shows "region a = 1"
proof -
  have "0x2000 * (n + 1) \<le> 0x2000 * 6" using assms(1) by simp
  then have "unat a div 2 ^ 22 = 1"
    using assms by (intro div_nat_eqI) (auto simp: kernel_area_nat)
  then have "region (of_nat (unat a)) = 1"
    using small_address(1) [of "unat a"] unat_u32_less [of a] by simp
  then show ?thesis by simp
qed

lemma kernel_stack_in_area:
  assumes "n < 6" "k < 8190"
  shows "kernel_stack_of (of_nat n) - of_nat k \<in> kernel_area n"
proof -
  have "kernel_stack_of (of_nat n) - of_nat k - get_pcb_loc (of_nat n) = of_nat 8191 - of_nat k"
    by (simp add: kernel_stack_of_def get_pcb_loc_def algebra_simps)
  also have "\<dots> = of_nat (8191 - k)" using assms by (intro of_nat_diff [symmetric]) simp
  finally have "unat (kernel_stack_of (of_nat n) - of_nat k - get_pcb_loc (of_nat n)) = 8191 - k"
    using unat_of_nat_u32 [of "8191 - k"] by simp
  then show ?thesis by (simp add: kernel_area_def)
qed

section \<open>Descriptor tables\<close>

lemma get_desc_Some:
  "i < 8 \<Longrightarrow> length (file_descs (pcb_at s loc)) = 8 \<Longrightarrow>
     get_desc loc (of_nat i) s = Some (file_descs (pcb_at s loc) ! i)"
  by (simp add: get_desc_def unat_of_nat_u32)

lemma set_desc_Some:
  "i < 8 \<Longrightarrow> length (file_descs (pcb_at s loc)) = 8 \<Longrightarrow>
     set_desc loc (of_nat i) d s =
       Some (s\<lparr>pcb_at := (pcb_at s)(loc := (pcb_at s loc)\<lparr>file_descs := (file_descs (pcb_at s loc))[i := d]\<rparr>)\<rparr>)"
  by (simp add: set_desc_def unat_of_nat_u32)

lemma find_desc_find:
  "length ds = 8 \<Longrightarrow> set is \<subseteq> {..<8} \<Longrightarrow> find_desc ds is =
     Some (case find (\<lambda>i. flags (ds ! i) = 0) is of Some i \<Rightarrow> i | None \<Rightarrow> 8)"
  by (induction "is") auto

lemma desc_all:
  "d\<lparr>flags := l, file_position := p, inode := n, fot_ptr := f\<rparr> =
     \<lparr>fot_ptr = f, inode = n, file_position = p, flags = l\<rparr>"
  by (cases d) simp

text \<open>The table \<open>sys_open\<close> leaves, by the type of the directory entry.\<close>

definition opened :: "u8 list \<Rightarrow> file_desc" where
  "opened e = (if file_type e = Some 0 then \<lparr>fot_ptr = Rtc_fot, inode = -1, file_position = 0, flags = 1\<rparr>
     else if file_type e = Some 1 then \<lparr>fot_ptr = Dir_fot, inode = -1, file_position = 0, flags = 1\<rparr>
     else \<lparr>fot_ptr = File_fot, inode = the (inode_num e), file_position = 0, flags = 1\<rparr>)"

lemma rtc_open_sel:
  "fst (rtc_open s) = 0" "kbd_state.more (snd (rtc_open s)) = kbd_state.more s"
  "page_directory (snd (rtc_open s)) = page_directory s" "phys (snd (rtc_open s)) = phys s"
  by (simp_all add: rtc_open_def port_defs Let_def)

lemma rtc_open_proc:
  fixes s :: "'a proc_state_scheme"
  shows "pcb_at (snd (rtc_open s)) = pcb_at s" "proc_arr (snd (rtc_open s)) = proc_arr s"
    "esp (snd (rtc_open s)) = esp s" "rtc_opened (snd (rtc_open s)) = 1"
  by (simp_all add: rtc_open_def port_defs Let_def)

lemma sys_open_spec:
  fixes s :: "'a proc_state_scheme"
  defines "loc \<equiv> get_pcb_loc (get_process_number s)"
  assumes dir: "directory (ld8 s) (boot_block s) es" and junk: "length (stack_junk s) = 64"
    and name: "cstr_at (ld8 s) filename nm" and len: "length (file_descs (pcb_at s loc)) = 8"
  shows "case find (\<lambda>e. ename e = nm) es of None \<Rightarrow> sys_open filename s = Some (-1, s)
    | Some e \<Rightarrow> (case find (\<lambda>i. flags (file_descs (pcb_at s loc) ! i) = 0) [2..<8] of
        None \<Rightarrow> sys_open filename s = Some (-1, s)
      | Some i \<Rightarrow> \<exists>s'. sys_open filename s = Some (of_nat i, s') \<and>
          pcb_at s' = (pcb_at s)(loc := (pcb_at s loc)\<lparr>
            file_descs := (file_descs (pcb_at s loc))[i := opened e]\<rparr>) \<and>
          rtc_opened s' = (if file_type e = Some 0 then 1 else rtc_opened s))"
proof (cases "find (\<lambda>e. ename e = nm) es")
  case None
  then show ?thesis
    using read_dentry_by_name_find [OF dir junk name] by (simp add: sys_open_def Let_def)
next
  case (Some e)
  obtain d' where d': "read_dentry_by_name (ld8 s) filename (stack_junk s) s = Some (0, d')" "same_dentry d' e"
    using read_dentry_by_name_find [OF dir junk name] Some by auto
  have "e \<in> set es" using Some by (auto simp: find_Some_iff)
  then have e: "dirent_ok e" using dir by (simp add: directory_def)
  then obtain t ino where ti: "file_type d' = Some t" "t \<in> {0, 1, 2}" "inode_num d' = Some ino"
    "file_type e = Some t" "inode_num e = Some ino"
    using d'(2) by (auto simp: dirent_ok_def same_dentry_def inode_num_bytes)
  let ?ds = "file_descs (pcb_at s loc)"
  have fd: "find_desc ?ds [2..<8] = Some (case find (\<lambda>i. flags (?ds ! i) = 0) [2..<8] of Some i \<Rightarrow> i | None \<Rightarrow> 8)"
    using len by (intro find_desc_find) auto
  show ?thesis
  proof (cases "find (\<lambda>i. flags (?ds ! i) = 0) [2..<8]")
    case None
    then show ?thesis using Some d'(1) fd by (simp add: sys_open_def Let_def flip: loc_def)
  next
    case (Some i)
    then have i: "i < 8" "i \<noteq> 8" by (auto simp: find_Some_iff)
    let ?s1 = "s\<lparr>pcb_at := (pcb_at s)(loc := (pcb_at s loc)\<lparr>file_descs := ?ds[i := (?ds ! i)\<lparr>flags := 1, file_position := 0\<rparr>]\<rparr>)\<rparr>"
    have as: "\<exists>s'. open_as loc (of_nat i) n f s2 = Some s' \<and> pcb_at s' = (pcb_at s)(loc := (pcb_at s loc)\<lparr>
            file_descs := ?ds[i := \<lparr>fot_ptr = f, inode = n, file_position = 0, flags = 1\<rparr>]\<rparr>) \<and>
            rtc_opened s' = rtc_opened s2"
      if "pcb_at s2 = pcb_at ?s1" for n f and s2 :: "'a proc_state_scheme"
      using that i len by (simp add: open_as_def get_desc_Some set_desc_Some desc_all)
    have rtc: "pcb_at (snd (rtc_open ?s1)) = pcb_at ?s1" by (rule rtc_open_proc)
    have on: "rtc_opened (snd (rtc_open ?s1)) = 1" by (rule rtc_open_proc)
    have "\<exists>s'. sys_open filename s = Some (of_nat i, s') \<and>
          pcb_at s' = (pcb_at s)(loc := (pcb_at s loc)\<lparr>file_descs := ?ds[i := opened e]\<rparr>) \<and>
          rtc_opened s' = (if file_type e = Some 0 then 1 else rtc_opened s)"
    proof -
      have g: "find_desc ?ds [2..<8] = Some i" using fd Some by simp
      have o: "sys_open filename s = do {
           if t = 0 then do {
             s \<leftarrow> open_as loc (of_nat i) (-1) Rtc_fot (snd (rtc_open ?s1)); Some (of_nat i, s) }
           else if t = 1 then do { s \<leftarrow> open_as loc (of_nat i) (-1) Dir_fot ?s1; Some (of_nat i, s) }
           else do { s \<leftarrow> open_as loc (of_nat i) ino File_fot ?s1; Some (of_nat i, s) }
         }"
        using d'(1) g i len ti rtc_open_sel(1) [of ?s1]
        by (auto simp: sys_open_def get_desc_Some set_desc_Some dir_open_def fopen_def Let_def
            split: prod.split simp flip: loc_def)
      show ?thesis
        unfolding o using ti(2,4,5) as [OF rtc, of "-1" Rtc_fot] as [OF refl, of "-1" Dir_fot]
          as [OF refl, of ino File_fot] on
        by (auto simp: opened_def)
    qed
    then show ?thesis using Some \<open>find (\<lambda>e. ename e = nm) es = Some e\<close> by simp
  qed
qed

end
