(* ===== verification/Syscall_Safety.thy ===== *)
theory Syscall_Safety
  imports Process
begin

text \<open>
  What a system call that returns to its caller can change. \<open>serving\<close> is the frame: page tables,
  process table, task state segment and the control blocks of other processes stay, and a
  well-formed descriptor table stays well-formed. The interrupts that arrive while a read waits
  are those of the keyboard and the clock, by their real handlers.
\<close>

section \<open>Interrupts while waiting\<close>

datatype irq_line = Kbd_irq | Rtc_irq

fun service :: "irq_line \<Rightarrow> 'a kbd_state_scheme \<Rightarrow> 'a kbd_state_scheme option" where
  "service Kbd_irq s = keyboard_handler s"
| "service Rtc_irq s = Some (rtc_handler s)"

lemma service_kept: "drv.obeys (service e)"
  by (cases e) (auto intro!: drv.obeysI simp: rtc_kept(2) dest: keyboard_handler_kept)

section \<open>The frame\<close>

text \<open>
  A well-formed table: the terminal on 0 and 1, and 2 to 7 free or open on a file, the clock or
  the directory.
\<close>

definition desc_ok :: "file_desc \<Rightarrow> bool" where
  "desc_ok d \<longleftrightarrow> flags d = 0 \<or> flags d = 1 \<and> fot_ptr d \<in> {File_fot, Rtc_fot, Dir_fot}"

definition table_ok :: "file_desc list \<Rightarrow> bool" where
  "table_ok ds \<longleftrightarrow> length ds = 8 \<and>
     fot_ptr (ds ! 0) = Stdin_fot \<and> flags (ds ! 0) = 1 \<and>
     fot_ptr (ds ! 1) = Stdout_fot \<and> flags (ds ! 1) = 1 \<and>
     (\<forall>i \<in> {2..<8}. desc_ok (ds ! i))"

abbreviation own_loc :: "'a proc_state_scheme \<Rightarrow> u32" where
  "own_loc s \<equiv> get_pcb_loc (get_process_number s)"

definition own_table :: "'a proc_state_scheme \<Rightarrow> file_desc list" where
  "own_table s = file_descs (pcb_at s (own_loc s))"

definition undisturbed :: "'a proc_state_scheme \<Rightarrow> 'a proc_state_scheme \<Rightarrow> bool" where
  "undisturbed s s' \<longleftrightarrow>
     paging s' = paging s \<and> page_directory s' = page_directory s \<and> page_table s' = page_table s \<and>
     (\<forall>i > 0. page_table_vid s' i = page_table_vid s i) \<and> idt s' = idt s \<and>
     proc_arr s' = proc_arr s \<and> esp s' = esp s \<and> ebp s' = ebp s \<and>
     tss_esp0 s' = tss_esp0 s \<and> tss_ss0 s' = tss_ss0 s \<and>
     (\<forall>l. l \<noteq> own_loc s \<longrightarrow> pcb_at s' l = pcb_at s l) \<and>
     (pcb_at s' (own_loc s))\<lparr>file_descs := []\<rparr> = (pcb_at s (own_loc s))\<lparr>file_descs := []\<rparr>"

definition serving :: "'a proc_state_scheme \<Rightarrow> 'a proc_state_scheme \<Rightarrow> bool" where
  "serving s s' \<longleftrightarrow> undisturbed s s' \<and> (table_ok (own_table s) \<longrightarrow> table_ok (own_table s'))"

lemma own_loc_kept: "esp s' = esp s \<Longrightarrow> own_loc s' = own_loc s"
  by (simp add: get_process_number_def)

lemma undisturbed_own_loc: "undisturbed s s' \<Longrightarrow> own_loc s' = own_loc s"
  by (intro own_loc_kept) (simp add: undisturbed_def)

interpretation calm: effect undisturbed
proof
  fix s s1 s2 :: "'a proc_state_scheme"
  assume "undisturbed s s1" "undisturbed s1 s2"
  then show "undisturbed s s2" using undisturbed_own_loc [of s s1] by (simp add: undisturbed_def)
qed (simp add: undisturbed_def)

interpretation serve: effect serving
  by unfold_locales (auto simp: serving_def calm.eff_refl intro: calm.eff_trans)

lemma proc_more: "kbd_state.more s = \<lparr>proc_arr = proc_arr s, pcb_at = pcb_at s, stack_pcb = stack_pcb s,
    esp = esp s, ebp = ebp s, tss_esp0 = tss_esp0 s, tss_ss0 = tss_ss0 s, \<dots> = proc_state.more s\<rparr>"
  by (cases s) simp

lemma proc_fields:
  fixes s s' :: "'a proc_state_scheme"
  assumes "kbd_state.more s' = kbd_state.more s"
  shows "proc_arr s' = proc_arr s" "pcb_at s' = pcb_at s" "esp s' = esp s" "ebp s' = ebp s"
    "tss_esp0 s' = tss_esp0 s" "tss_ss0 s' = tss_ss0 s"
  using assms unfolding proc_more by simp_all

lemma driver_serving: "driver_kept s s' \<Longrightarrow> serving s s'"
  for s s' :: "'a proc_state_scheme"
proof -
  assume k: "driver_kept s s'"
  then have "kbd_state.more s' = kbd_state.more s" by (simp add: driver_kept_def)
  note f = proc_fields [OF this] own_loc_kept [OF proc_fields(3) [OF this]]
  show "serving s s'" using k by (simp add: serving_def undisturbed_def driver_kept_def own_table_def f)
qed

lemma drawing_serving: "in_drawing s s' \<Longrightarrow> serving s s'"
  for s s' :: "'a proc_state_scheme"
  by (rule driver_serving [OF drawing_kept])

lemma memory_serving: "in_memory s s' \<Longrightarrow> serving s s'"
  for s s' :: "'a proc_state_scheme"
  by (rule driver_serving [OF memory_kept])

text \<open>A descriptor of the caller is replaced.\<close>

lemma set_desc_own:
  assumes "set_desc (own_loc s) fd d s = Some s'"
  shows "undisturbed s s'" "own_table s' = (own_table s)[unat fd := d]" "own_loc s' = own_loc s"
    "unat fd < length (own_table s)"
proof -
  have s': "s' = s\<lparr>pcb_at := (pcb_at s)(own_loc s := (pcb_at s (own_loc s))\<lparr>file_descs := (own_table s)[unat fd := d]\<rparr>)\<rparr>"
    and "unat fd < length (own_table s)"
    using assms by (auto simp: set_desc_def own_table_def Option.bind_eq_Some_conv arr_set_eq_Some)
  moreover show "own_loc s' = own_loc s" by (rule own_loc_kept) (simp add: s')
  ultimately show "undisturbed s s'" "own_table s' = (own_table s)[unat fd := d]"
    "unat fd < length (own_table s)"
    by (simp_all add: undisturbed_def own_table_def)
qed

lemma table_ok_update: "table_ok ds \<Longrightarrow> 2 \<le> i \<Longrightarrow> desc_ok d \<Longrightarrow> table_ok (ds[i := d])"
  unfolding table_ok_def by (cases "i < length ds") (auto simp: nth_list_update)

lemma set_desc_serving:
  assumes "set_desc (own_loc s) fd d s = Some s'" "table_ok (own_table s) \<Longrightarrow> 2 \<le> unat fd \<and> desc_ok d"
  shows "serving s s'"
  using set_desc_own [OF assms(1)] assms(2) by (auto simp: serving_def intro: table_ok_update)

lemma get_desc_own: "get_desc (own_loc s) fd s = Some d \<longleftrightarrow> unat fd < length (own_table s) \<and> d = own_table s ! unat fd"
  by (simp add: get_desc_def own_table_def arr_get_eq_Some)

text \<open>An open descriptor of a well-formed table, by its number.\<close>

lemma table_ok_desc:
  assumes "table_ok ds" "i < 8"
  shows "i = 0 \<and> fot_ptr (ds ! i) = Stdin_fot \<or> i = 1 \<and> fot_ptr (ds ! i) = Stdout_fot \<or> 2 \<le> i \<and> desc_ok (ds ! i)"
proof -
  consider "i = 0" | "i = 1" | "i \<in> {2..<8}" using assms(2) by fastforce
  then show ?thesis using assms(1) by cases (simp_all add: table_ok_def)
qed

lemma driver_own:
  assumes "driver_kept s s'"
  shows "own_loc s' = own_loc s" "own_table s' = own_table s"
proof -
  have "pcb_at s' = pcb_at s" "esp s' = esp s"
    using proc_fields [of s' s] assms by (simp_all add: driver_kept_def)
  then show "own_loc s' = own_loc s" "own_table s' = own_table s"
    using own_loc_kept [of s' s] by (simp_all add: own_table_def)
qed

section \<open>The drivers behind the jump tables\<close>

lemma service_serving: "serve.obeys (service e)"
  by (rule serve.obeysI) (blast intro: driver_serving drv.obeysD [OF service_kept])

lemma set_flag_serving:
  fixes s :: "'a proc_state_scheme"
  shows "serving s (s\<lparr>read_wait := b\<rparr>)" "serving s (s\<lparr>buf_sent := b\<rparr>)" "serving s (s\<lparr>dir_location := w\<rparr>)"
    "serving s (s\<lparr>rtc_opened := b\<rparr>)" "serving s (s\<lparr>x_start_tw := w, y_start_tw := w', override_start := w''\<rparr>)"
    "serving s (s\<lparr>page_table_vid := (page_table_vid s)(0 := w)\<rparr>)"
  by (intro driver_serving driver_assigns drv.eff_refl)+

lemma terminal_read_serving:
  fixes irq :: "'e \<Rightarrow> 'a proc_state_scheme \<Rightarrow> 'a proc_state_scheme option"
  assumes irq: "\<And>e. serve.obeys (irq e)" and r: "terminal_read irq irqs buf n s = Some (v, irqs', s')"
  shows "serving s s'"
proof -
  have st: "serve.obeys (for_each (\<lambda>i s :: 'a proc_state_scheme. do {
       c \<leftarrow> arr_get (terminal_buf s) i; st8 (buf + of_nat i) c s }) is)" for "is"
    by (intro serve.obeys_for_each serve.obeysI) (auto simp: Option.bind_eq_Some_conv
        intro!: memory_serving intro: mem_effect.obeysD [OF st8_in_memory])
  obtain s1 s2 where "spin no_line irq irqs s = Some (irqs', s1)"
    and "for_each (\<lambda>i s. do { c \<leftarrow> arr_get (terminal_buf s) i; st8 (buf + of_nat i) c s })
       [0..<nat (sint (if 128 <s n then 128 else n))] s1 = Some s2"
    and "s' = s2\<lparr>buf_sent := 0\<rparr>"
    using r by (auto simp: terminal_read_def Let_def Option.bind_eq_Some_conv)
  note steps = this
  have "serving s s1" using steps(1) by (rule serve.obeys_spin [where irq = irq, OF irq])
  moreover have "serving s1 s2" using st steps(2) by (rule serve.obeysD)
  moreover have "serving s2 s'" unfolding steps(3) by (rule set_flag_serving)
  ultimately show ?thesis using serve.eff_trans by blast
qed

lemma rtc_read_serving:
  fixes irq :: "'e \<Rightarrow> 'a proc_state_scheme \<Rightarrow> 'a proc_state_scheme option"
  assumes irq: "\<And>e. serve.obeys (irq e)" and r: "rtc_read irq irqs s = Some (v, irqs', s')"
  shows "serving s s'"
proof -
  have "spin (\<lambda>s. read_wait s \<noteq> 0) irq irqs (s\<lparr>read_wait := 1\<rparr>) = Some (irqs', s')"
    using r by (auto simp: rtc_read_def Option.bind_eq_Some_conv)
  then have "serving (s\<lparr>read_wait := 1\<rparr>) s'" by (rule serve.obeys_spin [where irq = irq, OF irq])
  then show ?thesis by (rule serve.eff_trans [OF set_flag_serving(1)])
qed

lemma terminal_write_serving: "terminal_write buf n s = Some (v, s') \<Longrightarrow> serving s s'"
  for s :: "'a proc_state_scheme"
proof -
  have p: "serve.obeys (for_each (\<lambda>i s :: 'a proc_state_scheme. do {
       c \<leftarrow> ld8 s (buf + of_nat i); putc c s }) is)" for "is"
    by (intro serve.obeys_for_each serve.obeysI) (auto simp: Option.bind_eq_Some_conv
        intro!: drawing_serving intro: draw.obeysD [OF putc_draws])
  assume "terminal_write buf n s = Some (v, s')"
  then obtain s1 where s1: "for_each (\<lambda>i s. do { c \<leftarrow> ld8 s (buf + of_nat i); putc c s }) [0..<nat (sint n)] s = Some s1"
    and s': "s' = s1\<lparr>x_start_tw := screen_x s1, y_start_tw := screen_y s1, override_start := 1\<rparr>"
    by (auto simp: terminal_write_def Option.bind_eq_Some_conv)
  have "serving s s1" using p s1 by (rule serve.obeysD)
  then show "serving s s'" unfolding s' by (rule serve.eff_trans [OF _ set_flag_serving(5)])
qed

lemma dir_read_serving: "dir_read buf s = Some (v, s') \<Longrightarrow> serving s s'"
  for s :: "'a proc_state_scheme"
proof -
  assume "dir_read buf s = Some (v, s')"
  then consider s1 d n s2 where "write_bytes st8 buf (replicate 33 0) s = Some s1"
      "strncpy (\<lambda>_. ldo d) st8 buf 0 n s1 = Some s2" "s' = s2\<lparr>dir_location := dir_location s2 + 1\<rparr>"
    | "s' = s\<lparr>dir_location := 0\<rparr>"
    by (auto simp: dir_read_def Let_def Option.bind_eq_Some_conv split: if_splits)
  then show ?thesis
  proof cases
    case 1
    then have "serving s s1" "serving s1 s2" "serving s2 s'"
      using mem_effect.obeysD [OF write_bytes_in_memory] strncpy_in_memory memory_serving
        set_flag_serving(3) by blast+
    then show ?thesis using serve.eff_trans by blast
  next
    case 2
    then show ?thesis using set_flag_serving(3) by simp
  qed
qed

lemma fread_desc: "fread d buf n s = Some (v, d', s') \<Longrightarrow> fot_ptr d' = fot_ptr d \<and> flags d' = flags d"
  by (auto simp: fread_def Option.bind_eq_Some_conv)

section \<open>The calls\<close>

lemma sys_read_serving:
  fixes irq :: "'e \<Rightarrow> 'a proc_state_scheme \<Rightarrow> 'a proc_state_scheme option"
  assumes irq: "\<And>e. serve.obeys (irq e)" and r: "sys_read irq irqs fd buf n s = Some (v, irqs', s')"
  shows "serving s s'"
proof -
  consider "s' = s" | d where "get_desc (own_loc s) fd s = Some d" "flags d AND 1 \<noteq> 0" "\<not> fd <s 0" "\<not> 8 \<le>s fd"
      "fot_read irq irqs (fot_ptr d) (own_loc s) fd buf n s = Some (v, irqs', s')"
    using r by (auto simp: sys_read_def Let_def Option.bind_eq_Some_conv split: if_splits)
  then show ?thesis
  proof cases
    case 1
    then show ?thesis by (simp add: serve.eff_refl)
  next
    case 2
    show ?thesis
    proof (cases "fot_ptr d")
      case Stdin_fot
      then show ?thesis using 2 terminal_read_serving [where irq = irq, OF irq] by auto
    next
      case File_fot
      then obtain d' s1 where f: "fread d buf n s = Some (v, d', s1)" "set_desc (own_loc s) fd d' s1 = Some s'"
        using 2 by (auto simp: Option.bind_eq_Some_conv)
      note m = fread_in_memory [OF f(1)]
      note own = driver_own [OF memory_kept [OF m]]
      have "2 \<le> unat fd \<and> desc_ok d'" if t: "table_ok (own_table s1)"
      proof -
        have "unat fd < 8" "d = own_table s ! unat fd"
          using 2(1) t by (simp_all add: get_desc_own own table_ok_def)
        then show ?thesis using table_ok_desc [of "own_table s" "unat fd"] t File_fot fread_desc [OF f(1)]
          by (auto simp: own desc_ok_def)
      qed
      then have "serving s1 s'" using f(2) set_desc_serving [of s1] by (simp only: own)
      then show ?thesis using serve.eff_trans memory_serving [OF m] by blast
    next
      case Rtc_fot
      then show ?thesis using 2 rtc_read_serving [where irq = irq, OF irq] by auto
    next
      case Dir_fot
      then show ?thesis using 2 dir_read_serving by (auto simp: Option.bind_eq_Some_conv)
    qed (use 2 in \<open>auto simp: serve.eff_refl\<close>)
  qed
qed

lemma sys_write_serving: "sys_write fd buf n s = Some (v, s') \<Longrightarrow> serving s s'"
  for s :: "'a proc_state_scheme"
proof -
  assume "sys_write fd buf n s = Some (v, s')"
  then obtain f where "s' = s \<or> fot_write f buf n s = Some (v, s')"
    by (auto simp: sys_write_def Let_def Option.bind_eq_Some_conv split: if_splits)
  then show ?thesis
    by (cases f) (auto simp: serve.eff_refl intro: terminal_write_serving driver_serving rtc_kept(4))
qed

lemma fot_close_kept: "fot_close f s = Some (w, s') \<Longrightarrow> driver_kept s s'"
  for s :: "'a proc_state_scheme"
  by (cases f) (auto simp: drv.eff_refl intro: rtc_kept(3))

lemma sys_close_serving: "sys_close fd s = Some (v, s') \<Longrightarrow> serving s s'"
  for s :: "'a proc_state_scheme"
proof -
  assume "sys_close fd s = Some (v, s')"
  then consider "s' = s"
    | f where "fot_close f s = Some (-1, s')"
    | d d' w s1 where "get_desc (own_loc s) fd s = Some d" "fot_close (fot_ptr d) s = Some (w, s1)" "w \<noteq> -1"
      "set_desc (own_loc s) fd (d'\<lparr>flags := 0\<rparr>) s1 = Some s'"
    unfolding sys_close_def Let_def
    by (auto simp: Option.bind_eq_Some_conv split: if_splits)
  then show ?thesis
  proof cases
    case 1
    then show ?thesis by (simp add: serve.eff_refl)
  next
    case 2
    then show ?thesis using driver_serving fot_close_kept by blast
  next
    case 3
    note k = fot_close_kept [OF 3(2)]
    note own = driver_own [OF k]
    have "2 \<le> unat fd \<and> desc_ok (d'\<lparr>flags := 0\<rparr>)" if t: "table_ok (own_table s1)"
    proof -
      have "unat fd < 8" "d = own_table s ! unat fd"
        using 3(1) t by (simp_all add: get_desc_own own table_ok_def)
      then show ?thesis using table_ok_desc [of "own_table s" "unat fd"] t 3(2,3)
        by (auto simp: own desc_ok_def empty_function_def)
    qed
    then have "serving s1 s'" using 3(4) set_desc_serving [of s1] by (simp only: own)
    then show ?thesis using serve.eff_trans driver_serving [OF k] by blast
  qed
qed

lemma sys_getargs_serving: "sys_getargs buf n s = Some (v, s') \<Longrightarrow> serving s s'"
  for s :: "'a proc_state_scheme"
proof -
  assume "sys_getargs buf n s = Some (v, s')"
  then have "in_memory s s'"
    by (auto simp: sys_getargs_def Let_def Option.bind_eq_Some_conv mem_effect.eff_refl split: if_splits
        dest!: memset_in_memory memcpy_in_memory intro: mem_effect.eff_trans)
  then show ?thesis by (rule memory_serving)
qed

lemma sys_vidmap_serving: "sys_vidmap a s = Some (v, s') \<Longrightarrow> serving s s'"
  for s :: "'a proc_state_scheme"
proof -
  assume "sys_vidmap a s = Some (v, s')"
  then consider "s' = s"
    | w where "write_bytes st8 a (le_bytes ONE_GIG) (s\<lparr>page_table_vid := (page_table_vid s)(0 := w)\<rparr>) = Some s'"
    by (auto simp: sys_vidmap_def Let_def Option.bind_eq_Some_conv split: if_splits)
  then show ?thesis
  proof cases
    case 2
    then have "serving (s\<lparr>page_table_vid := (page_table_vid s)(0 := w)\<rparr>) s'"
      using memory_serving mem_effect.obeysD [OF write_bytes_in_memory] by blast
    then show ?thesis by (rule serve.eff_trans [OF set_flag_serving(6)])
  qed (simp add: serve.eff_refl)
qed

text \<open>\<open>sys_open\<close>, when the directory holds no entry of another type than the three the kernel knows.\<close>

lemma find_desc_in: "find_desc ds is = Some n \<Longrightarrow> n = 8 \<or> n \<in> set is"
  by (induction "is") (auto simp: Option.bind_eq_Some_conv split: if_splits)

lemma lookup_known_type:
  assumes "directory (ld8 s) (boot_block s) es" "length (stack_junk s) = 64" "cstr_at rf filename nm"
    and "read_dentry_by_name rf filename (stack_junk s) s = Some (v, d)" "v \<noteq> -1"
  shows "v = 0" "\<exists>t ino. file_type d = Some t \<and> t \<in> {0, 1, 2} \<and> inode_num d = Some ino"
proof -
  obtain e where e: "find (\<lambda>e. ename e = nm) es = Some e"
    using read_dentry_by_name_find [OF assms(1-3)] assms(4,5) by (cases "find (\<lambda>e. ename e = nm) es") auto
  then have "v = 0 \<and> same_dentry d e"
    using read_dentry_by_name_find [OF assms(1-3)] assms(4) by auto
  moreover have "dirent_ok e"
    using e assms(1) by (auto simp: find_Some_iff directory_def)
  ultimately show "v = 0" "\<exists>t ino. file_type d = Some t \<and> t \<in> {0, 1, 2} \<and> inode_num d = Some ino"
    by (auto simp: dirent_ok_def same_dentry_def inode_num_bytes)
qed

lemma sys_open_serving:
  fixes s :: "'a proc_state_scheme"
  assumes dir: "directory (ld8 s) (boot_block s) es" and junk: "length (stack_junk s) = 64"
    and name: "cstr_at (ld8 s) filename nm" and r: "sys_open filename s = Some (v, s')"
  shows "serving s s'"
proof -
  consider "s' = s"
    | d' n d1 s1 s2 f ino' where
      "read_dentry_by_name (ld8 s) filename (stack_junk s) s = Some (0, d')" "n \<in> {2..<8}"
      "set_desc (own_loc s) (of_nat n) (d1\<lparr>flags := 1, file_position := 0\<rparr>) s = Some s1"
      "s2 = s1 \<or> s2 = snd (rtc_open s1)" "open_as (own_loc s) (of_nat n) ino' f s2 = Some s'"
      "f \<in> {File_fot, Rtc_fot, Dir_fot}"
  proof -
    obtain w d' where l: "read_dentry_by_name (ld8 s) filename (stack_junk s) s = Some (w, d')"
      using r by (auto simp: sys_open_def Let_def Option.bind_eq_Some_conv)
    show ?thesis
    proof (cases "w = -1")
      case True
      then show ?thesis using r l that(1) by (simp add: sys_open_def Let_def)
    next
      case False
      obtain t ino where t: "w = 0" "file_type d' = Some t" "t \<in> {0, 1, 2}" "inode_num d' = Some ino"
        using lookup_known_type [OF dir junk name l False] by blast
      obtain n where n: "find_desc (own_table s) [2..<8] = Some n"
        using r l False by (auto simp: sys_open_def Let_def own_table_def Option.bind_eq_Some_conv)
      show ?thesis
      proof (cases "n = 8")
        case True
        then show ?thesis using r l False n that(1) by (simp add: sys_open_def Let_def own_table_def)
      next
        case False
        then have m: "n \<in> {2..<8}" using find_desc_in [OF n] by simp
        from r l n False t(1,2,4) obtain d1 s1 where
          s1: "set_desc (own_loc s) (of_nat n) (d1\<lparr>flags := 1, file_position := 0\<rparr>) s = Some s1"
          and o: "\<exists>s2 f ino'. (s2 = s1 \<or> s2 = snd (rtc_open s1)) \<and>
            open_as (own_loc s) (of_nat n) ino' f s2 = Some s' \<and> f \<in> {File_fot, Rtc_fot, Dir_fot}"
          using t(3)
          by (auto simp: sys_open_def Let_def own_table_def Option.bind_eq_Some_conv fopen_def dir_open_def
              case_prod_beta rtc_open_sel(1)) blast+
        then show ?thesis using that(2) [OF l [unfolded t(1)] m s1] by blast
      qed
    qed
  qed
  then show ?thesis
  proof cases
    case 2
    have n: "unat (of_nat n :: u32) = n" using 2(2) by (intro unat_of_nat_u32) simp
    note a = set_desc_own [OF 2(3), unfolded n]
    have k: "driver_kept s1 s2" using 2(4) rtc_kept(1) drv.eff_refl by blast
    note b = driver_own [OF k]
    have u: "undisturbed s1 s2" using driver_serving [OF k] by (simp add: serving_def)
    obtain d2 where "set_desc (own_loc s2) (of_nat n) (d2\<lparr>inode := ino', fot_ptr := f\<rparr>) s2 = Some s'"
      "d2 = own_table s2 ! n"
      using 2(5) by (auto simp: open_as_def Option.bind_eq_Some_conv get_desc_own a b n simp flip: a(3) b(1))
    note c = set_desc_own [OF this(1), unfolded n] and d2 = this(2)
    have "undisturbed s s'" using calm.eff_trans a(1) u c(1) by blast
    moreover have "own_table s' = (own_table s)[n := (d1\<lparr>flags := 1, file_position := 0, inode := ino', fot_ptr := f\<rparr>)]"
      using a(4) by (simp add: c(2) b(2) a(2) d2)
    then have "table_ok (own_table s')" if "table_ok (own_table s)"
      using that 2(2,6) by (auto intro!: table_ok_update simp: desc_ok_def)
    ultimately show ?thesis by (simp add: serving_def)
  qed (simp add: serve.eff_refl)
qed

section \<open>A machine with two shells\<close>

text \<open>
  The paged machine after boot with a file system at \<open>0x500000\<close>: the directory and one program
  \<open>sh\<close> of 40 bytes; the command \<open>sh\<close> is at \<open>0x503000\<close>. Process 1 runs.
\<close>

definition demo_elf :: "u8 list" where
  "demo_elf = [0x7F, 0x45, 0x4C, 0x46] @ replicate 20 0 @ [0x10, 0x80, 0x04, 0x08] @ replicate 12 7"

definition sys_image :: "(u32 \<times> u8 list) list" where
  "sys_image =
     [(0x500000, le_bytes 2 @ le_bytes 1 @ le_bytes 1), (0x500040, demo_entry [46] 1 0),
      (0x500080, demo_entry [115, 104] 2 0), (0x501000, le_bytes 40 @ le_bytes 0),
      (0x502000, demo_elf), (0x503000, [115, 104, 0])]"

definition demo_pcb :: pcb where
  "demo_pcb = \<lparr>file_descs = [closed_desc\<lparr>fot_ptr := Stdin_fot, flags := 1\<rparr>, closed_desc\<lparr>fot_ptr := Stdout_fot, flags := 1\<rparr>]
       @ replicate 6 closed_desc,
     pid = 0, parent_pid = 0, parent_phys_addr = 0x800087, parent_esp = 0x7FFF00, parent_ebp = 0x7FFF20,
     pcb_file_position = 0, status = 0, arg = replicate 128 0, arg_size = 0, term_number = 1\<rparr>"

definition demo_proc :: proc_state where
  "demo_proc = kbd_state.extend ((demo_kbd 0)\<lparr>phys := image_bytes sys_image, boot_block := 0x500000\<rparr>)
     \<lparr>proc_arr = [1, 1, 0, 0, 0, 0], pcb_at = (\<lambda>_. demo_pcb), stack_pcb = demo_pcb,
      esp = 0x7FDF00, ebp = 0x7FDF20, tss_esp0 = 0x7FDFFF, tss_ss0 = 0x18\<rparr>"

lemma demo_proc_sel [simp]:
  "proc_arr demo_proc = [1, 1, 0, 0, 0, 0]" "pcb_at demo_proc = (\<lambda>_. demo_pcb)" "stack_pcb demo_proc = demo_pcb"
  "esp demo_proc = 0x7FDF00" "ebp demo_proc = 0x7FDF20" "phys demo_proc = image_bytes sys_image"
  "boot_block demo_proc = 0x500000" "stack_junk demo_proc = replicate 64 0" "cur_term_num demo_proc = 0"
  "own_table demo_proc = file_descs demo_pcb"
  by (simp_all add: demo_proc_def kbd_state.defs own_table_def)
    (simp_all add: demo_kbd_def tty_state.defs demo_tty_def initialize_page_eq)

lemma demo_proc_loc: "get_process_number demo_proc = 1"
  by (simp add: get_process_number_def)

lemma demo_table_ok: "table_ok (own_table demo_proc)"
proof -
  have "{2..<8 :: nat} = {2, 3, 4, 5, 6, 7}" by auto
  then show ?thesis by (simp add: table_ok_def demo_pcb_def closed_desc_def desc_ok_def)
qed

lemma demo_proc_xlate: "region a = 1 \<Longrightarrow> xlate Supervisor demo_proc a = Some a"
proof -
  assume "region a = 1"
  then have "xlate Supervisor demo_tty a = Some a" unfolding demo_tty_def by (simp add: boot_xlate_1)
  moreover have "xlate pr demo_proc a = xlate pr demo_tty a" for pr
    by (simp add: xlate_def table_at_def Let_def demo_proc_def kbd_state.defs demo_kbd_def tty_state.defs)
  ultimately show ?thesis by simp
qed

lemma demo_proc_bytes:
  assumes "bytes_at (\<lambda>a. Some (image_bytes sys_image a)) a bs" "0x400000 \<le> unat a" "unat a + length bs \<le> 0x800000"
  shows "bytes_at (ld8 demo_proc) a bs"
  unfolding bytes_at_def
proof (intro allI impI)
  fix i assume i: "i < length bs"
  have "a + of_nat i = of_nat (unat a + i)" by simp
  moreover have "(unat a + i) div 2 ^ 22 = 1" using assms(2,3) i by (intro div_nat_eqI) simp_all
  ultimately have "region (a + of_nat i) = 1"
    using small_address(1) [of "unat a + i"] assms(3) i by simp
  then show "ld8 demo_proc (a + of_nat i) = Some (bs ! i)"
    using bytes_at_nth [OF assms(1) i] by (simp add: ld8_def demo_proc_xlate)
qed

lemma sys_image_bytes:
  "bytes_at (ld8 demo_proc) 0x500000 (le_bytes 2 @ le_bytes 1 @ le_bytes 1)"
  "bytes_at (ld8 demo_proc) 0x500040 (demo_entry [46] 1 0)"
  "bytes_at (ld8 demo_proc) 0x500080 (demo_entry [115, 104] 2 0)"
  "bytes_at (ld8 demo_proc) 0x501000 (le_bytes 40 @ le_bytes 0)"
  "bytes_at (ld8 demo_proc) 0x502000 demo_elf"
  "bytes_at (ld8 demo_proc) 0x503000 [115, 104, 0]"
  unfolding sys_image_def demo_entry_def demo_elf_def
  by (rule demo_proc_bytes; (simp add: sys_image_def demo_entry_def demo_elf_def)?;
      intro image_tail image_head; simp)+

lemma sys_directory:
  "directory (ld8 demo_proc) (boot_block demo_proc) [demo_entry [46] 1 0, demo_entry [115, 104] 2 0]"
  using sys_image_bytes(1-3)
  by (auto simp: directory_def dir_count_def d_entry_def bytes_at_append ld32_bytes_at
      read_bytes_Some demo_entry_fields dirent_ok_def less_Suc_eq)

section \<open>Descriptors\<close>

lemma descriptor_refused:
  assumes "table_ok (own_table s)"
  shows "(fd <s 0 \<or> 8 \<le>s fd \<or> flags (own_table s ! unat fd) = 0 \<longrightarrow>
      sys_read irq irqs fd buf n s = Some (-1, irqs, s) \<and> sys_write fd buf n s = Some (-1, s) \<and>
      sys_close fd s = Some (-1, s)) \<and>
    sys_write 0 buf n s = Some (-1, s) \<and> sys_read irq irqs 1 buf n s = Some (-1, irqs, s) \<and>
    sys_close 0 s = Some (-1, s) \<and> sys_close 1 s = Some (-1, s)"
proof -
  have g: "get_desc (own_loc s) fd s = Some (own_table s ! unat fd)" if "\<not> fd <s 0" "\<not> 8 \<le>s fd" for fd
  proof -
    have "0 \<le> sint fd" "sint fd < 8" using that by (simp_all add: word_sless_alt word_sle_eq)
    moreover have "fd = of_nat (nat (sint fd))" using \<open>0 \<le> sint fd\<close> by simp
    then have "unat fd = nat (sint fd)"
      using unat_of_nat_u32 [of "nat (sint fd)"] \<open>sint fd < 8\<close> by (simp only:) simp
    ultimately have "unat fd < 8" by simp
    then show ?thesis using assms by (simp add: get_desc_own table_ok_def)
  qed
  have "fot_ptr (own_table s ! 0) = Stdin_fot" "flags (own_table s ! 0) = 1"
    "fot_ptr (own_table s ! 1) = Stdout_fot" "flags (own_table s ! 1) = 1"
    using assms by (simp_all add: table_ok_def)
  then show ?thesis
    using g [of fd] g [of 0] g [of 1]
    by (auto simp: sys_read_def sys_write_def sys_close_def Let_def empty_function_def word_sless_alt word_sle_eq)
qed

text \<open>
  C23. A descriptor that cannot be used is refused with -1 and nothing happens: a number outside
  0 to 7 or a closed descriptor for read, write and close, the keyboard side for write, the
  screen side for read, and both for close.
\<close>

theorem descriptor_errors:
  assumes "table_ok (own_table s)"
  shows "(fd <s 0 \<or> 8 \<le>s fd \<or> flags (own_table s ! unat fd) = 0 \<longrightarrow>
      sys_read irq irqs fd buf n s = Some (-1, irqs, s) \<and> sys_write fd buf n s = Some (-1, s) \<and>
      sys_close fd s = Some (-1, s)) \<and>
    sys_write 0 buf n s = Some (-1, s) \<and> sys_read irq irqs 1 buf n s = Some (-1, irqs, s) \<and>
    sys_close 0 s = Some (-1, s) \<and> sys_close 1 s = Some (-1, s)"
  using assms by (rule descriptor_refused)

theorem descriptor_errors_witness:
  "sys_read service [] 5 0 4 demo_proc = Some (-1, [], demo_proc) \<and> sys_close 1 demo_proc = Some (-1, demo_proc)"
  using descriptor_errors [OF demo_table_ok, of 5 service "[]" 0 4] by (simp add: demo_pcb_def closed_desc_def)

lemma desc_number: "find P [2..<8] = Some i \<Longrightarrow> (of_nat i :: u32) \<noteq> -1"
proof
  assume f: "find P [2..<8] = Some i" and e: "(of_nat i :: u32) = -1"
  have i: "i < 8" using f by (auto simp: find_Some_iff)
  have "(of_nat (i + 1) :: u32) = of_nat 0" using e by simp
  then have "i + 1 = 0" using i by (subst (asm) of_nat_eq_u32_iff) simp_all
  then show False by simp
qed

text \<open>
  C22. \<open>sys_open\<close> takes the lowest free descriptor from 2 on, and only changes that one: it stands
  for the clock, the directory or the inode of the named entry, at position 0; the answer is then
  not -1. With no entry of that name, or with all descriptors in use, it answers -1 and does
  nothing.
\<close>

theorem open_takes_lowest:
  fixes s :: "'a proc_state_scheme"
  assumes "directory (ld8 s) (boot_block s) es" "length (stack_junk s) = 64"
    and "cstr_at (ld8 s) filename nm" "length (file_descs (pcb_at s (own_loc s))) = 8"
  shows "case find (\<lambda>e. ename e = nm) es of None \<Rightarrow> sys_open filename s = Some (-1, s)
    | Some e \<Rightarrow> (case find (\<lambda>i. flags (file_descs (pcb_at s (own_loc s)) ! i) = 0) [2..<8] of
        None \<Rightarrow> sys_open filename s = Some (-1, s)
      | Some i \<Rightarrow> \<exists>v s'. sys_open filename s = Some (v, s') \<and> v \<noteq> -1 \<and>
          pcb_at s' = (pcb_at s)(own_loc s := (pcb_at s (own_loc s))\<lparr>
            file_descs := (file_descs (pcb_at s (own_loc s)))[i := opened e]\<rparr>) \<and>
          rtc_opened s' = (if file_type e = Some 0 then 1 else rtc_opened s))"
  using sys_open_spec [OF assms] desc_number [of "\<lambda>i. flags (file_descs (pcb_at s (own_loc s)) ! i) = 0"]
  by (auto split: option.splits)

theorem open_takes_lowest_witness:
  "\<exists>v s'. sys_open 0x503000 demo_proc = Some (v, s') \<and> v \<noteq> -1 \<and>
     own_table s' = (file_descs demo_pcb)[2 := \<lparr>fot_ptr = File_fot, inode = 0, file_position = 0, flags = 1\<rparr>]"
proof -
  have c: "cstr_at (ld8 demo_proc) 0x503000 [115, 104]"
    using sys_image_bytes(6) by (simp add: cstr_at_def)
  have "find (\<lambda>i. flags (file_descs demo_pcb ! i) = 0) [2..<8] = Some 2"
    by (simp add: demo_pcb_def closed_desc_def upt_conv_Cons)
  moreover have "opened (demo_entry [115, 104] 2 0) =
      \<lparr>fot_ptr = File_fot, inode = 0, file_position = 0, flags = 1\<rparr>"
    by (simp add: opened_def demo_entry_fields)
  moreover have "length (file_descs demo_pcb) = 8" by (simp add: demo_pcb_def)
  ultimately obtain v s' where s': "sys_open 0x503000 demo_proc = Some (v, s')" "v \<noteq> -1"
    "pcb_at s' = (pcb_at demo_proc)(own_loc demo_proc := demo_pcb\<lparr>file_descs := (file_descs demo_pcb)[2 :=
        \<lparr>fot_ptr = File_fot, inode = 0, file_position = 0, flags = 1\<rparr>]\<rparr>)"
    using open_takes_lowest [OF sys_directory _ c] by (auto simp: demo_entry_fields)
  moreover have "own_loc s' = own_loc demo_proc"
    using sys_open_serving [OF sys_directory _ c s'(1)] by (simp add: serving_def undisturbed_own_loc)
  ultimately show ?thesis by (auto simp: own_table_def)
qed

end
