(* ===== verification/Syscall_Spec.thy ===== *)
theory Syscall_Spec
  imports Syscall_Safety
begin

text \<open>
  What the single calls deliver: files through their descriptors and the argument string.
\<close>

section \<open>Files\<close>

lemma xlate_pcb [simp]: "xlate pr (s\<lparr>pcb_at := f\<rparr>) = xlate pr s"
  by (simp add: fun_eq_iff xlate_def table_at_def Let_def)

lemma ld8_pcb [simp]: "ld8 (s\<lparr>pcb_at := f\<rparr>) = ld8 s"
  by (simp add: fun_eq_iff ld8_def)

lemma sys_read_file:
  fixes s :: "'a proc_state_scheme"
  assumes i: "i < 8" "length (own_table s) = 8" and d: "own_table s ! i = d" "fot_ptr d = File_fot" "flags d = 1"
    and f: "file_at (ld8 s) (boot_block s) (inode_address (boot_block s) (inode d)) c blks bs"
      "inode_length (ld8 s) (inode_address (boot_block s) (inode d)) = Some l"
      "range_ok (xlate Supervisor) s buf (unat n)"
      "file_apart (xlate Supervisor) s buf (unat n) (boot_block s)
        (inode_address (boot_block s) (inode d)) c blks (length bs)"
    and off: "file_position d < l" "unat (file_position d) < length bs"
      "unat (file_position d) + unat n \<le> length bs"
  shows "\<exists>s'. sys_read irq irqs (of_nat i) buf n s = Some (n, irqs, s') \<and>
    bytes_at (ld8 s') buf (take (unat n) (drop (unat (file_position d)) bs)) \<and>
    own_table s' = (own_table s)[i := d\<lparr>file_position := file_position d + n\<rparr>] \<and> undisturbed s s' \<and>
    (\<exists>s1. mem_stored s buf (take (unat n) (drop (unat (file_position d)) bs)) s1 \<and> s' = s1\<lparr>pcb_at := pcb_at s'\<rparr>)"
proof -
  let ?bs = "take (unat n) (drop (unat (file_position d)) bs)" and ?d = "d\<lparr>file_position := file_position d + n\<rparr>"
  obtain s1 where s1: "fread d buf n s = Some (n, ?d, s1)" "mem_stored s buf ?bs s1"
    using fread_reads [OF f off] by blast
  have own: "own_loc s1 = own_loc s" "own_table s1 = own_table s"
    by (rule driver_own [OF memory_kept [OF fread_in_memory [OF s1(1)]]])+
  have u: "unat (of_nat i :: u32) = i" using i by (intro unat_of_nat_u32) simp
  obtain s2 where s2: "set_desc (own_loc s) (of_nat i) ?d s1 = Some s2"
    "s2 = s1\<lparr>pcb_at := (pcb_at s1)(own_loc s := (pcb_at s1 (own_loc s))\<lparr>file_descs := (own_table s)[i := ?d]\<rparr>)\<rparr>"
    using i own set_desc_Some [of i s1 "own_loc s" ?d] by (simp add: own_table_def)
  note own2 = set_desc_own [of s1 "of_nat i" ?d s2, unfolded own u, OF s2(1)]
  have "\<not> of_nat i <s (0 :: i32)" "\<not> 8 \<le>s (of_nat i :: i32)"
    using i by (simp_all add: word_sless_alt word_sle_eq sint_of_nat_u32)
  moreover have "get_desc (own_loc s) (of_nat i) s = Some d"
    using i d u by (simp add: get_desc_own)
  ultimately have "sys_read irq irqs (of_nat i) buf n s = Some (n, irqs, s2)"
    using d s1(1) s2(1) by (simp add: sys_read_def Let_def)
  moreover have "bytes_at (ld8 s2) buf ?bs"
    using s1(2) by (simp add: s2(2) stored_def)
  moreover have "undisturbed s s2"
    using own2(1) memory_serving [OF fread_in_memory [OF s1(1)]] calm.eff_trans by (auto simp: serving_def)
  moreover have "s2 = s1\<lparr>pcb_at := pcb_at s2\<rparr>" by (simp add: s2(2))
  ultimately show ?thesis using own2(2) s1(2) by blast
qed

text \<open>Closing what was just opened frees the slot again.\<close>

lemma sys_close_opened:
  fixes s :: "'a proc_state_scheme"
  assumes i: "2 \<le> i" "i < 8" "length (own_table s) = 8" and d: "own_table s ! i = opened e"
    and rtc: "file_type e = Some 0 \<longrightarrow> rtc_opened s \<noteq> 0"
  shows "\<exists>s'. sys_close (of_nat i) s = Some (0, s') \<and> own_table s' = (own_table s)[i := (opened e)\<lparr>flags := 0\<rparr>]"
proof -
  have u: "unat (of_nat i :: u32) = i" using i by (intro unat_of_nat_u32) simp
  have o: "flags (opened e) = 1" by (simp add: opened_def)
  obtain s1 where s1: "fot_close (fot_ptr (opened e)) s = Some (0, s1)" "own_table s1 = own_table s" "own_loc s1 = own_loc s"
  proof -
    have "fot_close (fot_ptr (opened e)) s = Some (0, if file_type e = Some 0 then s\<lparr>rtc_opened := 0\<rparr> else s)"
      using rtc by (simp add: opened_def rtc_close_def fclose_def dir_close_def)
    moreover note driver_own [OF fot_close_kept [OF this]]
    ultimately show ?thesis using that by blast
  qed
  obtain s2 where s2: "set_desc (own_loc s) (of_nat i) ((opened e)\<lparr>flags := 0\<rparr>) s1 = Some s2"
    using i s1 set_desc_Some [of i s1 "own_loc s"] by (simp add: own_table_def)
  have "\<not> of_nat i <s (0 :: i32)" "\<not> 8 \<le>s (of_nat i :: i32)"
    using i by (simp_all add: word_sless_alt word_sle_eq sint_of_nat_u32)
  moreover have "get_desc (own_loc s) (of_nat i) s = Some (opened e)" "get_desc (own_loc s) (of_nat i) s1 = Some (opened e)"
    using i d u s1 get_desc_own [of s1 "of_nat i"] by (simp_all add: get_desc_own)
  ultimately have "sys_close (of_nat i) s = Some (0, s2)"
    using o s1(1) s2 by (simp add: sys_close_def Let_def)
  moreover have "own_table s2 = (own_table s)[i := (opened e)\<lparr>flags := 0\<rparr>]"
    using set_desc_own(2) [of s1 "of_nat i" _ s2] s2 s1 u by simp
  ultimately show ?thesis by blast
qed

section \<open>Arguments\<close>

lemma sys_getargs_stores:
  fixes s :: "'a proc_state_scheme"
  assumes p: "pcb_at s (own_loc s) = p" "length (arg p) = 128" and k: "k < 2 ^ 31"
    and buf: "buf \<noteq> 0" "range_ok (xlate Supervisor) s buf (min 128 k + 1)"
  shows "if arg p ! 0 = 0 \<or> of_nat k < arg_size p then sys_getargs buf (of_nat k) s = Some (-1, s)
    else \<exists>s'. sys_getargs buf (of_nat k) s = Some (0, s') \<and> mem_stored s buf (take (min 128 k) (arg p) @ [0]) s'"
proof -
  let ?N = "min 128 k" and ?a = "arg p"
  have clip: "(if 128 <s (of_nat k :: i32) then 128 else of_nat k) = (of_nat ?N :: i32)"
    using of_nat_sless_iff [of 128 k] k by (auto simp: min_def)
  have u: "unat (of_nat ?N :: u32) = ?N" "unat (of_nat ?N + 1 :: u32) = ?N + 1"
    using unat_of_nat_u32 [of ?N] unat_of_nat_u32 [of "?N + 1"] by (simp_all add: add.commute)
  obtain s1 where s1: "memset st8 buf 0 (of_nat ?N + 1) s = Some s1" "mem_stored s buf (replicate (?N + 1) 0) s1"
    using kmem.memset_stored [of s buf "of_nat ?N + 1" 0] buf(2) u(2) by auto
  have "range_ok (xlate Supervisor) s1 buf ?N"
    unfolding kmem.range_ok_stored [OF s1(2)] using buf(2) by (rule range_ok_mono) simp
  moreover have "bytes_at (ldo ?a) 0 (take ?N ?a)"
    using obj_bytes_at [of ?a] p(2) by (intro bytes_at_take) simp
  ultimately have "kmem.ready (\<lambda>_. ldo ?a) s1 buf 0 (take ?N ?a)"
    using kmem.feeds_const [of "ldo ?a" 0 "take ?N ?a"] p(2) by (simp add: kmem.ready_def)
  then obtain s2 where s2: "memcpy (\<lambda>_. ldo ?a) st8 buf 0 (of_nat ?N) s1 = Some s2" "mem_stored s1 buf (take ?N ?a) s2"
    using kmem.memcpy_stored [of "\<lambda>_. ldo ?a" s1 buf 0 "take ?N ?a" "of_nat ?N"] u(1) p(2) by auto
  have "mem_stored s buf (take ?N ?a @ [0]) s2"
  proof -
    have "mem_stored s buf (take ?N ?a @ drop (length (take ?N ?a)) (replicate (?N + 1) 0)) s2"
      by (rule kmem.stored_prefix [OF _ s1(2) s2(2)]) (use buf(2) p(2) in simp_all)
    moreover have "drop (length (take ?N ?a)) (replicate (?N + 1) 0) = [0 :: u8]"
      by (simp only: drop_replicate) (simp add: p(2))
    ultimately show ?thesis by (simp only:)
  qed
  then show ?thesis
    using p buf(1) s1(1) s2(1) by (simp add: sys_getargs_def Let_def clip)
qed

lemma sys_getargs_copies:
  fixes s :: "'a proc_state_scheme"
  assumes p: "pcb_at s (own_loc s) = p" "arg p = cs @ replicate (128 - length cs) 0" "length cs \<le> 128"
      "cs \<noteq> []" "0 \<notin> set cs" "arg_size p = of_nat (length cs)"
    and k: "length cs \<le> k" "k < 2 ^ 31" and buf: "buf \<noteq> 0" "range_ok (xlate Supervisor) s buf (min 128 k + 1)"
  shows "\<exists>s'. sys_getargs buf (of_nat k) s = Some (0, s') \<and>
    mem_stored s buf (take (min 128 k) (arg p) @ [0]) s' \<and> cstr_at (ld8 s') buf cs"
proof -
  let ?N = "min 128 k"
  have len: "length (arg p) = 128" using p by simp
  have "arg p ! 0 \<noteq> 0" using p by (cases cs) (simp_all add: p(2))
  moreover have "\<not> (of_nat k :: u32) < arg_size p"
    using k p(3,6) by (simp add: word_less_nat_alt unat_of_nat_u32)
  ultimately obtain s2 where s2: "sys_getargs buf (of_nat k) s = Some (0, s2)"
    and st: "mem_stored s buf (take ?N (arg p) @ [0]) s2"
    using sys_getargs_stores [OF p(1) len k(2) buf] by auto
  moreover have "cstr_at (ld8 s2) buf cs"
  proof -
    have "take ?N (arg p) @ [0] = cs @ 0 # replicate (?N - length cs) 0"
      using p(3) k(1) by (simp add: p(2) min_def replicate_append_same) arith
    then have "bytes_at (ld8 s2) buf (cs @ 0 # replicate (?N - length cs) 0)"
      using st by (simp add: stored_def)
    then show ?thesis using p(5) by (simp add: cstr_at_def bytes_at_append bytes_at_Cons)
  qed
  ultimately show ?thesis by blast
qed

section \<open>The file of the demonstration machine\<close>

lemma sys_file:
  "file_at (ld8 demo_proc) 0x500000 (inode_address 0x500000 0) 1 [0] demo_elf"
  "inode_length (ld8 demo_proc) (inode_address 0x500000 0) = Some 40"
proof -
  have "length demo_elf = 40" by (simp add: demo_elf_def)
  moreover have "block_byte 0x500000 1 [0] k = 0x502000 + of_nat k" if "k < 40" for k
    using that by (simp add: block_byte_def)
  ultimately show "file_at (ld8 demo_proc) 0x500000 (inode_address 0x500000 0) 1 [0] demo_elf"
    using sys_image_bytes(1,4,5)
    by (simp add: file_at_def inode_count_def data_block_num_def bytes_at_append ld32_bytes_at
        inode_address_def) (simp add: bytes_at_def)
  show "inode_length (ld8 demo_proc) (inode_address 0x500000 0) = Some 40"
    using sys_image_bytes(4) by (simp add: inode_length_def inode_address_def bytes_at_append ld32_bytes_at)
qed

section \<open>Opening and closing\<close>

text \<open>
  Closing what was just opened succeeds and gives the descriptor back: the table is as before
  \<open>sys_open\<close> but for the contents of the slot, which is free again.
\<close>

theorem open_close:
  fixes s :: "'a proc_state_scheme"
  assumes "directory (ld8 s) (boot_block s) es" "length (stack_junk s) = 64"
    and "cstr_at (ld8 s) filename nm" "length (own_table s) = 8"
    and "sys_open filename s = Some (fd, s1)" "fd \<noteq> -1"
  shows "\<exists>i s2 d. fd = of_nat i \<and> i \<in> {2..<8} \<and> flags (own_table s ! i) = 0 \<and>
    sys_close fd s1 = Some (0, s2) \<and> own_table s2 = (own_table s)[i := d] \<and> flags d = 0"
proof -
  note spec = sys_open_spec [OF assms(1-3) assms(4) [unfolded own_table_def], folded own_table_def]
  obtain e where e: "find (\<lambda>e. ename e = nm) es = Some e"
    using spec assms(5,6) by (cases "find (\<lambda>e. ename e = nm) es") auto
  obtain i where i: "find (\<lambda>i. flags (own_table s ! i) = 0) [2..<8] = Some i"
    using spec e assms(5,6) by (cases "find (\<lambda>i. flags (own_table s ! i) = 0) [2..<8]") auto
  have s1: "fd = of_nat i" "pcb_at s1 = (pcb_at s)(own_loc s := (pcb_at s (own_loc s))\<lparr>
      file_descs := (own_table s)[i := opened e]\<rparr>)" "file_type e = Some 0 \<longrightarrow> rtc_opened s1 \<noteq> 0"
    using spec e i assms(5) by auto
  have i8: "i \<in> {2..<8}" "flags (own_table s ! i) = 0"
    using i by (force simp: find_Some_iff)+
  have "own_loc s1 = own_loc s"
    using sys_open_serving [OF assms(1-3,5)] by (simp add: serving_def undisturbed_own_loc)
  then have t: "own_table s1 = (own_table s)[i := opened e]" by (simp add: own_table_def s1(2))
  then obtain s2 where "sys_close fd s1 = Some (0, s2)"
    "own_table s2 = (own_table s)[i := (opened e)\<lparr>flags := 0\<rparr>]"
    using sys_close_opened [of i s1 e] i8(1) assms(4) s1(1,3) by auto
  moreover have "flags ((opened e)\<lparr>flags := 0\<rparr>) = 0" by simp
  ultimately show ?thesis using s1(1) i8 by blast
qed

theorem open_close_witness:
  "\<exists>s1 s2. sys_open 0x503000 demo_proc = Some (2, s1) \<and> sys_close 2 s1 = Some (0, s2)"
proof -
  have c: "cstr_at (ld8 demo_proc) 0x503000 [115, 104]"
    using sys_image_bytes(6) by (simp add: cstr_at_def)
  have "find (\<lambda>i. flags (file_descs (pcb_at demo_proc l) ! i) = 0) [2..<8] = Some 2" for l
    by (simp add: demo_pcb_def closed_desc_def upt_conv_Cons)
  then obtain s1 where s1: "sys_open 0x503000 demo_proc = Some (2, s1)"
    using sys_open_spec [OF sys_directory _ c] by (auto simp: demo_entry_fields demo_pcb_def)
  then show ?thesis
    using open_close [OF sys_directory _ c _ s1] by (auto simp: demo_pcb_def)
qed

end
