(* ===== verification/Execution.thy ===== *)
theory Execution
  imports Syscall_Spec
begin

text \<open>
  Starting and ending programs: \<open>sys_execute\<close> refuses without a trace or builds a process whose
  program page, control block, stack and entry point are as they should be; \<open>sys_halt\<close> undoes it.
\<close>

section \<open>The command\<close>

lemma sto_Some: "i < length xs \<Longrightarrow> length xs < 2 ^ 32 \<Longrightarrow> sto (of_nat i) v xs = Some (xs[i := v])"
  by (simp add: sto_def unat_of_nat_u32)

lemma update_run: "k < length xs \<Longrightarrow> take (Suc k) (xs[k := c]) @ cs @ drop (Suc k + n) (xs[k := c]) =
    take k xs @ (c # cs) @ drop (Suc k + n) xs"
  by (simp add: take_Suc_conv_app_nth)

lemma parse_name_run:
  "bytes_at rd (command + of_nat k) (cs @ [e]) \<Longrightarrow> e = 32 \<or> e = 0 \<Longrightarrow> 32 \<notin> set cs \<Longrightarrow> 0 \<notin> set cs \<Longrightarrow>
     k + length cs \<le> 32 \<Longrightarrow> length fn = 32 \<Longrightarrow>
     parse_name rd command (of_nat k) fn =
       Some (Inr (of_nat (k + length cs), take k fn @ cs @ drop (k + length cs) fn))"
proof (induction cs arbitrary: k fn)
  case Nil
  then show ?case by (subst parse_name.simps) (auto simp: bytes_at_Cons)
next
  case (Cons c cs)
  have "\<not> of_nat k > (32 :: u32)" using Cons.prems(5) by (simp add: word_less_nat_alt unat_of_nat_u32)
  moreover have "sto (of_nat k) c fn = Some (fn[k := c])"
    using Cons.prems by (intro sto_Some) simp_all
  moreover have "parse_name rd command (of_nat (Suc k)) (fn[k := c]) =
       Some (Inr (of_nat (Suc k + length cs), take (Suc k) (fn[k := c]) @ cs @ drop (Suc k + length cs) (fn[k := c])))"
    using Cons.prems by (intro Cons.IH) (simp_all add: bytes_at_Cons ac_simps)
  ultimately show ?case
    using Cons.prems update_run [of k fn c cs "length cs"]
    by (subst parse_name.simps) (simp add: bytes_at_Cons add.commute)
qed

lemma parse_arg_run:
  "bytes_at rd (command + i) (cs @ [0]) \<Longrightarrow> 0 \<notin> set cs \<Longrightarrow>
     k + length cs \<le> 128 \<Longrightarrow> length ag = 128 \<Longrightarrow>
     parse_arg rd command i (of_nat k) ag =
       Some (Inr (of_nat (k + length cs), take k ag @ cs @ drop (k + length cs) ag))"
proof (induction cs arbitrary: i k ag)
  case Nil
  then show ?case by (subst parse_arg.simps) (auto simp: bytes_at_Cons)
next
  case (Cons c cs)
  have "\<not> of_nat k > (128 - 1 :: u32)" using Cons.prems(3) by (simp add: word_less_nat_alt unat_of_nat_u32)
  moreover have "sto (of_nat k) c ag = Some (ag[k := c])"
    using Cons.prems by (intro sto_Some) simp_all
  moreover have "parse_arg rd command (i + 1) (of_nat (Suc k)) (ag[k := c]) =
       Some (Inr (of_nat (Suc k + length cs), take (Suc k) (ag[k := c]) @ cs @ drop (Suc k + length cs) (ag[k := c])))"
    using Cons.prems by (intro Cons.IH) (simp_all add: bytes_at_Cons ac_simps)
  ultimately show ?case
    using Cons.prems update_run [of k ag c cs "length cs"]
    by (subst parse_arg.simps) (simp add: bytes_at_Cons add.commute)
qed

text \<open>
  A command is a name, a separator and the rest up to the next zero byte. The separator may be
  the zero byte itself: the argument is then whatever follows the command in memory.
\<close>

definition command_at :: "(u32 \<Rightarrow> u8 option) \<Rightarrow> u32 \<Rightarrow> u8 list \<Rightarrow> u8 list \<Rightarrow> bool" where
  "command_at rd command nm ag \<longleftrightarrow> (\<exists>e \<in> {32, 0}. bytes_at rd command (nm @ e # ag @ [0])) \<and>
     32 \<notin> set nm \<and> 0 \<notin> set nm \<and> 0 \<notin> set ag \<and> length nm \<le> 32 \<and> length ag \<le> 128"

definition padded :: "nat \<Rightarrow> u8 list \<Rightarrow> u8 list" where
  "padded n xs = xs @ replicate (n - length xs) 0"

lemma parse_command_ok:
  assumes "command_at rd command nm ag"
  shows "parse_command rd command = Some (Inr (padded 32 nm, of_nat (length ag), padded 128 ag))"
proof -
  obtain e where e: "e = 32 \<or> e = 0" "bytes_at rd command (nm @ e # ag @ [0])"
    using assms by (auto simp: command_at_def)
  have b: "bytes_at rd command (nm @ [e])" "bytes_at rd (command + (of_nat (length nm) + 1)) (ag @ [0])"
    using e(2) by (simp_all add: bytes_at_append bytes_at_Cons add.assoc)
  have "parse_name rd command 0 (replicate 32 0) = Some (Inr (of_nat (length nm), padded 32 nm))"
    using parse_name_run [of rd command 0 nm e "replicate 32 0"] b(1) e(1) assms
    by (simp add: command_at_def padded_def)
  moreover have "parse_arg rd command (of_nat (length nm) + 1) 0 (replicate 128 0) =
      Some (Inr (of_nat (length ag), padded 128 ag))"
    using parse_arg_run [of rd command "of_nat (length nm) + 1" ag 0 "replicate 128 0"] b(2) assms
    by (simp add: command_at_def padded_def)
  ultimately show ?thesis by (simp add: parse_command_def)
qed

section \<open>Refusals\<close>

lemma find_free_Some:
  "find_free arr is = Some p \<Longrightarrow> p \<noteq> -1 \<Longrightarrow> \<exists>i \<in> set is. p = of_nat i \<and> i < length arr \<and> arr ! i = FREE"
  by (induction "is") (auto simp: Option.bind_eq_Some_conv arr_get_eq_Some split: if_splits)

lemma sys_execute_refused:
  fixes s :: "'a proc_state_scheme"
  assumes "sys_execute rd command s = Some (Ret v, s')"
  shows "v = -1 \<and> s' = s"
proof -
  obtain p where p: "find_free (proc_arr s) [0..<MAX_PROCESSES] = Some p"
    using assms by (auto simp: sys_execute_def Let_def Option.bind_eq_Some_conv)
  show ?thesis
  proof (cases "p = -1")
    case True
    then show ?thesis using assms p by (simp add: sys_execute_def Let_def)
  next
    case False
    obtain i where i: "i < 6" "p = of_nat i" "i < length (proc_arr s)" "proc_arr s ! i = FREE"
      using find_free_Some [OF p False] by auto
    have u: "unat p = i" using i by (simp add: unat_of_nat_u32)
    define s1 where "s1 = s\<lparr>proc_arr := (proc_arr s)[i := RUNNING]\<rparr>"
    have s1: "set_proc p RUNNING s = Some s1" using i u by (simp add: set_proc_def s1_def)
    have "(proc_arr s)[i := RUNNING, i := FREE] = proc_arr s" using i(4) by (metis list_update_id list_update_overwrite)
    then have undo: "set_proc p FREE s1 = Some s" using i u by (simp add: set_proc_def s1_def)
    obtain r where r: "parse_command rd command = Some r"
      using assms p False s1 by (auto simp: sys_execute_def Let_def Option.bind_eq_Some_conv)
    show ?thesis
      using assms p False s1 undo r
      by (cases r) (auto simp: sys_execute_def Let_def Option.bind_eq_Some_conv enter_program_def
          map_program_def split: if_splits)
  qed
qed

section \<open>The pages of a program\<close>

text \<open>
  \<open>kernel_mapped\<close> is the entry of the kernel's page as \<open>initialize_page\<close> writes it;
  \<open>program_page n\<close> is the entry \<open>sys_execute\<close> writes for process \<open>n\<close>: the \<open>n\<close>-th 4 MB above 8 MB.
\<close>

definition kernel_mapped :: "'a mach_scheme \<Rightarrow> bool" where
  "kernel_mapped s \<longleftrightarrow> paging s \<and> page_directory s 1 = 0x400083"

definition program_page :: "nat \<Rightarrow> u32" where
  "program_page n = of_nat ((n + 2) * 0x400000) OR 0x87"

lemma program_entry_index: "unat (OTE_MB div MB_4) = 32"
  by code_simp

lemma map_program_eq:
  "map_program (of_nat n) s = (page_directory s 32, s\<lparr>page_directory := (page_directory s)(32 := program_page n)\<rparr>)"
  unfolding map_program_def program_entry_index by (simp add: program_page_def or.assoc algebra_simps)

lemma kernel_page_xlate:
  assumes "kernel_mapped s" "region a = 1"
  shows "xlate Supervisor s a = Some a"
proof -
  have "push_bit 22 (drop_bit 22 a) = MB_4" using region_eqD [OF assms(2)] by simp
  then have "MB_4 OR take_bit 22 a = a" using same_region [of a] by simp
  then show ?thesis
    using assms by (subst xlate_big [where e = "0x400083"]) (simp_all add: kernel_mapped_def allows_def)
qed

lemma program_page_xlate:
  assumes "paging s" "page_directory s 32 = program_page n" "k < 0x400000"
  shows "xlate pr s (OTE_MB + of_nat k) = Some (of_nat ((n + 2) * 0x400000 + k))"
proof -
  have a: "OTE_MB + of_nat k = (of_nat (0x8000000 + k) :: u32)" by simp
  have "(0x8000000 + k) div 2 ^ 22 = 32" using assms(3) by (intro div_nat_eqI) simp_all
  then have reg: "region (OTE_MB + of_nat k) = 32"
    unfolding a using assms(3) by (subst small_address(1)) simp_all
  have "(0x8000000 + k) mod 2 ^ 22 = k" using assms(3) by (simp add: mod_add_eq [symmetric])
  then have "unat (take_bit 22 (OTE_MB + of_nat k)) = unat (of_nat k :: u32)"
    using assms(3) unat_of_nat_u32 [of "0x8000000 + k"] unat_of_nat_u32 [of k]
    by (simp add: unsigned_take_bit_eq take_bit_nat_def)
  then have t: "take_bit 22 (OTE_MB + of_nat k) = (of_nat k :: u32)" by (rule unat_eqD)
  have p: "(of_nat ((n + 2) * 0x400000) :: u32) = push_bit 22 (of_nat (n + 2))"
    by (simp add: push_bit_eq_mult algebra_simps)
  have low: "\<not> bit (of_nat ((n + 2) * 0x400000) :: u32) j" if "j < 22" for j
    unfolding p using that by (simp add: bit_push_bit_iff)
  have e: "push_bit 22 (drop_bit 22 (program_page n)) = of_nat ((n + 2) * 0x400000)"
  proof -
    have "push_bit 22 (drop_bit 22 (push_bit 22 (of_nat (n + 2)) :: u32)) = push_bit 22 (of_nat (n + 2))"
      using bits_ident [of 22 "push_bit 22 (of_nat (n + 2)) :: u32"] by (simp add: take_bit_push_bit)
    then show ?thesis unfolding program_page_def p by (simp add: drop_bit_or)
  qed
  have "allows pr (program_page n)" "bit (program_page n) 7"
    by (simp_all add: program_page_def allows_def bit_or_iff)
  then have "xlate pr s (OTE_MB + of_nat k) = Some (of_nat ((n + 2) * 0x400000) OR of_nat k)"
    using assms reg by (subst xlate_big [where e = "program_page n"]) (simp_all only: e t)
  also have "(of_nat ((n + 2) * 0x400000) OR of_nat k :: u32) = of_nat ((n + 2) * 0x400000) + of_nat k"
  proof -
    have "(of_nat ((n + 2) * 0x400000) AND of_nat k :: u32) = 0"
    proof (rule bit_word_eqI)
      fix j
      have "\<not> bit (take_bit 22 (OTE_MB + of_nat k) :: u32) j" if "\<not> j < 22"
        using that by (simp only: bit_take_bit_iff simp_thms)
      then have "\<not> j < 22 \<Longrightarrow> \<not> bit (of_nat k :: u32) j" by (simp only: t simp_thms)
      then show "bit (of_nat ((n + 2) * 0x400000) AND of_nat k :: u32) j = bit 0 j"
        using low [of j] by (auto simp only: bit_and_iff bit_0_eq)
    qed
    then show ?thesis by (simp only: disjunctive_add_eq_or)
  qed
  finally show ?thesis by (simp only: of_nat_add)
qed

section \<open>Loading the image\<close>

abbreviation (input) "PROGRAM \<equiv> OTE_MB + USER_IDX"

lemma program_cell:
  assumes "paging s" "page_directory s 32 = program_page n" "n < 6" "k < 0x3B8000"
  shows "xlate pr s (PROGRAM + of_nat k) = Some (of_nat ((n + 2) * 0x400000 + 0x48000 + k))"
  using program_page_xlate [OF assms(1,2), of "0x48000 + k" pr] assms(4) by (simp add: algebra_simps)

lemma program_cell_nat:
  assumes "n < 6" "k < 0x3B8000"
  shows "unat (of_nat ((n + 2) * 0x400000 + 0x48000 + k) :: u32) = (n + 2) * 0x400000 + 0x48000 + k"
  using assms by (intro unat_of_nat_u32) simp

lemma program_range:
  assumes "paging s" "page_directory s 32 = program_page n" "n < 6" "len \<le> 0x3B8000"
  shows "range_ok (xlate Supervisor) s PROGRAM len"
proof -
  have "i = j" if "i < len" "j < len"
    "(of_nat ((n + 2) * 0x400000 + 0x48000 + i) :: u32) = of_nat ((n + 2) * 0x400000 + 0x48000 + j)" for i j
    using arg_cong [OF that(3), of unat] that(1,2) assms(3,4) program_cell_nat [of n i] program_cell_nat [of n j]
    by simp
  then show ?thesis
    using program_cell [OF assms(1-3)] assms(4) by (auto simp: range_ok_def)
qed

lemma program_outside:
  assumes "kernel_mapped s" "page_directory s 32 = program_page n" "n < 6" "len \<le> 0x3B8000" "region b = 1"
  shows "outside (xlate Supervisor) s PROGRAM len b"
  unfolding outside_def
proof (intro allI impI)
  fix i assume i: "i < len"
  have "region b = unat b div 2 ^ 22"
    using small_address(1) [of "unat b"] unat_u32_less [of b] by simp
  then have "unat b < 0x800000" using assms(5) by simp
  then have "b \<noteq> of_nat ((n + 2) * 0x400000 + 0x48000 + i)"
    using program_cell_nat [of n i] i assms(3,4) by auto
  moreover have "paging s" using assms(1) by (simp add: kernel_mapped_def)
  ultimately show "xlate Supervisor s b \<noteq> xlate Supervisor s (PROGRAM + of_nat i)"
    using kernel_page_xlate [OF assms(1,5)] program_cell [of s n i] assms(2-4) i by simp
qed

text \<open>The file of inode \<open>ino\<close> holds \<open>bs\<close>, and all of it lies in the kernel's page, as the module does.\<close>

definition program_file :: "(u32 \<Rightarrow> u8 option) \<Rightarrow> u32 \<Rightarrow> u32 \<Rightarrow> i32 \<Rightarrow> u32 list \<Rightarrow> u8 list \<Rightarrow> bool" where
  "program_file r bb ino c blks bs \<longleftrightarrow>
     file_at r bb (inode_address bb ino) c blks bs \<and>
     inode_length r (inode_address bb ino) = Some (of_nat (length bs)) \<and> length bs \<le> 0x3B8000 \<and>
     (\<forall>j < 4. region (bb + 4 + of_nat j) = 1 \<and> region (inode_address bb ino + of_nat j) = 1) \<and>
     (\<forall>i < length blks. \<forall>j < 4. region (inode_address bb ino + 4 + 4 * of_nat i + of_nat j) = 1) \<and>
     (\<forall>k < length bs. region (block_byte bb c blks k) = 1)"

lemma program_file_cong:
  assumes "program_file r bb ino c blks bs" "\<And>a. region a = 1 \<Longrightarrow> r' a = r a"
  shows "program_file r' bb ino c blks bs"
proof -
  have 4: "ld32 r' a = ld32 r a" if "\<forall>j < 4. region (a + of_nat j) = 1" for a
    using that assms(2) by (intro ld32_cong) blast
  have "inode_count r' bb = inode_count r bb" "inode_length r' (inode_address bb ino) = inode_length r (inode_address bb ino)"
    "\<forall>i < length blks. data_block_num r' (inode_address bb ino) (of_nat i) = data_block_num r (inode_address bb ino) (of_nat i)"
    using assms(1) 4 unfolding inode_count_def inode_length_def data_block_num_def program_file_def by blast+
  then show ?thesis using assms by (simp add: program_file_def file_at_def)
qed

lemma program_file_apart:
  assumes "program_file r bb ino c blks bs" "kernel_mapped s" "page_directory s 32 = program_page n" "n < 6"
  shows "file_apart (xlate Supervisor) s PROGRAM (length bs) bb (inode_address bb ino) c blks (length bs)"
  using assms(1) program_outside [OF assms(2-4)]
  by (simp add: file_apart_def apart_def program_file_def)

lemma load_program:
  fixes s :: "'a fs_state_scheme"
  assumes f: "program_file (ld8 s) bb ino c blks bs" "bs \<noteq> []"
    and k: "kernel_mapped s" "page_directory s 32 = program_page n" "n < 6"
  shows "\<exists>s'. read_data ld8 st8 bb ino 0 PROGRAM (of_nat (length bs)) s = Some (of_nat (length bs), s') \<and>
    mem_stored s PROGRAM bs s'"
proof -
  have len: "length bs \<le> 0x3B8000" using f(1) by (simp add: program_file_def)
  then have u: "unat (of_nat (length bs) :: u32) = length bs" by (intro unat_of_nat_u32) simp
  have fa: "file_at (ld8 s) bb (inode_address bb ino) c blks bs"
    and l: "inode_length (ld8 s) (inode_address bb ino) = Some (of_nat (length bs))"
    using f(1) by (simp_all add: program_file_def)
  have kept: "kmem.kept s PROGRAM (unat (of_nat (length bs) :: u32)) (\<lambda>m. file_at (ld8 m) bb (inode_address bb ino) c blks bs)"
    unfolding u by (rule kmem.kept_file [OF fa program_file_apart [OF f(1) k]])
  have pos: "(0 :: u32) < of_nat (length bs)" using f(2) u by (simp add: word_less_nat_alt)
  have "range_ok (xlate Supervisor) s PROGRAM (length bs)"
    using k len by (intro program_range) (simp_all add: kernel_mapped_def)
  then show ?thesis using kmem.read_data_stored [OF kept l _ pos] f(2) by (simp add: u)
qed

text \<open>The first bytes of the file, in a local array.\<close>

lemma read_header:
  assumes f: "file_at r bb (inode_address bb ino) c blks bs" "inode_length r (inode_address bb ino) = Some (of_nat (length bs))"
    and n: "n \<le> length bs" "0 < n" "length bs < 2 ^ 32" "length xs = n"
  shows "read_data (\<lambda>_. r) sto bb ino 0 0 (of_nat n) xs = Some (of_nat n, take n bs)"
proof -
  have u: "unat (of_nat n :: u32) = n" "unat (of_nat (length bs) :: u32) = length bs"
    using n unat_of_nat_u32 [of n] unat_of_nat_u32 [of "length bs"] by simp_all
  have "(0 :: u32) < of_nat (length bs)" using n u by (simp only: word_less_nat_alt) auto
  moreover have "range_ok obj_cell xs 0 n" using n by (intro obj_range_ok) simp_all
  moreover have "bs \<noteq> []" using n by auto
  ultimately obtain ys where ys: "read_data (\<lambda>_. r) sto bb ino 0 0 (of_nat n) xs = Some (of_nat n, ys)"
    "stored obj_cell ldo length xs 0 (take n bs) ys"
    using obj.read_data_stored [where rd = "\<lambda>_. r" and m = xs and buf = 0 and len = "of_nat n" and i = ino
        and bb = bb and c = c and blks = blks and bs = bs and off = 0] f n u
    by (auto simp: obj.kept_def)
  then have "ys = take n bs" using obj_stored [of xs 0 "take n bs" ys] n by simp
  with ys show ?thesis by simp
qed

section \<open>The entry point\<close>

lemma le_word_sum:
  "(ucast b0 :: u32) + push_bit 8 (ucast b1) + push_bit 16 (ucast b2) + push_bit 24 (ucast b3) = le_word b0 b1 b2 b3"
proof -
  have d1: "(ucast b0 AND push_bit 8 (ucast b1) :: u32) = 0"
    and d2: "((ucast b0 OR push_bit 8 (ucast b1)) AND push_bit 16 (ucast b2) :: u32) = 0"
    and d3: "(((ucast b0 OR push_bit 8 (ucast b1)) OR push_bit 16 (ucast b2)) AND push_bit 24 (ucast b3) :: u32) = 0"
    by (intro bit_word_eqI; auto simp: bit_simps dest: bit_imp_le_length)+
  show ?thesis
    unfolding disjunctive_add_eq_or [OF d1] disjunctive_add_eq_or [OF d2] disjunctive_add_eq_or [OF d3]
    by (simp only: le_word_def or.assoc)
qed

lemma fetch_entry_point_word:
  assumes "28 \<le> length bs"
  shows "fetch_entry_point bs = Some (le_word (bs ! 24) (bs ! 25) (bs ! 26) (bs ! 27))"
proof -
  have "[0..<4 :: nat] = [0, 1, 2, 3]" by (simp add: upt_conv_Cons)
  then show ?thesis
    using assms le_word_sum [of "bs ! 24" "bs ! 25" "bs ! 26" "bs ! 27"] by (simp add: fetch_entry_point_def)
qed

text \<open>The code compares three of the four bytes of the magic number.\<close>

lemma check_magic_ok:
  assumes "3 \<le> length bs" "bs ! 0 = 0x7F" "bs ! 1 = 0x45" "bs ! 2 = 0x4C"
  shows "check_magic bs [0..<3] = Some True"
proof -
  have "[0..<3 :: nat] = [0, 1, 2]" by (simp add: upt_conv_Cons)
  moreover have "bs \<noteq> []" using assms(1) by auto
  ultimately show ?thesis using assms by (simp add: magic_nums_def)
qed

section \<open>A new process\<close>

definition new_table :: "file_desc list" where
  "new_table = [closed_desc\<lparr>fot_ptr := Stdin_fot, flags := 1\<rparr>, closed_desc\<lparr>fot_ptr := Stdout_fot, flags := 1\<rparr>]
     @ replicate 6 closed_desc"

lemma new_table_ok: "table_ok new_table"
proof -
  have "{2..<8 :: nat} = {2, 3, 4, 5, 6, 7}" by auto
  then show ?thesis by (simp add: table_ok_def new_table_def closed_desc_def desc_ok_def)
qed

definition new_pcb :: "'a proc_state_scheme \<Rightarrow> i32 \<Rightarrow> u32 \<Rightarrow> u8 list \<Rightarrow> pcb" where
  "new_pcb s parent par ag = (stack_pcb s)\<lparr>file_descs := new_table, parent_esp := esp s, parent_ebp := ebp s,
     arg := padded 128 ag, arg_size := of_nat (length ag), parent_phys_addr := par,
     term_number := cur_term_num s, parent_pid := parent\<rparr>"

lemma copy_arg:
  assumes "length ag = 128" "length xs = 128"
  shows "memcpy (\<lambda>_. ldo ag) sto 0 0 128 xs = Some ag"
proof -
  have "obj.ready (\<lambda>_. ldo ag) xs 0 0 ag"
    using assms obj_range_ok [of 128 xs] obj.feeds_const [OF obj_bytes_at [of ag]] by (simp add: obj.ready_def)
  then obtain ys where ys: "memcpy (\<lambda>_. ldo ag) sto 0 0 128 xs = Some ys" "stored obj_cell ldo length xs (of_nat 0) ag ys"
    using obj.memcpy_stored [of "\<lambda>_. ldo ag" xs 0 0 ag 128] assms by auto
  then show ?thesis using obj_stored [OF ys(2)] assms by simp
qed

lemma create_pcb_eq:
  fixes s :: "'a proc_state_scheme"
  assumes "length (arg (stack_pcb s)) = 128" "length ag \<le> 128"
  shows "create_pcb p parent par (padded 128 ag) (of_nat (length ag)) s =
    Some (s\<lparr>int_flag := True, pcb_at := (pcb_at s)(get_pcb_loc p := new_pcb s parent par ag)\<rparr>)"
proof -
  have "length (padded 128 ag) = 128" using assms(2) by (simp add: padded_def)
  then have c: "memcpy (\<lambda>_. ldo (padded 128 ag)) sto 0 0 128 (arg (stack_pcb s)) = Some (padded 128 ag)"
    using assms(1) by (rule copy_arg)
  have r: "(replicate 8 closed_desc)[0 := closed_desc\<lparr>fot_ptr := Stdin_fot, flags := 1\<rparr>,
      Suc 0 := closed_desc\<lparr>fot_ptr := Stdout_fot, flags := 1\<rparr>] = new_table"
    by (simp add: new_table_def numeral_eq_Suc)
  show ?thesis
    by (simp add: create_pcb_def Let_def port_defs c get_cur_term_def new_pcb_def) (simp add: r)
qed

section \<open>Starting a program\<close>

lemma xlate_proc_arr [simp]: "xlate pr (s\<lparr>proc_arr := a\<rparr>) = xlate pr s" "ld8 (s\<lparr>proc_arr := a\<rparr>) = ld8 s"
  by (simp_all add: fun_eq_iff xlate_def table_at_def Let_def ld8_def)

lemma find_free_eq:
  "set is \<subseteq> {..<length arr} \<Longrightarrow> find_free arr is =
     Some (case find (\<lambda>i. arr ! i = FREE) is of Some i \<Rightarrow> of_nat i | None \<Rightarrow> -1)"
  by (induction "is") auto

definition lowest_free :: "i32 list \<Rightarrow> nat \<Rightarrow> bool" where
  "lowest_free arr n \<longleftrightarrow> length arr = 6 \<and> n < 6 \<and> arr ! n = FREE \<and> (\<forall>m < n. arr ! m \<noteq> FREE)"

lemma find_free_lowest:
  assumes "lowest_free arr n"
  shows "find_free arr [0..<MAX_PROCESSES] = Some (of_nat n)" "(of_nat n :: u32) \<noteq> -1"
proof -
  have "find (\<lambda>i. arr ! i = FREE) [0..<6] = Some n"
    using assms by (auto simp: lowest_free_def find_Some_iff intro!: exI [of _ n])
  then show "find_free arr [0..<MAX_PROCESSES] = Some (of_nat n)"
    using assms by (subst find_free_eq) (auto simp: lowest_free_def)
  show "(of_nat n :: u32) \<noteq> -1"
  proof
    assume "(of_nat n :: u32) = -1"
    then have "(of_nat (n + 1) :: u32) = of_nat 0" by simp
    moreover have "n + 1 < 2 ^ 32" using assms by (simp add: lowest_free_def)
    ultimately have "n + 1 = 0" by (subst (asm) of_nat_eq_u32_iff) simp_all
    then show False by simp
  qed
qed

text \<open>The file a name stands for, as \<open>sys_execute\<close> looks it up in its local copy of the name.\<close>

lemma padded_cstr: "length nm < 32 \<Longrightarrow> 0 \<notin> set nm \<Longrightarrow> cstr_at (ldo (padded 32 nm)) 0 nm"
proof -
  assume n: "length nm < 32" "0 \<notin> set nm"
  then obtain k where k: "32 - length nm = Suc k" by (metis Suc_diff_Suc)
  have "bytes_at (ldo (padded 32 nm)) 0 (padded 32 nm)" using n by (intro obj_bytes_at) (simp add: padded_def)
  then have "bytes_at (ldo (padded 32 nm)) 0 (nm @ [0])" by (simp add: padded_def k bytes_at_append bytes_at_Cons)
  then show ?thesis using n by (simp add: cstr_at_def)
qed

lemma lookup_program:
  assumes dir: "directory (ld8 s) (boot_block s) es" "length (stack_junk s) = 64"
    and nm: "length nm < 32" "0 \<notin> set nm" "find (\<lambda>e. ename e = nm) es = Some e" "inode_num e = Some ino"
    and f: "inode_length (ld8 s) (inode_address (boot_block s) ino) = Some l"
  shows "\<exists>d. read_dentry_by_name (ldo (padded 32 nm)) 0 (stack_junk s) s = Some (0, d) \<and> inode_num d = Some ino"
    and "get_file_length_by_name (ldo (padded 32 nm)) 0 s = Some l"
proof -
  show d: "\<exists>d. read_dentry_by_name (ldo (padded 32 nm)) 0 (stack_junk s) s = Some (0, d) \<and> inode_num d = Some ino"
    using read_dentry_by_name_find [OF dir padded_cstr [OF nm(1,2)]] nm(3,4) by (auto simp: same_dentry_def)
  then show "get_file_length_by_name (ldo (padded 32 nm)) 0 s = Some l"
    using f by (auto simp: get_file_length_by_name_def)
qed

definition entry_frame :: "u8 list \<Rightarrow> user_frame" where
  "entry_frame bs = \<lparr>user_eip = le_word (bs ! 24) (bs ! 25) (bs ! 26) (bs ! 27), user_cs = USER_CS,
     user_if = True, user_esp = OTE_MB + MB_4 - 5, user_ss = USER_DS\<rparr>"

text \<open>What a process starts from: the state \<open>s'\<close> that runs image \<open>bs\<close> as process \<open>n\<close>.\<close>

definition started :: "nat \<Rightarrow> u8 list \<Rightarrow> u8 list \<Rightarrow> 'a proc_state_scheme \<Rightarrow> 'a proc_state_scheme \<Rightarrow> bool" where
  "started n bs ag s s' \<longleftrightarrow>
     proc_arr s' = (proc_arr s)[n := RUNNING] \<and>
     page_directory s' = (page_directory s)(32 := program_page n) \<and>
     bytes_at (ld8 s') PROGRAM bs \<and>
     (\<forall>a. outside (xlate Supervisor) s' PROGRAM (length bs) a \<longrightarrow> region a \<noteq> 32 \<longrightarrow> ld8 s' a = ld8 s a) \<and>
     pcb_at s' = (pcb_at s)(get_pcb_loc (of_nat n) := new_pcb s (get_process_number s) (page_directory s 32) ag) \<and>
     tss_esp0 s' = kernel_stack_of (of_nat n) \<and> tss_ss0 s' = KERNEL_DS \<and> \<not> int_flag s' \<and>
     esp s' = esp s \<and> ebp s' = ebp s \<and> paging s' = paging s"

lemma sys_execute_starts:
  fixes s :: "'a proc_state_scheme"
  assumes slot: "lowest_free (proc_arr s) n"
    and cmd: "command_at rd command nm ag" "length nm < 32"
    and dir: "directory (ld8 s) (boot_block s) es" "length (stack_junk s) = 64"
      "find (\<lambda>e. ename e = nm) es = Some e" "inode_num e = Some ino"
    and prog: "program_file (ld8 s) (boot_block s) ino c blks bs" "40 \<le> length bs"
      "bs ! 0 = 0x7F" "bs ! 1 = 0x45" "bs ! 2 = 0x4C"
    and km: "kernel_mapped s" and junk: "length (arg (stack_pcb s)) = 128"
  shows "\<exists>s'. sys_execute rd command s = Some (Enter_user (entry_frame bs), s') \<and> started n bs ag s s'"
proof -
  note n = find_free_lowest [OF slot]
  have n6: "n < 6" "length (proc_arr s) = 6" and un: "unat (of_nat n :: u32) = n"
    using slot unat_of_nat_u32 [of n] by (simp_all add: lowest_free_def)
  define s1 where "s1 = s\<lparr>proc_arr := (proc_arr s)[n := RUNNING]\<rparr>"
  have s1: "set_proc (of_nat n) RUNNING s = Some s1" using n6 un by (simp add: set_proc_def s1_def)
  have nm: "0 \<notin> set nm" "length ag \<le> 128" using cmd(1) by (auto simp: command_at_def)
  have fl: "file_at (ld8 s1) (boot_block s1) (inode_address (boot_block s1) ino) c blks bs"
    "inode_length (ld8 s1) (inode_address (boot_block s1) ino) = Some (of_nat (length bs))"
    using prog(1) by (simp_all add: program_file_def s1_def)
  obtain d where d: "read_dentry_by_name (ldo (padded 32 nm)) 0 (stack_junk s1) s1 = Some (0, d)" "inode_num d = Some ino"
    and len: "get_file_length_by_name (ldo (padded 32 nm)) 0 s1 = Some (of_nat (length bs))"
    using lookup_program [of s1 es nm e ino] dir cmd(2) nm(1) fl(2) by (auto simp: s1_def)
  have small: "length bs \<le> 0x3B8000" using prog(1) by (simp add: program_file_def)
  have hd: "read_data (\<lambda>_. ld8 s1) sto (boot_block s1) ino 0 0 40 (take 40 (stack_junk s1)) = Some (40, take 40 bs)"
    using read_header [OF fl, of 40 "take 40 (stack_junk s1)"] prog(2) small dir(2) by (simp add: s1_def)
  define s2 where "s2 = s1\<lparr>page_directory := (page_directory s)(32 := program_page n)\<rparr>"
  have m: "map_program (of_nat n) s1 = (page_directory s 32, s2)" by (simp add: map_program_eq s2_def s1_def)
  have km2: "kernel_mapped s2" "page_directory s2 32 = program_page n"
    using km by (simp_all add: kernel_mapped_def s2_def s1_def)
  have reg1: "ld8 s2 a = ld8 s a" if "region a = 1" for a
    using that kernel_page_xlate [OF km] kernel_page_xlate [OF km2(1)] by (simp add: ld8_def s2_def s1_def)
  have pf: "program_file (ld8 s2) (boot_block s2) ino c blks bs"
    using program_file_cong [OF prog(1) reg1] by (simp add: s2_def s1_def)
  obtain s3 where s3: "read_data ld8 st8 (boot_block s2) ino 0 PROGRAM (of_nat (length bs)) s2 = Some (of_nat (length bs), s3)"
    "mem_stored s2 PROGRAM bs s3"
    using load_program [OF pf _ km2 n6(1)] prog(2) by fastforce
  obtain p where p: "s3 = s2\<lparr>phys := p\<rparr>" using mem_stored_phys [OF s3(2)] by blast
  define s4 where "s4 = s3\<lparr>int_flag := True, pcb_at := (pcb_at s3)(get_pcb_loc (of_nat n) :=
      new_pcb s3 (get_process_number s) (page_directory s 32) ag)\<rparr>"
  have s4: "create_pcb (of_nat n) (get_process_number s) (page_directory s 32) (padded 128 ag) (of_nat (length ag)) s3 = Some s4"
    unfolding s4_def using junk nm(2) by (intro create_pcb_eq) (simp_all add: p s2_def s1_def)
  have ep: "fetch_entry_point (take 40 bs) = Some (le_word (bs ! 24) (bs ! 25) (bs ! 26) (bs ! 27))"
    using fetch_entry_point_word [of "take 40 bs"] prog(2) by simp
  have mg: "check_magic (take 40 bs) [0..<3] = Some True"
    using prog by (intro check_magic_ok) simp_all
  define s5 where "s5 = s4\<lparr>tss_esp0 := kernel_stack_of (of_nat n), tss_ss0 := KERNEL_DS, int_flag := False\<rparr>"
  have "sys_execute rd command s = Some (Enter_user (entry_frame bs), s5)"
    using n s1 parse_command_ok [OF cmd(1)] d len hd mg ep m s3(1) s4
    by (simp add: sys_execute_def Let_def enter_program_def entry_frame_def s5_def port_defs)
  moreover have "started n bs ag s s5"
  proof -
    have x: "xlate Supervisor s5 = xlate Supervisor s2" "ld8 s5 = ld8 s3"
      by (simp_all add: fun_eq_iff ld8_def xlate_def table_at_def Let_def s5_def s4_def p)
    have "ld8 s5 a = ld8 s a" if "outside (xlate Supervisor) s5 PROGRAM (length bs) a" "region a \<noteq> 32" for a
    proof -
      have "ld8 s5 a = ld8 s2 a" using that(1) s3(2) by (simp add: x stored_def outside_def)
      also have "\<dots> = ld8 s a"
        using that(2) by (simp add: ld8_def xlate_def region_def table_at_def Let_def s2_def s1_def)
      finally show ?thesis .
    qed
    moreover have "get_process_number s3 = get_process_number s" "pcb_at s3 = pcb_at s"
      "new_pcb s3 (get_process_number s) (page_directory s 32) ag = new_pcb s (get_process_number s) (page_directory s 32) ag"
      by (simp_all add: p s2_def s1_def get_process_number_def new_pcb_def)
    moreover have "bytes_at (ld8 s5) PROGRAM bs" using s3(2) by (simp add: x stored_def)
    ultimately show ?thesis
      by (simp add: started_def s5_def s4_def) (simp add: p s2_def s1_def)
  qed
  ultimately show ?thesis by blast
qed

section \<open>What is refused\<close>

text \<open>The four reasons to refuse a command that are reached without a store outside the arrays.\<close>

definition no_slot :: "'a proc_state_scheme \<Rightarrow> bool" where
  "no_slot s \<longleftrightarrow> FREE \<notin> set (proc_arr s)"

definition long_argument :: "(u32 \<Rightarrow> u8 option) \<Rightarrow> u32 \<Rightarrow> bool" where
  "long_argument rd command \<longleftrightarrow> (\<exists>nm ag. (\<exists>e \<in> {32, 0}. bytes_at rd command (nm @ e # ag)) \<and>
     32 \<notin> set nm \<and> 0 \<notin> set nm \<and> 0 \<notin> set ag \<and> length nm < 32 \<and> length ag = 129)"

definition no_file :: "(u32 \<Rightarrow> u8 option) \<Rightarrow> u32 \<Rightarrow> 'a proc_state_scheme \<Rightarrow> bool" where
  "no_file rd command s \<longleftrightarrow> (\<exists>nm ag es. command_at rd command nm ag \<and> length nm < 32 \<and>
     directory (ld8 s) (boot_block s) es \<and> length (stack_junk s) = 64 \<and> find (\<lambda>e. ename e = nm) es = None)"

definition no_image :: "(u32 \<Rightarrow> u8 option) \<Rightarrow> u32 \<Rightarrow> 'a proc_state_scheme \<Rightarrow> bool" where
  "no_image rd command s \<longleftrightarrow> (\<exists>nm ag es e ino c blks bs. command_at rd command nm ag \<and> length nm < 32 \<and>
     directory (ld8 s) (boot_block s) es \<and> length (stack_junk s) = 64 \<and>
     find (\<lambda>e. ename e = nm) es = Some e \<and> inode_num e = Some ino \<and>
     file_at (ld8 s) (boot_block s) (inode_address (boot_block s) ino) c blks bs \<and>
     inode_length (ld8 s) (inode_address (boot_block s) ino) = Some (of_nat (length bs)) \<and>
     40 \<le> length bs \<and> length bs < 2 ^ 32 \<and> take 3 bs \<noteq> take 3 magic_nums)"

lemma lowest_free_exists:
  assumes "FREE \<in> set arr" "length arr = 6"
  obtains n where "lowest_free arr n"
proof -
  have "\<exists>i. i < 6 \<and> arr ! i = FREE" using assms by (auto simp: in_set_conv_nth)
  then obtain n where n: "n < 6" "arr ! n = FREE" "\<forall>m < n. \<not> (m < 6 \<and> arr ! m = FREE)"
    unfolding exists_least_iff [of "\<lambda>i. i < 6 \<and> arr ! i = FREE"] by blast
  have "\<forall>m < n. arr ! m \<noteq> FREE"
  proof (intro allI impI)
    fix m assume "m < n"
    with n show "arr ! m \<noteq> FREE" by simp
  qed
  then have "lowest_free arr n" using n assms(2) by (simp add: lowest_free_def)
  then show ?thesis by (rule that)
qed

lemma sys_execute_no_slot:
  assumes "no_slot s" "length (proc_arr s) = 6"
  shows "sys_execute rd command s = Some (Ret (-1), s)"
proof -
  have "find (\<lambda>i. proc_arr s ! i = FREE) [0..<6] = None"
    unfolding find_None_iff
  proof
    assume "\<exists>i. i \<in> set [0..<6] \<and> proc_arr s ! i = FREE"
    then obtain i where "i < length (proc_arr s)" "proc_arr s ! i = FREE" using assms(2) by auto
    then have "FREE \<in> set (proc_arr s)" using nth_mem [of i "proc_arr s"] by simp
    then show False using assms(1) by (simp add: no_slot_def)
  qed
  then have "find_free (proc_arr s) [0..<6] = Some (-1)"
    using assms by (subst find_free_eq) auto
  then show ?thesis by (simp add: sys_execute_def Let_def)
qed

text \<open>With a slot, what is refused in the end leaves the table as it was.\<close>

lemma take_slot:
  fixes s :: "'a proc_state_scheme"
  assumes "lowest_free (proc_arr s) n"
  obtains s1 where "set_proc (of_nat n) RUNNING s = Some s1" "set_proc (of_nat n) FREE s1 = Some s"
    "ld8 s1 = ld8 s" "boot_block s1 = boot_block s" "stack_junk s1 = stack_junk s"
proof -
  have "n < length (proc_arr s)" "unat (of_nat n :: u32) = n" "proc_arr s ! n = FREE"
    using assms unat_of_nat_u32 [of n] by (simp_all add: lowest_free_def)
  moreover from this have "(proc_arr s)[n := RUNNING, n := FREE] = proc_arr s"
    by (metis list_update_id list_update_overwrite)
  ultimately show ?thesis by (intro that [of "s\<lparr>proc_arr := (proc_arr s)[n := RUNNING]\<rparr>"]) (simp_all add: set_proc_def)
qed

lemma parse_arg_long:
  "bytes_at rd (command + i) cs \<Longrightarrow> 0 \<notin> set cs \<Longrightarrow> k + length cs = 129 \<Longrightarrow> k \<le> 128 \<Longrightarrow> length ag = 128 \<Longrightarrow>
     parse_arg rd command i (of_nat k) ag = Some (Inl (-1))"
proof (induction cs arbitrary: i k ag)
  case Nil
  then show ?case by simp
next
  case (Cons c cs)
  show ?case
  proof (cases "k = 128")
    case True
    then show ?thesis using Cons.prems by (subst parse_arg.simps) (simp add: bytes_at_Cons)
  next
    case False
    then have k: "k < 128" using Cons.prems(4) by simp
    then have "\<not> of_nat k > (128 - 1 :: u32)" by (simp add: word_less_nat_alt unat_of_nat_u32)
    moreover have "sto (of_nat k) c ag = Some (ag[k := c])" using Cons.prems k by (intro sto_Some) simp_all
    moreover have "parse_arg rd command (i + 1) (of_nat (Suc k)) (ag[k := c]) = Some (Inl (-1))"
      using Cons.prems k by (intro Cons.IH) (simp_all add: bytes_at_Cons ac_simps)
    ultimately show ?thesis
      using Cons.prems by (subst parse_arg.simps) (simp add: bytes_at_Cons add.commute)
  qed
qed

lemma sys_execute_long_argument:
  fixes s :: "'a proc_state_scheme"
  assumes "lowest_free (proc_arr s) n" "long_argument rd command"
  shows "sys_execute rd command s = Some (Ret (-1), s)"
proof -
  obtain nm ag e where e: "e = 32 \<or> e = 0" "bytes_at rd command (nm @ e # ag)"
    and c: "32 \<notin> set nm" "0 \<notin> set nm" "0 \<notin> set ag" "length nm < 32" "length ag = 129"
    using assms(2) by (auto simp: long_argument_def)
  have b: "bytes_at rd command (nm @ [e])" "bytes_at rd (command + (of_nat (length nm) + 1)) ag"
    using e(2) by (simp_all add: bytes_at_append bytes_at_Cons add.assoc)
  have "parse_name rd command 0 (replicate 32 0) = Some (Inr (of_nat (length nm), padded 32 nm))"
    using parse_name_run [of rd command 0 nm e "replicate 32 0"] b(1) e(1) c by (simp add: padded_def)
  then have "parse_command rd command = Some (Inl (-1))"
    using parse_arg_long [of rd command "of_nat (length nm) + 1" ag 0 "replicate 128 0"] b(2) c
    by (simp add: parse_command_def)
  moreover obtain s1 where "set_proc (of_nat n) RUNNING s = Some s1" "set_proc (of_nat n) FREE s1 = Some s"
    using take_slot [OF assms(1)] .
  ultimately show ?thesis
    using find_free_lowest [OF assms(1)] by (simp add: sys_execute_def Let_def)
qed

lemma sys_execute_no_file:
  fixes s :: "'a proc_state_scheme"
  assumes "lowest_free (proc_arr s) n" "no_file rd command s"
  shows "sys_execute rd command s = Some (Ret (-1), s)"
proof -
  obtain nm ag es where c: "command_at rd command nm ag" "length nm < 32" "find (\<lambda>e. ename e = nm) es = None"
    and dir: "directory (ld8 s) (boot_block s) es" "length (stack_junk s) = 64"
    using assms(2) by (auto simp: no_file_def)
  have "0 \<notin> set nm" using c(1) by (auto simp: command_at_def)
  note nm = padded_cstr [OF c(2) this]
  obtain s1 where s1: "set_proc (of_nat n) RUNNING s = Some s1" "set_proc (of_nat n) FREE s1 = Some s"
    "ld8 s1 = ld8 s" "boot_block s1 = boot_block s" "stack_junk s1 = stack_junk s"
    using take_slot [OF assms(1)] .
  then have "directory (ld8 s1) (boot_block s1) es" using dir(1) by simp
  note lookup = read_dentry_by_name_find [OF this dir(2) nm]
  have "\<exists>d. read_dentry_by_name (ldo (padded 32 nm)) 0 (stack_junk s1) s1 = Some (-1, d)"
    using lookup c(3) s1(5) by simp
  then show ?thesis
    using find_free_lowest [OF assms(1)] s1 parse_command_ok [OF c(1)]
    by (auto simp: sys_execute_def Let_def)
qed

lemma check_magic_bad:
  assumes "3 \<le> length bs" "take 3 bs \<noteq> take 3 magic_nums"
  shows "check_magic bs [0..<3] = Some False"
proof -
  obtain a b c r where bs: "bs = a # b # c # r"
    using assms(1) by (auto simp: numeral_3_eq_3 Suc_le_length_iff)
  have "[0..<3 :: nat] = [0, 1, 2]" by (simp add: upt_conv_Cons)
  then show ?thesis using assms(2) by (auto simp: bs magic_nums_def)
qed

lemma sys_execute_no_image:
  fixes s :: "'a proc_state_scheme"
  assumes "lowest_free (proc_arr s) n" "no_image rd command s"
  shows "sys_execute rd command s = Some (Ret (-1), s)"
proof -
  obtain nm ag es e ino c blks bs where cmd: "command_at rd command nm ag" "length nm < 32"
    and dir: "directory (ld8 s) (boot_block s) es" "length (stack_junk s) = 64"
      "find (\<lambda>e. ename e = nm) es = Some e" "inode_num e = Some ino"
    and f: "file_at (ld8 s) (boot_block s) (inode_address (boot_block s) ino) c blks bs"
      "inode_length (ld8 s) (inode_address (boot_block s) ino) = Some (of_nat (length bs))"
      "40 \<le> length bs" "length bs < 2 ^ 32" "take 3 bs \<noteq> take 3 magic_nums"
    using assms(2) unfolding no_image_def by blast
  obtain s1 where s1: "set_proc (of_nat n) RUNNING s = Some s1" "set_proc (of_nat n) FREE s1 = Some s"
    "ld8 s1 = ld8 s" "boot_block s1 = boot_block s" "stack_junk s1 = stack_junk s"
    using take_slot [OF assms(1)] .
  have nm: "0 \<notin> set nm" using cmd(1) by (auto simp: command_at_def)
  obtain d where d: "read_dentry_by_name (ldo (padded 32 nm)) 0 (stack_junk s1) s1 = Some (0, d)" "inode_num d = Some ino"
    and len: "get_file_length_by_name (ldo (padded 32 nm)) 0 s1 = Some (of_nat (length bs))"
    using lookup_program [of s1 es nm e ino] dir cmd(2) nm f(2) s1 by auto
  have "read_data (\<lambda>_. ld8 s1) sto (boot_block s1) ino 0 0 40 (take 40 (stack_junk s1)) = Some (40, take 40 bs)"
    using read_header [OF f(1,2), of 40 "take 40 (stack_junk s1)"] f(3,4) dir(2) s1 by simp
  moreover have "check_magic (take 40 bs) [0..<3] = Some False"
    using f(3,5) by (intro check_magic_bad) (simp_all add: min_def)
  ultimately show ?thesis
    using find_free_lowest [OF assms(1)] s1 parse_command_ok [OF cmd(1)] d len
    by (simp add: sys_execute_def Let_def)
qed

section \<open>Closing everything\<close>

definition clock_open :: "file_desc \<Rightarrow> bool" where
  "clock_open d \<longleftrightarrow> flags d = 1 \<and> fot_ptr d = Rtc_fot"

text \<open>At most one descriptor is on the clock, and then the driver knows it is open.\<close>

definition closable :: "'a proc_state_scheme \<Rightarrow> bool" where
  "closable s \<longleftrightarrow> table_ok (own_table s) \<and>
     (\<forall>i \<in> {2..<8}. clock_open (own_table s ! i) \<longrightarrow> rtc_opened s \<noteq> 0 \<and>
       (\<forall>j \<in> {2..<8}. clock_open (own_table s ! j) \<longrightarrow> j = i))"

lemma close_one:
  fixes s :: "'a proc_state_scheme"
  assumes i: "i \<in> {2..<8}" and c: "closable s"
  shows "\<exists>v s'. sys_close (of_nat i) s = Some (v, s') \<and> closable s' \<and> undisturbed s s' \<and> ld8 s' = ld8 s \<and>
    own_table s' = (own_table s)[i := (own_table s ! i)\<lparr>flags := 0\<rparr>]"
proof -
  let ?d = "own_table s ! i"
  have len: "length (own_table s) = 8" and i8: "i < 8" and ok: "desc_ok ?d"
    using c i by (auto simp: closable_def table_ok_def)
  have u: "unat (of_nat i :: u32) = i" using i8 by (intro unat_of_nat_u32) simp
  have r: "\<not> of_nat i <s (0 :: i32)" "\<not> 8 \<le>s (of_nat i :: i32)"
    using i8 by (simp_all add: word_sless_alt word_sle_eq sint_of_nat_u32)
  have g: "get_desc (own_loc s) (of_nat i) s = Some ?d" using len i8 u by (simp add: get_desc_own)
  have same: "own_table s = (own_table s)[i := ?d\<lparr>flags := 0\<rparr>]" if "flags ?d = 0"
  proof -
    have "?d\<lparr>flags := 0\<rparr> = ?d" using that by (cases ?d) simp
    then show ?thesis by simp
  qed
  show ?thesis
  proof (cases "flags ?d = 0")
    case True
    then have "sys_close (of_nat i) s = Some (-1, s)" using g r by (simp add: sys_close_def Let_def)
    then show ?thesis using same [OF True] c calm.eff_refl by auto
  next
    case False
    then have f: "flags ?d = 1" "fot_ptr ?d \<in> {File_fot, Rtc_fot, Dir_fot}" using ok by (auto simp: desc_ok_def)
    define s1 where "s1 = (if fot_ptr ?d = Rtc_fot then s\<lparr>rtc_opened := 0\<rparr> else s)"
    have "fot_ptr ?d = Rtc_fot \<Longrightarrow> rtc_opened s \<noteq> 0" using c i f by (auto simp: closable_def clock_open_def)
    then have s1: "fot_close (fot_ptr ?d) s = Some (0, s1)"
      using f(2) by (auto simp: s1_def rtc_close_def fclose_def dir_close_def)
    note own = driver_own [OF fot_close_kept [OF s1]]
    have g1: "get_desc (own_loc s) (of_nat i) s1 = Some ?d"
      using get_desc_own [of s1 "of_nat i" ?d] own len i8 u by simp
    obtain s2 where s2: "set_desc (own_loc s) (of_nat i) (?d\<lparr>flags := 0\<rparr>) s1 = Some s2"
      "s2 = s1\<lparr>pcb_at := (pcb_at s1)(own_loc s := (pcb_at s1 (own_loc s))\<lparr>file_descs := (own_table s)[i := ?d\<lparr>flags := 0\<rparr>]\<rparr>)\<rparr>"
      using i8 len own set_desc_Some [of i s1 "own_loc s" "?d\<lparr>flags := 0\<rparr>"] by (simp add: own_table_def)
    note own2 = set_desc_own [of s1 "of_nat i" _ s2, unfolded own u, OF s2(1)]
    have "sys_close (of_nat i) s = Some (0, s2)"
      using g r f(1) s1 g1 s2(1) by (simp add: sys_close_def Let_def)
    moreover have "undisturbed s s2"
      using own2(1) driver_serving [OF fot_close_kept [OF s1]] calm.eff_trans by (auto simp: serving_def)
    moreover have "ld8 s2 = ld8 s"
      by (simp add: fun_eq_iff ld8_def xlate_def table_at_def Let_def s2(2) s1_def)
    moreover have "closable s2"
    proof -
      have "table_ok (own_table s2)"
        using c i unfolding own2(2) by (intro table_ok_update) (auto simp: closable_def desc_ok_def)
      moreover have "rtc_opened s2 = (if fot_ptr ?d = Rtc_fot then 0 else rtc_opened s)"
        by (simp add: s2(2) s1_def)
      moreover have "j \<noteq> i \<and> clock_open (own_table s ! j)" if "clock_open (own_table s2 ! j)" "j < 8" for j
        using that len i8 by (auto simp: own2(2) clock_open_def nth_list_update split: if_splits)
      moreover have "\<not> clock_open ?d" if "j \<in> {2..<8}" "j \<noteq> i" "clock_open (own_table s ! j)" for j
        using c i that unfolding closable_def by blast
      then have "fot_ptr ?d \<noteq> Rtc_fot" if "j \<in> {2..<8}" "j \<noteq> i" "clock_open (own_table s ! j)" for j
        using that f(1) unfolding clock_open_def by blast
      ultimately show ?thesis
        using c unfolding closable_def by (metis atLeastLessThan_iff)
    qed
    ultimately show ?thesis using own2(2) by blast
  qed
qed

lemma close_all:
  fixes s :: "'a proc_state_scheme"
  assumes "closable s" "set is \<subseteq> {2..<8}"
  shows "\<exists>s'. for_each (\<lambda>i s. do { (_, s) \<leftarrow> sys_close (of_nat i) s; Some s }) is s = Some s' \<and>
    undisturbed s s' \<and> ld8 s' = ld8 s \<and> (\<forall>i \<in> {2..<8}. i \<in> set is \<or> flags (own_table s ! i) = 0 \<longrightarrow> flags (own_table s' ! i) = 0)"
  using assms
proof (induction "is" arbitrary: s)
  case Nil
  then show ?case by (simp add: calm.eff_refl)
next
  case (Cons i "is")
  then obtain v s1 where s1: "sys_close (of_nat i) s = Some (v, s1)" "closable s1" "undisturbed s s1" "ld8 s1 = ld8 s"
    "own_table s1 = (own_table s)[i := (own_table s ! i)\<lparr>flags := 0\<rparr>]"
    using close_one [of i s] by auto
  obtain s2 where s2: "for_each (\<lambda>i s. do { (_, s) \<leftarrow> sys_close (of_nat i) s; Some s }) is s1 = Some s2"
    "undisturbed s1 s2" "ld8 s2 = ld8 s1"
    "\<forall>j \<in> {2..<8}. j \<in> set is \<or> flags (own_table s1 ! j) = 0 \<longrightarrow> flags (own_table s2 ! j) = 0"
    using Cons.IH [OF s1(2)] Cons.prems(2) by auto
  have "length (own_table s) = 8" using Cons.prems(1) by (simp add: closable_def table_ok_def)
  moreover have "i < 8" using Cons.prems(2) by simp
  ultimately have "flags (own_table s1 ! j) = 0" if "j = i \<or> flags (own_table s ! j) = 0" "j < 8" for j
    using that by (auto simp: s1(5) nth_list_update)
  then show ?case using s1 s2 calm.eff_trans [OF s1(3) s2(2)] by auto
qed

section \<open>Ending a program\<close>

text \<open>What \<open>sys_halt\<close> leaves behind when process \<open>n\<close> with block \<open>p\<close> ends in state \<open>s\<close>.\<close>

definition ended :: "nat \<Rightarrow> pcb \<Rightarrow> 'a proc_state_scheme \<Rightarrow> 'a proc_state_scheme \<Rightarrow> bool" where
  "ended n p s s' \<longleftrightarrow>
     proc_arr s' = (proc_arr s)[n := FREE] \<and>
     page_directory s' = (page_directory s)(32 := parent_phys_addr p) \<and>
     tss_esp0 s' = kernel_stack_of (parent_pid p) \<and> esp s' = parent_ebp p + 8 \<and> \<not> int_flag s' \<and>
     (\<forall>l. l \<noteq> get_pcb_loc (of_nat n) \<longrightarrow> pcb_at s' l = pcb_at s l) \<and>
     (\<forall>i \<in> {2..<8}. flags (file_descs (pcb_at s' (get_pcb_loc (of_nat n))) ! i) = 0)"

lemma pcb_but_descs:
  assumes "p\<lparr>file_descs := []\<rparr> = q\<lparr>file_descs := []\<rparr>"
  shows "parent_pid p = parent_pid q" "parent_phys_addr p = parent_phys_addr q"
    "parent_esp p = parent_esp q" "parent_ebp p = parent_ebp q" "term_number p = term_number q"
  using assms by (cases p; cases q; simp)+

lemma sys_halt_ends:
  fixes s :: "'a proc_state_scheme"
  assumes n: "get_process_number s = of_nat n" "0 < n" "n < 6" "length (proc_arr s) = 6"
    and p: "pcb_at s (own_loc s) = p" and c: "closable s" and km: "kernel_mapped s"
    and stack: "\<forall>j < 8. region (parent_ebp p + of_nat j) = 1"
      "ld32 (ld8 s) (parent_ebp p) = Some old_ebp" "ld32 (ld8 s) (parent_ebp p + 4) = Some eip"
  shows "\<exists>s'. sys_halt st s = Some (Resume eip (ucast st), s') \<and> ended n p s s' \<and> ebp s' = old_ebp"
proof -
  have un: "unat (of_nat n :: u32) = n" "(of_nat n :: u32) \<noteq> 0"
    using n unat_of_nat_u32 [of n] by (auto simp: word_unat_eq_iff)
  obtain s1 where s1: "for_each (\<lambda>i s. do { (_, s) \<leftarrow> sys_close (of_nat i) s; Some s }) [2..<8] s = Some s1"
    "undisturbed s s1" "ld8 s1 = ld8 s" "\<forall>i \<in> {2..<8}. flags (own_table s1 ! i) = 0"
    using close_all [OF c, of "[2..<8]"] by auto
  define p1 where "p1 = pcb_at s1 (own_loc s)"
  have "p1\<lparr>file_descs := []\<rparr> = p\<lparr>file_descs := []\<rparr>" using s1(2) p by (simp add: undisturbed_def p1_def)
  then have p1: "parent_pid p1 = parent_pid p" "parent_phys_addr p1 = parent_phys_addr p"
    "parent_esp p1 = parent_esp p" "parent_ebp p1 = parent_ebp p"
    by (rule pcb_but_descs)+
  have e: "proc_arr s1 = proc_arr s" "page_directory s1 = page_directory s" "own_loc s1 = own_loc s"
    "paging s1 = paging s"
    using s1(2) undisturbed_own_loc [OF s1(2)] by (simp_all add: undisturbed_def)
  define s2 where "s2 = s1\<lparr>tss_esp0 := kernel_stack_of (parent_pid p),
    page_directory := (page_directory s1)(32 := parent_phys_addr p), proc_arr := (proc_arr s)[n := FREE],
    int_flag := False, esp := parent_esp p, ebp := parent_ebp p\<rparr>"
  have "ld8 s2 a = ld8 s a" if "region a = 1" for a
  proof -
    have "kernel_mapped s1" "kernel_mapped s2" using km e by (simp_all add: kernel_mapped_def s2_def)
    then have "xlate Supervisor s1 a = Some a" "xlate Supervisor s2 a = Some a"
      using that by (auto intro: kernel_page_xlate)
    moreover have "phys s2 = phys s1" by (simp add: s2_def)
    ultimately have "ld8 s2 a = ld8 s1 a" by (simp add: ld8_def)
    then show ?thesis by (simp add: s1(3))
  qed
  then have in_frame: "ld8 s2 (parent_ebp p + of_nat i) = ld8 s (parent_ebp p + of_nat i)"
      "ld8 s2 (parent_ebp p + 4 + of_nat i) = ld8 s (parent_ebp p + 4 + of_nat i)" if "i < 4" for i
    using stack(1) [rule_format, of i] stack(1) [rule_format, of "4 + i"] that by (simp_all add: add.assoc)
  then have fr: "ld32 (ld8 s2) (parent_ebp p) = Some old_ebp" "ld32 (ld8 s2) (parent_ebp p + 4) = Some eip"
    using stack(2,3) ld32_cong [of "ld8 s2" "parent_ebp p" "ld8 s"] ld32_cong [of "ld8 s2" "parent_ebp p + 4" "ld8 s"]
      in_frame by simp_all
  define s3 where "s3 = s2\<lparr>esp := parent_ebp p + 8, ebp := old_ebp\<rparr>"
  have "sys_halt st s = Some (Resume eip (ucast st), s3)"
    using n un s1(1) fr
    by (simp add: sys_halt_def Let_def program_entry_index set_proc_def s3_def s2_def e port_defs
        p1 [unfolded p1_def n(1)])
  moreover have "ended n p s s3"
    using s1(2,4) n(1) e by (auto simp: ended_def s3_def s2_def undisturbed_def own_table_def)
  ultimately show ?thesis by (auto simp: s3_def)
qed

section \<open>The demonstration program\<close>

lemma kernel_region: "0x400000 \<le> m \<Longrightarrow> m < 0x800000 \<Longrightarrow> region (of_nat m) = 1"
proof -
  assume m: "0x400000 \<le> m" "m < 0x800000"
  then have "m div 2 ^ 22 = 1" by (intro div_nat_eqI) simp_all
  then show ?thesis using small_address(1) [of m] m by simp
qed

lemma demo_program_file: "program_file (ld8 demo_proc) (boot_block demo_proc) 0 1 [0] demo_elf"
proof -
  have "length demo_elf = 40" by (simp add: demo_elf_def)
  moreover have "region (0x500004 + of_nat j) = 1" "region (0x501000 + of_nat j) = 1"
    "region (0x501004 + of_nat j) = 1" if "j < 4" for j
    using that kernel_region [of "0x500004 + j"] kernel_region [of "0x501000 + j"] kernel_region [of "0x501004 + j"]
    by simp_all
  moreover have "region (block_byte 0x500000 1 [0] k) = 1" if "k < 40" for k
    using that kernel_region [of "0x502000 + k"] by (simp add: block_byte_def)
  ultimately show ?thesis using sys_file by (simp add: program_file_def inode_address_def)
qed

lemma demo_kernel_mapped: "kernel_mapped demo_proc"
  by (simp add: kernel_mapped_def demo_proc_def kbd_state.defs demo_kbd_def tty_state.defs demo_tty_def
      initialize_page_eq)

lemma demo_command: "command_at (ldo [115, 104, 32, 97, 0]) 0 [115, 104] [97]"
  using obj_bytes_at [of "[115, 104, 32, 97, 0]"] by (simp add: command_at_def)

lemma demo_lowest_free: "lowest_free (proc_arr demo_proc) 2"
  by (auto simp: lowest_free_def less_Suc_eq numeral_2_eq_2)

section \<open>What starting and ending promise\<close>

text \<open>
  C11. The kernel stacks: below 8 MB each of the six processes has 8 KB of its own, the control
  block at the lower end, the stack at the upper; the areas do not overlap and lie in the
  kernel's page, and wherever the stack pointer is in the stack of a process,
  \<open>get_process_number\<close> answers that process.
\<close>

theorem kernel_stacks:
  fixes s :: "'a proc_state_scheme"
  assumes "m < 6" "n < 6"
  shows "(m \<noteq> n \<longrightarrow> kernel_area m \<inter> kernel_area n = {}) \<and> (\<forall>a \<in> kernel_area n. region a = 1) \<and>
    get_pcb_loc (of_nat n) \<in> kernel_area n \<and>
    (\<forall>k < 8190. kernel_stack_of (of_nat n) - of_nat k \<in> kernel_area n \<and>
      (esp s = kernel_stack_of (of_nat n) - of_nat k \<longrightarrow> get_process_number s = of_nat n))"
proof -
  have "kernel_area m \<inter> kernel_area n = {}" if d: "m \<noteq> n"
  proof -
    consider "m + 1 \<le> n" | "n + 1 \<le> m" using d by linarith
    then show ?thesis by cases (use assms in \<open>auto simp: kernel_area_nat\<close>)
  qed
  moreover have "get_pcb_loc (of_nat n) \<in> kernel_area n" by (simp add: kernel_area_def)
  ultimately show ?thesis
    using kernel_area_region [OF assms(2)] kernel_stack_in_area [OF assms(2)] process_number_on_stack [OF assms(2)]
    by blast
qed

theorem kernel_stacks_witness:
  "kernel_area 1 \<inter> kernel_area 2 = {} \<and> get_process_number demo_proc = 1"
proof -
  have "esp demo_proc = kernel_stack_of (of_nat 1) - of_nat 255" by (simp add: kernel_stack_of_def)
  moreover have "(2 :: nat) < 6" "(1 :: nat) < 6" "(255 :: nat) < 8190" by simp_all
  note k = kernel_stacks [OF this(1,2), of demo_proc] and k' = this(3)
  ultimately have "get_process_number demo_proc = of_nat 1"
    using k [THEN conjunct2, THEN conjunct2, THEN conjunct2, rule_format, OF k'] by blast
  then show ?thesis using k by auto
qed

text \<open>
  C5. With no slot free, with an argument of more than 128 characters, with a name that the
  directory does not hold, and with a file of at least 40 bytes that does not begin with the
  three bytes of the magic number the code compares, \<open>sys_execute\<close> answers -1 and the state is
  as before: the slot it took is given back. Names have at most 31 characters here; one of 33 or
  more is written past its array before the code checks the length.
\<close>

theorem execute_refused_no_trace:
  fixes s :: "'a proc_state_scheme"
  assumes "length (proc_arr s) = 6"
    and "no_slot s \<or> long_argument rd command \<or> no_file rd command s \<or> no_image rd command s"
  shows "sys_execute rd command s = Some (Ret (-1), s)"
proof -
  consider "no_slot s" | n where "lowest_free (proc_arr s) n"
    "long_argument rd command \<or> no_file rd command s \<or> no_image rd command s"
    using assms lowest_free_exists by (auto simp: no_slot_def)
  then show ?thesis
  proof cases
    case 1
    then show ?thesis using assms(1) by (rule sys_execute_no_slot)
  next
    case 2
    then show ?thesis
      using sys_execute_long_argument sys_execute_no_file sys_execute_no_image by metis
  qed
qed

theorem execute_refused_no_trace_witness:
  "sys_execute (ldo [115, 104, 32, 97, 0]) 0 (demo_proc\<lparr>proc_arr := replicate 6 RUNNING\<rparr>) =
       Some (Ret (-1), demo_proc\<lparr>proc_arr := replicate 6 RUNNING\<rparr>) \<and>
     sys_execute (ldo ([115, 104, 32] @ replicate 129 97)) 0 demo_proc = Some (Ret (-1), demo_proc) \<and>
     sys_execute (ldo [115, 32, 97, 0]) 0 demo_proc = Some (Ret (-1), demo_proc)"
proof (intro conjI)
  show "sys_execute (ldo [115, 104, 32, 97, 0]) 0 (demo_proc\<lparr>proc_arr := replicate 6 RUNNING\<rparr>) =
       Some (Ret (-1), demo_proc\<lparr>proc_arr := replicate 6 RUNNING\<rparr>)"
    by (rule execute_refused_no_trace) (simp_all add: no_slot_def)
  have "long_argument (ldo ([115, 104, 32] @ replicate 129 97)) 0"
    using obj_bytes_at [of "[115, 104, 32] @ replicate 129 97"]
    unfolding long_argument_def by (intro exI [of _ "[115, 104]"] exI [of _ "replicate 129 97"] conjI bexI [of _ 32]) simp_all
  then show "sys_execute (ldo ([115, 104, 32] @ replicate 129 97)) 0 demo_proc = Some (Ret (-1), demo_proc)"
    by (intro execute_refused_no_trace) simp_all
  have "command_at (ldo [115, 32, 97, 0]) 0 [115] [97]"
    using obj_bytes_at [of "[115, 32, 97, 0]"] by (simp add: command_at_def)
  then have "no_file (ldo [115, 32, 97, 0]) 0 demo_proc"
    unfolding no_file_def using sys_directory
    by (intro exI [of _ "[115]"] exI [of _ "[97]"] exI [of _ "[demo_entry [46] 1 0, demo_entry [115, 104] 2 0]"] conjI)
      (simp_all add: demo_entry_fields)
  then show "sys_execute (ldo [115, 32, 97, 0]) 0 demo_proc = Some (Ret (-1), demo_proc)"
    by (intro execute_refused_no_trace) simp_all
qed

text \<open>
  C3. \<open>sys_execute\<close> of a program in the file system, with a slot free: it takes the lowest free
  slot \<open>n\<close>, maps the \<open>n\<close>-th 4 MB above 8 MB at 128 MB, loads the whole file at \<open>0x08048000\<close>,
  changes no other memory outside that page, gives the process a fresh control block with the
  terminal on descriptors 0 and 1 and the caller's stack, page and number to return to, points
  the task state segment at the stack of \<open>n\<close>, and enters user mode at the entry point the
  file's bytes 24 to 27 name.
\<close>

theorem execute_starts_program:
  fixes s :: "'a proc_state_scheme"
  assumes "lowest_free (proc_arr s) n" "command_at rd command nm ag" "length nm < 32"
    and "directory (ld8 s) (boot_block s) es" "length (stack_junk s) = 64"
      "find (\<lambda>e. ename e = nm) es = Some e" "inode_num e = Some ino"
    and "program_file (ld8 s) (boot_block s) ino c blks bs" "40 \<le> length bs"
      "bs ! 0 = 0x7F" "bs ! 1 = 0x45" "bs ! 2 = 0x4C"
    and "kernel_mapped s" "length (arg (stack_pcb s)) = 128"
  shows "\<exists>s'. sys_execute rd command s = Some (Enter_user (entry_frame bs), s') \<and> started n bs ag s s'"
  using assms by (rule sys_execute_starts)

theorem execute_starts_program_witness:
  "\<exists>f s'. sys_execute (ldo [115, 104, 32, 97, 0]) 0 demo_proc = Some (Enter_user f, s') \<and>
     user_eip f = 0x08048010 \<and> started 2 demo_elf [97] demo_proc s'"
proof -
  have "\<exists>s'. sys_execute (ldo [115, 104, 32, 97, 0]) 0 demo_proc = Some (Enter_user (entry_frame demo_elf), s') \<and>
     started 2 demo_elf [97] demo_proc s'"
    by (rule execute_starts_program [OF demo_lowest_free demo_command _ sys_directory _ _ _ demo_program_file _ _ _ _
          demo_kernel_mapped, of "demo_entry [115, 104] 2 0"])
      (simp_all add: demo_entry_fields demo_elf_def demo_pcb_def)
  moreover have "user_eip (entry_frame demo_elf) = 0x08048010"
    by (simp add: entry_frame_def demo_elf_def le_word_def nth_append)
  ultimately show ?thesis by blast
qed

text \<open>
  C4. A program that was started by \<open>sys_execute\<close>, has since left the rest of the machine as it
  was (\<open>undisturbed\<close>), and calls \<open>sys_halt\<close>, takes the machine back to its parent: the process table and the
  page directory are what they were before \<open>sys_execute\<close>, the task state segment is the
  parent's, all descriptors are closed, and execution goes on behind the parent's call with the
  status, zero-extended, as its value.
\<close>

theorem execute_halt:
  fixes s :: "'a proc_state_scheme"
  assumes "lowest_free (proc_arr s) n" "0 < n" "started n bs ag s s1"
    and "kernel_mapped s" "k < 8190" "undisturbed (s1\<lparr>esp := kernel_stack_of (of_nat n) - of_nat k, ebp := b\<rparr>) t"
    and "closable t" "\<forall>j < 8. region (ebp s + of_nat j) = 1"
      "ld32 (ld8 t) (ebp s) = Some old_ebp" "ld32 (ld8 t) (ebp s + 4) = Some eip"
  shows "\<exists>t'. sys_halt st t = Some (Resume eip (ucast st), t') \<and>
    proc_arr t' = proc_arr s \<and> page_directory t' = page_directory s \<and>
    tss_esp0 t' = kernel_stack_of (get_process_number s) \<and> esp t' = ebp s + 8 \<and> ebp t' = old_ebp \<and>
    (\<forall>i \<in> {2..<8}. flags (file_descs (pcb_at t' (get_pcb_loc (of_nat n))) ! i) = 0)"
proof -
  let ?c = "s1\<lparr>esp := kernel_stack_of (of_nat n) - of_nat k, ebp := b\<rparr>"
  let ?p = "new_pcb s (get_process_number s) (page_directory s 32) ag"
  have n6: "n < 6" "length (proc_arr s) = 6" "proc_arr s ! n = FREE" using assms(1) by (simp_all add: lowest_free_def)
  have c: "get_process_number ?c = of_nat n" using n6(1) assms(5) by (intro process_number_on_stack) simp_all
  have t: "proc_arr t = (proc_arr s)[n := RUNNING]" "page_directory t = (page_directory s)(32 := program_page n)"
    "paging t = paging s" "own_loc t = own_loc ?c"
    using assms(3,6) undisturbed_own_loc [OF assms(6)] by (simp_all add: undisturbed_def started_def)
  have num: "get_process_number t = of_nat n"
    using assms(6) c by (simp add: undisturbed_def get_process_number_def)
  have "(pcb_at t (own_loc t))\<lparr>file_descs := []\<rparr> = ?p\<lparr>file_descs := []\<rparr>"
    using assms(3,6) c t(4) by (simp add: undisturbed_def started_def)
  note q = pcb_but_descs [OF this]
  have p: "parent_pid (pcb_at t (own_loc t)) = get_process_number s"
    "parent_phys_addr (pcb_at t (own_loc t)) = page_directory s 32" "parent_ebp (pcb_at t (own_loc t)) = ebp s"
    using q by (simp_all add: new_pcb_def)
  have "kernel_mapped t" using assms(4) t by (simp add: kernel_mapped_def)
  then obtain t' where t': "sys_halt st t = Some (Resume eip (ucast st), t')" "ended n (pcb_at t (own_loc t)) t t'"
    "ebp t' = old_ebp"
    using sys_halt_ends [OF num assms(2) n6(1) _ refl assms(7), of old_ebp eip st] assms(8-10) p t(1) n6(2) by auto
  moreover have "(proc_arr s)[n := RUNNING, n := FREE] = proc_arr s"
    using n6(3) by (metis list_update_id list_update_overwrite)
  moreover have "((page_directory s)(32 := program_page n))(32 := page_directory s 32) = page_directory s" by simp
  ultimately show ?thesis by (simp add: ended_def p t(1,2))
qed

theorem execute_halt_witness:
  "\<exists>s1 t'. sys_halt 7 (s1\<lparr>esp := 0x7FBF00, ebp := 0\<rparr>) = Some (Resume 0 7, t') \<and>
     started 2 demo_elf [97] demo_proc s1 \<and> proc_arr t' = [1, 1, 0, 0, 0, 0] \<and>
     page_directory t' = page_directory demo_proc \<and> tss_esp0 t' = 0x7FDFFF"
proof -
  obtain s1 where s1: "started 2 demo_elf [97] demo_proc s1"
    using sys_execute_starts [OF demo_lowest_free demo_command _ sys_directory _ _ _ demo_program_file _ _ _ _
        demo_kernel_mapped, of "demo_entry [115, 104] 2 0"]
    by (auto simp: demo_entry_fields demo_elf_def demo_pcb_def)
  let ?t = "s1\<lparr>esp := kernel_stack_of (of_nat 2) - of_nat 255, ebp := 0\<rparr>"
  have num: "get_process_number ?t = 2"
    using process_number_on_stack [of 2 255 ?t] by simp
  have "own_table ?t = new_table"
    using s1 num by (simp add: own_table_def started_def new_pcb_def)
  moreover have "\<not> clock_open (new_table ! i)" if "i \<in> {2..<8}" for i
  proof -
    have "{2..<8 :: nat} = {2, 3, 4, 5, 6, 7}" by auto
    with that show ?thesis by (auto simp: clock_open_def new_table_def closed_desc_def)
  qed
  ultimately have c: "closable ?t" using new_table_ok by (simp add: closable_def)
  have st: "page_directory s1 = (page_directory demo_proc)(32 := program_page 2)" "paging s1"
    and same: "\<forall>a. outside (xlate Supervisor) s1 PROGRAM (length demo_elf) a \<longrightarrow> region a \<noteq> 32 \<longrightarrow> ld8 s1 a = ld8 demo_proc a"
    using s1 demo_kernel_mapped by (simp_all add: started_def kernel_mapped_def)
  have z: "ld8 ?t a = Some (image_bytes sys_image a)" if "region a = 1" for a
  proof -
    have "outside (xlate Supervisor) s1 PROGRAM (length demo_elf) a"
      using st demo_kernel_mapped that
      by (intro program_outside [where n = 2]) (simp_all add: kernel_mapped_def demo_elf_def)
    then have "ld8 s1 a = Some (image_bytes sys_image a)"
      using same that by (simp add: ld8_def demo_proc_xlate)
    moreover have "ld8 ?t = ld8 s1"
      by (simp add: fun_eq_iff ld8_def xlate_def table_at_def Let_def)
    ultimately show ?thesis by simp
  qed
  have reg: "region (0x7FDF20 + of_nat j) = 1" if "j < 8" for j
    using that kernel_region [of "0x7FDF20 + j"] by simp
  have zero: "image_bytes sys_image (0x7FDF20 + of_nat j) = 0" if "j < 8" for j
  proof -
    have "j \<in> {0, 1, 2, 3, 4, 5, 6, 7}" using that by auto
    then show ?thesis
      by (elim insertE emptyE) (simp_all add: image_bytes_def sys_image_def demo_entry_def demo_elf_def)
  qed
  have "bytes_at (ld8 ?t) 0x7FDF20 (le_bytes 0 @ le_bytes 0)"
    unfolding bytes_at_def
  proof (intro allI impI)
    fix j assume "j < length (le_bytes 0 @ le_bytes 0)"
    then have j: "j < 8" by simp
    have "(le_bytes 0 @ le_bytes 0) ! j = 0"
    proof -
      have "le_bytes 0 @ le_bytes 0 = replicate 8 0" by (simp add: le_bytes_def numeral_eq_Suc)
      then show ?thesis using j by simp
    qed
    then show "ld8 ?t (0x7FDF20 + of_nat j) = Some ((le_bytes 0 @ le_bytes 0) ! j)"
      using z [OF reg [OF j]] zero [OF j] by simp
  qed
  then have fr: "ld32 (ld8 ?t) 0x7FDF20 = Some 0" "ld32 (ld8 ?t) 0x7FDF24 = Some 0"
    by (simp_all add: bytes_at_append ld32_bytes_at)
  have "\<exists>t'. sys_halt 7 ?t = Some (Resume 0 (ucast (7 :: u8)), t') \<and>
    proc_arr t' = proc_arr demo_proc \<and> page_directory t' = page_directory demo_proc \<and>
    tss_esp0 t' = kernel_stack_of (get_process_number demo_proc) \<and> esp t' = ebp demo_proc + 8 \<and> ebp t' = 0 \<and>
    (\<forall>i \<in> {2..<8}. flags (file_descs (pcb_at t' (get_pcb_loc (of_nat 2))) ! i) = 0)"
    by (rule execute_halt [OF demo_lowest_free _ s1 demo_kernel_mapped _ calm.eff_refl c])
      (use fr reg in simp_all)
  then show ?thesis using s1 by (auto simp: demo_proc_loc kernel_stack_of_def)
qed

end
