(* ===== verification/Scheduler.thy ===== *)
theory Scheduler
  imports Execution
begin

text \<open>
  The scheduler \<open>task_switch.c\<close>. On every tick of the PIT the three terminals take turns: the
  stack pointers and the program page of the interrupted process are saved for its terminal,
  those of the next terminal are loaded. The first two ticks start the shells of terminals 1
  and 2. \<open>get_next_proc\<close> holds both sides of an unresolved merge; the side is a parameter.
\<close>

section \<open>State\<close>

abbreviation (input) "PIT_DATA \<equiv> (0x43 :: u16)"
abbreviation (input) "NUM_TERMS \<equiv> (3 :: i32)"

record sched_t =
  sched_esp :: u32
  sched_ebp :: u32
  ote_mb :: u32

text \<open>\<open>shell_at\<close> is where the linker puts the string \<open>"shell"\<close>.\<close>

record sched_state = proc_state +
  shells_running :: "u8 list"
  sched_arr_init :: u8
  sched_arr :: "sched_t list"
  temp_sched :: sched_t
  shell_at :: u32

text \<open>How the handler is left: behind the interrupt of another process, or into a new program.\<close>

datatype switch = Switched | Entered user_frame

section \<open>task_switch.c\<close>

definition init_pit :: "'a tty_state_scheme \<Rightarrow> 'a tty_state_scheme option" where
  "init_pit s =
     (let s = outb 0x00 PIT_DATA s;
          s = set_gate 0x20 (handler_at s pit_linker) s
      in puts_lit ''PIT initialized.\<newline>'' s)"

datatype merge_side = HEAD | f21547c

primrec pick_child :: "(u32 \<Rightarrow> pcb) \<Rightarrow> i32 list \<Rightarrow> nat list \<Rightarrow> i32 \<Rightarrow> i32 option" where
  "pick_child pcbs arr [] next_proc_num = Some next_proc_num"
| "pick_child pcbs arr (proc_it # is) next_proc_num = do {
     v \<leftarrow> arr_get arr proc_it;
     pick_child pcbs arr is
       (if v \<noteq> FREE \<and> ucast (term_number (pcbs (get_pcb_loc (of_nat proc_it)))) = next_proc_num
        then of_nat proc_it else next_proc_num)
   }"

definition get_next_proc :: "merge_side \<Rightarrow> i32 \<Rightarrow> i32 list \<Rightarrow> 'a proc_state_scheme \<Rightarrow> i32 option" where
  "get_next_proc side cur_term arr s =
     (case side of
        HEAD \<Rightarrow>
          (let next_proc_num = int_mod (cur_term + 1) 6
           in pick_child (pcb_at s) arr [unat next_proc_num..<MAX_PROCESSES] next_proc_num)
      | f21547c \<Rightarrow>
          (let next_proc_num = int_mod (cur_term + 1) NUM_TERMS
           in pick_child (pcb_at s) arr [3..<MAX_PROCESSES] next_proc_num))"

definition init_shell_pcbs :: "'a sched_state_scheme \<Rightarrow> 'a sched_state_scheme" where
  "init_shell_pcbs s =
     (let s = s\<lparr>sched_arr_init := 1\<rparr>;
          base_pcb = pcb_at s (get_pcb_loc 0)
      in fold (\<lambda>shell_num s. s\<lparr>pcb_at := (pcb_at s)(get_pcb_loc (of_nat shell_num) :=
           (pcb_at s (get_pcb_loc (of_nat shell_num)))\<lparr>parent_pid := parent_pid base_pcb,
             parent_phys_addr := parent_phys_addr base_pcb, parent_esp := parent_esp base_pcb,
             parent_ebp := parent_ebp base_pcb, term_number := of_nat shell_num\<rparr>)\<rparr>) [1..<3] s)"

text \<open>\<open>None\<close> as the first component: \<open>sys_execute\<close> was not called or came back with an error.\<close>

definition run_shell ::
  "nat \<Rightarrow> 'a sched_state_scheme \<Rightarrow> (user_frame option \<times> 'a sched_state_scheme) option" where
  "run_shell shell_num s = do {
     let s = send_eoi 0 s;
     r \<leftarrow> arr_get (shells_running s) shell_num;
     if r \<noteq> 0 then Some (None, s)
     else do {
       let s = sti s;
       rs \<leftarrow> arr_set shell_num 1 (shells_running s);
       let s = s\<lparr>shells_running := rs\<rparr>;
       (t, s) \<leftarrow> sys_execute (ld8 s) (shell_at s) s;
       case t of Enter_user f \<Rightarrow> Some (Some f, s) | Ret _ \<Rightarrow> Some (None, s) | Resume _ _ \<Rightarrow> None
     }
   }"

definition window_entry :: "u8 \<Rightarrow> u32" where
  "window_entry new_term = (VIM_MEM_INDEX + (ucast new_term + 1) * FOUR_KB) OR RW OR PRESENT OR USER"

definition map_window :: "u32 \<Rightarrow> 'a mach_scheme \<Rightarrow> 'a mach_scheme" where
  "map_window e s = s\<lparr>page_table_vid := (page_table_vid s)(0 := e)\<rparr>"

definition save_context :: "nat \<Rightarrow> 'a sched_state_scheme \<Rightarrow> 'a sched_state_scheme option" where
  "save_context t s = do {
     a \<leftarrow> arr_set t (temp_sched s) (sched_arr s);
     Some (s\<lparr>sched_arr := a\<rparr>)
   }"

text \<open>The first ticks: the running shell is saved and the next one started on its terminal.\<close>

definition start_shell ::
  "nat \<Rightarrow> 'a sched_state_scheme \<Rightarrow> (user_frame option \<times> 'a sched_state_scheme) option" where
  "start_shell shell_num s = do {
     s \<leftarrow> save_context (shell_num - 1) s;
     let s = map_window (window_entry (of_nat shell_num)) s;
     let s = set_screen_coords 0 0 s;
     let s = set_term_in_service (of_nat shell_num) s;
     run_shell shell_num s
   }"

text \<open>The end: task state segment, program page, stack pointers of the terminal that is next.\<close>

definition load_context :: "i32 \<Rightarrow> u8 \<Rightarrow> 'a sched_state_scheme \<Rightarrow> 'a sched_state_scheme option" where
  "load_context next_proc_num new_term s = do {
     let s = s\<lparr>tss_esp0 := kernel_stack_of next_proc_num, tss_ss0 := KERNEL_DS\<rparr>;
     c \<leftarrow> arr_get (sched_arr s) (unat new_term);
     let s = s\<lparr>page_directory := (page_directory s)(unat (OTE_MB div MB_4) := ote_mb c)\<rparr>;
     let s = set_term_in_service new_term s;
     let s = send_eoi 0 s;
     Some (s\<lparr>ebp := sched_ebp c, esp := sched_esp c\<rparr>)
   }"

definition pit_handler ::
  "merge_side \<Rightarrow> 'a sched_state_scheme \<Rightarrow> (switch \<times> 'a sched_state_scheme) option" where
  "pit_handler side s = do {
     let s = s\<lparr>temp_sched := \<lparr>sched_esp = esp s, sched_ebp = ebp s,
       ote_mb = page_directory s (unat (OTE_MB div MB_4))\<rparr>\<rparr>;
     let proc_num = get_process_number s;
     let curr_term = term_number (pcb_at s (get_pcb_loc proc_num));
     next_proc_num \<leftarrow> get_next_proc side (ucast curr_term) (proc_arr s) s;
     let new_term = (if next_proc_num <s NUM_TERMS then ucast next_proc_num
       else term_number (pcb_at s (get_pcb_loc next_proc_num)));
     let s = set_term_in_service new_term s;
     let s = map_window (if get_cur_term s \<noteq> new_term then window_entry new_term
       else VIM_MEM_INDEX OR RW OR PRESENT OR USER) s;
     r1 \<leftarrow> arr_get (shells_running s) 1;
     r2 \<leftarrow> arr_get (shells_running s) 2;
     (e, s) \<leftarrow> (if r1 = 0 then start_shell 1 s
       else if r2 = 0 then start_shell 2 s
       else if sched_arr_init s = 0 then do { s \<leftarrow> save_context 2 (init_shell_pcbs s); Some (None, s) }
       else do { s \<leftarrow> save_context (unat curr_term) s; Some (None, s) });
     case e of Some f \<Rightarrow> Some (Entered f, s)
     | None \<Rightarrow> do {
         s \<leftarrow> load_context next_proc_num new_term s;
         Some (Switched, s)
       }
   }"

section \<open>The next process\<close>

definition term_of :: "'a proc_state_scheme \<Rightarrow> nat \<Rightarrow> nat" where
  "term_of s n = unat (term_number (pcb_at s (get_pcb_loc (of_nat n))))"

text \<open>
  Slots 0 to 2 hold the shells of the terminals, the slots in use above them programs of one of
  the three terminals.
\<close>

definition slots_ok :: "'a proc_state_scheme \<Rightarrow> bool" where
  "slots_ok s \<longleftrightarrow> length (proc_arr s) = 6 \<and> (\<forall>u < 3. term_of s u = u) \<and>
     (\<forall>i < 6. proc_arr s ! i \<noteq> FREE \<longrightarrow> term_of s i < 3)"

text \<open>The lowest program of terminal \<open>t\<close>, or its shell.\<close>

definition next_for :: "'a proc_state_scheme \<Rightarrow> nat \<Rightarrow> nat" where
  "next_for s t = (case find (\<lambda>i. proc_arr s ! i \<noteq> FREE \<and> term_of s i = t) [3..<6] of Some i \<Rightarrow> i | None \<Rightarrow> t)"

lemma pick_test:
  assumes "j < 256"
  shows "(ucast (term_number (pcb_at s (get_pcb_loc (of_nat i)))) = (of_nat j :: i32)) \<longleftrightarrow> term_of s i = j"
proof -
  let ?b = "term_number (pcb_at s (get_pcb_loc (of_nat i)))"
  have "(ucast ?b = (of_nat j :: u32)) \<longleftrightarrow> unat (ucast ?b :: u32) = unat (of_nat j :: u32)"
    by (rule word_unat_eq_iff)
  then show ?thesis using assms unat_of_nat_u32 [of j] by (simp add: term_of_def)
qed

lemma pick_child_keep:
  assumes "slots_ok s" "\<forall>i \<in> set is. i < 6 \<and> (proc_arr s ! i \<noteq> FREE \<longrightarrow> term_of s i = j \<longrightarrow> i = j)" "j < 256"
  shows "pick_child (pcb_at s) (proc_arr s) is (of_nat j) = Some (of_nat j)"
  using assms(2)
proof (induction "is")
  case (Cons i "is")
  then have "i < length (proc_arr s)" using assms(1) by (simp add: slots_ok_def)
  moreover have "(if proc_arr s ! i \<noteq> FREE \<and> ucast (term_number (pcb_at s (get_pcb_loc (of_nat i)))) = (of_nat j :: i32)
      then of_nat i else of_nat j :: i32) = of_nat j"
    using Cons.prems by (auto simp: pick_test [OF assms(3)])
  ultimately show ?case using Cons by (simp only: pick_child.simps arr_get_Some Option.bind.bind_lunit) simp
qed simp

lemma slots_used:
  "slots_ok s \<Longrightarrow> i < 6 \<Longrightarrow> proc_arr s ! i \<noteq> FREE \<Longrightarrow> 3 \<le> j \<Longrightarrow> term_of s i \<noteq> j"
  by (auto simp: slots_ok_def)

lemma pick_child_append:
  "pick_child p a (is @ js) n = do { n \<leftarrow> pick_child p a is n; pick_child p a js n }"
  by (induction "is" arbitrary: n) (auto intro: Option.bind_cong)

lemma pick_child_find:
  assumes "slots_ok s" "t < 3" "set is \<subseteq> {3..<6}"
  shows "pick_child (pcb_at s) (proc_arr s) is (of_nat t) =
    Some (of_nat (case find (\<lambda>i. proc_arr s ! i \<noteq> FREE \<and> term_of s i = t) is of Some i \<Rightarrow> i | None \<Rightarrow> t))"
  using assms(3)
proof (induction "is")
  case (Cons i "is")
  then have l: "i < length (proc_arr s)" "3 \<le> i" "i < 6" using assms(1) by (simp_all add: slots_ok_def)
  have test: "(ucast (term_number (pcb_at s (get_pcb_loc (of_nat i)))) = (of_nat t :: i32)) \<longleftrightarrow> term_of s i = t"
    using assms(2) by (intro pick_test) simp
  show ?case
  proof (cases "proc_arr s ! i \<noteq> FREE \<and> term_of s i = t")
    case True
    have "pick_child (pcb_at s) (proc_arr s) is (of_nat i) = Some (of_nat i)"
    proof (rule pick_child_keep [OF assms(1)])
      have "\<forall>k \<in> set is. k < 6" using Cons.prems by auto
      then show "\<forall>k \<in> set is. k < 6 \<and> (proc_arr s ! k \<noteq> FREE \<longrightarrow> term_of s k = i \<longrightarrow> k = i)"
        using slots_used [OF assms(1) _ _ l(2)] by blast
    qed (use l in simp)
    then show ?thesis using True l test by simp
  next
    case False
    then show ?thesis using Cons l test by auto
  qed
qed simp

lemma next_terminal: "c < 3 \<Longrightarrow> int_mod (of_nat c + 1) 3 = of_nat (Suc c mod 3)"
  using int_mod_of_nat [of "Suc c" 3] by (simp add: add.commute)

lemma get_next_proc_branch:
  assumes "slots_ok s" "c < 3"
  shows "get_next_proc f21547c (of_nat c) (proc_arr s) s = Some (of_nat (next_for s (Suc c mod 3)))"
  using pick_child_find [OF assms(1), of "Suc c mod 3" "[3..<6]"] next_terminal [OF assms(2)]
  by (simp add: get_next_proc_def next_for_def)

lemma get_next_proc_head:
  assumes "slots_ok s"
  shows "c < 2 \<Longrightarrow> get_next_proc HEAD (of_nat c) (proc_arr s) s = Some (of_nat (next_for s (Suc c)))"
    and "get_next_proc HEAD 2 (proc_arr s) s = Some 3"
proof -
  have m: "int_mod (of_nat c + 1) 6 = of_nat (Suc c)" if "c < 3" for c
    using that int_mod_of_nat [of "Suc c" 6] by (simp add: add.commute)
  show "get_next_proc HEAD 2 (proc_arr s) s = Some 3"
    using m [of 2] pick_child_keep [OF assms, of "[3..<6]" 3] slots_used [OF assms, of _ 3]
    by (auto simp: get_next_proc_def)
  show "get_next_proc HEAD (of_nat c) (proc_arr s) s = Some (of_nat (next_for s (Suc c)))" if c: "c < 2"
  proof -
    have u: "unat (of_nat (Suc c) :: u32) = Suc c" using c by (intro unat_of_nat_u32) simp
    have "[Suc c..<6] = [Suc c..<3] @ [3..<6]" using c upt_add_eq_append [of "Suc c" 3 3] by simp
    moreover have "pick_child (pcb_at s) (proc_arr s) [Suc c..<3] (of_nat (Suc c)) = Some (of_nat (Suc c))"
      using assms c by (intro pick_child_keep) (auto simp: slots_ok_def)
    ultimately show ?thesis
      using c m [of c] u pick_child_find [OF assms, of "Suc c" "[3..<6]"]
      by (simp add: get_next_proc_def next_for_def pick_child_append del: of_nat_Suc)
  qed
qed

section \<open>Contexts\<close>

text \<open>The terminal of the running process; the context of a terminal, live or saved.\<close>

definition current :: "'a proc_state_scheme \<Rightarrow> nat" where
  "current s = unat (term_number (pcb_at s (own_loc s)))"

definition live :: "'a proc_state_scheme \<Rightarrow> sched_t" where
  "live s = \<lparr>sched_esp = esp s, sched_ebp = ebp s, ote_mb = page_directory s 32\<rparr>"

definition context_of :: "'a sched_state_scheme \<Rightarrow> nat \<Rightarrow> sched_t" where
  "context_of s u = (if u = current s then live s else sched_arr s ! u)"

definition on_stack :: "nat \<Rightarrow> u32 \<Rightarrow> bool" where
  "on_stack n e \<longleftrightarrow> n < 6 \<and> (\<exists>k < 8190. e = kernel_stack_of (of_nat n) - of_nat k)"

text \<open>
  The machine once all shells run: every terminal has a context, live or saved, whose stack
  pointer is in the stack of a process of that terminal.
\<close>

definition sched_ok :: "'a sched_state_scheme \<Rightarrow> bool" where
  "sched_ok s \<longleftrightarrow> slots_ok s \<and> length (shells_running s) = 3 \<and> (\<forall>u \<in> {1, 2}. shells_running s ! u \<noteq> 0) \<and>
     sched_arr_init s \<noteq> 0 \<and> length (sched_arr s) = 3 \<and> current s < 3 \<and>
     (\<forall>u < 3. \<exists>n. term_of s n = u \<and> on_stack n (sched_esp (context_of s u)))"

lemma on_stack_process: "on_stack n (esp s) \<Longrightarrow> get_process_number s = of_nat n"
  using process_number_on_stack by (auto simp: on_stack_def)

lemma on_stack_current: "on_stack n (esp s) \<Longrightarrow> current s = term_of s n"
  by (simp add: current_def term_of_def on_stack_process)

text \<open>The new terminal, as the handler reads it off the process it picked.\<close>

lemma next_for_cases:
  assumes "slots_ok s" "t < 3"
  shows "next_for s t < 6" "term_of s (next_for s t) = t" "next_for s t < 3 \<Longrightarrow> next_for s t = t"
proof -
  let ?f = "find (\<lambda>i. proc_arr s ! i \<noteq> FREE \<and> term_of s i = t) [3..<6]"
  have "next_for s t < 6 \<and> term_of s (next_for s t) = t \<and> (next_for s t < 3 \<longrightarrow> next_for s t = t)"
  proof (cases ?f)
    case None
    then show ?thesis using assms by (simp add: next_for_def slots_ok_def)
  next
    case (Some i)
    then have "term_of s i = t" "i < 6" "3 \<le> i" by (force simp: find_Some_iff)+
    then show ?thesis using Some by (simp add: next_for_def)
  qed
  then show "next_for s t < 6" "term_of s (next_for s t) = t" "next_for s t < 3 \<Longrightarrow> next_for s t = t"
    by blast+
qed

lemma new_term_eq:
  assumes "slots_ok s" "t < 3"
  shows "(if of_nat (next_for s t) <s NUM_TERMS then ucast (of_nat (next_for s t) :: u32)
       else term_number (pcb_at s (get_pcb_loc (of_nat (next_for s t))))) = (of_nat t :: u8)"
proof (cases "next_for s t < 3")
  case True
  then have "next_for s t = t" by (rule next_for_cases(3) [OF assms])
  moreover have "(ucast (of_nat t :: u32) :: u8) = of_nat t"
    using assms(2) by (simp add: unsigned_of_nat take_bit_nat_eq_self)
  ultimately show ?thesis using assms(2) of_nat_sless_iff [of t 3] by simp
next
  case False
  then have "\<not> of_nat (next_for s t) <s NUM_TERMS"
    using of_nat_sless_iff [of "next_for s t" 3] next_for_cases(1) [OF assms] by simp
  moreover have "term_number (pcb_at s (get_pcb_loc (of_nat (next_for s t)))) = of_nat t"
    using arg_cong [OF next_for_cases(2) [OF assms], of "of_nat :: nat \<Rightarrow> u8"] by (simp add: term_of_def)
  ultimately show ?thesis by simp
qed

text \<open>What a tick does to the state.\<close>

definition ticked :: "'a sched_state_scheme \<Rightarrow> 'a sched_state_scheme \<Rightarrow> bool" where
  "ticked s s' \<longleftrightarrow> (let t = Suc (current s) mod 3 in
     live s' = sched_arr s ! t \<and> sched_arr s' = (sched_arr s)[current s := live s] \<and>
     (\<forall>i. i \<noteq> 32 \<longrightarrow> page_directory s' i = page_directory s i) \<and>
     tss_esp0 s' = kernel_stack_of (of_nat (next_for s t)) \<and> tss_ss0 s' = KERNEL_DS \<and>
     term_in_service s' = of_nat t \<and> page_table_vid s' = (page_table_vid s)(0 := frame_for s t OR 7) \<and>
     pcb_at s' = pcb_at s \<and> proc_arr s' = proc_arr s \<and> shells_running s' = shells_running s \<and>
     sched_arr_init s' = sched_arr_init s \<and> phys s' = phys s \<and> cur_term_num s' = cur_term_num s)"

lemma pit_handler_ticks:
  fixes s :: "'a sched_state_scheme"
  assumes ok: "sched_ok s"
  shows "\<exists>s'. pit_handler f21547c s = Some (Switched, s') \<and> ticked s s'"
proof -
  define t where "t = Suc (current s) mod 3"
  have t: "t < 3" by (simp add: t_def)
  have so: "slots_ok s" and c: "current s < 3" and len: "length (shells_running s) = 3" "length (sched_arr s) = 3"
    and on: "shells_running s ! 1 \<noteq> 0" "shells_running s ! 2 \<noteq> 0" "sched_arr_init s \<noteq> 0"
    using ok by (auto simp: sched_ok_def)
  have cu: "ucast (term_number (pcb_at s (own_loc s))) = (of_nat (current s) :: i32)"
    by (simp add: current_def)
  have ct: "t \<noteq> current s" using c by (auto simp: t_def) arith
  define s1 where "s1 = s\<lparr>temp_sched := live s\<rparr>"
  have nx: "get_next_proc f21547c (ucast (term_number (pcb_at s (own_loc s)))) (proc_arr s) s1 = Some (of_nat (next_for s t))"
    using get_next_proc_branch [OF so c] unfolding cu by (simp add: get_next_proc_def s1_def t_def)
  have w: "(if cur_term_num s \<noteq> of_nat t then window_entry (of_nat t) else VIM_MEM_INDEX OR RW OR PRESENT OR USER) =
      frame_for s t OR 7"
  proof -
    have u: "unat (of_nat t :: u8) = t" using t by (simp add: unat_of_nat take_bit_nat_eq_self)
    have "(ucast (of_nat t :: u8) :: u32) = of_nat t" using arg_cong [OF u, of "of_nat :: nat \<Rightarrow> u32"] by simp
    moreover have "cur_term_num s = of_nat t \<longleftrightarrow> t = unat (cur_term_num s)" using u by auto
    ultimately show ?thesis by (auto simp: frame_for_def window_entry_def or.assoc algebra_simps)
  qed
  have ut: "unat (of_nat t :: u8) = t" using t by (simp add: unat_of_nat take_bit_nat_eq_self)
  define s2 where "s2 = s1\<lparr>page_table_vid := (page_table_vid s)(0 := frame_for s t OR 7),
    sched_arr := (sched_arr s)[current s := live s], tss_esp0 := kernel_stack_of (of_nat (next_for s t)),
    tss_ss0 := KERNEL_DS, page_directory := (page_directory s)(32 := ote_mb (sched_arr s ! t)),
    term_in_service := of_nat t, io := OutB 0x20 0x60 # io s, ebp := sched_ebp (sched_arr s ! t), esp := sched_esp (sched_arr s ! t)\<rparr>"
  have gp: "get_process_number s1 = get_process_number s" by (simp add: s1_def get_process_number_def)
  have pit: "pit_handler f21547c s = do {
     next_proc_num \<leftarrow> get_next_proc f21547c (ucast (term_number (pcb_at s (own_loc s)))) (proc_arr s) s1;
     let new_term = (if next_proc_num <s NUM_TERMS then ucast next_proc_num
       else term_number (pcb_at s (get_pcb_loc next_proc_num)));
     let m = map_window (if cur_term_num s \<noteq> new_term then window_entry new_term
       else VIM_MEM_INDEX OR RW OR PRESENT OR USER) (s1\<lparr>term_in_service := new_term\<rparr>);
     m \<leftarrow> save_context (current s) m;
     m \<leftarrow> load_context next_proc_num new_term m;
     Some (Switched, m)
   }"
    using len on gp
    by (simp add: pit_handler_def Let_def program_entry_index s1_def live_def current_def
        set_term_in_service_def get_cur_term_def map_window_def cong: if_cong)
  have "pit_handler f21547c s = Some (Switched, s2)"
    unfolding pit nx Option.bind.bind_lunit new_term_eq [OF so t] Let_def w
    using len c ut t ct
    by (simp add: map_window_def save_context_def load_context_def program_entry_index
        set_term_in_service_def send_eoi_def port_defs s2_def s1_def)
  moreover have "ticked s s2"
    by (simp add: ticked_def s2_def s1_def live_def flip: t_def)
  ultimately show ?thesis by blast
qed

lemma ticked_context:
  assumes ok: "sched_ok s" and tk: "ticked s s'"
  shows "current s' = Suc (current s) mod 3" "\<forall>u < 3. context_of s' u = context_of s u" "sched_ok s'"
proof -
  define t where "t = Suc (current s) mod 3"
  have t: "t < 3" by (simp add: t_def)
  have c: "current s < 3" "length (sched_arr s) = 3" using ok by (simp_all add: sched_ok_def)
  have ct: "t \<noteq> current s" using c(1) by (auto simp: t_def) arith
  have to: "term_of s' n = term_of s n" for n using tk by (simp add: ticked_def Let_def term_of_def)
  have lv: "live s' = sched_arr s ! t" and sa: "sched_arr s' = (sched_arr s)[current s := live s]"
    using tk by (simp_all add: ticked_def Let_def t_def)
  obtain n where n: "term_of s n = t" "on_stack n (sched_esp (context_of s t))"
    using ok t by (auto simp: sched_ok_def)
  then have "on_stack n (esp s')"
    using arg_cong [OF lv, of sched_esp] ct by (simp add: context_of_def live_def)
  then show cur: "current s' = Suc (current s) mod 3"
    using on_stack_current [of n s'] to n(1) by (simp add: t_def)
  show cx: "\<forall>u < 3. context_of s' u = context_of s u"
    using cur lv sa ct c t by (auto simp: context_of_def nth_list_update simp flip: t_def)
  have "slots_ok s'" using ok tk by (simp add: sched_ok_def ticked_def Let_def slots_ok_def to)
  then show "sched_ok s'"
    using ok tk cur cx t by (simp add: sched_ok_def ticked_def Let_def to)
qed

section \<open>Between ticks\<close>

text \<open>
  The running process computes and makes calls that return: it changes memory, its descriptors
  and the stack pointers within its stack, and not the scheduler's variables.
\<close>

definition process_runs :: "'a sched_state_scheme \<Rightarrow> 'a sched_state_scheme \<Rightarrow> bool" where
  "process_runs s s' \<longleftrightarrow> undisturbed s (s'\<lparr>esp := esp s, ebp := ebp s\<rparr>) \<and>
     (\<exists>n. on_stack n (esp s) \<and> on_stack n (esp s')) \<and>
     shells_running s' = shells_running s \<and> sched_arr_init s' = sched_arr_init s \<and> sched_arr s' = sched_arr s"

lemma process_runs_context:
  assumes ok: "sched_ok s" and r: "process_runs s s'"
  shows "current s' = current s" "\<forall>u < 3. u \<noteq> current s \<longrightarrow> context_of s' u = context_of s u" "sched_ok s'"
proof -
  have u: "undisturbed s (s'\<lparr>esp := esp s, ebp := ebp s\<rparr>)" using r by (simp add: process_runs_def)
  obtain n where n: "on_stack n (esp s)" "on_stack n (esp s')" using r by (auto simp: process_runs_def)
  have "(pcb_at s' (own_loc s))\<lparr>file_descs := []\<rparr> = (pcb_at s (own_loc s))\<lparr>file_descs := []\<rparr>"
    and "\<forall>l. l \<noteq> own_loc s \<longrightarrow> pcb_at s' l = pcb_at s l" and pa: "proc_arr s' = proc_arr s"
    using u by (simp_all add: undisturbed_def)
  then have tn: "term_number (pcb_at s' l) = term_number (pcb_at s l)" for l
    using pcb_but_descs(5) by (cases "l = own_loc s") auto
  then have to: "term_of s' m = term_of s m" for m by (simp add: term_of_def)
  show cur: "current s' = current s"
    using on_stack_current [OF n(1)] on_stack_current [OF n(2)] to by simp
  have sa: "sched_arr s' = sched_arr s" using r by (simp add: process_runs_def)
  show cx: "\<forall>u < 3. u \<noteq> current s \<longrightarrow> context_of s' u = context_of s u"
    by (simp add: context_of_def cur sa)
  have "\<exists>m. term_of s' m = u \<and> on_stack m (sched_esp (context_of s' u))" if "u < 3" for u
  proof (cases "u = current s")
    case True
    then have "sched_esp (context_of s' u) = esp s'" by (simp add: context_of_def cur live_def)
    moreover have "term_of s' n = u" using on_stack_current [OF n(1)] True to by simp
    ultimately show ?thesis using n(2) by auto
  next
    case False
    then show ?thesis using ok cx to that by (auto simp: sched_ok_def)
  qed
  then show "sched_ok s'"
    using ok r cur by (simp add: sched_ok_def process_runs_def slots_ok_def to pa)
qed

lemma process_runs_refl: "sched_ok s \<Longrightarrow> process_runs s s"
proof -
  assume ok: "sched_ok s"
  then have "current s < 3" and "context_of s (current s) = live s" by (simp_all add: sched_ok_def context_of_def)
  then obtain n where "on_stack n (sched_esp (live s))" using ok by (auto simp: sched_ok_def)
  then have "on_stack n (esp s)" by (simp add: live_def)
  then show ?thesis by (auto simp: process_runs_def calm.eff_refl)
qed

inductive sched_step :: "'a sched_state_scheme \<Rightarrow> 'a sched_state_scheme \<Rightarrow> bool" where
  step_tick: "pit_handler f21547c s = Some (w, s') \<Longrightarrow> sched_step s s'"
| step_run: "process_runs s s' \<Longrightarrow> sched_step s s'"

inductive_cases sched_stepE: "sched_step s s'"

lemma pit_handler_tick:
  assumes "sched_ok s" "pit_handler f21547c s = Some (w, s')"
  shows "w = Switched" "ticked s s'"
  using pit_handler_ticks [OF assms(1)] assms(2) by auto

lemma sched_step_ok: "sched_step s s' \<Longrightarrow> sched_ok s \<Longrightarrow> sched_ok s'"
  by (elim sched_stepE) (blast intro: ticked_context(3) pit_handler_tick(2) process_runs_context(3))+

text \<open>The abstract scheduler: whose turn it is and a context for each terminal.\<close>

type_synonym turns = "nat \<times> sched_t list"

definition next_turn :: "turns \<Rightarrow> turns" where
  "next_turn = (\<lambda>(t, cs). (Suc t mod 3, cs))"

definition turns_of :: "'a sched_state_scheme \<Rightarrow> turns" where
  "turns_of s = (current s, map (context_of s) [0..<3])"

lemma ticked_turn:
  assumes "sched_ok s" "ticked s s'"
  shows "turns_of s' = next_turn (turns_of s)"
  using ticked_context(1,2) [OF assms] by (simp add: turns_of_def next_turn_def)

section \<open>What the scheduler promises\<close>

definition demo_sched :: sched_state where
  "demo_sched = proc_state.extend (demo_proc\<lparr>proc_arr := [1, 1, 1, 0, 0, 0],
       pcb_at := (\<lambda>l. demo_pcb\<lparr>term_number := (if l = get_pcb_loc 0 then 0 else if l = get_pcb_loc 2 then 2 else 1)\<rparr>)\<rparr>)
     \<lparr>shells_running = [1, 1, 1], sched_arr_init = 1,
      sched_arr = [\<lparr>sched_esp = 0x7FFF00, sched_ebp = 0x7FFF20, ote_mb = 0x800087\<rparr>,
        \<lparr>sched_esp = 0, sched_ebp = 0, ote_mb = 0\<rparr>, \<lparr>sched_esp = 0x7FBF00, sched_ebp = 0x7FBF20, ote_mb = 0x1000087\<rparr>],
      temp_sched = \<lparr>sched_esp = 0, sched_ebp = 0, ote_mb = 0\<rparr>, shell_at = 0x503000\<rparr>"

lemma demo_sched_sel [simp]:
  "proc_arr demo_sched = [1, 1, 1, 0, 0, 0]" "esp demo_sched = 0x7FDF00"
  "term_number (pcb_at demo_sched l) = (if l = get_pcb_loc 0 then 0 else if l = get_pcb_loc 2 then 2 else 1)"
  "shells_running demo_sched = [1, 1, 1]" "sched_arr_init demo_sched = 1"
  "sched_arr demo_sched = [\<lparr>sched_esp = 0x7FFF00, sched_ebp = 0x7FFF20, ote_mb = 0x800087\<rparr>,
        \<lparr>sched_esp = 0, sched_ebp = 0, ote_mb = 0\<rparr>, \<lparr>sched_esp = 0x7FBF00, sched_ebp = 0x7FBF20, ote_mb = 0x1000087\<rparr>]"
  by (simp_all add: demo_sched_def proc_state.defs)

lemma demo_term_of:
  assumes "n < 6"
  shows "term_of demo_sched n = (if n = 0 then 0 else if n = 2 then 2 else 1)"
proof -
  have inj: "get_pcb_loc (of_nat n) = get_pcb_loc (of_nat m) \<longleftrightarrow> n = m" if "m < 6" for m
    using get_pcb_loc_inj [OF assms that] by blast
  have "get_pcb_loc (of_nat n) = get_pcb_loc 0 \<longleftrightarrow> n = 0" "get_pcb_loc (of_nat n) = get_pcb_loc 2 \<longleftrightarrow> n = 2"
    using inj [of 0] inj [of 2] by (simp_all only: of_nat_0 of_nat_numeral) simp_all
  then show ?thesis by (simp only: term_of_def demo_sched_sel) simp
qed

lemma demo_on_stack:
  "on_stack 0 0x7FFF00" "on_stack 1 0x7FDF00" "on_stack 2 0x7FBF00"
proof -
  have o: "on_stack n e" if "n < 6" "e = kernel_stack_of (of_nat n) - of_nat 255" for n e
    unfolding on_stack_def using that by (intro conjI exI [of _ 255]) simp_all
  show "on_stack 0 0x7FFF00" "on_stack 1 0x7FDF00" "on_stack 2 0x7FBF00"
    by (rule o; simp add: kernel_stack_of_def)+
qed

lemma demo_current: "current demo_sched = 1"
  using on_stack_current [of 1 demo_sched] demo_on_stack(2) demo_term_of [of 1] by simp

lemma demo_slots_ok: "slots_ok demo_sched"
proof -
  have "term_of demo_sched u = u" if "u < 3" for u
    using that demo_term_of [of u] by (auto split: if_splits)
  then show ?thesis using demo_term_of by (simp add: slots_ok_def)
qed

lemma demo_sched_ok: "sched_ok demo_sched"
proof -
  have "\<exists>n. term_of demo_sched n = u \<and> on_stack n (sched_esp (context_of demo_sched u))" if "u < 3" for u
  proof (intro exI conjI)
    show "term_of demo_sched u = u" using demo_slots_ok that by (simp add: slots_ok_def)
    have "u = 0 \<or> u = 1 \<or> u = 2" using that by auto
    then show "on_stack u (sched_esp (context_of demo_sched u))"
      using demo_on_stack by (elim disjE) (simp_all add: context_of_def demo_current live_def)
  qed
  then show ?thesis using demo_slots_ok by (simp add: sched_ok_def demo_current)
qed

text \<open>
  C10. Which process comes next, with the shells in slots 0 to 2: on the side \<open>f21547c\<close> of the merge the
  terminals take turns, and of a terminal it is the lowest slot above 2 with a program of
  that terminal, or its shell. The side \<open>HEAD\<close> does the same after terminals 0 and 1, but after
  terminal 2 always picks slot 3, used or not: terminal 0 gets its turn only if slot 3 is its.
\<close>

theorem next_process:
  fixes s :: "'a proc_state_scheme"
  assumes "slots_ok s" "c < 3"
  shows "get_next_proc f21547c (of_nat c) (proc_arr s) s = Some (of_nat (next_for s (Suc c mod 3))) \<and>
    get_next_proc HEAD (of_nat c) (proc_arr s) s =
      Some (of_nat (if c = 2 then 3 else next_for s (Suc c)))"
proof -
  have "get_next_proc HEAD (of_nat c) (proc_arr s) s = Some (of_nat (if c = 2 then 3 else next_for s (Suc c)))"
    using get_next_proc_head(2) [OF assms(1)] get_next_proc_head(1) [OF assms(1), of c] assms(2)
    by (cases "c = 2") auto
  then show ?thesis using get_next_proc_branch [OF assms] by blast
qed

theorem next_process_witness:
  "get_next_proc f21547c 2 (proc_arr demo_sched) demo_sched = Some 0 \<and>
   get_next_proc HEAD 2 (proc_arr demo_sched) demo_sched = Some 3"
proof -
  have "[3..<6 :: nat] = [3, 4, 5]" by (simp add: upt_conv_Cons)
  then have "next_for demo_sched 0 = 0" by (simp add: next_for_def)
  then show ?thesis using next_process [OF demo_slots_ok, of 2] by simp
qed

text \<open>
  C7. With the side \<open>f21547c\<close> of the unresolved merge in \<open>get_next_proc\<close>, a tick of the PIT refines
  a turn of the abstract scheduler: the next terminal is served, and the contexts of all three
  terminals (stack pointers and program page) are what they were. The window, the terminal in
  service and the kernel stack in the task state segment follow; nothing else of memory, of the
  control blocks and of the page directory changes. (With the side \<open>HEAD\<close> the tick after terminal
  2 goes to process 3 instead.)
\<close>

theorem tick_refines_turn:
  fixes s :: "'a sched_state_scheme"
  assumes "sched_ok s"
  shows "\<exists>s'. pit_handler f21547c s = Some (Switched, s') \<and> turns_of s' = next_turn (turns_of s) \<and> ticked s s'"
  using pit_handler_ticks [OF assms] ticked_turn [OF assms] by blast

theorem tick_refines_turn_witness:
  "\<exists>s'. pit_handler f21547c demo_sched = Some (Switched, s') \<and> esp s' = 0x7FBF00 \<and> term_in_service s' = 2"
proof -
  obtain s' where "pit_handler f21547c demo_sched = Some (Switched, s')" "ticked demo_sched s'"
    using tick_refines_turn [OF demo_sched_ok] by blast
  moreover from this(2) have "live s' = sched_arr demo_sched ! 2" "term_in_service s' = 2"
    by (simp_all add: ticked_def Let_def demo_current numeral_2_eq_2 del: demo_sched_sel)
  moreover have "sched_esp (live s') = esp s'" by (simp add: live_def)
  ultimately show ?thesis by auto
qed

text \<open>
  C9. With the side \<open>f21547c\<close> of the unresolved merge in \<open>get_next_proc\<close>, and while no process starts or
  ends: whatever the sequence of ticks and of processes that compute or make system calls that
  return, every terminal keeps a context whose stack pointer is in the stack of one of its
  processes.
\<close>

theorem scheduler_invariant:
  assumes "sched_step\<^sup>*\<^sup>* s s'" "sched_ok s"
  shows "sched_ok s'"
  using assms by (induction rule: rtranclp_induct) (blast intro: sched_step_ok)+

theorem scheduler_invariant_witness:
  "\<exists>s'. pit_handler f21547c demo_sched = Some (Switched, s') \<and> sched_ok s'"
proof -
  obtain s' where s': "pit_handler f21547c demo_sched = Some (Switched, s')"
    using pit_handler_ticks [OF demo_sched_ok] by blast
  have "sched_step\<^sup>*\<^sup>* demo_sched s'"
    by (rule r_into_rtranclp, rule step_tick, rule s')
  then have "sched_ok s'" using demo_sched_ok by (rule scheduler_invariant)
  then show ?thesis using s' by blast
qed

text \<open>
  C8. With the side \<open>f21547c\<close> of the unresolved merge in \<open>get_next_proc\<close>, every process gets its turn
  again: three ticks after it was interrupted, the interrupted process goes on with the stack
  pointers and the program page it had, provided that in between the other two terminals only
  compute and make system calls that return (\<open>process_runs\<close>: no \<open>execute\<close> and no \<open>halt\<close>). With the side
  \<open>HEAD\<close> terminal 0 need not get its turn.
\<close>

theorem three_ticks_return:
  fixes s :: "'a sched_state_scheme"
  assumes "sched_ok s"
  shows "\<exists>s1. pit_handler f21547c s = Some (Switched, s1) \<and> (\<forall>r1. process_runs s1 r1 \<longrightarrow>
    (\<exists>s2. pit_handler f21547c r1 = Some (Switched, s2) \<and> (\<forall>r2. process_runs s2 r2 \<longrightarrow>
    (\<exists>s3. pit_handler f21547c r2 = Some (Switched, s3) \<and> current s3 = current s \<and> live s3 = live s))))"
proof -
  obtain s1 where s1: "pit_handler f21547c s = Some (Switched, s1)" "ticked s s1"
    using pit_handler_ticks [OF assms] by blast
  note t1 = ticked_context [OF assms s1(2)]
  have c: "current s < 3" using assms by (simp add: sched_ok_def)
  have "\<exists>s2. pit_handler f21547c r1 = Some (Switched, s2) \<and> (\<forall>r2. process_runs s2 r2 \<longrightarrow>
    (\<exists>s3. pit_handler f21547c r2 = Some (Switched, s3) \<and> current s3 = current s \<and> live s3 = live s))"
    if r1: "process_runs s1 r1" for r1
  proof -
    note p1 = process_runs_context [OF t1(3) r1]
    obtain s2 where s2: "pit_handler f21547c r1 = Some (Switched, s2)" "ticked r1 s2"
      using pit_handler_ticks [OF p1(3)] by blast
    note t2 = ticked_context [OF p1(3) s2(2)]
    have "\<exists>s3. pit_handler f21547c r2 = Some (Switched, s3) \<and> current s3 = current s \<and> live s3 = live s"
      if r2: "process_runs s2 r2" for r2
    proof -
      note p2 = process_runs_context [OF t2(3) r2]
      obtain s3 where s3: "pit_handler f21547c r2 = Some (Switched, s3)" "ticked r2 s3"
        using pit_handler_ticks [OF p2(3)] by blast
      note t3 = ticked_context [OF p2(3) s3(2)]
      have n: "current s1 \<noteq> current s" "current s2 \<noteq> current s" "current s3 = current s"
        using c t1(1) p1(1) t2(1) p2(1) t3(1) by (auto simp: mod_Suc split: if_splits)
      have "context_of s3 (current s) = context_of r2 (current s)" using t3(2) c by blast
      also have "\<dots> = context_of s2 (current s)" using p2(2) c n(2) by auto
      also have "\<dots> = context_of r1 (current s)" using t2(2) c by blast
      also have "\<dots> = context_of s1 (current s)" using p1(2) c n(1) by auto
      also have "\<dots> = context_of s (current s)" using t1(2) c by blast
      finally show ?thesis using s3(1) n(3) by (simp add: context_of_def)
    qed
    then show ?thesis using s2(1) by blast
  qed
  then show ?thesis using s1(1) by blast
qed

theorem three_ticks_return_witness:
  "\<exists>s1 s2 s3. pit_handler f21547c demo_sched = Some (Switched, s1) \<and>
    pit_handler f21547c s1 = Some (Switched, s2) \<and> pit_handler f21547c s2 = Some (Switched, s3) \<and>
    esp s1 = 0x7FBF00 \<and> esp s3 = 0x7FDF00"
proof -
  have idle: "process_runs s' s'" if "sched_ok s" "pit_handler f21547c s = Some (w, s')" for s s' :: sched_state and w
    by (rule process_runs_refl [OF ticked_context(3) [OF that(1) pit_handler_tick(2) [OF that]]])
  obtain s1 where s1: "pit_handler f21547c demo_sched = Some (Switched, s1)"
    and r1: "\<forall>r1. process_runs s1 r1 \<longrightarrow> (\<exists>s2. pit_handler f21547c r1 = Some (Switched, s2) \<and>
      (\<forall>r2. process_runs s2 r2 \<longrightarrow> (\<exists>s3. pit_handler f21547c r2 = Some (Switched, s3) \<and>
        current s3 = current demo_sched \<and> live s3 = live demo_sched)))"
    using three_ticks_return [OF demo_sched_ok] by blast
  note k1 = pit_handler_tick [OF demo_sched_ok s1]
  note ok1 = ticked_context(3) [OF demo_sched_ok k1(2)]
  obtain s2 where s2: "pit_handler f21547c s1 = Some (Switched, s2)"
    and r2: "\<forall>r2. process_runs s2 r2 \<longrightarrow> (\<exists>s3. pit_handler f21547c r2 = Some (Switched, s3) \<and>
        current s3 = current demo_sched \<and> live s3 = live demo_sched)"
    using r1 idle [OF demo_sched_ok s1] by blast
  obtain s3 where s3: "pit_handler f21547c s2 = Some (Switched, s3)" "live s3 = live demo_sched"
    using r2 idle [OF ok1 s2] by blast
  have "live s1 = sched_arr demo_sched ! 2"
    using k1(2) by (simp add: ticked_def Let_def demo_current numeral_2_eq_2 del: demo_sched_sel)
  then have "sched_esp (live s1) = 0x7FBF00" by simp
  moreover have "sched_esp (live s3) = esp demo_sched" unfolding s3(2) by (simp only: live_def sched_t.simps)
  ultimately have "esp s1 = 0x7FBF00" "esp s3 = 0x7FDF00" by (simp_all only: live_def sched_t.simps demo_sched_sel)
  then show ?thesis using s1 s2 s3(1) by blast
qed

end
