(* ===== verification/Userland.thy ===== *)
theory Userland
  imports Scheduler
begin

text \<open>
  What user programs are linked with: the call stubs of \<open>ece391syscall.S\<close> and the support library
  \<open>ece391support.c\<close>. A program runs on the machine of the kernel: its loads and stores go through
  the page walk at user privilege, its calls through \<open>syscall_linker\<close>. The second half says what a
  program can rely on between calls, and lifts the properties of the calls to it.
\<close>

section \<open>User memory\<close>

text \<open>A load or store that faults ends in an exception handler, which does not return.\<close>

definition uld8 :: "'a mach_scheme \<Rightarrow> u32 \<Rightarrow> u8 option" where
  "uld8 s a = map_option (phys s) (xlate User s a)"

definition ust8 :: "u32 \<Rightarrow> u8 \<Rightarrow> 'a mach_scheme \<Rightarrow> 'a mach_scheme option" where
  "ust8 a v s = do { p \<leftarrow> xlate User s a; Some (s\<lparr>phys := (phys s)(p := v)\<rparr>) }"

interpretation umem: memory "xlate User" uld8 ust8 "hidden User"
proof unfold_locales
  fix m m' :: "'a mach_scheme"
  assume "hidden User m' = hidden User m"
  then show "xlate User m' = xlate User m"
    by (metis xlate_hidden)
qed (auto simp: uld8_def ust8_def hidden_st Option.bind_eq_Some_conv map_option_case
      split: option.splits)

section \<open>ece391syscall.S\<close>

text \<open>
  \<open>DO_CALL\<close>: the number in EAX, up to three arguments from the stack; registers a call does not
  use are 0 here. These are the calls that come back to the program; \<open>ece391_halt\<close> and
  \<open>ece391_execute\<close> leave it.
\<close>

definition do_call ::
  "('e \<Rightarrow> 'a proc_state_scheme \<Rightarrow> 'a proc_state_scheme option) \<Rightarrow> u32 \<Rightarrow> u32 \<Rightarrow> u32 \<Rightarrow> u32 \<Rightarrow>
   'e list \<Rightarrow> 'a proc_state_scheme \<Rightarrow> (i32 \<times> 'e list \<times> 'a proc_state_scheme) option" where
  "do_call irq number ebx ecx edx irqs s = do {
     (t, irqs, s) \<leftarrow> syscall irq irqs number ebx ecx edx s;
     case t of Ret v \<Rightarrow> Some (v, irqs, s) | Enter_user f \<Rightarrow> None | Resume eip eax \<Rightarrow> None
   }"

definition ece391_read where "ece391_read irq fd buf nbytes = do_call irq 3 fd buf nbytes"
definition ece391_write where "ece391_write irq fd buf nbytes = do_call irq 4 fd buf nbytes"
definition ece391_open where "ece391_open irq filename = do_call irq 5 filename 0 0"
definition ece391_close where "ece391_close irq fd = do_call irq 6 fd 0 0"
definition ece391_getargs where "ece391_getargs irq buf nbytes = do_call irq 7 buf nbytes 0"
definition ece391_vidmap where "ece391_vidmap irq screen_start = do_call irq 8 screen_start 0 0"
definition ece391_set_handler where "ece391_set_handler irq signum handler = do_call irq 9 signum handler 0"

definition ece391_execute ::
  "u32 \<Rightarrow> 'a proc_state_scheme \<Rightarrow> (transfer \<times> 'a proc_state_scheme) option" where
  "ece391_execute command s = map_option (\<lambda>(t, _, s). (t, s)) (syscall service [] 2 command 0 0 s)"

definition ece391_halt ::
  "i32 \<Rightarrow> 'a proc_state_scheme \<Rightarrow> (transfer \<times> 'a proc_state_scheme) option" where
  "ece391_halt st s = map_option (\<lambda>(t, _, s). (t, s)) (syscall service [] 1 st 0 0 s)"

text \<open>\<open>_start\<close>: \<open>main\<close>, then \<open>ece391_halt\<close> with its value.\<close>

definition start_main ::
  "('e list \<Rightarrow> 'a proc_state_scheme \<Rightarrow> (i32 \<times> 'e list \<times> 'a proc_state_scheme) option) \<Rightarrow>
   'e list \<Rightarrow> 'a proc_state_scheme \<Rightarrow> (transfer \<times> 'a proc_state_scheme) option" where
  "start_main main irqs s = do { (v, irqs, s) \<leftarrow> main irqs s; ece391_halt v s }"

section \<open>ece391support.c\<close>

partial_function (option) ece391_strlen_from :: "(u32 \<Rightarrow> u8 option) \<Rightarrow> u32 \<Rightarrow> u32 \<Rightarrow> u32 option" where
  "ece391_strlen_from r s len = do {
     c \<leftarrow> r s;
     if c \<noteq> 0 then ece391_strlen_from r (s + 1) (len + 1) else Some len
   }"

definition ece391_strlen :: "(u32 \<Rightarrow> u8 option) \<Rightarrow> u32 \<Rightarrow> u32 option" where
  "ece391_strlen r s = ece391_strlen_from r s 0"

partial_function (option) ece391_strcpy ::
  "('m \<Rightarrow> u32 \<Rightarrow> u8 option) \<Rightarrow> (u32 \<Rightarrow> u8 \<Rightarrow> 'm \<Rightarrow> 'm option) \<Rightarrow> u32 \<Rightarrow> u32 \<Rightarrow> 'm \<Rightarrow> 'm option" where
  "ece391_strcpy ld st dst src m = do {
     c \<leftarrow> ld m src;
     m \<leftarrow> st dst c m;
     if c \<noteq> 0 then ece391_strcpy ld st (dst + 1) (src + 1) m else Some m
   }"

definition ece391_fdputs where
  "ece391_fdputs irq fd a irqs s = do {
     n \<leftarrow> ece391_strlen (uld8 s) a;
     (_, irqs, s) \<leftarrow> ece391_write irq fd a n irqs s;
     Some (irqs, s)
   }"

partial_function (option) ece391_strcmp ::
  "(u32 \<Rightarrow> u8 option) \<Rightarrow> u32 \<Rightarrow> u32 \<Rightarrow> i32 option" where
  "ece391_strcmp r s1 s2 = do {
     a \<leftarrow> r s1;
     b \<leftarrow> r s2;
     if a = b then
       if a = 0 then Some 0 else ece391_strcmp r (s1 + 1) (s2 + 1)
     else Some (ucast a - ucast b)
   }"

partial_function (option) ece391_strncmp_from ::
  "(u32 \<Rightarrow> u8 option) \<Rightarrow> u32 \<Rightarrow> u32 \<Rightarrow> u32 \<Rightarrow> i32 option" where
  "ece391_strncmp_from r s1 s2 n = do {
     a \<leftarrow> r s1;
     b \<leftarrow> r s2;
     if a = b then
       if a = 0 \<or> n - 1 = 0 then Some 0 else ece391_strncmp_from r (s1 + 1) (s2 + 1) (n - 1)
     else Some (ucast a - ucast b)
   }"

definition ece391_strncmp :: "(u32 \<Rightarrow> u8 option) \<Rightarrow> u32 \<Rightarrow> u32 \<Rightarrow> u32 \<Rightarrow> i32 option" where
  "ece391_strncmp r s1 s2 n = (if n = 0 then Some 0 else ece391_strncmp_from r s1 s2 n)"

partial_function (option) ece391_strrev_loop ::
  "('m \<Rightarrow> u32 \<Rightarrow> u8 option) \<Rightarrow> (u32 \<Rightarrow> u8 \<Rightarrow> 'm \<Rightarrow> 'm option) \<Rightarrow> u32 \<Rightarrow> i32 \<Rightarrow> i32 \<Rightarrow> 'm \<Rightarrow> 'm option"
where
  "ece391_strrev_loop ld st s beg end' m =
     (if beg <s end' then do {
        tmp \<leftarrow> ld m (s + end');
        b \<leftarrow> ld m (s + beg);
        m \<leftarrow> st (s + end') b m;
        m \<leftarrow> st (s + beg) tmp m;
        ece391_strrev_loop ld st s (beg + 1) (end' - 1) m
      }
      else Some m)"

definition ece391_strrev ::
  "('m \<Rightarrow> u32 \<Rightarrow> u8 option) \<Rightarrow> (u32 \<Rightarrow> u8 \<Rightarrow> 'm \<Rightarrow> 'm option) \<Rightarrow> u32 \<Rightarrow> 'm \<Rightarrow> 'm option" where
  "ece391_strrev ld st s m = do {
     n \<leftarrow> ece391_strlen (ld m) s;
     let end' = n - 1;
     if end' \<le>s 0 then Some m else ece391_strrev_loop ld st s 0 end' m
   }"

partial_function (option) ece391_itoa_digits ::
  "(u32 \<Rightarrow> u8 \<Rightarrow> 'm \<Rightarrow> 'm option) \<Rightarrow> u32 \<Rightarrow> u32 \<Rightarrow> i32 \<Rightarrow> 'm \<Rightarrow> (u32 \<times> 'm) option" where
  "ece391_itoa_digits st newval newbuf radix m =
     (if newval > 0 then
        if radix = 0 then None
        else do {
          c \<leftarrow> arr_get lookup_digits (unat (newval mod radix));
          m \<leftarrow> st newbuf c m;
          ece391_itoa_digits st (newval div radix) (newbuf + 1) radix m
        }
      else Some (newbuf, m))"

definition ece391_itoa ::
  "('m \<Rightarrow> u32 \<Rightarrow> u8 option) \<Rightarrow> (u32 \<Rightarrow> u8 \<Rightarrow> 'm \<Rightarrow> 'm option) \<Rightarrow> u32 \<Rightarrow> u32 \<Rightarrow> i32 \<Rightarrow> 'm \<Rightarrow> 'm option" where
  "ece391_itoa ld st value buf radix m =
     (if value = 0 then do {
        m \<leftarrow> st buf (of_char (CHR ''0'')) m;
        st (buf + 1) 0 m
      }
      else do {
        (newbuf, m) \<leftarrow> ece391_itoa_digits st value buf radix m;
        m \<leftarrow> st newbuf 0 m;
        ece391_strrev ld st buf m
      })"

section \<open>The library's string functions\<close>

lemma ece391_strlen_cstr:
  assumes "cstr_at r s cs"
  shows "ece391_strlen r s = Some (of_nat (length cs))"
proof -
  have "cstr_at r s cs \<Longrightarrow> ece391_strlen_from r s n = Some (n + of_nat (length cs))" for n
  proof (induction cs arbitrary: s n)
    case Nil
    then show ?case by (subst ece391_strlen_from.simps) (simp add: cstr_at_Nil)
  next
    case (Cons c cs)
    then show ?case by (subst ece391_strlen_from.simps) (simp add: cstr_at_Cons add.assoc)
  qed
  from this [OF assms, of 0] show ?thesis by (simp add: ece391_strlen_def)
qed

lemma byte_diff: "(ucast (c :: u8) :: i32) - ucast d = 0 \<longleftrightarrow> c = d"
proof -
  have "c = d" if "(ucast c :: i32) = ucast d"
    using arg_cong [OF that, of unat] by (simp add: unat_eqD)
  then show ?thesis by auto
qed

lemma ece391_strcmp_cstr:
  "cstr_at r s cs \<Longrightarrow> cstr_at r t ds \<Longrightarrow> \<exists>v. ece391_strcmp r s t = Some v \<and> (v = 0 \<longleftrightarrow> cs = ds)"
proof (induction cs arbitrary: s t ds)
  case Nil
  then show ?case using byte_diff [of 0]
    by (subst ece391_strcmp.simps) (cases ds; auto simp: cstr_at_Nil cstr_at_Cons)
next
  case (Cons c cs)
  show ?case
  proof (cases ds)
    case Nil
    then show ?thesis using Cons.prems byte_diff [of c 0]
      by (subst ece391_strcmp.simps) (simp add: cstr_at_Nil cstr_at_Cons)
  next
    case (Cons d ds')
    then show ?thesis using Cons.prems Cons.IH [of "s + 1" "t + 1" ds'] byte_diff [of c d]
      by (subst ece391_strcmp.simps) (auto simp: cstr_at_Cons)
  qed
qed

section \<open>The memory of a program\<close>

text \<open>
  The 4 MB from 128 MB on are those of the running process \<open>n\<close>: \<open>user_page\<close>. A program's
  objects lie there (\<open>in_program\<close>), \<open>cell_of n\<close> is where they are in physical memory.
\<close>

definition user_page :: "nat \<Rightarrow> 'a mach_scheme \<Rightarrow> bool" where
  "user_page n s \<longleftrightarrow> kernel_mapped s \<and> n < 6 \<and> page_directory s 32 = program_page n"

definition in_program :: "u32 \<Rightarrow> nat \<Rightarrow> bool" where
  "in_program a k \<longleftrightarrow> 0x8000000 \<le> unat a \<and> unat a + k \<le> 0x8400000"

definition user_addr :: "u32 \<Rightarrow> bool" where
  "user_addr a \<longleftrightarrow> 0x8000000 \<le> unat a \<and> unat a < 0x8400000"

definition cell_of :: "nat \<Rightarrow> u32 \<Rightarrow> u32" where
  "cell_of n a = of_nat ((n + 2) * 0x400000 + (unat a - 0x8000000))"

lemma in_program_offset:
  assumes "in_program a k" "i < k"
  shows "user_addr (a + of_nat i)" "unat (a + of_nat i) = unat a + i"
proof -
  have "unat (of_nat (unat a + i) :: u32) = unat a + i"
    using assms by (intro unat_of_nat_u32) (simp add: in_program_def)
  then show "unat (a + of_nat i) = unat a + i" by simp
  then show "user_addr (a + of_nat i)" using assms by (simp add: in_program_def user_addr_def)
qed

lemma in_program_take: "in_program a k \<Longrightarrow> j \<le> k \<Longrightarrow> in_program a j"
  by (simp add: in_program_def)

lemma in_program_drop: "in_program a k \<Longrightarrow> i < k \<Longrightarrow> j \<le> k - i \<Longrightarrow> in_program (a + of_nat i) j"
  using in_program_offset(2) [of a k i] by (auto simp: in_program_def)

lemma user_xlate:
  assumes "user_page n s" "user_addr a"
  shows "xlate pr s a = Some (cell_of n a)"
proof -
  have "a = OTE_MB + of_nat (unat a - 0x8000000)"
    using assms(2) of_nat_diff [of "0x8000000" "unat a", where ?'a = u32] by (simp add: user_addr_def)
  moreover have "unat a - 0x8000000 < 0x400000" using assms(2) by (simp add: user_addr_def) arith
  ultimately show ?thesis
    using program_page_xlate [of s n "unat a - 0x8000000" pr] assms(1)
    by (simp add: user_page_def kernel_mapped_def cell_of_def)
qed

lemma cell_of_nat:
  assumes "n < 6" "user_addr a"
  shows "unat (cell_of n a) = (n + 2) * 0x400000 + (unat a - 0x8000000)"
proof -
  have "unat a - 0x8000000 < 0x400000" using assms(2) by (simp add: user_addr_def) arith
  then show ?thesis unfolding cell_of_def using assms(1) by (intro unat_of_nat_u32) simp
qed

lemma cell_of_inj:
  assumes "n < 6" "user_addr a" "user_addr b" "cell_of n a = cell_of n b"
  shows "a = b"
proof -
  have "unat a = unat b"
    using arg_cong [OF assms(4), of unat] assms(2,3)
    by (simp add: cell_of_nat [OF assms(1,2)] cell_of_nat [OF assms(1,3)] user_addr_def) arith
  then show ?thesis by (rule unat_eqD)
qed

lemma user_range: "user_page n s \<Longrightarrow> in_program a k \<Longrightarrow> range_ok (xlate pr) s a k"
proof -
  assume u: "user_page n s" and a: "in_program a k"
  have x: "xlate pr s (a + of_nat i) = Some (cell_of n (a + of_nat i))" if "i < k" for i
    using u in_program_offset(1) [OF a that] by (rule user_xlate)
  have "i = j" if "i < k" "j < k" "cell_of n (a + of_nat i) = cell_of n (a + of_nat j)" for i j
  proof -
    have "a + of_nat i = a + of_nat j"
      using u in_program_offset(1) [OF a that(1)] in_program_offset(1) [OF a that(2)] that(3)
      by (intro cell_of_inj [of n "a + of_nat i"]) (simp_all only: user_page_def)
    then have "unat (a + of_nat i) = unat (a + of_nat j)" by (simp only:)
    then show "i = j" using in_program_offset(2) [OF a that(1)] in_program_offset(2) [OF a that(2)] by simp
  qed
  then show ?thesis unfolding range_ok_def by (simp add: x)
qed

lemma uld8_cell: "user_page n s \<Longrightarrow> user_addr a \<Longrightarrow> uld8 s a = Some (phys s (cell_of n a))"
  unfolding uld8_def by (subst user_xlate) simp_all

lemma uld8_ld8: "user_page n s \<Longrightarrow> user_addr a \<Longrightarrow> uld8 s a = ld8 s a"
  unfolding ld8_def by (subst user_xlate) (simp_all add: uld8_cell)

lemma user_bytes: "user_page n s \<Longrightarrow> in_program a (length bs) \<Longrightarrow> bytes_at (uld8 s) a bs \<longleftrightarrow> bytes_at (ld8 s) a bs"
  using uld8_ld8 in_program_offset(1) unfolding bytes_at_def by metis

lemma user_cstr: "user_page n s \<Longrightarrow> in_program a (length cs + 1) \<Longrightarrow> cstr_at (uld8 s) a cs \<longleftrightarrow> cstr_at (ld8 s) a cs"
  using user_bytes [of n s a "cs @ [0]"] by (simp add: cstr_at_def)

section \<open>What a running program relies on\<close>

text \<open>
  \<open>touches n B\<close>: only the program's bytes at the addresses \<open>B\<close> change. \<open>user_effect n B\<close>: besides
  that, the call may draw and change the caller's descriptors; the kernel's page (with the files,
  the tables and the control blocks), the rest of the program's memory and the pages of the other
  processes stay.
\<close>

definition span :: "u32 \<Rightarrow> nat \<Rightarrow> u32 set" where
  "span a k = (\<lambda>i. a + of_nat i) ` {..<k}"

definition touches :: "nat \<Rightarrow> u32 set \<Rightarrow> 'a mach_scheme \<Rightarrow> 'a mach_scheme \<Rightarrow> bool" where
  "touches n B s s' \<longleftrightarrow> s' = s\<lparr>phys := phys s'\<rparr> \<and> (\<forall>p. p \<notin> cell_of n ` B \<longrightarrow> phys s' p = phys s p)"

definition user_effect :: "nat \<Rightarrow> u32 set \<Rightarrow> 'a proc_state_scheme \<Rightarrow> 'a proc_state_scheme \<Rightarrow> bool" where
  "user_effect n B s s' \<longleftrightarrow> undisturbed s s' \<and> boot_block s' = boot_block s \<and> stack_junk s' = stack_junk s \<and>
     term_in_service s' = term_in_service s \<and> cur_term_num s' = cur_term_num s \<and> stack_pcb s' = stack_pcb s \<and>
     (\<forall>a. region a = 1 \<longrightarrow> phys s' a = phys s a) \<and>
     (\<forall>p. 0x800000 \<le> unat p \<longrightarrow> (\<forall>a. user_addr a \<longrightarrow> p \<noteq> cell_of n a) \<longrightarrow> phys s' p = phys s p) \<and>
     (\<forall>a. user_addr a \<longrightarrow> a \<notin> B \<longrightarrow> phys s' (cell_of n a) = phys s (cell_of n a))"

interpretation ue: effect "user_effect n B" for n B
proof
  fix s s1 s2 :: "'a proc_state_scheme"
  assume "user_effect n B s s1" "user_effect n B s1 s2"
  then show "user_effect n B s s2" using calm.eff_trans [of s s1 s2] by (simp add: user_effect_def)
qed (simp add: user_effect_def calm.eff_refl)

lemma user_effect_mono: "user_effect n B s s' \<Longrightarrow> B \<subseteq> C \<Longrightarrow> user_effect n C s s'"
  by (auto simp: user_effect_def)

lemma user_effect_step: "user_effect n B s s1 \<Longrightarrow> user_effect n C s1 s2 \<Longrightarrow> user_effect n (B \<union> C) s s2"
  by (rule ue.eff_trans [of n "B \<union> C" s s1]) (auto intro: user_effect_mono)

text \<open>A program that runs on a terminal whose screen is \<open>con\<close>.\<close>

definition running :: "nat \<Rightarrow> console \<Rightarrow> 'a proc_state_scheme \<Rightarrow> bool" where
  "running n con s \<longleftrightarrow> user_page n s \<and> console s (unat (term_in_service s)) con \<and> table_ok (own_table s)"

lemma span_in_program: "in_program a k \<Longrightarrow> b \<in> span a k \<Longrightarrow> user_addr b"
  by (auto simp: span_def intro: in_program_offset(1))

lemma in_program_iff_span: "user_addr b \<Longrightarrow> b \<notin> span a k \<Longrightarrow> i < k \<Longrightarrow> b \<noteq> a + of_nat i"
  by (auto simp: span_def)

lemma cell_of_high: "n < 6 \<Longrightarrow> user_addr a \<Longrightarrow> 0x800000 \<le> unat (cell_of n a)"
  by (simp add: cell_of_nat)

lemma region_low: "region a = 1 \<Longrightarrow> 0x400000 \<le> unat a \<and> unat a < 0x800000"
proof -
  assume "region a = 1"
  moreover have "region a = unat a div 2 ^ 22"
    using small_address(1) [of "unat a"] unat_u32_less [of a] by simp
  ultimately have "unat a div 0x400000 = 1" by simp
  then show ?thesis using mult_div_mod_eq [of "0x400000" "unat a"] mod_less_divisor [of "0x400000" "unat a"]
    by simp
qed

lemma frame_low:
  assumes "t < 3" "k < 4096"
  shows "unat (frame_for s t + of_nat k) < 0x100000"
proof -
  have slot: "slot_of s t < 4" using assms(1) by (simp add: slot_of_def)
  have "unat (frame_for s t + of_nat k) = (0xB8 + slot_of s t) * 4096 + k"
    unfolding frame_for_slot of_nat_add [symmetric] using slot assms(2) by (intro unat_of_nat_u32) simp
  then show ?thesis using slot assms(2) by simp
qed

lemma not_in_frame:
  assumes "t < 3" "0x400000 \<le> unat p"
  shows "\<not> unat (p - frame_for s t) < 4096"
proof
  assume d: "unat (p - frame_for s t) < 4096"
  have "p = frame_for s t + of_nat (unat (p - frame_for s t))" by simp
  then have "unat p < 0x100000" using frame_low [OF assms(1) d, of s] by simp
  then show False using assms(2) by simp
qed

lemma stored_touches:
  assumes "mem_stored s a bs s'" "user_page n s" "in_program a (length bs)"
  shows "touches n (span a (length bs)) s s'"
proof -
  have "phys s' p = phys s p" if "p \<notin> cell_of n ` span a (length bs)" for p
  proof (rule mem_stored_frame [OF assms(1)])
    fix i assume i: "i < length bs"
    then have "xlate Supervisor s (a + of_nat i) = Some (cell_of n (a + of_nat i))"
      using assms(2,3) in_program_offset(1) by (intro user_xlate)
    then show "xlate Supervisor s (a + of_nat i) \<noteq> Some p" using that i by (auto simp: span_def)
  qed
  then show ?thesis using mem_stored_phys [OF assms(1)] by (simp add: touches_def)
qed

lemma ust8_touches:
  assumes "user_page n s" "user_addr a"
  shows "\<exists>s'. ust8 a v s = Some s' \<and> touches n {a} s s' \<and> phys s' (cell_of n a) = v"
  unfolding ust8_def user_xlate [OF assms] by (simp add: touches_def)

lemma touches_effect:
  assumes t: "touches n B s s'" and n: "n < 6" and B: "\<And>b. b \<in> B \<Longrightarrow> user_addr b"
  shows "user_effect n B s s'"
proof -
  have e: "s' = s\<lparr>phys := phys s'\<rparr>" using t by (simp add: touches_def)
  then have "in_memory s s'" by (simp add: in_memory_def)
  then have "undisturbed s s'" using memory_serving by (auto simp: serving_def)
  moreover have "boot_block s' = boot_block s" "stack_junk s' = stack_junk s" "term_in_service s' = term_in_service s"
    "cur_term_num s' = cur_term_num s" "stack_pcb s' = stack_pcb s"
    by (subst e, simp)+
  moreover have "phys s' a = phys s a" if "region a = 1" for a
  proof -
    have "a \<notin> cell_of n ` B" using region_low [OF that] cell_of_high [OF n B] by fastforce
    then show ?thesis using t by (simp add: touches_def)
  qed
  moreover have "phys s' (cell_of n a) = phys s (cell_of n a)" if "user_addr a" "a \<notin> B" for a
  proof -
    have "cell_of n a \<notin> cell_of n ` B" using that cell_of_inj [OF n that(1) B] by blast
    then show ?thesis using t by (simp add: touches_def)
  qed
  moreover have "phys s' p = phys s p" if "\<forall>a. user_addr a \<longrightarrow> p \<noteq> cell_of n a" for p
  proof -
    have "p \<notin> cell_of n ` B" using that B by blast
    then show ?thesis using t by (simp add: touches_def)
  qed
  ultimately show ?thesis by (simp add: user_effect_def)
qed

lemma effect_page: "user_effect n B s s' \<Longrightarrow> user_page m s \<Longrightarrow> user_page m s'"
  by (simp add: user_effect_def undisturbed_def user_page_def kernel_mapped_def)

lemma effect_kernel:
  "user_effect n B s s' \<Longrightarrow> user_page n s \<Longrightarrow> region a = 1 \<Longrightarrow> ld8 s' a = ld8 s a"
  using kernel_page_xlate [of s a] kernel_page_xlate [of s' a] effect_page [of n B s s' n]
  by (simp add: ld8_def user_page_def user_effect_def)

lemma effect_user:
  "user_effect n B s s' \<Longrightarrow> user_page n s \<Longrightarrow> user_addr a \<Longrightarrow> a \<notin> B \<Longrightarrow> uld8 s' a = uld8 s a"
  using uld8_cell [of n s a] uld8_cell [of n s' a] effect_page [of n B s s' n]
  by (simp add: user_effect_def)

lemma effect_bytes:
  assumes "user_effect n B s s'" "user_page n s" "in_program a (length bs)" "span a (length bs) \<inter> B = {}"
  shows "bytes_at (uld8 s') a bs \<longleftrightarrow> bytes_at (uld8 s) a bs"
proof -
  have "uld8 s' (a + of_nat i) = uld8 s (a + of_nat i)" if "i < length bs" for i
    using that assms(4) in_program_offset(1) [OF assms(3) that]
    by (intro effect_user [OF assms(1,2)]) (auto simp: span_def)
  then show ?thesis by (simp add: bytes_at_def)
qed

lemma effect_cstr:
  "user_effect n B s s' \<Longrightarrow> user_page n s \<Longrightarrow> in_program a (Suc (length cs)) \<Longrightarrow> span a (Suc (length cs)) \<inter> B = {} \<Longrightarrow>
     cstr_at (uld8 s') a cs \<longleftrightarrow> cstr_at (uld8 s) a cs"
  using effect_bytes [of n B s s' a "cs @ [0]"] by (simp add: cstr_at_def)

lemma in_memory_fields:
  fixes s s' :: "'a proc_state_scheme"
  assumes "s' = s\<lparr>phys := p\<rparr>"
  shows "term_in_service s' = term_in_service s" "own_table s' = own_table s" "dir_location s' = dir_location s"
    "boot_block s' = boot_block s" "own_loc s' = own_loc s" "pcb_at s' = pcb_at s" "rtc_opened s' = rtc_opened s"
    "frame_for s' t = frame_for s t" "video_ok s' = video_ok s" "terminal_buf s' = terminal_buf s"
  using assms by (simp_all add: own_table_def get_process_number_def frame_for_def video_ok_def linked_def)

lemma running_touches:
  assumes r: "running n con s" and t: "touches n B s s'" and B: "\<And>b. b \<in> B \<Longrightarrow> user_addr b"
  shows "running n con s'" "user_effect n B s s'" "own_table s' = own_table s" "dir_location s' = dir_location s"
proof -
  have n: "n < 6" "user_page n s" using r by (simp_all add: running_def user_page_def)
  show ue: "user_effect n B s s'" using t n(1) B by (rule touches_effect)
  obtain p where e: "s' = s\<lparr>phys := p\<rparr>" using t by (auto simp: touches_def)
  note f = in_memory_fields [OF e]
  show "own_table s' = own_table s" "dir_location s' = dir_location s" by (rule f)+
  obtain g x y where con: "con = (g, x, y)" by (cases con)
  let ?t = "unat (term_in_service s)" and ?F = "frame_for s (unat (term_in_service s))"
  have c: "console s ?t (g, x, y)" using r by (simp add: running_def con)
  have "phys s' (?F + of_nat k) = phys s (?F + of_nat k)" if k: "k < 4096" for k
  proof -
    have "?t < 3" using c by (simp add: console_def)
    then have "?F + of_nat k \<notin> cell_of n ` B"
      using frame_low [of ?t k s] k cell_of_high [OF n(1) B] by fastforce
    then show ?thesis using t by (simp add: touches_def)
  qed
  then have "page_bytes s' ?F = page_bytes s ?F" by (simp add: page_bytes_def)
  then have "console s' ?t con"
    using c by (simp add: con console_def f) (simp add: e)
  then show "running n con s'"
    using r effect_page [OF ue] by (simp add: running_def f)
qed

lemma elsewhere_effect:
  fixes s s' :: "'a proc_state_scheme"
  assumes e: "elsewhere t s s'" and t: "t < 3" and n: "n < 6"
  shows "user_effect n {} s s'" "own_table s' = own_table s" "dir_location s' = dir_location s"
    "term_in_service s' = term_in_service s" "boot_block s' = boot_block s" "pcb_at s' = pcb_at s" "esp s' = esp s" "buf_sent s' = buf_sent s"
proof -
  have d: "in_drawing s s'" using e by (simp add: elsewhere_def in_drawing_def)
  have p: "phys s' a = phys s a" if "0x400000 \<le> unat a" for a
    using e not_in_frame [OF t that, of s] unfolding elsewhere_def by blast
  obtain p w l x y cx cy where s': "s' = s\<lparr>phys := p, page_table_vid := (page_table_vid s)(0 := w), io := l,
       screen_x := x, screen_y := y, term_cursor_x := cx, term_cursor_y := cy\<rparr>"
    using d unfolding in_drawing_def by blast
  show "own_table s' = own_table s" "dir_location s' = dir_location s" "term_in_service s' = term_in_service s"
    "boot_block s' = boot_block s" "pcb_at s' = pcb_at s" "esp s' = esp s" "buf_sent s' = buf_sent s"
    by (simp_all add: s' own_table_def get_process_number_def)
  have "stack_junk s' = stack_junk s" "boot_block s' = boot_block s" "term_in_service s' = term_in_service s"
    "cur_term_num s' = cur_term_num s" "stack_pcb s' = stack_pcb s"
    by (simp_all add: s')
  moreover have "undisturbed s s'" using drawing_serving [OF d] by (simp add: serving_def)
  moreover have "phys s' a = phys s a" if "region a = 1" for a
    using region_low [OF that] by (intro p) simp
  moreover have "phys s' (cell_of n a) = phys s (cell_of n a)" if "user_addr a" for a
    using cell_of_high [OF n that] by (intro p) simp
  moreover have "phys s' q = phys s q" if "0x800000 \<le> unat q" for q
    using that by (intro p) simp
  ultimately show "user_effect n {} s s'" by (simp add: user_effect_def)
qed

section \<open>Calls, as the program sees them\<close>

lemma do_call_write: "do_call irq 4 fd buf n irqs s = map_option (\<lambda>(v, s). (v, irqs, s)) (sys_write fd buf n s)"
  by (cases "sys_write fd buf n s") (auto simp: do_call_def syscall_def word_sless_alt)

lemma do_call_read: "do_call irq 3 fd buf n irqs s = sys_read irq irqs fd buf n s"
  by (cases "sys_read irq irqs fd buf n s") (auto simp: do_call_def syscall_def word_sless_alt)

lemma do_call_open: "do_call irq 5 a b c irqs s = map_option (\<lambda>(v, s). (v, irqs, s)) (sys_open a s)"
  by (cases "sys_open a s") (auto simp: do_call_def syscall_def word_sless_alt)

lemma do_call_close: "do_call irq 6 a b c irqs s = map_option (\<lambda>(v, s). (v, irqs, s)) (sys_close a s)"
  by (cases "sys_close a s") (auto simp: do_call_def syscall_def word_sless_alt)

lemma do_call_getargs: "do_call irq 7 a b c irqs s = map_option (\<lambda>(v, s). (v, irqs, s)) (sys_getargs a b s)"
  by (cases "sys_getargs a b s") (auto simp: do_call_def syscall_def word_sless_alt)

lemma do_call_vidmap: "do_call irq 8 a b c irqs s = map_option (\<lambda>(v, s). (v, irqs, s)) (sys_vidmap a s)"
  by (cases "sys_vidmap a s") (auto simp: do_call_def syscall_def word_sless_alt)

lemmas user_calls = ece391_read_def ece391_write_def ece391_open_def ece391_close_def ece391_getargs_def
  ece391_vidmap_def do_call_read do_call_write do_call_open do_call_close do_call_getargs do_call_vidmap

lemma sys_write_screen: "table_ok (own_table s) \<Longrightarrow> sys_write 1 buf m s = terminal_write buf m s"
  for s :: "'a proc_state_scheme"
proof -
  assume t: "table_ok (own_table s)"
  then have "get_desc (own_loc s) 1 s = Some (own_table s ! 1)"
    by (simp add: get_desc_own table_ok_def)
  then show ?thesis using t by (simp add: sys_write_def Let_def table_ok_def word_sless_alt word_sle_eq)
qed

lemma write_types:
  fixes s :: "'a proc_state_scheme"
  assumes r: "running n con s" and a: "in_program a (length cs)" "bytes_at (uld8 s) a cs"
    and m: "nat (sint m) = length cs"
  shows "\<exists>s'. ece391_write irq 1 a m irqs s = Some (0, irqs, s') \<and> running n (fold type_char cs con) s' \<and>
    user_effect n {} s s' \<and> own_table s' = own_table s \<and> dir_location s' = dir_location s \<and> buf_sent s' = buf_sent s"
proof -
  let ?t = "unat (term_in_service s)"
  have u: "user_page n s" "n < 6" "console s ?t con" "?t < 3" and t: "table_ok (own_table s)"
    using r by (auto simp: running_def user_page_def console_def split: prod.splits)
  have rd: "ld8 s' (a + of_nat i) = Some (cs ! i)" if "elsewhere ?t s s'" "i < length cs" for s' i
  proof -
    note e = elsewhere_effect(1) [OF that(1) u(4,2)]
    have "ld8 s' (a + of_nat i) = uld8 s' (a + of_nat i)"
      using uld8_ld8 [OF effect_page [OF e u(1)] in_program_offset(1) [OF a(1) that(2)]] by simp
    also have "\<dots> = uld8 s (a + of_nat i)"
      using effect_user [OF e u(1) in_program_offset(1) [OF a(1) that(2)]] by simp
    finally show ?thesis using bytes_at_nth [OF a(2) that(2)] by simp
  qed
  obtain s1 where s1: "for_each (\<lambda>i s. do { c \<leftarrow> ld8 s (a + of_nat i); putc c s }) [0..<length cs] s = Some s1"
    "console s1 ?t (fold type_char cs con)" "elsewhere ?t s s1"
    using putc_run [OF u(3) refl, of cs ld8 a] rd by blast
  note e = elsewhere_effect [OF s1(3) u(4,2)]
  let ?s' = "s1\<lparr>x_start_tw := screen_x s1, y_start_tw := screen_y s1, override_start := 1\<rparr>"
  have "serving s1 ?s'" by (rule set_flag_serving(5))
  then have e': "user_effect n {} s1 ?s'" by (simp add: user_effect_def serving_def)
  have own: "own_table ?s' = own_table s"
    using e(2) by (simp add: own_table_def get_process_number_def)
  have "console ?s' ?t (fold type_char cs con)"
    using s1(2) by (auto simp: console_def video_ok_def linked_def frame_for_def page_bytes_def split: prod.splits)
  then have "running n (fold type_char cs con) ?s'"
    using effect_page [OF e' effect_page [OF e(1) u(1)]] own t e(4) by (simp add: running_def)
  moreover have "user_effect n {} s ?s'" using e(1) e' by (rule ue.eff_trans)
  moreover have "ece391_write irq 1 a m irqs s = Some (0, irqs, ?s')"
    using s1(1) by (simp add: user_calls sys_write_screen [OF t] terminal_write_def m)
  ultimately show ?thesis using own e(3,8) by auto
qed

lemma fdputs_types:
  fixes s :: "'a proc_state_scheme"
  assumes r: "running n con s" and a: "in_program a (Suc (length cs))" "cstr_at (uld8 s) a cs"
  shows "\<exists>s'. ece391_fdputs irq 1 a irqs s = Some (irqs, s') \<and> running n (fold type_char cs con) s' \<and>
    user_effect n {} s s' \<and> own_table s' = own_table s \<and> dir_location s' = dir_location s \<and> buf_sent s' = buf_sent s"
proof -
  have l: "length cs < 0x400000" using a(1) by (simp add: in_program_def)
  then have "nat (sint (of_nat (length cs) :: i32)) = length cs" by (simp add: sint_of_nat_u32)
  moreover have "bytes_at (uld8 s) a cs" using a(2) by (simp add: cstr_at_def bytes_at_append)
  moreover have "in_program a (length cs)" using a(1) by (rule in_program_take) simp
  ultimately show ?thesis
    using write_types [OF r, of a cs "of_nat (length cs)" irq irqs] ece391_strlen_cstr [OF a(2)]
    by (auto simp: ece391_fdputs_def)
qed

text \<open>The argument string, as \<open>sys_execute\<close> stores it.\<close>

definition argument_is :: "'a proc_state_scheme \<Rightarrow> u8 list \<Rightarrow> bool" where
  "argument_is s cs \<longleftrightarrow> arg (pcb_at s (own_loc s)) = cs @ replicate (128 - length cs) 0 \<and>
     length cs \<le> 128 \<and> cs \<noteq> [] \<and> 0 \<notin> set cs \<and> arg_size (pcb_at s (own_loc s)) = of_nat (length cs)"

lemma getargs_returns:
  fixes s :: "'a proc_state_scheme"
  assumes r: "running n con s" and g: "argument_is s cs" and k: "128 \<le> k" "k < 2 ^ 31" and b: "in_program buf 129"
  shows "\<exists>s'. ece391_getargs irq buf (of_nat k) irqs s = Some (0, irqs, s') \<and> running n con s' \<and>
    user_effect n (span buf 129) s s' \<and> own_table s' = own_table s \<and> dir_location s' = dir_location s \<and>
    cstr_at (uld8 s') buf cs"
proof -
  have u: "user_page n s" using r by (simp add: running_def)
  have mk: "min 128 k = 128" using k by simp
  have "range_ok (xlate Supervisor) s buf (min 128 k + 1)"
    unfolding mk using user_range [OF u b] by simp
  moreover have "buf \<noteq> 0" using b by (auto simp: in_program_def)
  ultimately obtain s' where s': "sys_getargs buf (of_nat k) s = Some (0, s')"
    "mem_stored s buf (take (min 128 k) (arg (pcb_at s (own_loc s))) @ [0]) s'" "cstr_at (ld8 s') buf cs"
    using sys_getargs_copies [of s _ cs k buf] g k unfolding argument_is_def by auto
  have len: "length (take (min 128 k) (arg (pcb_at s (own_loc s))) @ [0]) = 129"
    using g mk by (simp add: argument_is_def)
  have t: "touches n (span buf 129) s s'" using stored_touches [OF s'(2) u] b unfolding len by simp
  note R = running_touches [OF r t span_in_program [OF b]]
  have "cstr_at (uld8 s') buf cs"
    using user_cstr [OF effect_page [OF R(2) u], of buf cs] s'(3) in_program_take [OF b, of "length cs + 1"] g
    by (simp add: argument_is_def)
  then show ?thesis using R s'(1) by (simp add: user_calls)
qed

text \<open>\<open>sys_open\<close> changes descriptors, and the clock driver and its ports when it opens the clock.\<close>

definition quietly :: "'a proc_state_scheme \<Rightarrow> 'a proc_state_scheme \<Rightarrow> bool" where
  "quietly s s' \<longleftrightarrow> s' = s\<lparr>io := io s', int_flag := int_flag s', rtc_opened := rtc_opened s', pcb_at := pcb_at s'\<rparr>"

interpretation qt: effect quietly
proof
  fix s s1 s2 :: "'a proc_state_scheme"
  assume "quietly s s1" "quietly s1 s2"
  note e = this [unfolded quietly_def]
  show "quietly s s2" unfolding quietly_def by (subst e(2), subst e(1)) simp
qed (simp add: quietly_def)

lemma set_desc_quiet: "set_desc loc fd d s = Some s' \<Longrightarrow> quietly s s'"
  by (auto simp: set_desc_def quietly_def Option.bind_eq_Some_conv)

lemma open_as_quiet: "open_as loc i n f s = Some s' \<Longrightarrow> quietly s s'"
  by (auto simp: open_as_def Option.bind_eq_Some_conv dest: set_desc_quiet)

lemma rtc_open_quiet: "quietly s (snd (rtc_open s))"
  for s :: "'a proc_state_scheme"
  by (simp add: rtc_open_def port_defs quietly_def Let_def)

lemma sys_open_quiet:
  fixes s :: "'a proc_state_scheme"
  assumes "sys_open filename s = Some (v, s')"
  shows "quietly s s'"
  using assms unfolding sys_open_def Let_def
  by (auto simp: Option.bind_eq_Some_conv case_prod_beta qt.eff_refl split: if_splits
      dest!: set_desc_quiet open_as_quiet) (blast intro: qt.eff_trans rtc_open_quiet)+

lemma quiet_fields:
  assumes "quietly s s'"
  shows "phys s' = phys s" "boot_block s' = boot_block s" "stack_junk s' = stack_junk s" "dir_location s' = dir_location s"
    "term_in_service s' = term_in_service s" "console s' t con = console s t con" "esp s' = esp s"
    "cur_term_num s' = cur_term_num s" "stack_pcb s' = stack_pcb s"
proof -
  have e: "s' = s\<lparr>io := io s', int_flag := int_flag s', rtc_opened := rtc_opened s', pcb_at := pcb_at s'\<rparr>"
    using assms by (simp only: quietly_def)
  show "phys s' = phys s" "boot_block s' = boot_block s" "stack_junk s' = stack_junk s" "dir_location s' = dir_location s"
    "term_in_service s' = term_in_service s" "console s' t con = console s t con" "esp s' = esp s"
    "cur_term_num s' = cur_term_num s" "stack_pcb s' = stack_pcb s"
    by (subst e, simp add: console_def video_ok_def linked_def page_bytes_def frame_for_def)+
qed

lemma open_returns:
  fixes s :: "'a proc_state_scheme"
  assumes r: "running n con s" and dir: "directory (ld8 s) (boot_block s) es" "length (stack_junk s) = 64"
    and a: "in_program a (Suc (length nm))" "cstr_at (uld8 s) a nm"
    and e: "find (\<lambda>e. ename e = nm) es = Some e" and i: "find (\<lambda>i. flags (own_table s ! i) = 0) [2..<8] = Some i"
  shows "\<exists>s'. ece391_open irq a irqs s = Some (of_nat i, irqs, s') \<and> running n con s' \<and> user_effect n {} s s' \<and>
    own_table s' = (own_table s)[i := opened e] \<and> dir_location s' = dir_location s \<and> own_loc s' = own_loc s \<and>
    (file_type e = Some 0 \<longrightarrow> rtc_opened s' = 1) \<and> quietly s s'"
proof -
  have u: "user_page n s" and t: "table_ok (own_table s)" using r by (simp_all add: running_def)
  have nm: "cstr_at (ld8 s) a nm" using user_cstr [OF u, of a nm] a by simp
  obtain s' where s': "sys_open a s = Some (of_nat i, s')"
    "pcb_at s' = (pcb_at s)(own_loc s := (pcb_at s (own_loc s))\<lparr>file_descs := (own_table s)[i := opened e]\<rparr>)"
    "file_type e = Some 0 \<longrightarrow> rtc_opened s' = 1"
    using sys_open_spec [OF dir nm] e i t by (auto simp: own_table_def table_ok_def)
  have sv: "serving s s'" using dir nm s'(1) by (rule sys_open_serving)
  note q = quiet_fields [OF sys_open_quiet [OF s'(1)]]
  have ue: "user_effect n {} s s'" using sv q by (simp add: user_effect_def serving_def)
  have own: "own_loc s' = own_loc s" using q(7) by (rule own_loc_kept)
  then have "own_table s' = (own_table s)[i := opened e]" by (simp add: own_table_def s'(2))
  moreover have "running n con s'"
    using r sv effect_page [OF ue u] t by (simp add: running_def q serving_def)
  moreover have "quietly s s'" using s'(1) by (rule sys_open_quiet)
  ultimately show ?thesis using s'(1,3) ue own q(4) by (simp add: user_calls)
qed

lemma open_refused:
  fixes s :: "'a proc_state_scheme"
  assumes r: "running n con s" and dir: "directory (ld8 s) (boot_block s) es" "length (stack_junk s) = 64"
    and a: "in_program a (Suc (length nm))" "cstr_at (uld8 s) a nm"
    and e: "find (\<lambda>e. ename e = nm) es = None \<or> find (\<lambda>i. flags (own_table s ! i) = 0) [2..<8] = None"
  shows "ece391_open irq a irqs s = Some (-1, irqs, s)"
proof -
  have u: "user_page n s" and t: "table_ok (own_table s)" using r by (simp_all add: running_def)
  have nm: "cstr_at (ld8 s) a nm" using user_cstr [OF u, of a nm] a by simp
  have "sys_open a s = Some (-1, s)"
    using sys_open_spec [OF dir nm] e t by (auto simp: own_table_def table_ok_def split: option.splits)
  then show ?thesis by (simp add: user_calls)
qed

lemma sys_close_quiet:
  fixes s :: "'a proc_state_scheme"
  assumes "sys_close fd s = Some (0, s')"
  shows "quietly s s'"
proof -
  have c: "quietly s s1" if "fot_close f s = Some (w, s1)" "w \<noteq> -1" for f w s1
    using that by (cases f) (auto simp: rtc_close_def quietly_def Option.bind_eq_Some_conv split: if_splits)
  show ?thesis
    using assms unfolding sys_close_def Let_def
    by (auto simp: Option.bind_eq_Some_conv qt.eff_refl split: if_splits dest!: set_desc_quiet c) (blast intro: qt.eff_trans)+
qed

lemma close_returns:
  fixes s :: "'a proc_state_scheme"
  assumes r: "running n con s" and i: "2 \<le> i" "i < 8" "own_table s ! i = opened e"
    and rtc: "file_type e = Some 0 \<longrightarrow> rtc_opened s \<noteq> 0"
  shows "\<exists>s'. ece391_close irq (of_nat i) irqs s = Some (0, irqs, s') \<and> running n con s' \<and> user_effect n {} s s' \<and>
    own_table s' = (own_table s)[i := (opened e)\<lparr>flags := 0\<rparr>]"
proof -
  have u: "user_page n s" and t: "table_ok (own_table s)" using r by (simp_all add: running_def)
  obtain s' where s': "sys_close (of_nat i) s = Some (0, s')" "own_table s' = (own_table s)[i := (opened e)\<lparr>flags := 0\<rparr>]"
    using sys_close_opened [OF i(1,2) _ i(3) rtc] t by (auto simp: table_ok_def)
  have sv: "serving s s'" using s'(1) by (rule sys_close_serving)
  note q = quiet_fields [OF sys_close_quiet [OF s'(1)]]
  have ue: "user_effect n {} s s'" using sv q by (simp add: user_effect_def serving_def)
  have "running n con s'" using r sv effect_page [OF ue u] t by (simp add: running_def q serving_def)
  then show ?thesis using s' ue by (simp add: user_calls)
qed

section \<open>Files\<close>

text \<open>
  A file of the module: \<open>bs\<close> is all its blocks hold, \<open>l\<close> its length; everything lies in the
  kernel's page.
\<close>

definition module_file :: "(u32 \<Rightarrow> u8 option) \<Rightarrow> u32 \<Rightarrow> u32 \<Rightarrow> i32 \<Rightarrow> u32 list \<Rightarrow> u8 list \<Rightarrow> u32 \<Rightarrow> bool" where
  "module_file r bb ino c blks bs l \<longleftrightarrow>
     file_at r bb (inode_address bb ino) c blks bs \<and> inode_length r (inode_address bb ino) = Some l \<and>
     length bs = 4096 * length blks \<and> unat l \<le> length bs \<and> length bs < 2 ^ 31 \<and>
     (\<forall>j < 4. region (bb + 4 + of_nat j) = 1 \<and> region (inode_address bb ino + of_nat j) = 1) \<and>
     (\<forall>i < length blks. \<forall>j < 4. region (inode_address bb ino + 4 + 4 * of_nat i + of_nat j) = 1) \<and>
     (\<forall>k < length bs. region (block_byte bb c blks k) = 1)"

lemma module_file_cong:
  assumes "module_file r bb ino c blks bs l" "\<And>a. region a = 1 \<Longrightarrow> r' a = r a"
  shows "module_file r' bb ino c blks bs l"
proof -
  have 4: "ld32 r' a = ld32 r a" if "\<forall>j < 4. region (a + of_nat j) = 1" for a
    using that assms(2) by (intro ld32_cong) blast
  have "inode_count r' bb = inode_count r bb" "inode_length r' (inode_address bb ino) = inode_length r (inode_address bb ino)"
    "\<forall>i < length blks. data_block_num r' (inode_address bb ino) (of_nat i) = data_block_num r (inode_address bb ino) (of_nat i)"
    using assms(1) 4 unfolding inode_count_def inode_length_def data_block_num_def module_file_def by blast+
  then show ?thesis using assms by (simp add: module_file_def file_at_def)
qed

lemma effect_file:
  assumes "user_effect n B s s'" "user_page n s" "module_file (ld8 s) (boot_block s) ino c blks bs l"
  shows "module_file (ld8 s') (boot_block s') ino c blks bs l"
proof -
  have "boot_block s' = boot_block s" using assms(1) by (simp add: user_effect_def)
  then show ?thesis
    using module_file_cong [OF assms(3), of "ld8 s'"] effect_kernel [OF assms(1,2)] by simp
qed

lemma user_outside:
  assumes u: "user_page n s" and a: "in_program a k" and b: "region b = 1"
  shows "outside (xlate Supervisor) s a k b"
  unfolding outside_def
proof (intro allI impI)
  fix i assume "i < k"
  note x = in_program_offset(1) [OF a this]
  have "b \<noteq> cell_of n (a + of_nat i)"
    using region_low [OF b] cell_of_high [OF _ x, of n] u by (auto simp: user_page_def)
  then show "xlate Supervisor s b \<noteq> xlate Supervisor s (a + of_nat i)"
    using kernel_page_xlate [OF _ b, of s] user_xlate [OF u x, of Supervisor] u by (simp add: user_page_def)
qed

lemma module_file_apart:
  "module_file r bb ino c blks bs l \<Longrightarrow> user_page n s \<Longrightarrow> in_program a k \<Longrightarrow>
     file_apart (xlate Supervisor) s a k bb (inode_address bb ino) c blks (length bs)"
  using user_outside [of n s a k] by (simp add: file_apart_def apart_def module_file_def)

lemma pcb_effect:
  fixes s s' :: "'a proc_state_scheme"
  assumes "user_effect n B s s1" "s' = s1\<lparr>pcb_at := pcb_at s'\<rparr>" "undisturbed s s'"
  shows "user_effect n B s s'"
proof -
  obtain f where "s' = s1\<lparr>pcb_at := f\<rparr>" using assms(2) by blast
  then show ?thesis using assms(1,3) by (simp add: user_effect_def)
qed

text \<open>In memory, a call changes at most the addresses \<open>B\<close> of the program.\<close>

definition only_cells :: "nat \<Rightarrow> u32 set \<Rightarrow> 'a mach_scheme \<Rightarrow> 'a mach_scheme \<Rightarrow> bool" where
  "only_cells n B s s' \<longleftrightarrow> (\<forall>p. p \<notin> cell_of n ` B \<longrightarrow> phys s' p = phys s p) \<and> (\<forall>pr. xlate pr s' = xlate pr s)"

lemma quiet_cells: "quietly s s' \<Longrightarrow> only_cells n B s s'"
proof -
  assume "quietly s s'"
  then obtain w x y z where "s' = s\<lparr>io := w, int_flag := x, rtc_opened := y, pcb_at := z\<rparr>" unfolding quietly_def by blast
  then show ?thesis by (simp add: only_cells_def fun_eq_iff xlate_def table_at_def Let_def)
qed

lemma read_file_memory:
  fixes s :: "'a proc_state_scheme"
  assumes r: "running n con s" and i: "i \<in> {2..<8}" and d: "own_table s ! i = d" "fot_ptr d = File_fot" "flags d = 1"
    and f: "module_file (ld8 s) (boot_block s) (inode d) c blks bs l" and b: "in_program buf k"
    and p: "unat (file_position d) < unat l" "unat (file_position d) + k \<le> length bs"
  shows "\<exists>s'. ece391_read irq (of_nat i) buf (of_nat k) irqs s = Some (of_nat k, irqs, s') \<and> running n con s' \<and>
    user_effect n (span buf k) s s' \<and> dir_location s' = dir_location s \<and>
    bytes_at (uld8 s') buf (take k (drop (unat (file_position d)) bs)) \<and>
    own_table s' = (own_table s)[i := d\<lparr>file_position := file_position d + of_nat k\<rparr>] \<and> only_cells n (span buf k) s s'"
proof -
  have u: "user_page n s" and t: "table_ok (own_table s)" using r by (simp_all add: running_def)
  have k: "unat (of_nat k :: u32) = k" using b by (intro unat_of_nat_u32) (simp add: in_program_def)
  let ?bs = "take k (drop (unat (file_position d)) bs)"
  have len: "length ?bs = k" using p by simp
  have fa: "file_at (ld8 s) (boot_block s) (inode_address (boot_block s) (inode d)) c blks bs"
    "inode_length (ld8 s) (inode_address (boot_block s) (inode d)) = Some l"
    using f by (simp_all add: module_file_def)
  obtain s1 s' where s': "sys_read irq irqs (of_nat i) buf (of_nat k) s = Some (of_nat k, irqs, s')"
    "bytes_at (ld8 s') buf ?bs" "own_table s' = (own_table s)[i := d\<lparr>file_position := file_position d + of_nat k\<rparr>]"
    "undisturbed s s'" "mem_stored s buf ?bs s1" "s' = s1\<lparr>pcb_at := pcb_at s'\<rparr>"
    using sys_read_file [OF _ _ d fa, of buf "of_nat k" irq irqs] i t user_range [OF u b, of Supervisor]
      module_file_apart [OF f u b] p f by (auto simp: k table_ok_def module_file_def word_less_nat_alt)
  have tc: "touches n (span buf k) s s1" using stored_touches [OF s'(5) u] b unfolding len by simp
  note R = running_touches [OF r tc span_in_program [OF b]]
  have ue: "user_effect n (span buf k) s s'" using pcb_effect [OF R(2) s'(6,4)] .
  obtain g where g: "s' = s1\<lparr>pcb_at := g\<rparr>" using s'(6) by blast
  have "table_ok (own_table s')"
    unfolding s'(3) using t i d by (intro table_ok_update) (simp_all add: desc_ok_def)
  moreover have "console s' (unat (term_in_service s')) con"
    using R(1) by (auto simp: running_def g console_def video_ok_def linked_def page_bytes_def frame_for_def split: prod.splits)
  ultimately have "running n con s'" using effect_page [OF ue u] by (simp add: running_def)
  moreover have "bytes_at (uld8 s') buf ?bs"
    using user_bytes [OF effect_page [OF ue u], of buf ?bs] b s'(2) len by simp
  moreover have "dir_location s' = dir_location s" using R(4) by (simp add: g)
  moreover have "only_cells n (span buf k) s s'"
  proof -
    obtain q where q: "s1 = s\<lparr>phys := q\<rparr>" using tc by (auto simp: touches_def)
    have "xlate pr s' = xlate pr s" for pr by (simp add: g q fun_eq_iff xlate_def table_at_def Let_def)
    then show ?thesis using tc by (simp add: only_cells_def touches_def g)
  qed
  ultimately show ?thesis using s'(1,3) ue by (simp add: user_calls)
qed

lemma read_file_returns:
  fixes s :: "'a proc_state_scheme"
  assumes "running n con s" "i \<in> {2..<8}" "own_table s ! i = d" "fot_ptr d = File_fot" "flags d = 1"
    and "module_file (ld8 s) (boot_block s) (inode d) c blks bs l" "in_program buf k"
    and "unat (file_position d) < unat l" "unat (file_position d) + k \<le> length bs"
  shows "\<exists>s'. ece391_read irq (of_nat i) buf (of_nat k) irqs s = Some (of_nat k, irqs, s') \<and> running n con s' \<and>
    user_effect n (span buf k) s s' \<and> dir_location s' = dir_location s \<and>
    bytes_at (uld8 s') buf (take k (drop (unat (file_position d)) bs)) \<and>
    own_table s' = (own_table s)[i := d\<lparr>file_position := file_position d + of_nat k\<rparr>]"
  using read_file_memory [OF assms] by blast

text \<open>A file is closed, whatever was read from it; closing it again does nothing.\<close>

lemma close_file_returns:
  fixes s :: "'a proc_state_scheme"
  assumes r: "running n con s" and i: "2 \<le> i" "i < 8" and d: "fot_ptr (own_table s ! i) = File_fot" "flags (own_table s ! i) = 1"
  shows "\<exists>s'. ece391_close irq (of_nat i) irqs s = Some (0, irqs, s') \<and> running n con s' \<and> user_effect n {} s s' \<and>
    own_table s' = (own_table s)[i := (own_table s ! i)\<lparr>flags := 0\<rparr>] \<and> only_cells n {} s s'"
proof -
  have u: "user_page n s" and t: "table_ok (own_table s)" using r by (simp_all add: running_def)
  have len: "length (own_table s) = 8" using t by (simp add: table_ok_def)
  have un: "unat (of_nat i :: u32) = i" using i by (intro unat_of_nat_u32) simp
  have g: "get_desc (own_loc s) (of_nat i) s = Some (own_table s ! i)" using i un len by (simp add: get_desc_own)
  obtain s' where set: "set_desc (own_loc s) (of_nat i) ((own_table s ! i)\<lparr>flags := 0\<rparr>) s = Some s'"
    "own_table s' = (own_table s)[i := (own_table s ! i)\<lparr>flags := 0\<rparr>]"
    using i un len by (auto simp: set_desc_def own_table_def get_process_number_def)
  have rng: "\<not> of_nat i <s (0 :: i32)" "\<not> 8 \<le>s (of_nat i :: i32)"
    using i by (simp_all add: word_sless_alt word_sle_eq sint_of_nat_u32)
  have c: "sys_close (of_nat i) s = Some (0, s')"
    using g set(1) rng d by (simp add: sys_close_def Let_def fclose_def)
  note q = quiet_fields [OF sys_close_quiet [OF c]]
  have sv: "serving s s'" using c by (rule sys_close_serving)
  have ue: "user_effect n {} s s'" using sv q by (simp add: user_effect_def serving_def)
  have "running n con s'" using r sv effect_page [OF ue u] t by (simp add: running_def q serving_def)
  moreover have "xlate pr s' = xlate pr s" for pr
  proof -
    obtain h where "s' = s\<lparr>pcb_at := h\<rparr>" using set(1) by (auto simp: set_desc_def Option.bind_eq_Some_conv)
    then show ?thesis by (simp add: fun_eq_iff xlate_def table_at_def Let_def)
  qed
  ultimately show ?thesis using c set(2) ue q(1) by (simp add: user_calls only_cells_def)
qed

lemma close_closed:
  fixes s :: "'a proc_state_scheme"
  assumes t: "table_ok (own_table s)" and i: "i < 8" "flags (own_table s ! i) = 0"
  shows "ece391_close irq (of_nat i) irqs s = Some (-1, irqs, s)"
proof -
  have un: "unat (of_nat i :: u32) = i" using i by (intro unat_of_nat_u32) simp
  have "get_desc (own_loc s) (of_nat i) s = Some (own_table s ! i)" using i un t by (simp add: get_desc_own table_ok_def)
  moreover have "\<not> of_nat i <s (0 :: i32)" "\<not> 8 \<le>s (of_nat i :: i32)"
    using i by (simp_all add: word_sless_alt word_sle_eq sint_of_nat_u32)
  ultimately show ?thesis using i(2) by (simp add: user_calls sys_close_def Let_def)
qed

lemma read_file_end:
  fixes s :: "'a proc_state_scheme"
  assumes t: "table_ok (own_table s)" and i: "i \<in> {2..<8}" and d: "own_table s ! i = d" "fot_ptr d = File_fot" "flags d = 1"
    and f: "module_file (ld8 s) (boot_block s) (inode d) c blks bs l" and p: "unat l \<le> unat (file_position d)"
  shows "ece391_read irq (of_nat i) buf k irqs s = Some (0, irqs, s)"
proof -
  have u: "unat (of_nat i :: u32) = i" using i by (intro unat_of_nat_u32) simp
  have fr: "fread d buf k s = Some (0, d, s)"
    using f p by (intro fread_at_end [where l = l]) (simp_all add: module_file_def word_le_nat_alt)
  have len: "length (own_table s) = 8" using t by (simp add: table_ok_def)
  have g: "get_desc (own_loc s) (of_nat i) s = Some d" using i d u len by (simp add: get_desc_own)
  have st: "set_desc (own_loc s) (of_nat i) d s = Some s"
    using i d(1) len set_desc_Some [of i s "own_loc s" d] list_update_id [of "own_table s" i]
    by (simp add: own_table_def)
  have "\<not> of_nat i <s (0 :: i32)" "\<not> 8 \<le>s (of_nat i :: i32)"
    using i by (simp_all add: word_sless_alt word_sle_eq sint_of_nat_u32)
  then show ?thesis using g st fr d by (simp add: user_calls sys_read_def Let_def)
qed

section \<open>The directory\<close>

text \<open>The directory block lies in the kernel's page.\<close>

definition module_directory :: "'a fs_state_scheme \<Rightarrow> u8 list list \<Rightarrow> bool" where
  "module_directory s es \<longleftrightarrow> directory (ld8 s) (boot_block s) es \<and> length (stack_junk s) = 64 \<and>
     (\<forall>k < 4096. region (boot_block s + of_nat k) = 1)"

lemma read_bytes_cong: "(\<And>i. i < k \<Longrightarrow> r' (a + of_nat i) = r (a + of_nat i)) \<Longrightarrow> read_bytes r' a k = read_bytes r a k"
proof (induction k arbitrary: a)
  case (Suc k)
  have "r' a = r a" using Suc.prems [of 0] by simp
  moreover have "read_bytes r' (a + 1) k = read_bytes r (a + 1) k"
    using Suc.prems [of "Suc i" for i] by (intro Suc.IH) (simp add: algebra_simps)
  ultimately show ?case by simp
qed simp

lemma directory_cong:
  assumes d: "directory r bb es" and ld: "\<And>k. k < 4096 \<Longrightarrow> r' (bb + of_nat k) = r (bb + of_nat k)"
  shows "directory r' bb es"
proof -
  have "dir_count r' bb = dir_count r bb"
    unfolding dir_count_def using ld [of 0] ld by (intro ld32_cong) simp
  moreover have "d_entry r' bb (of_nat i) = d_entry r bb (of_nat i)" if "i < length es" for i
    unfolding d_entry_def
  proof (rule read_bytes_cong)
    fix j :: nat assume "j < 64"
    moreover have "length es \<le> 63" using d by (simp add: directory_def)
    ultimately have "64 + 64 * i + j < 4096" using that by simp
    from ld [OF this] show "r' (bb + 64 + 64 * of_nat i + of_nat j) = r (bb + 64 + 64 * of_nat i + of_nat j)"
      by (simp add: add.assoc)
  qed
  ultimately show ?thesis using d by (simp add: directory_def)
qed

lemma module_directory_cong:
  assumes "module_directory s es" "boot_block s' = boot_block s" "stack_junk s' = stack_junk s"
    and "\<And>a. region a = 1 \<Longrightarrow> ld8 s' a = ld8 s a"
  shows "module_directory s' es"
  using assms directory_cong [of "ld8 s" "boot_block s" es "ld8 s'"] by (simp add: module_directory_def)

lemma effect_directory:
  assumes e: "user_effect n B s s'" "user_page n s" and d: "module_directory s es"
  shows "module_directory s' es"
  using e by (intro module_directory_cong [OF d] effect_kernel [OF e]) (simp_all add: user_effect_def)

lemma sys_read_desc:
  fixes s :: "'a proc_state_scheme"
  assumes t: "table_ok (own_table s)" and i: "i < 8" "flags (own_table s ! i) = 1"
  shows "sys_read irq irqs (of_nat i) buf k s =
    fot_read irq irqs (fot_ptr (own_table s ! i)) (own_loc s) (of_nat i) buf k s"
proof -
  have u: "unat (of_nat i :: u32) = i" using i by (intro unat_of_nat_u32) simp
  have "get_desc (own_loc s) (of_nat i) s = Some (own_table s ! i)"
    using t i u by (simp add: get_desc_own table_ok_def)
  moreover have "\<not> of_nat i <s (0 :: i32)" "\<not> 8 \<le>s (of_nat i :: i32)"
    using i by (simp_all add: word_sless_alt word_sle_eq sint_of_nat_u32)
  ultimately show ?thesis using i by (simp add: sys_read_def Let_def)
qed

lemma read_dir_returns:
  fixes s :: "'a proc_state_scheme"
  assumes r: "running n con s" and i: "i < 8" "fot_ptr (own_table s ! i) = Dir_fot" "flags (own_table s ! i) = 1"
    and d: "module_directory s es" and j: "dir_location s = of_nat j" "j < length es" and b: "in_program buf 33"
  shows "\<exists>s'. ece391_read irq (of_nat i) buf k irqs s = Some (of_nat (length (ename (es ! j))), irqs, s') \<and>
    running n con s' \<and> user_effect n (span buf 33) s s' \<and> own_table s' = own_table s \<and>
    dir_location s' = of_nat (Suc j) \<and>
    bytes_at (uld8 s') buf (ename (es ! j) @ replicate (33 - length (ename (es ! j))) 0)"
proof -
  have u: "user_page n s" and t: "table_ok (own_table s)" using r by (simp_all add: running_def)
  let ?bs = "ename (es ! j) @ replicate (33 - length (ename (es ! j))) 0"
  have "length (ename (es ! j)) \<le> 32"
    using length_takeWhile_le [of "\<lambda>b. b \<noteq> 0" "take 32 (es ! j)"] by (simp add: ename_def)
  then have len: "length ?bs = 33" by simp
  obtain s1 where s1: "dir_read buf s = Some (of_nat (length (ename (es ! j))), s1\<lparr>dir_location := of_nat (Suc j)\<rparr>)"
    "mem_stored s buf ?bs s1"
    using dir_read_name [OF _ j _ user_range [OF u b]] d by (auto simp: module_directory_def)
  have tc: "touches n (span buf 33) s s1" using stored_touches [OF s1(2) u] b unfolding len by simp
  note R = running_touches [OF r tc span_in_program [OF b]]
  let ?s' = "s1\<lparr>dir_location := of_nat (Suc j)\<rparr>"
  have "user_effect n {} s1 ?s'" using set_flag_serving(3) [of s1] by (simp add: user_effect_def serving_def)
  then have ue: "user_effect n (span buf 33) s ?s'"
    using user_effect_step [OF R(2), of "{}" ?s'] by simp
  have own: "own_table ?s' = own_table s" using R(3) by (simp add: own_table_def get_process_number_def)
  moreover have "console ?s' (unat (term_in_service ?s')) con"
    using R(1) by (auto simp: running_def console_def video_ok_def linked_def page_bytes_def frame_for_def split: prod.splits)
  ultimately have "running n con ?s'" using effect_page [OF ue u] t by (simp add: running_def)
  moreover have "bytes_at (uld8 ?s') buf ?bs"
  proof -
    have "user_page n ?s'" using effect_page [OF ue u] .
    moreover have "bytes_at (ld8 ?s') buf ?bs"
    proof -
      have "ld8 ?s' = ld8 s1" by (simp add: fun_eq_iff ld8_def xlate_def table_at_def Let_def)
      then show ?thesis using s1(2) by (simp add: stored_def)
    qed
    ultimately show ?thesis using user_bytes [of n ?s' buf ?bs] b unfolding len by simp
  qed
  ultimately show ?thesis
    using s1(1) ue own i sys_read_desc [OF t i(1,3), of irq irqs buf k] by (auto simp: user_calls)
qed

lemma read_dir_end:
  fixes s :: "'a proc_state_scheme"
  assumes r: "running n con s" and i: "i < 8" "fot_ptr (own_table s ! i) = Dir_fot" "flags (own_table s ! i) = 1"
    and d: "module_directory s es" and j: "dir_location s = of_nat (length es)"
  shows "ece391_read irq (of_nat i) buf k irqs s = Some (0, irqs, s\<lparr>dir_location := 0\<rparr>) \<and>
    running n con (s\<lparr>dir_location := 0\<rparr>)"
proof -
  have t: "table_ok (own_table s)" using r by (simp add: running_def)
  have "length es \<le> 63" using d by (simp add: module_directory_def directory_def)
  then have "length es \<le> unat (dir_location s)" using j by (simp add: unat_of_nat_u32)
  then have "dir_read buf s = Some (0, s\<lparr>dir_location := 0\<rparr>)"
    using d by (intro dir_read_end) (simp_all add: module_directory_def)
  moreover have "running n con (s\<lparr>dir_location := 0\<rparr>)"
    using r by (auto simp: running_def console_def video_ok_def linked_def page_bytes_def frame_for_def
        user_page_def kernel_mapped_def own_table_def get_process_number_def split: prod.splits)
  ultimately show ?thesis using i sys_read_desc [OF t i(1,3), of irq irqs buf k] by (simp add: user_calls)
qed

text \<open>The program stores a byte in one of its arrays.\<close>

lemma store_byte:
  fixes s :: "'a proc_state_scheme"
  assumes r: "running n con s" and a: "in_program a (length bs)" "bytes_at (uld8 s) a bs" and i: "i < length bs"
  shows "\<exists>s'. ust8 (a + of_nat i) v s = Some s' \<and> running n con s' \<and> user_effect n (span a (length bs)) s s' \<and>
    bytes_at (uld8 s') a (bs[i := v]) \<and> own_table s' = own_table s \<and> dir_location s' = dir_location s"
proof -
  have u: "user_page n s" using r by (simp add: running_def)
  have ai: "user_addr (a + of_nat i)" using in_program_offset(1) [OF a(1) i] .
  obtain s' where s': "ust8 (a + of_nat i) v s = Some s'" "touches n {a + of_nat i} s s'"
    using ust8_touches [OF u ai] by blast
  note R = running_touches [OF r s'(2)]
  have "{a + of_nat i} \<subseteq> span a (length bs)" using i by (auto simp: span_def)
  then have "user_effect n (span a (length bs)) s s'" using user_effect_mono R(2) ai by blast
  moreover have "bytes_at (uld8 s') a (bs[i := v])"
    using umem.stored_update [OF user_range [OF u a(1)] a(2) i s'(1)] by (simp add: stored_def)
  ultimately show ?thesis using s'(1) R ai by blast
qed

section \<open>Reading a line\<close>

text \<open>
  While the program waits in \<open>s\<close>, the user types the line \<open>cs\<close> on its terminal; the interrupts
  \<open>irqs'\<close> are still to come when the call goes on. Typing may draw (\<open>con'\<close> is the screen then).
\<close>

definition user_types ::
  "('e \<Rightarrow> 'a proc_state_scheme \<Rightarrow> 'a proc_state_scheme option) \<Rightarrow> 'e list \<Rightarrow> 'e list \<Rightarrow> nat \<Rightarrow> u8 list \<Rightarrow> console \<Rightarrow>
   'a proc_state_scheme \<Rightarrow> bool" where
  "user_types irq irqs irqs' n cs con' s \<longleftrightarrow> (\<exists>s1. spin no_line irq irqs s = Some (irqs', s1) \<and>
     running n con' s1 \<and> user_effect n {} s s1 \<and> own_table s1 = own_table s \<and>
     terminal_buf s1 = cs @ replicate (128 - length cs) 0)"

lemma read_line_prefix:
  fixes s :: "'a proc_state_scheme"
  assumes r: "running n con s" and ty: "user_types irq irqs irqs' n cs con' s" and cs: "length cs \<le> 128"
    and b: "in_program buf (min k 128)" and k: "k < 2 ^ 31"
  shows "\<exists>s'. ece391_read irq 0 buf (of_nat k) irqs s = Some (of_nat (min k 128), irqs', s') \<and> running n con' s' \<and>
    user_effect n (span buf (min k 128)) s s' \<and> own_table s' = own_table s \<and>
    bytes_at (uld8 s') buf (take k (cs @ replicate (128 - length cs) 0))"
proof -
  let ?line = "take k (cs @ replicate (128 - length cs) 0)"
  obtain s1 where s1: "spin no_line irq irqs s = Some (irqs', s1)" "running n con' s1" "user_effect n {} s s1"
    "terminal_buf s1 = cs @ replicate (128 - length cs) 0" "own_table s1 = own_table s"
    using ty by (auto simp: user_types_def)
  have u1: "user_page n s1" using s1(2) by (simp add: running_def)
  have len: "length ?line = min k 128" using cs by simp
  have sk: "sint (of_nat k :: i32) = int k" using k by (rule sint_of_nat_u32)
  have clip: "(if 128 <s (of_nat k :: i32) then 128 else of_nat k) = (of_nat (min k 128) :: i32)"
    using sk by (simp add: word_sless_alt min_def)
  have mk: "min (nat (sint (of_nat k :: i32))) 128 = min k 128" using sk by simp
  have l1: "length (terminal_buf s1) = 128" using cs by (simp add: s1(4))
  have ok: "range_ok (xlate Supervisor) s1 buf (min (nat (sint (of_nat k :: i32))) 128)"
    unfolding mk using u1 b by (rule user_range)
  obtain s2 where s2: "terminal_read irq irqs buf (of_nat k) s = Some (of_nat (min k 128), irqs', s2\<lparr>buf_sent := 0\<rparr>)"
    "mem_stored s1 buf (take k (terminal_buf s1)) s2"
    using terminal_read_stored [OF s1(1) l1 _ ok] unfolding clip sk by auto
  have st: "mem_stored s1 buf ?line s2" using s2(2) by (simp only: s1(4))
  have tc: "touches n (span buf (min k 128)) s1 s2" using stored_touches [OF st u1] b unfolding len by simp
  note R = running_touches [OF s1(2) tc span_in_program [OF b]]
  let ?s' = "s2\<lparr>buf_sent := 0\<rparr>"
  have e: "user_effect n {} s2 ?s'"
    using set_flag_serving(2) [of s2 0] by (simp add: user_effect_def serving_def)
  have ue: "user_effect n (span buf (min k 128)) s ?s'"
    using user_effect_step [OF s1(3) user_effect_step [OF R(2) e]] by simp
  have u2: "user_page n ?s'" using effect_page [OF e effect_page [OF R(2) u1]] .
  have ld: "ld8 ?s' = ld8 s2" by (simp add: fun_eq_iff ld8_def xlate_def table_at_def Let_def)
  have "running n con' ?s'"
    using R(1) u2 by (auto simp: running_def console_def video_ok_def linked_def page_bytes_def frame_for_def
        own_table_def get_process_number_def split: prod.splits)
  moreover have "own_table ?s' = own_table s"
    using R(3) s1(5) by (simp add: own_table_def get_process_number_def)
  moreover have "bytes_at (uld8 ?s') buf ?line"
    using user_bytes [OF u2, of buf ?line] b st unfolding len by (simp add: ld stored_def)
  moreover have "sys_read irq irqs 0 buf (of_nat k) s = terminal_read irq irqs buf (of_nat k) s"
  proof -
    have t: "table_ok (own_table s)" using r by (simp add: running_def)
    then show ?thesis using sys_read_desc [OF t, of 0 irq irqs buf "of_nat k"] by (simp add: table_ok_def)
  qed
  ultimately show ?thesis using s2(1) ue by (auto simp: user_calls)
qed

lemma read_line_returns:
  fixes s :: "'a proc_state_scheme"
  assumes r: "running n con s" and ty: "user_types irq irqs irqs' n cs con' s" and cs: "length cs \<le> 128"
    and b: "in_program buf 128" and k: "128 \<le> k" "k < 2 ^ 31"
  shows "\<exists>s'. ece391_read irq 0 buf (of_nat k) irqs s = Some (128, irqs', s') \<and> running n con' s' \<and>
    user_effect n (span buf 128) s s' \<and> bytes_at (uld8 s') buf (cs @ replicate (128 - length cs) 0)"
proof -
  have "min k 128 = 128" using k(1) by simp
  moreover have "take k (cs @ replicate (128 - length cs) 0) = cs @ replicate (128 - length cs) 0" using k(1) cs by simp
  ultimately show ?thesis using read_line_prefix [OF r ty cs, of buf k] b k(2) by auto
qed

end
