(* ===== verification/User_Machine.thy ===== *)
theory User_Machine
  imports Userland
begin

text \<open>
  The literals of a program in its memory, and a machine on which the properties of the programs
  are applied: process 1 of the machine with two shells, in user mode on terminal 1, which is
  displayed, with a given list of literals at \<open>0x8048000\<close>, 64 bytes apart.
\<close>

section \<open>Literals\<close>

definition lit_at :: "'a mach_scheme \<Rightarrow> (string \<Rightarrow> u32) \<Rightarrow> string \<Rightarrow> bool" where
  "lit_at s lit str \<longleftrightarrow> in_program (lit str) (Suc (length str)) \<and> cstr_at (uld8 s) (lit str) (chars str)"

lemma length_chars [simp]: "length (chars str) = length str"
  by (simp add: chars_def)

lemma lit_effect:
  "user_effect n B s s' \<Longrightarrow> user_page n s \<Longrightarrow> lit_at s lit str \<Longrightarrow> span (lit str) (Suc (length str)) \<inter> B = {} \<Longrightarrow>
     lit_at s' lit str"
  using effect_cstr [of n B s s' "lit str" "chars str"] by (simp add: lit_at_def)

lemma count_not_error: "i < 2 ^ 31 \<Longrightarrow> of_nat i \<noteq> (-1 :: i32)"
  using sint_of_nat_u32 [of i] by auto

section \<open>Images\<close>

definition in_seg :: "u32 \<Rightarrow> u32 \<times> u8 list \<Rightarrow> bool" where
  "in_seg a = (\<lambda>(b, bs). unat (a - b) < length bs)"

lemma image_bytes_find: "image_bytes segs a = (case find (in_seg a) segs of
    Some (b, bs) \<Rightarrow> bs ! unat (a - b) | None \<Rightarrow> 0)"
  by (simp add: image_bytes_def in_seg_def)

lemma image_append: "image_bytes (xs @ ys) a = (if find (in_seg a) xs = None then image_bytes ys a else image_bytes xs a)"
proof -
  have "find (in_seg a) (xs @ ys) = (case find (in_seg a) xs of None \<Rightarrow> find (in_seg a) ys | Some v \<Rightarrow> Some v)"
    by (induction xs) simp_all
  then show ?thesis by (simp add: image_bytes_find split: option.split)
qed

lemma not_in_seg_below: "unat a < unat b \<Longrightarrow> unat b + length bs \<le> 2 ^ 32 \<Longrightarrow> \<not> in_seg a (b, bs)"
  by (simp add: in_seg_def unat_sub_if_size word_size)

lemma not_in_seg_above: "unat b + length bs \<le> unat a \<Longrightarrow> \<not> in_seg a (b, bs)"
  by (simp add: in_seg_def unat_sub_if_size)

lemma image_none: "(\<And>seg. seg \<in> set segs \<Longrightarrow> \<not> in_seg a seg) \<Longrightarrow> find (in_seg a) segs = None \<and> image_bytes segs a = 0"
proof -
  assume "\<And>seg. seg \<in> set segs \<Longrightarrow> \<not> in_seg a seg"
  then have "find (in_seg a) segs = None" by (simp add: find_None_iff)
  then show ?thesis by (simp add: image_bytes_find)
qed

definition lit_segs :: "string list \<Rightarrow> (u32 \<times> u8 list) list" where
  "lit_segs strs = map (\<lambda>k. (0xC48000 + 64 * of_nat k, chars (strs ! k) @ [0])) [0..<length strs]"

definition short_lits :: "string list \<Rightarrow> bool" where
  "short_lits strs \<longleftrightarrow> length strs \<le> 64 \<and> (\<forall>str \<in> set strs. length str < 64 \<and> 0 \<notin> set (chars str))"

definition user_image :: "string list \<Rightarrow> (u32 \<times> u8 list) list" where
  "user_image strs = sys_image @ lit_segs strs"

lemma lit_base: "k \<le> 64 \<Longrightarrow> unat (0xC48000 + 64 * of_nat k :: u32) = 0xC48000 + 64 * k"
  using unat_of_nat_u32 [of "0xC48000 + 64 * k"] by simp

lemma lit_not_below:
  assumes "short_lits strs" "unat a < 0xC48000" shows "find (in_seg a) (lit_segs strs) = None \<and> image_bytes (lit_segs strs) a = 0"
proof (rule image_none)
  fix seg assume "seg \<in> set (lit_segs strs)"
  then obtain k where k: "k < length strs" "seg = (0xC48000 + 64 * of_nat k, chars (strs ! k) @ [0])"
    by (auto simp: lit_segs_def)
  moreover have "length (strs ! k) < 64" "k \<le> 64" using assms(1) k(1) by (auto simp: short_lits_def)
  ultimately show "\<not> in_seg a seg" using assms(2) lit_base [of k] by (simp add: not_in_seg_below)
qed

lemma user_image_low: "short_lits strs \<Longrightarrow> unat a < 0xC48000 \<Longrightarrow> image_bytes (user_image strs) a = image_bytes sys_image a"
  using lit_not_below [of strs a] by (simp add: user_image_def image_append image_bytes_find [of sys_image])

lemma sys_image_above: "0x800000 \<le> unat a \<Longrightarrow> find (in_seg a) sys_image = None"
  by (rule image_none [THEN conjunct1])
    (auto simp: sys_image_def demo_entry_def demo_elf_def intro!: not_in_seg_above)

lemma user_image_lit:
  assumes s: "short_lits strs" and i: "i < length strs"
  shows "bytes_at (\<lambda>a. Some (image_bytes (user_image strs) a)) (0xC48000 + 64 * of_nat i) (chars (strs ! i) @ [0])"
  unfolding bytes_at_def
proof (intro allI impI)
  fix j assume j: "j < length (chars (strs ! i) @ [0])"
  let ?a = "0xC48000 + 64 * of_nat i + of_nat j :: u32"
  have l: "length (strs ! k) < 64" "k \<le> 64" if "k < length strs" for k
    using s that by (auto simp: short_lits_def)
  have a: "unat ?a = 0xC48000 + 64 * i + j"
    using unat_of_nat_u32 [of "0xC48000 + 64 * i + j"] j l [OF i] by simp
  have "find (in_seg ?a) (lit_segs strs) = Some (lit_segs strs ! i)"
    unfolding find_Some_iff
  proof (intro exI conjI allI impI)
    show "i < length (lit_segs strs)" using i by (simp add: lit_segs_def)
    have "?a - (0xC48000 + 64 * of_nat i) = of_nat j" by simp
    moreover have "unat (of_nat j :: u32) = j" using j l [OF i] by (intro unat_of_nat_u32) simp
    ultimately show "in_seg ?a (lit_segs strs ! i)" using i j by (simp add: lit_segs_def in_seg_def)
    fix k assume k: "k < i"
    have "64 * k + 64 \<le> 64 * i" using k by simp
    then show "\<not> in_seg ?a (lit_segs strs ! k)"
      using k i l [of k] a lit_base [of k] by (simp add: lit_segs_def not_in_seg_above)
  qed simp
  moreover have "find (in_seg ?a) sys_image = None" using a by (intro sys_image_above) simp
  moreover have "?a - (0xC48000 + 64 * of_nat i) = of_nat j" by simp
  moreover have "unat (of_nat j :: u32) = j" using j l [OF i] by (intro unat_of_nat_u32) simp
  ultimately show "Some (image_bytes (user_image strs) ?a) = Some ((chars (strs ! i) @ [0]) ! j)"
    using i by (simp add: user_image_def image_append image_bytes_find [of "lit_segs strs"])
      (simp add: lit_segs_def)
qed

section \<open>The machine\<close>

definition demo_user :: "string list \<Rightarrow> pcb \<Rightarrow> proc_state" where
  "demo_user strs p = demo_proc\<lparr>phys := image_bytes (user_image strs),
     page_directory := (page_directory demo_proc)(32 := program_page 1), pcb_at := (\<lambda>_. p), cur_term_num := 1\<rparr>"

definition demo_lit :: "string list \<Rightarrow> string \<Rightarrow> u32" where
  "demo_lit strs str = 0x8048000 + 64 * of_nat (length (takeWhile (\<lambda>x. x \<noteq> str) strs))"

lemma demo_user_sel [simp]:
  "phys (demo_user strs p) = image_bytes (user_image strs)" "pcb_at (demo_user strs p) = (\<lambda>_. p)"
  "own_table (demo_user strs p) = file_descs p" "boot_block (demo_user strs p) = 0x500000"
  "stack_junk (demo_user strs p) = replicate 64 0" "cur_term_num (demo_user strs p) = 1"
  "proc_arr (demo_user strs p) = [1, 1, 0, 0, 0, 0]" "stack_pcb (demo_user strs p) = demo_pcb"
  by (simp_all add: demo_user_def own_table_def)

lemma demo_user_tty: "term_in_service (demo_user strs p) = 1" "dir_location (demo_user strs p) = 0"
  "buf_sent (demo_user strs p) = 0"
  by (simp_all add: demo_user_def demo_proc_def kbd_state.defs demo_kbd_def tty_state.defs)
    (simp_all add: demo_tty_def initialize_page_eq)

lemma demo_user_page: "user_page 1 (demo_user strs p)"
  using demo_kernel_mapped by (simp add: user_page_def kernel_mapped_def demo_user_def)

lemma demo_user_ld8: "region a = 1 \<Longrightarrow> ld8 (demo_user strs p) a = Some (image_bytes (user_image strs) a)"
  using demo_user_page [of strs p] by (simp add: ld8_def user_page_def kernel_page_xlate)

lemma demo_user_kernel:
  "short_lits strs \<Longrightarrow> region a = 1 \<Longrightarrow> ld8 (demo_user strs p) a = ld8 demo_proc a"
proof -
  assume a: "short_lits strs" "region a = 1"
  have "ld8 demo_proc a = Some (image_bytes sys_image a)"
    using demo_kernel_mapped a(2) by (simp add: ld8_def kernel_page_xlate)
  then show ?thesis using a region_low [of a] by (simp add: demo_user_ld8 user_image_low)
qed

lemma demo_user_directory:
  assumes "short_lits strs"
  shows "module_directory (demo_user strs p) [demo_entry [46] 1 0, demo_entry [115, 104] 2 0]"
proof (rule module_directory_cong)
  have "region (0x500000 + of_nat k) = 1" if "k < 4096" for k
    using kernel_region [of "0x500000 + k"] that by simp
  then show "module_directory demo_proc [demo_entry [46] 1 0, demo_entry [115, 104] 2 0]"
    using sys_directory by (simp add: module_directory_def)
qed (simp_all add: demo_user_kernel assms)

lemma demo_user_program:
  "short_lits strs \<Longrightarrow> program_file (ld8 (demo_user strs p)) (boot_block (demo_user strs p)) 0 1 [0] demo_elf"
  using program_file_cong [OF demo_program_file, of "ld8 (demo_user strs p)"] by (simp add: demo_user_kernel)

text \<open>The block of the one file, slack included.\<close>

definition demo_block :: "u8 list" where
  "demo_block = map (\<lambda>k. image_bytes sys_image (0x502000 + of_nat k)) [0..<4096]"

lemma demo_user_file:
  assumes s: "short_lits strs"
  shows "module_file (ld8 (demo_user strs p)) (boot_block (demo_user strs p)) 0 1 [0] demo_block 40"
proof -
  have b: "block_byte 0x500000 1 [0] k = 0x502000 + of_nat k" if "k < 4096" for k
    using that by (simp add: block_byte_def)
  have r: "region (0x502000 + of_nat k) = 1" if "k < 4096" for k
    using kernel_region [of "0x502000 + k"] that by simp
  have "ld8 (demo_user strs p) (0x502000 + of_nat k) = Some (image_bytes sys_image (0x502000 + of_nat k))" if "k < 4096" for k
    using r [OF that] region_low [OF r [OF that]] s by (simp add: demo_user_ld8 user_image_low)
  then show ?thesis
    using demo_user_program [OF s, of p] b r
    by (simp add: program_file_def module_file_def file_at_def demo_block_def) (simp add: demo_elf_def)
qed

lemma first_index:
  "x \<in> set xs \<Longrightarrow> length (takeWhile (\<lambda>y. y \<noteq> x) xs) < length xs \<and> xs ! length (takeWhile (\<lambda>y. y \<noteq> x) xs) = x"
  by (induction xs) auto

lemma demo_user_lit:
  assumes s: "short_lits strs" and str: "str \<in> set strs"
  shows "lit_at (demo_user strs p) (demo_lit strs) str"
proof -
  let ?i = "length (takeWhile (\<lambda>x. x \<noteq> str) strs)"
  have i: "?i < length strs" "strs ! ?i = str"
    using first_index [OF str] by simp_all
  let ?a = "0x8048000 + 64 * of_nat ?i :: u32"
  have l: "length str < 64" "?i \<le> 64" "0 \<notin> set (chars str)" using s str i(1) by (auto simp: short_lits_def)
  have "uld8 (demo_user strs p) (?a + of_nat j) = Some ((chars str @ [0]) ! j)" if j: "j < Suc (length str)" for j
  proof -
    have u: "unat (?a + of_nat j) = 0x8048000 + 64 * ?i + j"
      using unat_of_nat_u32 [of "0x8048000 + 64 * ?i + j"] j l by simp
    then have "user_addr (?a + of_nat j)" using j l by (simp add: user_addr_def)
    moreover have "cell_of 1 (?a + of_nat j) = 0xC48000 + 64 * of_nat ?i + of_nat j"
      by (simp add: cell_of_def u)
    ultimately show ?thesis
      using uld8_cell [OF demo_user_page] bytes_at_nth [OF user_image_lit [OF s i(1)], of j] j by (simp add: i(2))
  qed
  moreover have "in_program ?a (Suc (length str))"
    using l unat_of_nat_u32 [of "0x8048000 + 64 * ?i"] by (simp add: in_program_def)
  ultimately show ?thesis using l(3) by (simp add: lit_at_def cstr_at_def bytes_at_def demo_lit_def)
qed

definition demo_screen :: console where
  "demo_screen = (replicate 2000 0, 79, 24)"

lemma demo_user_running:
  assumes s: "short_lits strs" and t: "table_ok (file_descs p)"
  shows "running 1 demo_screen (demo_user strs p)"
proof -
  have k: "console (demo_kbd 0) 1 (replicate 2000 32, 79, 24)" by (rule demo_kbd_console)
  have f: "frame_for (demo_user strs p) 1 = 0xB8000" by (simp add: frame_for_def)
  have z: "image_bytes (user_image strs) (0xB8000 + of_nat j) = 0" if "j < 4096" for j
  proof -
    have u: "unat (0xB8000 + of_nat j :: u32) = 0xB8000 + j"
      using unat_of_nat_u32 [of "0xB8000 + j"] that by simp
    then have "find (in_seg (0xB8000 + of_nat j)) sys_image = None \<and> image_bytes sys_image (0xB8000 + of_nat j) = 0"
      using that by (intro image_none) (auto simp: sys_image_def demo_entry_def demo_elf_def not_in_seg_below)
    then show ?thesis using u that s by (simp add: user_image_low)
  qed
  have "glyphs (page_bytes (demo_user strs p) 0xB8000) = replicate 2000 0"
  proof (rule nth_equalityI)
    fix i assume "i < length (glyphs (page_bytes (demo_user strs p) 0xB8000))"
    then show "glyphs (page_bytes (demo_user strs p) 0xB8000) ! i = replicate 2000 0 ! i"
      using z [of "2 * i"] by (simp add: glyphs_def page_bytes_def)
  qed simp
  moreover have "video_ok (demo_user strs p)"
    using k by (simp add: console_def video_ok_def linked_def demo_user_def demo_proc_def kbd_state.defs)
  moreover have "length (term_cursor_x (demo_user strs p)) = 3" "length (term_cursor_y (demo_user strs p)) = 3"
    "term_cursor_x (demo_user strs p) ! 1 = 79" "term_cursor_y (demo_user strs p) ! 1 = 24"
    using k by (simp_all add: console_def demo_user_def demo_proc_def kbd_state.defs)
  ultimately have "console (demo_user strs p) 1 demo_screen"
    by (simp add: console_def demo_screen_def f [simplified])
  then show ?thesis using demo_user_page t by (simp add: running_def demo_user_tty)
qed

lemma demo_table: "table_ok (file_descs demo_pcb)"
  using demo_table_ok by simp

lemma demo_user_free [simp]: "find (\<lambda>i. flags (file_descs demo_pcb ! i) = 0) [2..<8] = Some 2"
  by (simp add: demo_pcb_def closed_desc_def upt_conv_Cons)

lemma demo_enames: "ename (demo_entry [46] 1 0) = [46]" "ename (demo_entry [115, 104] 2 0) = [115, 104]"
  by (rule demo_entry_fields; simp)+

lemma span_range: "in_program a k \<Longrightarrow> x \<in> span a k \<Longrightarrow> unat a \<le> unat x \<and> unat x < unat a + k"
  using in_program_offset(2) [of a k] by (auto simp: span_def)

text \<open>A buffer of the program apart from its literals.\<close>

lemma demo_lit_apart:
  assumes "short_lits strs" "0x8050000 \<le> unat buf" "in_program buf k" "str \<in> set strs"
  shows "span (demo_lit strs str) (Suc (length str)) \<inter> span buf k = {}"
proof -
  have i: "length (takeWhile (\<lambda>x. x \<noteq> str) strs) \<le> 64" and l: "length str < 64"
    using assms(1,4) length_takeWhile_le [of "\<lambda>x. x \<noteq> str" strs] by (auto simp: short_lits_def)
  have u: "unat (demo_lit strs str) = 0x8048000 + 64 * length (takeWhile (\<lambda>x. x \<noteq> str) strs)"
    using i unat_of_nat_u32 [of "0x8048000 + 64 * length (takeWhile (\<lambda>x. x \<noteq> str) strs)"]
    by (simp add: demo_lit_def)
  have "in_program (demo_lit strs str) (Suc (length str))" using i l by (simp add: in_program_def u)
  then have "unat x < unat buf" if "x \<in> span (demo_lit strs str) (Suc (length str))" for x
    using span_range [OF _ that] i l assms(2) by (auto simp: u)
  then show ?thesis using span_range [OF assms(3)] by (meson disjoint_iff not_le)
qed

text \<open>A line that the user types while the program waits.\<close>

definition line_arrives :: "u8 list \<Rightarrow> unit \<Rightarrow> proc_state \<Rightarrow> proc_state option" where
  "line_arrives cs _ s = Some (s\<lparr>terminal_buf := cs @ replicate (128 - length cs) 0, buf_sent := 1\<rparr>)"

lemma line_arrives_types:
  assumes "running n con s" "buf_sent s = 0" "cur_term_num s = term_in_service s"
  shows "user_types (line_arrives cs) [()] [] n cs con s"
proof -
  let ?s = "s\<lparr>terminal_buf := cs @ replicate (128 - length cs) 0, buf_sent := 1\<rparr>"
  have "spin no_line (line_arrives cs) [()] s = Some ([], ?s)"
    using assms(2,3) by (simp add: no_line_def line_arrives_def)
  moreover have e: "user_effect n {} s ?s" by (simp add: user_effect_def undisturbed_def)
  moreover have "running n con ?s"
    using assms(1) effect_page [OF e] by (auto simp: running_def own_table_def get_process_number_def
        console_def video_ok_def linked_def frame_for_def page_bytes_def split: prod.splits)
  moreover have "own_table ?s = own_table s" by (simp add: own_table_def get_process_number_def)
  ultimately show ?thesis by (auto simp: user_types_def)
qed

lemma prompt_then_line:
  assumes r: "running n con s" and l: "lit_at s lit str" and b: "buf_sent s = 0" "cur_term_num s = term_in_service s"
    and p: "ece391_fdputs (line_arrives cs) 1 (lit str) [()] s = Some ([()], s0)"
  shows "user_types (line_arrives cs) [()] [] n cs (fold type_char (chars str) con) s0"
proof (rule line_arrives_types)
  have "running n (fold type_char (chars str) con) s0 \<and> user_effect n {} s s0 \<and> buf_sent s0 = buf_sent s"
    using fdputs_types [OF r, of "lit str" "chars str" "line_arrives cs" "[()]"] l p by (auto simp: lit_at_def)
  then show "running n (fold type_char (chars str) con) s0" "buf_sent s0 = 0" "cur_term_num s0 = term_in_service s0"
    using b by (simp_all add: user_effect_def)
qed

end
