(* ===== verification/User_Programs.thy ===== *)
theory User_Programs
  imports User_Machine
begin

text \<open>
  The user programs that show what the system is for: \<open>ece391testprint.c\<close>, \<open>ece391hello.c\<close>,
  \<open>ece391cat.c\<close>, \<open>ece391ls.c\<close>, \<open>ece391grep.c\<close>, \<open>ece391counter.c\<close>, \<open>ece391shell.c\<close> and
  \<open>ece391pingpong.c\<close>. \<open>lit\<close> is where the linker puts string literals, the addresses of local arrays
  are parameters, and \<open>irq\<close>, \<open>irqs\<close> are the handler and the interrupts that arrive while a call waits.
  The properties compose them with the kernel: what is on the screen when a program has run.
\<close>

section \<open>Programs\<close>

text \<open>A message and a value for \<open>main\<close> to return.\<close>

definition say ::
  "('e \<Rightarrow> 'a proc_state_scheme \<Rightarrow> 'a proc_state_scheme option) \<Rightarrow> u32 \<Rightarrow> i32 \<Rightarrow> 'e list \<Rightarrow>
   'a proc_state_scheme \<Rightarrow> (i32 \<times> 'e list \<times> 'a proc_state_scheme) option" where
  "say irq a v irqs s = do { (irqs, s) \<leftarrow> ece391_fdputs irq 1 a irqs s; Some (v, irqs, s) }"

definition ece391testprint where
  "ece391testprint irq lit irqs s =
     say irq (lit ''Hello, if this ran, the program was correct. Yay!\<newline>'') 0 irqs s"

definition ece391hello where
  "ece391hello irq lit buf irqs s = do {
     (irqs, s) \<leftarrow> ece391_fdputs irq 1 (lit ''Hi, what's your name? '') irqs s;
     (cnt, irqs, s) \<leftarrow> ece391_read irq 0 buf 1023 irqs s;
     if cnt = -1 then say irq (lit ''Can't read name from keyboard.\<newline>'') 3 irqs s
     else do {
       s \<leftarrow> ust8 (buf + cnt) 0 s;
       (irqs, s) \<leftarrow> ece391_fdputs irq 1 (lit ''Hello, '') irqs s;
       say irq buf 0 irqs s
     }
   }"

partial_function (option) cat_loop ::
  "('e \<Rightarrow> 'a proc_state_scheme \<Rightarrow> 'a proc_state_scheme option) \<Rightarrow> (string \<Rightarrow> u32) \<Rightarrow> i32 \<Rightarrow> u32 \<Rightarrow>
   'e list \<Rightarrow> 'a proc_state_scheme \<Rightarrow> (i32 \<times> 'e list \<times> 'a proc_state_scheme) option"
where
  "cat_loop irq lit fd buf irqs s = do {
     (cnt, irqs, s) \<leftarrow> ece391_read irq fd buf 1024 irqs s;
     if cnt = 0 then Some (0, irqs, s)
     else if cnt = -1 then say irq (lit ''file read failed\<newline>'') 3 irqs s
     else do {
       (r, irqs, s) \<leftarrow> ece391_write irq 1 buf cnt irqs s;
       if r = -1 then Some (3, irqs, s) else cat_loop irq lit fd buf irqs s
     }
   }"

definition ece391cat where
  "ece391cat irq lit buf irqs s = do {
     (r, irqs, s) \<leftarrow> ece391_getargs irq buf 1024 irqs s;
     if r \<noteq> 0 then say irq (lit ''could not read arguments\<newline>'') 3 irqs s
     else do {
       (fd, irqs, s) \<leftarrow> ece391_open irq buf irqs s;
       if fd = -1 then say irq (lit ''file not found\<newline>'') 2 irqs s
       else cat_loop irq lit fd buf irqs s
     }
   }"

partial_function (option) ls_loop ::
  "('e \<Rightarrow> 'a proc_state_scheme \<Rightarrow> 'a proc_state_scheme option) \<Rightarrow> (string \<Rightarrow> u32) \<Rightarrow> i32 \<Rightarrow> u32 \<Rightarrow>
   'e list \<Rightarrow> 'a proc_state_scheme \<Rightarrow> (i32 \<times> 'e list \<times> 'a proc_state_scheme) option"
where
  "ls_loop irq lit fd buf irqs s = do {
     (cnt, irqs, s) \<leftarrow> ece391_read irq fd buf 32 irqs s;
     if cnt = 0 then Some (0, irqs, s)
     else if cnt = -1 then say irq (lit ''directory entry read failed\<newline>'') 3 irqs s
     else do {
       s \<leftarrow> ust8 (buf + cnt) (of_char (CHR ''\<newline>'')) s;
       (r, irqs, s) \<leftarrow> ece391_write irq 1 buf (cnt + 1) irqs s;
       if r = -1 then Some (3, irqs, s) else ls_loop irq lit fd buf irqs s
     }
   }"

definition ece391ls where
  "ece391ls irq lit buf irqs s = do {
     (fd, irqs, s) \<leftarrow> ece391_open irq (lit ''.'') irqs s;
     if fd = -1 then say irq (lit ''directory open failed\<newline>'') 2 irqs s
     else ls_loop irq lit fd buf irqs s
   }"

subsection \<open>grep\<close>

partial_function (option) line_end_from :: "(u32 \<Rightarrow> u8 option) \<Rightarrow> u32 \<Rightarrow> i32 \<Rightarrow> i32 \<Rightarrow> i32 option" where
  "line_end_from r data last' line_end =
     (if line_end <s last' then do {
        c \<leftarrow> r (data + line_end);
        if c \<noteq> of_char (CHR ''\<newline>'') then line_end_from r data last' (line_end + 1) else Some line_end
      }
      else Some line_end)"

text \<open>The search in one line; a line is printed once.\<close>

partial_function (option) search_line ::
  "('e \<Rightarrow> 'a proc_state_scheme \<Rightarrow> 'a proc_state_scheme option) \<Rightarrow> (string \<Rightarrow> u32) \<Rightarrow> u32 \<Rightarrow> u32 \<Rightarrow> i32 \<Rightarrow>
   u32 \<Rightarrow> i32 \<Rightarrow> i32 \<Rightarrow> i32 \<Rightarrow> 'e list \<Rightarrow> 'a proc_state_scheme \<Rightarrow> ('e list \<times> 'a proc_state_scheme) option"
where
  "search_line irq lit str fname s_len data line_start line_end check irqs s =
     (if check <s line_end then do {
        a \<leftarrow> uld8 s str;
        b \<leftarrow> uld8 s (data + check);
        hit \<leftarrow> (if a = b then map_option (\<lambda>c. c = 0) (ece391_strncmp (uld8 s) (data + check) str s_len)
          else Some False);
        if hit then do {
          (irqs, s) \<leftarrow> ece391_fdputs irq 1 fname irqs s;
          (irqs, s) \<leftarrow> ece391_fdputs irq 1 (lit '':'') irqs s;
          (irqs, s) \<leftarrow> ece391_fdputs irq 1 (data + line_start) irqs s;
          ece391_fdputs irq 1 (lit ''\<newline>'') irqs s
        }
        else search_line irq lit str fname s_len data line_start line_end (check + 1) irqs s
      }
      else Some (irqs, s))"

text \<open>The lines in the buffer; the answer is the new \<open>last\<close>.\<close>

partial_function (option) grep_lines ::
  "('e \<Rightarrow> 'a proc_state_scheme \<Rightarrow> 'a proc_state_scheme option) \<Rightarrow> (string \<Rightarrow> u32) \<Rightarrow> u32 \<Rightarrow> u32 \<Rightarrow> i32 \<Rightarrow>
   u32 \<Rightarrow> i32 \<Rightarrow> i32 \<Rightarrow> i32 \<Rightarrow> 'e list \<Rightarrow> 'a proc_state_scheme \<Rightarrow> (i32 \<times> 'e list \<times> 'a proc_state_scheme) option"
where
  "grep_lines irq lit str fname s_len data cnt last' line_start irqs s = do {
     line_end \<leftarrow> line_end_from (uld8 s) data last' line_start;
     c \<leftarrow> uld8 s (data + line_end);
     if c \<noteq> of_char (CHR ''\<newline>'') \<and> cnt \<noteq> 0 \<and> line_start \<noteq> 0 then do {
       s \<leftarrow> ust8 (data + line_end) 0 s;
       s \<leftarrow> ece391_strcpy uld8 ust8 data (data + line_start) s;
       Some (last' - line_start, irqs, s)
     }
     else do {
       s \<leftarrow> ust8 (data + line_end) 0 s;
       (irqs, s) \<leftarrow> search_line irq lit str fname s_len data line_start line_end line_start irqs s;
       let line_start = line_end + 1;
       if last' \<le>s line_start then Some (0, irqs, s)
       else grep_lines irq lit str fname s_len data cnt last' line_start irqs s
     }
   }"

partial_function (option) grep_read ::
  "('e \<Rightarrow> 'a proc_state_scheme \<Rightarrow> 'a proc_state_scheme option) \<Rightarrow> (string \<Rightarrow> u32) \<Rightarrow> u32 \<Rightarrow> u32 \<Rightarrow> i32 \<Rightarrow>
   i32 \<Rightarrow> u32 \<Rightarrow> i32 \<Rightarrow> 'e list \<Rightarrow> 'a proc_state_scheme \<Rightarrow> (i32 \<times> 'e list \<times> 'a proc_state_scheme) option"
where
  "grep_read irq lit str fname s_len fd data last' irqs s = do {
     (cnt, irqs, s) \<leftarrow> ece391_read irq fd (data + last') (1024 - last') irqs s;
     if cnt = -1 then say irq (lit ''file read failed\<newline>'') (-1) irqs s
     else do {
       (last', irqs, s) \<leftarrow> grep_lines irq lit str fname s_len data cnt (last' + cnt) 0 irqs s;
       if cnt = 0 then do {
         (r, irqs, s) \<leftarrow> ece391_close irq fd irqs s;
         if r = -1 then say irq (lit ''file close failed\<newline>'') (-1) irqs s else Some (0, irqs, s)
       }
       else grep_read irq lit str fname s_len fd data last' irqs s
     }
   }"

definition do_one_file where
  "do_one_file irq lit data str fname irqs s = do {
     s_len \<leftarrow> ece391_strlen (uld8 s) str;
     (fd, irqs, s) \<leftarrow> ece391_open irq fname irqs s;
     if fd = -1 then say irq (lit ''file open failed\<newline>'') (-1) irqs s
     else grep_read irq lit str fname s_len fd data 0 irqs s
   }"

partial_function (option) grep_loop ::
  "('e \<Rightarrow> 'a proc_state_scheme \<Rightarrow> 'a proc_state_scheme option) \<Rightarrow> (string \<Rightarrow> u32) \<Rightarrow> u32 \<Rightarrow> u32 \<Rightarrow> u32 \<Rightarrow>
   i32 \<Rightarrow> 'e list \<Rightarrow> 'a proc_state_scheme \<Rightarrow> (i32 \<times> 'e list \<times> 'a proc_state_scheme) option"
where
  "grep_loop irq lit data search buf fd irqs s = do {
     (cnt, irqs, s) \<leftarrow> ece391_read irq fd buf 32 irqs s;
     if cnt = 0 then Some (0, irqs, s)
     else if cnt = -1 then say irq (lit ''directory entry read failed\<newline>'') 3 irqs s
     else do {
       c \<leftarrow> uld8 s buf;
       if c = of_char (CHR ''.'') then grep_loop irq lit data search buf fd irqs s
       else do {
         s \<leftarrow> ust8 (buf + cnt) 0 s;
         (r, irqs, s) \<leftarrow> do_one_file irq lit data search buf irqs s;
         if r \<noteq> 0 then Some (3, irqs, s) else grep_loop irq lit data search buf fd irqs s
       }
     }
   }"

definition ece391grep where
  "ece391grep irq lit data search buf irqs s = do {
     (r, irqs, s) \<leftarrow> ece391_getargs irq search 1024 irqs s;
     if r \<noteq> 0 then say irq (lit ''could not read argument\<newline>'') 3 irqs s
     else do {
       (fd, irqs, s) \<leftarrow> ece391_open irq (lit ''.'') irqs s;
       if fd = -1 then say irq (lit ''directory open failed\<newline>'') 2 irqs s
       else grep_loop irq lit data search buf fd irqs s
     }
   }"

subsection \<open>counter\<close>

definition counter_max :: "u8 \<Rightarrow> u32" where
  "counter_max c = (if c = of_char (CHR ''0'') then 100 else if c = of_char (CHR ''1'') then 10000
     else if c = of_char (CHR ''2'') then 100000 else 0)"

partial_function (option) count_loop ::
  "('e \<Rightarrow> 'a proc_state_scheme \<Rightarrow> 'a proc_state_scheme option) \<Rightarrow> (string \<Rightarrow> u32) \<Rightarrow> u32 \<Rightarrow> u32 \<Rightarrow> u32 \<Rightarrow>
   'e list \<Rightarrow> 'a proc_state_scheme \<Rightarrow> (i32 \<times> 'e list \<times> 'a proc_state_scheme) option"
where
  "count_loop irq lit buf max' i irqs s =
     (if i < max' then do {
        s \<leftarrow> ece391_itoa uld8 ust8 (i + 1) buf 10 s;
        (irqs, s) \<leftarrow> ece391_fdputs irq 1 buf irqs s;
        (irqs, s) \<leftarrow> ece391_fdputs irq 1 (lit ''\<newline>'') irqs s;
        count_loop irq lit buf max' (i + 1) irqs s
      }
      else Some (0, irqs, s))"

definition ece391counter where
  "ece391counter irq lit buf irqs s = do {
     (irqs, s) \<leftarrow> ece391_fdputs irq 1
       (lit ''Enter the Test Number: (0): 100, (1): 10000, (2): 100000\<newline>'') irqs s;
     (cnt, irqs, s) \<leftarrow> ece391_read irq 0 buf 1023 irqs s;
     if cnt = -1 then say irq (lit ''Can't read the number from keyboard.\<newline>'') 3 irqs s
     else do {
       s \<leftarrow> ust8 (buf + cnt) 0 s;
       n \<leftarrow> ece391_strlen (uld8 s) buf;
       c \<leftarrow> uld8 s buf;
       if n > 2 \<or> n = 2 \<and> (c < of_char (CHR ''0'') \<or> c > of_char (CHR ''2''))
       then say irq (lit ''Wrong Choice!\<newline>'') 0 irqs s
       else count_loop irq lit buf (counter_max c) 0 irqs s
     }
   }"

subsection \<open>The shell\<close>

text \<open>
  The shell is suspended while a program it started runs. \<open>shell_loop\<close> runs until \<open>main\<close> returns
  or a program is entered; \<open>shell_resume\<close> goes on with the status the program ended with.
\<close>

datatype shell_event = Shell_returns i32 | Shell_starts user_frame

definition shell_report where
  "shell_report irq lit rval irqs s =
     (if rval = -1 then ece391_fdputs irq 1 (lit ''no such command\<newline>'') irqs s
      else if rval = 256 then ece391_fdputs irq 1 (lit ''program terminated by exception\<newline>'') irqs s
      else if rval \<noteq> 0 then ece391_fdputs irq 1 (lit ''program terminated abnormally\<newline>'') irqs s
      else Some (irqs, s))"

partial_function (option) shell_loop ::
  "('e \<Rightarrow> 'a proc_state_scheme \<Rightarrow> 'a proc_state_scheme option) \<Rightarrow> (string \<Rightarrow> u32) \<Rightarrow> u32 \<Rightarrow>
   'e list \<Rightarrow> 'a proc_state_scheme \<Rightarrow> (shell_event \<times> 'e list \<times> 'a proc_state_scheme) option"
where
  "shell_loop irq lit buf irqs s = do {
     (irqs, s) \<leftarrow> ece391_fdputs irq 1 (lit ''391OS> '') irqs s;
     (cnt, irqs, s) \<leftarrow> ece391_read irq 0 buf 1023 irqs s;
     if cnt = -1 then do {
       (v, irqs, s) \<leftarrow> say irq (lit ''read from keyboard failed\<newline>'') 3 irqs s;
       Some (Shell_returns v, irqs, s)
     }
     else do {
       nl \<leftarrow> (if 0 <s cnt then map_option (\<lambda>c. c = of_char (CHR ''\<newline>'')) (uld8 s (buf + (cnt - 1)))
         else Some False);
       let cnt = (if nl then cnt - 1 else cnt);
       s \<leftarrow> ust8 (buf + cnt) 0 s;
       c \<leftarrow> ece391_strcmp (uld8 s) buf (lit ''exit'');
       if c = 0 then Some (Shell_returns 0, irqs, s)
       else do {
         b \<leftarrow> uld8 s buf;
         if b = 0 then shell_loop irq lit buf irqs s
         else do {
           (t, s) \<leftarrow> ece391_execute buf s;
           case t of
             Ret rval \<Rightarrow> do { (irqs, s) \<leftarrow> shell_report irq lit rval irqs s; shell_loop irq lit buf irqs s }
           | Enter_user f \<Rightarrow> Some (Shell_starts f, irqs, s)
           | Resume eip eax \<Rightarrow> None
         }
       }
     }
   }"

definition ece391shell where
  "ece391shell irq lit buf irqs s = do {
     (irqs, s) \<leftarrow> ece391_fdputs irq 1 (lit ''Starting 391 Shell\<newline>'') irqs s;
     shell_loop irq lit buf irqs s
   }"

definition shell_resume where
  "shell_resume irq lit buf rval irqs s = do {
     (irqs, s) \<leftarrow> shell_report irq lit rval irqs s;
     shell_loop irq lit buf irqs s
   }"

subsection \<open>pingpong\<close>

text \<open>
  The macros expand to sums without parentheses: the buffer has 81 bytes, the row runs from 2 to
  77 between the walls at 1 and 78.
\<close>

definition pingpong_init :: "u32 \<Rightarrow> 'a mach_scheme \<Rightarrow> 'a mach_scheme option" where
  "pingpong_init buf s = do {
     s \<leftarrow> for_each (\<lambda>i. ust8 (buf + of_nat i) (of_char (CHR '' ''))) [0..<81] s;
     s \<leftarrow> ust8 (buf + 80) 0 s;
     s \<leftarrow> ust8 (buf + 79) (of_char (CHR ''\<newline>'')) s;
     s \<leftarrow> ust8 (buf + 78) (of_char (CHR ''|'')) s;
     ust8 (buf + 1) (of_char (CHR ''|'')) s
   }"

definition pingpong_frame where
  "pingpong_frame irq buf garbage rtc_fd curchar j irqs s = do {
     s \<leftarrow> for_each (\<lambda>i. ust8 (buf + of_nat i) (of_char (CHR '' ''))) [2..<78] s;
     s \<leftarrow> ust8 (buf + of_nat j) curchar s;
     (irqs, s) \<leftarrow> ece391_fdputs irq 1 buf irqs s;
     (_, irqs, s) \<leftarrow> ece391_read irq rtc_fd garbage 4 irqs s;
     Some (irqs, s)
   }"

definition pingpong_next :: "u8 \<Rightarrow> u8" where
  "pingpong_next curchar = (if curchar = of_char (CHR ''Z'') then of_char (CHR ''A'') else curchar + 1)"

text \<open>Out and back, with the next character each time; the loop has no end.\<close>

partial_function (option) pingpong_loop ::
  "('e \<Rightarrow> 'a proc_state_scheme \<Rightarrow> 'a proc_state_scheme option) \<Rightarrow> u32 \<Rightarrow> u32 \<Rightarrow> i32 \<Rightarrow> u8 \<Rightarrow>
   'e list \<Rightarrow> 'a proc_state_scheme \<Rightarrow> (i32 \<times> 'e list \<times> 'a proc_state_scheme) option"
where
  "pingpong_loop irq buf garbage rtc_fd curchar irqs s = do {
     (irqs, s) \<leftarrow> for_each (\<lambda>j (irqs, s). pingpong_frame irq buf garbage rtc_fd curchar j irqs s) [2..<78] (irqs, s);
     (irqs, s) \<leftarrow> for_each (\<lambda>j (irqs, s). pingpong_frame irq buf garbage rtc_fd curchar j irqs s) (rev [2..<78]) (irqs, s);
     pingpong_loop irq buf garbage rtc_fd (pingpong_next curchar) irqs s
   }"

definition ece391pingpong where
  "ece391pingpong irq lit buf ret_val garbage irqs s = do {
     s \<leftarrow> pingpong_init buf s;
     (rtc_fd, irqs, s) \<leftarrow> ece391_open irq (lit ''rtc'') irqs s;
     s \<leftarrow> write_bytes ust8 ret_val (le_bytes 32) s;
     (r, irqs, s) \<leftarrow> ece391_write irq rtc_fd ret_val 4 irqs s;
     s \<leftarrow> write_bytes ust8 ret_val (le_bytes r) s;
     pingpong_loop irq buf garbage rtc_fd (of_char (CHR ''A'')) irqs s
   }"

lemma say_types:
  fixes s :: "'a proc_state_scheme"
  assumes "running n con s" "in_program a (Suc (length cs))" "cstr_at (uld8 s) a cs"
  shows "\<exists>s'. say irq a v irqs s = Some (v, irqs, s') \<and> running n (fold type_char cs con) s' \<and> user_effect n {} s s'"
  using fdputs_types [OF assms, of irq irqs] by (auto simp: say_def)

section \<open>cat\<close>

lemma cat_loop_types:
  fixes s :: "'a proc_state_scheme"
  assumes "running n con s" "own_table s ! i = d" "fot_ptr d = File_fot" "flags d = 1"
    and "module_file (ld8 s) (boot_block s) (inode d) c blks bs l" "unat (file_position d) = 1024 * j"
    and i: "i \<in> {2..<8}" and b: "in_program buf 1024"
    and "j + k = (unat l + 1023) div 1024"
  shows "\<exists>s'. cat_loop irq lit (of_nat i) buf irqs s = Some (0, irqs, s') \<and> user_effect n (span buf 1024) s s' \<and>
    running n (fold type_char (take (1024 * k) (drop (1024 * j) bs)) con) s'"
  using assms(1-6,9)
proof (induction k arbitrary: s con d j)
  case 0
  have "table_ok (own_table s)" using 0 by (simp add: running_def)
  moreover have "unat l \<le> unat (file_position d)" using 0(6,7) by simp
  ultimately have "ece391_read irq (of_nat i) buf 1024 irqs s = Some (0, irqs, s)"
    using read_file_end [OF _ i 0(2-5)] by blast
  then show ?case using 0(1) ue.eff_refl by (subst cat_loop.simps) auto
next
  case (Suc k)
  have l: "length bs = 4096 * length blks" "unat l \<le> length bs" "length bs < 2 ^ 31"
    using Suc.prems(5) by (simp_all add: module_file_def)
  have jl: "1024 * j < unat l" using Suc.prems(7) by arith
  then have "1024 * j < 1024 * (4 * length blks)" using l(1,2) by simp
  then have "1024 * Suc j \<le> 1024 * (4 * length blks)" by simp
  then have jb: "1024 * j + 1024 \<le> length bs" using l(1) by simp
  obtain s1 where s1: "ece391_read irq (of_nat i) buf (of_nat 1024) irqs s = Some (of_nat 1024, irqs, s1)"
    "running n con s1" "user_effect n (span buf 1024) s s1"
    "bytes_at (uld8 s1) buf (take 1024 (drop (1024 * j) bs))"
    "own_table s1 = (own_table s)[i := d\<lparr>file_position := file_position d + of_nat 1024\<rparr>]"
    using read_file_returns [OF Suc.prems(1) i Suc.prems(2-5) b, unfolded Suc.prems(6), OF jl jb, of irq irqs]
    by blast
  have u: "user_page n s" and t: "length (own_table s) = 8"
    using Suc.prems(1) by (simp_all add: running_def table_ok_def)
  have len: "length (take 1024 (drop (1024 * j) bs)) = 1024" using jb by simp
  obtain s2 where s2: "ece391_write irq 1 buf 1024 irqs s1 = Some (0, irqs, s2)"
    "running n (fold type_char (take 1024 (drop (1024 * j) bs)) con) s2" "user_effect n {} s1 s2"
    "own_table s2 = own_table s1"
    using write_types [OF s1(2) _ s1(4), of 1024 irq irqs] b unfolding len by auto
  have e: "user_effect n (span buf 1024) s s2" using user_effect_step [OF s1(3) s2(3)] by simp
  let ?d = "d\<lparr>file_position := file_position d + 1024\<rparr>"
  have "file_position d = of_nat (1024 * j)" using arg_cong [OF Suc.prems(6), of "of_nat :: nat \<Rightarrow> u32"] by simp
  then have "unat (file_position d + 1024) = 1024 * j + 1024"
    using unat_of_nat_u32 [of "1024 * j + 1024"] jb l(3) by simp
  then have p: "unat (file_position ?d) = 1024 * Suc j" by simp
  have "own_table s2 ! i = ?d" using s2(4) s1(5) i t by simp
  moreover have "module_file (ld8 s2) (boot_block s2) (inode ?d) c blks bs l"
    using effect_file [OF e u Suc.prems(5)] by simp
  ultimately obtain s3 where s3: "cat_loop irq lit (of_nat i) buf irqs s2 = Some (0, irqs, s3)"
    "user_effect n (span buf 1024) s2 s3"
    "running n (fold type_char (take (1024 * k) (drop (1024 * Suc j) bs))
      (fold type_char (take 1024 (drop (1024 * j) bs)) con)) s3"
    using Suc.IH [OF s2(2), of ?d "Suc j"] Suc.prems(3,4,7) p by auto
  have "take (1024 * Suc k) (drop (1024 * j) bs) =
      take 1024 (drop (1024 * j) bs) @ take (1024 * k) (drop (1024 * Suc j) bs)"
    using take_add [of 1024 "1024 * k" "drop (1024 * j) bs"] by (simp add: add.commute)
  then have "running n (fold type_char (take (1024 * Suc k) (drop (1024 * j) bs)) con) s3"
    using s3(3) by (simp only: fold_append o_apply)
  moreover have "cat_loop irq lit (of_nat i) buf irqs s = Some (0, irqs, s3)"
    using s1(1) s2(1) s3(1) by (subst cat_loop.simps) simp
  moreover have "user_effect n (span buf 1024) s s3" using e s3(2) by (rule ue.eff_trans)
  ultimately show ?case by blast
qed

text \<open>
  C27. \<open>cat\<close> of a file named in its argument returns 0 and has typed the file on the screen of its
  terminal, in the order of its blocks: all of its blocks up to the next multiple of 1024 bytes
  from the length, because each read returns a full buffer. Nothing but its buffer changes in
  its own page. Any file of the module will do, also an empty one.
\<close>

theorem cat_prints:
  fixes s :: "'a proc_state_scheme"
  assumes r: "running n con s" and g: "argument_is s nm" and dir: "module_directory s es"
    and e: "find (\<lambda>e. ename e = nm) es = Some e" "file_type e = Some 2" "inode_num e = Some ino"
    and i: "find (\<lambda>i. flags (own_table s ! i) = 0) [2..<8] = Some i"
    and f: "module_file (ld8 s) (boot_block s) ino c blks bs l" and b: "in_program buf 1024"
  shows "\<exists>s'. ece391cat irq lit buf irqs s = Some (0, irqs, s') \<and> user_effect n (span buf 1024) s s' \<and>
    running n (fold type_char (take (1024 * ((unat l + 1023) div 1024)) bs) con) s'"
proof -
  have b': "in_program buf 129" "span buf 129 \<subseteq> span buf 1024"
    using in_program_take [OF b] by (auto simp: span_def)
  have u: "user_page n s" using r by (simp add: running_def)
  obtain s1 where s1: "ece391_getargs irq buf (of_nat 1024) irqs s = Some (0, irqs, s1)" "running n con s1"
    "user_effect n (span buf 129) s s1" "own_table s1 = own_table s" "cstr_at (uld8 s1) buf nm"
    using getargs_returns [OF r g, of 1024 buf irq irqs] b'(1) by auto
  have e1: "user_effect n (span buf 1024) s s1" using user_effect_mono [OF s1(3) b'(2)] .
  have u1: "user_page n s1" using effect_page [OF e1 u] .
  have d1: "directory (ld8 s1) (boot_block s1) es" "length (stack_junk s1) = 64"
    using effect_directory [OF e1 u dir] by (simp_all add: module_directory_def)
  have nm: "in_program buf (Suc (length nm))" using in_program_take [OF b] g by (simp add: argument_is_def)
  obtain s2 where s2: "ece391_open irq buf irqs s1 = Some (of_nat i, irqs, s2)" "running n con s2"
    "user_effect n {} s1 s2" "own_table s2 = (own_table s)[i := opened e]"
    using open_returns [OF s1(2) d1 nm s1(5) e(1), of i irq irqs] i s1(4) by auto
  have i8: "i \<in> {2..<8}" using i by (force simp: find_Some_iff)
  have o: "opened e = \<lparr>fot_ptr = File_fot, inode = ino, file_position = 0, flags = 1\<rparr>"
    using e(2,3) by (simp add: opened_def)
  have e2: "user_effect n (span buf 1024) s s2" using user_effect_step [OF e1 s2(3)] by simp
  have "own_table s2 ! i = opened e"
    using s2(4) i8 r by (simp add: running_def table_ok_def)
  then obtain s3 where s3: "cat_loop irq lit (of_nat i) buf irqs s2 = Some (0, irqs, s3)"
    "user_effect n (span buf 1024) s2 s3"
    "running n (fold type_char (take (1024 * ((unat l + 1023) div 1024)) (drop (1024 * 0) bs)) con) s3"
    using cat_loop_types [OF s2(2), of i "opened e" c blks bs l 0 buf "(unat l + 1023) div 1024" irq lit irqs]
      effect_file [OF e2 u f] o i8 b by auto
  have "of_nat i \<noteq> (-1 :: i32)" using i8 by (intro count_not_error) simp
  then have "ece391cat irq lit buf irqs s = Some (0, irqs, s3)"
    using s1(1) s2(1) s3(1) by (simp add: ece391cat_def)
  moreover have "user_effect n (span buf 1024) s s3" using e2 s3(2) by (rule ue.eff_trans)
  ultimately show ?thesis using s3(3) by auto
qed

section \<open>ls\<close>

definition listing :: "u8 list list \<Rightarrow> u8 list" where
  "listing es = concat (map (\<lambda>e. ename e @ [10]) es)"

lemma length_ename: "length (ename e) \<le> 32"
  using length_takeWhile_le [of "\<lambda>b. b \<noteq> 0" "take 32 e"] by (simp add: ename_def)

lemma ls_loop_types:
  fixes s :: "'a proc_state_scheme"
  assumes "running n con s" "fot_ptr (own_table s ! i) = Dir_fot" "flags (own_table s ! i) = 1"
    and "module_directory s es" "dir_location s = of_nat j"
    and ne: "\<forall>e \<in> set es. ename e \<noteq> []" and i: "i < 8" and b: "in_program buf 33" and "j + k = length es"
  shows "\<exists>s'. ls_loop irq lit (of_nat i) buf irqs s = Some (0, irqs, s') \<and>
    running n (fold type_char (listing (drop j es)) con) s' \<and> dir_location s' = 0"
  using assms(1-5,9)
proof (induction k arbitrary: s con j)
  case 0
  then show ?case
    using read_dir_end [where irq = irq and irqs = irqs and buf = buf and k = 32, OF 0(1) i 0(2-4)]
    by (subst ls_loop.simps) (auto simp: listing_def)
next
  case (Suc k)
  let ?e = "es ! j" and ?c = "length (ename (es ! j))"
  have j: "j < length es" using Suc.prems(6) by simp
  have c: "?c \<le> 32" "0 < ?c" using length_ename [of ?e] ne j by simp_all
  have u: "user_page n s" using Suc.prems(1) by (simp add: running_def)
  obtain s1 where s1: "ece391_read irq (of_nat i) buf 32 irqs s = Some (of_nat ?c, irqs, s1)" "running n con s1"
    "user_effect n (span buf 33) s s1" "own_table s1 = own_table s" "dir_location s1 = of_nat (Suc j)"
    "bytes_at (uld8 s1) buf (ename ?e @ replicate (33 - ?c) 0)"
    using read_dir_returns [OF Suc.prems(1) i Suc.prems(2-5) j b, of irq 32 irqs] by blast
  have len: "length (ename ?e @ replicate (33 - ?c) 0) = 33" using c by simp
  obtain s2 where s2: "ust8 (buf + of_nat ?c) 10 s1 = Some s2" "running n con s2" "user_effect n (span buf 33) s1 s2"
    "bytes_at (uld8 s2) buf ((ename ?e @ replicate (33 - ?c) 0)[?c := 10])" "own_table s2 = own_table s1"
    "dir_location s2 = dir_location s1"
    using store_byte [OF s1(2) _ s1(6), of ?c 10] b c(1) unfolding len by auto
  have "33 - ?c = Suc (32 - ?c)" using c(1) by simp
  then have "replicate (33 - ?c) (0 :: u8) = 0 # replicate (32 - ?c) 0" by (simp only: replicate_Suc)
  then have bs: "bytes_at (uld8 s2) buf (ename ?e @ [10])"
    using s2(4) by (simp add: list_update_append bytes_at_append bytes_at_Cons)
  have n1: "nat (sint (of_nat ?c + 1 :: i32)) = Suc ?c"
    using sint_of_nat_u32 [of "Suc ?c"] c(1) by (simp add: add.commute)
  obtain s3 where s3: "ece391_write irq 1 buf (of_nat ?c + 1) irqs s2 = Some (0, irqs, s3)"
    "running n (fold type_char (ename ?e @ [10]) con) s3" "user_effect n {} s2 s3" "own_table s3 = own_table s2"
    "dir_location s3 = dir_location s2"
    using write_types [OF s2(2) _ bs, of "of_nat ?c + 1" irq irqs] n1 in_program_take [OF b, of "Suc ?c"] c(1) by auto
  have e: "user_effect n (span buf 33) s s3"
    using user_effect_step [OF ue.eff_trans [OF s1(3) s2(3)] s3(3)] by simp
  obtain s4 where s4: "ls_loop irq lit (of_nat i) buf irqs s3 = Some (0, irqs, s4)"
    "running n (fold type_char (listing (drop (Suc j) es)) (fold type_char (ename ?e @ [10]) con)) s4" "dir_location s4 = 0"
    using Suc.IH [OF s3(2), of "Suc j"] Suc.prems(2,3,6) effect_directory [OF e u Suc.prems(4)]
      s1(4,5) s2(5,6) s3(4,5) by auto
  have "listing (drop j es) = (ename ?e @ [10]) @ listing (drop (Suc j) es)"
    using Cons_nth_drop_Suc [OF j] by (simp add: listing_def flip: Cons_nth_drop_Suc [OF j])
  then have "running n (fold type_char (listing (drop j es)) con) s4"
    using s4(2) by (simp only: fold_append o_apply)
  moreover have "of_nat ?c \<noteq> (0 :: i32)"
  proof -
    have "sint (of_nat ?c :: i32) \<noteq> 0" using sint_of_nat_u32 [of ?c] c by simp
    then show ?thesis by auto
  qed
  moreover have "of_nat ?c \<noteq> (-1 :: i32)" using c(1) by (intro count_not_error) simp
  ultimately show ?case
    using s1(1) s2(1) s3(1) s4(1,3) by (subst ls_loop.simps) simp
qed

text \<open>
  C28. \<open>ls\<close> returns 0 and has typed every name of the directory on the screen of its terminal, one
  to a line, and the directory reads from its first entry again.
\<close>

theorem ls_lists:
  fixes s :: "'a proc_state_scheme"
  assumes r: "running n con s" and dir: "module_directory s es" "dir_location s = 0" "\<forall>e \<in> set es. ename e \<noteq> []"
    and e: "find (\<lambda>e. ename e = chars ''.'') es = Some e" "file_type e = Some 1"
    and i: "find (\<lambda>i. flags (own_table s ! i) = 0) [2..<8] = Some i"
    and l: "lit_at s lit ''.''" and b: "in_program buf 33"
  shows "\<exists>s'. ece391ls irq lit buf irqs s = Some (0, irqs, s') \<and>
    running n (fold type_char (listing es) con) s' \<and> dir_location s' = 0"
proof -
  have u: "user_page n s" using r by (simp add: running_def)
  have d: "directory (ld8 s) (boot_block s) es" "length (stack_junk s) = 64"
    using dir(1) by (simp_all add: module_directory_def)
  obtain s1 where s1: "ece391_open irq (lit ''.'') irqs s = Some (of_nat i, irqs, s1)" "running n con s1"
    "user_effect n {} s s1" "own_table s1 = (own_table s)[i := opened e]" "dir_location s1 = dir_location s"
    using open_returns [OF r d _ _ e(1) i, of "lit ''.''" irq irqs] l by (auto simp: lit_at_def)
  have i8: "i \<in> {2..<8}" using i by (force simp: find_Some_iff)
  have "own_table s1 ! i = opened e" using s1(4) i8 r by (simp add: running_def table_ok_def)
  moreover have "fot_ptr (opened e) = Dir_fot" "flags (opened e) = 1" using e(2) by (simp_all add: opened_def)
  ultimately obtain s2 where "ls_loop irq lit (of_nat i) buf irqs s1 = Some (0, irqs, s2)"
    "running n (fold type_char (listing (drop 0 es)) con) s2" "dir_location s2 = 0"
    using ls_loop_types [OF s1(2), of i es 0 buf "length es" irq lit irqs] effect_directory [OF s1(3) u dir(1)]
      s1(5) dir(2,3) i8 b by auto
  moreover have "of_nat i \<noteq> (-1 :: i32)" using i8 by (intro count_not_error) simp
  ultimately show ?thesis using s1(1) by (auto simp: ece391ls_def)
qed

section \<open>The shell\<close>

text \<open>One turn of the shell: the prompt, a line, and what the line makes of it.\<close>

lemma shell_turn:
  fixes s :: "'a proc_state_scheme"
  assumes r: "running n con s" and l: "lit_at s lit ''391OS> ''" "lit_at s lit ''exit''" "span (lit ''exit'') 5 \<inter> span buf 129 = {}"
    and b: "in_program buf 129" and cs: "length cs < 128" "0 \<notin> set cs"
    and ty: "\<And>s0. ece391_fdputs irq 1 (lit ''391OS> '') irqs s = Some (irqs, s0) \<Longrightarrow> user_types irq irqs irqs' n cs con' s0"
  shows "\<exists>s2. running n con' s2 \<and> user_effect n (span buf 129) s s2 \<and>
    bytes_at (uld8 s2) buf (cs @ replicate (129 - length cs) 0) \<and>
    shell_loop irq lit buf irqs s =
      (if cs = chars ''exit'' then Some (Shell_returns 0, irqs', s2)
       else if cs = [] then shell_loop irq lit buf irqs' s2
       else do {
         (t, s) \<leftarrow> ece391_execute buf s2;
         case t of
           Ret rval \<Rightarrow> do { (irqs, s) \<leftarrow> shell_report irq lit rval irqs' s; shell_loop irq lit buf irqs s }
         | Enter_user f \<Rightarrow> Some (Shell_starts f, irqs', s)
         | Resume eip eax \<Rightarrow> None
       })"
proof -
  let ?B = "span buf 129"
  have u: "user_page n s" using r by (simp add: running_def)
  obtain s0 where s0: "ece391_fdputs irq 1 (lit ''391OS> '') irqs s = Some (irqs, s0)"
    "running n (fold type_char (chars ''391OS> '') con) s0" "user_effect n {} s s0"
    using fdputs_types [OF r, of "lit ''391OS> ''" "chars ''391OS> ''" irq irqs] l(1) by (auto simp: lit_at_def)
  have b': "in_program buf 128" "span buf 128 \<subseteq> ?B" using in_program_take [OF b] by (auto simp: span_def)
  obtain s1 where s1: "ece391_read irq 0 buf (of_nat 1023) irqs s0 = Some (128, irqs', s1)" "running n con' s1"
    "user_effect n (span buf 128) s0 s1" "bytes_at (uld8 s1) buf (cs @ replicate (128 - length cs) 0)"
    using read_line_returns [OF s0(2) ty [OF s0(1)] _ b'(1), of 1023] cs(1) by auto
  have u1: "user_page n s1" using s1(2) by (simp add: running_def)
  have a128: "user_addr (buf + of_nat 128)" using in_program_offset(1) [OF b, of 128] by simp
  obtain s2 where s2: "ust8 (buf + of_nat 128) 0 s1 = Some s2" "touches n {buf + of_nat 128} s1 s2"
    "phys s2 (cell_of n (buf + of_nat 128)) = 0"
    using ust8_touches [OF u1 a128, of 0] by blast
  note R = running_touches [OF s1(2) s2(2)]
  have u2: "user_page n s2" using R(1) a128 by (auto simp: running_def)
  have in129: "buf + of_nat 128 \<in> ?B" unfolding span_def by (rule image_eqI [of _ _ 128]) simp_all
  have e1: "user_effect n ?B s s1"
    using user_effect_mono [OF user_effect_step [OF s0(3) s1(3)]] b'(2) by simp
  have e2: "user_effect n ?B s s2"
    using user_effect_mono [OF user_effect_step [OF e1 R(2)]] in129 a128 by blast
  have bytes: "bytes_at (uld8 s2) buf (cs @ replicate (129 - length cs) 0)"
  proof -
    have "buf + of_nat i \<noteq> buf + of_nat 128" if "i < 128" for i
      using in_program_offset(2) [OF b, of i] in_program_offset(2) [OF b, of 128] that by auto
    then have "span buf 128 \<inter> {buf + of_nat 128} = {}" by (auto simp: span_def)
    then have "bytes_at (uld8 s2) buf (cs @ replicate (128 - length cs) 0)"
      using effect_bytes [OF R(2) u1, of buf "cs @ replicate (128 - length cs) 0"] s1(4) cs(1) b'(1) a128 by auto
    moreover have "uld8 s2 (buf + of_nat 128) = Some 0" using uld8_cell [OF u2 a128] s2(3) by simp
    moreover have "cs @ replicate (129 - length cs) 0 = (cs @ replicate (128 - length cs) 0) @ [0]"
      using cs(1) by (simp add: Suc_diff_le replicate_append_same flip: replicate_Suc)
    ultimately show ?thesis using cs(1) by (simp only: bytes_at_append) (simp add: bytes_at_Cons)
  qed
  have pad: "cs @ replicate (129 - length cs) 0 = (cs @ [0]) @ replicate (128 - length cs) 0"
  proof -
    have "129 - length cs = Suc (128 - length cs)" using cs(1) by simp
    then show ?thesis by (simp only: replicate_Suc append_assoc append.simps)
  qed
  have c: "cstr_at (uld8 s2) buf cs"
    using bytes cs(2) unfolding pad by (simp only: cstr_at_def bytes_at_append simp_thms)
  obtain v where v: "ece391_strcmp (uld8 s2) buf (lit ''exit'') = Some v" "v = 0 \<longleftrightarrow> cs = chars ''exit''"
    using ece391_strcmp_cstr [OF c, of "lit ''exit''" "chars ''exit''"]
      lit_effect [OF e2 u l(2)] l(3) by (auto simp: lit_at_def numeral_eq_Suc)
  have "uld8 s1 (buf + of_nat 127) = Some ((cs @ replicate (128 - length cs) 0) ! 127)"
    using bytes_at_nth [OF s1(4), of 127] cs(1) by simp
  moreover have "(cs @ replicate (128 - length cs) 0) ! 127 = (0 :: u8)" using cs(1) by (simp add: nth_append)
  ultimately have nl: "uld8 s1 (buf + (128 - 1)) = Some 0" by simp
  have hd: "uld8 s2 buf = Some (if cs = [] then 0 else hd cs)"
    using c by (cases cs) (simp_all add: cstr_at_Nil cstr_at_Cons)
  have "shell_loop irq lit buf irqs s =
      (if cs = chars ''exit'' then Some (Shell_returns 0, irqs', s2)
       else if cs = [] then shell_loop irq lit buf irqs' s2
       else do {
         (t, s) \<leftarrow> ece391_execute buf s2;
         case t of
           Ret rval \<Rightarrow> do { (irqs, s) \<leftarrow> shell_report irq lit rval irqs' s; shell_loop irq lit buf irqs s }
         | Enter_user f \<Rightarrow> Some (Shell_starts f, irqs', s)
         | Resume eip eax \<Rightarrow> None
       })"
  proof -
    have "cs \<noteq> [] \<Longrightarrow> hd cs \<noteq> 0" using cs(2) by (cases cs) auto
    then show ?thesis
      using s0(1) s1(1) s2(1) nl v hd by (subst shell_loop.simps) (simp add: word_sless_alt)
  qed
  then show ?thesis using R(1) a128 e2 bytes by blast
qed

text \<open>A line that names a program, with its argument.\<close>

definition command_line :: "u8 list \<Rightarrow> u8 list \<Rightarrow> u8 list \<Rightarrow> bool" where
  "command_line cs nm ag \<longleftrightarrow> (cs = nm \<and> ag = [] \<or> cs = nm @ 32 # ag) \<and> 0 \<notin> set cs \<and> 32 \<notin> set nm \<and>
     nm \<noteq> [] \<and> length nm < 32 \<and> length cs < 128"

lemma command_line_at:
  assumes "command_line cs nm ag" "bytes_at r buf (cs @ replicate (129 - length cs) 0)"
  shows "command_at r buf nm ag"
proof -
  have n: "length cs < 128" "0 \<notin> set cs" using assms(1) by (simp_all add: command_line_def)
  have "cs @ replicate (129 - length cs) 0 = cs @ [0, 0] @ replicate (127 - length cs) 0"
    using n(1) by (simp add: Suc_diff_le numeral_eq_Suc flip: replicate_Suc)
  then have b: "bytes_at r buf (cs @ [0, 0])" using assms(2) by (simp only: bytes_at_append append_assoc)
  consider "cs = nm" "ag = []" | "cs = nm @ 32 # ag" using assms(1) by (auto simp: command_line_def)
  then have "\<exists>e \<in> {32, 0}. bytes_at r buf (nm @ e # ag @ [0])"
  proof cases
    case 1
    then show ?thesis using b by simp
  next
    case 2
    have "cs @ [0, 0] = (nm @ 32 # ag @ [0]) @ [0]" by (simp add: 2)
    then have "bytes_at r buf (nm @ 32 # ag @ [0])"
      using b bytes_at_append [of r buf "nm @ 32 # ag @ [0]" "[0]"] by simp
    then show ?thesis by blast
  qed
  then show ?thesis using assms(1) by (auto simp: command_at_def command_line_def)
qed

lemma effect_program:
  assumes "user_effect n B s s'" "user_page n s" "program_file (ld8 s) (boot_block s) ino c blks bs"
  shows "program_file (ld8 s') (boot_block s') ino c blks bs"
proof -
  have "boot_block s' = boot_block s" using assms(1) by (simp add: user_effect_def)
  then show ?thesis
    using program_file_cong [OF assms(3), of "ld8 s'"] effect_kernel [OF assms(1,2)] by simp
qed

lemma ece391_execute_eq: "ece391_execute command s = sys_execute (ld8 s) command s"
  by (cases "sys_execute (ld8 s) command s") (auto simp: ece391_execute_def syscall_def word_sless_alt)

lemma ece391_halt_eq: "ece391_halt v s = sys_halt (ucast v) s"
  by (cases "sys_halt (ucast v) s") (auto simp: ece391_halt_def syscall_def word_sless_alt)

text \<open>
  C29. The shell with the kernel: the prompt is printed, the user types a line that names a program
  of the module, and the shell's next event is that this program is entered at its entry point, in
  the lowest free slot, with its image at the program page and with its argument - the state
  \<open>s2\<close> in which the call is made differs from the first one only in the shell's buffer.
\<close>

theorem shell_starts_program:
  fixes s :: "'a proc_state_scheme"
  assumes r: "running n con s" and l: "lit_at s lit ''391OS> ''" "lit_at s lit ''exit''" "span (lit ''exit'') 5 \<inter> span buf 129 = {}"
    and b: "in_program buf 129" and cl: "command_line cs nm ag" "cs \<noteq> chars ''exit''"
    and ty: "\<And>s0. ece391_fdputs irq 1 (lit ''391OS> '') irqs s = Some (irqs, s0) \<Longrightarrow>
      user_types irq irqs irqs' n cs con' s0"
    and slot: "lowest_free (proc_arr s) m"
    and dir: "module_directory s es" "find (\<lambda>e. ename e = nm) es = Some e" "inode_num e = Some ino"
    and prog: "program_file (ld8 s) (boot_block s) ino c blks bs" "40 \<le> length bs"
      "bs ! 0 = 0x7F" "bs ! 1 = 0x45" "bs ! 2 = 0x4C"
    and junk: "length (arg (stack_pcb s)) = 128"
  shows "\<exists>s2 s3. shell_loop irq lit buf irqs s = Some (Shell_starts (entry_frame bs), irqs', s3) \<and>
    running n con' s2 \<and> user_effect n (span buf 129) s s2 \<and> started m bs ag s2 s3"
proof -
  have u: "user_page n s" using r by (simp add: running_def)
  have cs: "length cs < 128" "0 \<notin> set cs" "cs \<noteq> []" and nm: "length nm < 32"
    using cl(1) by (auto simp: command_line_def)
  obtain s2 where s2: "running n con' s2" "user_effect n (span buf 129) s s2"
    "bytes_at (uld8 s2) buf (cs @ replicate (129 - length cs) 0)"
    and turn: "shell_loop irq lit buf irqs s = do {
         (t, s) \<leftarrow> ece391_execute buf s2;
         case t of
           Ret rval \<Rightarrow> do { (irqs, s) \<leftarrow> shell_report irq lit rval irqs' s; shell_loop irq lit buf irqs s }
         | Enter_user f \<Rightarrow> Some (Shell_starts f, irqs', s)
         | Resume eip eax \<Rightarrow> None
       }"
    using shell_turn [OF r l b cs(1,2) ty] cs(3) cl(2) by auto
  have u2: "user_page n s2" using s2(1) by (simp add: running_def)
  have len: "length (cs @ replicate (129 - length cs) 0) = 129" using cs(1) by simp
  have "command_at (ld8 s2) buf nm ag"
    using user_bytes [OF u2, of buf "cs @ replicate (129 - length cs) 0"] b s2(3)
    unfolding len by (intro command_line_at [OF cl(1)]) simp
  moreover have "directory (ld8 s2) (boot_block s2) es" "length (stack_junk s2) = 64"
    using effect_directory [OF s2(2) u dir(1)] by (simp_all add: module_directory_def)
  moreover have "program_file (ld8 s2) (boot_block s2) ino c blks bs"
    using effect_program [OF s2(2) u prog(1)] .
  moreover have "lowest_free (proc_arr s2) m" "kernel_mapped s2" "length (arg (stack_pcb s2)) = 128"
    using s2(2) slot u2 junk by (simp_all add: user_effect_def undisturbed_def user_page_def)
  ultimately obtain s3 where "sys_execute (ld8 s2) buf s2 = Some (Enter_user (entry_frame bs), s3)" "started m bs ag s2 s3"
    using sys_execute_starts [OF _ _ nm _ _ dir(2,3) _ prog(2-5)] by blast
  then show ?thesis using turn s2(1,2) by (auto simp: ece391_execute_eq)
qed

section \<open>Witnesses\<close>

definition arg_pcb :: pcb where
  "arg_pcb = demo_pcb\<lparr>arg := chars ''sh'' @ replicate 126 0, arg_size := 2\<rparr>"

definition demo_lits :: "string list" where
  "demo_lits = [''.'', ''391OS> '', ''exit'']"

lemma demo_lits_short: "short_lits []" "short_lits demo_lits"
  by (simp_all add: short_lits_def demo_lits_def chars_def)

theorem cat_prints_witness:
  "\<exists>s'. ece391cat (\<lambda>_. Some) (demo_lit []) 0x8050000 ([] :: unit list) (demo_user [] arg_pcb) = Some (0, [], s') \<and>
     user_effect 1 (span 0x8050000 1024) (demo_user [] arg_pcb) s' \<and>
     running 1 (fold type_char (take 1024 demo_block) demo_screen) s'"
proof -
  have "running 1 demo_screen (demo_user [] arg_pcb)"
    using demo_table demo_lits_short(1) by (intro demo_user_running) (simp_all add: arg_pcb_def)
  moreover have "argument_is (demo_user [] arg_pcb) (chars ''sh'')"
    by (simp add: argument_is_def arg_pcb_def chars_def)
  moreover have "in_program 0x8050000 1024" by (simp add: in_program_def)
  ultimately show ?thesis
    using cat_prints [OF _ _ demo_user_directory [OF demo_lits_short(1)] _ _ _ _ demo_user_file [OF demo_lits_short(1)],
        of 1 demo_screen arg_pcb "chars ''sh''" "demo_entry [115, 104] 2 0" 2 "0x8050000" "\<lambda>_. Some" "demo_lit []"
        "[] :: unit list"]
    by (simp add: demo_enames chars_def demo_entry_fields arg_pcb_def)
qed

theorem ls_lists_witness:
  "\<exists>s'. ece391ls (\<lambda>_. Some) (demo_lit demo_lits) 0x8050000 ([] :: unit list) (demo_user demo_lits demo_pcb) = Some (0, [], s') \<and>
     running 1 (fold type_char [46, 10, 115, 104, 10] demo_screen) s' \<and> dir_location s' = 0"
proof -
  have "running 1 demo_screen (demo_user demo_lits demo_pcb)" using demo_lits_short(2) demo_table by (rule demo_user_running)
  moreover have "in_program 0x8050000 33" by (simp add: in_program_def)
  moreover have "lit_at (demo_user demo_lits demo_pcb) (demo_lit demo_lits) ''.''"
    using demo_lits_short(2) by (rule demo_user_lit) (simp add: demo_lits_def)
  ultimately show ?thesis
    using ls_lists [OF _ demo_user_directory [OF demo_lits_short(2)], of 1 demo_screen demo_pcb "demo_entry [46] 1 0" 2
        "demo_lit demo_lits" "0x8050000" "\<lambda>_. Some" "[] :: unit list"]
    by (simp add: demo_enames chars_def demo_entry_fields demo_user_tty listing_def)
qed

theorem shell_starts_program_witness:
  "\<exists>s2 s3. shell_loop (line_arrives (chars ''sh x'')) (demo_lit demo_lits) 0x8050000 [()] (demo_user demo_lits demo_pcb) =
      Some (Shell_starts (entry_frame demo_elf), [], s3) \<and>
    user_effect 1 (span 0x8050000 129) (demo_user demo_lits demo_pcb) s2 \<and> started 2 demo_elf [120] s2 s3"
proof -
  note d = demo_lits_short(2)
  have r: "running 1 demo_screen (demo_user demo_lits demo_pcb)" using d demo_table by (rule demo_user_running)
  have l: "lit_at (demo_user demo_lits demo_pcb) (demo_lit demo_lits) ''391OS> ''"
    "lit_at (demo_user demo_lits demo_pcb) (demo_lit demo_lits) ''exit''"
    by (rule demo_user_lit [OF d], simp add: demo_lits_def)+
  note ty = prompt_then_line [OF r l(1) demo_user_tty(3), of "chars ''sh x''"]
  have "command_line (chars ''sh x'') [115, 104] [120]" by (simp add: command_line_def chars_def)
  moreover have "in_program 0x8050000 129" by (simp add: in_program_def)
  moreover have "lowest_free (proc_arr (demo_user demo_lits demo_pcb)) 2" using demo_lowest_free by simp
  moreover have "chars ''sh x'' \<noteq> chars ''exit''" by (simp add: chars_def)
  moreover have "span (demo_lit demo_lits ''exit'') 5 \<inter> span 0x8050000 129 = {}"
  proof -
    have "span (demo_lit demo_lits ''exit'') (Suc (length ''exit'')) \<inter> span 0x8050000 129 = {}"
      by (rule demo_lit_apart [OF d]) (simp_all add: in_program_def demo_lits_def)
    moreover have "Suc (length ''exit'') = 5" by simp
    ultimately show ?thesis by (simp only:)
  qed
  moreover have "40 \<le> length demo_elf" "demo_elf ! 0 = 0x7F" "demo_elf ! 1 = 0x45" "demo_elf ! 2 = 0x4C"
    "length (arg demo_pcb) = 128"
    by (simp_all add: demo_elf_def demo_pcb_def)
  ultimately show ?thesis
    using shell_starts_program [OF r l _ _ _ _ ty _ demo_user_directory [OF d] _ _ demo_user_program [OF d],
        of "0x8050000" "[115, 104]" "[120]" 2 "demo_entry [115, 104] 2 0"]
    by (auto simp: demo_enames demo_entry_fields demo_user_tty)
qed

end
