(* ===== verification/User_Tests.thy ===== *)
theory User_Tests
  imports User_Programs
begin

text \<open>
  The two test programs: \<open>ece391syserr.c\<close>, which calls the kernel with arguments it must refuse, and
  \<open>ece391sigtest.c\<close>, which stores through a null pointer. The property runs the former on the
  kernel: every test passes.
\<close>

section \<open>ece391syserr.c\<close>

text \<open>A call that should be refused: otherwise the complaint is printed and the test has failed.\<close>

definition check_refused ::
  "('e \<Rightarrow> 'a proc_state_scheme \<Rightarrow> 'a proc_state_scheme option) \<Rightarrow> u32 \<Rightarrow>
   ('e list \<Rightarrow> 'a proc_state_scheme \<Rightarrow> (i32 \<times> 'e list \<times> 'a proc_state_scheme) option) \<Rightarrow>
   i32 \<times> 'e list \<times> 'a proc_state_scheme \<Rightarrow> (i32 \<times> 'e list \<times> 'a proc_state_scheme) option" where
  "check_refused irq complaint call = (\<lambda>(fail, irqs, s). do {
     (v, irqs, s) \<leftarrow> call irqs s;
     if v \<noteq> -1 then say irq complaint 2 irqs s else Some (fail, irqs, s)
   })"

definition verdict ::
  "('e \<Rightarrow> 'a proc_state_scheme \<Rightarrow> 'a proc_state_scheme option) \<Rightarrow> u32 \<Rightarrow> u32 \<Rightarrow>
   i32 \<times> 'e list \<times> 'a proc_state_scheme \<Rightarrow> (i32 \<times> 'e list \<times> 'a proc_state_scheme) option" where
  "verdict irq fails passes = (\<lambda>(fail, irqs, s).
     say irq (if fail \<noteq> 0 then fails else passes) fail irqs s)"

definition err_neg_fd where
  "err_neg_fd irq lit buf irqs s = do {
     r \<leftarrow> check_refused irq (lit ''read fail\<newline>'') (ece391_read irq (- 1073741823) buf 31) (0, irqs, s);
     r \<leftarrow> check_refused irq (lit ''write fail\<newline>'') (ece391_write irq (- 1073741823) buf 31) r;
     r \<leftarrow> check_refused irq (lit ''close fail\<newline>'') (ece391_close irq (- 1073741823)) r;
     verdict irq (lit ''err_neg_fd: FAIL\<newline>'') (lit ''err_neg_fd: PASS\<newline>'') r
   }"

definition err_big_fd where
  "err_big_fd irq lit buf irqs s = do {
     r \<leftarrow> check_refused irq (lit ''read fail\<newline>'') (ece391_read irq 1073741823 buf 31) (0, irqs, s);
     r \<leftarrow> check_refused irq (lit ''write fail\<newline>'') (ece391_write irq 1073741823 buf 31) r;
     r \<leftarrow> check_refused irq (lit ''close fail\<newline>'') (ece391_close irq 1073741823) r;
     verdict irq (lit ''err_big_fd: FAIL\<newline>'') (lit ''err_big_fd: PASS\<newline>'') r
   }"

definition err_open_lots where
  "err_open_lots irq lit irqs s = do {
     (cnt, irqs, s) \<leftarrow> for_each (\<lambda>i (cnt, irqs, s). do {
         (fd, irqs, s) \<leftarrow> ece391_open irq (lit ''.'') irqs s;
         Some (if fd = -1 then cnt + 1 else cnt, irqs, s)
       }) [0..<7] (0 :: i32, irqs, s);
     (irqs, s) \<leftarrow> for_each (\<lambda>i (irqs, s). do {
         (v, irqs, s) \<leftarrow> ece391_close irq (of_nat i) irqs s;
         Some (irqs, s)
       }) [2..<8] (irqs, s);
     if cnt = 1 then say irq (lit ''err_open_lots: PASS\<newline>'') 0 irqs s
     else say irq (lit ''err_open_lots: FAIL\<newline>'') 2 irqs s
   }"

definition err_open where
  "err_open irq lit irqs s = do {
     r \<leftarrow> check_refused irq (lit (CHR 0x27 # ''helloo' fail\<newline>'')) (ece391_open irq (lit ''helloo'')) (0, irqs, s);
     r \<leftarrow> check_refused irq (lit (CHR 0x27 # ''shel' fail\<newline>'')) (ece391_open irq (lit ''shel'')) r;
     r \<leftarrow> check_refused irq (lit ''empty string fail\<newline>'') (ece391_open irq (lit [])) r;
     verdict irq (lit ''err_open: FAIL\<newline>'') (lit ''err_open: PASS\<newline>'') r
   }"

definition err_unopened where
  "err_unopened irq lit buf irqs s = do {
     r \<leftarrow> for_each (\<lambda>i. check_refused irq (lit ''close unopened or invalid fd fail\<newline>'')
       (ece391_close irq (of_nat i))) [0..<8] (0, irqs, s);
     r \<leftarrow> for_each (\<lambda>i. check_refused irq (lit ''read from unopened fd fail\<newline>'')
       (ece391_read irq (of_nat i) buf 31)) [2..<8] r;
     r \<leftarrow> for_each (\<lambda>i. check_refused irq (lit ''write to unopened fd fail\<newline>'')
       (ece391_write irq (of_nat i) buf 31)) [2..<8] r;
     verdict irq (lit ''err_unopened: FAIL\<newline>'') (lit ''err_unopened: PASS\<newline>'') r
   }"

definition err_vidmap where
  "err_vidmap irq lit irqs s = do {
     r \<leftarrow> check_refused irq (lit ''Null pointer fail\<newline>'') (ece391_vidmap irq 0) (0, irqs, s);
     r \<leftarrow> check_refused irq (lit ''Kernel pointer fail fail\<newline>'') (ece391_vidmap irq 0x400000) r;
     verdict irq (lit ''err_vidmap: FAIL\<newline>'') (lit ''err_vidmap: PASS\<newline>'') r
   }"

definition err_stdin_out where
  "err_stdin_out irq lit buf irqs s = do {
     r \<leftarrow> check_refused irq (lit ''write to stdin fail\<newline>'') (ece391_write irq 0 buf 31) (0, irqs, s);
     r \<leftarrow> check_refused irq (lit ''read from stdout fail\<newline>'') (ece391_read irq 1 buf 31) r;
     verdict irq (lit ''err_stdin_out: FAIL\<newline>'') (lit ''err_stdin_out: PASS\<newline>'') r
   }"

text \<open>\<open>call_sys\<close> sets EAX only: what is in the other registers is a parameter.\<close>

definition call_sys where
  "call_sys irq regs num = (case regs of (ebx, ecx, edx) \<Rightarrow> do_call irq num ebx ecx edx)"

definition err_syscall_num where
  "err_syscall_num irq lit regs irqs s = do {
     r \<leftarrow> check_refused irq (lit ''syscall 0 fail\<newline>'') (call_sys irq regs 1073741823) (0, irqs, s);
     r \<leftarrow> check_refused irq (lit ''big num syscall fail\<newline>'') (call_sys irq regs (- 1073741823)) r;
     r \<leftarrow> check_refused irq (lit ''neg num syscall fail\<newline>'') (call_sys irq regs 0) r;
     verdict irq (lit ''err_syscall_num: FAIL\<newline>'') (lit ''err_syscall_num: PASS\<newline>'') r
   }"

text \<open>The tests by number, and \<open>main\<close>; \<open>tbuf\<close> is the buffer of the test that runs.\<close>

definition run_test where
  "run_test irq lit tbuf regs k = (
     if k = (1 :: nat) then err_neg_fd irq lit tbuf
     else if k = 2 then err_big_fd irq lit tbuf
     else if k = 3 then err_open_lots irq lit
     else if k = 4 then err_open irq lit
     else if k = 5 then err_unopened irq lit tbuf
     else if k = 6 then err_vidmap irq lit
     else if k = 7 then err_stdin_out irq lit tbuf
     else err_syscall_num irq lit regs)"

definition ece391syserr where
  "ece391syserr irq lit buf tbuf regs irqs s = do {
     (irqs, s) \<leftarrow> ece391_fdputs irq 1 (lit ''Choose from tests 1-8. 0 to run all: '') irqs s;
     (cnt, irqs, s) \<leftarrow> ece391_read irq 0 buf 127 irqs s;
     if cnt = -1 then say irq (lit ''Can't read test #\<newline>'') 2 irqs s
     else do {
       b \<leftarrow> uld8 s buf;
       let select = uint b - 48;
       if select = 0 then do {
         (fail, irqs, s) \<leftarrow> for_each (\<lambda>k (fail, irqs, s). do {
             (f, irqs, s) \<leftarrow> run_test irq lit tbuf regs k irqs s;
             Some (fail + f, irqs, s)
           }) [1..<9] (0 :: i32, irqs, s);
         say irq (if fail \<noteq> 0 then lit ''\<newline>Overall Tests: FAIL\<newline>'' else lit ''\<newline>Overall Tests: PASS\<newline>'')
           fail irqs s
       }
       else if 1 \<le> select \<and> select \<le> 8 then run_test irq lit tbuf regs (nat select) irqs s
       else say irq (lit ''Invalid test number. Choose from tests 1-8 or 0'') 0 irqs s
     }
   }"

section \<open>ece391sigtest.c\<close>

text \<open>
  The variables \<open>charbuf\<close> and \<open>badbuf\<close> are given by their addresses, as are the two handlers. The kernel
  never calls a handler; \<open>segfault_sighandler\<close> is modelled with the address of its argument.
\<close>

definition signum_text :: "i32 \<Rightarrow> string" where
  "signum_text signum = (if signum = 0 then ''0\<newline>'' else if signum = 1 then ''1\<newline>''
     else if signum = 2 then ''2\<newline>'' else if signum = 3 then ''3\<newline>'' else ''invalid\<newline>'')"

definition segfault_sighandler where
  "segfault_sighandler irq lit charbuf badbuf buf signum_at signum irqs s = do {
     (irqs, s) \<leftarrow> ece391_fdputs irq 1 (lit ''Segfault signal handler called, signum: '') irqs s;
     (irqs, s) \<leftarrow> ece391_fdputs irq 1 (lit (signum_text signum)) irqs s;
     (irqs, s) \<leftarrow> ece391_fdputs irq 1 (lit ''Press enter to continue...\<newline>'') irqs s;
     (_, irqs, s) \<leftarrow> ece391_read irq 0 buf 1 irqs s;
     s \<leftarrow> write_bytes ust8 badbuf (le_bytes charbuf) s;
     s \<leftarrow> write_bytes ust8 (signum_at + 28) (le_bytes charbuf) s;
     ece391_fdputs irq 1 (lit ''Signal handler returning\<newline>'') irqs s
   }"

definition alarm_sighandler where
  "alarm_sighandler irq lit signum irqs s = do {
     (irqs, s) \<leftarrow> ece391_fdputs irq 1 (lit ''Alarm signal handler called, signum: '') irqs s;
     ece391_fdputs irq 1 (lit (signum_text signum)) irqs s
   }"

definition ece391sigtest where
  "ece391sigtest irq lit charbuf badbuf segfault alarm buf irqs s = do {
     (r, irqs, s) \<leftarrow> ece391_getargs irq buf 1024 irqs s;
     if r \<noteq> 0 then say irq (lit ''could not read argument\<newline>'') 3 irqs s
     else do {
       c \<leftarrow> uld8 s buf;
       (irqs, s) \<leftarrow> (if c = of_char (CHR ''1'') then do {
           (irqs, s) \<leftarrow> ece391_fdputs irq 1 (lit ''Installing signal handlers\<newline>'') irqs s;
           (_, irqs, s) \<leftarrow> ece391_set_handler irq 1 segfault irqs s;
           (_, irqs, s) \<leftarrow> ece391_set_handler irq 3 alarm irqs s;
           Some (irqs, s)
         }
         else Some (irqs, s));
       (irqs, s) \<leftarrow> ece391_fdputs irq 1 (lit ''Hi, what's your name? '') irqs s;
       (cnt, irqs, s) \<leftarrow> ece391_read irq 0 buf 1023 irqs s;
       if cnt = -1 then say irq (lit ''Can't read name from keyboard.\<newline>'') 3 irqs s
       else do {
         bad \<leftarrow> ld32 (uld8 s) badbuf;
         s \<leftarrow> ust8 bad 1 s;
         s \<leftarrow> ust8 (buf + cnt) 0 s;
         (irqs, s) \<leftarrow> ece391_fdputs irq 1 (lit ''Hello, '') irqs s;
         (irqs, s) \<leftarrow> ece391_fdputs irq 1 buf irqs s;
         v \<leftarrow> uld8 s charbuf;
         say irq (if v = 1 then lit ''success\<newline>'' else lit ''failure\<newline>'') 0 irqs s
       }
     }
   }"

section \<open>The kernel passes its tests\<close>

definition pass_texts :: "string list" where
  "pass_texts = [''err_neg_fd: PASS\<newline>'', ''err_big_fd: PASS\<newline>'', ''err_open_lots: PASS\<newline>'',
     ''err_open: PASS\<newline>'', ''err_unopened: PASS\<newline>'', ''err_vidmap: PASS\<newline>'', ''err_stdin_out: PASS\<newline>'',
     ''err_syscall_num: PASS\<newline>'']"

definition syserr_lits :: "string list" where
  "syserr_lits = [''Choose from tests 1-8. 0 to run all: '', ''.'', ''helloo'', ''shel'', [],
     ''\<newline>Overall Tests: PASS\<newline>''] @ pass_texts"

text \<open>The state of the test program: its screen, the directory of the module and its literals.\<close>

definition testing :: "(string \<Rightarrow> u32) \<Rightarrow> u8 list list \<Rightarrow> nat \<Rightarrow> console \<Rightarrow> 'a proc_state_scheme \<Rightarrow> bool" where
  "testing lit es n con s \<longleftrightarrow> running n con s \<and> module_directory s es \<and> (\<forall>str \<in> set syserr_lits. lit_at s lit str)"

lemma testing_step:
  assumes "testing lit es n con s" "user_effect n B s s'" "running n con' s'"
    and "\<forall>str \<in> set syserr_lits. span (lit str) (Suc (length str)) \<inter> B = {}"
  shows "testing lit es n con' s'"
  using assms effect_directory [OF assms(2)] lit_effect [OF assms(2)] by (auto simp: testing_def running_def)

lemma testing_says:
  assumes t: "testing lit es n con s" and str: "str \<in> set syserr_lits"
  shows "\<exists>s'. ece391_fdputs irq 1 (lit str) irqs s = Some (irqs, s') \<and> testing lit es n (fold type_char (chars str) con) s' \<and>
    own_table s' = own_table s"
proof -
  have l: "in_program (lit str) (Suc (length (chars str)))" "cstr_at (uld8 s) (lit str) (chars str)"
    using t str by (auto simp: testing_def lit_at_def)
  have r: "running n con s" using t by (simp add: testing_def)
  obtain s' where "ece391_fdputs irq 1 (lit str) irqs s = Some (irqs, s')" "running n (fold type_char (chars str) con) s'"
    "user_effect n {} s s'" "own_table s' = own_table s"
    using fdputs_types [OF r l, of irq irqs] by auto
  then show ?thesis using testing_step [OF t, of "{}"] by auto
qed

lemma check_refused_passes: "call irqs s = Some (-1, irqs, s) \<Longrightarrow> check_refused irq c call (f, irqs, s) = Some (f, irqs, s)"
  by (simp add: check_refused_def)

lemma all_refused:
  "(\<And>i. i \<in> set is \<Longrightarrow> call i irqs s = Some (-1, irqs, s)) \<Longrightarrow>
     for_each (\<lambda>i. check_refused irq c (call i)) is (f, irqs, s) = Some (f, irqs, s)"
  by (induction "is") (simp_all add: check_refused_passes)

text \<open>
  Between the tests no descriptor from 2 on is in use. A test that passes returns 0, has said so and
  nothing else, and leaves the program as it was.
\<close>

definition unused :: "file_desc list \<Rightarrow> bool" where
  "unused ds \<longleftrightarrow> (\<forall>i \<in> {2..<8}. flags (ds ! i) = 0)"

definition test_passes where
  "test_passes lit es n irqs con str r \<longleftrightarrow>
     (\<exists>s'. r = Some (0, irqs, s') \<and> testing lit es n (fold type_char (chars str) con) s' \<and> unused (own_table s'))"

lemma verdict_passes:
  assumes "testing lit es n con s" "unused (own_table s)" "str \<in> set syserr_lits"
  shows "test_passes lit es n irqs con str (verdict irq f (lit str) (0, irqs, s))"
  using testing_says [OF assms(1,3), of irq irqs] assms(2) by (auto simp: verdict_def say_def test_passes_def)

lemma call_refused:
  assumes "testing lit es n con s" "fd <s 0 \<or> 8 \<le>s fd \<or> flags (own_table s ! unat fd) = 0"
  shows "ece391_read irq fd buf m irqs s = Some (-1, irqs, s)" "ece391_write irq fd buf m irqs s = Some (-1, irqs, s)"
    "ece391_close irq fd irqs s = Some (-1, irqs, s)"
  using descriptor_refused [of s fd irq irqs buf m] assms by (auto simp: user_calls testing_def running_def)

lemma standard_refused:
  assumes "testing lit es n con s"
  shows "ece391_read irq 1 buf m irqs s = Some (-1, irqs, s)" "ece391_write irq 0 buf m irqs s = Some (-1, irqs, s)"
    "ece391_close irq 0 irqs s = Some (-1, irqs, s)" "ece391_close irq 1 irqs s = Some (-1, irqs, s)"
  using descriptor_refused [of s 0 irq irqs buf m] assms by (auto simp: user_calls testing_def running_def)

lemma missing_refused:
  assumes t: "testing lit es n con s" and str: "str \<in> set syserr_lits" "find (\<lambda>e. ename e = chars str) es = None"
  shows "ece391_open irq (lit str) irqs s = Some (-1, irqs, s)"
  using t str open_refused [of n con s es "lit str" "chars str" irq irqs]
  by (auto simp: testing_def lit_at_def module_directory_def)

lemma pass_text: "k < 8 \<Longrightarrow> pass_texts ! k \<in> set syserr_lits"
proof -
  assume "k < 8"
  then have "pass_texts ! k \<in> set pass_texts" by (intro nth_mem) (simp add: pass_texts_def)
  then show ?thesis by (simp add: syserr_lits_def)
qed

lemma err_fd_pass:
  assumes "testing lit es n con s" "unused (own_table s)"
  shows "test_passes lit es n irqs con (pass_texts ! 0) (err_neg_fd irq lit buf irqs s)"
    "test_passes lit es n irqs con (pass_texts ! 1) (err_big_fd irq lit buf irqs s)"
proof -
  have r: "(- 1073741823 :: i32) <s 0" "8 \<le>s (1073741823 :: i32)" by (simp_all add: word_sless_alt word_sle_eq)
  show "test_passes lit es n irqs con (pass_texts ! 0) (err_neg_fd irq lit buf irqs s)"
    using verdict_passes [OF assms(1,2) pass_text [of 0]] r
    by (simp add: err_neg_fd_def check_refused_passes call_refused [OF assms(1)]) (simp add: pass_texts_def)
  show "test_passes lit es n irqs con (pass_texts ! 1) (err_big_fd irq lit buf irqs s)"
    using verdict_passes [OF assms(1,2) pass_text [of 1]] r
    by (simp add: err_big_fd_def check_refused_passes call_refused [OF assms(1)]) (simp add: pass_texts_def)
qed

lemma err_open_pass:
  assumes "testing lit es n con s" "unused (own_table s)" and "\<forall>str \<in> {''helloo'', ''shel'', []}. find (\<lambda>e. ename e = chars str) es = None"
  shows "test_passes lit es n irqs con (pass_texts ! 3) (err_open irq lit irqs s)"
proof -
  have "ece391_open irq (lit str) irqs s = Some (-1, irqs, s)" if "str \<in> {''helloo'', ''shel'', []}" for str
    using assms(3) that by (intro missing_refused [OF assms(1)]) (auto simp: syserr_lits_def)
  then show ?thesis
    using verdict_passes [OF assms(1,2) pass_text [of 3]]
    by (simp add: err_open_def check_refused_passes) (simp add: pass_texts_def)
qed

lemma err_unopened_pass:
  assumes t: "testing lit es n con s" and f: "unused (own_table s)"
  shows "test_passes lit es n irqs con (pass_texts ! 4) (err_unopened irq lit buf irqs s)"
proof -
  have u: "flags (own_table s ! unat (of_nat i :: u32)) = 0" if "i \<in> set [2..<8]" for i
    using f that unat_of_nat_u32 [of i] by (simp add: unused_def)
  have c: "ece391_close irq (of_nat i) irqs s = Some (-1, irqs, s)" if "i \<in> set [0..<8]" for i
  proof (cases "i < 2")
    case True
    then have "i = 0 \<or> i = 1" by auto
    then show ?thesis using standard_refused(3,4) [OF t] by auto
  next
    case False
    then show ?thesis using that u [of i] by (intro call_refused [OF t]) simp
  qed
  show ?thesis
    using verdict_passes [OF t f pass_text [of 4], of irqs irq]
      all_refused [of "[0..<8]" "\<lambda>i. ece391_close irq (of_nat i)" irqs s, OF c]
      all_refused [of "[2..<8]" "\<lambda>i. ece391_read irq (of_nat i) buf 31" irqs s, OF call_refused(1) [OF t disjI2 [OF disjI2 [OF u]]]]
      all_refused [of "[2..<8]" "\<lambda>i. ece391_write irq (of_nat i) buf 31" irqs s, OF call_refused(2) [OF t disjI2 [OF disjI2 [OF u]]]]
    by (simp add: err_unopened_def pass_texts_def)
qed

lemma err_vidmap_pass:
  assumes "testing lit es n con s" "unused (own_table s)"
  shows "test_passes lit es n irqs con (pass_texts ! 5) (err_vidmap irq lit irqs s)"
proof -
  have "ece391_vidmap irq a irqs s = Some (-1, irqs, s)" if "a < 0x8000000" for a
    using that by (simp add: user_calls sys_vidmap_def)
  then show ?thesis
    using verdict_passes [OF assms(1,2) pass_text [of 5]]
    by (simp add: err_vidmap_def check_refused_passes) (simp add: pass_texts_def)
qed

lemma err_stdin_out_pass:
  assumes "testing lit es n con s" "unused (own_table s)"
  shows "test_passes lit es n irqs con (pass_texts ! 6) (err_stdin_out irq lit buf irqs s)"
  using verdict_passes [OF assms(1,2) pass_text [of 6]]
  by (simp add: err_stdin_out_def check_refused_passes standard_refused [OF assms(1)]) (simp add: pass_texts_def)

lemma err_syscall_num_pass:
  assumes "testing lit es n con s" "unused (own_table s)"
  shows "test_passes lit es n irqs con (pass_texts ! 7) (err_syscall_num irq lit regs irqs s)"
proof -
  have "call_sys irq regs a irqs s = Some (-1, irqs, s)" if "a <s 1 \<or> 10 <s a" for a
    using that by (simp add: call_sys_def do_call_def syscall_def split: prod.split)
  moreover have "10 <s (1073741823 :: i32)" "(- 1073741823 :: i32) <s 1" "(0 :: i32) <s 1"
    by (simp_all add: word_sless_alt)
  ultimately show ?thesis
    using verdict_passes [OF assms(1,2) pass_text [of 7]]
    by (simp add: err_syscall_num_def check_refused_passes) (simp add: pass_texts_def)
qed

subsection \<open>Opening too much\<close>

text \<open>Of the descriptors from 2 on those up to \<open>a\<close> are closed, those up to \<open>b\<close> stand for the entry \<open>e\<close>.\<close>

definition opened_between :: "u8 list \<Rightarrow> nat \<Rightarrow> nat \<Rightarrow> file_desc list \<Rightarrow> bool" where
  "opened_between e a b ds \<longleftrightarrow>
     (\<forall>i \<in> {2..<8}. if a \<le> i \<and> i < b then ds ! i = opened e else flags (ds ! i) = 0)"

lemma open_one:
  assumes t: "testing lit es n con s" and o: "opened_between e 2 b (own_table s)" "b < 8" "2 \<le> b"
    and e: "find (\<lambda>e. ename e = chars ''.'') es = Some e"
  shows "\<exists>s'. ece391_open irq (lit ''.'') irqs s = Some (of_nat b, irqs, s') \<and> testing lit es n con s' \<and>
    opened_between e 2 (Suc b) (own_table s')"
proof -
  have l: "in_program (lit ''.'') (Suc (length (chars ''.'')))" "cstr_at (uld8 s) (lit ''.'') (chars ''.'')"
    using t by (auto simp: testing_def lit_at_def syserr_lits_def)
  have r: "running n con s" and d: "directory (ld8 s) (boot_block s) es" "length (stack_junk s) = 64"
    using t by (simp_all add: testing_def module_directory_def)
  have one: "flags (opened e) = 1" by (simp add: opened_def)
  have "[2..<8] ! (b - 2) = b" using o(2,3) by simp
  then have i: "find (\<lambda>i. flags (own_table s ! i) = 0) [2..<8] = Some b"
    using o one by (auto simp: find_Some_iff opened_between_def intro!: exI [of _ "b - 2"])
  obtain s' where s': "ece391_open irq (lit ''.'') irqs s = Some (of_nat b, irqs, s')" "running n con s'"
    "user_effect n {} s s'" "own_table s' = (own_table s)[b := opened e]"
    using open_returns [OF r d l e i, of irq irqs] by auto
  moreover have "length (own_table s) = 8" using r by (simp add: running_def table_ok_def)
  then have "opened_between e 2 (Suc b) (own_table s')"
    using o by (auto simp: opened_between_def s'(4) nth_list_update)
  ultimately show ?thesis using testing_step [OF t s'(3,2)] by auto
qed

lemma close_opened:
  assumes t: "testing lit es n con s" and o: "opened_between e a 8 (own_table s)" "a < 8" "2 \<le> a"
    and e: "file_type e = Some 1"
  shows "\<exists>s'. ece391_close irq (of_nat a) irqs s = Some (0, irqs, s') \<and> testing lit es n con s' \<and>
    opened_between e (Suc a) 8 (own_table s')"
proof -
  have r: "running n con s" using t by (simp add: testing_def)
  have "own_table s ! a = opened e" using o by (simp add: opened_between_def)
  then obtain s' where s': "ece391_close irq (of_nat a) irqs s = Some (0, irqs, s')" "running n con s'"
    "user_effect n {} s s'" "own_table s' = (own_table s)[a := (opened e)\<lparr>flags := 0\<rparr>]"
    using close_returns [OF r o(3,2), of e irq irqs] e by auto
  moreover have "length (own_table s) = 8" using r by (simp add: running_def table_ok_def)
  then have "opened_between e (Suc a) 8 (own_table s')"
    using o by (auto simp: opened_between_def s'(4) nth_list_update)
  ultimately show ?thesis using testing_step [OF t s'(3,2)] by auto
qed

lemma open_loop:
  assumes "testing lit es n con s" "opened_between e 2 b (own_table s)" "2 \<le> b" "b + length is = 8"
    and "find (\<lambda>e. ename e = chars ''.'') es = Some e"
  shows "\<exists>s'. for_each (\<lambda>i (cnt, irqs, s). do {
         (fd, irqs, s) \<leftarrow> ece391_open irq (lit ''.'') irqs s;
         Some (if fd = -1 then cnt + 1 else cnt, irqs, s)
       }) is (cnt :: i32, irqs, s) = Some (cnt, irqs, s') \<and> testing lit es n con s' \<and> opened_between e 2 8 (own_table s')"
  using assms(1-4)
proof (induction "is" arbitrary: b s)
  case (Cons i "is")
  obtain s1 where s1: "ece391_open irq (lit ''.'') irqs s = Some (of_nat b, irqs, s1)" "testing lit es n con s1"
    "opened_between e 2 (Suc b) (own_table s1)"
    using open_one [OF Cons.prems(1,2) _ _ assms(5)] Cons.prems(3,4) by auto
  have "(of_nat b :: i32) \<noteq> -1" using Cons.prems(4) by (intro count_not_error) simp
  then show ?case using Cons.IH [OF s1(2,3)] Cons.prems(3,4) s1(1) by auto
qed auto

lemma close_loop:
  assumes "testing lit es n con s" "opened_between e a 8 (own_table s)" "2 \<le> a" "a \<le> 8" and e: "file_type e = Some 1"
  shows "\<exists>s'. for_each (\<lambda>i (irqs, s). do {
         (v, irqs, s) \<leftarrow> ece391_close irq (of_nat i) irqs s;
         Some (irqs, s)
       }) [a..<8] (irqs, s) = Some (irqs, s') \<and> testing lit es n con s' \<and> unused (own_table s')"
  using assms(1-4)
proof (induction "8 - a" arbitrary: a s)
  case 0
  then show ?case by (auto simp: opened_between_def unused_def)
next
  case (Suc d)
  then have a: "a < 8" "[a..<8] = a # [Suc a..<8]" by (simp_all add: upt_conv_Cons)
  obtain s1 where s1: "ece391_close irq (of_nat a) irqs s = Some (0, irqs, s1)" "testing lit es n con s1"
    "opened_between e (Suc a) 8 (own_table s1)"
    using close_opened [OF Suc.prems(1,2) a(1) Suc.prems(3) e] by auto
  then show ?case using Suc.hyps(1) [OF _ s1(2,3)] Suc.hyps(2) Suc.prems(3) a by auto
qed

lemma err_open_lots_pass:
  assumes t: "testing lit es n con s" and f: "unused (own_table s)"
    and e: "find (\<lambda>e. ename e = chars ''.'') es = Some e" "file_type e = Some 1"
  shows "test_passes lit es n irqs con (pass_texts ! 2) (err_open_lots irq lit irqs s)"
proof -
  have o: "opened_between e 2 2 (own_table s)" using f by (simp add: opened_between_def unused_def)
  obtain s1 where s1: "for_each (\<lambda>i (cnt, irqs, s). do {
         (fd, irqs, s) \<leftarrow> ece391_open irq (lit ''.'') irqs s;
         Some (if fd = -1 then cnt + 1 else cnt, irqs, s)
       }) [0..<6] (0 :: i32, irqs, s) = Some (0, irqs, s1)" "testing lit es n con s1" "opened_between e 2 8 (own_table s1)"
    using open_loop [OF t o _ _ e(1), of "[0..<6]" irq 0 irqs] by auto
  have "flags (own_table s1 ! i) \<noteq> 0" if "i \<in> set [2..<8]" for i
    using s1(3) that by (simp add: opened_between_def opened_def)
  then have "find (\<lambda>i. flags (own_table s1 ! i) = 0) [2..<8] = None" unfolding find_None_iff by blast
  moreover have "lit_at s1 lit ''.''" "running n con s1" "module_directory s1 es"
    using s1(2) by (simp_all add: testing_def syserr_lits_def)
  ultimately have "ece391_open irq (lit ''.'') irqs s1 = Some (-1, irqs, s1)"
    using open_refused [of n con s1 es "lit ''.''" "chars ''.''" irq irqs] by (simp add: lit_at_def module_directory_def)
  moreover obtain s2 where s2: "for_each (\<lambda>i (irqs, s). do {
         (v, irqs, s) \<leftarrow> ece391_close irq (of_nat i) irqs s;
         Some (irqs, s)
       }) [2..<8] (irqs, s1) = Some (irqs, s2)" "testing lit es n con s2" "unused (own_table s2)"
    using close_loop [OF s1(2,3) _ _ e(2), of irq irqs] by auto
  moreover have "[0..<7 :: nat] = [0..<6] @ [6]" by (simp flip: upt_Suc_append)
  ultimately show ?thesis
    using s1(1) testing_says [OF s2(2) pass_text [of 2], of irq irqs]
    by (auto simp: err_open_lots_def for_each_append say_def test_passes_def pass_texts_def)
qed

lemma run_test_passes:
  assumes "testing lit es n con s" "unused (own_table s)"
    and "find (\<lambda>e. ename e = chars ''.'') es = Some e" "file_type e = Some 1"
    and "\<forall>str \<in> {''helloo'', ''shel'', []}. find (\<lambda>e. ename e = chars str) es = None"
    and "1 \<le> k" "k \<le> 8"
  shows "test_passes lit es n irqs con (pass_texts ! (k - 1)) (run_test irq lit tbuf regs k irqs s)"
proof -
  have "k = 1 \<or> k = 2 \<or> k = 3 \<or> k = 4 \<or> k = 5 \<or> k = 6 \<or> k = 7 \<or> k = 8" using assms(6,7) by arith
  then show ?thesis
    using err_fd_pass [OF assms(1,2), of irqs irq tbuf] err_open_lots_pass [OF assms(1-4), of irqs irq]
      err_open_pass [OF assms(1,2,5), of irqs irq] err_unopened_pass [OF assms(1,2), of irqs irq tbuf]
      err_vidmap_pass [OF assms(1,2), of irqs irq] err_stdin_out_pass [OF assms(1,2), of irqs irq tbuf]
      err_syscall_num_pass [OF assms(1,2), of irqs irq regs]
    by (elim disjE) (simp_all add: run_test_def)
qed

lemma all_tests_pass:
  assumes "testing lit es n con s" "unused (own_table s)"
    and es: "find (\<lambda>e. ename e = chars ''.'') es = Some e" "file_type e = Some 1"
      "\<forall>str \<in> {''helloo'', ''shel'', []}. find (\<lambda>e. ename e = chars str) es = None"
    and "1 \<le> a" "a \<le> 9"
  shows "test_passes lit es n irqs con (concat (drop (a - 1) pass_texts)) (for_each (\<lambda>k (fail, irqs, s). do {
       (f, irqs, s) \<leftarrow> run_test irq lit tbuf regs k irqs s;
       Some (fail + f, irqs, s)
     }) [a..<9] (0, irqs, s))"
  using assms(1,2,6,7)
proof (induction "9 - a" arbitrary: a s con)
  case 0
  then show ?case by (simp add: test_passes_def chars_def pass_texts_def)
next
  case (Suc d)
  then have a: "a < 9" "[a..<9] = a # [Suc a..<9]" by (simp_all add: upt_conv_Cons)
  have l: "length pass_texts = 8" by (simp add: pass_texts_def)
  obtain s1 where s1: "run_test irq lit tbuf regs a irqs s = Some (0, irqs, s1)"
    "testing lit es n (fold type_char (chars (pass_texts ! (a - 1))) con) s1" "unused (own_table s1)"
    using run_test_passes [OF Suc.prems(1,2) es Suc.prems(3), of irqs irq tbuf regs] a(1) by (auto simp: test_passes_def)
  have "drop (a - 1) pass_texts = pass_texts ! (a - 1) # drop (Suc a - 1) pass_texts"
    using Cons_nth_drop_Suc [of "a - 1" pass_texts] Suc.prems(3) a(1) l by simp
  moreover have "chars (xs @ ys) = chars xs @ chars ys" for xs ys by (simp add: chars_def)
  ultimately show ?case
    using Suc.hyps(1) [of "Suc a", OF _ s1(2,3)] Suc.hyps(2) Suc.prems(3) a s1(1) by (simp add: test_passes_def)
qed

definition syserr_output :: "nat \<Rightarrow> string" where
  "syserr_output k = (if k = 0 then concat pass_texts @ ''\<newline>Overall Tests: PASS\<newline>'' else pass_texts ! (k - 1))"

text \<open>
  The kernel as modelled passes \<open>syserr\<close> (\<open>README.txt\<close> reports that it did not work on the machine):
  whichever test from 1 to 8 the user asks for, or all of them with 0, the program prints that the
  tests passed, and nothing else, and returns 0. So: the calls refuse the
  descriptors -1073741823, 1073741823 and those not open, what goes the wrong way on 0 and 1, a seventh
  open file, names that are not in the directory, addresses outside the program for \<open>vidmap\<close>
  and unknown numbers. The module must have \<open>.\<close> and no \<open>helloo\<close>, \<open>shel\<close> or nameless entry.
\<close>

theorem syserr_passes:
  fixes s :: "'a proc_state_scheme"
  assumes t: "testing lit es n con s" "unused (own_table s)"
    and es: "find (\<lambda>e. ename e = chars ''.'') es = Some e" "file_type e = Some 1"
      "\<forall>str \<in> {''helloo'', ''shel'', []}. find (\<lambda>e. ename e = chars str) es = None"
    and b: "in_program buf 127" "\<forall>str \<in> set syserr_lits. span (lit str) (Suc (length str)) \<inter> span buf 127 = {}"
    and ty: "\<And>s0. ece391_fdputs irq 1 (lit ''Choose from tests 1-8. 0 to run all: '') irqs s = Some (irqs, s0) \<Longrightarrow>
      user_types irq irqs irqs' n ((48 + of_nat k) # cs) con' s0"
    and k: "k \<le> 8" and cs: "length cs < 128"
  shows "\<exists>s'. ece391syserr irq lit buf tbuf regs irqs s = Some (0, irqs', s') \<and>
    testing lit es n (fold type_char (chars (syserr_output k)) con') s' \<and> unused (own_table s')"
proof -
  have p: "''Choose from tests 1-8. 0 to run all: '' \<in> set syserr_lits" "''\<newline>Overall Tests: PASS\<newline>'' \<in> set syserr_lits"
    by (simp_all add: syserr_lits_def)
  obtain s1 where s1: "ece391_fdputs irq 1 (lit ''Choose from tests 1-8. 0 to run all: '') irqs s = Some (irqs, s1)"
    "testing lit es n (fold type_char (chars ''Choose from tests 1-8. 0 to run all: '') con) s1" "own_table s1 = own_table s"
    using testing_says [OF t(1) p(1)] by blast
  have r1: "running n (fold type_char (chars ''Choose from tests 1-8. 0 to run all: '') con) s1"
    using s1(2) by (simp add: testing_def)
  obtain s2 where s2: "ece391_read irq 0 buf 127 irqs s1 = Some (127, irqs', s2)" "running n con' s2"
    "user_effect n (span buf 127) s1 s2" "own_table s2 = own_table s1"
    "bytes_at (uld8 s2) buf (take 127 (((48 + of_nat k) # cs) @ replicate (127 - length cs) 0))"
    using read_line_prefix [OF r1 ty [OF s1(1)], of buf 127] b(1) cs by auto
  have t2: "testing lit es n con' s2" "unused (own_table s2)"
    using testing_step [OF s1(2) s2(3,2) b(2)] t(2) s1(3) s2(4) by simp_all
  have c: "uld8 s2 buf = Some (48 + of_nat k)" using bytes_at_nth [OF s2(5), of 0] by simp
  have u: "uint (48 + of_nat k :: u8) = 48 + int k" 
  proof -
    have "uint (of_nat (48 + k) :: u8) = 48 + int k"
      using k by (simp only: unsigned_of_nat) (simp add: take_bit_nat_eq_self)
    then show ?thesis by simp
  qed
  show ?thesis
  proof (cases "k = 0")
    case True
    obtain s3 where s3: "for_each (\<lambda>k (fail, irqs, s). do {
         (f, irqs, s) \<leftarrow> run_test irq lit tbuf regs k irqs s;
         Some (fail + f, irqs, s)
       }) [1..<9] (0, irqs', s2) = Some (0, irqs', s3)"
      "testing lit es n (fold type_char (chars (concat pass_texts)) con') s3" "unused (own_table s3)"
      using all_tests_pass [OF t2 es, of 1 irqs' irq tbuf regs] by (auto simp: test_passes_def)
    show ?thesis
      using s1(1) s2(1) c u s3 testing_says [OF s3(2) p(2), of irq irqs']
      by (auto simp: True ece391syserr_def Let_def say_def syserr_output_def chars_def)
  next
    case False
    then show ?thesis
      using s1(1) s2(1) c u k run_test_passes [OF t2 es, of k irqs' irq tbuf regs]
      by (auto simp: ece391syserr_def Let_def syserr_output_def test_passes_def)
  qed
qed

lemma syserr_lits_short: "short_lits syserr_lits"
  by (simp add: short_lits_def syserr_lits_def pass_texts_def chars_def)

theorem syserr_passes_witness:
  "\<exists>s'. ece391syserr (line_arrives (chars ''0'')) (demo_lit syserr_lits) 0x8050000 0x8051000 (0, 0, 0) [()]
      (demo_user syserr_lits demo_pcb) = Some (0, [], s') \<and> unused (own_table s')"
proof -
  note d = syserr_lits_short
  have r: "running 1 demo_screen (demo_user syserr_lits demo_pcb)" using d demo_table by (rule demo_user_running)
  have t: "testing (demo_lit syserr_lits) [demo_entry [46] 1 0, demo_entry [115, 104] 2 0] 1 demo_screen (demo_user syserr_lits demo_pcb)"
    using r demo_user_directory [OF d] demo_user_lit [OF d] by (simp add: testing_def)
  have p: "lit_at (demo_user syserr_lits demo_pcb) (demo_lit syserr_lits) ''Choose from tests 1-8. 0 to run all: ''"
    by (rule demo_user_lit [OF d]) (simp add: syserr_lits_def)
  note ty = prompt_then_line [OF r p demo_user_tty(3), of "chars ''0''"]
  have "unused (file_descs demo_pcb)" by (auto simp: unused_def demo_pcb_def closed_desc_def nth_Cons split: nat.split)
  moreover have "\<forall>str \<in> set syserr_lits. span (demo_lit syserr_lits str) (Suc (length str)) \<inter> span 0x8050000 127 = {}"
    using demo_lit_apart [OF d, of "0x8050000" 127] by (simp add: in_program_def)
  moreover have "in_program 0x8050000 127" by (simp add: in_program_def)
  moreover have "chars ''0'' = (48 + of_nat 0) # []" by (simp add: chars_def)
  ultimately show ?thesis
    using syserr_passes [OF t, of "demo_entry [46] 1 0" "0x8050000" "line_arrives (chars ''0'')" "[()]" "[]" 0 "[]"
        "fold type_char (chars ''Choose from tests 1-8. 0 to run all: '') demo_screen" "0x8051000" "(0, 0, 0)"] ty
    by (fastforce simp: demo_enames demo_entry_fields demo_user_tty chars_def [of "''.''"] chars_def [of "''helloo''"]
        chars_def [of "''shel''"] chars_def [of "[]"])
qed

end
