(* ===== verification/Boot.thy ===== *)
theory Boot
  imports User_Tests
begin

text \<open>
  The start of the kernel, \<open>entry\<close> of \<open>kernel.c\<close>: what the boot loader left is printed, the segment
  descriptors of \<open>x86_desc.h\<close> are filled in, every driver is initialised, and the first shell is
  executed. All of this prints before \<open>initialize_page\<close>, when the video window at one gigabyte is not
  mapped to the display: the text goes to physical memory there. The property puts the components
  together: the machine comes up and enters the shell.
\<close>

section \<open>Segment descriptors (x86_desc.h)\<close>

abbreviation (input) "KERNEL_TSS \<equiv> (0x0030 :: u16)"
abbreviation (input) "KERNEL_LDT \<equiv> (0x0038 :: u16)"
abbreviation (input) "TSS_SIZE \<equiv> (104 :: u32)"

record seg_desc =
  seg_lim_15_00 :: u16
  base_15_00 :: u16
  base_23_16 :: u8
  seg_type :: "4 word"
  seg_sys :: bool
  seg_dpl :: "2 word"
  seg_present :: bool
  seg_lim_19_16 :: "4 word"
  seg_avail :: bool
  seg_reserved :: bool
  opsize :: bool
  granularity :: bool
  base_31_24 :: u8

text \<open>
  The entries of the GDT that are filled in at run time, the two registers that select them, and where
  the linker puts the tables; of the TSS, the fields that are used (two are part of \<open>proc_state\<close>).
\<close>

record boot_state = sched_state +
  ldt_desc_ptr :: seg_desc
  tss_desc_ptr :: seg_desc
  ldtr :: u16
  task_register :: u16
  ldt_segment_selector :: u16
  ldt_at :: u32
  tss_at :: u32

definition ldt_size :: u32 where "ldt_size = 4 * 8 - 1"
definition tss_size :: u32 where "tss_size = 104 - 1"

definition SET_LDT_PARAMS :: "seg_desc \<Rightarrow> u32 \<Rightarrow> u32 \<Rightarrow> seg_desc" where
  "SET_LDT_PARAMS str addr lim = str\<lparr>
     base_31_24 := ucast (drop_bit 24 (addr AND 0xFF000000)),
     base_23_16 := ucast (drop_bit 16 (addr AND 0x00FF0000)),
     base_15_00 := ucast (addr AND 0x0000FFFF),
     seg_lim_19_16 := ucast (drop_bit 16 (lim AND 0x000F0000)),
     seg_lim_15_00 := ucast (lim AND 0x0000FFFF)\<rparr>"

definition SET_TSS_PARAMS :: "seg_desc \<Rightarrow> u32 \<Rightarrow> u32 \<Rightarrow> seg_desc" where
  "SET_TSS_PARAMS str addr lim = str\<lparr>
     base_31_24 := ucast (drop_bit 24 (addr AND 0xFF000000)),
     base_23_16 := ucast (drop_bit 16 (addr AND 0x00FF0000)),
     base_15_00 := ucast (addr AND 0x0000FFFF),
     seg_lim_19_16 := ucast (drop_bit 16 (lim AND 0x000F0000)),
     seg_lim_15_00 := ucast (lim AND 0x0000FFFF)\<rparr>"

definition lldt :: "u16 \<Rightarrow> 'a boot_state_scheme \<Rightarrow> 'a boot_state_scheme" where
  "lldt desc s = s\<lparr>ldtr := desc\<rparr>"

definition ltr :: "u16 \<Rightarrow> 'a boot_state_scheme \<Rightarrow> 'a boot_state_scheme" where
  "ltr desc s = s\<lparr>task_register := desc\<rparr>"

section \<open>Segments (kernel.c)\<close>

text \<open>The local descriptors start as whatever the stack holds; every field is assigned.\<close>

definition init_ldt :: "seg_desc \<Rightarrow> 'a boot_state_scheme \<Rightarrow> 'a boot_state_scheme" where
  "init_ldt the_ldt_desc s =
     (let the_ldt_desc = the_ldt_desc\<lparr>granularity := False, opsize := True, seg_reserved := False,
            seg_avail := False, seg_present := True, seg_dpl := 0, seg_sys := False, seg_type := 2\<rparr>;
          the_ldt_desc = SET_LDT_PARAMS the_ldt_desc (ldt_at s) ldt_size;
          s = s\<lparr>ldt_desc_ptr := the_ldt_desc\<rparr>
      in lldt KERNEL_LDT s)"

definition init_tss :: "seg_desc \<Rightarrow> 'a boot_state_scheme \<Rightarrow> 'a boot_state_scheme" where
  "init_tss the_tss_desc s =
     (let the_tss_desc = the_tss_desc\<lparr>granularity := False, opsize := False, seg_reserved := False,
            seg_avail := False, seg_lim_19_16 := ucast (TSS_SIZE AND 0x000F0000), seg_present := True,
            seg_dpl := 0, seg_sys := False, seg_type := 9, seg_lim_15_00 := ucast (TSS_SIZE AND 0x0000FFFF)\<rparr>;
          the_tss_desc = SET_TSS_PARAMS the_tss_desc (tss_at s) tss_size;
          s = s\<lparr>tss_desc_ptr := the_tss_desc\<rparr>;
          s = s\<lparr>ldt_segment_selector := KERNEL_LDT, tss_ss0 := KERNEL_DS, tss_esp0 := 0x800000\<rparr>
      in ltr KERNEL_TSS s)"

section \<open>Multiboot information (multiboot.h)\<close>

text \<open>The fields of \<open>multiboot_info_t\<close>, \<open>module_t\<close> and \<open>memory_map_t\<close> by their offsets.\<close>

definition field :: "u32 \<Rightarrow> u32 \<Rightarrow> 'a mach_scheme \<Rightarrow> u32 option" where
  "field base off s = ld32 (ld8 s) (base + off)"

abbreviation (input) "mb_flags \<equiv> (0 :: u32)"
abbreviation (input) "mem_lower \<equiv> (4 :: u32)"
abbreviation (input) "mem_upper \<equiv> (8 :: u32)"
abbreviation (input) "boot_device \<equiv> (12 :: u32)"
abbreviation (input) "cmdline \<equiv> (16 :: u32)"
abbreviation (input) "mods_count \<equiv> (20 :: u32)"
abbreviation (input) "mods_addr \<equiv> (24 :: u32)"
abbreviation (input) "elf_sec \<equiv> (28 :: u32)"
abbreviation (input) "mmap_length \<equiv> (44 :: u32)"
abbreviation (input) "mmap_addr \<equiv> (48 :: u32)"
abbreviation (input) "mod_start \<equiv> (0 :: u32)"
abbreviation (input) "mod_end \<equiv> (4 :: u32)"

abbreviation (input) "MULTIBOOT_BOOTLOADER_MAGIC \<equiv> (0x2BADB002 :: u32)"

definition CHECK_FLAG :: "u32 \<Rightarrow> nat \<Rightarrow> bool" where
  "CHECK_FLAG fl b \<longleftrightarrow> fl AND push_bit b 1 \<noteq> 0"

text \<open>A byte printed with \<open>%x\<close> is a signed \<open>char\<close>.\<close>

definition print_module :: "u32 \<Rightarrow> u32 \<Rightarrow> 'a tty_state_scheme \<Rightarrow> 'a tty_state_scheme option" where
  "print_module mod_count md s = do {
     v \<leftarrow> field md mod_start s;
     s \<leftarrow> printf_lit ''Module %d loaded at address: 0x%#x\<newline>'' [mod_count, v] s;
     v \<leftarrow> field md mod_end s;
     s \<leftarrow> printf_lit ''Module %d ends at address: 0x%#x\<newline>'' [mod_count, v] s;
     s \<leftarrow> printf_lit ''First few bytes of module:\<newline>'' [] s;
     s \<leftarrow> for_each (\<lambda>i s. do {
         a \<leftarrow> field md mod_start s;
         c \<leftarrow> ld8 s (a + of_nat i);
         printf_lit ''0x%x '' [scast c] s
       }) [0..<16] s;
     printf_lit ''\<newline>'' [] s
   }"

partial_function (option) print_modules ::
  "u32 \<Rightarrow> u32 \<Rightarrow> u32 \<Rightarrow> 'a tty_state_scheme \<Rightarrow> 'a tty_state_scheme option"
where
  "print_modules mbi mod_count md s = do {
     n \<leftarrow> field mbi mods_count s;
     if mod_count < n then do {
       s \<leftarrow> print_module mod_count md s;
       print_modules mbi (mod_count + 1) (md + 16) s
     }
     else Some s
   }"

definition print_mmap_entry :: "u32 \<Rightarrow> 'a tty_state_scheme \<Rightarrow> 'a tty_state_scheme option" where
  "print_mmap_entry mmap s = do {
     size' \<leftarrow> field mmap 0 s;
     base_addr_high \<leftarrow> field mmap 8 s;
     base_addr_low \<leftarrow> field mmap 4 s;
     type' \<leftarrow> field mmap 20 s;
     length_high \<leftarrow> field mmap 16 s;
     length_low \<leftarrow> field mmap 12 s;
     printf_lit ''    size = 0x%x, base_addr = 0x%#x%#x\<newline>    type = 0x%x,  length    = 0x%#x%#x\<newline>''
       [size', base_addr_high, base_addr_low, type', length_high, length_low] s
   }"

partial_function (option) print_mmap :: "u32 \<Rightarrow> u32 \<Rightarrow> 'a tty_state_scheme \<Rightarrow> 'a tty_state_scheme option" where
  "print_mmap mbi mmap s = do {
     a \<leftarrow> field mbi mmap_addr s;
     n \<leftarrow> field mbi mmap_length s;
     if mmap < a + n then do {
       s \<leftarrow> print_mmap_entry mmap s;
       size' \<leftarrow> field mmap 0 s;
       print_mmap mbi (mmap + size' + 4) s
     }
     else Some s
   }"

section \<open>entry (kernel.c)\<close>

text \<open>\<open>if (CHECK_FLAG (mbi->flags, b))\<close>\<close>

definition when_flag ::
  "u32 \<Rightarrow> nat \<Rightarrow> ('a tty_state_scheme \<Rightarrow> 'a tty_state_scheme option) \<Rightarrow> 'a tty_state_scheme \<Rightarrow> 'a tty_state_scheme option" where
  "when_flag mbi b body s = do {
     f \<leftarrow> field mbi mb_flags s;
     if CHECK_FLAG f b then body s else Some s
   }"

definition print_basic_info :: "u32 \<Rightarrow> 'a tty_state_scheme \<Rightarrow> 'a tty_state_scheme option" where
  "print_basic_info mbi s = do {
     f \<leftarrow> field mbi mb_flags s;
     s \<leftarrow> printf_lit ''flags = 0x%#x\<newline>'' [f] s;
     s \<leftarrow> when_flag mbi 0 (\<lambda>s. do {
         l \<leftarrow> field mbi mem_lower s;
         u \<leftarrow> field mbi mem_upper s;
         printf_lit ''mem_lower = %uKB, mem_upper = %uKB\<newline>'' [l, u] s
       }) s;
     s \<leftarrow> when_flag mbi 1 (\<lambda>s. do {
         d \<leftarrow> field mbi boot_device s;
         printf_lit ''boot_device = 0x%#x\<newline>'' [d] s
       }) s;
     when_flag mbi 2 (\<lambda>s. do {
         c \<leftarrow> field mbi cmdline s;
         printf_lit ''cmdline = %s\<newline>'' [c] s
       }) s
   }"

definition find_modules :: "u32 \<Rightarrow> 'a tty_state_scheme \<Rightarrow> 'a tty_state_scheme option" where
  "find_modules mbi = when_flag mbi 3 (\<lambda>s. do {
     md \<leftarrow> field mbi mods_addr s;
     v \<leftarrow> field md mod_start s;
     print_modules mbi 0 md (get_block_address v s)
   })"

definition print_tables :: "u32 \<Rightarrow> 'a tty_state_scheme \<Rightarrow> 'a tty_state_scheme option" where
  "print_tables mbi s = do {
     s \<leftarrow> when_flag mbi 5 (\<lambda>s. do {
         n \<leftarrow> field mbi elf_sec s;
         z \<leftarrow> field mbi (elf_sec + 4) s;
         a \<leftarrow> field mbi (elf_sec + 8) s;
         x \<leftarrow> field mbi (elf_sec + 12) s;
         printf_lit ''elf_sec: num = %u, size = 0x%#x, addr = 0x%#x, shndx = 0x%#x\<newline>'' [n, z, a, x] s
       }) s;
     when_flag mbi 6 (\<lambda>s. do {
         a \<leftarrow> field mbi mmap_addr s;
         n \<leftarrow> field mbi mmap_length s;
         s \<leftarrow> printf_lit ''mmap_addr = 0x%#x, mmap_length = 0x%x\<newline>'' [a, n] s;
         a \<leftarrow> field mbi mmap_addr s;
         print_mmap mbi a s
       }) s
   }"

definition init_devices :: "'a rtc_state_scheme \<Rightarrow> 'a rtc_state_scheme option" where
  "init_devices s = do {
     let s = idt_init s;
     let s = i8259_init s;
     let s = keyboard_init s;
     let s = enable_irq 1 s;
     s \<leftarrow> rtc_init s;
     let s = enable_irq 2 s;
     let s = enable_irq 8 s;
     s \<leftarrow> init_pit s;
     let s = enable_irq 0 s;
     let s = initialize_page s;
     (_, s) \<leftarrow> terminal_open s;
     init_term_cursor s
   }"

text \<open>
  How \<open>entry\<close> ends: it returns to \<open>boot.S\<close>, which halts; the shell is entered; or \<open>sys_execute\<close> returned,
  the tests have run - none are compiled in - and the processor idles with interrupts on.
\<close>

datatype boot_end = Boot_halts | Boot_enters user_frame | Boot_idles

definition launch_tests :: "'a boot_state_scheme \<Rightarrow> 'a boot_state_scheme" where
  "launch_tests s = s"

text \<open>
  The last part of \<open>entry\<close>: descriptors, devices, the shell. \<open>shell\<close> is where the linker puts the
  literal; \<open>d1\<close> and \<open>d2\<close> are the uninitialised descriptors.
\<close>

definition bring_up ::
  "u32 \<Rightarrow> seg_desc \<Rightarrow> seg_desc \<Rightarrow> 'a boot_state_scheme \<Rightarrow> (boot_end \<times> 'a boot_state_scheme) option" where
  "bring_up shell d1 d2 s = do {
     s \<leftarrow> init_devices (init_tss d2 (init_ldt d1 s));
     (t, s) \<leftarrow> sys_execute (ld8 s) shell s;
     case t of
       Enter_user f \<Rightarrow> Some (Boot_enters f, s)
     | Ret v \<Rightarrow> Some (Boot_idles, launch_tests (sti s))
     | Resume eip eax \<Rightarrow> None
   }"

definition entry ::
  "u32 \<Rightarrow> u32 \<Rightarrow> u32 \<Rightarrow> seg_desc \<Rightarrow> seg_desc \<Rightarrow> 'a boot_state_scheme \<Rightarrow> (boot_end \<times> 'a boot_state_scheme) option" where
  "entry magic addr shell d1 d2 s = do {
     s \<leftarrow> clear s;
     if magic \<noteq> MULTIBOOT_BOOTLOADER_MAGIC then do {
       s \<leftarrow> printf_lit ''Invalid magic number: 0x%#x\<newline>'' [magic] s;
       Some (Boot_halts, s)
     }
     else do {
       s \<leftarrow> print_basic_info addr s;
       s \<leftarrow> find_modules addr s;
       f \<leftarrow> field addr mb_flags s;
       if CHECK_FLAG f 4 \<and> CHECK_FLAG f 5 then do {
         s \<leftarrow> printf_lit ''Both bits 4 and 5 are set.\<newline>'' [] s;
         Some (Boot_halts, s)
       }
       else do {
         s \<leftarrow> print_tables addr s;
         bring_up shell d1 d2 s
       }
     }
   }"

end
