(* ===== verification/Boot_Spec.thy ===== *)
theory Boot_Spec
  imports Boot
begin

text \<open>
  What the start of the kernel does: the descriptors say what was put into them; what is printed
  before paging only reaches the memory at one gigabyte; after the initialisations the tables, the
  gates, the interrupt lines and the screens are as the rest of the kernel needs them, and the
  shell is entered as process 0.
\<close>

section \<open>What a segment descriptor says\<close>

definition seg_base :: "seg_desc \<Rightarrow> u32" where
  "seg_base d = push_bit 24 (ucast (base_31_24 d)) OR push_bit 16 (ucast (base_23_16 d)) OR ucast (base_15_00 d)"

definition seg_limit :: "seg_desc \<Rightarrow> u32" where
  "seg_limit d = push_bit 16 (ucast (seg_lim_19_16 d)) OR ucast (seg_lim_15_00 d)"

text \<open>A present system segment of ring 0, of byte granularity.\<close>

definition system_segment :: "seg_desc \<Rightarrow> 4 word \<Rightarrow> u32 \<Rightarrow> u32 \<Rightarrow> bool" where
  "system_segment d ty base lim \<longleftrightarrow> seg_present d \<and> \<not> seg_sys d \<and> seg_dpl d = 0 \<and> \<not> granularity d \<and>
     seg_type d = ty \<and> seg_base d = base \<and> seg_limit d = lim"

lemma split_base:
  "push_bit 24 (ucast (ucast (drop_bit 24 (a AND 0xFF000000)) :: u8)) OR
   push_bit 16 (ucast (ucast (drop_bit 16 (a AND 0x00FF0000)) :: u8)) OR
   ucast (ucast (a AND 0x0000FFFF) :: u16) = (a :: u32)"
proof -
  have m: "(0xFF000000 :: u32) = push_bit 24 (mask 8)" "(0x00FF0000 :: u32) = push_bit 16 (mask 8)" "(0xFFFF :: u32) = mask 16"
    by (simp_all add: mask_eq_exp_minus_1 push_bit_eq_mult)
  show ?thesis
    unfolding m
    apply (rule bit_word_eqI)
    subgoal for n by (cases "24 \<le> n") (auto simp: bit_simps)
    done
qed

lemma split_limit:
  "push_bit 16 (ucast (ucast (drop_bit 16 (l AND 0x000F0000)) :: 4 word)) OR ucast (ucast (l AND 0x0000FFFF) :: u16) =
   take_bit 20 (l :: u32)"
proof -
  have m: "(0x000F0000 :: u32) = push_bit 16 (mask 4)" "(0xFFFF :: u32) = mask 16"
    by (simp_all add: mask_eq_exp_minus_1 push_bit_eq_mult)
  show ?thesis
    unfolding m by (rule bit_word_eqI) (auto simp: bit_simps)
qed

lemma SET_TSS_PARAMS_eq: "SET_TSS_PARAMS = SET_LDT_PARAMS"
  by (simp add: fun_eq_iff SET_TSS_PARAMS_def SET_LDT_PARAMS_def)

lemma SET_LDT_PARAMS_says:
  "seg_base (SET_LDT_PARAMS d a l) = a" "seg_limit (SET_LDT_PARAMS d a l) = take_bit 20 l"
  using split_base [of a] split_limit [of l] by (simp_all add: seg_base_def seg_limit_def SET_LDT_PARAMS_def or.assoc)

lemma SET_LDT_PARAMS_keeps [simp]:
  "seg_present (SET_LDT_PARAMS d a l) = seg_present d" "seg_sys (SET_LDT_PARAMS d a l) = seg_sys d"
  "seg_dpl (SET_LDT_PARAMS d a l) = seg_dpl d" "granularity (SET_LDT_PARAMS d a l) = granularity d"
  "seg_type (SET_LDT_PARAMS d a l) = seg_type d"
  by (simp_all add: SET_LDT_PARAMS_def)

text \<open>
  The system segments: whatever the stack held, after \<open>init_ldt\<close> and \<open>init_tss\<close> the LDT and TSS
  entries of the GDT describe present ring-0 system segments of the right types at exactly the
  addresses and limits of the two tables, whatever those addresses are; the registers select them,
  and a trap from a program finds the kernel's data segment and a stack.
\<close>

theorem segments_installed:
  fixes s :: "'a boot_state_scheme"
  shows "let s' = init_tss d2 (init_ldt d1 s) in
    system_segment (ldt_desc_ptr s') 2 (ldt_at s) 31 \<and> ldtr s' = KERNEL_LDT \<and>
    system_segment (tss_desc_ptr s') 9 (tss_at s) 103 \<and> task_register s' = KERNEL_TSS \<and>
    ldt_segment_selector s' = KERNEL_LDT \<and> tss_ss0 s' = KERNEL_DS \<and> tss_esp0 s' = 0x800000"
proof -
  have t: "take_bit 20 (31 :: u32) = 31" "take_bit 20 (103 :: u32) = 103" by (simp_all add: take_bit_eq_mod)
  show ?thesis
    by (simp add: init_tss_def init_ldt_def Let_def lldt_def ltr_def system_segment_def SET_TSS_PARAMS_eq
        SET_LDT_PARAMS_says ldt_size_def tss_size_def t)
qed

section \<open>Printing before paging\<close>

text \<open>
  Until \<open>initialize_page\<close> an address is a physical address: \<open>putc\<close> draws in the page at one gigabyte,
  which no display shows, and changes nothing else than \<open>boot_frame\<close> says.
\<close>

definition boot_frame :: "'a tty_state_scheme \<Rightarrow> 'a tty_state_scheme \<Rightarrow> bool" where
  "boot_frame s s' \<longleftrightarrow>
     s' = s\<lparr>phys := phys s', page_table_vid := (page_table_vid s)(0 := page_table_vid s' 0), io := io s',
       screen_x := screen_x s', screen_y := screen_y s', term_cursor_x := term_cursor_x s', term_cursor_y := term_cursor_y s'\<rparr> \<and>
     (\<forall>a. \<not> unat (a - VIDEO) < 4096 \<longrightarrow> phys s' a = phys s a) \<and>
     (\<forall>p. p \<noteq> 0x3D4 \<longrightarrow> p \<noteq> 0x3D5 \<longrightarrow> last_out p (io s') = last_out p (io s))"

definition boot_screen :: "'a tty_state_scheme \<Rightarrow> console \<Rightarrow> bool" where
  "boot_screen s = (\<lambda>(g, x, y).
     \<not> paging s \<and> term_in_service s = 0 \<and> cur_term_num s = 0 \<and>
     length (term_cursor_x s) = 3 \<and> length (term_cursor_y s) = 3 \<and>
     term_cursor_x s ! 0 = of_nat x \<and> term_cursor_y s ! 0 = of_nat y \<and> x < 80 \<and> y < 25 \<and>
     glyphs (page_bytes s VIDEO) = g)"

lemma boot_frame_refl: "boot_frame s s"
  by (simp add: boot_frame_def)

lemma boot_frame_sel:
  assumes "boot_frame s s'"
  shows "paging s' = paging s" "term_in_service s' = term_in_service s" "cur_term_num s' = cur_term_num s"
    "stack_junk s' = stack_junk s" "boot_block s' = boot_block s" "device s' = device s" "handler_at s' = handler_at s"
    "page_table_at s' = page_table_at s" "page_table_vid_at s' = page_table_vid_at s" "idt s' = idt s"
    "terminal_opened s' = terminal_opened s" "tty_state.more s' = tty_state.more s" "int_flag s' = int_flag s"
proof -
  have e: "s' = s\<lparr>phys := phys s', page_table_vid := (page_table_vid s)(0 := page_table_vid s' 0), io := io s',
       screen_x := screen_x s', screen_y := screen_y s', term_cursor_x := term_cursor_x s', term_cursor_y := term_cursor_y s'\<rparr>"
    using assms by (simp only: boot_frame_def)
  show "paging s' = paging s" "term_in_service s' = term_in_service s" "cur_term_num s' = cur_term_num s"
    "stack_junk s' = stack_junk s" "boot_block s' = boot_block s" "device s' = device s" "handler_at s' = handler_at s"
    "page_table_at s' = page_table_at s" "page_table_vid_at s' = page_table_vid_at s" "idt s' = idt s"
    "terminal_opened s' = terminal_opened s" "tty_state.more s' = tty_state.more s" "int_flag s' = int_flag s"
    by (subst e, simp)+
qed

lemma boot_frame_trans:
  assumes 1: "boot_frame s s1" and 2: "boot_frame s1 s2"
  shows "boot_frame s s2"
proof -
  have e1: "s1 = s\<lparr>phys := phys s1, page_table_vid := (page_table_vid s)(0 := page_table_vid s1 0), io := io s1,
       screen_x := screen_x s1, screen_y := screen_y s1, term_cursor_x := term_cursor_x s1, term_cursor_y := term_cursor_y s1\<rparr>"
    using 1 by (simp only: boot_frame_def)
  have e2: "s2 = s1\<lparr>phys := phys s2, page_table_vid := (page_table_vid s1)(0 := page_table_vid s2 0), io := io s2,
       screen_x := screen_x s2, screen_y := screen_y s2, term_cursor_x := term_cursor_x s2, term_cursor_y := term_cursor_y s2\<rparr>"
    using 2 by (simp only: boot_frame_def)
  have v: "(page_table_vid s1)(0 := w) = (page_table_vid s)(0 := w)" for w by (subst e1) simp
  have "s2 = s\<lparr>phys := phys s2, page_table_vid := (page_table_vid s)(0 := page_table_vid s2 0), io := io s2,
       screen_x := screen_x s2, screen_y := screen_y s2, term_cursor_x := term_cursor_x s2, term_cursor_y := term_cursor_y s2\<rparr>"
    by (subst e2, subst e1) (simp add: v)
  then show ?thesis using 1 2 by (simp add: boot_frame_def)
qed

lemma boot_putc:
  assumes "boot_screen s con"
  shows "\<exists>s'. putc ch s = Some s' \<and> boot_screen s' (type_char ch con) \<and> boot_frame s s'"
proof -
  obtain g x y where con: "con = (g, x, y)" by (cases con)
  have b: "\<not> paging s" "term_in_service s = 0" "cur_term_num s = 0" "length (term_cursor_x s) = 3" "length (term_cursor_y s) = 3"
    "term_cursor_x s ! 0 = of_nat x" "term_cursor_y s ! 0 = of_nat y" "x < 80" "y < 25" "glyphs (page_bytes s VIDEO) = g"
    using assms by (simp_all add: boot_screen_def con)
  let ?w = "VIM_MEM_INDEX OR RW OR PRESENT OR USER"
  have cc: "cursor_check s = Some (1, s\<lparr>screen_x := of_nat x, screen_y := of_nat y, page_table_vid := (page_table_vid s)(0 := ?w)\<rparr>)"
    using b by (simp add: cursor_check_def get_term_cursor_x_def get_term_cursor_y_def set_screen_coords_def)
  obtain s' where s': "putc ch s = Some s'" "drawn_on 0 ?w VIDEO (type_char ch con) s s'"
    using putc_on_page [OF cc, of VIDEO 0 ch] b by (auto simp: displays_def con)
  obtain g' x' y' where con': "type_char ch con = (g', x', y')" by (cases "type_char ch con")
  have e: "s' = s\<lparr>phys := phys s', page_table_vid := (page_table_vid s)(0 := ?w), io := io s',
       screen_x := screen_x s', screen_y := screen_y s',
       term_cursor_x := (term_cursor_x s)[0 := of_nat x'], term_cursor_y := (term_cursor_y s)[0 := of_nat y']\<rparr>"
    using s'(2) by (simp only: drawn_on_def con' prod.case)
  have k: "term_cursor_x s' = (term_cursor_x s)[0 := of_nat x']" "term_cursor_y s' = (term_cursor_y s)[0 := of_nat y']"
    "page_table_vid s' = (page_table_vid s)(0 := ?w)" "paging s' = paging s"
    "term_in_service s' = term_in_service s" "cur_term_num s' = cur_term_num s"
    by (subst e, simp)+
  have "boot_screen s' (type_char ch con)"
    using s'(2) b k by (simp add: boot_screen_def con' drawn_on_def)
  moreover have "s' = s\<lparr>phys := phys s', page_table_vid := (page_table_vid s)(0 := page_table_vid s' 0), io := io s',
       screen_x := screen_x s', screen_y := screen_y s', term_cursor_x := term_cursor_x s', term_cursor_y := term_cursor_y s'\<rparr>"
    unfolding k by (subst e) simp
  then have "boot_frame s s'" using s'(2) by (simp add: boot_frame_def drawn_on_def con')
  ultimately show ?thesis using s'(1) by blast
qed

interpretation unpaged: typing boot_frame boot_screen
proof
  show "boot_frame s s' \<Longrightarrow> stack_junk s' = stack_junk s" for s s' :: "'a tty_state_scheme"
    by (rule boot_frame_sel)
qed (fact boot_frame_refl, fact boot_frame_trans, fact boot_putc)

section \<open>What is printed\<close>

text \<open>\<open>says s r\<close>: from \<open>s\<close> on, nothing but printing has led to the outcome \<open>r\<close>, which is a state.\<close>

definition on_boot :: "'a tty_state_scheme \<Rightarrow> bool" where
  "on_boot s \<longleftrightarrow> (\<exists>con. boot_screen s con) \<and> length (stack_junk s) = 64"

definition says :: "'a tty_state_scheme \<Rightarrow> 'a tty_state_scheme option \<Rightarrow> bool" where
  "says s r \<longleftrightarrow> (\<exists>s'. r = Some s' \<and> on_boot s' \<and> boot_frame s s')"

lemma on_bootD: "on_boot s \<Longrightarrow> \<not> paging s \<and> term_in_service s = 0 \<and> cur_term_num s = 0"
  by (auto simp: on_boot_def boot_screen_def)

lemma says_frame: "boot_frame s s' \<Longrightarrow> says s' r \<Longrightarrow> says s r"
  using boot_frame_trans by (auto simp: says_def)

lemma says_Some [intro]: "on_boot s \<Longrightarrow> says s (Some s)"
  by (simp add: says_def boot_frame_refl)

lemma says_bind:
  "says s r \<Longrightarrow> (\<And>s'. on_boot s' \<Longrightarrow> boot_frame s s' \<Longrightarrow> says s' (g s')) \<Longrightarrow> says s (r \<bind> g)"
  unfolding says_def using boot_frame_trans by fastforce

lemma says_for_each:
  "on_boot s \<Longrightarrow> (\<And>i s'. on_boot s' \<Longrightarrow> says s' (f i s')) \<Longrightarrow> says s (for_each f is s)"
proof (induction "is" arbitrary: s)
  case (Cons i "is")
  show ?case using Cons.IH Cons.prems by (auto intro!: says_bind)
qed auto

lemma saysI: "r = Some s' \<Longrightarrow> boot_screen s' con \<Longrightarrow> boot_frame s s' \<Longrightarrow> on_boot s \<Longrightarrow> says s r"
  using boot_frame_sel(4) [of s s'] by (auto simp: says_def on_boot_def simp del: split_paired_Ex)

lemma says_printf:
  assumes "on_boot s" "\<exists>out. formatted str None (chars fmt) args = Some out" "0 \<notin> set (chars fmt)" "length fmt < 1000"
    and "\<And>v cs s'. str v = Some cs \<Longrightarrow> boot_frame s s' \<Longrightarrow> cstr_at (ld8 s') v cs"
  shows "says s (printf_lit fmt args s)"
proof -
  obtain con out where c: "boot_screen s con" "formatted str None (chars fmt) args = Some out" and j: "length (stack_junk s) = 64"
    using assms(1,2) by (auto simp: on_boot_def)
  have "\<exists>s'. printf_lit fmt args s = Some s' \<and> boot_screen s' (fold type_char out con) \<and> boot_frame s s'"
    by (rule unpaged.printf_lit_types [where str = str, OF c(1) j c(2) assms(3,4)]) (fact assms(5))
  then show ?thesis using saysI assms(1) by blast
qed

lemma says_puts:
  assumes "on_boot s" "0 \<notin> set (chars str)" "length str < 1000" shows "says s (puts_lit str s)"
proof -
  obtain con where "boot_screen s con" using assms(1) by (auto simp: on_boot_def)
  then have "\<exists>s'. puts_lit str s = Some s' \<and> boot_screen s' (fold type_char (chars str) con) \<and> boot_frame s s'"
    using assms(2,3) by (intro unpaged.puts_lit_types) simp_all
  then show ?thesis using saysI assms(1) by blast
qed

lemma says_clear:
  assumes "on_boot s" shows "says s (clear s)"
proof -
  have "displays s VIDEO" using on_bootD [OF assms] by (simp add: displays_def)
  then obtain s' where s': "clear s = Some s'" "s' = s\<lparr>phys := phys s'\<rparr>"
    "\<forall>a. \<not> unat (a - VIDEO) < 4096 \<longrightarrow> phys s' a = phys s a"
    using clear_displayed [of s VIDEO] by blast
  obtain p where p: "s' = s\<lparr>phys := p\<rparr>" using s'(2) by blast
  have "boot_frame s s'" using s'(3) by (simp add: p boot_frame_def)
  moreover have "on_boot s'" using assms by (auto simp: p on_boot_def boot_screen_def)
  ultimately show ?thesis using s'(1) by (simp add: says_def)
qed

section \<open>The multiboot information\<close>

text \<open>Where nothing is drawn, and a word of the memory before paging.\<close>

definition unseen :: "u32 \<Rightarrow> nat \<Rightarrow> bool" where
  "unseen a n \<longleftrightarrow> (\<forall>k < n. \<not> unat (a + of_nat k - VIDEO) < 4096)"

definition mword :: "(u32 \<Rightarrow> u8) \<Rightarrow> u32 \<Rightarrow> u32" where
  "mword p a = le_word (p a) (p (a + 1)) (p (a + 2)) (p (a + 3))"

fun mmap_chain :: "(u32 \<Rightarrow> u8) \<Rightarrow> u32 \<Rightarrow> u32 \<Rightarrow> u32 list \<Rightarrow> bool" where
  "mmap_chain p a end' [] \<longleftrightarrow> \<not> a < end'"
| "mmap_chain p a end' (z # zs) \<longleftrightarrow> a < end' \<and> unseen a 4 \<and> mword p a = z \<and> mmap_chain p (a + z + 4) end' zs"

text \<open>
  What the boot loader leaves: a command line that ends, the file system as the first module, a memory
  map whose entries lead to its end. None of it lies where the messages are drawn.
\<close>

definition multiboot_ok :: "(u32 \<Rightarrow> u8) \<Rightarrow> u32 \<Rightarrow> bool" where
  "multiboot_ok p mbi \<longleftrightarrow> unseen mbi 52 \<and>
     (let fl = mword p (mbi + mb_flags)
      in (bit fl 2 \<longrightarrow> (\<exists>cs. cstr_at (\<lambda>a. Some (p a)) (mword p (mbi + cmdline)) cs \<and>
           unseen (mword p (mbi + cmdline)) (Suc (length cs)))) \<and>
         bit fl 3 \<and> unseen (mword p (mbi + mods_addr)) 4 \<and> \<not> (bit fl 4 \<and> bit fl 5) \<and>
         (bit fl 6 \<longrightarrow> (\<exists>zs. mmap_chain p (mword p (mbi + mmap_addr))
           (mword p (mbi + mmap_addr) + mword p (mbi + mmap_length)) zs)))"

lemma field_boot: "on_boot s \<Longrightarrow> field b off s = Some (mword (phys s) (b + off))"
  using on_bootD [of s] by (simp add: field_def ld32_def mword_def)

lemma frame_phys: "boot_frame s s' \<Longrightarrow> unseen a n \<Longrightarrow> k < n \<Longrightarrow> phys s' (a + of_nat k) = phys s (a + of_nat k)"
  by (simp add: boot_frame_def unseen_def)

lemma mword_frame: "boot_frame s s' \<Longrightarrow> unseen a 4 \<Longrightarrow> mword (phys s') a = mword (phys s) a"
  using frame_phys [of s s' a 4 0] frame_phys [of s s' a 4 1] frame_phys [of s s' a 4 2] frame_phys [of s s' a 4 3]
  by (simp add: mword_def)

lemma unseen_shift: "unseen a n \<Longrightarrow> k + m \<le> n \<Longrightarrow> unseen (a + of_nat k) m"
  unfolding unseen_def
proof (intro allI impI)
  fix j assume "\<forall>k < n. \<not> unat (a + of_nat k - VIDEO) < 4096" "k + m \<le> n" "j < m"
  then have "k + j < n" "\<forall>k < n. \<not> unat (a + of_nat k - VIDEO) < 4096" by simp_all
  then have "\<not> unat (a + of_nat (k + j) - VIDEO) < 4096" by blast
  then show "\<not> unat (a + of_nat k + of_nat j - VIDEO) < 4096" by (simp add: add.assoc)
qed

lemma mmap_chain_frame:
  "boot_frame s s' \<Longrightarrow> mmap_chain (phys s) a e zs \<Longrightarrow> mmap_chain (phys s') a e zs"
  by (induction zs arbitrary: a) (auto simp: mword_frame)

lemma info_word:
  "unseen mbi 52 \<Longrightarrow> boot_frame s s' \<Longrightarrow> k \<le> 48 \<Longrightarrow> mword (phys s') (mbi + of_nat k) = mword (phys s) (mbi + of_nat k)"
  using unseen_shift [of mbi 52 k 4] by (intro mword_frame) simp_all

lemma multiboot_frame:
  assumes "boot_frame s s'" "multiboot_ok (phys s) mbi"
  shows "multiboot_ok (phys s') mbi" "k \<le> 48 \<Longrightarrow> mword (phys s') (mbi + of_nat k) = mword (phys s) (mbi + of_nat k)"
proof -
  have u: "unseen mbi 52" using assms(2) by (simp add: multiboot_ok_def)
  show w: "k \<le> 48 \<Longrightarrow> mword (phys s') (mbi + of_nat k) = mword (phys s) (mbi + of_nat k)" for k
    using info_word [OF u assms(1)] .
  have m: "mword (phys s') (mbi + mb_flags) = mword (phys s) (mbi + mb_flags)" "mword (phys s') (mbi + cmdline) = mword (phys s) (mbi + cmdline)"
    "mword (phys s') (mbi + mmap_addr) = mword (phys s) (mbi + mmap_addr)" "mword (phys s') (mbi + mmap_length) = mword (phys s) (mbi + mmap_length)"
    "mword (phys s') (mbi + mods_addr) = mword (phys s) (mbi + mods_addr)"
    using w [of 24] w [of 0] w [of 16] w [of 48] w [of 44] by simp_all
  have c: "cstr_at (\<lambda>a. Some (phys s' a)) a cs" if "cstr_at (\<lambda>a. Some (phys s a)) a cs" "unseen a (Suc (length cs))" for a cs
    using that frame_phys [OF assms(1) that(2)] by (simp add: cstr_at_def bytes_at_def)
  show "multiboot_ok (phys s') mbi"
    using assms(2) c mmap_chain_frame [OF assms(1)] unfolding multiboot_ok_def Let_def m by blast
qed

lemma CHECK_FLAG_bit: "b < 32 \<Longrightarrow> CHECK_FLAG fl b = bit fl b"
  unfolding CHECK_FLAG_def by (simp add: bit_iff_and_push_bit_not_eq_0)

section \<open>The messages\<close>

lemma says_field:
  assumes "on_boot s" "\<And>v. says s (g v)" shows "says s (field b off s \<bind> g)"
  using assms by (simp add: field_boot)

lemma says_when:
  assumes "on_boot s" "b < 32" "bit (mword (phys s) mbi) b \<Longrightarrow> says s (f s)"
  shows "says s (when_flag mbi b f s)"
  using assms by (auto simp: when_flag_def field_boot CHECK_FLAG_bit)

lemmas printing = chars_def takes_argument_def next_arg_def

lemma says_module: "on_boot s \<Longrightarrow> says s (print_module k md s)"
  unfolding print_module_def
  by (intro says_field says_bind says_for_each says_printf [where str = "\<lambda>_. None"])
    (auto simp: printing on_bootD intro!: says_field says_printf [where str = "\<lambda>_. None"])

text \<open>The loops over the modules and the memory map end, as what they count by stays.\<close>

lemma says_modules:
  "on_boot s \<Longrightarrow> unseen (mbi + mods_count) 4 \<Longrightarrow> mword (phys s) (mbi + mods_count) = n \<Longrightarrow> says s (print_modules mbi k md s)"
proof (induction "unat (n - k)" arbitrary: k md s rule: less_induct)
  case less
  have f: "field mbi mods_count s = Some n" using less.prems by (simp add: field_boot)
  show ?case
  proof (cases "k < n")
    case False
    then show ?thesis using f less.prems(1) by (subst print_modules.simps) auto
  next
    case True
    then have nz: "n - k \<noteq> 0" by auto
    have "0 < unat (n - k)" "unat (n - k - 1) = unat (n - k) - 1" using unat_gt_0 [THEN iffD2, OF nz] unat_minus_one [OF nz] .
    then have d: "unat (n - (k + 1)) < unat (n - k)" by (simp add: diff_diff_eq)
    have "says s (print_module k md s \<bind> print_modules mbi (k + 1) (md + 16))"
    proof (rule says_bind [OF says_module])
      fix s' assume s': "on_boot s'" "boot_frame s s'"
      show "says s' (print_modules mbi (k + 1) (md + 16) s')"
        using less.hyps [OF d s'(1) less.prems(2)] less.prems(2,3) mword_frame [OF s'(2)] by simp
    qed (fact less.prems(1))
    then show ?thesis using f True by (subst print_modules.simps) simp
  qed
qed

lemma says_mmap_entry: "on_boot s \<Longrightarrow> says s (print_mmap_entry a s)"
  unfolding print_mmap_entry_def
  by (intro says_field says_printf [where str = "\<lambda>_. None"]) (auto simp: printing)

lemma says_mmap:
  "on_boot s \<Longrightarrow> unseen (mbi + mmap_length) 8 \<Longrightarrow>
   mmap_chain (phys s) a (mword (phys s) (mbi + mmap_addr) + mword (phys s) (mbi + mmap_length)) zs \<Longrightarrow>
   says s (print_mmap mbi a s)"
proof (induction zs arbitrary: a s)
  case Nil
  then show ?case by (subst print_mmap.simps) (auto simp: field_boot)
next
  case (Cons z zs)
  have "says s (print_mmap_entry a s \<bind> (\<lambda>s. field a 0 s \<bind> (\<lambda>z. print_mmap mbi (a + z + 4) s)))"
  proof (rule says_bind [OF says_mmap_entry])
    fix s' assume s': "on_boot s'" "boot_frame s s'"
    have u: "unseen (mbi + mmap_length) 4" "unseen (mbi + mmap_addr) 4"
      using unseen_shift [OF Cons.prems(2), of 0 4] unseen_shift [OF Cons.prems(2), of 4 4] by (simp_all add: add.assoc)
    note m = mword_frame [OF s'(2) u(1)] mword_frame [OF s'(2) u(2)]
    have "mmap_chain (phys s') (a + z + 4) (mword (phys s') (mbi + mmap_addr) + mword (phys s') (mbi + mmap_length)) zs"
      using mmap_chain_frame [OF s'(2), of "a + z + 4"] Cons.prems(3) unfolding m by simp
    then have "says s' (print_mmap mbi (a + z + 4) s')" using Cons.IH [OF s'(1) Cons.prems(2)] by simp
    moreover have "field a 0 s' = Some z" using s'(1) mword_frame [OF s'(2), of a] Cons.prems(3) by (simp add: field_boot)
    ultimately show "says s' (field a 0 s' \<bind> (\<lambda>z. print_mmap mbi (a + z + 4) s'))" by simp
  qed (fact Cons.prems(1))
  then show ?case using Cons.prems(1,3) by (subst print_mmap.simps) (simp add: field_boot)
qed

lemma says_basic_info:
  fixes s :: "'a tty_state_scheme"
  assumes "on_boot s" "multiboot_ok (phys s) mbi"
  shows "says s (print_basic_info mbi s)"
  unfolding print_basic_info_def
proof (intro says_field says_bind)
  fix v show "says s (printf_lit ''flags = 0x%#x\<newline>'' [v] s)"
    using assms(1) by (intro says_printf [where str = "\<lambda>_. None"]) (auto simp: printing)
next
  fix s' :: "'a tty_state_scheme" assume "on_boot s'"
  then show "says s' (when_flag mbi 0 (\<lambda>s. field mbi mem_lower s \<bind> (\<lambda>l. field mbi mem_upper s \<bind> (\<lambda>u.
      printf_lit ''mem_lower = %uKB, mem_upper = %uKB\<newline>'' [l, u] s))) s')"
    by (intro says_when says_field says_printf [where str = "\<lambda>_. None"]) (auto simp: printing)
next
  fix s' :: "'a tty_state_scheme" assume "on_boot s'"
  then show "says s' (when_flag mbi 1 (\<lambda>s. field mbi boot_device s \<bind> (\<lambda>d. printf_lit ''boot_device = 0x%#x\<newline>'' [d] s)) s')"
    by (intro says_when says_field says_printf [where str = "\<lambda>_. None"]) (auto simp: printing)
next
  fix s1 s2 s3 assume f: "boot_frame s s1" "boot_frame s1 s2" "boot_frame s2 s3" and b: "on_boot s3"
  have fr: "boot_frame s s3" using f boot_frame_trans by blast
  have ok: "multiboot_ok (phys s3) mbi" using multiboot_frame [OF fr assms(2)] by blast
  show "says s3 (when_flag mbi 2 (\<lambda>s. field mbi cmdline s \<bind> (\<lambda>c. printf_lit ''cmdline = %s\<newline>'' [c] s)) s3)"
  proof (rule says_when [OF b])
    assume bit: "bit (mword (phys s3) mbi) 2"
    let ?c = "mword (phys s3) (mbi + cmdline)"
    obtain cs where cs: "cstr_at (\<lambda>a. Some (phys s3 a)) ?c cs" "unseen ?c (Suc (length cs))"
      using ok bit by (auto simp: multiboot_ok_def Let_def)
    have "says s3 (printf_lit ''cmdline = %s\<newline>'' [?c] s3)"
    proof (rule says_printf [where str = "\<lambda>v. if v = ?c then Some cs else None"])
      fix v cs' s4 assume v: "(if v = ?c then Some cs else None) = Some cs'" and s4: "boot_frame s3 s4"
      have "\<not> paging s4" using on_bootD [OF b] boot_frame_sel(1) [OF s4] by simp
      then show "cstr_at (ld8 s4) v cs'"
        using cs v frame_phys [OF s4 cs(2)] by (auto simp: cstr_at_def bytes_at_def split: if_splits)
    qed (use b in \<open>auto simp: printing\<close>)
    then show "says s3 (field mbi cmdline s3 \<bind> (\<lambda>c. printf_lit ''cmdline = %s\<newline>'' [c] s3))" using b by (simp add: field_boot)
  qed simp
qed (use assms in auto)

lemma find_modules_takes:
  assumes "on_boot s" "multiboot_ok (phys s) mbi"
  shows "says (s\<lparr>boot_block := mword (phys s) (mword (phys s) (mbi + mods_addr))\<rparr>) (find_modules mbi s)"
proof -
  let ?md = "mword (phys s) (mbi + mods_addr)" and ?s = "s\<lparr>boot_block := mword (phys s) (mword (phys s) (mbi + mods_addr))\<rparr>"
  have b: "on_boot ?s" using assms(1) by (auto simp: on_boot_def boot_screen_def page_bytes_def)
  have "unseen (mbi + of_nat 20) 4" using assms(2) unseen_shift [of mbi 52 20 4] by (simp add: multiboot_ok_def)
  then have "says ?s (print_modules mbi 0 ?md ?s)" using says_modules [OF b _ refl] by simp
  moreover have "bit (mword (phys s) mbi) 3" using assms(2) by (simp add: multiboot_ok_def Let_def)
  ultimately show ?thesis
    using assms(1) by (simp add: find_modules_def when_flag_def field_boot CHECK_FLAG_bit get_block_address_def)
qed

lemma says_tables:
  fixes s :: "'a tty_state_scheme"
  assumes "on_boot s" "multiboot_ok (phys s) mbi"
  shows "says s (print_tables mbi s)"
  unfolding print_tables_def
proof (intro says_bind)
  show "says s (when_flag mbi 5 (\<lambda>s. field mbi elf_sec s \<bind> (\<lambda>n. field mbi (elf_sec + 4) s \<bind> (\<lambda>z.
      field mbi (elf_sec + 8) s \<bind> (\<lambda>a. field mbi (elf_sec + 12) s \<bind> (\<lambda>x.
      printf_lit ''elf_sec: num = %u, size = 0x%#x, addr = 0x%#x, shndx = 0x%#x\<newline>'' [n, z, a, x] s))))) s)"
    using assms(1) by (intro says_when says_field says_printf [where str = "\<lambda>_. None"]) (auto simp: printing)
next
  fix s1 assume s1: "on_boot s1" "boot_frame s s1"
  show "says s1 (when_flag mbi 6 (\<lambda>s. field mbi mmap_addr s \<bind> (\<lambda>a. field mbi mmap_length s \<bind> (\<lambda>n.
      printf_lit ''mmap_addr = 0x%#x, mmap_length = 0x%x\<newline>'' [a, n] s \<bind> (\<lambda>s. field mbi mmap_addr s \<bind> (\<lambda>a. print_mmap mbi a s))))) s1)"
  proof (rule says_when [OF s1(1)], simp, rule says_field [OF s1(1)], rule says_field [OF s1(1)], rule says_bind)
    fix a n show "says s1 (printf_lit ''mmap_addr = 0x%#x, mmap_length = 0x%x\<newline>'' [a, n] s1)"
      using s1(1) by (intro says_printf [where str = "\<lambda>_. None"]) (auto simp: printing)
  next
    fix s2 assume bit: "bit (mword (phys s1) mbi) 6" and s2: "on_boot s2" "boot_frame s1 s2"
    have ok: "multiboot_ok (phys s1) mbi" "multiboot_ok (phys s2) mbi"
      using multiboot_frame assms(2) s1(2) s2(2) by blast+
    have "mword (phys s2) mbi = mword (phys s1) mbi" using multiboot_frame(2) [OF s2(2) ok(1), of 0] by simp
    then obtain zs where zs: "mmap_chain (phys s2) (mword (phys s2) (mbi + mmap_addr))
        (mword (phys s2) (mbi + mmap_addr) + mword (phys s2) (mbi + mmap_length)) zs"
      using ok(2) bit by (auto simp: multiboot_ok_def Let_def)
    have "unseen (mbi + of_nat 44) 8" using ok(2) unseen_shift [of mbi 52 44 8] by (simp add: multiboot_ok_def)
    then have "says s2 (print_mmap mbi (mword (phys s2) (mbi + mmap_addr)) s2)" using says_mmap [OF s2(1) _ zs] by simp
    then show "says s2 (field mbi mmap_addr s2 \<bind> (\<lambda>a. print_mmap mbi a s2))" using s2(1) by (simp add: field_boot)
  qed
qed

section \<open>The devices\<close>

text \<open>What the initialisations before \<open>initialize_page\<close> leave alone.\<close>

definition set_up :: "'a rtc_state_scheme \<Rightarrow> 'a rtc_state_scheme \<Rightarrow> bool" where
  "set_up s s' \<longleftrightarrow>
     (\<forall>a. \<not> unat (a - VIDEO) < 4096 \<longrightarrow> phys s' a = phys s a) \<and> paging s' = paging s \<and>
     page_table_at s' = page_table_at s \<and> page_table_vid_at s' = page_table_vid_at s \<and>
     stack_junk s' = stack_junk s \<and> boot_block s' = boot_block s \<and> device s' = device s \<and> handler_at s' = handler_at s \<and>
     term_in_service s' = term_in_service s \<and> cur_term_num s' = cur_term_num s \<and> terminal_opened s' = terminal_opened s \<and>
     int_flag s' = int_flag s \<and> rtc_state.more s' = rtc_state.more s"

interpretation set_up: effect set_up
  by unfold_locales (auto simp: set_up_def)

lemma rtc_more: "tty_state.more s = \<lparr>read_wait = read_wait s, rtc_opened = rtc_opened s, \<dots> = rtc_state.more s\<rparr>"
  by (cases s) simp

lemma boot_frame_set_up:
  fixes s :: "'a rtc_state_scheme"
  assumes "boot_frame s s'" shows "set_up s s'" "k < 16 \<Longrightarrow> masked s' k = masked s k"
proof -
  have "rtc_state.more s' = rtc_state.more s" using boot_frame_sel(12) [OF assms] by (simp add: rtc_more)
  then show "set_up s s'" using assms boot_frame_sel [OF assms] by (simp add: set_up_def boot_frame_def)
  show "k < 16 \<Longrightarrow> masked s' k = masked s k" using assms by (simp add: masked_def boot_frame_def)
qed

text \<open>A step that programs a device: it does not draw.\<close>

definition programs :: "'a rtc_state_scheme \<Rightarrow> 'a rtc_state_scheme \<Rightarrow> bool" where
  "programs s s' \<longleftrightarrow> set_up s s' \<and> (on_boot s \<longrightarrow> on_boot s')"

lemmas on_boot_defs = programs_def set_up_def on_boot_def boot_screen_def page_bytes_def

interpretation programs: effect programs
  by unfold_locales (auto simp: programs_def set_up.eff_refl intro: set_up.eff_trans)

lemma idt_init_idt: "\<exists>g. idt_init s = s\<lparr>idt := g\<rparr>"
proof -
  have "\<exists>g. fold (\<lambda>i s. set_gate i (handler_at s (f i)) s) xs t = t\<lparr>idt := g\<rparr>" for f xs and t :: "'a idt_state_scheme"
  proof (induction xs arbitrary: t)
    case Nil
    show ?case by (rule exI [of _ "idt t"]) simp
  next
    case (Cons x xs)
    from Cons.IH [of "set_gate x (handler_at t (f x)) t"] show ?case by (auto simp: set_gate_def Let_def)
  qed
  from this [of "\<lambda>i. if i < 20 then intFuncArr ! i else reserved_error" "[0..<32]" s]
  show ?thesis by (auto simp: idt_init_def set_gate_def Let_def)
qed

lemma programs_steps:
  fixes s :: "'a rtc_state_scheme"
  shows "programs s (idt_init s)" "programs s (set_gate i h s)" "programs s (i8259_init s)" "programs s (enable_irq n s)"
    "programs s (s\<lparr>rtc_opened := r, io := l\<rparr>)" "programs s (outb v p s)"
proof -
  obtain g where g: "idt_init s = s\<lparr>idt := g\<rparr>" using idt_init_idt by blast
  show "programs s (idt_init s)" by (simp add: g on_boot_defs)
  show "programs s (set_gate i h s)" "programs s (i8259_init s)" "programs s (enable_irq n s)"
    "programs s (s\<lparr>rtc_opened := r, io := l\<rparr>)" "programs s (outb v p s)"
    by (simp_all add: on_boot_defs set_gate_def i8259_init_def mask_all_def enable_irq_def port_defs Let_def)
qed

lemma idt_steps [simp]: "idt (i8259_init s) = idt s" "idt (enable_irq n s) = idt s" "io (set_gate i h s) = io s"
  by (simp_all add: i8259_init_def mask_all_def enable_irq_def set_gate_def port_defs Let_def)

text \<open>A gate is filled in and a message printed: the stages of the clock and the timer.\<close>

definition gate_stage :: "nat \<Rightarrow> handler \<Rightarrow> 'a rtc_state_scheme \<Rightarrow> 'a rtc_state_scheme option \<Rightarrow> bool" where
  "gate_stage i h s r \<longleftrightarrow> (\<exists>s'. r = Some s' \<and> on_boot s' \<and> set_up s s' \<and>
     gate_to (idt s' i) (handler_at s h) \<and> (\<forall>j. j \<noteq> i \<longrightarrow> idt s' j = idt s j) \<and> (\<forall>k < 16. masked s' k = masked s k))"

lemma gate_stageI:
  fixes s :: "'a rtc_state_scheme"
  assumes s: "on_boot s" "programs s t" "idt t = idt s" "\<And>k. k < 16 \<Longrightarrow> masked t k = masked s k"
    and str: "0 \<notin> set (chars str)" "length str < 1000"
  shows "gate_stage i h s (puts_lit str (set_gate i (handler_at s h) t))"
proof -
  let ?t = "set_gate i (handler_at s h) t"
  have t: "programs s ?t" using programs.eff_trans [OF s(2) programs_steps(2)] .
  then have "on_boot ?t" using s(1) by (simp add: programs_def)
  then obtain s' where s': "puts_lit str ?t = Some s'" "on_boot s'" "boot_frame ?t s'"
    using says_puts [of ?t str] str by (auto simp: says_def)
  have "set_up s s'" using t boot_frame_set_up(1) [OF s'(3)] set_up.eff_trans by (auto simp: programs_def)
  moreover have "gate_to (idt s' i) (handler_at s h)" "\<forall>j. j \<noteq> i \<longrightarrow> idt s' j = idt s j"
    using boot_frame_sel(10) [OF s'(3)] set_gate_to [of i "handler_at s h" t] set_gate_other [of _ i "handler_at s h" t] s(3) by simp_all
  moreover have "masked s' k = masked s k" if "k < 16" for k
  proof -
    have "masked ?t k = masked t k" by (simp add: masked_def)
    then show ?thesis using boot_frame_set_up(2) [OF s'(3) that] s(4) [OF that] by simp
  qed
  ultimately show ?thesis using s'(1,2) by (auto simp: gate_stage_def)
qed

lemma rtc_stage:
  fixes s :: "'a rtc_state_scheme"
  assumes "on_boot s" shows "gate_stage 0x28 rtc_linker s (rtc_init s)"
proof -
  obtain l where l: "rtc_init s = puts_lit ''RTC initialized.\<newline>'' (set_gate 0x28 (handler_at s rtc_linker) (s\<lparr>rtc_opened := 1, io := l\<rparr>))"
    "\<And>k. masked (s\<lparr>rtc_opened := 1, io := l\<rparr>) k = masked s k"
    by (simp add: rtc_init_def port_defs Let_def masked_def)
  show ?thesis
    unfolding l(1) using assms l(2) by (intro gate_stageI programs_steps) (simp_all add: chars_def)
qed

lemma pit_stage:
  fixes s :: "'a rtc_state_scheme"
  assumes "on_boot s" shows "gate_stage 0x20 pit_linker s (init_pit s)"
proof -
  have m: "masked (outb 0 0x43 s) k = masked s k" for k by (simp add: masked_def port_defs)
  have i: "init_pit s = puts_lit ''PIT initialized.\<newline>'' (set_gate 0x20 (handler_at s pit_linker) (outb 0 0x43 s))"
    by (simp add: init_pit_def port_defs Let_def)
  show ?thesis
    unfolding i using assms m by (intro gate_stageI programs_steps) (simp_all add: chars_def port_defs)
qed

lemma terminal_stage:
  fixes s :: "'a tty_state_scheme"
  assumes s: "video_ok s" "page_table_vid s 0 = VIM_MEM_INDEX OR 7" "cur_term_num s = 0" "terminal_opened s = 0"
    "length (term_cursor_x s) = 3" "length (term_cursor_y s) = 3"
  shows "\<exists>s1 s2. terminal_open s = Some (0, s1) \<and> init_term_cursor s1 = Some s2 \<and>
    console s2 0 (replicate 2000 32, 0, 0) \<and> term_cursor_x s2 = [0, 0, 0] \<and> term_cursor_y s2 = [0, 0, 0] \<and>
    (\<forall>a. \<not> unat (a - VIM_MEM_INDEX) < 4096 \<longrightarrow> phys s2 a = phys s a) \<and> (\<forall>k < 16. masked s2 k = masked s k) \<and>
    s2 = s\<lparr>phys := phys s2, io := io s2, terminal_opened := 1, screen_x := 0, screen_y := 0,
      term_cursor_x := [0, 0, 0], term_cursor_y := [0, 0, 0]\<rparr>"
proof -
  obtain l where l: "terminal_open s = (do { s \<leftarrow> clear (s\<lparr>terminal_opened := 1, io := l\<rparr>);
      Some (0, set_screen_coords 0 0 (update_cursor 0 0 s)) })" "\<And>k. masked (s\<lparr>io := l\<rparr>) k = masked s k"
    using s(4) by (simp add: terminal_open_def enable_cursor_def port_defs Let_def masked_def)
  have a: "take_bit 12 (VIM_MEM_INDEX :: u32) = 0" by (simp add: take_bit_eq_mod)
  have "displays (s\<lparr>terminal_opened := 1, io := l\<rparr>) VIM_MEM_INDEX"
    using s(1,2) a by (simp add: displays_def video_ok_def linked_def)
  from clear_displayed [OF this] obtain t where t: "clear (s\<lparr>terminal_opened := 1, io := l\<rparr>) = Some t"
    "glyphs (page_bytes t VIM_MEM_INDEX) = replicate 2000 32" "t = s\<lparr>terminal_opened := 1, io := l\<rparr>\<lparr>phys := phys t\<rparr>"
    "\<forall>a. \<not> unat (a - VIM_MEM_INDEX) < 4096 \<longrightarrow> phys t a = phys s a"
    by auto
  obtain p where p: "t = s\<lparr>terminal_opened := 1, io := l, phys := p\<rparr>" using t(3) by blast
  obtain m where m: "update_cursor 0 0 t = t\<lparr>io := m\<rparr>" "\<forall>q. q \<noteq> 0x3D4 \<longrightarrow> q \<noteq> 0x3D5 \<longrightarrow> last_out q m = last_out q l"
    using update_cursor_io [of 0 0 t] p by auto
  define s1 where "s1 = set_screen_coords 0 0 (update_cursor 0 0 t)"
  define s2 where "s2 = s1\<lparr>term_cursor_x := [0, 0, 0], term_cursor_y := [0, 0, 0]\<rparr>"
  have c: "term_cursor_x s1 = term_cursor_x s" "term_cursor_y s1 = term_cursor_y s"
    by (simp_all add: s1_def m(1) set_screen_coords_def) (simp_all add: p)
  obtain x0 x1 x2 y0 y1 y2 where xy: "term_cursor_x s1 = [x0, x1, x2]" "term_cursor_y s1 = [y0, y1, y2]"
    using s(5,6) unfolding c by (auto simp: numeral_3_eq_3 length_Suc_conv)
  have "[0..<3 :: nat] = [0, 1, 2]" by (simp add: upt_conv_Cons)
  moreover have "[a, b, c][2 := d] = [a, b, d]" for a b c d :: u32 by (simp add: numeral_2_eq_2)
  ultimately have "init_term_cursor s1 = Some s2"
    using xy by (simp add: init_term_cursor_def set_term_cursor_x_def set_term_cursor_y_def s2_def arr_set_def)
  moreover have "terminal_open s = Some (0, s1)" using l(1) t(1) by (simp add: s1_def)
  moreover have e: "s2 = s\<lparr>phys := p, io := m, terminal_opened := 1, screen_x := 0, screen_y := 0,
      term_cursor_x := [0, 0, 0], term_cursor_y := [0, 0, 0]\<rparr>"
    by (simp add: s2_def s1_def m(1) set_screen_coords_def) (simp add: p)
  moreover have "glyphs (page_bytes s2 VIM_MEM_INDEX) = replicate 2000 32"
    using t(2) by (simp add: e page_bytes_def p)
  then have "console s2 0 (replicate 2000 32, 0, 0)"
    using s(1,3) by (simp add: console_def e frame_for_def video_ok_def linked_def)
  moreover have "masked s2 k = masked (s\<lparr>io := l\<rparr>) k" for k using m(2) by (simp add: e masked_def)
  then have "masked s2 k = masked s k" for k using l(2) by simp
  moreover have "\<forall>a. \<not> unat (a - VIM_MEM_INDEX) < 4096 \<longrightarrow> phys s2 a = phys s a" using t(4) by (simp add: e p)
  ultimately show ?thesis by auto
qed

text \<open>
  \<open>devices_ready s s'\<close>: the machine of \<open>s\<close> once every driver is initialised. Exactly the timer, the keyboard,
  the slave and the clock may interrupt; their gates, those of the exceptions and that of the system
  calls lead to their handlers; the address space is that of \<open>initialize_page\<close>; terminal 0 shows an
  empty screen, and every cursor is at the top left.
\<close>

definition devices_ready :: "'a rtc_state_scheme \<Rightarrow> 'a rtc_state_scheme \<Rightarrow> bool" where
  "devices_ready s s' \<longleftrightarrow>
     (\<forall>k < 16. masked s' k \<longleftrightarrow> k \<notin> {0, 1, 2, 8}) \<and>
     gate_to (idt s' 0x20) (handler_at s pit_linker) \<and> gate_to (idt s' 0x21) (handler_at s kb_linker) \<and>
     gate_to (idt s' 0x28) (handler_at s rtc_linker) \<and> gate_to (idt s' 0x80) (handler_at s syscall_linker) \<and> dpl (idt s' 0x80) = 3 \<and>
     (\<forall>i < 32. gate_to (idt s' i) (handler_at s (if i < 20 then intFuncArr ! i else reserved_error))) \<and>
     kernel_mapped s' \<and> video_ok s' \<and> (\<forall>pr. xlate pr s' = xlate pr (initialize_page s)) \<and>
     console s' 0 (replicate 2000 32, 0, 0) \<and> term_cursor_x s' = [0, 0, 0] \<and> term_cursor_y s' = [0, 0, 0] \<and>
     (\<forall>a. \<not> unat (a - VIDEO) < 4096 \<longrightarrow> \<not> unat (a - VIM_MEM_INDEX) < 4096 \<longrightarrow> phys s' a = phys s a) \<and>
     stack_junk s' = stack_junk s \<and> boot_block s' = boot_block s \<and> handler_at s' = handler_at s \<and>
     term_in_service s' = 0 \<and> cur_term_num s' = 0 \<and> terminal_opened s' = 1 \<and>
     int_flag s' = int_flag s \<and> rtc_state.more s' = rtc_state.more s"

lemma init_devices_ready:
  fixes s :: "'a rtc_state_scheme"
  assumes s: "on_boot s" "linked s" "pic_device (device s)" "terminal_opened s = 0"
  shows "\<exists>s'. init_devices s = Some s' \<and> devices_ready s s'"
proof -
  define t where "t = keyboard_init (i8259_init (idt_init s))"
  define a where "a = enable_irq 1 t"
  have t: "programs s t"
    unfolding t_def keyboard_init_def
    by (rule programs.eff_trans [OF programs.eff_trans [OF programs_steps(1) programs_steps(3)] programs_steps(2)])
  have a: "programs s a" unfolding a_def by (rule programs.eff_trans [OF t programs_steps(4)])
  have dev: "device t = device s" using t by (simp add: programs_def set_up_def)
  have ai: "\<And>j. j \<noteq> 0x21 \<Longrightarrow> idt a j = idt (idt_init s) j" "gate_to (idt a 0x21) (handler_at s kb_linker)"
    using set_gate_to [of "0x21" "handler_at s kb_linker" "i8259_init (idt_init s)"] t
      set_gate_other [of _ "0x21" "handler_at s kb_linker" "i8259_init (idt_init s)"]
    by (auto simp: a_def t_def keyboard_init_def programs_def set_up_def dest: sym)
  have am: "masked a k \<longleftrightarrow> k \<noteq> 1" if "k < 16" for k
    using enable_irq_masked [of t 1 k] dev s(3) that i8259_init_masked [OF that, of "idt_init s"]
    by (simp add: a_def t_def keyboard_init_def masked_def)
  have "on_boot a" using a s(1) by (simp add: programs_def)
  then obtain b where b: "rtc_init a = Some b" "on_boot b" "set_up a b" "gate_to (idt b 0x28) (handler_at a rtc_linker)"
    "\<And>j. j \<noteq> 0x28 \<Longrightarrow> idt b j = idt a j" "\<And>k. k < 16 \<Longrightarrow> masked b k = masked a k"
    using rtc_stage [of a] by (auto simp: gate_stage_def)
  define c where "c = enable_irq 8 (enable_irq 2 b)"
  have c: "programs b c" unfolding c_def by (rule programs.eff_trans [OF programs_steps(4) programs_steps(4)])
  have "set_up s a" "set_up b c" using a c by (simp_all add: programs_def)
  then have sc: "set_up s c" using set_up.eff_trans [OF set_up.eff_trans [OF _ b(3)]] by blast
  have devb: "device b = device s" using a b(3) by (simp add: programs_def set_up_def)
  have cm: "masked c k \<longleftrightarrow> k \<notin> {1, 2, 8}" if "k < 16" for k
  proof -
    have "device (enable_irq 2 b) = device s" using devb programs_steps(4) [of b 2] by (simp add: programs_def set_up_def)
    then show ?thesis
      using enable_irq_masked [of "enable_irq 2 b" 8 k] enable_irq_masked [of b 2 k] devb s(3) that am [OF that] b(6) [OF that]
      by (auto simp: c_def)
  qed
  have "on_boot c" using b(2) c by (simp add: programs_def)
  then obtain d where d: "init_pit c = Some d" "on_boot d" "set_up c d" "gate_to (idt d 0x20) (handler_at c pit_linker)"
    "\<And>j. j \<noteq> 0x20 \<Longrightarrow> idt d j = idt c j" "\<And>k. k < 16 \<Longrightarrow> masked d k = masked c k"
    using pit_stage [of c] by (auto simp: gate_stage_def)
  define f where "f = enable_irq 0 d"
  have f: "set_up s f" "on_boot f"
    using set_up.eff_trans [OF set_up.eff_trans [OF sc d(3)], of f] d(2) programs_steps(4) [of d 0] by (auto simp: programs_def f_def)
  have devd: "device d = device s" using sc d(3) by (simp add: set_up_def)
  have fm: "masked f k \<longleftrightarrow> k \<notin> {0, 1, 2, 8}" if "k < 16" for k
    using enable_irq_masked [of d 0 k] devd s(3) that cm [OF that] d(6) [OF that] by (auto simp: f_def)
  have lf: "linked f" using f(1) s(2) by (simp add: set_up_def linked_def)
  let ?e = "initialize_page f"
  have e: "video_ok ?e" "page_table_vid ?e 0 = VIM_MEM_INDEX OR 7" "cur_term_num ?e = 0" "terminal_opened ?e = 0"
    "length (term_cursor_x ?e) = 3" "length (term_cursor_y ?e) = 3"
    using initialize_page_video_ok [OF lf] f s(4)
    by (auto simp: initialize_page_eq on_boot_def boot_screen_def set_up_def or.assoc)
  obtain s1 s2 where s2: "terminal_open ?e = Some (0, s1)" "init_term_cursor s1 = Some s2"
    "console s2 0 (replicate 2000 32, 0, 0)" "term_cursor_x s2 = [0, 0, 0]" "term_cursor_y s2 = [0, 0, 0]"
    "\<forall>a. \<not> unat (a - VIM_MEM_INDEX) < 4096 \<longrightarrow> phys s2 a = phys ?e a" "\<forall>k < 16. masked s2 k = masked ?e k"
    "s2 = ?e\<lparr>phys := phys s2, io := io s2, terminal_opened := 1, screen_x := 0, screen_y := 0,
      term_cursor_x := [0, 0, 0], term_cursor_y := [0, 0, 0]\<rparr>"
    using terminal_stage [OF e] by blast
  have "init_devices s = Some s2"
    using b(1) d(1) s2(1,2) by (simp add: init_devices_def Let_def flip: a_def t_def c_def f_def)
  moreover have "devices_ready s s2"
  proof -
    obtain p l where g: "s2 = ?e\<lparr>phys := p, io := l, terminal_opened := 1, screen_x := 0, screen_y := 0,
      term_cursor_x := [0, 0, 0], term_cursor_y := [0, 0, 0]\<rparr>" using s2(8) by blast
    have h: "handler_at a = handler_at s" "handler_at c = handler_at s" using a sc by (simp_all add: programs_def set_up_def)
    have "idt s2 = idt d" by (simp add: g f_def initialize_page_eq)
    moreover have "idt c = idt b" by (simp add: c_def)
    ultimately have i: "gate_to (idt s2 0x20) (handler_at s pit_linker)" "gate_to (idt s2 0x28) (handler_at s rtc_linker)"
      "idt s2 0x21 = idt a 0x21" "\<And>i. i < 32 \<or> i = 0x80 \<Longrightarrow> idt s2 i = idt (idt_init s) i"
      using b(4,5) d(4,5) h ai(1) by auto
    have x: "xlate pr s2 = xlate pr (initialize_page s)" for pr
    proof
      fix v
      have "xlate pr s2 v = xlate pr ?e v" by (simp add: g xlate_def table_at_def Let_def)
      then show "xlate pr s2 v = xlate pr (initialize_page s) v"
        by (simp only: initialize_page_maps [OF lf] initialize_page_maps [OF s(2)])
    qed
    have v: "video_ok s2" using e(1) by (simp add: g video_ok_def linked_def)
    have k: "kernel_mapped s2" by (simp add: g kernel_mapped_def initialize_page_eq)
    have m: "masked s2 k \<longleftrightarrow> k \<notin> {0, 1, 2, 8}" if "k < 16" for k
    proof -
      have "masked ?e k = masked f k" by (simp add: masked_def initialize_page_eq)
      then show ?thesis using s2(7) fm [OF that] that by simp
    qed
    have ph: "\<forall>a. \<not> unat (a - VIDEO) < 4096 \<longrightarrow> \<not> unat (a - VIM_MEM_INDEX) < 4096 \<longrightarrow> phys s2 a = phys s a"
      using s2(6) f(1) by (simp add: set_up_def initialize_page_eq)
    have r: "stack_junk s2 = stack_junk s" "boot_block s2 = boot_block s" "handler_at s2 = handler_at s"
      "term_in_service s2 = 0" "cur_term_num s2 = 0" "terminal_opened s2 = 1" "int_flag s2 = int_flag s" "rtc_state.more s2 = rtc_state.more s"
      using f on_bootD [OF f(2)] by (simp_all add: g initialize_page_eq set_up_def)
    show ?thesis
      unfolding devices_ready_def
      using m i ai(2) idt_init_gates(1) [of _ s] idt_init_gates(3,4) [of s] x v k s2(3-5) ph r by simp
  qed
  ultimately show ?thesis by blast
qed

section \<open>From the boot loader to the shell\<close>

text \<open>Where the first module is, which \<open>entry\<close> takes for the file system.\<close>

definition first_module :: "(u32 \<Rightarrow> u8) \<Rightarrow> u32 \<Rightarrow> u32" where
  "first_module p mbi = mword p (mword p (mbi + mods_addr))"

lemma first_module_frame:
  assumes "boot_frame s s'" "multiboot_ok (phys s) mbi" shows "first_module (phys s') mbi = first_module (phys s) mbi"
  using multiboot_frame(2) [OF assms, of 24] mword_frame [OF assms(1)] assms(2)
  by (simp add: first_module_def multiboot_ok_def Let_def)

lemma entry_prints:
  fixes s :: "'a boot_state_scheme"
  assumes s: "on_boot s" "multiboot_ok (phys s) mbi"
  shows "\<exists>b. entry MULTIBOOT_BOOTLOADER_MAGIC mbi shell d1 d2 s = bring_up shell d1 d2 b \<and> on_boot b \<and>
    set_up (s\<lparr>boot_block := first_module (phys s) mbi\<rparr>) b"
proof -
  obtain s1 where s1: "clear s = Some s1" "on_boot s1" "boot_frame s s1"
    using says_clear [OF s(1)] by (auto simp: says_def)
  note ok1 = multiboot_frame(1) [OF s1(3) s(2)]
  obtain s2 where s2: "print_basic_info mbi s1 = Some s2" "on_boot s2" "boot_frame s1 s2"
    using says_basic_info [OF s1(2) ok1] by (auto simp: says_def)
  note ok2 = multiboot_frame(1) [OF s2(3) ok1]
  let ?bb = "first_module (phys s2) mbi"
  obtain s3 where s3: "find_modules mbi s2 = Some s3" "on_boot s3" "boot_frame (s2\<lparr>boot_block := ?bb\<rparr>) s3"
    using find_modules_takes [OF s2(2) ok2] by (auto simp: says_def first_module_def)
  have ok3: "multiboot_ok (phys s3) mbi" using multiboot_frame(1) [OF s3(3), of mbi] ok2 by simp
  obtain s4 where s4: "print_tables mbi s3 = Some s4" "on_boot s4" "boot_frame s3 s4"
    using says_tables [OF s3(2) ok3] by (auto simp: says_def)
  have "\<not> (CHECK_FLAG (mword (phys s3) mbi) 4 \<and> CHECK_FLAG (mword (phys s3) mbi) 5)"
    using ok3 by (simp add: multiboot_ok_def Let_def CHECK_FLAG_bit)
  then have "entry MULTIBOOT_BOOTLOADER_MAGIC mbi shell d1 d2 s = bring_up shell d1 d2 s4"
    using s1(1) s2(1) s3(1) s4(1) field_boot [OF s3(2), of mbi mb_flags]
    by (auto simp: entry_def)
  moreover have f: "boot_frame s s2" using boot_frame_trans [OF s1(3) s2(3)] .
  then have "set_up s s2" by (rule boot_frame_set_up)
  then have "set_up (s\<lparr>boot_block := ?bb\<rparr>) (s2\<lparr>boot_block := ?bb\<rparr>)" by (simp add: set_up_def)
  then have "set_up (s\<lparr>boot_block := ?bb\<rparr>) s4"
    using boot_frame_set_up(1) [OF s3(3)] boot_frame_set_up(1) [OF s4(3)] set_up.eff_trans by blast
  then have "set_up (s\<lparr>boot_block := first_module (phys s) mbi\<rparr>) s4"
    by (simp only: first_module_frame [OF f s(2)])
  ultimately show ?thesis using s4(2) by blast
qed

lemma boot_more:
  "rtc_state.more s = \<lparr>
    term_bufs = term_bufs s, shift_pressed = shift_pressed s, capslock_pressed = capslock_pressed s,
    ctrl_pressed = ctrl_pressed s, alt_pressed = alt_pressed s, print_me = print_me s, kbd_buf = kbd_buf s,
    kbd_buf_idx = kbd_buf_idx s, x_start = x_start s, y_start = y_start s, freq_idx = freq_idx s, proc_arr =
    proc_arr s, pcb_at = pcb_at s, stack_pcb = stack_pcb s, esp = esp s, ebp = ebp s, tss_esp0 = tss_esp0 s,
    tss_ss0 = tss_ss0 s, shells_running = shells_running s, sched_arr_init = sched_arr_init s, sched_arr =
    sched_arr s, temp_sched = temp_sched s, shell_at = shell_at s, ldt_desc_ptr = ldt_desc_ptr s, tss_desc_ptr
    = tss_desc_ptr s, ldtr = ldtr s, task_register = task_register s, ldt_segment_selector =
    ldt_segment_selector s, ldt_at = ldt_at s, tss_at = tss_at s, \<dots> = boot_state.more s\<rparr>"
  by (cases s) simp

lemma segments_kept:
  fixes s b :: "'a boot_state_scheme"
  assumes "set_up s b"
  shows "set_up (init_tss d2 (init_ldt d1 s)) (init_tss d2 (init_ldt d1 b))"
proof -
  have "rtc_state.more b = rtc_state.more s" using assms by (simp add: set_up_def)
  then have "rtc_state.more (init_tss d2 (init_ldt d1 b)) = rtc_state.more (init_tss d2 (init_ldt d1 s))"
    by (simp add: boot_more init_tss_def init_ldt_def Let_def lldt_def ltr_def)
  then show ?thesis using assms by (simp add: set_up_def) (simp add: init_tss_def init_ldt_def Let_def lldt_def ltr_def)
qed

lemma devices_ready_from:
  assumes "set_up u s" "linked u" "devices_ready s s'"
  shows "devices_ready u s'"
proof -
  have l: "linked s" using assms(1,2) by (simp add: set_up_def linked_def)
  have "xlate pr (initialize_page s) = xlate pr (initialize_page u)" for pr
    by (rule ext) (simp only: initialize_page_maps [OF l] initialize_page_maps [OF assms(2)])
  then show ?thesis using assms(1,3) by (auto simp: devices_ready_def set_up_def)
qed

text \<open>Nothing in the kernel's page is drawn over.\<close>

lemma kernel_page_unseen:
  assumes "region a = 1" shows "\<not> unat (a - VIDEO) < 4096" "\<not> unat (a - VIM_MEM_INDEX) < 4096"
proof -
  show "\<not> unat (a - VIDEO) < 4096" using video_window(1) [of "unat (a - VIDEO)"] assms by auto
  show "\<not> unat (a - VIM_MEM_INDEX) < 4096"
  proof
    assume k: "unat (a - VIM_MEM_INDEX) < 4096"
    have "a = of_nat (0xB8000 + unat (a - VIM_MEM_INDEX))" by simp
    moreover have "(0xB8000 + unat (a - VIM_MEM_INDEX)) div 2 ^ 22 = 0" using k by simp
    ultimately have "region a = 0" using small_address(1) [of "0xB8000 + unat (a - VIM_MEM_INDEX)"] k by simp
    then show False using assms by simp
  qed
qed

lemma ready_ld8:
  assumes "devices_ready u s" "region a = 1" shows "ld8 s a = Some (phys u a)"
  using assms kernel_page_xlate [of s a] kernel_page_unseen [OF assms(2)] by (simp add: devices_ready_def ld8_def)

text \<open>
  What the boot loader and the linker provide for the shell: the module is a file system with a program
  called \<open>shell\<close>, and the name is one of the kernel's literals, followed by \<open>ag\<close>. All of it is in the
  kernel's four megabytes.
\<close>

definition shell_provided :: "(u32 \<Rightarrow> u8) \<Rightarrow> u32 \<Rightarrow> u32 \<Rightarrow> u8 list \<Rightarrow> u8 list \<Rightarrow> bool" where
  "shell_provided p bb shell bs ag \<longleftrightarrow>
     (\<exists>es e ino c blks. directory (\<lambda>a. Some (p a)) bb es \<and> (\<forall>k < 4096. region (bb + of_nat k) = 1) \<and>
        find (\<lambda>e. ename e = chars ''shell'') es = Some e \<and> inode_num e = Some ino \<and>
        program_file (\<lambda>a. Some (p a)) bb ino c blks bs) \<and>
     40 \<le> length bs \<and> bs ! 0 = 0x7F \<and> bs ! 1 = 0x45 \<and> bs ! 2 = 0x4C \<and>
     command_at (\<lambda>a. Some (p a)) shell (chars ''shell'') ag \<and> (\<forall>k < 7 + length ag. region (shell + of_nat k) = 1)"

lemma shell_provided_execute:
  fixes s :: "'a boot_state_scheme"
  assumes r: "devices_ready u s" and p: "shell_provided (phys u) (boot_block s) shell bs ag"
    and s: "lowest_free (proc_arr s) n" "length (stack_junk s) = 64" "length (arg (stack_pcb s)) = 128"
  shows "\<exists>s'. sys_execute (ld8 s) shell s = Some (Enter_user (entry_frame bs), s') \<and> started n bs ag s s'"
proof -
  note ld = ready_ld8 [OF r]
  obtain es e ino c blks where d: "directory (\<lambda>a. Some (phys u a)) (boot_block s) es" "\<forall>k < 4096. region (boot_block s + of_nat k) = 1"
    "find (\<lambda>e. ename e = chars ''shell'') es = Some e" "inode_num e = Some ino"
    "program_file (\<lambda>a. Some (phys u a)) (boot_block s) ino c blks bs"
    using p by (auto simp: shell_provided_def)
  have c: "command_at (ld8 s) shell (chars ''shell'') ag"
  proof -
    have b: "bytes_at (ld8 s) shell (chars ''shell'' @ x # ag @ [0])" if "bytes_at (\<lambda>a. Some (phys u a)) shell (chars ''shell'' @ x # ag @ [0])" for x
      unfolding bytes_at_def
    proof (intro allI impI)
      fix i assume i: "i < length (chars ''shell'' @ x # ag @ [0])"
      then have "region (shell + of_nat i) = 1" using p by (simp add: shell_provided_def)
      then show "ld8 s (shell + of_nat i) = Some ((chars ''shell'' @ x # ag @ [0]) ! i)"
        using ld bytes_at_nth [OF that i] by simp
    qed
    then show ?thesis using p by (auto simp: shell_provided_def command_at_def)
  qed
  have dir: "directory (ld8 s) (boot_block s) es"
    using d(1,2) ld by (intro directory_cong [OF d(1)]) auto
  have pf: "program_file (ld8 s) (boot_block s) ino c blks bs" using program_file_cong [OF d(5)] ld by blast
  have "kernel_mapped s" using r by (simp add: devices_ready_def)
  then show ?thesis
    using p by (intro sys_execute_starts [OF s(1) c _ dir s(2) d(3,4) pf _ _ _ _ _ s(3)]) (simp_all add: shell_provided_def)
qed

text \<open>
  C2. The machine boots. Entered by a multiboot loader with the file system as its first module, the
  kernel prints what it was given, installs its segments, initialises every device and enters the
  shell as process 0 on terminal 0: exactly the timer, the keyboard, the slave and the clock may
  interrupt, every gate leads to its handler, the address space is that of \<open>initialize_page\<close>, terminal 0
  is blank, and the program runs as \<open>sys_execute\<close> starts it. The messages are not on the screen: they
  were printed into the page at one gigabyte, which nothing shows.
\<close>

theorem boot_starts_shell:
  fixes s :: "'a boot_state_scheme"
  assumes "on_boot s" "linked s" "pic_device (device s)" "terminal_opened s = 0"
    and "multiboot_ok (phys s) mbi" "shell_provided (phys s) (first_module (phys s) mbi) shell bs ag"
    and "proc_arr s = replicate 6 FREE" "length (arg (stack_pcb s)) = 128"
  shows "\<exists>s1 s2. entry MULTIBOOT_BOOTLOADER_MAGIC mbi shell d1 d2 s = Some (Boot_enters (entry_frame bs), s2) \<and>
    devices_ready (init_tss d2 (init_ldt d1 (s\<lparr>boot_block := first_module (phys s) mbi\<rparr>))) s1 \<and> started 0 bs ag s1 s2"
proof -
  let ?u = "init_tss d2 (init_ldt d1 (s\<lparr>boot_block := first_module (phys s) mbi\<rparr>))"
  obtain b where b: "entry MULTIBOOT_BOOTLOADER_MAGIC mbi shell d1 d2 s = bring_up shell d1 d2 b" "on_boot b"
    "set_up (s\<lparr>boot_block := first_module (phys s) mbi\<rparr>) b"
    using entry_prints [OF assms(1,5)] by blast
  let ?b = "init_tss d2 (init_ldt d1 b)"
  have u: "set_up ?u ?b" using segments_kept [OF b(3)] .
  note seg = init_tss_def init_ldt_def Let_def lldt_def ltr_def
  have lu: "linked ?u" using assms(2) by (simp add: linked_def seg)
  have "on_boot ?b" using b(2) by (simp add: on_boot_def boot_screen_def page_bytes_def seg)
  moreover have "linked ?b" "device ?b = device s" "terminal_opened ?b = 0"
    using lu u assms(4) by (simp_all add: set_up_def linked_def) (simp_all add: seg)
  ultimately obtain s1 where s1: "init_devices ?b = Some s1" "devices_ready ?b s1"
    using init_devices_ready [of ?b] assms(3) by auto
  have r: "devices_ready ?u s1" using devices_ready_from [OF u lu s1(2)] .
  have m: "rtc_state.more s1 = rtc_state.more ?u" "boot_block s1 = boot_block ?u" "stack_junk s1 = stack_junk ?u"
    using r by (simp_all add: devices_ready_def)
  have f: "proc_arr s1 = replicate 6 FREE" "length (arg (stack_pcb s1)) = 128" "boot_block s1 = first_module (phys s) mbi"
    "length (stack_junk s1) = 64" "phys ?u = phys s"
    using m assms(1,7,8) by (simp_all add: boot_more on_boot_def) (simp_all add: seg)
  have "lowest_free (proc_arr s1) 0" using f(1) by (simp add: lowest_free_def)
  then obtain s2 where "sys_execute (ld8 s1) shell s1 = Some (Enter_user (entry_frame bs), s2)" "started 0 bs ag s1 s2"
    using shell_provided_execute [OF r, of shell bs ag 0] f assms(6) by auto
  then show ?thesis using b(1) s1(1) r by (auto simp: bring_up_def)
qed

section \<open>A machine to boot\<close>

text \<open>
  The multiboot information at \<open>0x10000\<close>, with a command line, one module and a memory map of one entry;
  the file system with the program \<open>shell\<close> at \<open>0x500000\<close>, and the literal at \<open>0x420000\<close>.
\<close>

definition boot_image :: "(u32 \<times> u8 list) list" where
  "boot_image =
     [(0x10000, le_bytes 0x4C @ replicate 12 0 @ le_bytes 0x11100 @ le_bytes 1 @ le_bytes 0x11000 @ replicate 16 0 @
         le_bytes 24 @ le_bytes 0x11200),
      (0x11000, le_bytes 0x500000 @ le_bytes 0x504000), (0x11100, [107, 0]), (0x11200, le_bytes 20),
      (0x420000, chars ''shell'' @ [0, 0]),
      (0x500000, le_bytes 2 @ le_bytes 1 @ le_bytes 1), (0x500040, demo_entry [46] 1 0),
      (0x500080, demo_entry (chars ''shell'') 2 0), (0x501000, le_bytes 40 @ le_bytes 0), (0x502000, demo_elf)]"

abbreviation "boot_phys \<equiv> image_bytes boot_image"

lemma boot_image_bytes:
  "bytes_at (\<lambda>a. Some (boot_phys a)) 0x10000 (le_bytes 0x4C @ replicate 12 0 @ le_bytes 0x11100 @ le_bytes 1 @
     le_bytes 0x11000 @ replicate 16 0 @ le_bytes 24 @ le_bytes 0x11200)"
  "bytes_at (\<lambda>a. Some (boot_phys a)) 0x11000 (le_bytes 0x500000 @ le_bytes 0x504000)"
  "bytes_at (\<lambda>a. Some (boot_phys a)) 0x11100 [107, 0]"
  "bytes_at (\<lambda>a. Some (boot_phys a)) 0x11200 (le_bytes 20)"
  "bytes_at (\<lambda>a. Some (boot_phys a)) 0x420000 (chars ''shell'' @ [0, 0])"
  "bytes_at (\<lambda>a. Some (boot_phys a)) 0x500000 (le_bytes 2 @ le_bytes 1 @ le_bytes 1)"
  "bytes_at (\<lambda>a. Some (boot_phys a)) 0x500040 (demo_entry [46] 1 0)"
  "bytes_at (\<lambda>a. Some (boot_phys a)) 0x500080 (demo_entry (chars ''shell'') 2 0)"
  "bytes_at (\<lambda>a. Some (boot_phys a)) 0x501000 (le_bytes 40 @ le_bytes 0)"
  "bytes_at (\<lambda>a. Some (boot_phys a)) 0x502000 demo_elf"
  unfolding boot_image_def demo_entry_def demo_elf_def chars_def
  by (intro image_tail image_head; simp)+

lemma mword_bytes: "bytes_at (\<lambda>a. Some (p a)) a (le_bytes w) \<Longrightarrow> mword p a = w"
  using ld32_bytes_at [of "\<lambda>a. Some (p a)" a w] by (simp add: ld32_def mword_def)

lemma unseen_low: "unat a + n \<le> 0x40000000 \<Longrightarrow> unseen a n"
proof -
  assume n: "unat a + n \<le> 0x40000000"
  have "\<not> unat (a + of_nat k - VIDEO) < 4096" if k: "k < n" for k
  proof -
    have "unat (a + of_nat k) = unat a + k" using unat_of_nat_u32 [of "unat a + k"] n k by simp
    then show ?thesis using n k by (simp add: unat_sub_if_size word_size)
  qed
  then show ?thesis by (simp add: unseen_def)
qed

lemma boot_multiboot: "multiboot_ok boot_phys 0x10000" "first_module boot_phys 0x10000 = 0x500000"
proof -
  have w: "mword boot_phys 0x10000 = 0x4C" "mword boot_phys 0x10010 = 0x11100" "mword boot_phys 0x10018 = 0x11000"
    "mword boot_phys 0x1002C = 24" "mword boot_phys 0x10030 = 0x11200" "mword boot_phys 0x11000 = 0x500000" "mword boot_phys 0x11200 = 20"
    by (rule mword_bytes; use boot_image_bytes(1,2,4) in \<open>simp add: bytes_at_append\<close>)+
  have "bit (0x4C :: u32) 2" "bit (0x4C :: u32) 3" "\<not> bit (0x4C :: u32) 4" "bit (0x4C :: u32) 6" by simp_all
  moreover have "mmap_chain boot_phys 0x11200 (0x11200 + 24) [20]" by (simp add: w unseen_low)
  then have "\<exists>zs. mmap_chain boot_phys 0x11200 (0x11200 + 24) zs" by blast
  moreover have "cstr_at (\<lambda>a. Some (boot_phys a)) 0x11100 [107]" using boot_image_bytes(3) by (simp add: cstr_at_def)
  moreover have "unseen 0x11100 (Suc (length [107 :: u8]))" by (intro unseen_low) simp
  ultimately have "\<exists>cs. cstr_at (\<lambda>a. Some (boot_phys a)) 0x11100 cs \<and> unseen 0x11100 (Suc (length cs))"
    "\<exists>zs. mmap_chain boot_phys 0x11200 (0x11200 + 24) zs" "bit (0x4C :: u32) 3" "\<not> bit (0x4C :: u32) 4"
    by blast+
  moreover have "unseen 0x10000 52" "unseen 0x11000 4" by (intro unseen_low; simp)+
  moreover have "0x10000 + mb_flags = (0x10000 :: u32)" "0x10000 + cmdline = (0x10010 :: u32)" "0x10000 + mods_addr = (0x10018 :: u32)"
    "0x10000 + mmap_addr = (0x10030 :: u32)" "0x10000 + mmap_length = (0x1002C :: u32)" by simp_all
  ultimately show "multiboot_ok boot_phys 0x10000"
    unfolding multiboot_ok_def Let_def by (simp only: w simp_thms)
  show "first_module boot_phys 0x10000 = 0x500000" by (simp add: first_module_def w)
qed

lemma boot_shell: "shell_provided boot_phys 0x500000 0x420000 demo_elf []"
proof -
  let ?r = "\<lambda>a. Some (boot_phys a)" and ?es = "[demo_entry [46] 1 0, demo_entry (chars ''shell'') 2 0]"
  have nm: "length (chars ''shell'') \<le> 32" "0 \<notin> set (chars ''shell'')" "[46] \<noteq> chars ''shell''" by (simp_all add: chars_def)
  have len: "length demo_elf = 40" by (simp add: demo_elf_def)
  have "directory ?r 0x500000 ?es"
    using boot_image_bytes(6-8) nm
    by (auto simp: directory_def dir_count_def d_entry_def bytes_at_append ld32_bytes_at read_bytes_Some demo_entry_fields dirent_ok_def less_Suc_eq)
  moreover have "region (0x500000 + of_nat k) = 1" if "k < 4096" for k using kernel_region [of "0x500000 + k"] that by simp
  moreover have "find (\<lambda>e. ename e = chars ''shell'') ?es = Some (demo_entry (chars ''shell'') 2 0)"
    "inode_num (demo_entry (chars ''shell'') 2 0) = Some 0" using nm by (simp_all add: demo_entry_fields)
  moreover have "program_file ?r 0x500000 0 1 [0] demo_elf"
  proof -
    have b: "block_byte 0x500000 1 [0] k = 0x502000 + of_nat k" if "k < 40" for k using that by (simp add: block_byte_def)
    have "region (0x500004 + of_nat j) = 1" "region (0x501000 + of_nat j) = 1" "region (0x501004 + of_nat j) = 1" if "j < 4" for j
      using that kernel_region [of "0x500004 + j"] kernel_region [of "0x501000 + j"] kernel_region [of "0x501004 + j"] by simp_all
    moreover have "region (block_byte 0x500000 1 [0] k) = 1" if "k < 40" for k
      using that kernel_region [of "0x502000 + k"] b by simp
    moreover have "file_at ?r 0x500000 (inode_address 0x500000 0) 1 [0] demo_elf"
      using boot_image_bytes(6,9,10) b len
      by (simp add: file_at_def inode_count_def data_block_num_def bytes_at_append ld32_bytes_at inode_address_def) (simp add: bytes_at_def)
    moreover have "inode_length ?r (inode_address 0x500000 0) = Some 40"
      using boot_image_bytes(9) by (simp add: inode_length_def inode_address_def bytes_at_append ld32_bytes_at)
    ultimately show ?thesis using len by (simp add: program_file_def inode_address_def)
  qed
  ultimately have "\<exists>es e ino c blks. directory ?r 0x500000 es \<and> (\<forall>k < 4096. region (0x500000 + of_nat k) = 1) \<and>
      find (\<lambda>e. ename e = chars ''shell'') es = Some e \<and> inode_num e = Some ino \<and> program_file ?r 0x500000 ino c blks demo_elf"
    by blast
  moreover have "command_at ?r 0x420000 (chars ''shell'') []"
    using boot_image_bytes(5) by (simp add: command_at_def) (simp add: chars_def)
  moreover have "region (0x420000 + of_nat k) = 1" if "k < 7" for k using kernel_region [of "0x420000 + k"] that by simp
  ultimately show ?thesis using len by (simp add: shell_provided_def) (simp add: demo_elf_def)
qed

definition demo_boot :: boot_state where
  "demo_boot = sched_state.extend (demo_sched\<lparr>phys := boot_phys, paging := False, proc_arr := replicate 6 FREE,
       cur_term_num := 0, term_in_service := 0, terminal_opened := 0, term_cursor_x := [0, 0, 0], term_cursor_y := [0, 0, 0]\<rparr>)
     (let d = \<lparr>seg_lim_15_00 = 0, base_15_00 = 0, base_23_16 = 0, seg_type = 0, seg_sys = False, seg_dpl = 0, seg_present = False,
          seg_lim_19_16 = 0, seg_avail = False, seg_reserved = False, opsize = False, granularity = False, base_31_24 = 0\<rparr>
      in \<lparr>ldt_desc_ptr = d, tss_desc_ptr = d, ldtr = 0, task_register = 0, ldt_segment_selector = 0,
          ldt_at = 0x400100, tss_at = 0x400180\<rparr>)"

lemma demo_boot_sel [simp]:
  "phys demo_boot = boot_phys" "\<not> paging demo_boot" "cur_term_num demo_boot = 0" "term_in_service demo_boot = 0"
  "terminal_opened demo_boot = 0" "term_cursor_x demo_boot = [0, 0, 0]" "term_cursor_y demo_boot = [0, 0, 0]"
  "proc_arr demo_boot = replicate 6 FREE" "stack_junk demo_boot = replicate 64 0" "stack_pcb demo_boot = demo_pcb"
  "device demo_boot = (\<lambda>log p. if p = 0x60 then 0 else last_out p log)" "page_table_at demo_boot = 0x1000" "page_table_vid_at demo_boot = 0x2000"
  by (simp_all add: demo_boot_def sched_state.defs)
    (simp_all add: demo_sched_def proc_state.defs, simp_all add: demo_proc_def kbd_state.defs demo_kbd_def tty_state.defs
      demo_tty_def initialize_page_eq)

theorem boot_starts_shell_witness:
  "\<exists>s1 s2 d. entry 0x2BADB002 0x10000 0x420000 d d demo_boot = Some (Boot_enters (entry_frame demo_elf), s2) \<and>
    started 0 demo_elf [] s1 s2"
proof -
  have "boot_screen demo_boot (glyphs (page_bytes demo_boot VIDEO), 0, 0)" by (simp add: boot_screen_def)
  then have "on_boot demo_boot" by (auto simp: on_boot_def)
  moreover have "linked demo_boot" by (simp add: linked_def take_bit_eq_mod)
  moreover have "pic_device (device demo_boot)" by (simp add: pic_device_def)
  moreover have "length (arg (stack_pcb demo_boot)) = 128" by (simp add: demo_pcb_def)
  ultimately show ?thesis
    using boot_starts_shell [of demo_boot "0x10000" "0x420000" demo_elf "[]"] boot_multiboot boot_shell by fastforce
qed

end
