(* ===== verification/Kernel_Tests.thy ===== *)
theory Kernel_Tests
  imports Boot_Spec
begin

text \<open>
  The kernel's own tests, \<open>tests.c\<close>. \<open>launch_tests\<close> (in \<open>Boot\<close>) has every call commented out; here are
  the tests that can be launched, and what they answer on the tables that the kernel sets up.
\<close>

section \<open>tests.c\<close>

abbreviation (input) "PASS \<equiv> (1 :: i32)"
abbreviation (input) "FAIL \<equiv> (0 :: i32)"
abbreviation (input) "VID_INDEX \<equiv> (184 :: nat)"

text \<open>\<open>lit\<close> is where the linker puts the strings that the macros expand to.\<close>

definition TEST_HEADER ::
  "(string \<Rightarrow> u32) \<Rightarrow> string \<Rightarrow> u32 \<Rightarrow> 'a tty_state_scheme \<Rightarrow> 'a tty_state_scheme option" where
  "TEST_HEADER lit name line s =
     printf_lit ''[TEST %s] Running %s at %s:%d\<newline>'' [lit name, lit name, lit ''tests.c'', line] s"

definition TEST_OUTPUT ::
  "(string \<Rightarrow> u32) \<Rightarrow> string \<Rightarrow> i32 \<Rightarrow> 'a tty_state_scheme \<Rightarrow> 'a tty_state_scheme option" where
  "TEST_OUTPUT lit name result s =
     printf_lit ''[TEST %s] Result = %s\<newline>'' [lit name, lit (if result \<noteq> 0 then ''PASS'' else ''FAIL'')] s"

text \<open>\<open>int $15\<close> enters the handler of vector 15, which does not come back.\<close>

definition assertion_failure :: "'a tty_state_scheme \<Rightarrow> 'a tty_state_scheme hang option" where
  "assertion_failure = raise_exception (intFuncArr ! 15)"

primrec idt_test_loop ::
  "nat list \<Rightarrow> i32 \<Rightarrow> 'a tty_state_scheme \<Rightarrow> ('a tty_state_scheme hang + i32 \<times> 'a tty_state_scheme) option" where
  "idt_test_loop [] result s = Some (Inr (result, s))"
| "idt_test_loop (i # is) result s =
     (if offset_15_00 (idt s i) = 0 \<and> offset_31_16 (idt s i) = 0 then map_option Inl (assertion_failure s)
      else idt_test_loop is result s)"

definition idt_test ::
  "(string \<Rightarrow> u32) \<Rightarrow> 'a tty_state_scheme \<Rightarrow> ('a tty_state_scheme hang + i32 \<times> 'a tty_state_scheme) option" where
  "idt_test lit s = do {
     s \<leftarrow> TEST_HEADER lit ''idt_test'' 48 s;
     idt_test_loop [0..<10] PASS s
   }"

text \<open>The checks of one page table entry, and of one page directory entry (\<open>Inl\<close>: the test returns).\<close>

definition paging_test_entry ::
  "nat \<Rightarrow> i32 \<times> 'a tty_state_scheme \<Rightarrow> (i32 \<times> 'a tty_state_scheme) option" where
  "paging_test_entry i = (\<lambda>(result, s).
     if i \<noteq> VID_INDEX then
       Some (if page_table s i AND RW = 0 \<or> page_table s i AND PRESENT \<noteq> 0 \<or> page_table s i AND USER = 0 \<or>
               page_table s i AND of_nat i * FOUR_KB = 0 then FAIL else result, s)
     else if page_table s i AND PRESENT = 0 \<or> page_table s i AND USER = 0 \<or> page_table s i AND RW = 0 \<or>
         page_table s i AND of_nat i * FOUR_KB = 0 then do {
       s \<leftarrow> printf_lit ''\<newline> index %d of %d                   '' [of_nat i, page_table s i] s;
       Some (FAIL, s)
     }
     else Some (result, s))"

definition paging_test_dir :: "nat \<Rightarrow> i32 \<Rightarrow> 'a mach_scheme \<Rightarrow> i32 + i32" where
  "paging_test_dir i result s =
     (let result = (if page_directory s i AND RW = 0 then FAIL else result);
          result = (if i = 0 \<and> \<not> (page_directory s i AND page_table_at s \<noteq> 0 \<or>
              page_directory s i AND RW = 0 \<or> page_directory s i AND PRESENT = 0) then FAIL else result)
      in if i = 1 \<and> (page_directory s i AND SET_4MB = 0 \<or> page_directory s i AND MB_4 = 0) then Inl FAIL
         else Inr result)"

primrec paging_test_dirs :: "nat list \<Rightarrow> i32 \<Rightarrow> 'a mach_scheme \<Rightarrow> i32" where
  "paging_test_dirs [] result s = result"
| "paging_test_dirs (i # is) result s =
     (case paging_test_dir i result s of Inl v \<Rightarrow> v | Inr result \<Rightarrow> paging_test_dirs is result s)"

definition paging_test :: "(string \<Rightarrow> u32) \<Rightarrow> 'a tty_state_scheme \<Rightarrow> (i32 \<times> 'a tty_state_scheme) option" where
  "paging_test lit s = do {
     s \<leftarrow> TEST_HEADER lit ''paging_test'' 75 s;
     (result, s) \<leftarrow> for_each paging_test_entry [1..<NUM_ENTRIES] (PASS, s);
     Some (paging_test_dirs [0..<NUM_ENTRIES] result s, s)
   }"

text \<open>\<open>rtc_write_test\<close> has no end; each round waits for the clock.\<close>

partial_function (option) rtc_write_test_loop ::
  "('e \<Rightarrow> 'a rtc_state_scheme \<Rightarrow> 'a rtc_state_scheme option) \<Rightarrow> 'e list \<Rightarrow> 'a rtc_state_scheme \<Rightarrow>
   ('e list \<times> 'a rtc_state_scheme) option"
where
  "rtc_write_test_loop irq irqs s = do {
     (_, irqs, s) \<leftarrow> rtc_read irq irqs s;
     rtc_write_test_loop irq irqs s
   }"

definition rtc_write_test ::
  "('e \<Rightarrow> 'a rtc_state_scheme \<Rightarrow> 'a rtc_state_scheme option) \<Rightarrow> 'e list \<Rightarrow> 'a rtc_state_scheme \<Rightarrow>
   ('e list \<times> 'a rtc_state_scheme) option" where
  "rtc_write_test irq irqs s = do {
     s \<leftarrow> puts_lit ''Launching RTC test\<newline>'' s;
     rtc_write_test_loop irq irqs s
   }"

definition test_display_files :: "'s \<Rightarrow> 's" where
  "test_display_files s = s"

section \<open>What the tests answer\<close>

text \<open>A literal of the kernel: it lies in the kernel's page, so no output goes over it.\<close>

definition literal_at :: "'a tty_state_scheme \<Rightarrow> (string \<Rightarrow> u32) \<Rightarrow> string \<Rightarrow> bool" where
  "literal_at s lit str \<longleftrightarrow> kernel_mapped s \<and> cstr_at (ld8 s) (lit str) (chars str) \<and>
     (\<forall>i \<le> length str. region (lit str + of_nat i) = 1)"

lemma elsewhere_kernel_page:
  assumes e: "elsewhere t s s'" and k: "kernel_mapped s" "t < 3" and a: "region a = 1"
  shows "ld8 s' a = ld8 s a"
proof -
  have "kernel_mapped s'" using k(1) elsewhere_sel(3,4) [OF e] by (simp add: kernel_mapped_def)
  moreover have "\<not> unat (a - frame_for s t) < 4096" using not_in_frame [OF k(2), of a s] region_low [OF a] by simp
  then have "phys s' a = phys s a" using e by (simp add: elsewhere_def)
  ultimately show ?thesis using k(1) a by (simp add: ld8_def kernel_page_xlate)
qed

lemma literal_kept:
  assumes e: "elsewhere t s s'" and l: "literal_at s lit str" and t: "t < 3"
  shows "cstr_at (ld8 s') (lit str) (chars str)"
proof -
  have k: "kernel_mapped s" using l by (simp add: literal_at_def)
  have "ld8 s' (lit str + of_nat i) = ld8 s (lit str + of_nat i)" if "i \<le> length str" for i
    using elsewhere_kernel_page [OF e k t, of "lit str + of_nat i"] l that by (simp add: literal_at_def)
  then show ?thesis using l by (simp add: literal_at_def cstr_at_def bytes_at_def)
qed

lemma test_header_prints:
  assumes c: "on_terminal t s con" and j: "length (stack_junk s) = 64"
    and l: "literal_at s lit name" "literal_at s lit ''tests.c''"
  shows "\<exists>s' con'. TEST_HEADER lit name line s = Some s' \<and> on_terminal t s' con' \<and> elsewhere t s s'"
proof -
  define str where "str v = (if v = lit name then Some (chars name) else if v = lit ''tests.c'' then Some (chars ''tests.c'') else None)" for v
  have t: "t < 3" using c by (auto simp: on_terminal_def console_def)
  have k: "str v = Some cs \<Longrightarrow> elsewhere t s s' \<Longrightarrow> cstr_at (ld8 s') v cs" for v cs s'
    using literal_kept [of t s s' lit name] literal_kept [of t s s' lit "''tests.c''"] l t by (auto simp: str_def split: if_splits)
  have "\<exists>out. formatted str None (chars ''[TEST %s] Running %s at %s:%d\<newline>'') [lit name, lit name, lit ''tests.c'', line] = Some out"
    by (auto simp: str_def chars_def takes_argument_def next_arg_def)
  then obtain out where f: "formatted str None (chars ''[TEST %s] Running %s at %s:%d\<newline>'') [lit name, lit name, lit ''tests.c'', line] = Some out"
    by blast
  have "\<exists>s'. TEST_HEADER lit name line s = Some s' \<and> on_terminal t s' (fold type_char out con) \<and> elsewhere t s s'"
    unfolding TEST_HEADER_def by (rule screen.printf_lit_types [where str = str, OF c j f]) (auto simp: chars_def k)
  then show ?thesis by blast
qed

lemma idt_test_loop_passes:
  "(\<And>i. i \<in> set is \<Longrightarrow> gate_target (idt s i) \<noteq> 0) \<Longrightarrow> idt_test_loop is r s = Some (Inr (r, s))"
proof (induction "is")
  case (Cons i "is")
  have "\<not> (offset_15_00 (idt s i) = 0 \<and> offset_31_16 (idt s i) = 0)"
    using Cons.prems [of i] by (auto simp: gate_target_def)
  moreover have "idt_test_loop is r s = Some (Inr (r, s))" using Cons.IH Cons.prems by simp
  ultimately show ?case by auto
qed simp

lemma low_entry_flags:
  assumes "0 < i" "i < NUM_ENTRIES"
  shows "low_entry i AND RW \<noteq> 0" "low_entry i AND USER \<noteq> 0" "low_entry i AND of_nat i * FOUR_KB \<noteq> 0"
    "low_entry i AND PRESENT \<noteq> 0 \<longleftrightarrow> i = VID_INDEX"
proof -
  have p: "of_nat i * FOUR_KB = (push_bit 12 (of_nat i) :: u32)" by (simp add: push_bit_eq_mult)
  have low: "\<not> bit (push_bit 12 (of_nat i) :: u32) j" if "j < 12" for j using that by (simp add: bit_push_bit_iff)
  have "i < 2 ^ 32" using assms(2) by simp
  then have "(of_nat i :: u32) = of_nat 184 \<longleftrightarrow> i = 184" by (rule of_nat_eq_u32_iff) simp
  then have v: "(of_nat i :: u32) = 184 \<longleftrightarrow> i = 184" by simp
  have e: "low_entry i = push_bit 12 (of_nat i) OR (if i = VID_INDEX then 7 else 6)"
    by (simp add: low_entry_def v p or.assoc)
  have f: "bit (low_entry i) 1" "bit (low_entry i) 2" "bit (low_entry i) 0 \<longleftrightarrow> i = VID_INDEX"
    by (simp_all add: e bit_or_iff low)
  have b: "w AND 1 \<noteq> 0 \<longleftrightarrow> bit w 0" "w AND 2 \<noteq> 0 \<longleftrightarrow> bit w 1" "w AND 4 \<noteq> 0 \<longleftrightarrow> bit w 2" for w :: u32
    using bit_iff_and_push_bit_not_eq_0 [of w 0] bit_iff_and_push_bit_not_eq_0 [of w 1] bit_iff_and_push_bit_not_eq_0 [of w 2] by simp_all
  show "low_entry i AND RW \<noteq> 0" "low_entry i AND USER \<noteq> 0" "low_entry i AND PRESENT \<noteq> 0 \<longleftrightarrow> i = VID_INDEX"
    using f by (simp_all only: b)
  have "low_entry i AND push_bit 12 (of_nat i) = push_bit 12 (of_nat i)"
    unfolding e by (rule bit_word_eqI) (auto simp: bit_simps)
  moreover have "(push_bit 12 (of_nat i) :: u32) = of_nat (i * 4096)" by (simp add: push_bit_eq_mult)
  then have "(push_bit 12 (of_nat i) :: u32) \<noteq> 0" using of_nat_eq_u32_iff [of "i * 4096" 0] assms by simp
  ultimately show "low_entry i AND of_nat i * FOUR_KB \<noteq> 0" unfolding p by simp
qed

lemma paging_entries_pass:
  "(\<And>i. i \<in> set is \<Longrightarrow> 0 < i \<and> i < NUM_ENTRIES \<and> page_table s i = low_entry i) \<Longrightarrow>
   for_each paging_test_entry is (r, s) = Some (r, s)"
proof (induction "is")
  case (Cons i "is")
  have i: "0 < i" "i < NUM_ENTRIES" "page_table s i = low_entry i" using Cons.prems by simp_all
  have "paging_test_entry i (r, s) = Some (r, s)"
    using low_entry_flags [OF i(1,2)] unfolding paging_test_entry_def prod.case i(3) by (cases "i = VID_INDEX") simp_all
  moreover have "for_each paging_test_entry is (r, s) = Some (r, s)" using Cons.IH Cons.prems by simp
  ultimately show ?case by simp
qed simp

lemma paging_dirs_pass: "(\<And>i. i \<in> set is \<Longrightarrow> paging_test_dir i r s = Inr r) \<Longrightarrow> paging_test_dirs is r s = r"
  by (induction "is") simp_all

text \<open>
  C37. The kernel's tests of its tables pass: with the gates that \<open>idt_init\<close> fills in and the tables of
  \<open>initialize_page\<close>, \<open>idt_test\<close> and \<open>paging_test\<close> print their header and answer \<open>PASS\<close>.
\<close>

theorem kernel_tests_pass:
  assumes "console s (unat (term_in_service s)) con" "length (stack_junk s) = 64"
    and "\<And>str. str \<in> {''idt_test'', ''paging_test'', ''tests.c''} \<Longrightarrow> literal_at s lit str"
    and "idt s = idt (idt_init u)" "\<And>h. handler_at u h \<noteq> 0"
    and "page_table s = page_table (initialize_page v)" "page_directory s = page_directory (initialize_page v)"
      "page_table_at s = page_table_at v" "page_table_at v \<noteq> 0"
  shows "(\<exists>s'. idt_test lit s = Some (Inr (PASS, s'))) \<and> (\<exists>s'. paging_test lit s = Some (PASS, s'))"
proof
  let ?t = "unat (term_in_service s)"
  have c: "on_terminal ?t s con" using assms(1) by (simp add: on_terminal_def)
  obtain s1 where s1: "TEST_HEADER lit ''idt_test'' 48 s = Some s1" "elsewhere ?t s s1"
    using test_header_prints [OF c assms(2)] assms(3) by blast
  have i: "idt s1 = idt s"
  proof -
    have e: "s1 = s\<lparr>phys := phys s1, page_table_vid := (page_table_vid s)(0 := page_table_vid s1 0), io := io s1,
       screen_x := screen_x s1, screen_y := screen_y s1, term_cursor_x := term_cursor_x s1, term_cursor_y := term_cursor_y s1\<rparr>"
      using s1(2) by (simp only: elsewhere_def)
    show ?thesis by (subst e) simp
  qed
  have "gate_target (idt s1 j) \<noteq> 0" if "j < 10" for j
    using idt_init_gates(1) [of j u] that assms(4,5) i by (simp add: gate_to_def)
  then have "idt_test_loop [0..<10] PASS s1 = Some (Inr (PASS, s1))" by (intro idt_test_loop_passes) simp
  then show "\<exists>s'. idt_test lit s = Some (Inr (PASS, s'))" using s1(1) by (simp add: idt_test_def)
  obtain s2 where s2: "TEST_HEADER lit ''paging_test'' 75 s = Some s2" "elsewhere ?t s s2"
    using test_header_prints [OF c assms(2)] assms(3) by blast
  have p: "page_table s2 = page_table (initialize_page v)" "page_directory s2 = page_directory (initialize_page v)"
    "page_table_at s2 = page_table_at v"
    using elsewhere_sel(4-6) [OF s2(2)] assms(6-8) by simp_all
  have "for_each paging_test_entry [1..<NUM_ENTRIES] (PASS, s2) = Some (PASS, s2)"
    by (rule paging_entries_pass) (auto simp: p(1) initialize_page_eq)
  moreover have "paging_test_dirs [0..<NUM_ENTRIES] PASS s2 = PASS"
  proof (rule paging_dirs_pass)
    fix j assume "j \<in> set [0..<NUM_ENTRIES]"
    then have d: "page_directory s2 j = (if j = 0 then page_table_at v OR 3 else if j = 1 then 0x400083
        else if j = 256 then page_table_vid_at v OR 7 else 2)"
      by (simp add: p(2)) (simp add: initialize_page_eq or.assoc)
    have a: "(w OR 3) AND w = w" "(w OR 3) AND 2 = 2" "(w OR 7) AND 2 = 2" for w :: u32
      by (rule bit_word_eqI; auto simp: bit_simps)+
    show "paging_test_dir j PASS s2 = Inr PASS"
      using assms(9) by (auto simp: paging_test_dir_def d a p(3) Let_def)
  qed
  ultimately show "\<exists>s'. paging_test lit s = Some (PASS, s')" using s2(1) by (simp add: paging_test_def)
qed

definition test_lits :: "(u32 \<times> u8 list) list" where
  "test_lits = [(0x410000, chars ''idt_test'' @ [0]), (0x410040, chars ''paging_test'' @ [0]), (0x410080, chars ''tests.c'' @ [0])]"

definition demo_tests :: tty_state where
  "demo_tests = demo_tty\<lparr>phys := image_bytes test_lits, idt := idt (idt_init (demo_tty\<lparr>handler_at := (\<lambda>_. 0x400000)\<rparr>))\<rparr>"

definition test_lit :: "string \<Rightarrow> u32" where
  "test_lit str = (if str = ''idt_test'' then 0x410000 else if str = ''paging_test'' then 0x410040 else 0x410080)"

lemma demo_tests_literal:
  assumes "str \<in> {''idt_test'', ''paging_test'', ''tests.c''}"
  shows "literal_at demo_tests test_lit str"
proof -
  have k: "kernel_mapped demo_tests" by (simp add: kernel_mapped_def demo_tests_def) (simp add: demo_tty_def initialize_page_eq)
  have b: "bytes_at (\<lambda>a. Some (image_bytes test_lits a)) 0x410000 (chars ''idt_test'' @ [0])"
    "bytes_at (\<lambda>a. Some (image_bytes test_lits a)) 0x410040 (chars ''paging_test'' @ [0])"
    "bytes_at (\<lambda>a. Some (image_bytes test_lits a)) 0x410080 (chars ''tests.c'' @ [0])"
    unfolding test_lits_def chars_def by (intro image_tail image_head; simp)+
  have r: "region (of_nat m + of_nat i) = 1" if "0x410000 \<le> m" "m \<le> 0x410080" "i \<le> 11" for m i
    using kernel_region [of "m + i"] that by simp
  have l: "length str \<le> 11" "\<exists>m. test_lit str = of_nat m \<and> 0x410000 \<le> m \<and> m \<le> 0x410080"
    using assms by (auto simp: test_lit_def intro: exI [of _ "0x410000"] exI [of _ "0x410040"] exI [of _ "0x410080"])
  have reg: "region (test_lit str + of_nat i) = 1" if "i \<le> length str" for i using l r that by fastforce
  have "bytes_at (\<lambda>a. Some (image_bytes test_lits a)) (test_lit str) (chars str @ [0])" using assms b by (auto simp: test_lit_def)
  moreover have "ld8 demo_tests (test_lit str + of_nat i) = Some (image_bytes test_lits (test_lit str + of_nat i))" if "i \<le> length str" for i
    using kernel_page_xlate [OF k reg [OF that]] by (simp add: ld8_def demo_tests_def)
  ultimately have "cstr_at (ld8 demo_tests) (test_lit str) (chars str)"
    using assms by (auto simp: cstr_at_def bytes_at_def less_Suc_eq_le) (auto simp: chars_def)
  then show ?thesis using k reg by (simp add: literal_at_def)
qed

theorem kernel_tests_pass_witness:
  "\<exists>s1 s2. idt_test test_lit demo_tests = Some (Inr (1, s1)) \<and> paging_test test_lit demo_tests = Some (1, s2)"
proof -
  let ?u = "demo_tty\<lparr>handler_at := (\<lambda>_. 0x400000)\<rparr>"
  have "console demo_tests 1 (glyphs (page_bytes demo_tests (frame_for demo_tests 1)), 79, 24)"
    using demo_tty_console(1) by (simp add: console_def demo_tests_def video_ok_def linked_def)
  moreover have "unat (term_in_service demo_tests) = 1" using demo_tty_console(3) by (simp add: demo_tests_def)
  moreover have "length (stack_junk demo_tests) = 64" by (simp add: demo_tests_def demo_tty_def initialize_page_eq)
  moreover have "idt demo_tests = idt (idt_init ?u)" by (simp add: demo_tests_def)
  moreover have "page_table demo_tests = page_table (initialize_page demo_tty)"
    "page_directory demo_tests = page_directory (initialize_page demo_tty)"
    "page_table_at demo_tests = page_table_at demo_tty" "page_table_at demo_tty \<noteq> 0"
    by (simp_all add: demo_tests_def) (simp_all add: demo_tty_def initialize_page_eq fun_eq_iff)
  ultimately show ?thesis
    using kernel_tests_pass [of demo_tests _ test_lit ?u demo_tty] demo_tests_literal by fastforce
qed

end
