(* ===== verification/Isolation.thy ===== *)
theory Isolation
  imports User_Machine
begin

text \<open>
  What a program reaches through its system calls when the buffers it names lie in its own page:
  its page, the screen of its terminal and its descriptors, and nothing else. The calls store
  through the pointers they are given without checking them, so this says what the kernel
  promises to programs that pass their own buffers.
\<close>

section \<open>Staying inside\<close>

text \<open>
  \<open>inside n\<close>: while process \<open>n\<close> runs, a step leaves it running and changes memory above 4 MB only in
  its page.
\<close>

definition inside :: "nat \<Rightarrow> 'a proc_state_scheme \<Rightarrow> 'a proc_state_scheme \<Rightarrow> bool" where
  "inside n s s' \<longleftrightarrow> (\<forall>con. running n con s \<longrightarrow>
     (\<exists>con'. running n con' s') \<and> user_effect n {a. user_addr a} s s')"

interpretation ins: effect "inside n" for n
proof
  fix s s1 s2 :: "'a proc_state_scheme"
  assume "inside n s s1" "inside n s1 s2"
  then show "inside n s s2" unfolding inside_def by (blast intro: ue.eff_trans)
qed (auto simp: inside_def intro: ue.eff_refl)

lemma insideI: "(\<And>con. running n con s \<Longrightarrow> \<exists>con'. running n con' s' \<and> user_effect n B s s') \<Longrightarrow>
    B \<subseteq> {a. user_addr a} \<Longrightarrow> inside n s s'"
  unfolding inside_def using user_effect_mono by blast

text \<open>The drivers' variables, the window and the log of the ports are not the program's.\<close>

definition unseen :: "'a proc_state_scheme \<Rightarrow> 'a proc_state_scheme \<Rightarrow> bool" where
  "unseen s s' \<longleftrightarrow> s' = s\<lparr>io := io s', int_flag := int_flag s', rtc_opened := rtc_opened s',
     read_wait := read_wait s', buf_sent := buf_sent s', dir_location := dir_location s',
     page_table_vid := (page_table_vid s)(0 := page_table_vid s' 0)\<rparr>"

lemma unseen_inside: "unseen s s' \<Longrightarrow> inside n s s'"
proof (rule insideI)
  fix con
  assume u: "unseen s s'" and r: "running n con s"
  obtain l f c w b d v where e: "s' = s\<lparr>io := l, int_flag := f, rtc_opened := c, read_wait := w,
     buf_sent := b, dir_location := d, page_table_vid := (page_table_vid s)(0 := v)\<rparr>"
    using u unfolding unseen_def by blast
  have "user_effect n {} s s'" by (simp add: e user_effect_def undisturbed_def)
  moreover have "running n con s'"
    using r by (auto simp: e running_def console_def video_ok_def linked_def page_bytes_def frame_for_def
        user_page_def kernel_mapped_def own_table_def get_process_number_def split: prod.splits)
  ultimately show "\<exists>con'. running n con' s' \<and> user_effect n {} s s'" by blast
qed simp

lemma unseen_sets:
  fixes s :: "'a proc_state_scheme"
  shows "unseen s s" "unseen s (s\<lparr>read_wait := w\<rparr>)" "unseen s (s\<lparr>buf_sent := b\<rparr>)" "unseen s (s\<lparr>dir_location := d\<rparr>)"
    "unseen s (s\<lparr>page_table_vid := (page_table_vid s)(0 := v)\<rparr>)" "unseen s (rtc_handler s)"
    "unseen s (snd (rtc_open s))" "unseen s (s\<lparr>rtc_opened := b\<rparr>)" "unseen s (rtc_set_rate c s)"
  by (simp_all add: unseen_def rtc_handler_def rtc_open_def rtc_set_rate_def send_eoi_def port_defs Let_def)

lemma drawn_inside:
  fixes s :: "'a proc_state_scheme"
  assumes "\<And>con. console s (unat (term_in_service s)) con \<Longrightarrow>
    \<exists>con'. console s' (unat (term_in_service s)) con' \<and> elsewhere (unat (term_in_service s)) s s'"
  shows "inside n s s'"
proof (rule insideI)
  fix con assume r: "running n con s"
  then have u: "user_page n s" "n < 6" "console s (unat (term_in_service s)) con" "unat (term_in_service s) < 3"
    by (auto simp: running_def user_page_def console_def split: prod.splits)
  obtain con' where c: "console s' (unat (term_in_service s)) con'" "elsewhere (unat (term_in_service s)) s s'"
    using assms [OF u(3)] by blast
  note e = elsewhere_effect [OF c(2) u(4,2)]
  have "running n con' s'"
    using r c(1) effect_page [OF e(1) u(1)] by (simp add: running_def e)
  then show "\<exists>con'. running n con' s' \<and> user_effect n {} s s'" using e(1) by blast
qed simp

lemma puts_lit_inside:
  fixes s :: "'a proc_state_scheme"
  assumes "puts_lit str s = Some s'" "0 \<notin> set (chars str)" "length str < 2 ^ 31"
  shows "inside n s s'"
proof (rule drawn_inside)
  fix con assume "console s (unat (term_in_service s)) con"
  from puts_lit_console [OF this refl assms(2,3)] assms(1)
  have "console s' (unat (term_in_service s)) (fold type_char (chars str) con)"
    "elsewhere (unat (term_in_service s)) s s'" by auto
  then show "\<exists>con'. console s' (unat (term_in_service s)) con' \<and> elsewhere (unat (term_in_service s)) s s'"
    by (intro exI conjI)
qed

text \<open>A store of the kernel at an address of the program.\<close>

lemma st8_inside:
  fixes s :: "'a proc_state_scheme"
  assumes "st8 a v s = Some s'" "user_addr a"
  shows "inside n s s'"
proof (rule insideI)
  fix con assume r: "running n con s"
  then have "xlate Supervisor s a = Some (cell_of n a)" using assms(2) by (intro user_xlate) (simp add: running_def)
  then have "touches n {a} s s'" using assms(1) by (auto simp: st8_def touches_def)
  then show "\<exists>con'. running n con' s' \<and> user_effect n {a} s s'"
    using running_touches [OF r] assms(2) by blast
qed (use assms in simp)

lemma stored_inside:
  fixes s :: "'a proc_state_scheme"
  assumes "mem_stored s a bs s'" "in_program a (length bs)"
  shows "inside n s s'"
proof (rule insideI)
  fix con assume r: "running n con s"
  then have "touches n (span a (length bs)) s s'" using assms by (intro stored_touches) (simp_all add: running_def)
  then show "\<exists>con'. running n con' s' \<and> user_effect n (span a (length bs)) s s'"
    using running_touches [OF r] span_in_program [OF assms(2)] by blast
qed (use span_in_program [OF assms(2)] in blast)

section \<open>The drivers\<close>

lemma clock_inside: "ins.obeys n (service Rtc_irq)"
  by (rule ins.obeysI) (auto intro: unseen_inside unseen_sets)

lemma spin_inside:
  fixes s :: "'a proc_state_scheme"
  assumes "spin waiting service irqs s = Some (irqs', s')" "set irqs \<subseteq> {Rtc_irq}"
  shows "inside n s s'"
  using assms
proof (induction irqs arbitrary: s)
  case Nil
  then show ?case by (auto simp: ins.eff_refl split: if_splits)
next
  case (Cons e irqs)
  show ?case
  proof (cases "waiting s")
    case True
    then obtain s1 where s1: "service Rtc_irq s = Some s1" "spin waiting service irqs s1 = Some (irqs', s')"
      using Cons.prems by (auto simp: Option.bind_eq_Some_conv)
    have "inside n s1 s'" using s1(2) Cons.prems(2) by (intro Cons.IH) simp_all
    with ins.obeysD [OF clock_inside s1(1)] show ?thesis by (rule ins.eff_trans)
  next
    case False
    then show ?thesis using Cons.prems by (simp add: ins.eff_refl)
  qed
qed

lemma terminal_read_inside:
  fixes s :: "'a proc_state_scheme"
  assumes r: "terminal_read service irqs buf (of_nat k) s = Some (v, irqs', s')"
    and b: "in_program buf k" and q: "set irqs \<subseteq> {Rtc_irq}"
  shows "inside n s s'"
proof -
  have k: "k < 2 ^ 31" using b by (simp add: in_program_def)
  define m where "m = nat (sint (if 128 <s (of_nat k :: i32) then 128 else of_nat k :: i32))"
  have "sint (of_nat k :: i32) = int k" "sint (128 :: i32) = 128" using sint_of_nat_u32 [OF k] by simp_all
  then have m: "m \<le> k" by (simp add: m_def word_sless_alt)
  obtain s1 s2 where s1: "spin no_line service irqs s = Some (irqs', s1)"
    and s2: "for_each (\<lambda>i s. do { c \<leftarrow> arr_get (terminal_buf s) i; st8 (buf + of_nat i) c s }) [0..<m] s1 = Some s2"
    and s': "s' = s2\<lparr>buf_sent := 0\<rparr>"
    using r by (auto simp: terminal_read_def Let_def Option.bind_eq_Some_conv m_def)
  have "ins.obeys n (\<lambda>s :: 'a proc_state_scheme. do { c \<leftarrow> arr_get (terminal_buf s) i; st8 (buf + of_nat i) c s })"
    if "i \<in> set [0..<m]" for i
  proof (rule ins.obeysI)
    fix s s' :: "'a proc_state_scheme"
    assume "do { c \<leftarrow> arr_get (terminal_buf s) i; st8 (buf + of_nat i) c s } = Some s'"
    then obtain c where "st8 (buf + of_nat i) c s = Some s'" by (auto simp: Option.bind_eq_Some_conv)
    then show "inside n s s'"
      using in_program_offset(1) [OF b, of i] that m by (intro st8_inside) simp_all
  qed
  then have "inside n s1 s2" by (rule ins.obeysD [OF ins.obeys_for_each s2])
  then show ?thesis
    using spin_inside [OF s1 q] unseen_inside [OF unseen_sets(3)] unfolding s' by (blast intro: ins.eff_trans)
qed

lemma rtc_read_inside:
  fixes s :: "'a proc_state_scheme"
  assumes "rtc_read service irqs s = Some (v, irqs', s')" "set irqs \<subseteq> {Rtc_irq}"
  shows "inside n s s'"
proof -
  have "spin (\<lambda>s. read_wait s \<noteq> 0) service irqs (s\<lparr>read_wait := 1\<rparr>) = Some (irqs', s')"
    using assms(1) by (auto simp: rtc_read_def Option.bind_eq_Some_conv)
  then show ?thesis
    using spin_inside [OF _ assms(2)] unseen_inside [OF unseen_sets(2)] by (blast intro: ins.eff_trans)
qed

lemma rtc_write_inside:
  fixes s :: "'a proc_state_scheme"
  assumes "rtc_write buf k s = Some (v, s')"
  shows "inside n s s'"
proof -
  consider "s' = s" | c where "s' = rtc_set_rate c s"
    | "puts_lit ''This frequency is out of range.\<newline>'' s = Some s'"
    | "puts_lit ''Frequency given is invalid.\<newline>'' s = Some s'"
    using assms by (auto simp: rtc_write_def Option.bind_eq_Some_conv split: if_splits option.splits)
  then show ?thesis
  proof cases
    case 1
    then show ?thesis by (simp add: ins.eff_refl)
  next
    case 2
    then show ?thesis using unseen_inside [OF unseen_sets(9)] by simp
  next
    case 3
    then show ?thesis by (rule puts_lit_inside) (simp_all add: chars_def)
  next
    case 4
    then show ?thesis by (rule puts_lit_inside) (simp_all add: chars_def)
  qed
qed

section \<open>The calls\<close>

lemma desc_index:
  assumes "\<not> fd <s 0" "\<not> 8 \<le>s (fd :: i32)"
  obtains i where "i < 8" "fd = of_nat i" "unat fd = i"
proof -
  have "0 \<le> sint fd" "sint fd < 8" using assms by (simp_all add: word_sless_alt word_sle_eq)
  then have "fd = of_nat (nat (sint fd))" "nat (sint fd) < 8" by simp_all
  moreover from this have "unat fd = nat (sint fd)" using unat_of_nat_u32 [of "nat (sint fd)"] by simp
  ultimately show ?thesis using that by blast
qed

text \<open>The descriptor a read or write works on.\<close>

lemma usable_desc:
  fixes s :: "'a proc_state_scheme"
  assumes "get_desc (own_loc s) (of_nat i) s = Some d" "flags d AND 1 \<noteq> 0" "i < 8" "table_ok (own_table s)"
  shows "d = own_table s ! i" "flags d = 1"
    "i = 0 \<and> fot_ptr d = Stdin_fot \<or> i = 1 \<and> fot_ptr d = Stdout_fot \<or>
     i \<in> {2..<8} \<and> fot_ptr d \<in> {File_fot, Rtc_fot, Dir_fot}"
proof -
  have "unat (of_nat i :: u32) = i" using assms(3) by (intro unat_of_nat_u32) simp
  then show d: "d = own_table s ! i" using assms(1) by (simp add: get_desc_own)
  note t = table_ok_desc [OF assms(4,3)]
  show "flags d = 1"
    using t assms(2,4) by (auto simp: d desc_ok_def table_ok_def)
  then show "i = 0 \<and> fot_ptr d = Stdin_fot \<or> i = 1 \<and> fot_ptr d = Stdout_fot \<or>
     i \<in> {2..<8} \<and> fot_ptr d \<in> {File_fot, Rtc_fot, Dir_fot}"
    using t assms(3) by (auto simp: d desc_ok_def)
qed

text \<open>
  A file is read within its blocks, or behind its end; \<open>dir_read\<close> takes 33 bytes of the buffer,
  however long it is.
\<close>

definition reads_own :: "i32 \<Rightarrow> u32 \<Rightarrow> nat \<Rightarrow> 'a proc_state_scheme \<Rightarrow> bool" where
  "reads_own fd buf k s \<longleftrightarrow> in_program buf k \<and> (unat fd < 8 \<longrightarrow> (let d = own_table s ! unat fd in
     (fot_ptr d = Dir_fot \<longrightarrow> in_program buf 33) \<and>
     (fot_ptr d = File_fot \<longrightarrow> (\<exists>c blks bs l. module_file (ld8 s) (boot_block s) (inode d) c blks bs l \<and>
       (unat l \<le> unat (file_position d) \<or> unat (file_position d) + k \<le> length bs)))))"

lemma file_read_inside:
  fixes s :: "'a proc_state_scheme"
  assumes r: "running n con s" and i: "i \<in> {2..<8}" "fot_ptr (own_table s ! i) = File_fot" "flags (own_table s ! i) = 1"
    and b: "reads_own (of_nat i) buf k s" and c: "sys_read irq irqs (of_nat i) buf (of_nat k) s = Some (v, irqs', s')"
  shows "inside n s s'"
proof -
  let ?d = "own_table s ! i"
  have "unat (of_nat i :: u32) = i" using i(1) by (intro unat_of_nat_u32) simp
  then obtain cnt blks bs l where f: "module_file (ld8 s) (boot_block s) (inode ?d) cnt blks bs l"
    and p: "unat l \<le> unat (file_position ?d) \<or> unat (file_position ?d) + k \<le> length bs"
    and k: "in_program buf k"
    using b i by (auto simp: reads_own_def Let_def)
  show ?thesis
  proof (cases "unat l \<le> unat (file_position ?d)")
    case True
    then have "ece391_read irq (of_nat i) buf (of_nat k) irqs s = Some (0, irqs, s)"
      using r i f by (intro read_file_end) (simp_all add: running_def)
    then show ?thesis using c by (simp add: user_calls ins.eff_refl)
  next
    case False
    then have "\<exists>s'. ece391_read irq (of_nat i) buf (of_nat k) irqs s = Some (of_nat k, irqs, s') \<and> running n con s' \<and>
        user_effect n (span buf k) s s'"
      using read_file_memory [OF r i(1) refl i(2,3) f k, where irq = irq and irqs = irqs] p by auto
    then have "running n con s' \<and> user_effect n (span buf k) s s'" using c by (simp add: user_calls)
    then show ?thesis
      using span_in_program [OF k] by (intro insideI [where B = "span buf k"]) blast+
  qed
qed

lemma dir_read_inside:
  fixes s :: "'a proc_state_scheme"
  assumes r: "running n con s" and d: "module_directory s es"
    and i: "i \<in> {2..<8}" "fot_ptr (own_table s ! i) = Dir_fot" "flags (own_table s ! i) = 1"
    and b: "in_program buf 33" and c: "sys_read irq irqs (of_nat i) buf k s = Some (v, irqs', s')"
  shows "inside n s s'"
proof (cases "unat (dir_location s) < length es")
  case True
  have "\<exists>s'. ece391_read irq (of_nat i) buf k irqs s =
        Some (of_nat (length (ename (es ! unat (dir_location s)))), irqs, s') \<and>
      running n con s' \<and> user_effect n (span buf 33) s s'"
    using read_dir_returns [OF r _ i(2,3) d _ True b, where irq = irq and irqs = irqs] i(1) by auto
  then have "running n con s' \<and> user_effect n (span buf 33) s s'" using c by (auto simp: user_calls)
  then show ?thesis using span_in_program [OF b] by (intro insideI [where B = "span buf 33"]) blast+
next
  case False
  then have "dir_read buf s = Some (0, s\<lparr>dir_location := 0\<rparr>)"
    using d by (intro dir_read_end [of s es]) (simp_all add: module_directory_def)
  then have "s' = s\<lparr>dir_location := 0\<rparr>"
    using c r i sys_read_desc [of s i irq irqs buf k] by (simp add: running_def)
  then show ?thesis using unseen_inside [OF unseen_sets(4)] by simp
qed

lemma read_inside:
  fixes s :: "'a proc_state_scheme"
  assumes r: "running n con s" and d: "module_directory s es" and b: "reads_own fd buf k s"
    and q: "set irqs \<subseteq> {Rtc_irq}" and c: "sys_read service irqs fd buf (of_nat k) s = Some (v, irqs', s')"
  shows "inside n s s'"
proof -
  have t: "table_ok (own_table s)" using r by (simp add: running_def)
  consider "s' = s" | i e where "i < 8" "fd = of_nat i" "unat fd = i" "get_desc (own_loc s) (of_nat i) s = Some e"
      "flags e AND 1 \<noteq> 0" "fot_read service irqs (fot_ptr e) (own_loc s) fd buf (of_nat k) s = Some (v, irqs', s')"
    using c desc_index [of fd] by (auto simp: sys_read_def Let_def Option.bind_eq_Some_conv split: if_splits)
  then show ?thesis
  proof cases
    case 1
    then show ?thesis by (simp add: ins.eff_refl)
  next
    case 2
    note e = usable_desc [OF 2(4,5,1) t]
    have k: "in_program buf k" using b by (simp add: reads_own_def)
    consider "fot_ptr e = Stdin_fot" | "fot_ptr e = Stdout_fot" | "fot_ptr e = Rtc_fot"
      | "i \<in> {2..<8}" "fot_ptr e = File_fot" | "i \<in> {2..<8}" "fot_ptr e = Dir_fot" using e(3) by blast
    then show ?thesis
    proof cases
      case 1
      then show ?thesis using 2(6) terminal_read_inside [OF _ k q] by simp
    next
      case s2: 2
      then show ?thesis using 2(6) by (simp add: ins.eff_refl)
    next
      case 3
      then show ?thesis using 2(6) rtc_read_inside [OF _ q] by simp
    next
      case 4
      then show ?thesis using e(1,2) b c unfolding 2(2) by (intro file_read_inside [OF r]) simp_all
    next
      case 5
      then show ?thesis
        using e(1,2) b c 2(1,3) unfolding 2(2) by (intro dir_read_inside [OF r d]) (auto simp: reads_own_def Let_def)
    qed
  qed
qed

lemma write_inside:
  fixes s :: "'a proc_state_scheme"
  assumes r: "running n con s" and b: "in_program buf k" and c: "sys_write fd buf (of_nat k) s = Some (v, s')"
  shows "inside n s s'"
proof -
  have t: "table_ok (own_table s)" using r by (simp add: running_def)
  consider "s' = s" | i e where "i < 8" "fd = of_nat i" "get_desc (own_loc s) (of_nat i) s = Some e"
      "flags e AND 1 \<noteq> 0" "fot_write (fot_ptr e) buf (of_nat k) s = Some (v, s')"
    using c desc_index [of fd] by (auto simp: sys_write_def Let_def Option.bind_eq_Some_conv split: if_splits)
  then show ?thesis
  proof cases
    case 1
    then show ?thesis by (simp add: ins.eff_refl)
  next
    case 2
    note e = usable_desc [OF 2(3,4,1) t]
    consider "i = 1" | "fot_ptr e \<in> {Stdin_fot, File_fot, Dir_fot}" | "fot_ptr e = Rtc_fot" using e(3) by blast
    then show ?thesis
    proof cases
      case 1
      define cs where "cs = map (\<lambda>j. phys s (cell_of n (buf + of_nat j))) [0..<k]"
      have "nat (sint (of_nat k :: i32)) = length cs"
        using b by (simp add: cs_def sint_of_nat_u32 in_program_def)
      moreover have "bytes_at (uld8 s) buf cs"
        using uld8_cell [of n s] r in_program_offset(1) [OF b] by (simp add: bytes_at_def cs_def running_def)
      ultimately have "\<exists>s'. ece391_write service 1 buf (of_nat k) [] s = Some (0, [], s') \<and>
          running n (fold type_char cs con) s' \<and> user_effect n {} s s'"
        using write_types [OF r, of buf cs "of_nat k" service "[]"] b by (auto simp: cs_def)
      then have "running n (fold type_char cs con) s' \<and> user_effect n {} s s'"
        using c unfolding 2(2) 1 by (auto simp: user_calls)
      then show ?thesis by (intro insideI [where B = "{}"]) blast+
    next
      case f: 2
      then show ?thesis using 2(5) by (auto simp: ins.eff_refl)
    next
      case 3
      then show ?thesis using 2(5) rtc_write_inside by simp
    qed
  qed
qed

text \<open>What changes descriptors and the clock driver only.\<close>

lemma quiet_inside:
  fixes s :: "'a proc_state_scheme"
  assumes q: "quietly s s'" and v: "serving s s'"
  shows "inside n s s'"
proof (rule insideI)
  fix con assume r: "running n con s"
  note f = quiet_fields [OF q]
  have ue: "user_effect n {} s s'" using v f by (simp add: user_effect_def serving_def)
  have "user_page n s" using r by (simp add: running_def)
  then have "running n con s'" using r v effect_page [OF ue] by (simp add: running_def f serving_def)
  then show "\<exists>con'. running n con' s' \<and> user_effect n {} s s'" using ue by blast
qed simp

lemma open_inside:
  fixes s :: "'a proc_state_scheme"
  assumes "module_directory s es" "cstr_at (ld8 s) a nm" "sys_open a s = Some (v, s')"
  shows "inside n s s'"
proof (rule quiet_inside)
  show "quietly s s'" using assms(3) by (rule sys_open_quiet)
  show "serving s s'" using assms by (intro sys_open_serving [of s es a nm]) (simp_all add: module_directory_def)
qed

lemma close_inside:
  fixes s :: "'a proc_state_scheme"
  assumes c: "sys_close fd s = Some (v, s')"
  shows "inside n s s'"
proof -
  consider "s' = s" | f where "fot_close f s = Some (-1, s')" | "v = 0"
    using c unfolding sys_close_def Let_def
    by (auto simp: Option.bind_eq_Some_conv split: if_splits)
  then show ?thesis
  proof cases
    case 1
    then show ?thesis by (simp add: ins.eff_refl)
  next
    case 2
    then have "s' = s \<or> puts_lit ''The RTC is already closed.\<newline>'' s = Some s'"
      by (cases f) (auto simp: rtc_close_def fclose_def dir_close_def Option.bind_eq_Some_conv split: if_splits)
    then show ?thesis by (auto simp: ins.eff_refl chars_def intro: puts_lit_inside)
  next
    case 3
    then have c0: "sys_close fd s = Some (0, s')" using c by simp
    show ?thesis using quiet_inside [OF sys_close_quiet [OF c0] sys_close_serving [OF c0]] .
  qed
qed

text \<open>\<open>sys_getargs\<close> clears a byte behind the buffer.\<close>

lemma getargs_inside:
  fixes s :: "'a proc_state_scheme"
  assumes r: "running n con s" and a: "length (arg (pcb_at s (own_loc s))) = 128"
    and b: "in_program buf (min 128 k + 1)" "k < 2 ^ 31" and c: "sys_getargs buf (of_nat k) s = Some (v, s')"
  shows "inside n s s'"
proof -
  have "user_page n s" using r by (simp add: running_def)
  then have ok: "range_ok (xlate Supervisor) s buf (min 128 k + 1)" using b(1) by (rule user_range)
  have nz: "buf \<noteq> 0" using b(1) by (auto simp: in_program_def)
  let ?bs = "take (min 128 k) (arg (pcb_at s (own_loc s))) @ [0]"
  have "length ?bs = min 128 k + 1" using a by simp
  moreover have "s' = s \<or> mem_stored s buf ?bs s'"
    using sys_getargs_stores [OF refl a b(2) nz ok] c by (auto split: if_splits)
  ultimately show ?thesis using stored_inside [of s buf ?bs s' n] b(1) by (auto simp: ins.eff_refl)
qed

lemma vidmap_inside:
  fixes s :: "'a proc_state_scheme"
  assumes r: "running n con s" and b: "OTE_MB \<le> a \<longrightarrow> a \<le> OTE_MB + MB_4 \<longrightarrow> in_program a 4"
    and c: "sys_vidmap a s = Some (v, s')"
  shows "inside n s s'"
proof -
  consider "s' = s" | w where "in_program a 4"
      "write_bytes st8 a (le_bytes ONE_GIG) (s\<lparr>page_table_vid := (page_table_vid s)(0 := w)\<rparr>) = Some s'"
    using c b by (auto simp: sys_vidmap_def Let_def Option.bind_eq_Some_conv not_less split: if_splits)
  then show ?thesis
  proof cases
    case 1
    then show ?thesis by (simp add: ins.eff_refl)
  next
    case 2
    let ?s1 = "s\<lparr>page_table_vid := (page_table_vid s)(0 := w)\<rparr>"
    have "user_page n ?s1" using r by (simp add: running_def user_page_def kernel_mapped_def)
    then have "range_ok (xlate Supervisor) ?s1 a 4" using 2(1) by (rule user_range)
    then have "mem_stored ?s1 a (le_bytes ONE_GIG) s'"
      using kmem.write_bytes_stored [of ?s1 a "le_bytes ONE_GIG"] 2(2) by auto
    moreover have "in_program a (length (le_bytes ONE_GIG))" using 2(1) unfolding length_le_bytes .
    ultimately have "inside n ?s1 s'" by (rule stored_inside)
    with unseen_inside [OF unseen_sets(5)] show ?thesis by (rule ins.eff_trans)
  qed
qed

section \<open>Programs with their own buffers\<close>

text \<open>A system call by number and arguments, as \<open>ece391syscall.S\<close> makes it.\<close>

datatype user_call =
    Read i32 u32 nat
  | Write i32 u32 nat
  | Open u32
  | Close i32
  | Getargs u32 nat
  | Vidmap u32

fun make_call :: "irq_line list \<Rightarrow> user_call \<Rightarrow> 'a proc_state_scheme \<Rightarrow>
    (i32 \<times> irq_line list \<times> 'a proc_state_scheme) option" where
  "make_call irqs (Read fd buf k) s = ece391_read service fd buf (of_nat k) irqs s"
| "make_call irqs (Write fd buf k) s = ece391_write service fd buf (of_nat k) irqs s"
| "make_call irqs (Open a) s = ece391_open service a irqs s"
| "make_call irqs (Close fd) s = ece391_close service fd irqs s"
| "make_call irqs (Getargs buf k) s = ece391_getargs service buf (of_nat k) irqs s"
| "make_call irqs (Vidmap a) s = ece391_vidmap service a irqs s"

fun own_buffers :: "user_call \<Rightarrow> 'a proc_state_scheme \<Rightarrow> bool" where
  "own_buffers (Read fd buf k) s = reads_own fd buf k s"
| "own_buffers (Write fd buf k) s = in_program buf k"
| "own_buffers (Open a) s = (\<exists>nm. cstr_at (ld8 s) a nm)"
| "own_buffers (Close fd) s = True"
| "own_buffers (Getargs buf k) s = (in_program buf (min 128 k + 1) \<and> k < 2 ^ 31)"
| "own_buffers (Vidmap a) s = (OTE_MB \<le> a \<longrightarrow> a \<le> OTE_MB + MB_4 \<longrightarrow> in_program a 4)"

lemma make_call_inside:
  fixes s :: "'a proc_state_scheme"
  assumes "running n con s" "module_directory s es" "length (arg (pcb_at s (own_loc s))) = 128"
    and "own_buffers c s" "set irqs \<subseteq> {Rtc_irq}" "make_call irqs c s = Some (v, irqs', s')"
  shows "inside n s s'"
proof (cases c)
  case Read
  then show ?thesis using assms(4-6) read_inside [OF assms(1,2)] by (auto simp: user_calls)
next
  case Write
  then show ?thesis using assms(4-6) write_inside [OF assms(1)] by (auto simp: user_calls)
next
  case Open
  then show ?thesis using assms(4-6) open_inside [OF assms(2)] by (auto simp: user_calls)
next
  case Close
  then show ?thesis using assms(4-6) close_inside by (auto simp: user_calls)
next
  case Getargs
  then show ?thesis using assms(4-6) getargs_inside [OF assms(1,3)] by (auto simp: user_calls)
next
  case Vidmap
  then show ?thesis using assms(4-6) vidmap_inside [OF assms(1)] by (auto simp: user_calls)
qed

text \<open>
  What a program does: calls with its own buffers, and stores in its own page. While a call waits,
  the clock may interrupt; what the keyboard does then are other theorems.
\<close>

inductive program_runs :: "'a proc_state_scheme \<Rightarrow> 'a proc_state_scheme \<Rightarrow> bool" where
  runs_start: "program_runs s s"
| runs_call: "program_runs s s1 \<Longrightarrow> own_buffers c s1 \<Longrightarrow> set irqs \<subseteq> {Rtc_irq} \<Longrightarrow>
    make_call irqs c s1 = Some (v, irqs', s2) \<Longrightarrow> program_runs s s2"
| runs_store: "program_runs s s1 \<Longrightarrow> user_addr a \<Longrightarrow> ust8 a b s1 = Some s2 \<Longrightarrow> program_runs s s2"

lemma store_inside:
  fixes s :: "'a proc_state_scheme"
  assumes "ust8 a v s = Some s'" "user_addr a"
  shows "inside n s s'"
proof (rule insideI)
  fix con assume r: "running n con s"
  then have "touches n {a} s s'" using ust8_touches [of n s a v] assms by (auto simp: running_def)
  then show "\<exists>con'. running n con' s' \<and> user_effect n {a} s s'"
    using running_touches [OF r] assms(2) by blast
qed (use assms in simp)

lemma effect_argument:
  assumes "user_effect n B s s'"
  shows "length (arg (pcb_at s' (own_loc s'))) = length (arg (pcb_at s (own_loc s)))"
proof -
  have u: "undisturbed s s'" using assms by (simp add: user_effect_def)
  then have "(pcb_at s' (own_loc s))\<lparr>file_descs := []\<rparr> = (pcb_at s (own_loc s))\<lparr>file_descs := []\<rparr>"
    by (simp add: undisturbed_def)
  then have "arg (pcb_at s' (own_loc s)) = arg (pcb_at s (own_loc s))" by (metis pcb.select_convs(9) pcb.surjective pcb.update_convs(1))
  then show ?thesis using undisturbed_own_loc [OF u] by simp
qed

lemma program_runs_inside:
  fixes s :: "'a proc_state_scheme"
  assumes "program_runs s s'" "running n con s" "module_directory s es" "length (arg (pcb_at s (own_loc s))) = 128"
  shows "inside n s s'"
  using assms
proof (induction rule: program_runs.induct)
  case runs_start
  show ?case by (rule ins.eff_refl)
next
  case (runs_call s s1 c irqs v irqs' s2)
  note i = runs_call.IH [OF runs_call.prems]
  then obtain con' where r: "running n con' s1" and ue: "user_effect n {a. user_addr a} s s1"
    using runs_call.prems(1) unfolding inside_def by blast
  have u: "user_page n s" using runs_call.prems(1) by (simp add: running_def)
  have "inside n s1 s2"
    using effect_directory [OF ue u runs_call.prems(2)] effect_argument [OF ue] runs_call
    by (intro make_call_inside [OF r]) simp_all
  with i show ?case by (rule ins.eff_trans)
next
  case (runs_store s s1 a b s2)
  then show ?case using store_inside ins.eff_trans by blast
qed

section \<open>What the calls promise\<close>

text \<open>
  C6. A program that passes its own buffers stays in its page: whatever sequence of the calls read,
  write, open, close, getargs and vidmap it makes, and whatever it stores in its page in between,
  the page directory, the page tables (but for entry 0 of the window), the interrupt table, the
  process table, the task state segment and the control blocks of the other processes stay as they
  are, of its own control block only the descriptors change, and they stay well-formed; and every
  byte of memory above 4 MB outside its page keeps its value: the kernel's page, where the code
  keeps those objects, and the pages of the other processes. What is asked of the program:
  \<open>own_buffers\<close>, as the calls do not check their pointers (a buffer lies in the program's page, with
  room for the byte that \<open>sys_getargs\<close> and the 33 that \<open>dir_read\<close> clear; files are read within their
  blocks or behind their end; a name to open ends somewhere). While a call waits, only the clock
  interrupts.
\<close>

theorem calls_stay_inside:
  fixes s :: "'a proc_state_scheme"
  assumes "program_runs s s'" "running n con s" "module_directory s es"
    and "length (arg (pcb_at s (own_loc s))) = 128"
  shows "undisturbed s s' \<and> table_ok (own_table s') \<and> user_page n s' \<and>
    (\<forall>p. 0x400000 \<le> unat p \<and> (\<forall>a. user_addr a \<longrightarrow> p \<noteq> cell_of n a) \<longrightarrow> phys s' p = phys s p)"
proof -
  obtain con' where r: "running n con' s'" and ue: "user_effect n {a. user_addr a} s s'"
    using program_runs_inside [OF assms] assms(2) unfolding inside_def by blast
  have "phys s' p = phys s p" if p: "0x400000 \<le> unat p" "\<forall>a. user_addr a \<longrightarrow> p \<noteq> cell_of n a" for p
  proof (cases "unat p < 0x800000")
    case True
    then have "region p = 1" using kernel_region [of "unat p"] p(1) by simp
    then show ?thesis using ue by (simp add: user_effect_def)
  next
    case False
    then show ?thesis using ue p(2) by (simp add: user_effect_def)
  qed
  then show ?thesis using r ue by (auto simp: running_def user_effect_def)
qed

text \<open>The demonstration program opens the file \<open>sh\<close> of the module.\<close>

lemma demo_opens:
  "short_lits [''sh'']" "running 1 demo_screen (demo_user [''sh''] demo_pcb)"
  "\<exists>s1. ece391_open irq (demo_lit [''sh''] ''sh'') irqs (demo_user [''sh''] demo_pcb) = Some (2, irqs, s1) \<and>
    running 1 demo_screen s1 \<and> user_effect 1 {} (demo_user [''sh''] demo_pcb) s1 \<and>
    own_table s1 ! 2 = \<lparr>fot_ptr = File_fot, inode = 0, file_position = 0, flags = 1\<rparr> \<and>
    module_file (ld8 s1) (boot_block s1) 0 1 [0] demo_block 40"
proof -
  let ?s = "demo_user [''sh''] demo_pcb" and ?a = "demo_lit [''sh''] ''sh''"
  show sl: "short_lits [''sh'']" by (auto simp: short_lits_def chars_def)
  show r: "running 1 demo_screen ?s" using sl demo_table by (rule demo_user_running)
  have l: "in_program ?a (Suc (length (chars ''sh'')))" "cstr_at (uld8 ?s) ?a (chars ''sh'')"
    using demo_user_lit [OF sl, of "''sh''" demo_pcb] by (simp_all add: lit_at_def)
  have md: "module_directory ?s [demo_entry [46] 1 0, demo_entry [115, 104] 2 0]" using sl by (rule demo_user_directory)
  have dir: "directory (ld8 ?s) (boot_block ?s) [demo_entry [46] 1 0, demo_entry [115, 104] 2 0]"
    "length (stack_junk ?s) = 64"
    using md by (simp_all only: module_directory_def)
  obtain s1 where s1: "ece391_open irq ?a irqs ?s = Some (of_nat 2, irqs, s1)" "running 1 demo_screen s1"
    "user_effect 1 {} ?s s1" "own_table s1 = (own_table ?s)[2 := opened (demo_entry [115, 104] 2 0)]"
    using open_returns [OF r dir l, of "demo_entry [115, 104] 2 0" 2 irq irqs] by (auto simp: demo_enames chars_def)
  have "module_file (ld8 s1) (boot_block s1) 0 1 [0] demo_block 40"
    using effect_file [OF s1(3) demo_user_page demo_user_file [OF sl]] .
  moreover have "length (file_descs demo_pcb) = 8" by (simp add: demo_pcb_def)
  ultimately show "\<exists>s1. ece391_open irq ?a irqs ?s = Some (2, irqs, s1) \<and>
    running 1 demo_screen s1 \<and> user_effect 1 {} ?s s1 \<and>
    own_table s1 ! 2 = \<lparr>fot_ptr = File_fot, inode = 0, file_position = 0, flags = 1\<rparr> \<and>
    module_file (ld8 s1) (boot_block s1) 0 1 [0] demo_block 40"
    using s1 by (auto simp: opened_def demo_entry_fields)
qed

lemma demo_block_length: "length demo_block = 4096"
  by (simp add: demo_block_def)

lemma demo_block_head: "take 4 demo_block = [0x7F, 0x45, 0x4C, 0x46]"
proof -
  have "bytes_at (\<lambda>a. Some (image_bytes sys_image a)) 0x502000 demo_elf"
    unfolding sys_image_def demo_entry_def demo_elf_def by (intro image_tail image_head; simp)
  then have "image_bytes sys_image (0x502000 + of_nat i) = demo_elf ! i" if "i < 4" for i
    using that bytes_at_nth by (fastforce simp: demo_elf_def)
  moreover have "length demo_elf = 40" by (simp add: demo_elf_def)
  ultimately have "take 4 demo_block = take 4 demo_elf"
    by (intro nth_equalityI) (simp_all add: demo_block_def)
  then show ?thesis by (simp add: demo_elf_def)
qed

theorem calls_stay_inside_witness:
  "\<exists>s'. program_runs (demo_user [''sh''] demo_pcb) s' \<and> bytes_at (uld8 s') 0x8050000 [0x7F, 0x45, 0x4C, 0x46] \<and>
     undisturbed (demo_user [''sh''] demo_pcb) s' \<and> table_ok (own_table s') \<and> phys s' 0x7FC000 = 0"
proof -
  let ?s = "demo_user [''sh''] demo_pcb" and ?a = "demo_lit [''sh''] ''sh''"
  obtain s1 where o: "ece391_open service ?a [] ?s = Some (2, [], s1)" "running 1 demo_screen s1"
    and d: "own_table s1 ! 2 = \<lparr>fot_ptr = File_fot, inode = 0, file_position = 0, flags = 1\<rparr>"
    and f: "module_file (ld8 s1) (boot_block s1) 0 1 [0] demo_block 40"
    using demo_opens(3) by blast
  have b: "in_program 0x8050000 4" by (simp add: in_program_def)
  have f': "module_file (ld8 s1) (boot_block s1) (inode (own_table s1 ! 2)) 1 [0] demo_block 40" by (simp add: d f)
  obtain s2 where s2: "ece391_read service (of_nat 2) 0x8050000 (of_nat 4) [] s1 = Some (of_nat 4, [], s2)"
    "bytes_at (uld8 s2) 0x8050000 (take 4 (drop (unat (file_position (own_table s1 ! 2))) demo_block))"
    using read_file_returns [OF o(2) _ refl _ _ f' b, of service "[]"] by (auto simp: d demo_block_def)
  have "cstr_at (ld8 ?s) ?a (chars ''sh'')"
    using demo_user_lit [OF demo_opens(1), of "''sh''" demo_pcb]
      user_cstr [OF demo_user_page, of ?a "chars ''sh''" "[''sh'']" demo_pcb] by (simp add: lit_at_def)
  then have "program_runs ?s s1"
    using runs_call [OF runs_start, of "Open ?a" ?s "[]"] o(1) by auto
  moreover have "reads_own 2 0x8050000 4 s1"
  proof -
    have "\<exists>c blks bs l. module_file (ld8 s1) (boot_block s1) 0 c blks bs l \<and> (unat l = 0 \<or> 4 \<le> length bs)"
      using f demo_block_length
      by (intro exI [of _ 1] exI [of _ "[0]"] exI [of _ demo_block] exI [of _ 40]) simp
    then show ?thesis using b by (simp add: reads_own_def d)
  qed
  ultimately have p: "program_runs ?s s2"
    using runs_call [of ?s s1 "Read 2 0x8050000 4" "[]"] s2(1) by simp
  have "length (arg (pcb_at ?s (own_loc ?s))) = 128" by (simp add: demo_pcb_def)
  from calls_stay_inside [OF p demo_opens(2) demo_user_directory [OF demo_opens(1)] this]
  have c: "undisturbed ?s s2" "table_ok (own_table s2)"
    "\<forall>p. 0x400000 \<le> unat p \<and> (\<forall>a. user_addr a \<longrightarrow> p \<noteq> cell_of 1 a) \<longrightarrow> phys s2 p = phys ?s p" by blast+
  have "(0x7FC000 :: u32) \<noteq> cell_of 1 a" if "user_addr a" for a
    using cell_of_high [of 1 a] that by auto
  then have "phys s2 0x7FC000 = image_bytes (user_image [''sh'']) 0x7FC000" using c(3) by simp
  also have "\<dots> = image_bytes sys_image 0x7FC000" using demo_opens(1) by (rule user_image_low) simp
  also have "\<dots> = 0" by (simp add: sys_image_def image_bytes_def demo_entry_def demo_elf_def)
  finally show ?thesis using p c(1,2) s2(2) demo_block_head by (auto simp: d)
qed

text \<open>
  C20. \<open>read_data\<close> within a file, into a buffer of the program, copies the requested bytes of the
  file across its blocks, answers their number and changes no other byte of memory.
\<close>

theorem read_data_copies:
  fixes s :: "'a proc_state_scheme"
  assumes "user_page n s" "module_file (ld8 s) (boot_block s) ino c blks bs l" "in_program buf k"
    and "unat off < unat l" "unat off + k \<le> unat l"
  shows "\<exists>s'. read_data ld8 st8 (boot_block s) ino off buf (of_nat k) s = Some (of_nat k, s') \<and>
    bytes_at (uld8 s') buf (take k (drop (unat off) bs)) \<and> touches n (span buf k) s s'"
proof -
  let ?bs = "take k (drop (unat off) bs)"
  have k: "unat (of_nat k :: u32) = k" using assms(3) by (intro unat_of_nat_u32) (simp add: in_program_def)
  have f: "file_at (ld8 s) (boot_block s) (inode_address (boot_block s) ino) c blks bs"
    "inode_length (ld8 s) (inode_address (boot_block s) ino) = Some l" "unat l \<le> length bs"
    using assms(2) by (simp_all add: module_file_def)
  have len: "length ?bs = k" using assms(5) f(3) by simp
  have kept: "kmem.kept s buf (unat (of_nat k :: u32))
      (\<lambda>m. file_at (ld8 m) (boot_block s) (inode_address (boot_block s) ino) c blks bs)"
    unfolding k by (rule kmem.kept_file [OF f(1) module_file_apart [OF assms(2,1,3)]])
  obtain s' where s': "read_data ld8 st8 (boot_block s) ino off buf (of_nat k) s = Some (of_nat k, s')"
    "mem_stored s buf ?bs s'"
    using kmem.read_data_stored [OF kept f(2), of off] user_range [OF assms(1,3), of Supervisor] assms(4,5) f(3) k
    by (auto simp: word_less_nat_alt)
  have t: "touches n (span buf k) s s'" using stored_touches [OF s'(2) assms(1)] assms(3) len by simp
  have "n < 6" using assms(1) by (simp add: user_page_def)
  with t have "user_effect n (span buf k) s s'" by (rule touches_effect) (rule span_in_program [OF assms(3)])
  then have "user_page n s'" using assms(1) by (rule effect_page)
  then have "bytes_at (uld8 s') buf ?bs"
    using user_bytes [of n s' buf ?bs] assms(3) s'(2) len by (simp add: stored_def)
  then show ?thesis using s'(1) t by blast
qed

theorem read_data_copies_witness:
  "\<exists>s'. read_data ld8 st8 0x500000 0 24 0x8050000 4 (demo_user [''sh''] demo_pcb) = Some (4, s') \<and>
     bytes_at (uld8 s') 0x8050000 (take 4 (drop 24 demo_block))"
proof -
  have "in_program 0x8050000 4" by (simp add: in_program_def)
  from read_data_copies [OF demo_user_page demo_user_file [OF demo_opens(1)] this, of 24]
  show ?thesis by auto
qed

text \<open>
  C24. \<open>sys_read\<close> on a descriptor open on a file, with a buffer in the program's page and the bytes
  asked for within the file, succeeds and delivers the next bytes of the file, moves the position of
  that descriptor by their number, and changes no other memory, table, descriptor or control block.
\<close>

theorem file_read_delivers:
  fixes s :: "'a proc_state_scheme"
  assumes "running n con s" "i \<in> {2..<8}" "own_table s ! i = d" "fot_ptr d = File_fot" "flags d = 1"
    and "module_file (ld8 s) (boot_block s) (inode d) c blks bs l" "in_program buf k"
    and "unat (file_position d) < unat l" "unat (file_position d) + k \<le> unat l"
  shows "\<exists>v s'. sys_read irq irqs (of_nat i) buf (of_nat k) s = Some (v, irqs, s') \<and> v \<noteq> -1 \<and>
    bytes_at (uld8 s') buf (take k (drop (unat (file_position d)) bs)) \<and>
    own_table s' = (own_table s)[i := d\<lparr>file_position := file_position d + of_nat k\<rparr>] \<and>
    user_effect n (span buf k) s s' \<and> only_cells n (span buf k) s s' \<and> running n con s'"
proof -
  have "unat l \<le> length bs" using assms(6) by (simp add: module_file_def)
  then have "unat (file_position d) + k \<le> length bs" using assms(9) by simp
  note r = read_file_memory [OF assms(1-8) this, where irq = irq and irqs = irqs]
  have "(of_nat k :: i32) \<noteq> -1" using assms(7) by (intro count_not_error) (simp add: in_program_def)
  with r show ?thesis by (auto simp: user_calls)
qed

theorem file_read_delivers_witness:
  "\<exists>s v s'. running 1 demo_screen (s :: proc_state) \<and> sys_read service [] 2 0x8050000 4 s = Some (v, [], s') \<and> v \<noteq> -1 \<and>
     bytes_at (uld8 s') 0x8050000 [0x7F, 0x45, 0x4C, 0x46] \<and> file_position (own_table s' ! 2) = 4"
proof -
  obtain s1 :: proc_state where r: "running 1 demo_screen s1"
    and d: "own_table s1 ! 2 = \<lparr>fot_ptr = File_fot, inode = 0, file_position = 0, flags = 1\<rparr>"
    and f: "module_file (ld8 s1) (boot_block s1) 0 1 [0] demo_block 40"
    using demo_opens(3) [of service "[]"] by blast
  have b: "in_program 0x8050000 4" by (simp add: in_program_def)
  have f': "module_file (ld8 s1) (boot_block s1) (inode (own_table s1 ! 2)) 1 [0] demo_block 40" by (simp add: d f)
  have "length (own_table s1) = 8" using r by (simp add: running_def table_ok_def)
  moreover obtain v s' where "sys_read service [] (of_nat 2) 0x8050000 (of_nat 4) s1 = Some (v, [], s')" "v \<noteq> -1"
    "bytes_at (uld8 s') 0x8050000 (take 4 (drop (unat (file_position (own_table s1 ! 2))) demo_block))"
    "own_table s' = (own_table s1)[2 := (own_table s1 ! 2)\<lparr>file_position := file_position (own_table s1 ! 2) + of_nat 4\<rparr>]"
    using file_read_delivers [OF r _ refl _ _ f' b, of service "[]"] by (auto simp: d)
  ultimately show ?thesis using r demo_block_head by (intro exI [of _ s1] exI [of _ v] exI [of _ s']) (simp add: d)
qed

text \<open>
  C26. \<open>sys_getargs\<close>, with a buffer longer than the argument and in the program's page, succeeds and
  leaves the argument string, terminated, in it; it changes no memory above 4 MB outside the buffer,
  no table and no control block. The code clears one byte more than it is given, up to 129, and that one has to be the program's too.
\<close>

theorem getargs_delivers:
  fixes s :: "'a proc_state_scheme"
  assumes r: "running n con s" and g: "argument_is s cs" and k: "length cs < k" "k < 2 ^ 31"
    and b: "in_program buf (min 128 k + 1)"
  shows "\<exists>s'. sys_getargs buf (of_nat k) s = Some (0, s') \<and> cstr_at (uld8 s') buf cs \<and>
    user_effect n (span buf (min 128 k + 1)) s s' \<and> running n con s'"
proof -
  have u: "user_page n s" using r by (simp add: running_def)
  have nz: "buf \<noteq> 0" using b by (auto simp: in_program_def)
  let ?bs = "take (min 128 k) (arg (pcb_at s (own_loc s))) @ [0]"
  obtain s' where s': "sys_getargs buf (of_nat k) s = Some (0, s')" "mem_stored s buf ?bs s'" "cstr_at (ld8 s') buf cs"
    using sys_getargs_copies [of s _ cs k buf] g k nz user_range [OF u b, of Supervisor] unfolding argument_is_def by auto
  have len: "length ?bs = min 128 k + 1" using g by (simp add: argument_is_def)
  have t: "touches n (span buf (min 128 k + 1)) s s'" using stored_touches [OF s'(2) u] b unfolding len by simp
  note R = running_touches [OF r t span_in_program [OF b]]
  have "length cs + 1 \<le> min 128 k + 1" using g k by (simp add: argument_is_def)
  then have "cstr_at (uld8 s') buf cs"
    using user_cstr [OF effect_page [OF R(2) u], of buf cs] s'(3) in_program_take [OF b] by blast
  then show ?thesis using s'(1) R by blast
qed

theorem getargs_delivers_witness:
  "\<exists>s'. sys_getargs 0x8050000 3 (demo_user [''sh''] (demo_pcb\<lparr>arg := [97, 98] @ replicate 126 0, arg_size := 2\<rparr>)) =
      Some (0, s') \<and> cstr_at (uld8 s') 0x8050000 [97, 98]"
proof -
  let ?p = "demo_pcb\<lparr>arg := [97, 98] @ replicate 126 0, arg_size := 2\<rparr>"
  have "running 1 demo_screen (demo_user [''sh''] ?p)"
    using demo_opens(1) demo_table by (intro demo_user_running) simp_all
  moreover have "argument_is (demo_user [''sh''] ?p) [97, 98]" by (simp add: argument_is_def)
  moreover have "in_program 0x8050000 (min 128 3 + 1)" by (simp add: in_program_def)
  ultimately have "\<exists>s'. sys_getargs 0x8050000 (of_nat 3) (demo_user [''sh''] ?p) = Some (0, s') \<and>
      cstr_at (uld8 s') 0x8050000 [97, 98]"
    using getargs_delivers [of 1 demo_screen _ "[97, 98]" 3 "0x8050000"] by fastforce
  then show ?thesis by simp
qed

text \<open>
  C25. \<open>sys_vidmap\<close> with an address in the program's page writes into the first entry of the table
  for one gigabyte the frame of the caller's own terminal, for user access: the display when that
  terminal is shown, its backing page otherwise; it stores the address one gigabyte where it was
  asked to, and changes no other entry of a table and no other memory above 4 MB. An address below
  128 MB or above 132 MB is refused without effect. (The processor uses the entry when its
  translation of the page is not cached; \<open>sys_vidmap\<close> does not reload CR3.)
\<close>

theorem vidmap_enters_own_terminal:
  fixes s :: "'a proc_state_scheme"
  assumes r: "running n con s" and t: "term_number (pcb_at s (own_loc s)) = t" "t < 3"
  shows "(in_program a 4 \<longrightarrow> (\<exists>s'. sys_vidmap a s = Some (ONE_GIG, s') \<and> ld32 (uld8 s') a = Some ONE_GIG \<and>
      page_table_vid s' = (page_table_vid s)(0 := frame_for s (unat t) OR 7) \<and>
      user_effect n (span a 4) s s' \<and> running n con s')) \<and>
    (\<not> (OTE_MB \<le> a \<and> a \<le> OTE_MB + MB_4) \<longrightarrow> sys_vidmap a s = Some (-1, s))"
proof (intro conjI impI)
  assume a: "in_program a 4"
  let ?s1 = "s\<lparr>page_table_vid := (page_table_vid s)(0 := frame_for s (unat t) OR 7)\<rparr>"
  have r1: "running n con ?s1"
    using r by (auto simp: running_def console_def video_ok_def linked_def page_bytes_def frame_for_def
        user_page_def kernel_mapped_def own_table_def get_process_number_def split: prod.splits)
  then have u1: "user_page n ?s1" by (simp add: running_def)
  have len: "length (le_bytes ONE_GIG) = 4" by simp
  obtain s2 where s2: "write_bytes st8 a (le_bytes ONE_GIG) ?s1 = Some s2" "mem_stored ?s1 a (le_bytes ONE_GIG) s2"
    using kmem.write_bytes_stored [of ?s1 a "le_bytes ONE_GIG"] user_range [OF u1 a, of Supervisor] unfolding len by blast
  have tc: "touches n (span a 4) ?s1 s2" using stored_touches [OF s2(2) u1] a unfolding len by blast
  note R = running_touches [OF r1 tc span_in_program [OF a]]
  have "user_effect n {} s ?s1" by (simp add: user_effect_def undisturbed_def)
  then have ue: "user_effect n (span a 4) s s2" using R(2) user_effect_step [of n "{}" s ?s1] by simp
  have "(if get_cur_term s \<noteq> t
        then s\<lparr>page_table_vid := (page_table_vid s)(0 :=
          (VIM_MEM_INDEX + FOUR_KB * (ucast t + 1)) OR RW OR PRESENT OR USER)\<rparr>
        else s\<lparr>page_table_vid := (page_table_vid s)(0 := VIM_MEM_INDEX OR RW OR PRESENT OR USER)\<rparr>) = ?s1"
  proof -
    have "(ucast t :: u32) = of_nat (unat t)" by simp
    then show ?thesis
      by (auto simp: get_cur_term_def frame_for_def or.assoc algebra_simps dest: unat_eqD)
  qed
  moreover have "OTE_MB \<le> a" "a \<le> OTE_MB + MB_4"
    using a by (simp_all add: in_program_def word_le_nat_alt)
  ultimately have "sys_vidmap a s = Some (ONE_GIG, s2)"
    using t(1) s2(1) by (simp add: sys_vidmap_def Let_def not_less)
  moreover have "ld32 (uld8 s2) a = Some ONE_GIG"
    using ld32_bytes_at user_bytes [OF effect_page [OF R(2) u1], of a "le_bytes ONE_GIG"] s2(2) a
    unfolding len by (auto simp: stored_def)
  moreover obtain q where "s2 = ?s1\<lparr>phys := q\<rparr>" using tc by (auto simp: touches_def)
  ultimately show "\<exists>s'. sys_vidmap a s = Some (ONE_GIG, s') \<and> ld32 (uld8 s') a = Some ONE_GIG \<and>
      page_table_vid s' = (page_table_vid s)(0 := frame_for s (unat t) OR 7) \<and>
      user_effect n (span a 4) s s' \<and> running n con s'"
    using ue R(1) by auto
next
  assume "\<not> (OTE_MB \<le> a \<and> a \<le> OTE_MB + MB_4)"
  then show "sys_vidmap a s = Some (-1, s)" by (auto simp: sys_vidmap_def not_le not_less)
qed

theorem vidmap_enters_own_terminal_witness:
  "\<exists>s'. sys_vidmap 0x8050000 (demo_user [''sh''] demo_pcb) = Some (ONE_GIG, s') \<and>
     ld32 (uld8 s') 0x8050000 = Some ONE_GIG \<and> page_table_vid s' 0 = 0xB8007 \<and>
     sys_vidmap 0x500000 (demo_user [''sh''] demo_pcb) = Some (-1, demo_user [''sh''] demo_pcb)"
proof -
  have t: "term_number (pcb_at (demo_user [''sh''] demo_pcb) (own_loc (demo_user [''sh''] demo_pcb))) = 1"
    by (simp add: demo_pcb_def)
  have a: "in_program 0x8050000 4" by (simp add: in_program_def)
  have "\<not> (OTE_MB \<le> (0x500000 :: u32) \<and> (0x500000 :: u32) \<le> OTE_MB + MB_4)" by simp
  moreover have "frame_for (demo_user [''sh''] demo_pcb) (unat (1 :: u8)) OR 7 = 0xB8007" by (simp add: frame_for_def)
  ultimately show ?thesis
    using vidmap_enters_own_terminal [OF demo_opens(2) t, of "0x8050000"]
      vidmap_enters_own_terminal [OF demo_opens(2) t, of "0x500000"] a by fastforce
qed

end
