(* ===== verification/Blink.thy ===== *)
theory Blink
  imports Userland
begin

text \<open>
  The module \<open>blink.S\<close> of the program \<open>fish\<close>: a linked list of blinking characters, drawn in the
  program's view of its screen; and the routines of \<open>fish.c\<close> that it calls. The code is written over
  any memory; what its stores do is proved here in the locale \<open>memory\<close>.
\<close>

section \<open>blink.h and fish.c\<close>

text \<open>One blinking character; \<open>next\<close>, the link, is left out and follows the other fields in memory.\<close>

record mp1_blink_struct =
  location :: u16
  on_char :: u8
  off_char :: u8
  on_length :: u16
  off_length :: u16
  countdown :: u16
  status :: u16

text \<open>Where the linker puts the variables of the program.\<close>

record fish_vars =
  mp1_list_head :: u32
  blink_array :: u32
  vmem_base_addr :: u32

abbreviation (input) "LOCATION \<equiv> (0 :: u32)"
abbreviation (input) "ON_CHAR \<equiv> (2 :: u32)"
abbreviation (input) "OFF_CHAR \<equiv> (3 :: u32)"
abbreviation (input) "ON_LENGTH \<equiv> (4 :: u32)"
abbreviation (input) "OFF_LENGTH \<equiv> (6 :: u32)"
abbreviation (input) "COUNTDOWN \<equiv> (8 :: u32)"
abbreviation (input) "STATUS \<equiv> (10 :: u32)"
abbreviation (input) "NEXT \<equiv> (12 :: u32)"
abbreviation (input) "STRUCT_SIZE \<equiv> (16 :: i32)"

definition ld16 :: "(u32 \<Rightarrow> u8 option) \<Rightarrow> u32 \<Rightarrow> u16 option" where
  "ld16 r a = do { b0 \<leftarrow> r a; b1 \<leftarrow> r (a + 1); Some (ucast b0 OR push_bit 8 (ucast b1)) }"

definition st16 :: "(u32 \<Rightarrow> u8 \<Rightarrow> 'm \<Rightarrow> 'm option) \<Rightarrow> u32 \<Rightarrow> u16 \<Rightarrow> 'm \<Rightarrow> 'm option" where
  "st16 st a v = write_bytes st a [ucast v, ucast (drop_bit 8 v)]"

definition st32 :: "(u32 \<Rightarrow> u8 \<Rightarrow> 'm \<Rightarrow> 'm option) \<Rightarrow> u32 \<Rightarrow> u32 \<Rightarrow> 'm \<Rightarrow> 'm option" where
  "st32 st a v = write_bytes st a (le_bytes v)"

definition ece391_memset :: "(u32 \<Rightarrow> u8 \<Rightarrow> 'm \<Rightarrow> 'm option) \<Rightarrow> u32 \<Rightarrow> u8 \<Rightarrow> i32 \<Rightarrow> 'm \<Rightarrow> 'm option" where
  "ece391_memset st mem c n = for_each (\<lambda>i. st (mem + of_nat i) c) [0..<nat (sint n)]"

definition ece391_memcpy ::
  "('m \<Rightarrow> u32 \<Rightarrow> u8 option) \<Rightarrow> (u32 \<Rightarrow> u8 \<Rightarrow> 'm \<Rightarrow> 'm option) \<Rightarrow> u32 \<Rightarrow> u32 \<Rightarrow> i32 \<Rightarrow> 'm \<Rightarrow> (i32 \<times> 'm) option" where
  "ece391_memcpy ld st dest src n m = do {
     m \<leftarrow> for_each (\<lambda>i m. do { c \<leftarrow> ld m (src + of_nat i); st (dest + of_nat i) c m }) [0..<nat (sint n)] m;
     Some (0, m)
   }"

text \<open>The first element of \<open>blink_array\<close> at location 0.\<close>

primrec mp1_malloc_scan :: "(u32 \<Rightarrow> u8 option) \<Rightarrow> u32 \<Rightarrow> nat list \<Rightarrow> u32 option" where
  "mp1_malloc_scan r arr [] = Some 0"
| "mp1_malloc_scan r arr (i # is) = do {
     l \<leftarrow> ld16 r (arr + of_nat (16 * i) + LOCATION);
     if l = 0 then Some (arr + of_nat (16 * i)) else mp1_malloc_scan r arr is
   }"

definition mp1_malloc :: "(u32 \<Rightarrow> u8 option) \<Rightarrow> fish_vars \<Rightarrow> i32 \<Rightarrow> u32 option" where
  "mp1_malloc r f sz = mp1_malloc_scan r (blink_array f) [0..<80 * 25]"

definition mp1_free :: "(u32 \<Rightarrow> u8 \<Rightarrow> 'm \<Rightarrow> 'm option) \<Rightarrow> u32 \<Rightarrow> 'm \<Rightarrow> 'm option" where
  "mp1_free st mem = ece391_memset st mem 0 16"

section \<open>blink.S\<close>

definition mp1_poke ::
  "('m \<Rightarrow> u32 \<Rightarrow> u8 option) \<Rightarrow> (u32 \<Rightarrow> u8 \<Rightarrow> 'm \<Rightarrow> 'm option) \<Rightarrow> fish_vars \<Rightarrow> u8 \<Rightarrow> u32 \<Rightarrow> 'm \<Rightarrow> 'm option" where
  "mp1_poke ld st f cl eax m = do { edx \<leftarrow> ld32 (ld m) (vmem_base_addr f); st (edx + eax) cl m }"

text \<open>An element whose time is up: the other character is drawn for its length.\<close>

definition switch_blink ::
  "('m \<Rightarrow> u32 \<Rightarrow> u8 option) \<Rightarrow> (u32 \<Rightarrow> u8 \<Rightarrow> 'm \<Rightarrow> 'm option) \<Rightarrow> fish_vars \<Rightarrow> u32 \<Rightarrow> 'm \<Rightarrow> 'm option" where
  "switch_blink ld st f ebx m = do {
     l \<leftarrow> ld16 (ld m) (ebx + LOCATION);
     let eax = push_bit 1 (ucast l);
     t \<leftarrow> ld16 (ld m) (ebx + STATUS);
     (dx, m) \<leftarrow> (if t AND 1 \<noteq> 0 then do {
         cl \<leftarrow> ld m (ebx + OFF_CHAR);
         m \<leftarrow> mp1_poke ld st f cl eax m;
         dx \<leftarrow> ld16 (ld m) (ebx + OFF_LENGTH);
         Some (dx, m)
       }
       else do {
         cl \<leftarrow> ld m (ebx + ON_CHAR);
         m \<leftarrow> mp1_poke ld st f cl eax m;
         dx \<leftarrow> ld16 (ld m) (ebx + ON_LENGTH);
         Some (dx, m)
       });
     m \<leftarrow> st16 st (ebx + COUNTDOWN) dx m;
     t \<leftarrow> ld16 (ld m) (ebx + STATUS);
     st16 st (ebx + STATUS) (t XOR 1) m
   }"

definition tasklet_step ::
  "('m \<Rightarrow> u32 \<Rightarrow> u8 option) \<Rightarrow> (u32 \<Rightarrow> u8 \<Rightarrow> 'm \<Rightarrow> 'm option) \<Rightarrow> fish_vars \<Rightarrow> u32 \<Rightarrow> 'm \<Rightarrow> 'm option" where
  "tasklet_step ld st f ebx m = do {
     c \<leftarrow> ld16 (ld m) (ebx + COUNTDOWN);
     m \<leftarrow> st16 st (ebx + COUNTDOWN) (c - 1) m;
     c \<leftarrow> ld16 (ld m) (ebx + COUNTDOWN);
     if 0 <s c then Some m else switch_blink ld st f ebx m
   }"

partial_function (option) tasklet_loop ::
  "('m \<Rightarrow> u32 \<Rightarrow> u8 option) \<Rightarrow> (u32 \<Rightarrow> u8 \<Rightarrow> 'm \<Rightarrow> 'm option) \<Rightarrow> fish_vars \<Rightarrow> u32 \<Rightarrow> 'm \<Rightarrow> 'm option" where
  "tasklet_loop ld st f ebx m =
     (if ebx = 0 then Some m
      else do {
        m \<leftarrow> tasklet_step ld st f ebx m;
        ebx \<leftarrow> ld32 (ld m) (ebx + NEXT);
        tasklet_loop ld st f ebx m
      })"

definition mp1_rtc_tasklet ::
  "('m \<Rightarrow> u32 \<Rightarrow> u8 option) \<Rightarrow> (u32 \<Rightarrow> u8 \<Rightarrow> 'm \<Rightarrow> 'm option) \<Rightarrow> fish_vars \<Rightarrow> 'm \<Rightarrow> 'm option" where
  "mp1_rtc_tasklet ld st f m = do { ebx \<leftarrow> ld32 (ld m) (mp1_list_head f); tasklet_loop ld st f ebx m }"

partial_function (option) find_from :: "(u32 \<Rightarrow> u8 option) \<Rightarrow> u16 \<Rightarrow> u32 \<Rightarrow> u32 option" where
  "find_from r ax ebx =
     (if ebx = 0 then Some 0
      else do {
        l \<leftarrow> ld16 r (ebx + LOCATION);
        if l = ax then Some ebx else do { ebx \<leftarrow> ld32 r (ebx + NEXT); find_from r ax ebx }
      })"

definition mp1_find_helper :: "(u32 \<Rightarrow> u8 option) \<Rightarrow> fish_vars \<Rightarrow> u32 \<Rightarrow> u32 option" where
  "mp1_find_helper r f prm = do { ebx \<leftarrow> ld32 r (mp1_list_head f); find_from r (ucast prm) ebx }"

text \<open>\<open>temp\<close> is the address of the structure (or the two bytes) that a call keeps on its stack.\<close>

definition mp1_ioctl_add where
  "mp1_ioctl_add ld st f temp prm m = do {
     (eax, m) \<leftarrow> ece391_memcpy ld st temp prm STRUCT_SIZE m;
     if eax \<noteq> 0 then Some (-1 :: i32, m) else do {
       l \<leftarrow> ld16 (ld m) (temp + LOCATION);
       if 80 * 25 \<le> l then Some (-1, m) else do {
         m \<leftarrow> st16 st (temp + STATUS) 1 m;
         dx \<leftarrow> ld16 (ld m) (temp + ON_LENGTH);
         m \<leftarrow> st16 st (temp + COUNTDOWN) dx m;
         edx \<leftarrow> mp1_malloc (ld m) f STRUCT_SIZE;
         if edx = 0 then Some (-1, m) else do {
           (_, m) \<leftarrow> ece391_memcpy ld st edx temp STRUCT_SIZE m;
           eax \<leftarrow> ld32 (ld m) (mp1_list_head f);
           m \<leftarrow> st32 st (edx + NEXT) eax m;
           m \<leftarrow> st32 st (mp1_list_head f) edx m;
           l \<leftarrow> ld16 (ld m) (edx + LOCATION);
           cl \<leftarrow> ld m (edx + ON_CHAR);
           m \<leftarrow> mp1_poke ld st f cl (push_bit 1 (ucast l)) m;
           Some (0, m)
         }
       }
     }
   }"

text \<open>Where the pointer to the element \<open>eax\<close> is stored: the head of the list or a link.\<close>

partial_function (option) remove_find_prev :: "(u32 \<Rightarrow> u8 option) \<Rightarrow> u32 \<Rightarrow> u32 \<Rightarrow> u32 option" where
  "remove_find_prev r eax edx = do {
     p \<leftarrow> ld32 r edx;
     if p = eax then Some edx else remove_find_prev r eax (p + NEXT)
   }"

definition mp1_ioctl_remove where
  "mp1_ioctl_remove ld st f prm m = do {
     eax \<leftarrow> mp1_find_helper (ld m) f prm;
     if eax = 0 then Some (-1 :: i32, m) else do {
       edx \<leftarrow> remove_find_prev (ld m) eax (mp1_list_head f);
       ecx \<leftarrow> ld32 (ld m) (eax + NEXT);
       m \<leftarrow> st32 st edx ecx m;
       m \<leftarrow> mp1_free st eax m;
       Some (0, m)
     }
   }"

definition mp1_ioctl_find where
  "mp1_ioctl_find ld st f temp prm m = do {
     (eax, m) \<leftarrow> ece391_memcpy ld st temp prm 2 m;
     if eax \<noteq> 0 then Some (-1 :: i32, m) else do {
       l \<leftarrow> ld16 (ld m) temp;
       eax \<leftarrow> mp1_find_helper (ld m) f (ucast l);
       if eax = 0 then Some (-1, m) else do {
         (eax, m) \<leftarrow> ece391_memcpy ld st prm eax STRUCT_SIZE m;
         if eax = 0 then Some (0, m) else Some (-1, m)
       }
     }
   }"

text \<open>
  \<open>cmovl\<close> looks at the sign and overflow flags; \<open>testb\<close> with 1 clears both (the sign is bit 7 of
  the conjunction).
\<close>

definition sync_char :: "u8 \<Rightarrow> u8 \<Rightarrow> u8 \<Rightarrow> u8" where
  "sync_char t on off = (let sf = bit (t AND 1) 7; of' = False in if sf \<noteq> of' then on else off)"

definition mp1_ioctl_sync where
  "mp1_ioctl_sync ld st f prm m = do {
     esi \<leftarrow> mp1_find_helper (ld m) f (drop_bit 16 prm);
     if esi = 0 then Some (-1 :: i32, m) else do {
       edi \<leftarrow> mp1_find_helper (ld m) f (prm AND 0xFFFF);
       if edi = 0 then Some (-1, m) else do {
         ax \<leftarrow> ld16 (ld m) (esi + ON_LENGTH);
         m \<leftarrow> st16 st (edi + ON_LENGTH) ax m;
         ax \<leftarrow> ld16 (ld m) (esi + OFF_LENGTH);
         m \<leftarrow> st16 st (edi + OFF_LENGTH) ax m;
         ax \<leftarrow> ld16 (ld m) (esi + COUNTDOWN);
         m \<leftarrow> st16 st (edi + COUNTDOWN) ax m;
         ax \<leftarrow> ld16 (ld m) (esi + STATUS);
         m \<leftarrow> st16 st (edi + STATUS) ax m;
         l \<leftarrow> ld16 (ld m) (edi + LOCATION);
         off \<leftarrow> ld m (edi + OFF_CHAR);
         on \<leftarrow> ld m (edi + ON_CHAR);
         t \<leftarrow> ld m (edi + STATUS);
         m \<leftarrow> mp1_poke ld st f (sync_char t on off) (push_bit 1 (ucast l)) m;
         Some (0, m)
       }
     }
   }"

text \<open>\<open>mp1_ioctl\<close> jumps through \<open>call_table\<close>; a command beyond its end jumps anywhere.\<close>

definition mp1_ioctl where
  "mp1_ioctl ld st f temp prm cmd m =
     (if cmd = (0 :: u32) then mp1_ioctl_add ld st f temp prm m
      else if cmd = 1 then mp1_ioctl_remove ld st f prm m
      else if cmd = 2 then mp1_ioctl_find ld st f temp prm m
      else if cmd = 3 then mp1_ioctl_sync ld st f prm m
      else None)"

section \<open>Stores to known addresses\<close>

text \<open>Addresses \<open>A\<close> with storage of their own, and a memory that differs at most on \<open>W\<close> of them.\<close>

definition owns :: "('m \<Rightarrow> u32 \<Rightarrow> 'c option) \<Rightarrow> u32 set \<Rightarrow> 'm \<Rightarrow> bool" where
  "owns cell A m \<longleftrightarrow> inj_on (cell m) A \<and> (\<forall>a \<in> A. cell m a \<noteq> None)"

definition alters ::
  "('m \<Rightarrow> u32 \<Rightarrow> u8 option) \<Rightarrow> ('m \<Rightarrow> 'r) \<Rightarrow> u32 set \<Rightarrow> u32 set \<Rightarrow> 'm \<Rightarrow> 'm \<Rightarrow> bool" where
  "alters ld rest A W m m' \<longleftrightarrow> rest m' = rest m \<and> (\<forall>b \<in> A - W. ld m' b = ld m b)"

interpretation alt: effect "alters ld rest A W" for ld rest A W
  by unfold_locales (auto simp: alters_def)

lemma alters_mono: "alters ld rest A W m m' \<Longrightarrow> W \<subseteq> V \<Longrightarrow> alters ld rest A V m m'"
  by (auto simp: alters_def)

lemma alters_then:
  "alters ld rest A W m m1 \<Longrightarrow> alters ld rest A V m1 m2 \<Longrightarrow> W \<union> V \<subseteq> U \<Longrightarrow> alters ld rest A U m m2"
  by (rule alt.eff_trans [of ld rest A U m m1]) (auto intro: alters_mono)

lemma alters_ld: "alters ld rest A W m m' \<Longrightarrow> b \<in> A \<Longrightarrow> b \<notin> W \<Longrightarrow> ld m' b = ld m b"
  by (simp add: alters_def)

lemma spanI: "j < k \<Longrightarrow> a + of_nat j \<in> span a k"
  by (auto simp: span_def)

lemma span_self: "0 < k \<Longrightarrow> a \<in> span a k"
  using spanI [of 0 k a] by simp

lemma span_2: "span a 2 = {a, a + 1}" and span_4: "span a 4 = {a, a + 1, a + 2, a + 3}"
  by (auto simp: span_def lessThan_Suc numeral_eq_Suc)

lemma span_sub: "j + n \<le> k \<Longrightarrow> span (a + of_nat j) n \<subseteq> span a k"
  using spanI [of "j + i" k a for i] by (auto simp: span_def add.assoc)

lemma ld16_bytes_at: "bytes_at r a [ucast v, ucast (drop_bit 8 v)] \<Longrightarrow> ld16 r a = Some v"
proof -
  have "ucast (ucast v :: u8) OR push_bit 8 (ucast (ucast (drop_bit 8 v) :: u8)) = v"
    by (rule bit_word_eqI) (auto simp: bit_simps)
  then show "bytes_at r a [ucast v, ucast (drop_bit 8 v)] \<Longrightarrow> ld16 r a = Some v"
    by (simp add: ld16_def bytes_at_Cons)
qed

lemma ucast_u16: "ucast (ucast (l :: u16) :: u32) = l"
  by (rule bit_word_eqI) (auto simp: bit_simps)

lemma ld16_cong: "r' a = r a \<Longrightarrow> r' (a + 1) = r (a + 1) \<Longrightarrow> ld16 r' a = ld16 r a"
  by (simp add: ld16_def)

lemma ld16_alters: "alters ld rest A W m m' \<Longrightarrow> span a 2 \<subseteq> A - W \<Longrightarrow> ld16 (ld m') a = ld16 (ld m) a"
  by (intro ld16_cong alters_ld) (auto simp: span_2)

lemma ld32_alters: "alters ld rest A W m m' \<Longrightarrow> span a 4 \<subseteq> A - W \<Longrightarrow> ld32 (ld m') a = ld32 (ld m) a"
  by (simp add: ld32_def span_4 alters_def)

lemma bytes_alters: "alters ld rest A W m m' \<Longrightarrow> span a (length bs) \<subseteq> A - W \<Longrightarrow> bytes_at (ld m') a bs \<longleftrightarrow> bytes_at (ld m) a bs"
  by (auto simp: bytes_at_def span_def alters_def subset_iff)

context memory
begin

lemma owns_alters: "alters ld rest A W m m' \<Longrightarrow> owns cell B m' \<longleftrightarrow> owns cell B m"
  using cell_rest [of m' m] by (simp add: alters_def owns_def)

lemma owns_range:
  assumes "owns cell A m" "span a n \<subseteq> A" "n \<le> 2 ^ 32"
  shows "range_ok cell m a n"
proof -
  have "i = j" if "i < n" "j < n" "cell m (a + of_nat i) = cell m (a + of_nat j)" for i j
  proof -
    have "a + of_nat i \<in> A" "a + of_nat j \<in> A" using that assms(2) spanI by blast+
    then have "a + of_nat i = a + of_nat j" using that(3) assms(1) by (auto simp: owns_def dest: inj_onD)
    then show ?thesis using that assms(3) add_of_nat_eq_u32_iff [of i j a] by simp
  qed
  moreover have "cell m (a + of_nat i) \<noteq> None" if "i < n" for i
    using assms(1,2) spanI [OF that] by (auto simp: owns_def)
  ultimately show ?thesis by (auto simp: range_ok_def)
qed

lemma stored_alters:
  assumes "owns cell A m" "span a (length bs) \<subseteq> A" "stored cell ld rest m a bs m'"
  shows "alters ld rest A (span a (length bs)) m m'"
proof -
  have "outside cell m a (length bs) b" if "b \<in> A" "b \<notin> span a (length bs)" for b
    unfolding outside_def
  proof (intro allI impI notI)
    fix i assume i: "i < length bs" and e: "cell m b = cell m (a + of_nat i)"
    have "a + of_nat i \<in> A" using assms(2) spanI [OF i] by blast
    then have "b = a + of_nat i" using e that(1) assms(1) by (auto simp: owns_def dest: inj_onD)
    then show False using that(2) spanI [OF i] by simp
  qed
  then show ?thesis using assms(3) by (simp add: alters_def stored_def)
qed

lemma write_owned:
  assumes "owns cell A m" "span a (length bs) \<subseteq> A" "length bs \<le> 2 ^ 32"
  shows "\<exists>m'. write_bytes st a bs m = Some m' \<and> bytes_at (ld m') a bs \<and> alters ld rest A (span a (length bs)) m m'"
  using write_bytes_stored [OF owns_range [OF assms]] stored_alters [OF assms(1,2)] by (auto simp: stored_def)

lemma st_owned:
  assumes "owns cell A m" "a \<in> A"
  shows "\<exists>m'. st a v m = Some m' \<and> ld m' a = Some v \<and> alters ld rest A {a} m m'"
  using write_owned [OF assms(1), of a "[v]"] assms(2)
  by (auto simp: span_def bytes_at_Cons Option.bind_eq_Some_conv lessThan_Suc)

lemma st16_owned:
  assumes "owns cell A m" "span a 2 \<subseteq> A"
  shows "\<exists>m'. st16 st a v m = Some m' \<and> ld16 (ld m') a = Some v \<and> alters ld rest A (span a 2) m m'"
proof -
  have "length [ucast v :: u8, ucast (drop_bit 8 v)] = 2" by simp
  then show ?thesis
    using write_owned [OF assms(1), of a "[ucast v, ucast (drop_bit 8 v)]"] assms(2)
    by (auto simp: st16_def dest: ld16_bytes_at simp del: write_bytes.simps list.size)
qed

lemma st32_owned:
  assumes "owns cell A m" "span a 4 \<subseteq> A"
  shows "\<exists>m'. st32 st a v m = Some m' \<and> ld32 (ld m') a = Some v \<and> alters ld rest A (span a 4) m m'"
  using write_owned [OF assms(1), of a "le_bytes v"] assms(2)
  by (auto simp: st32_def dest: ld32_bytes_at)

text \<open>A loop that stores one byte after the other.\<close>

lemma fill_owned:
  assumes o: "owns cell A m" and d: "span d (length bs) \<subseteq> A" and l: "length bs \<le> 2 ^ 32"
    and g: "\<And>i m'. i < length bs \<Longrightarrow> alters ld rest A (span d (length bs)) m m' \<Longrightarrow> g i m' = Some (bs ! i)"
  shows "\<exists>m'. for_each (\<lambda>i m. do { c \<leftarrow> g i m; st (d + of_nat i) c m }) [0..<length bs] m = Some m' \<and>
    bytes_at (ld m') d bs \<and> alters ld rest A (span d (length bs)) m m'"
proof -
  have "\<exists>m'. for_each (\<lambda>i m. do { c \<leftarrow> g i m; st (d + of_nat i) c m }) [0..<k] m = Some m' \<and>
    bytes_at (ld m') d (take k bs) \<and> alters ld rest A (span d (length bs)) m m'" if "k \<le> length bs" for k
    using that
  proof (induction k)
    case 0
    show ?case by (simp add: alt.eff_refl)
  next
    case (Suc k)
    then obtain m1 where m1: "for_each (\<lambda>i m. do { c \<leftarrow> g i m; st (d + of_nat i) c m }) [0..<k] m = Some m1"
      "bytes_at (ld m1) d (take k bs)" "alters ld rest A (span d (length bs)) m m1" by auto
    have k: "k < length bs" "d + of_nat k \<in> A" using Suc.prems d spanI by auto
    obtain m2 where m2: "st (d + of_nat k) (bs ! k) m1 = Some m2" "ld m2 (d + of_nat k) = Some (bs ! k)"
      "alters ld rest A {d + of_nat k} m1 m2"
      using st_owned [OF _ k(2)] o owns_alters [OF m1(3)] by blast
    have "ld m2 (d + of_nat i) = Some (bs ! i)" if "i < k" for i
    proof -
      have "d + of_nat i \<noteq> d + of_nat k" using add_of_nat_eq_u32_iff [of i k d] that k(1) l by simp
      moreover have "d + of_nat i \<in> A" using d that k(1) spanI by auto
      ultimately have "ld m2 (d + of_nat i) = ld m1 (d + of_nat i)" using alters_ld [OF m2(3)] by simp
      then show ?thesis using bytes_at_nth [OF m1(2), of i] that k(1) by simp
    qed
    then have "bytes_at (ld m2) d (take (Suc k) bs)" using m2(2) k(1) by (auto simp: bytes_at_def less_Suc_eq)
    moreover have "alters ld rest A (span d (length bs)) m m2"
      using m1(3) m2(3) by (rule alters_then) (simp add: spanI [OF k(1)])
    ultimately show ?case using m1(1) m2(1) g [OF k(1) m1(3)] by (simp add: for_each_append)
  qed
  from this [of "length bs"] show ?thesis by simp
qed

lemma memcpy_owned:
  assumes o: "owns cell A m" and d: "span d (length bs) \<subseteq> A" and s: "span s (length bs) \<subseteq> A - span d (length bs)"
    and bs: "bytes_at (ld m) s bs" and l: "length bs < 2 ^ 31"
  shows "\<exists>m'. ece391_memcpy ld st d s (of_nat (length bs)) m = Some (0, m') \<and> bytes_at (ld m') d bs \<and>
    alters ld rest A (span d (length bs)) m m'"
proof -
  have "ld m' (s + of_nat i) = Some (bs ! i)" if "i < length bs" "alters ld rest A (span d (length bs)) m m'" for i m'
  proof -
    have "s + of_nat i \<in> A" "s + of_nat i \<notin> span d (length bs)" using s spanI [OF that(1), of s] by auto
    then show ?thesis using alters_ld [OF that(2)] bytes_at_nth [OF bs that(1)] by simp
  qed
  then obtain m' where m': "for_each (\<lambda>i m. do { c \<leftarrow> ld m (s + of_nat i); st (d + of_nat i) c m }) [0..<length bs] m = Some m'"
    "bytes_at (ld m') d bs" "alters ld rest A (span d (length bs)) m m'"
    using fill_owned [OF o d, of "\<lambda>i m. ld m (s + of_nat i)"] l by auto
  have "nat (sint (of_nat (length bs) :: i32)) = length bs" using l by (simp add: sint_of_nat_u32)
  then show ?thesis using m' by (simp add: ece391_memcpy_def)
qed

lemma memset_owned:
  assumes o: "owns cell A m" and d: "span d n \<subseteq> A" and l: "n < 2 ^ 31"
  shows "\<exists>m'. ece391_memset st d c (of_nat n) m = Some m' \<and> bytes_at (ld m') d (replicate n c) \<and> alters ld rest A (span d n) m m'"
  using fill_owned [OF o, of d "replicate n c" "\<lambda>_ _. Some c"] d l
  by (simp add: ece391_memset_def sint_of_nat_u32)

end

end
