(* ===== verification/Blink_Spec.thy ===== *)
theory Blink_Spec
  imports Blink User_Machine
begin

text \<open>
  What \<open>blink.S\<close> does: the calls and the tasklet refine operations on a list of blinking characters
  and a screen. The refinement is proved in the locale \<open>memory\<close> and its extension
  \<open>readable_memory\<close>, and holds of the memory of a program by their interpretations.
\<close>

section \<open>The list in memory\<close>

definition blink_at :: "(u32 \<Rightarrow> u8 option) \<Rightarrow> u32 \<Rightarrow> mp1_blink_struct \<Rightarrow> bool" where
  "blink_at r p b \<longleftrightarrow> ld16 r (p + LOCATION) = Some (location b) \<and> r (p + ON_CHAR) = Some (on_char b) \<and>
     r (p + OFF_CHAR) = Some (off_char b) \<and> ld16 r (p + ON_LENGTH) = Some (on_length b) \<and>
     ld16 r (p + OFF_LENGTH) = Some (off_length b) \<and> ld16 r (p + COUNTDOWN) = Some (countdown b) \<and>
     ld16 r (p + STATUS) = Some (status b)"

text \<open>The elements \<open>ps\<close> are linked in this order, starting with the pointer stored at \<open>e\<close>.\<close>

primrec links :: "(u32 \<Rightarrow> u8 option) \<Rightarrow> u32 \<Rightarrow> u32 list \<Rightarrow> bool" where
  "links r e [] \<longleftrightarrow> ld32 r e = Some 0"
| "links r e (p # ps) \<longleftrightarrow> ld32 r e = Some p \<and> links r (p + NEXT) ps"

definition slot :: "fish_vars \<Rightarrow> nat \<Rightarrow> u32" where
  "slot f i = blink_array f + of_nat (16 * i)"

abbreviation slots :: "fish_vars \<Rightarrow> u32 set" where
  "slots f \<equiv> slot f ` {..<2000}"

text \<open>
  The variables, the structure on the stack and the screen, which begins at \<open>V\<close>, are apart from
  each other in storage of their own.
\<close>

definition fish_layout :: "fish_vars \<Rightarrow> u32 \<Rightarrow> u32 \<Rightarrow> u32 set \<Rightarrow> bool" where
  "fish_layout f V temp A \<longleftrightarrow>
     span (blink_array f) 32000 \<union> span (mp1_list_head f) 4 \<union> span (vmem_base_addr f) 4 \<union> span temp 16 \<union> span V 4000 \<subseteq> A \<and>
     span (blink_array f) 32000 \<inter> (span (mp1_list_head f) 4 \<union> span (vmem_base_addr f) 4 \<union> span temp 16 \<union> span V 4000) = {} \<and>
     span (mp1_list_head f) 4 \<inter> (span (vmem_base_addr f) 4 \<union> span temp 16 \<union> span V 4000) = {} \<and>
     span (vmem_base_addr f) 4 \<inter> (span temp 16 \<union> span V 4000) = {} \<and> span temp 16 \<inter> span V 4000 = {} \<and>
     0 < unat (blink_array f) \<and> unat (blink_array f) + 32000 \<le> 2 ^ 32"

lemma slot_facts:
  assumes l: "fish_layout f V temp A" and p: "p \<in> slots f"
  shows "span p 16 \<subseteq> A" "p \<noteq> 0"
    "span p 16 \<inter> (span (mp1_list_head f) 4 \<union> span (vmem_base_addr f) 4 \<union> span temp 16 \<union> span V 4000) = {}"
    "q \<in> slots f \<Longrightarrow> q \<noteq> p \<Longrightarrow> span q 16 \<inter> span p 16 = {}"
proof -
  obtain i where i: "i < 2000" "p = blink_array f + of_nat (16 * i)" using p by (auto simp: slot_def)
  have s: "span p 16 \<subseteq> span (blink_array f) 32000" unfolding i(2) using i(1) by (intro span_sub) simp
  show "span p 16 \<subseteq> A"
    "span p 16 \<inter> (span (mp1_list_head f) 4 \<union> span (vmem_base_addr f) 4 \<union> span temp 16 \<union> span V 4000) = {}"
    using s l by (auto simp: fish_layout_def)
  have u: "unat (blink_array f + of_nat k) = unat (blink_array f) + k" if "k < 32000" for k
    using that l unat_of_nat_u32 [of "unat (blink_array f) + k"] by (simp add: fish_layout_def)
  show "p \<noteq> 0" using u [of "16 * i"] i l by (auto simp: fish_layout_def)
  show "span q 16 \<inter> span p 16 = {}" if q: "q \<in> slots f" "q \<noteq> p"
  proof (rule ccontr)
    obtain j where j: "j < 2000" "q = blink_array f + of_nat (16 * j)" using q(1) by (auto simp: slot_def)
    assume "span q 16 \<inter> span p 16 \<noteq> {}"
    then obtain k k' where k: "k < 16" "k' < 16" "q + of_nat k = p + of_nat k'" by (auto simp: span_def)
    then have "unat (blink_array f + of_nat (16 * j + k)) = unat (blink_array f + of_nat (16 * i + k'))"
      using i(2) j(2) by (simp add: add.assoc)
    then have "16 * j + k = 16 * i + k'" using u [of "16 * j + k"] u [of "16 * i + k'"] i(1) j(1) k(1,2) by simp
    then have "j = i" using k(1,2) by presburger
    then show False using i(2) j(2) q(2) by simp
  qed
qed

lemma struct_fields:
  "span p 2 \<subseteq> span p 16" "p + 2 \<in> span p 16" "p + 3 \<in> span p 16" "span (p + 4) 2 \<subseteq> span p 16"
  "span (p + 6) 2 \<subseteq> span p 16" "span (p + 8) 2 \<subseteq> span p 16" "span (p + 10) 2 \<subseteq> span p 16" "span (p + 12) 4 \<subseteq> span p 16"
  using span_sub [of 0 2 16 p] span_sub [of 4 2 16 p] span_sub [of 6 2 16 p] span_sub [of 8 2 16 p]
    span_sub [of 10 2 16 p] span_sub [of 12 4 16 p] spanI [of 2 16 p] spanI [of 3 16 p] by simp_all

lemma blink_alters:
  assumes "alters ld rest A W m m'" "span p 16 \<subseteq> A" "span p 16 \<inter> W = {}"
  shows "blink_at (ld m') p b \<longleftrightarrow> blink_at (ld m) p b" "ld32 (ld m') (p + NEXT) = ld32 (ld m) (p + NEXT)"
    "ld16 (ld m') p = ld16 (ld m) p"
proof -
  have s: "span p 16 \<subseteq> A - W" using assms(2,3) by auto
  have f: "span p 2 \<subseteq> A - W" "p + 2 \<in> A" "p + 2 \<notin> W" "p + 3 \<in> A" "p + 3 \<notin> W" "span (p + 4) 2 \<subseteq> A - W"
    "span (p + 6) 2 \<subseteq> A - W" "span (p + 8) 2 \<subseteq> A - W" "span (p + 10) 2 \<subseteq> A - W" "span (p + 12) 4 \<subseteq> A - W"
    using struct_fields [of p] s by blast+
  show "ld32 (ld m') (p + NEXT) = ld32 (ld m) (p + NEXT)" "ld16 (ld m') p = ld16 (ld m) p"
    using assms(1) f by (auto intro: ld32_alters ld16_alters)
  show "blink_at (ld m') p b \<longleftrightarrow> blink_at (ld m) p b"
    using f ld16_alters [OF assms(1)] alters_ld [OF assms(1)] by (simp add: blink_at_def)
qed

lemma blinks_cong:
  "list_all2 (blink_at r) ps bs \<Longrightarrow> (\<And>p b. p \<in> set ps \<Longrightarrow> blink_at r' p b \<longleftrightarrow> blink_at r p b) \<Longrightarrow>
     list_all2 (blink_at r') ps bs"
  by (erule list.rel_mono_strong) simp

lemma links_cong:
  "ld32 r' e' = ld32 r e \<Longrightarrow> (\<And>p. p \<in> set ps \<Longrightarrow> ld32 r' (p + NEXT) = ld32 r (p + NEXT)) \<Longrightarrow> links r' e' ps \<longleftrightarrow> links r e ps"
  by (induction ps arbitrary: e e') simp_all

text \<open>The address at which the pointer to what follows \<open>ps\<close> is stored.\<close>

primrec last_link :: "u32 \<Rightarrow> u32 list \<Rightarrow> u32" where
  "last_link e [] = e"
| "last_link e (p # ps) = last_link (p + NEXT) ps"

lemma last_link_cases: "ps = [] \<and> last_link e ps = e \<or> (\<exists>q \<in> set ps. last_link e ps = q + NEXT)"
proof (induction ps arbitrary: e)
  case (Cons p ps)
  show ?case using Cons.IH [of "p + NEXT"] by auto
qed simp

lemma find_prev_links:
  "links r e (ps @ p # qs) \<Longrightarrow> p \<notin> set ps \<Longrightarrow> remove_find_prev r p e = Some (last_link e ps)"
  by (induction ps arbitrary: e; subst remove_find_prev.simps) auto

lemma links_unlink:
  "links r e (ps @ p # qs) \<Longrightarrow> ld32 r' (last_link e ps) = ld32 r (p + NEXT) \<Longrightarrow>
   (\<And>x. x \<in> insert e ((\<lambda>q. q + NEXT) ` set (ps @ qs)) \<Longrightarrow> x \<noteq> last_link e ps \<Longrightarrow> ld32 r' x = ld32 r x) \<Longrightarrow>
   distinct (e # map (\<lambda>q. q + NEXT) (ps @ qs)) \<Longrightarrow> links r' e (ps @ qs)"
proof (induction ps arbitrary: e)
  case Nil
  then have "links r' e qs \<longleftrightarrow> links r (p + NEXT) qs" by (intro links_cong) auto
  then show ?case using Nil.prems(1) by simp
next
  case (Cons q ps)
  have "e \<noteq> last_link (q + NEXT) ps"
    using last_link_cases [of ps "q + NEXT"] Cons.prems(4) by auto
  then have "ld32 r' e = Some q" using Cons.prems(1,3) by simp
  moreover have "links r' (q + NEXT) (ps @ qs)" using Cons.prems by (intro Cons.IH) auto
  ultimately show ?case by simp
qed

text \<open>The search for the first element at a location.\<close>

definition first_at :: "u16 \<Rightarrow> u32 list \<Rightarrow> mp1_blink_struct list \<Rightarrow> u32" where
  "first_at l ps bs = (case find (\<lambda>(p, b). location b = l) (zip ps bs) of None \<Rightarrow> 0 | Some (p, b) \<Rightarrow> p)"

lemma find_from_links:
  "links r e ps \<Longrightarrow> ld32 r e = Some ebx \<Longrightarrow> list_all2 (blink_at r) ps bs \<Longrightarrow> 0 \<notin> set ps \<Longrightarrow>
   find_from r l ebx = Some (first_at l ps bs)"
proof (induction ps arbitrary: e ebx bs)
  case Nil
  then show ?case by (subst find_from.simps) (simp add: first_at_def)
next
  case (Cons p ps)
  obtain b bs' where bs: "bs = b # bs'" "blink_at r p b" "list_all2 (blink_at r) ps bs'"
    using Cons.prems(3) by (auto simp: list_all2_Cons1)
  have e: "ebx = p" "p \<noteq> 0" and ln: "links r (p + NEXT) ps" using Cons.prems by auto
  obtain nx where nx: "ld32 r (p + NEXT) = Some nx" using ln by (cases ps) auto
  have "find_from r l nx = Some (first_at l ps bs')" using Cons.IH [OF ln nx bs(3)] Cons.prems(4) by simp
  then show ?case using bs(2) e nx
    by (subst find_from.simps) (simp add: first_at_def blink_at_def bs(1))
qed

lemma links_suffix: "links r e (ps @ p # qs) \<Longrightarrow> links r (p + NEXT) qs"
  by (induction ps arbitrary: e) auto

lemma first_at_none: "length ps = length bs \<Longrightarrow> 0 \<notin> set ps \<Longrightarrow> first_at l ps bs = 0 \<longleftrightarrow> (\<forall>b \<in> set bs. location b \<noteq> l)"
proof (induction ps arbitrary: bs)
  case (Cons p ps)
  then show ?case by (cases bs) (auto simp: first_at_def)
qed (simp add: first_at_def)

lemma first_at_split:
  "length ps = length bs \<Longrightarrow> 0 \<notin> set ps \<Longrightarrow> first_at l ps bs \<noteq> 0 \<Longrightarrow>
   \<exists>ps1 ps2 bs1 b bs2. ps = ps1 @ first_at l ps bs # ps2 \<and> bs = bs1 @ b # bs2 \<and> length ps1 = length bs1 \<and>
     location b = l \<and> (\<forall>c \<in> set bs1. location c \<noteq> l)"
proof (induction ps arbitrary: bs)
  case (Cons p ps bs')
  then obtain b bs where bs: "bs' = b # bs" "length ps = length bs" by (cases bs') auto
  show ?case
    unfolding bs(1)
  proof (cases "location b = l")
    case True
    then have "first_at l (p # ps) (b # bs) = p" by (simp add: first_at_def)
    with True show "\<exists>ps1 ps2 bs1 c bs2. p # ps = ps1 @ first_at l (p # ps) (b # bs) # ps2 \<and> b # bs = bs1 @ c # bs2 \<and>
        length ps1 = length bs1 \<and> location c = l \<and> (\<forall>c \<in> set bs1. location c \<noteq> l)"
      by (intro exI [of _ "[]"] exI [of _ ps] exI [of _ "[]"] exI [of _ b] exI [of _ bs]) simp
  next
    case False
    then have f: "first_at l (p # ps) (b # bs) = first_at l ps bs" by (simp add: first_at_def)
    obtain ps1 ps2 bs1 c bs2 where "ps = ps1 @ first_at l ps bs # ps2" "bs = bs1 @ c # bs2" "length ps1 = length bs1"
      "location c = l" "\<forall>c \<in> set bs1. location c \<noteq> l"
      using Cons.IH [OF bs(2)] Cons.prems f by (auto simp: bs(1))
    then show "\<exists>ps1 ps2 bs1 c bs2. p # ps = ps1 @ first_at l (p # ps) (b # bs) # ps2 \<and> b # bs = bs1 @ c # bs2 \<and>
        length ps1 = length bs1 \<and> location c = l \<and> (\<forall>c \<in> set bs1. location c \<noteq> l)"
      unfolding f using False
      by (intro exI [of _ "p # ps1"] exI [of _ ps2] exI [of _ "b # bs1"] exI [of _ c] exI [of _ bs2]) auto
  qed
qed (simp add: first_at_def)

text \<open>Two structures with the same bytes.\<close>

lemma bytes_blink:
  assumes "bytes_at r p raw" "bytes_at r' q raw" "length raw = 16"
  shows "blink_at r' q b \<longleftrightarrow> blink_at r p b"
proof -
  have "r' (q + of_nat i) = r (p + of_nat i)" if "i < 16" for i
    using assms that by (simp add: bytes_at_def)
  note this [of 0] this [of 1] this [of 2] this [of 3] this [of 4] this [of 5] this [of 6] this [of 7]
    this [of 8] this [of 9] this [of 10] this [of 11]
  then show ?thesis by (simp add: blink_at_def ld16_def add.assoc)
qed

lemma zeros_ld16: "bytes_at r p (replicate 16 0) \<Longrightarrow> ld16 r p = Some 0"
  using bytes_at_nth [of r p "replicate 16 0" 0] bytes_at_nth [of r p "replicate 16 0" 1] by (simp add: ld16_def)

lemma malloc_scan_finds:
  "(\<And>i. i \<in> set is \<Longrightarrow> ld16 r (slot f i) \<noteq> None) \<Longrightarrow> mp1_malloc_scan r (blink_array f) is =
     Some (case find (\<lambda>i. ld16 r (slot f i) = Some 0) is of None \<Rightarrow> 0 | Some i \<Rightarrow> slot f i)"
proof (induction "is")
  case (Cons i "is")
  then obtain l where l: "ld16 r (slot f i) = Some l" by fastforce
  have e: "blink_array f + of_nat (16 * i) = slot f i" by (simp add: slot_def)
  show ?case using Cons l unfolding mp1_malloc_scan.simps e by (cases "l = 0") simp_all
qed simp

section \<open>The blinking characters, as a list\<close>

text \<open>The screen as a list of bytes, a character and its attribute in turn.\<close>

definition draw :: "u16 \<Rightarrow> u8 \<Rightarrow> u8 list \<Rightarrow> u8 list" where
  "draw l c vid = vid[2 * unat l := c]"

definition tick :: "mp1_blink_struct \<Rightarrow> mp1_blink_struct" where
  "tick b = (if 0 <s countdown b - 1 then b\<lparr>countdown := countdown b - 1\<rparr>
     else b\<lparr>countdown := (if status b AND 1 \<noteq> 0 then off_length b else on_length b), status := status b XOR 1\<rparr>)"

definition tick_draw :: "mp1_blink_struct \<Rightarrow> u8 list \<Rightarrow> u8 list" where
  "tick_draw b vid = (if 0 <s countdown b - 1 then vid
     else draw (location b) (if status b AND 1 \<noteq> 0 then off_char b else on_char b) vid)"

lemma tick_fields [simp]: "location (tick b) = location b" "length (tick_draw b vid) = length vid" "length (draw l c vid) = length vid"
  by (simp_all add: tick_def tick_draw_def draw_def)

text \<open>What the module keeps: the elements \<open>ps\<close> of the array in use hold \<open>bs\<close>, all others are at location 0.\<close>

definition blinking where
  "blinking cell ld f V temp A ps bs vid m \<longleftrightarrow>
     fish_layout f V temp A \<and> owns cell A m \<and> ld32 (ld m) (vmem_base_addr f) = Some V \<and>
     length vid = 4000 \<and> bytes_at (ld m) V vid \<and> links (ld m) (mp1_list_head f) ps \<and> distinct ps \<and> set ps \<subseteq> slots f \<and>
     list_all2 (blink_at (ld m)) ps bs \<and> (\<forall>b \<in> set bs. location b \<noteq> 0 \<and> location b < 2000) \<and>
     (\<forall>p \<in> slots f - set ps. ld16 (ld m) p = Some 0)"

context memory
begin

lemma poke_draws:
  assumes o: "owns cell A m" and V: "ld32 (ld m) (vmem_base_addr f) = Some V" "span V 4000 \<subseteq> A"
    and vid: "length vid = 4000" "bytes_at (ld m) V vid" and l: "l < 2000"
  shows "\<exists>m'. mp1_poke ld st f c (push_bit 1 (ucast l)) m = Some m' \<and> bytes_at (ld m') V (draw l c vid) \<and>
    alters ld rest A (span V 4000) m m'"
proof -
  have u: "unat l < 2000" using l by (simp add: word_less_nat_alt)
  have e: "push_bit 1 (ucast l) = (of_nat (2 * unat l) :: u32)"
    by (simp add: push_bit_eq_mult)
  have a: "V + of_nat (2 * unat l) \<in> span V 4000" using u by (intro spanI) simp
  then obtain m' where m': "st (V + of_nat (2 * unat l)) c m = Some m'" "ld m' (V + of_nat (2 * unat l)) = Some c"
    "alters ld rest A {V + of_nat (2 * unat l)} m m'"
    using st_owned [OF o, of "V + of_nat (2 * unat l)" c] V(2) by blast
  have "range_ok cell m V (length vid)" using owns_range [OF o V(2)] vid(1) by simp
  then have "stored cell ld rest m V (vid[2 * unat l := c]) m'"
    using vid u m'(1) by (intro stored_update) simp_all
  then have "bytes_at (ld m') V (draw l c vid)" by (simp add: stored_def draw_def)
  then show ?thesis using m'(1) alters_mono [OF m'(3), of "span V 4000"] a V(1) by (simp add: mp1_poke_def e mult.commute)
qed

lemma st_field:
  assumes o: "owns cell A m" and p: "span p 16 \<subseteq> A" and b: "blink_at (ld m) p b"
    and k: "(k, b') \<in> {(4, b\<lparr>on_length := v\<rparr>), (6, b\<lparr>off_length := v\<rparr>), (8, b\<lparr>countdown := v\<rparr>), (10, b\<lparr>status := v\<rparr>)}"
  shows "\<exists>m'. st16 st (p + k) v m = Some m' \<and> blink_at (ld m') p b' \<and> ld32 (ld m') (p + NEXT) = ld32 (ld m) (p + NEXT) \<and>
    alters ld rest A (span p 16) m m'"
proof -
  have s: "span (p + k) 2 \<subseteq> span p 16" using k struct_fields [of p] by auto
  then obtain m' where m': "st16 st (p + k) v m = Some m'" "ld16 (ld m') (p + k) = Some v" "alters ld rest A (span (p + k) 2) m m'"
    using st16_owned [OF o, of "p + k" v] p by blast
  have kv: "k = 4 \<or> k = 6 \<or> k = 8 \<or> k = 10" using k by auto
  have other: "ld16 (ld m') (p + j) = ld16 (ld m) (p + j)" if "j \<in> {0, 4, 6, 8, 10}" "j \<noteq> k" for j
  proof (rule ld16_alters [OF m'(3)])
    have "span (p + j) 2 \<subseteq> A" using that struct_fields [of p] p by auto
    moreover have "span (p + j) 2 \<inter> span (p + k) 2 = {}" using that kv unfolding span_2 by (elim insertE disjE) simp_all
    ultimately show "span (p + j) 2 \<subseteq> A - span (p + k) 2" by blast
  qed
  have chars: "ld m' (p + 2) = ld m (p + 2)" "ld m' (p + 3) = ld m (p + 3)"
    using alters_ld [OF m'(3)] struct_fields(2,3) [of p] p kv unfolding span_2 by (elim disjE; fastforce)+
  have nx: "ld32 (ld m') (p + NEXT) = ld32 (ld m) (p + NEXT)"
  proof (rule ld32_alters [OF m'(3)])
    have "span (p + 12) 4 \<subseteq> A" using struct_fields(8) [of p] p by blast
    moreover have "span (p + 12) 4 \<inter> span (p + k) 2 = {}" using kv unfolding span_2 span_4 by (elim disjE) simp_all
    ultimately show "span (p + 12) 4 \<subseteq> A - span (p + k) 2" by blast
  qed
  have "blink_at (ld m') p b'"
    using k b m'(2) chars other [of 0] other [of 4] other [of 6] other [of 8] other [of 10]
    by (auto simp: blink_at_def)
  with nx show ?thesis using m'(1) alters_mono [OF m'(3) s] by blast
qed

end

context memory
begin

lemma tasklet_step_ticks:
  assumes l: "fish_layout f V temp A" and o: "owns cell A m" and V: "ld32 (ld m) (vmem_base_addr f) = Some V"
    and vid: "length vid = 4000" "bytes_at (ld m) V vid" and p: "p \<in> slots f" and b: "blink_at (ld m) p b" "location b < 2000"
  shows "\<exists>m'. tasklet_step ld st f p m = Some m' \<and> blink_at (ld m') p (tick b) \<and> bytes_at (ld m') V (tick_draw b vid) \<and>
    ld32 (ld m') (p + NEXT) = ld32 (ld m) (p + NEXT) \<and> alters ld rest A (span p 16 \<union> span V 4000) m m'"
proof -
  let ?U = "span p 16 \<union> span V 4000" and ?c = "countdown b - 1" and ?on = "status b AND 1 \<noteq> 0"
  note sf = slot_facts [OF l p]
  have VA: "span V 4000 \<subseteq> A" "span (vmem_base_addr f) 4 \<subseteq> A" "span V 4000 \<inter> span (vmem_base_addr f) 4 = {}"
    using l by (auto simp: fish_layout_def)
  have base: "ld32 (ld m') (vmem_base_addr f) = ld32 (ld m) (vmem_base_addr f)" if "alters ld rest A W m m'" "W \<subseteq> ?U" for W m m'
    using that VA sf(3) by (intro ld32_alters [OF that(1)]) blast
  have vk: "bytes_at (ld m') V vid \<longleftrightarrow> bytes_at (ld m) V vid" if "alters ld rest A (span p 16) m m'" "length vid = 4000" for m m' vid
    using that VA sf(3) by (intro bytes_alters [OF that(1)]) auto
  let ?b1 = "b\<lparr>countdown := ?c\<rparr>"
  obtain m1 where m1: "st16 st (p + 8) ?c m = Some m1" "blink_at (ld m1) p ?b1" "ld32 (ld m1) (p + NEXT) = ld32 (ld m) (p + NEXT)"
    "alters ld rest A (span p 16) m m1"
    using st_field [OF o sf(1) b(1), of 8 _ ?c] by auto
  have o1: "owns cell A m1" using o owns_alters [OF m1(4)] by simp
  have vid1: "bytes_at (ld m1) V vid" using vk [OF m1(4)] vid by simp
  have c: "ld16 (ld m) (p + 8) = Some (countdown b)" "ld16 (ld m1) (p + 8) = Some ?c" using b(1) m1(2) by (simp_all add: blink_at_def)
  show ?thesis
  proof (cases "0 <s ?c")
    case True
    then show ?thesis using m1 c vid1 alters_mono [OF m1(4), of ?U]
      by (auto simp: tasklet_step_def tick_def tick_draw_def)
  next
    case False
    let ?ch = "if ?on then off_char b else on_char b" and ?n = "if ?on then off_length b else on_length b"
    obtain m2 where m2: "mp1_poke ld st f ?ch (push_bit 1 (ucast (location b))) m1 = Some m2"
      "bytes_at (ld m2) V (draw (location b) ?ch vid)" "alters ld rest A (span V 4000) m1 m2"
      using poke_draws [OF o1 _ VA(1) vid(1) vid1 b(2)] base [OF m1(4)] V by auto
    have o2: "owns cell A m2" using o1 owns_alters [OF m2(3)] by simp
    have b2: "blink_at (ld m2) p ?b1" "ld32 (ld m2) (p + NEXT) = ld32 (ld m1) (p + NEXT)"
      using blink_alters [OF m2(3) sf(1)] m1(2) sf(3) by blast+
    obtain m3 where m3: "st16 st (p + 8) ?n m2 = Some m3" "blink_at (ld m3) p (?b1\<lparr>countdown := ?n\<rparr>)"
      "ld32 (ld m3) (p + NEXT) = ld32 (ld m2) (p + NEXT)" "alters ld rest A (span p 16) m2 m3"
      using st_field [OF o2 sf(1) b2(1), of 8 _ ?n] by auto
    have o3: "owns cell A m3" using o2 owns_alters [OF m3(4)] by simp
    obtain m4 where m4: "st16 st (p + 10) (status b XOR 1) m3 = Some m4"
      "blink_at (ld m4) p (?b1\<lparr>countdown := ?n, status := status b XOR 1\<rparr>)"
      "ld32 (ld m4) (p + NEXT) = ld32 (ld m3) (p + NEXT)" "alters ld rest A (span p 16) m3 m4"
      using st_field [OF o3 sf(1) m3(2), of 10 _ "status b XOR 1"] by auto
    have run: "switch_blink ld st f p m1 = Some m4"
      using m1(2) b2(1) m2(1) m3(1,2) m4(1) by (cases ?on) (simp_all add: switch_blink_def blink_at_def Let_def)
    have "bytes_at (ld m4) V (draw (location b) ?ch vid)"
      using vk [OF m4(4)] vk [OF m3(4)] m2(2) vid(1) by simp
    moreover have "alters ld rest A ?U m m4"
    proof -
      have "alters ld rest A ?U m m1" "alters ld rest A ?U m1 m2" "alters ld rest A ?U m2 m3" "alters ld rest A ?U m3 m4"
        using m1(4) m2(3) m3(4) m4(4) by (simp_all add: alters_mono)
      then show ?thesis by (meson alt.eff_trans)
    qed
    moreover have "tick b = ?b1\<lparr>countdown := ?n, status := status b XOR 1\<rparr>" using False by (simp add: tick_def)
    ultimately show ?thesis using run m1 c m4(2) b2(2) m3(3) m4(3) False
      by (simp add: tasklet_step_def tick_draw_def)
  qed
qed

lemma tasklet_loop_ticks:
  assumes l: "fish_layout f V temp A" and vid: "length vid = 4000"
  shows "links (ld m) e ps \<Longrightarrow> ld32 (ld m) e = Some ebx \<Longrightarrow> owns cell A m \<Longrightarrow> ld32 (ld m) (vmem_base_addr f) = Some V \<Longrightarrow>
    bytes_at (ld m) V vid \<Longrightarrow> distinct ps \<Longrightarrow> set ps \<subseteq> slots f \<Longrightarrow> list_all2 (blink_at (ld m)) ps bs \<Longrightarrow>
    (\<forall>b \<in> set bs. location b < 2000) \<Longrightarrow>
    \<exists>m'. tasklet_loop ld st f ebx m = Some m' \<and> list_all2 (blink_at (ld m')) ps (map tick bs) \<and>
      bytes_at (ld m') V (fold tick_draw bs vid) \<and> (\<forall>p \<in> set ps. ld32 (ld m') (p + NEXT) = ld32 (ld m) (p + NEXT)) \<and>
      alters ld rest A (\<Union>p \<in> set ps. span p 16 \<union> span V 4000) m m'"
  using vid
proof (induction ps arbitrary: m e ebx bs vid)
  case Nil
  then show ?case by (subst tasklet_loop.simps) (simp add: alt.eff_refl)
next
  case (Cons p ps)
  obtain b bs' where bs: "bs = b # bs'" "blink_at (ld m) p b" "list_all2 (blink_at (ld m)) ps bs'"
    using Cons.prems(8) by (auto simp: list_all2_Cons1)
  have p: "p \<in> slots f" and ebx: "ebx = p" using Cons.prems by simp_all
  note sf = slot_facts [OF l p]
  obtain m1 where m1: "tasklet_step ld st f p m = Some m1" "blink_at (ld m1) p (tick b)" "bytes_at (ld m1) V (tick_draw b vid)"
    "ld32 (ld m1) (p + NEXT) = ld32 (ld m) (p + NEXT)" "alters ld rest A (span p 16 \<union> span V 4000) m m1"
    using tasklet_step_ticks [OF l Cons.prems(3,4) Cons.prems(10) Cons.prems(5) p bs(2)] Cons.prems(9) bs(1) by auto
  have other: "span q 16 \<subseteq> A" "span q 16 \<inter> (span p 16 \<union> span V 4000) = {}" if "q \<in> set ps" for q
    using slot_facts [OF l, of q] sf(4) that Cons.prems(6,7) by fastforce+
  have base: "ld32 (ld m1) (vmem_base_addr f) = Some V"
  proof -
    have "span (vmem_base_addr f) 4 \<subseteq> A - (span p 16 \<union> span V 4000)" using sf(3) l unfolding fish_layout_def by blast
    then show ?thesis using ld32_alters [OF m1(5)] Cons.prems(4) by simp
  qed
  have next1: "ld32 (ld m1) (q + NEXT) = ld32 (ld m) (q + NEXT)" if "q \<in> set ps" for q
    using blink_alters(2) [OF m1(5) other [OF that]] .
  have "links (ld m1) (p + NEXT) ps" using Cons.prems(1) m1(4) next1 links_cong [of "ld m1" "p + NEXT" "ld m" "p + NEXT" ps] by simp
  moreover obtain nx where nx: "ld32 (ld m1) (p + NEXT) = Some nx"
    using calculation by (cases ps) auto
  moreover have "list_all2 (blink_at (ld m1)) ps bs'"
    using bs(3) blink_alters(1) [OF m1(5) other] by (auto simp: list_all2_conv_all_nth)
  ultimately obtain m2 where m2: "tasklet_loop ld st f nx m1 = Some m2" "list_all2 (blink_at (ld m2)) ps (map tick bs')"
    "bytes_at (ld m2) V (fold tick_draw bs' (tick_draw b vid))" "\<forall>q \<in> set ps. ld32 (ld m2) (q + NEXT) = ld32 (ld m1) (q + NEXT)"
    "alters ld rest A (\<Union>p \<in> set ps. span p 16 \<union> span V 4000) m1 m2"
    using Cons.IH [of m1 "p + NEXT" nx "tick_draw b vid" bs'] base m1(3) owns_alters [OF m1(5)] Cons.prems bs(1) by auto
  have "span p 16 \<inter> (\<Union>q \<in> set ps. span q 16 \<union> span V 4000) = {}" using other(2) sf(3) by fastforce
  note keep = blink_alters [OF m2(5) sf(1) this]
  have "tasklet_loop ld st f ebx m = Some m2"
    using m1(1) nx m2(1) sf(2) by (subst tasklet_loop.simps) (simp add: ebx)
  moreover have "alters ld rest A (\<Union>q \<in> set (p # ps). span q 16 \<union> span V 4000) m m2"
    using m1(5) m2(5) by (rule alters_then) auto
  ultimately show ?case using m2(2-4) m1(2,4) keep(1,2) next1 by (auto simp: bs(1))
qed

text \<open>The tasklet ticks every element of the list, in its order, and returns.\<close>

lemma tasklet_ticks:
  assumes i: "blinking cell ld f V temp A ps bs vid m"
  shows "\<exists>m'. mp1_rtc_tasklet ld st f m = Some m' \<and> blinking cell ld f V temp A ps (map tick bs) (fold tick_draw bs vid) m' \<and>
    alters ld rest A (\<Union>p \<in> set ps. span p 16 \<union> span V 4000) m m'"
proof -
  have l: "fish_layout f V temp A" and o: "owns cell A m" using i by (simp_all add: blinking_def)
  let ?W = "\<Union>p \<in> set ps. span p 16 \<union> span V 4000"
  have ln: "links (ld m) (mp1_list_head f) ps" using i by (simp add: blinking_def)
  then obtain h where h: "ld32 (ld m) (mp1_list_head f) = Some h" by (cases ps) auto
  obtain m' where m': "tasklet_loop ld st f h m = Some m'" "list_all2 (blink_at (ld m')) ps (map tick bs)"
    "bytes_at (ld m') V (fold tick_draw bs vid)" "\<forall>p \<in> set ps. ld32 (ld m') (p + NEXT) = ld32 (ld m) (p + NEXT)"
    "alters ld rest A ?W m m'"
    using tasklet_loop_ticks [OF l _ ln h o, of vid bs] i unfolding blinking_def by blast
  have s: "set ps \<subseteq> slots f" using i by (simp add: blinking_def)
  have apart: "X \<inter> ?W = {}" if "X \<inter> span V 4000 = {}" "\<And>p. p \<in> set ps \<Longrightarrow> X \<inter> span p 16 = {}" for X using that by auto
  have v: "ld32 (ld m') a = ld32 (ld m) a" if a: "a = vmem_base_addr f \<or> a = mp1_list_head f" for a
  proof (rule ld32_alters [OF m'(5)])
    have "span a 4 \<inter> span p 16 = {}" if "p \<in> set ps" for p using a slot_facts(3) [OF l, of p] s that by blast
    moreover have "span a 4 \<inter> span V 4000 = {}" "span a 4 \<subseteq> A" using a l unfolding fish_layout_def by blast+
    ultimately show "span a 4 \<subseteq> A - ?W" using apart [of "span a 4"] by blast
  qed
  have free: "ld16 (ld m') p = ld16 (ld m) p" if "p \<in> slots f - set ps" for p
  proof -
    have p: "p \<in> slots f" "p \<notin> set ps" using that by simp_all
    have "span p 16 \<inter> span V 4000 = {}" using slot_facts(3) [OF l p(1)] by blast
    moreover have "span p 16 \<inter> span q 16 = {}" if "q \<in> set ps" for q
      using slot_facts(4) [OF l _ p(1)] s that p(2) by blast
    ultimately have "span p 16 \<inter> ?W = {}" by (rule apart)
    then show ?thesis using blink_alters(3) [OF m'(5)] slot_facts(1) [OF l] that by blast
  qed
  have len: "length (fold tick_draw bs vid) = length vid" for bs vid by (induction bs arbitrary: vid) simp_all
  have "links (ld m') (mp1_list_head f) ps" using ln v m'(4) links_cong [of "ld m'" "mp1_list_head f" "ld m" "mp1_list_head f" ps] by simp
  moreover have "ld32 (ld m') (vmem_base_addr f) = Some V" using v i by (simp add: blinking_def)
  moreover have "\<forall>p \<in> slots f - set ps. ld16 (ld m') p = Some 0" using free i by (simp add: blinking_def)
  moreover have "\<forall>b \<in> set (map tick bs). location b \<noteq> 0 \<and> location b < 2000" using i by (simp add: blinking_def)
  moreover have "owns cell A m'" "length (fold tick_draw bs vid) = 4000" "distinct ps"
    using i owns_alters [OF m'(5)] len by (simp_all add: blinking_def)
  ultimately have "blinking cell ld f V temp A ps (map tick bs) (fold tick_draw bs vid) m'"
    using l s m'(2,3) unfolding blinking_def by blast
  moreover have "mp1_rtc_tasklet ld st f m = Some m'" using h m'(1) by (simp add: mp1_rtc_tasklet_def)
  ultimately show ?thesis using m'(5) by blast
qed

end

section \<open>The calls\<close>

text \<open>The addresses that hold a link: the head of the list, or in an element.\<close>

abbreviation link_slots :: "fish_vars \<Rightarrow> u32 set" where
  "link_slots f \<equiv> insert (mp1_list_head f) ((\<lambda>q. q + NEXT) ` slots f)"

lemma link_facts:
  assumes l: "fish_layout f V temp A" and x: "x \<in> link_slots f"
  shows "span x 4 \<subseteq> A" "span x 4 \<inter> (span (vmem_base_addr f) 4 \<union> span temp 16 \<union> span V 4000) = {}"
    "y \<in> link_slots f \<Longrightarrow> y \<noteq> x \<Longrightarrow> span x 4 \<inter> span y 4 = {}"
    "p \<in> slots f \<Longrightarrow> x \<noteq> p + NEXT \<Longrightarrow> span x 4 \<inter> span p 16 = {}"
proof -
  have s: "span (q + 12) 4 \<subseteq> A" "span (q + 12) 4 \<inter> (span (mp1_list_head f) 4 \<union> span (vmem_base_addr f) 4 \<union> span temp 16 \<union> span V 4000) = {}"
    if "q \<in> slots f" for q
    using slot_facts(1,3) [OF l that] struct_fields(8) [of q] by blast+
  have h: "span (mp1_list_head f) 4 \<subseteq> A" "span (mp1_list_head f) 4 \<inter> (span (vmem_base_addr f) 4 \<union> span temp 16 \<union> span V 4000) = {}"
    using l by (simp_all add: fish_layout_def)
  show "span x 4 \<subseteq> A" "span x 4 \<inter> (span (vmem_base_addr f) 4 \<union> span temp 16 \<union> span V 4000) = {}"
    using x s h by blast+
  have 4: "span x 4 \<inter> span p 16 = {}" if p: "p \<in> slots f" "x \<noteq> p + NEXT" and x: "x \<in> link_slots f" for x p
  proof (cases "x = mp1_list_head f")
    case True
    then show ?thesis using slot_facts(3) [OF l p(1)] by blast
  next
    case False
    then obtain q where q: "q \<in> slots f" "x = q + NEXT" using x by blast
    moreover have "q \<noteq> p" using p(2) q(2) by auto
    ultimately have "span q 16 \<inter> span p 16 = {}" by (intro slot_facts(4) [OF l p(1)])
    then show ?thesis using struct_fields(8) [of q] q(2) by blast
  qed
  then show "p \<in> slots f \<Longrightarrow> x \<noteq> p + NEXT \<Longrightarrow> span x 4 \<inter> span p 16 = {}" using x by blast
  show "span x 4 \<inter> span y 4 = {}" if y: "y \<in> link_slots f" "y \<noteq> x"
  proof (cases "y = mp1_list_head f")
    case True
    then obtain q where "q \<in> slots f" "x = q + NEXT" using x y(2) by blast
    then show ?thesis using s(2) True by blast
  next
    case False
    then obtain q where q: "q \<in> slots f" "y = q + NEXT" using y by blast
    then show ?thesis using 4 [OF q(1) _ x] y(2) struct_fields(8) [of q] by blast
  qed
qed

lemma head_no_link: "fish_layout f V temp A \<Longrightarrow> q \<in> slots f \<Longrightarrow> mp1_list_head f \<noteq> q + NEXT"
  using slot_facts(3) [of f V temp A q] struct_fields(8) [of q] span_self [of 4 "q + NEXT"] by fastforce

text \<open>A store to a link leaves the other fields alone.\<close>

lemma link_blink:
  assumes l: "fish_layout f V temp A" and x: "x \<in> link_slots f" and a: "alters ld rest A (span x 4) m m'" and p: "p \<in> slots f"
  shows "blink_at (ld m') p b \<longleftrightarrow> blink_at (ld m) p b" "ld16 (ld m') p = ld16 (ld m) p"
proof -
  have "ld m' (p + j) = ld m (p + j)" if j: "j \<in> {0, 1, 2, 3, 4, 5, 6, 7, 8, 9, 10, 11}" for j
  proof (rule alters_ld [OF a])
    have "\<exists>i < 12. j = of_nat i" using j
      by (elim insertE emptyE) (rule exI [of _ 0] exI [of _ 1] exI [of _ 2] exI [of _ 3] exI [of _ 4] exI [of _ 5] exI [of _ 6]
        exI [of _ 7] exI [of _ 8] exI [of _ 9] exI [of _ 10] exI [of _ 11], simp)+
    then have pj: "p + j \<in> span p 16" by (auto simp: span_def)
    then show "p + j \<in> A" using slot_facts(1) [OF l p] by blast
    show "p + j \<notin> span x 4"
    proof (cases "x = p + NEXT")
      case True
      then show ?thesis using j unfolding span_4 by (elim insertE) (simp_all add: add.assoc)
    next
      case False
      then show ?thesis using link_facts(4) [OF l x p] pj by blast
    qed
  qed
  note e = this [of 0] this [of 1] this [of 2] this [of 3] this [of 4] this [of 5] this [of 6] this [of 7] this [of 8] this [of 9]
    this [of 10] this [of 11]
  then show "blink_at (ld m') p b \<longleftrightarrow> blink_at (ld m) p b" "ld16 (ld m') p = ld16 (ld m) p"
    by (simp_all add: blink_at_def ld16_def add.assoc)
qed

text \<open>What the calls do to the list and the screen.\<close>

datatype blink_cmd = Add mp1_blink_struct | Remove u16 | Find u16 | Sync u16 u16

primrec cmd_number :: "blink_cmd \<Rightarrow> u32" where
  "cmd_number (Add b) = 0" | "cmd_number (Remove l) = 1" | "cmd_number (Find l) = 2" | "cmd_number (Sync l l') = 3"

primrec remove_first :: "u16 \<Rightarrow> mp1_blink_struct list \<Rightarrow> mp1_blink_struct list" where
  "remove_first l [] = []"
| "remove_first l (b # bs) = (if location b = l then bs else b # remove_first l bs)"

primrec update_first ::
  "u16 \<Rightarrow> (mp1_blink_struct \<Rightarrow> mp1_blink_struct) \<Rightarrow> mp1_blink_struct list \<Rightarrow> mp1_blink_struct list" where
  "update_first l g [] = []"
| "update_first l g (b # bs) = (if location b = l then g b # bs else b # update_first l g bs)"

definition in_sync :: "mp1_blink_struct \<Rightarrow> mp1_blink_struct \<Rightarrow> mp1_blink_struct" where
  "in_sync c b = b\<lparr>on_length := on_length c, off_length := off_length c, countdown := countdown c, status := status c\<rparr>"

primrec blink_spec ::
  "blink_cmd \<Rightarrow> mp1_blink_struct list \<times> u8 list \<Rightarrow> i32 \<times> mp1_blink_struct list \<times> u8 list" where
  "blink_spec (Add b) = (\<lambda>(bs, vid).
     if 2000 \<le> location b \<or> 2000 \<le> length bs then (-1, bs, vid)
     else (0, b\<lparr>status := 1, countdown := on_length b\<rparr> # bs, draw (location b) (on_char b) vid))"
| "blink_spec (Remove l) = (\<lambda>(bs, vid). (if l \<in> location ` set bs then 0 else -1, remove_first l bs, vid))"
| "blink_spec (Find l) = (\<lambda>(bs, vid). (if l \<in> location ` set bs then 0 else -1, bs, vid))"
| "blink_spec (Sync l l') = (\<lambda>(bs, vid).
     case (find (\<lambda>b. location b = l) bs, find (\<lambda>b. location b = l') bs) of
       (Some c, Some b) \<Rightarrow> (0, update_first l' (in_sync c) bs, draw l' (off_char b) vid)
     | _ \<Rightarrow> (-1, bs, vid))"

lemma first_split:
  assumes "\<forall>c \<in> set bs1. location c \<noteq> l" "location b = l"
  shows "remove_first l (bs1 @ b # bs2) = bs1 @ bs2" "update_first l g (bs1 @ b # bs2) = bs1 @ g b # bs2"
    "find (\<lambda>b. location b = l) (bs1 @ b # bs2) = Some b" "l \<in> location ` set (bs1 @ b # bs2)"
  using assms by (induction bs1) auto

lemma remove_first_none: "l \<notin> location ` set bs \<Longrightarrow> remove_first l bs = bs"
  by (induction bs) auto

lemma blinkingD:
  assumes "blinking cell ld f V temp A ps bs vid m"
  shows "fish_layout f V temp A" "owns cell A m" "ld32 (ld m) (vmem_base_addr f) = Some V" "length vid = 4000"
    "bytes_at (ld m) V vid" "links (ld m) (mp1_list_head f) ps" "distinct ps" "set ps \<subseteq> slots f"
    "list_all2 (blink_at (ld m)) ps bs" "\<And>b. b \<in> set bs \<Longrightarrow> location b \<noteq> 0 \<and> location b < 2000"
    "\<And>p. p \<in> slots f \<Longrightarrow> p \<notin> set ps \<Longrightarrow> ld16 (ld m) p = Some 0"
    "length ps = length bs" "0 \<notin> set ps" "span V 4000 \<subseteq> A"
proof -
  show l: "fish_layout f V temp A" and s: "set ps \<subseteq> slots f" and a: "list_all2 (blink_at (ld m)) ps bs"
    using assms by (simp_all add: blinking_def)
  show "length ps = length bs" using a by (rule list_all2_lengthD)
  show "0 \<notin> set ps" using slot_facts(2) [OF l] s by blast
  show "span V 4000 \<subseteq> A" using l by (simp add: fish_layout_def)
qed (use assms in \<open>simp_all add: blinking_def\<close>)

text \<open>What lies apart from the screen and the pointer to it does not change them.\<close>

lemma screen_kept:
  assumes i: "blinking cell ld f V temp A ps bs vid m" and a: "alters ld rest A W m0 m'"
    and W: "W \<inter> (span (vmem_base_addr f) 4 \<union> span V 4000) = {}"
  shows "ld32 (ld m') (vmem_base_addr f) = ld32 (ld m0) (vmem_base_addr f)" "bytes_at (ld m') V vid \<longleftrightarrow> bytes_at (ld m0) V vid"
proof -
  have "span (vmem_base_addr f) 4 \<subseteq> A - W" "span V 4000 \<subseteq> A - W"
    using blinkingD(1) [OF i] W unfolding fish_layout_def by blast+
  then show "ld32 (ld m') (vmem_base_addr f) = ld32 (ld m0) (vmem_base_addr f)" "bytes_at (ld m') V vid \<longleftrightarrow> bytes_at (ld m0) V vid"
    using ld32_alters [OF a] bytes_alters [OF a, of V vid] blinkingD(4) [OF i] by simp_all
qed

lemma array_slots: "fish_layout f V temp A \<Longrightarrow> p \<in> slots f \<Longrightarrow> span p 16 \<subseteq> span (blink_array f) 32000"
proof -
  assume "p \<in> slots f"
  then obtain i where "i < 2000" "p = blink_array f + of_nat (16 * i)" by (auto simp: slot_def)
  then show ?thesis using span_sub [of "16 * i" 16 32000 "blink_array f"] by simp
qed

text \<open>The module does not notice a change elsewhere, whatever made it.\<close>

lemma blinking_same:
  assumes i: "blinking cell ld f V temp A ps bs vid m" and a: "alters ld rest A W m m'" and o: "owns cell A m'"
    and W: "W \<inter> (span (blink_array f) 32000 \<union> span (mp1_list_head f) 4 \<union> span (vmem_base_addr f) 4 \<union> span V 4000) = {}"
  shows "blinking cell ld f V temp A ps bs vid m'"
proof -
  note D = blinkingD [OF i]
  have b: "span p 16 \<subseteq> A" "span p 16 \<inter> W = {}" if "p \<in> slots f" for p
    using slot_facts(1) [OF D(1) that] array_slots [OF D(1) that] W by blast+
  have "span (mp1_list_head f) 4 \<subseteq> A" using D(1) by (simp add: fish_layout_def)
  then have h: "ld32 (ld m') (mp1_list_head f) = ld32 (ld m) (mp1_list_head f)"
    using W by (intro ld32_alters [OF a]) blast
  have n: "ld32 (ld m') (p + NEXT) = ld32 (ld m) (p + NEXT)" if "p \<in> set ps" for p
    using that D(8) by (intro blink_alters(2) [OF a b]) auto
  have "links (ld m') (mp1_list_head f) ps" using D(6) links_cong [OF h n] by simp
  moreover have "list_all2 (blink_at (ld m')) ps bs"
    using D(8) blink_alters(1) [OF a b] by (intro blinks_cong [OF D(9)]) blast
  moreover have "ld16 (ld m') p = Some 0" if "p \<in> slots f - set ps" for p
    using blink_alters(3) [OF a b] D(11) that by simp
  moreover have "ld32 (ld m') (vmem_base_addr f) = Some V" "bytes_at (ld m') V vid"
    using screen_kept [OF i a] W D(3,5) by auto
  ultimately show ?thesis using D(1,4,7,8,10) o by (simp add: blinking_def)
qed

context memory
begin

lemma blinking_alters:
  assumes i: "blinking cell ld f V temp A ps bs vid m" and a: "alters ld rest A W m m'"
    and W: "W \<inter> (span (blink_array f) 32000 \<union> span (mp1_list_head f) 4 \<union> span (vmem_base_addr f) 4 \<union> span V 4000) = {}"
  shows "blinking cell ld f V temp A ps bs vid m'"
  using blinking_same [OF i a _ W] owns_alters [OF a] blinkingD(2) [OF i] by blast

lemma find_helper_finds:
  assumes "blinking cell ld f V temp A ps bs vid m"
  shows "mp1_find_helper (ld m) f prm = Some (first_at (ucast prm) ps bs)"
proof -
  note D = blinkingD [OF assms]
  obtain h where "ld32 (ld m) (mp1_list_head f) = Some h" using D(6) by (cases ps) auto
  then show ?thesis using find_from_links [OF D(6) _ D(9,13)] by (simp add: mp1_find_helper_def)
qed

lemma remove_refines:
  assumes i: "blinking cell ld f V temp A ps bs vid m"
    and lp: "ucast (prm :: u32) = l"
  shows "\<exists>m' ps'. mp1_ioctl_remove ld st f prm m = Some (if l \<in> location ` set bs then 0 else -1, m') \<and>
    blinking cell ld f V temp A ps' (remove_first l bs) vid m'"
proof (cases "first_at l ps bs = 0")
  case True
  then have "l \<notin> location ` set bs" using first_at_none [OF blinkingD(12) [OF i] blinkingD(13) [OF i], of l] by auto
  then show ?thesis
    using find_helper_finds [OF i, of prm] True i by (auto simp: mp1_ioctl_remove_def lp remove_first_none)
next
  case False
  note D = blinkingD [OF i]
  define p where "p = first_at l ps bs"
  obtain ps1 ps2 bs1 b bs2 where sp: "ps = ps1 @ p # ps2" "bs = bs1 @ b # bs2" "length ps1 = length bs1"
    "location b = l" "\<forall>c \<in> set bs1. location c \<noteq> l"
    using first_at_split [OF D(12,13) False] unfolding p_def by blast
  have ps: "p \<in> slots f" "set (ps1 @ ps2) \<subseteq> slots f" "p \<notin> set (ps1 @ ps2)" "distinct (ps1 @ ps2)"
    using D(7,8) by (auto simp: sp(1))
  define d where "d = last_link (mp1_list_head f) ps1"
  have d: "d \<in> link_slots f" "d \<noteq> p + NEXT"
    using last_link_cases [of ps1 "mp1_list_head f"] ps(1-3) head_no_link [OF D(1)] unfolding d_def by auto
  obtain nx where nx: "ld32 (ld m) (p + NEXT) = Some nx"
    using links_suffix [of "ld m" "mp1_list_head f" ps1 p ps2] D(6) unfolding sp(1) by (cases ps2) auto
  obtain m1 where m1: "st32 st d nx m = Some m1" "ld32 (ld m1) d = Some nx" "alters ld rest A (span d 4) m m1"
    using st32_owned [OF D(2) link_facts(1) [OF D(1) d(1)]] by blast
  have o1: "owns cell A m1" using D(2) owns_alters [OF m1(3)] by simp
  obtain m2 where m2: "mp1_free st p m1 = Some m2" "bytes_at (ld m2) p (replicate 16 0)" "alters ld rest A (span p 16) m1 m2"
    using memset_owned [OF o1 slot_facts(1) [OF D(1) ps(1)], of 0] by (auto simp: mp1_free_def)
  have "mp1_find_helper (ld m) f prm = Some p" "p \<noteq> 0"
    using find_helper_finds [OF i, of prm] False by (simp_all add: lp p_def)
  moreover have "remove_find_prev (ld m) p (mp1_list_head f) = Some d"
    using find_prev_links [of "ld m" "mp1_list_head f" ps1 p ps2] D(6) ps(3) by (simp add: sp(1) d_def)
  ultimately have run: "mp1_ioctl_remove ld st f prm m = Some (0, m2)"
    using nx m1(1) m2(1) by (simp add: mp1_ioctl_remove_def)
  have link: "ld32 (ld m2) x = ld32 (ld m1) x" if "x \<in> link_slots f" "x \<noteq> p + NEXT" for x
    using link_facts(1) [OF D(1) that(1)] link_facts(4) [OF D(1) that(1) ps(1) that(2)] by (intro ld32_alters [OF m2(3)]) blast
  have "links (ld m2) (mp1_list_head f) (ps1 @ ps2)"
  proof (rule links_unlink)
    show "links (ld m) (mp1_list_head f) (ps1 @ p # ps2)" using D(6) by (simp add: sp(1))
    show "ld32 (ld m2) (last_link (mp1_list_head f) ps1) = ld32 (ld m) (p + NEXT)"
      using link [OF d] m1(2) nx by (simp add: d_def [symmetric])
    show "ld32 (ld m2) x = ld32 (ld m) x"
      if x: "x \<in> insert (mp1_list_head f) ((\<lambda>q. q + NEXT) ` set (ps1 @ ps2))" "x \<noteq> last_link (mp1_list_head f) ps1" for x
    proof -
      have "x \<in> link_slots f" using x(1) ps(2) by blast
      moreover have "x \<noteq> p + NEXT" using x(1) ps(3) head_no_link [OF D(1) ps(1)] by auto
      moreover have "span x 4 \<subseteq> A - span d 4"
        using link_facts(1,3) [OF D(1) calculation(1)] d(1) x(2) unfolding d_def by blast
      ultimately show ?thesis using link ld32_alters [OF m1(3)] by simp
    qed
    show "distinct (mp1_list_head f # map (\<lambda>q. q + NEXT) (ps1 @ ps2))"
    proof -
      have "mp1_list_head f \<noteq> q + NEXT" if "q \<in> set (ps1 @ ps2)" for q using that ps(2) head_no_link [OF D(1)] by blast
      then show ?thesis using ps(4) by (auto simp: distinct_map inj_on_def)
    qed
  qed
  moreover have keep: "blink_at (ld m2) q c \<longleftrightarrow> blink_at (ld m) q c" "ld16 (ld m2) q = ld16 (ld m) q" if "q \<in> slots f" "q \<noteq> p" for q c
    using link_blink [OF D(1) d(1) m1(3) that(1)] blink_alters(1,3) [OF m2(3) slot_facts(1) [OF D(1) that(1)]]
      slot_facts(4) [OF D(1) ps(1) that] by simp_all
  have "list_all2 (blink_at (ld m2)) (ps1 @ ps2) (bs1 @ bs2)"
  proof -
    have "list_all2 (blink_at (ld m)) (ps1 @ ps2) (bs1 @ bs2)"
      using D(9) sp(3) by (simp add: sp(1,2) list_all2_append)
    then show ?thesis
    proof (rule blinks_cong)
      fix q c assume "q \<in> set (ps1 @ ps2)"
      then show "blink_at (ld m2) q c \<longleftrightarrow> blink_at (ld m) q c" using ps(2,3) by (intro keep(1)) auto
    qed
  qed
  moreover have "ld16 (ld m2) q = Some 0" if q: "q \<in> slots f" "q \<notin> set (ps1 @ ps2)" for q
    using keep(2) [OF q(1)] D(11) [OF q(1)] q(2) zeros_ld16 [OF m2(2)] by (cases "q = p") (auto simp: sp(1))
  moreover have "ld32 (ld m2) (vmem_base_addr f) = Some V" "bytes_at (ld m2) V vid"
    using screen_kept [OF i m1(3)] screen_kept [OF i m2(3)] D(3,5) link_facts(2) [OF D(1) d(1)] slot_facts(3) [OF D(1) ps(1)]
    by (simp_all add: Int_Un_distrib)
  moreover have "owns cell A m2" using o1 owns_alters [OF m2(3)] by simp
  ultimately have "blinking cell ld f V temp A (ps1 @ ps2) (bs1 @ bs2) vid m2"
    using D(1,4,10) ps(2,4) unfolding blinking_def by (auto simp: sp(2))
  then show ?thesis using run first_split(1,4) [OF sp(5,4)] by (auto simp: sp(2))
qed

end

context memory
begin

lemma sync_field:
  assumes "owns cell A m" "span p 16 \<subseteq> A" "span q 16 \<subseteq> A" "p \<noteq> q \<Longrightarrow> span p 16 \<inter> span q 16 = {}"
    and "blink_at (ld m) p c" "blink_at (ld m) q b" "p = q \<Longrightarrow> b' = c"
    and "(k, b') \<in> {(4, b\<lparr>on_length := v\<rparr>), (6, b\<lparr>off_length := v\<rparr>), (8, b\<lparr>countdown := v\<rparr>), (10, b\<lparr>status := v\<rparr>)}"
  shows "\<exists>m'. st16 st (q + k) v m = Some m' \<and> blink_at (ld m') p c \<and> blink_at (ld m') q b' \<and>
    ld32 (ld m') (q + NEXT) = ld32 (ld m) (q + NEXT) \<and> alters ld rest A (span q 16) m m' \<and> owns cell A m'"
proof -
  obtain m' where m': "st16 st (q + k) v m = Some m'" "blink_at (ld m') q b'" "ld32 (ld m') (q + NEXT) = ld32 (ld m) (q + NEXT)"
    "alters ld rest A (span q 16) m m'"
    using st_field [OF assms(1,3,6,8)] by blast
  have "blink_at (ld m') p c"
  proof (cases "p = q")
    case False
    then show ?thesis using blink_alters(1) [OF m'(4) assms(2) assms(4)] assms(5) by simp
  qed (use m'(2) assms(7) in simp)
  then show ?thesis using m' assms(1) owns_alters [OF m'(4)] by blast
qed

lemma first_blink:
  assumes i: "blinking cell ld f V temp A ps bs vid m" and n: "first_at l ps bs \<noteq> 0"
  shows "\<exists>b. first_at l ps bs \<in> slots f \<and> blink_at (ld m) (first_at l ps bs) b \<and> b \<in> set bs \<and>
    find (\<lambda>b. location b = l) bs = Some b \<and> location b = l"
proof -
  note D = blinkingD [OF i]
  obtain ps1 ps2 bs1 b bs2 where sp: "ps = ps1 @ first_at l ps bs # ps2" "bs = bs1 @ b # bs2" "length ps1 = length bs1"
    "location b = l" "\<forall>c \<in> set bs1. location c \<noteq> l"
    using first_at_split [OF D(12,13) n] by blast
  have "list_all2 (blink_at (ld m)) (ps1 @ first_at l ps bs # ps2) (bs1 @ b # bs2)" using D(9) sp(1,2) by metis
  then have "blink_at (ld m) (first_at l ps bs) b" using sp(3) by (simp add: list_all2_append)
  moreover have "first_at l ps bs \<in> set ps" using sp(1) by (metis in_set_conv_decomp)
  moreover have "find (\<lambda>b. location b = l) bs = Some b" "b \<in> set bs" using first_split(3) [OF sp(5,4), of bs2] sp(2) by simp_all
  ultimately show ?thesis using D(8) sp(4) by blast
qed

lemma first_not_found: "blinking cell ld f V temp A ps bs vid m \<Longrightarrow> first_at l ps bs = 0 \<longleftrightarrow> find (\<lambda>b. location b = l) bs = None"
  using first_at_none [of ps bs l] blinkingD(12,13) [of cell ld f V temp A ps bs vid m] by (auto simp: find_None_iff)

text \<open>One element and the screen have changed.\<close>

lemma blinking_update:
  assumes i: "blinking cell ld f V temp A ps bs vid m" and n: "first_at l ps bs \<noteq> 0"
    and a: "alters ld rest A (span (first_at l ps bs) 16 \<union> span V 4000) m m'"
    and g: "\<And>b. find (\<lambda>b. location b = l) bs = Some b \<Longrightarrow> blink_at (ld m') (first_at l ps bs) (g b) \<and> location (g b) = location b"
    and nx: "ld32 (ld m') (first_at l ps bs + NEXT) = ld32 (ld m) (first_at l ps bs + NEXT)"
    and vid: "length vid' = 4000" "bytes_at (ld m') V vid'"
  shows "blinking cell ld f V temp A ps (update_first l g bs) vid' m'"
proof -
  note D = blinkingD [OF i]
  define q where "q = first_at l ps bs"
  obtain ps1 ps2 bs1 b bs2 where sp: "ps = ps1 @ q # ps2" "bs = bs1 @ b # bs2" "length ps1 = length bs1"
    "location b = l" "\<forall>c \<in> set bs1. location c \<noteq> l"
    using first_at_split [OF D(12,13) n] unfolding q_def by blast
  have q: "q \<in> slots f" using D(8) by (simp add: sp(1))
  have a': "alters ld rest A (span q 16 \<union> span V 4000) m m'" using a by (simp add: q_def)
  have apart: "span p 16 \<subseteq> A" "span p 16 \<inter> (span q 16 \<union> span V 4000) = {}" if "p \<in> slots f" "p \<noteq> q" for p
    using slot_facts(1,3) [OF D(1) that(1)] slot_facts(4) [OF D(1) q that] by blast+
  have n': "ld32 (ld m') (p + NEXT) = ld32 (ld m) (p + NEXT)" if "p \<in> set ps" for p
    using blink_alters(2) [OF a' apart] D(8) that nx by (cases "p = q") (auto simp: q_def)
  have "span (mp1_list_head f) 4 \<subseteq> A - (span q 16 \<union> span V 4000)" "span (vmem_base_addr f) 4 \<subseteq> A - (span q 16 \<union> span V 4000)"
    using D(1) slot_facts(3) [OF D(1) q] unfolding fish_layout_def by blast+
  then have h: "ld32 (ld m') (mp1_list_head f) = ld32 (ld m) (mp1_list_head f)"
    "ld32 (ld m') (vmem_base_addr f) = ld32 (ld m) (vmem_base_addr f)"
    using ld32_alters [OF a'] by blast+
  have b: "find (\<lambda>b. location b = l) bs = Some b" "update_first l g bs = bs1 @ g b # bs2"
    using first_split(2,3) [OF sp(5,4)] sp(2) by simp_all
  note gb = g [OF b(1)]
  have "list_all2 (blink_at (ld m')) (ps1 @ q # ps2) (bs1 @ g b # bs2)"
  proof -
    have "list_all2 (blink_at (ld m)) ps1 bs1" "list_all2 (blink_at (ld m)) ps2 bs2"
      using D(9) sp(3) by (simp_all add: sp(1,2) list_all2_append)
    moreover have "blink_at (ld m') p c \<longleftrightarrow> blink_at (ld m) p c" if "p \<in> set ps1 \<union> set ps2" for p c
    proof (rule blink_alters(1) [OF a' apart])
      show "p \<in> slots f" "p \<in> slots f" using D(8) that by (auto simp: sp(1))
      show "p \<noteq> q" "p \<noteq> q" using D(7) that by (auto simp: sp(1))
    qed
    ultimately have "list_all2 (blink_at (ld m')) ps1 bs1" "list_all2 (blink_at (ld m')) ps2 bs2"
      using blinks_cong [of "ld m" ps1 bs1 "ld m'"] blinks_cong [of "ld m" ps2 bs2 "ld m'"] by simp_all
    then show ?thesis using gb by (simp add: list_all2_append sp(3) q_def)
  qed
  then have "list_all2 (blink_at (ld m')) ps (update_first l g bs)" by (simp only: sp(1) b(2))
  moreover have "links (ld m') (mp1_list_head f) ps" using D(6) links_cong [OF h(1) n'] by simp
  moreover have "ld16 (ld m') p = Some 0" if "p \<in> slots f - set ps" for p
    using blink_alters(3) [OF a' apart] D(11) that by (auto simp: sp(1))
  moreover have "location c \<noteq> 0 \<and> location c < 2000" if "c \<in> set (update_first l g bs)" for c
  proof -
    have "b \<in> set bs" by (simp add: sp(2))
    moreover have "c = g b \<or> c \<in> set bs" using that unfolding b(2) by (auto simp: sp(2))
    ultimately show ?thesis using D(10) gb by metis
  qed
  ultimately show ?thesis using D(1-3,7,8) vid h(2) owns_alters [OF a'] unfolding blinking_def by simp
qed

lemma sync_refines:
  assumes i: "blinking cell ld f V temp A ps bs vid m"
    and lp: "ucast (drop_bit 16 (prm :: u32)) = l" "ucast (prm AND 0xFFFF) = l'"
  shows "\<exists>m'. mp1_ioctl_sync ld st f prm m = Some (fst (blink_spec (Sync l l') (bs, vid)), m') \<and>
    blinking cell ld f V temp A ps (fst (snd (blink_spec (Sync l l') (bs, vid)))) (snd (snd (blink_spec (Sync l l') (bs, vid)))) m'"
proof (cases "first_at l ps bs = 0 \<or> first_at l' ps bs = 0")
  case True
  then have "mp1_ioctl_sync ld st f prm m = Some (-1, m)"
    unfolding mp1_ioctl_sync_def find_helper_finds [OF i] lp by (cases "first_at l ps bs = 0") simp_all
  moreover have "blink_spec (Sync l l') (bs, vid) = (-1, bs, vid)"
  proof -
    have "find (\<lambda>b. location b = l) bs = None \<or> find (\<lambda>b. location b = l') bs = None"
      using True unfolding first_not_found [OF i] .
    then show ?thesis by (elim disjE) (simp_all split: option.split)
  qed
  ultimately show ?thesis using i by simp
next
  case False
  note D = blinkingD [OF i]
  define p q where "p = first_at l ps bs" and "q = first_at l' ps bs"
  have nz: "p \<noteq> 0" "q \<noteq> 0" using False by (simp_all add: p_def q_def)
  obtain c where c: "p \<in> slots f" "blink_at (ld m) p c" "find (\<lambda>b. location b = l) bs = Some c" "location c = l"
    using first_blink [OF i, of l] nz(1) unfolding p_def by blast
  obtain b where b: "q \<in> slots f" "blink_at (ld m) q b" "find (\<lambda>b. location b = l') bs = Some b" "location b = l'" "b \<in> set bs"
    using first_blink [OF i, of l'] nz(2) unfolding q_def by blast
  have same: "b = c" if "p = q"
    using c(2) b(2) that by (simp add: blink_at_def)
  note pA = slot_facts(1) [OF D(1) c(1)] and qA = slot_facts(1) [OF D(1) b(1)]
  have pq: "span p 16 \<inter> span q 16 = {}" if "p \<noteq> q" using slot_facts(4) [OF D(1) b(1) c(1) that] .
  let ?b1 = "b\<lparr>on_length := on_length c\<rparr>"
  let ?b2 = "?b1\<lparr>off_length := off_length c\<rparr>"
  let ?b3 = "?b2\<lparr>countdown := countdown c\<rparr>"
  let ?b4 = "?b3\<lparr>status := status c\<rparr>"
  obtain m1 where m1: "st16 st (q + 4) (on_length c) m = Some m1" "blink_at (ld m1) p c" "blink_at (ld m1) q ?b1"
    "ld32 (ld m1) (q + NEXT) = ld32 (ld m) (q + NEXT)" "alters ld rest A (span q 16) m m1" "owns cell A m1"
    using sync_field [OF D(2) pA qA pq c(2) b(2), of ?b1 4 "on_length c"] same by auto
  obtain m2 where m2: "st16 st (q + 6) (off_length c) m1 = Some m2" "blink_at (ld m2) p c" "blink_at (ld m2) q ?b2"
    "ld32 (ld m2) (q + NEXT) = ld32 (ld m1) (q + NEXT)" "alters ld rest A (span q 16) m1 m2" "owns cell A m2"
    using sync_field [OF m1(6) pA qA pq m1(2,3), of ?b2 6 "off_length c"] same by auto
  obtain m3 where m3: "st16 st (q + 8) (countdown c) m2 = Some m3" "blink_at (ld m3) p c" "blink_at (ld m3) q ?b3"
    "ld32 (ld m3) (q + NEXT) = ld32 (ld m2) (q + NEXT)" "alters ld rest A (span q 16) m2 m3" "owns cell A m3"
    using sync_field [OF m2(6) pA qA pq m2(2,3), of ?b3 8 "countdown c"] same by auto
  obtain m4 where m4: "st16 st (q + 10) (status c) m3 = Some m4" "blink_at (ld m4) p c" "blink_at (ld m4) q ?b4"
    "ld32 (ld m4) (q + NEXT) = ld32 (ld m3) (q + NEXT)" "alters ld rest A (span q 16) m3 m4" "owns cell A m4"
    using sync_field [OF m3(6) pA qA pq m3(2,3), of ?b4 10 "status c"] same by auto
  have a4: "alters ld rest A (span q 16) m m4" using m1(5) m2(5) m3(5) m4(5) by (meson alt.eff_trans)
  have "span q 16 \<inter> (span (vmem_base_addr f) 4 \<union> span V 4000) = {}" using slot_facts(3) [OF D(1) b(1)] by blast
  note sk = screen_kept [OF i a4 this]
  have "\<exists>t. ld m4 (q + STATUS) = Some t"
    using m4(3) by (auto simp: blink_at_def ld16_def Option.bind_eq_Some_conv)
  then obtain t where t: "ld m4 (q + STATUS) = Some t" by blast
  have off: "sync_char t on off = off" for on off by (simp add: sync_char_def bit_simps)
  obtain m5 where m5: "mp1_poke ld st f (off_char b) (push_bit 1 (ucast l')) m4 = Some m5"
    "bytes_at (ld m5) V (draw l' (off_char b) vid)" "alters ld rest A (span V 4000) m4 m5"
    using poke_draws [OF m4(6) _ D(14,4), of f l' "off_char b"] sk D(3,5) D(10) [OF b(5)] b(4) by auto
  have qV: "span q 16 \<inter> span V 4000 = {}" using slot_facts(3) [OF D(1) b(1)] by blast
  note b5 = blink_alters [OF m5(3) qA qV]
  have find_ok: "mp1_find_helper (ld m) f (drop_bit 16 prm) = Some p" "mp1_find_helper (ld m) f (prm AND 0xFFFF) = Some q"
    using find_helper_finds [OF i] by (simp_all only: lp p_def q_def)
  have run: "mp1_ioctl_sync ld st f prm m = Some (0, m5)"
    unfolding mp1_ioctl_sync_def find_ok
    using c(2) m1(1,2) m2(1,2) m3(1,2) m4(1,3) t m5(1) nz b(4) by (simp add: blink_at_def off)
  have "blinking cell ld f V temp A ps (update_first l' (in_sync c) bs) (draw l' (off_char b) vid) m5"
  proof (rule blinking_update [OF i])
    show "first_at l' ps bs \<noteq> 0" using nz(2) by (simp add: q_def)
    show "alters ld rest A (span (first_at l' ps bs) 16 \<union> span V 4000) m m5"
      unfolding q_def [symmetric] by (rule alters_then [OF a4 m5(3)]) simp
    show "blink_at (ld m5) (first_at l' ps bs) (in_sync c b') \<and> location (in_sync c b') = location b'"
      if "find (\<lambda>b. location b = l') bs = Some b'" for b'
      using that b(3) b5(1) m4(3) by (simp add: q_def [symmetric] in_sync_def)
    show "ld32 (ld m5) (first_at l' ps bs + NEXT) = ld32 (ld m) (first_at l' ps bs + NEXT)"
      using b5(2) m1(4) m2(4) m3(4) m4(4) by (simp add: q_def [symmetric])
  qed (use m5(2) D(4) in simp_all)
  then show ?thesis using run c(3) b(3) by auto
qed

end

text \<open>A memory in which every address that has storage can be read.\<close>

locale readable_memory = memory +
  assumes ld_mapped: "cell m a \<noteq> None \<Longrightarrow> ld m a \<noteq> None"
begin

lemma readable:
  assumes "owns cell A m" "span a n \<subseteq> A"
  shows "\<exists>bs. length bs = n \<and> bytes_at (ld m) a bs"
proof -
  have "ld m (a + of_nat i) \<noteq> None" if "i < n" for i
    using assms spanI [OF that, of a] by (intro ld_mapped) (auto simp: owns_def)
  then have "bytes_at (ld m) a (map (\<lambda>i. the (ld m (a + of_nat i))) [0..<n])" by (simp add: bytes_at_def)
  then show ?thesis by (intro exI conjI) simp_all
qed

lemma copy_struct:
  assumes o: "owns cell A m" and d: "span d 16 \<subseteq> A" and s: "span s 16 \<subseteq> A" "span s 16 \<inter> span d 16 = {}"
  shows "\<exists>m'. ece391_memcpy ld st d s STRUCT_SIZE m = Some (0, m') \<and> (\<forall>b. blink_at (ld m') d b \<longleftrightarrow> blink_at (ld m) s b) \<and>
    alters ld rest A (span d 16) m m'"
proof -
  obtain bs where bs: "length bs = 16" "bytes_at (ld m) s bs" using readable [OF o s(1)] by blast
  obtain m' where "ece391_memcpy ld st d s (of_nat (length bs)) m = Some (0, m')" "bytes_at (ld m') d bs"
    "alters ld rest A (span d (length bs)) m m'"
    using memcpy_owned [OF o, of d bs s] bs d s by auto
  moreover have "blink_at (ld m') d b \<longleftrightarrow> blink_at (ld m) s b" for b
    using bytes_blink [OF bs(2) calculation(2) bs(1)] .
  ultimately show ?thesis by (auto simp: bs(1))
qed

lemma copy_location:
  assumes o: "owns cell A m" and d: "span d 2 \<subseteq> A" and s: "span s 2 \<subseteq> A" "span s 2 \<inter> span d 2 = {}"
  shows "\<exists>m'. ece391_memcpy ld st d s 2 m = Some (0, m') \<and> ld16 (ld m') d = ld16 (ld m) s \<and> alters ld rest A (span d 2) m m'"
proof -
  obtain bs where bs: "length bs = 2" "bytes_at (ld m) s bs" using readable [OF o s(1)] by blast
  obtain m' where m': "ece391_memcpy ld st d s (of_nat (length bs)) m = Some (0, m')" "bytes_at (ld m') d bs"
    "alters ld rest A (span d (length bs)) m m'"
    using memcpy_owned [OF o, of d bs s] bs d s by auto
  have "ld16 (ld m') d = ld16 (ld m) s"
    using bytes_at_nth [OF m'(2), of 0] bytes_at_nth [OF m'(2), of 1] bytes_at_nth [OF bs(2), of 0] bytes_at_nth [OF bs(2), of 1]
    by (simp add: ld16_def bs(1))
  then show ?thesis using m' by (auto simp: bs(1))
qed

lemma slots_card: "fish_layout f V temp A \<Longrightarrow> card (slots f) = 2000"
proof -
  have "inj_on (slot f) {..<2000}"
    using add_of_nat_eq_u32_iff [of "16 * i" "16 * j" "blink_array f" for i j] by (auto simp: inj_on_def slot_def simp del: of_nat_mult)
  then show ?thesis by (simp add: card_image)
qed

lemma malloc_finds:
  assumes i: "blinking cell ld f V temp A ps bs vid m"
  shows "\<exists>p. mp1_malloc (ld m) f sz = Some p \<and> (if length bs < 2000 then p \<in> slots f \<and> p \<notin> set ps else p = 0)"
proof -
  note D = blinkingD [OF i]
  have used: "\<exists>b \<in> set bs. ld16 (ld m) p = Some (location b)" if "p \<in> set ps" for p
    using that D(9) by (auto simp: in_set_conv_nth list_all2_conv_all_nth blink_at_def) (metis nth_mem)
  have "ld16 (ld m) (slot f i) \<noteq> None" if "i \<in> set [0..<2000]" for i
    using that used [of "slot f i"] D(11) [of "slot f i"] by (cases "slot f i \<in> set ps") auto
  then have m: "mp1_malloc (ld m) f sz = Some (case find (\<lambda>i. ld16 (ld m) (slot f i) = Some 0) [0..<2000] of None \<Rightarrow> 0 | Some i \<Rightarrow> slot f i)"
    using malloc_scan_finds [of "[0..<2000]" "ld m" f] by (simp add: mp1_malloc_def)
  have len: "length bs = card (set ps)" using D(7,12) by (simp add: distinct_card)
  show ?thesis
  proof (cases "find (\<lambda>i. ld16 (ld m) (slot f i) = Some 0) [0..<2000]")
    case None
    then have "slots f \<subseteq> set ps" using D(11) by (fastforce simp: find_None_iff)
    then have "card (slots f) \<le> card (set ps)" by (intro card_mono) auto
    then have "2000 \<le> length bs" using slots_card [OF D(1)] by (simp add: len)
    then show ?thesis using m None by simp
  next
    case (Some j)
    then have j: "slot f j \<in> slots f" "ld16 (ld m) (slot f j) = Some 0" by (auto simp: find_Some_iff)
    then have p: "slot f j \<notin> set ps" using used D(10) by fastforce
    then have "set ps \<subset> slots f" using j(1) D(8) by blast
    then have "card (set ps) < card (slots f)" by (intro psubset_card_mono) auto
    then have "length bs < 2000" using slots_card [OF D(1)] by (simp add: len)
    then show ?thesis using m Some j(1) p by simp
  qed
qed

text \<open>A free element takes its place at the head of the list.\<close>

lemma push_front:
  assumes i: "blinking cell ld f V temp A ps bs vid m" and p: "p \<in> slots f" "p \<notin> set ps"
    and b: "blink_at (ld m) temp b" "location b \<noteq> 0" "location b < 2000"
  shows "\<exists>m1 h m2 m3 m4. ece391_memcpy ld st p temp STRUCT_SIZE m = Some (0, m1) \<and> ld32 (ld m1) (mp1_list_head f) = Some h \<and>
    st32 st (p + NEXT) h m1 = Some m2 \<and> st32 st (mp1_list_head f) p m2 = Some m3 \<and> blink_at (ld m3) p b \<and>
    mp1_poke ld st f (on_char b) (push_bit 1 (ucast (location b))) m3 = Some m4 \<and>
    blinking cell ld f V temp A (p # ps) (b # bs) (draw (location b) (on_char b) vid) m4 \<and>
    alters ld rest A (span (blink_array f) 32000 \<union> span (mp1_list_head f) 4 \<union> span V 4000) m m4"
proof -
  note D = blinkingD [OF i]
  note pA = slot_facts [OF D(1) p(1)]
  let ?e = "mp1_list_head f"
  have head: "?e \<in> link_slots f" "p + NEXT \<in> link_slots f" "?e \<noteq> p + NEXT" using p(1) head_no_link [OF D(1) p(1)] by auto
  have tA: "span temp 16 \<subseteq> A" using D(1) by (simp add: fish_layout_def)
  obtain m1 where m1: "ece391_memcpy ld st p temp STRUCT_SIZE m = Some (0, m1)" "blink_at (ld m1) p b" "alters ld rest A (span p 16) m m1"
    using copy_struct [OF D(2) pA(1) tA] pA(3) b(1) by blast
  obtain h where h: "ld32 (ld m) ?e = Some h" using D(6) by (cases ps) auto
  have link1: "ld32 (ld m1) x = ld32 (ld m) x" if "x \<in> link_slots f" "x \<noteq> p + NEXT" for x
    using link_facts(1) [OF D(1) that(1)] link_facts(4) [OF D(1) that(1) p(1) that(2)] by (intro ld32_alters [OF m1(3)]) blast
  have o1: "owns cell A m1" using D(2) owns_alters [OF m1(3)] by simp
  obtain m2 where m2: "st32 st (p + NEXT) h m1 = Some m2" "ld32 (ld m2) (p + NEXT) = Some h" "alters ld rest A (span (p + NEXT) 4) m1 m2"
    using st32_owned [OF o1 link_facts(1) [OF D(1) head(2)]] by blast
  have o2: "owns cell A m2" using o1 owns_alters [OF m2(3)] by simp
  obtain m3 where m3: "st32 st ?e p m2 = Some m3" "ld32 (ld m3) ?e = Some p" "alters ld rest A (span ?e 4) m2 m3"
    using st32_owned [OF o2 link_facts(1) [OF D(1) head(1)]] by blast
  have o3: "owns cell A m3" using o2 owns_alters [OF m3(3)] by simp
  have "ld32 (ld m3) (vmem_base_addr f) = Some V" "bytes_at (ld m3) V vid"
    using screen_kept [OF i m1(3)] screen_kept [OF i m2(3)] screen_kept [OF i m3(3)] D(3,5) pA(3)
      link_facts(2) [OF D(1) head(1)] link_facts(2) [OF D(1) head(2)] by (simp_all add: Int_Un_distrib)
  then obtain m4 where m4: "mp1_poke ld st f (on_char b) (push_bit 1 (ucast (location b))) m3 = Some m4"
    "bytes_at (ld m4) V (draw (location b) (on_char b) vid)" "alters ld rest A (span V 4000) m3 m4"
    using poke_draws [OF o3 _ D(14,4) _ b(3), of f "on_char b"] by blast
  have same: "ld32 (ld m4) x = ld32 (ld m3) x" if "x \<in> link_slots f" for x
    using link_facts(1,2) [OF D(1) that] by (intro ld32_alters [OF m4(3)]) blast
  have other: "ld32 (ld m') x = ld32 (ld m) x"
    if "alters ld rest A (span y 4) m m'" "x \<in> link_slots f" "y \<in> link_slots f" "x \<noteq> y" for m m' x y
    using link_facts(1) [OF D(1) that(2)] link_facts(3) [OF D(1) that(2,3)] that(4) by (intro ld32_alters [OF that(1)]) blast
  have next4: "ld32 (ld m4) (q + NEXT) = ld32 (ld m) (q + NEXT)" if q: "q \<in> set ps" for q
  proof -
    have x: "q + NEXT \<in> link_slots f" "q + NEXT \<noteq> p + NEXT" "q + NEXT \<noteq> ?e" using q p(2) D(8) head_no_link [OF D(1), of q] by auto
    then show ?thesis
      using same [OF x(1)] other [OF m3(3) x(1) head(1) x(3)] other [OF m2(3) x(1) head(2) x(2)] link1 [OF x(1,2)] by simp
  qed
  have e4: "ld32 (ld m4) ?e = Some p" "ld32 (ld m4) (p + NEXT) = Some h"
    using same head m3(2) m2(2) other [OF m3(3) head(2,1)] by auto
  have "links (ld m4) (p + NEXT) ps"
    using D(6) links_cong [of "ld m4" "p + NEXT" "ld m" ?e ps] e4(2) h next4 by simp
  then have "links (ld m4) ?e (p # ps)" using e4(1) by simp
  moreover have keep: "blink_at (ld m4) q c \<longleftrightarrow> blink_at (ld m1) q c" "ld16 (ld m4) q = ld16 (ld m1) q" if "q \<in> slots f" for q c
    using link_blink [OF D(1) head(2) m2(3) that] link_blink [OF D(1) head(1) m3(3) that]
      blink_alters(1,3) [OF m4(3) slot_facts(1) [OF D(1) that]] slot_facts(3) [OF D(1) that] by (simp_all add: Int_Un_distrib)
  have keep1: "blink_at (ld m1) q c \<longleftrightarrow> blink_at (ld m) q c" "ld16 (ld m1) q = ld16 (ld m) q" if "q \<in> slots f" "q \<noteq> p" for q c
    using blink_alters(1,3) [OF m1(3) slot_facts(1) [OF D(1) that(1)]] slot_facts(4) [OF D(1) p(1) that] by simp_all
  have "list_all2 (blink_at (ld m4)) ps bs"
  proof (rule blinks_cong [OF D(9)])
    fix q c assume "q \<in> set ps"
    then have "q \<in> slots f" "q \<noteq> p" using D(8) p(2) by auto
    then show "blink_at (ld m4) q c \<longleftrightarrow> blink_at (ld m) q c" using keep(1) keep1(1) by simp
  qed
  moreover have "blink_at (ld m4) p b" using keep(1) [OF p(1)] m1(2) by simp
  moreover have "ld16 (ld m4) q = Some 0" if "q \<in> slots f - set (p # ps)" for q
    using keep(2) keep1(2) D(11) that by simp
  moreover have "ld32 (ld m4) (vmem_base_addr f) = Some V"
  proof -
    have "span (vmem_base_addr f) 4 \<subseteq> A - span V 4000" using D(1) unfolding fish_layout_def by blast
    then show ?thesis using ld32_alters [OF m4(3)] \<open>ld32 (ld m3) (vmem_base_addr f) = Some V\<close> by simp
  qed
  moreover have "owns cell A m4" using o3 owns_alters [OF m4(3)] by simp
  ultimately have "blinking cell ld f V temp A (p # ps) (b # bs) (draw (location b) (on_char b) vid) m4"
    using D(1,4,7,8,10) m4(2) p b(2,3) unfolding blinking_def by simp
  moreover have "blink_at (ld m3) p b"
    using link_blink(1) [OF D(1) head(2) m2(3) p(1)] link_blink(1) [OF D(1) head(1) m3(3) p(1)] m1(2) by simp
  moreover have "ld32 (ld m1) ?e = Some h" using link1 [OF head(1,3)] h by simp
  moreover have "alters ld rest A (span (blink_array f) 32000 \<union> span ?e 4 \<union> span V 4000) m m4"
  proof -
    let ?U = "span (blink_array f) 32000 \<union> span ?e 4 \<union> span V 4000"
    have U: "span p 16 \<subseteq> ?U" "span (p + NEXT) 4 \<subseteq> ?U" "span ?e 4 \<subseteq> ?U" "span V 4000 \<subseteq> ?U"
      using array_slots [OF D(1) p(1)] struct_fields(8) [of p] by auto
    have "alters ld rest A ?U m m1" "alters ld rest A ?U m1 m2" "alters ld rest A ?U m2 m3" "alters ld rest A ?U m3 m4"
      using alters_mono [OF m1(3) U(1)] alters_mono [OF m2(3) U(2)] alters_mono [OF m3(3) U(3)] alters_mono [OF m4(3) U(4)] .
    then show ?thesis by (meson alt.eff_trans)
  qed
  ultimately show ?thesis using m1(1) m2(1) m3(1) m4(1) by blast
qed

end

section \<open>The calls refine the operations on the list\<close>

text \<open>The structure that a call is given: apart from what the module uses.\<close>

definition argument_apart :: "fish_vars \<Rightarrow> u32 \<Rightarrow> u32 \<Rightarrow> u32 set \<Rightarrow> u32 \<Rightarrow> bool" where
  "argument_apart f V temp A prm \<longleftrightarrow> span prm 16 \<subseteq> A \<and>
     span prm 16 \<inter> (span (blink_array f) 32000 \<union> span (mp1_list_head f) 4 \<union> span (vmem_base_addr f) 4 \<union> span temp 16 \<union> span V 4000) = {}"

text \<open>The second argument of \<open>mp1_ioctl\<close> stands for the command. Location 0 marks a free element, so it cannot be added.\<close>

primrec cmd_arg :: "(u32 \<Rightarrow> u8 option) \<Rightarrow> fish_vars \<Rightarrow> u32 \<Rightarrow> u32 \<Rightarrow> u32 set \<Rightarrow> u32 \<Rightarrow> blink_cmd \<Rightarrow> bool" where
  "cmd_arg r f V temp A prm (Add b) \<longleftrightarrow> argument_apart f V temp A prm \<and> blink_at r prm b \<and> location b \<noteq> 0"
| "cmd_arg r f V temp A prm (Remove l) \<longleftrightarrow> ucast prm = l"
| "cmd_arg r f V temp A prm (Find l) \<longleftrightarrow> argument_apart f V temp A prm \<and> ld16 r prm = Some l"
| "cmd_arg r f V temp A prm (Sync l l') \<longleftrightarrow> ucast (drop_bit 16 prm) = l \<and> ucast (prm AND 0xFFFF) = l'"

context readable_memory
begin

lemma add_refines:
  assumes i: "blinking cell ld f V temp A ps bs vid m" and a: "cmd_arg (ld m) f V temp A prm (Add b)"
  shows "\<exists>m' ps'. mp1_ioctl_add ld st f temp prm m = Some (fst (blink_spec (Add b) (bs, vid)), m') \<and>
    blinking cell ld f V temp A ps' (fst (snd (blink_spec (Add b) (bs, vid)))) (snd (snd (blink_spec (Add b) (bs, vid)))) m' \<and>
    alters ld rest A (span temp 16 \<union> span (blink_array f) 32000 \<union> span (mp1_list_head f) 4 \<union> span V 4000) m m'"
proof -
  let ?W = "span temp 16 \<union> span (blink_array f) 32000 \<union> span (mp1_list_head f) 4 \<union> span V 4000"
  note D = blinkingD [OF i]
  have arg: "span prm 16 \<subseteq> A" "span prm 16 \<inter> span temp 16 = {}" "blink_at (ld m) prm b" "location b \<noteq> 0"
    using a by (auto simp: argument_apart_def)
  have t: "span temp 16 \<subseteq> A"
    "span temp 16 \<inter> (span (blink_array f) 32000 \<union> span (mp1_list_head f) 4 \<union> span (vmem_base_addr f) 4 \<union> span V 4000) = {}"
    using D(1) unfolding fish_layout_def by blast+
  obtain m1 where m1: "ece391_memcpy ld st temp prm STRUCT_SIZE m = Some (0, m1)" "blink_at (ld m1) temp b" "alters ld rest A (span temp 16) m m1"
    using copy_struct [OF D(2) t(1) arg(1,2)] arg(3) by blast
  have l: "ld16 (ld m1) (temp + LOCATION) = Some (location b)" using m1(2) by (simp add: blink_at_def)
  show ?thesis
  proof (cases "80 * 25 \<le> location b")
    case True
    then have "mp1_ioctl_add ld st f temp prm m = Some (-1, m1)" using m1(1) l by (simp add: mp1_ioctl_add_def)
    moreover have "blink_spec (Add b) (bs, vid) = (-1, bs, vid)" using True by simp
    moreover have "alters ld rest A ?W m m1" using alters_mono [OF m1(3), of ?W] by blast
    ultimately show ?thesis using blinking_alters [OF i m1(3) t(2)] by auto
  next
    case False
    have o1: "owns cell A m1" using D(2) owns_alters [OF m1(3)] by simp
    let ?b2 = "b\<lparr>status := 1\<rparr>" and ?b3 = "b\<lparr>status := 1, countdown := on_length b\<rparr>"
    obtain m2 where m2: "st16 st (temp + STATUS) 1 m1 = Some m2" "blink_at (ld m2) temp ?b2" "alters ld rest A (span temp 16) m1 m2"
      using st_field [OF o1 t(1) m1(2), of 10 ?b2 1] by auto
    have o2: "owns cell A m2" using o1 owns_alters [OF m2(3)] by simp
    obtain m3 where m3: "st16 st (temp + COUNTDOWN) (on_length b) m2 = Some m3" "blink_at (ld m3) temp ?b3"
      "alters ld rest A (span temp 16) m2 m3"
      using st_field [OF o2 t(1) m2(2), of 8 ?b3 "on_length b"] by auto
    have on2: "ld16 (ld m2) (temp + ON_LENGTH) = Some (on_length b)" using m2(2) by (simp add: blink_at_def)
    have a3: "alters ld rest A (span temp 16) m m3" using m1(3) m2(3) m3(3) by (meson alt.eff_trans)
    then have i3: "blinking cell ld f V temp A ps bs vid m3" using t(2) by (rule blinking_alters [OF i])
    obtain p where p: "mp1_malloc (ld m3) f STRUCT_SIZE = Some p" "if length bs < 2000 then p \<in> slots f \<and> p \<notin> set ps else p = 0"
      using malloc_finds [OF i3] by blast
    show ?thesis
    proof (cases "length bs < 2000")
      case True
      then have ps: "p \<in> slots f" "p \<notin> set ps" "p \<noteq> 0" using p(2) slot_facts(2) [OF D(1), of p] by auto
      have l3: "location ?b3 \<noteq> 0" "location ?b3 < 2000" using arg(4) False by simp_all
      obtain m4 h m5 m6 m7 where m: "ece391_memcpy ld st p temp STRUCT_SIZE m3 = Some (0, m4)" "ld32 (ld m4) (mp1_list_head f) = Some h"
        "st32 st (p + NEXT) h m4 = Some m5" "st32 st (mp1_list_head f) p m5 = Some m6" "blink_at (ld m6) p ?b3"
        "mp1_poke ld st f (on_char b) (push_bit 1 (ucast (location b))) m6 = Some m7"
        "blinking cell ld f V temp A (p # ps) (?b3 # bs) (draw (location b) (on_char b) vid) m7"
        "alters ld rest A (span (blink_array f) 32000 \<union> span (mp1_list_head f) 4 \<union> span V 4000) m3 m7"
        using push_front [OF i3 ps(1,2) m3(2) l3] by auto
      have "ld16 (ld m6) (p + LOCATION) = Some (location b)" "ld m6 (p + ON_CHAR) = Some (on_char b)"
        using m(5) by (simp_all add: blink_at_def)
      then have "mp1_ioctl_add ld st f temp prm m = Some (0, m7)"
        using False m1(1) l m2(1) on2 m3(1) p(1) ps(3) m by (simp add: mp1_ioctl_add_def)
      moreover have "blink_spec (Add b) (bs, vid) = (0, ?b3 # bs, draw (location b) (on_char b) vid)" using True False by simp
      moreover have "alters ld rest A ?W m m7" using a3 m(8) by (rule alters_then) auto
      ultimately show ?thesis using m(7) by auto
    next
      case full: False
      then have "mp1_ioctl_add ld st f temp prm m = Some (-1, m3)"
        using False m1(1) l m2(1) on2 m3(1) p by (simp add: mp1_ioctl_add_def)
      moreover have "blink_spec (Add b) (bs, vid) = (-1, bs, vid)" using full by simp
      moreover have "alters ld rest A ?W m m3" using alters_mono [OF a3, of ?W] by blast
      ultimately show ?thesis using i3 by auto
    qed
  qed
qed

lemma find_refines:
  assumes i: "blinking cell ld f V temp A ps bs vid m" and a: "cmd_arg (ld m) f V temp A prm (Find l)"
  shows "\<exists>m'. mp1_ioctl_find ld st f temp prm m = Some (if find (\<lambda>b. location b = l) bs = None then -1 else 0, m') \<and>
    blinking cell ld f V temp A ps bs vid m' \<and> (\<forall>b. find (\<lambda>b. location b = l) bs = Some b \<longrightarrow> blink_at (ld m') prm b)"
proof -
  note D = blinkingD [OF i]
  have arg: "span prm 16 \<subseteq> A" "span prm 16 \<inter> span temp 16 = {}" "ld16 (ld m) prm = Some l"
    "span prm 16 \<inter> (span (blink_array f) 32000 \<union> span (mp1_list_head f) 4 \<union> span (vmem_base_addr f) 4 \<union> span V 4000) = {}"
    using a by (auto simp: argument_apart_def)
  have t: "span temp 16 \<subseteq> A"
    "span temp 16 \<inter> (span (blink_array f) 32000 \<union> span (mp1_list_head f) 4 \<union> span (vmem_base_addr f) 4 \<union> span V 4000) = {}"
    using D(1) unfolding fish_layout_def by blast+
  have two: "span temp 2 \<subseteq> span temp 16" "span prm 2 \<subseteq> span prm 16" by (rule struct_fields)+
  obtain m1 where m1: "ece391_memcpy ld st temp prm 2 m = Some (0, m1)" "ld16 (ld m1) temp = Some l" "alters ld rest A (span temp 2) m m1"
  proof -
    have "span temp 2 \<subseteq> A" "span prm 2 \<subseteq> A" "span prm 2 \<inter> span temp 2 = {}" using two t(1) arg(1,2) by blast+
    then show thesis using that copy_location [OF D(2), of temp prm] arg(3) by auto
  qed
  have "alters ld rest A (span temp 16) m m1" using alters_mono [OF m1(3) two(1)] .
  then have i1: "blinking cell ld f V temp A ps bs vid m1" using t(2) by (rule blinking_alters [OF i])
  note D1 = blinkingD [OF i1]
  have f: "mp1_find_helper (ld m1) f (ucast l) = Some (first_at l ps bs)" using find_helper_finds [OF i1, of "ucast l"]
    by (simp add: ucast_u16)
  show ?thesis
  proof (cases "first_at l ps bs = 0")
    case True
    then have "mp1_ioctl_find ld st f temp prm m = Some (-1, m1)" using m1(1,2) f by (simp add: mp1_ioctl_find_def)
    moreover have "find (\<lambda>b. location b = l) bs = None" using first_not_found [OF i1] True by simp
    ultimately show ?thesis using i1 by simp
  next
    case False
    obtain b where b: "first_at l ps bs \<in> slots f" "blink_at (ld m1) (first_at l ps bs) b" "find (\<lambda>b. location b = l) bs = Some b"
      using first_blink [OF i1 False] by blast
    have "span (first_at l ps bs) 16 \<inter> span prm 16 = {}" using array_slots [OF D(1) b(1)] arg(4) by blast
    then obtain m2 where m2: "ece391_memcpy ld st prm (first_at l ps bs) STRUCT_SIZE m1 = Some (0, m2)" "blink_at (ld m2) prm b"
      "alters ld rest A (span prm 16) m1 m2"
      using copy_struct [OF D1(2) arg(1) slot_facts(1) [OF D(1) b(1)]] b(2) by blast
    have "mp1_ioctl_find ld st f temp prm m = Some (0, m2)" using m1(1,2) f False m2(1) by (simp add: mp1_ioctl_find_def)
    then show ?thesis using blinking_alters [OF i1 m2(3) arg(4)] m2(2) b(3) by simp
  qed
qed

lemma ioctl_refines:
  assumes i: "blinking cell ld f V temp A ps bs vid m" and a: "cmd_arg (ld m) f V temp A prm c"
    and s: "blink_spec c (bs, vid) = (v, bs', vid')"
  shows "\<exists>m' ps'. mp1_ioctl ld st f temp prm (cmd_number c) m = Some (v, m') \<and> blinking cell ld f V temp A ps' bs' vid' m' \<and>
    (\<forall>l b. c = Find l \<longrightarrow> find (\<lambda>b. location b = l) bs = Some b \<longrightarrow> blink_at (ld m') prm b)"
proof (cases c)
  case (Add b)
  then show ?thesis using add_refines [OF i, of prm b] a s by (auto simp: mp1_ioctl_def simp del: blink_spec.simps)
next
  case (Remove l)
  then show ?thesis using remove_refines [OF i, of prm l] a s by (auto simp: mp1_ioctl_def)
next
  case (Find l)
  have "l \<in> location ` set bs \<longleftrightarrow> find (\<lambda>b. location b = l) bs \<noteq> None" by (auto simp: find_None_iff)
  then show ?thesis using find_refines [OF i, of prm l] a s Find by (auto simp: mp1_ioctl_def)
next
  case (Sync l l')
  then show ?thesis using sync_refines [OF i, of prm l l'] a s by (auto simp: mp1_ioctl_def simp del: blink_spec.simps)
qed

end

interpretation usermem: readable_memory "xlate User" uld8 ust8 "hidden User"
  by unfold_locales (auto simp: uld8_def)

section \<open>The module in a program\<close>

text \<open>The variables lie in the program; the screen is the first page at one gigabyte, as \<open>sys_vidmap\<close> maps it.\<close>

definition fish_space :: "u32 set" where
  "fish_space = {a. user_addr a} \<union> span ONE_GIG 4000"

lemma screen_addr: "a \<in> span ONE_GIG 4000 \<Longrightarrow> \<exists>k < 4000. a = ONE_GIG + of_nat k \<and> unat a = 0x40000000 + k"
proof -
  assume "a \<in> span ONE_GIG 4000"
  then obtain k where k: "k < 4000" "a = ONE_GIG + of_nat k" by (auto simp: span_def)
  moreover have "unat (ONE_GIG + of_nat k) = 0x40000000 + k" using k(1) unat_of_nat_u32 [of "0x40000000 + k"] by simp
  ultimately show ?thesis by blast
qed

lemma owns_space:
  assumes u: "user_page n s" and d: "displays s F" and F: "unat F + 4096 \<le> 0x800000"
  shows "owns (xlate User) fish_space s"
proof -
  have n: "n < 6" using u by (simp add: user_page_def)
  have x: "xlate User s a = (if user_addr a then Some (cell_of n a) else Some (F + (a - ONE_GIG)))" if a: "a \<in> fish_space" for a
  proof (cases "user_addr a")
    case True
    then show ?thesis using user_xlate [OF u] by simp
  next
    case False
    then have "a \<in> span ONE_GIG 4000" using a by (simp add: fish_space_def)
    then obtain k where "k < 4000" "a = ONE_GIG + of_nat k" using screen_addr by blast
    then show ?thesis using False displays_xlate [OF d, of k] by simp
  qed
  have low: "unat (F + (a - ONE_GIG)) < 0x800000" if a: "a \<in> fish_space" "\<not> user_addr a" for a
  proof -
    have "a \<in> span ONE_GIG 4000" using a by (simp add: fish_space_def)
    then obtain k where "k < 4000" "a = ONE_GIG + of_nat k" using screen_addr by blast
    then show ?thesis using unat_of_nat_u32 [of "unat F + k"] F by simp
  qed
  have "inj_on (xlate User s) fish_space"
  proof (rule inj_onI)
    fix a b assume ab: "a \<in> fish_space" "b \<in> fish_space" "xlate User s a = xlate User s b"
    show "a = b"
    proof (cases "user_addr a \<longleftrightarrow> user_addr b")
      case True
      then show ?thesis using ab cell_of_inj [OF n] x by (cases "user_addr a") auto
    next
      case False
      then show ?thesis using ab x [OF ab(1)] x [OF ab(2)] low [OF ab(1)] low [OF ab(2)] cell_of_high [OF n, of a] cell_of_high [OF n, of b]
        by (auto split: if_splits)
    qed
  qed
  then show ?thesis using x by (auto simp: owns_def)
qed

text \<open>The variables apart from each other.\<close>

definition fish_data :: "fish_vars \<Rightarrow> u32 \<Rightarrow> bool" where
  "fish_data f temp \<longleftrightarrow> in_program (blink_array f) 32000 \<and> in_program (mp1_list_head f) 4 \<and> in_program (vmem_base_addr f) 4 \<and>
     in_program temp 16 \<and> span (blink_array f) 32000 \<inter> (span (mp1_list_head f) 4 \<union> span (vmem_base_addr f) 4 \<union> span temp 16) = {} \<and>
     span (mp1_list_head f) 4 \<inter> (span (vmem_base_addr f) 4 \<union> span temp 16) = {} \<and> span (vmem_base_addr f) 4 \<inter> span temp 16 = {}"

lemma program_apart_screen: "in_program a k \<Longrightarrow> span a k \<inter> span ONE_GIG 4000 = {}"
proof -
  assume a: "in_program a k"
  have "\<not> user_addr b" if "b \<in> span ONE_GIG 4000" for b using screen_addr [OF that] by (auto simp: user_addr_def)
  then show ?thesis using span_in_program [OF a] by blast
qed

lemma fish_data_layout: "fish_data f temp \<Longrightarrow> fish_layout f ONE_GIG temp fish_space"
proof -
  assume d: "fish_data f temp"
  then have p: "in_program (blink_array f) 32000" "in_program (mp1_list_head f) 4" "in_program (vmem_base_addr f) 4" "in_program temp 16"
    by (simp_all add: fish_data_def)
  have "span a k \<subseteq> fish_space" if "in_program a k" for a k using span_in_program [OF that] by (auto simp: fish_space_def)
  note sub = this [OF p(1)] this [OF p(2)] this [OF p(3)] this [OF p(4)]
  have "0 < unat (blink_array f)" "unat (blink_array f) + 32000 \<le> 2 ^ 32" using p(1) by (simp_all add: in_program_def)
  then show ?thesis
    using d sub program_apart_screen [OF p(1)] program_apart_screen [OF p(2)] program_apart_screen [OF p(3)] program_apart_screen [OF p(4)]
    by (simp add: fish_layout_def fish_data_def Int_Un_distrib) (simp add: fish_space_def)
qed

text \<open>The state of the module in the memory of the running program.\<close>

definition fish_blinks ::
  "fish_vars \<Rightarrow> u32 \<Rightarrow> u32 list \<Rightarrow> mp1_blink_struct list \<Rightarrow> u8 list \<Rightarrow> 'a mach_scheme \<Rightarrow> bool" where
  "fish_blinks f temp ps bs vid s \<longleftrightarrow> blinking (xlate User) uld8 f ONE_GIG temp fish_space ps bs vid s"

text \<open>With the array cleared and the screen mapped, the list is empty.\<close>

lemma fish_blinks_start:
  assumes u: "user_page n s" and d: "displays s F" "unat F + 4096 \<le> 0x800000" and f: "fish_data f temp"
    and z: "bytes_at (uld8 s) (blink_array f) (replicate 32000 0)" "ld32 (uld8 s) (mp1_list_head f) = Some 0"
    and v: "ld32 (uld8 s) (vmem_base_addr f) = Some ONE_GIG"
  shows "\<exists>vid. fish_blinks f temp [] [] vid s"
proof -
  note o = owns_space [OF u d]
  obtain vid where vid: "length vid = 4000" "bytes_at (uld8 s) ONE_GIG vid"
    using usermem.readable [OF o, of ONE_GIG 4000] by (auto simp: fish_space_def)
  have "ld16 (uld8 s) p = Some 0" if p: "p \<in> slots f" for p
  proof -
    obtain i where i: "i < 2000" "p = blink_array f + of_nat (16 * i)" using p by (auto simp: slot_def)
    then show ?thesis
      using bytes_at_nth [OF z(1), of "16 * i"] bytes_at_nth [OF z(1), of "16 * i + 1"] by (simp add: ld16_def ac_simps)
  qed
  then show ?thesis using o vid z(2) v fish_data_layout [OF f] unfolding fish_blinks_def blinking_def by auto
qed

text \<open>
  C31. The blinking characters of \<open>fish\<close>: each call of \<open>mp1_ioctl\<close> on the linked list in the program's
  memory returns, and does to the list and the screen what the operation on lists does: \<open>Add\<close> puts the
  element in front, on, and draws it (it refuses a location off the screen and the 2001st element),
  \<open>Remove\<close> takes out and frees the first element at a location, \<open>Find\<close> copies it to the caller,
  \<open>Sync\<close> gives one element the timing of another; all answer -1 when there is no such element.
  All locations are other than 0: \<open>mp1_malloc\<close> takes an element at location 0 for free, so after an
  \<open>Add\<close> at 0, the top left corner, which the code accepts, the list can become a cycle, on which
  nothing returns. \<open>cmd_arg\<close> and \<open>fish_blinks\<close> exclude it.
\<close>

theorem mp1_ioctl_refines:
  assumes "fish_blinks f temp ps bs vid s" "cmd_arg (uld8 s) f ONE_GIG temp fish_space prm c"
    and "blink_spec c (bs, vid) = (v, bs', vid')"
  shows "\<exists>s' ps'. mp1_ioctl uld8 ust8 f temp prm (cmd_number c) s = Some (v, s') \<and> fish_blinks f temp ps' bs' vid' s' \<and>
    (\<forall>l b. c = Find l \<longrightarrow> find (\<lambda>b. location b = l) bs = Some b \<longrightarrow> blink_at (uld8 s') prm b)"
  using usermem.ioctl_refines [OF assms(1) [unfolded fish_blinks_def] assms(2,3)] by (simp add: fish_blinks_def)

text \<open>
  C32. \<open>mp1_rtc_tasklet\<close> returns, whatever the length of the list, and ticks every element: each counts
  down, and one whose time is up is drawn with its other character for that character's length. Only
  the elements of the list and the screen change.
\<close>

theorem mp1_rtc_tasklet_ticks:
  assumes "fish_blinks f temp ps bs vid s"
  shows "\<exists>s'. mp1_rtc_tasklet uld8 ust8 f s = Some s' \<and> fish_blinks f temp ps (map tick bs) (fold tick_draw bs vid) s' \<and>
    alters uld8 (hidden User) fish_space (\<Union>p \<in> set ps. span p 16 \<union> span ONE_GIG 4000) s s'"
  using umem.tasklet_ticks [OF assms [unfolded fish_blinks_def]] by (simp add: fish_blinks_def)

definition demo_fish_vars :: fish_vars where
  "demo_fish_vars = \<lparr>mp1_list_head = 0x8110000, blink_array = 0x8100000, vmem_base_addr = 0x8110010\<rparr>"

definition demo_blink :: mp1_blink_struct where
  "demo_blink = \<lparr>location = 0x105, on_char = 73, off_char = 77, on_length = 1, off_length = 6, countdown = 0, status = 0\<rparr>"

definition demo_fish :: tty_state where
  "demo_fish = demo_tty\<lparr>phys := image_bytes [(0xD10010, le_bytes ONE_GIG), (0xD30000, [5, 1, 73, 77, 1, 0, 6, 0, 0, 0, 0, 0])],
     page_directory := (page_directory demo_tty)(32 := program_page 1)\<rparr>"

lemma demo_fish_page: "user_page 1 demo_fish"
  by (simp add: user_page_def kernel_mapped_def demo_fish_def) (simp add: demo_tty_def initialize_page_eq)

lemma demo_fish_displays: "displays demo_fish 0xB8000"
proof -
  have "video_ok demo_fish" using demo_tty_console(1) by (simp add: console_def demo_fish_def video_ok_def linked_def)
  moreover have "page_table_vid demo_fish 0 = 0xB8000 OR 7"
    by (simp add: demo_fish_def) (simp add: demo_tty_def initialize_page_eq)
  ultimately show ?thesis by (simp add: displays_paged)
qed

lemma demo_fish_byte:
  assumes "n < 0x400000"
  shows "uld8 demo_fish (0x8000000 + of_nat n) = Some (image_bytes [(0xD10010, le_bytes ONE_GIG), (0xD30000, [5, 1, 73, 77, 1, 0, 6, 0, 0, 0, 0, 0])] (0xC00000 + of_nat n))"
proof -
  have u: "unat (0x8000000 + of_nat n :: u32) = 0x8000000 + n" using unat_of_nat_u32 [of "0x8000000 + n"] assms by simp
  then have "user_addr (0x8000000 + of_nat n)" "cell_of 1 (0x8000000 + of_nat n) = 0xC00000 + of_nat n"
    using assms by (simp_all add: user_addr_def cell_of_def)
  then show ?thesis using uld8_cell [OF demo_fish_page] by (simp add: demo_fish_def)
qed

lemma demo_fish_zero: "n < 0x110010 \<Longrightarrow> uld8 demo_fish (0x8000000 + of_nat n) = Some 0"
proof -
  assume n: "n < 0x110010"
  have u: "unat (0xC00000 + of_nat n :: u32) = 0xC00000 + n" using unat_of_nat_u32 [of "0xC00000 + n"] n by simp
  have "find (in_seg (0xC00000 + of_nat n)) [(0xD10010, le_bytes ONE_GIG), (0xD30000, [5, 1, 73, 77, 1, 0, 6, 0, 0, 0, 0, 0])] = None \<and>
    image_bytes [(0xD10010, le_bytes ONE_GIG), (0xD30000, [5, 1, 73, 77, 1, 0, 6, 0, 0, 0, 0, 0])] (0xC00000 + of_nat n) = 0"
    using u n not_in_seg_below [of "0xC00000 + of_nat n" "0xD10010" "le_bytes ONE_GIG"]
      not_in_seg_below [of "0xC00000 + of_nat n" "0xD30000" "[5, 1, 73, 77, 1, 0, 6, 0, 0, 0, 0, 0]"]
    by (intro image_none) auto
  then show ?thesis using demo_fish_byte [of n] n by simp
qed

lemma demo_span: "unat a + k < 2 ^ 32 \<Longrightarrow> x \<in> span a k \<Longrightarrow> unat a \<le> unat x \<and> unat x < unat a + k"
  using unat_of_nat_u32 [of "unat a + i" for i] by (auto simp: span_def)

lemma apart_spans: "unat a + k < 2 ^ 32 \<Longrightarrow> unat b + l < 2 ^ 32 \<Longrightarrow> unat a + k \<le> unat b \<or> unat b + l \<le> unat a \<Longrightarrow> span a k \<inter> span b l = {}"
  using demo_span by (meson disjoint_iff dual_order.strict_trans1 linorder_not_le)

lemma demo_fish_data: "fish_data demo_fish_vars 0x8120000"
  unfolding fish_data_def Int_Un_distrib by (simp add: demo_fish_vars_def in_program_def apart_spans)

lemma demo_fish_start: "\<exists>vid. fish_blinks demo_fish_vars 0x8120000 [] [] vid demo_fish"
proof (rule fish_blinks_start [OF demo_fish_page demo_fish_displays _ demo_fish_data])
  have "uld8 demo_fish (0x8100000 + of_nat i) = Some 0" if "i < 32000" for i
    using demo_fish_zero [of "0x100000 + i"] that by simp
  then show "bytes_at (uld8 demo_fish) (blink_array demo_fish_vars) (replicate 32000 0)"
    by (simp add: bytes_at_def demo_fish_vars_def)
  show "ld32 (uld8 demo_fish) (mp1_list_head demo_fish_vars) = Some 0"
    using demo_fish_zero [of "0x110000"] demo_fish_zero [of "0x110001"] demo_fish_zero [of "0x110002"] demo_fish_zero [of "0x110003"]
    by (simp add: ld32_def demo_fish_vars_def le_word_def)
  have "bytes_at (uld8 demo_fish) 0x8110010 (le_bytes ONE_GIG)"
    using demo_fish_byte [of "0x110010"] demo_fish_byte [of "0x110011"] demo_fish_byte [of "0x110012"] demo_fish_byte [of "0x110013"]
    by (simp add: le_bytes_def bytes_at_Cons image_bytes_def)
  then show "ld32 (uld8 demo_fish) (vmem_base_addr demo_fish_vars) = Some ONE_GIG"
    using ld32_bytes_at by (simp add: demo_fish_vars_def)
qed simp

lemma demo_fish_arg: "cmd_arg (uld8 demo_fish) demo_fish_vars ONE_GIG 0x8120000 fish_space 0x8130000 (Add demo_blink)"
proof -
  have p: "in_program 0x8130000 16" by (simp add: in_program_def)
  have "blink_at (uld8 demo_fish) 0x8130000 demo_blink"
    using demo_fish_byte [of "0x130000"] demo_fish_byte [of "0x130001"] demo_fish_byte [of "0x130002"] demo_fish_byte [of "0x130003"]
      demo_fish_byte [of "0x130004"] demo_fish_byte [of "0x130005"] demo_fish_byte [of "0x130006"] demo_fish_byte [of "0x130007"]
      demo_fish_byte [of "0x130008"] demo_fish_byte [of "0x130009"] demo_fish_byte [of "0x13000A"] demo_fish_byte [of "0x13000B"]
    by (simp add: blink_at_def ld16_def demo_blink_def image_bytes_def le_bytes_def)
  moreover have "argument_apart demo_fish_vars ONE_GIG 0x8120000 fish_space 0x8130000"
    using span_in_program [OF p] program_apart_screen [OF p] unfolding argument_apart_def Int_Un_distrib
    by (auto simp: fish_space_def demo_fish_vars_def apart_spans)
  ultimately show ?thesis by (simp add: demo_blink_def)
qed

theorem mp1_ioctl_refines_witness:
  "\<exists>s' ps' vid. mp1_ioctl uld8 ust8 demo_fish_vars 0x8120000 0x8130000 0 demo_fish = Some (0, s') \<and>
    fish_blinks demo_fish_vars 0x8120000 ps' [demo_blink\<lparr>status := 1, countdown := 1\<rparr>] (draw 0x105 73 vid) s'"
proof -
  obtain vid where v: "fish_blinks demo_fish_vars 0x8120000 [] [] vid demo_fish" using demo_fish_start by blast
  have "blink_spec (Add demo_blink) ([], vid) = (0, [demo_blink\<lparr>status := 1, countdown := 1\<rparr>], draw 0x105 73 vid)"
    by (simp add: demo_blink_def)
  from mp1_ioctl_refines [OF v demo_fish_arg this] show ?thesis by auto
qed

theorem mp1_rtc_tasklet_ticks_witness:
  "\<exists>(s :: tty_state) s' ps vid. fish_blinks demo_fish_vars 0x8120000 ps [demo_blink\<lparr>status := 1, countdown := 1\<rparr>] vid s \<and>
    mp1_rtc_tasklet uld8 ust8 demo_fish_vars s = Some s' \<and>
    fish_blinks demo_fish_vars 0x8120000 ps [demo_blink\<lparr>status := 0, countdown := 6\<rparr>] (draw 0x105 77 vid) s'"
proof -
  obtain vid where v: "fish_blinks demo_fish_vars 0x8120000 [] [] vid demo_fish" using demo_fish_start by blast
  have a: "blink_spec (Add demo_blink) ([], vid) = (0, [demo_blink\<lparr>status := 1, countdown := 1\<rparr>], draw 0x105 73 vid)"
    by (simp add: demo_blink_def)
  obtain s :: tty_state and ps where s: "fish_blinks demo_fish_vars 0x8120000 ps [demo_blink\<lparr>status := 1, countdown := 1\<rparr>] (draw 0x105 73 vid) s"
    using usermem.ioctl_refines [OF v [unfolded fish_blinks_def] demo_fish_arg a] by (auto simp: fish_blinks_def)
  have "map tick [demo_blink\<lparr>status := 1, countdown := 1\<rparr>] = [demo_blink\<lparr>status := 0, countdown := 6\<rparr>]"
    "fold tick_draw [demo_blink\<lparr>status := 1, countdown := 1\<rparr>] v = draw 0x105 77 v" for v
    by (simp_all add: tick_def tick_draw_def demo_blink_def)
  then show ?thesis using s mp1_rtc_tasklet_ticks [OF s] by auto
qed

end
