(* ===== verification/Fish.thy ===== *)
theory Fish
  imports Blink_Spec
begin

text \<open>
  The program \<open>fish\<close>: \<open>fish.c\<close> without the routines that \<open>blink.S\<close> calls. As in the other programs the
  addresses of the local variables whose address is taken are parameters.
\<close>

section \<open>fish.c\<close>

definition mp1_set_video_mode where
  "mp1_set_video_mode irq f irqs s = do {
     (r, irqs, s) \<leftarrow> ece391_vidmap irq (vmem_base_addr f) irqs s;
     if r = -1 then Some (0 :: u32, irqs, s)
     else do { v \<leftarrow> ld32 (uld8 s) (vmem_base_addr f); Some (v, irqs, s) }
   }"

text \<open>
  The next character of a frame, unless its row has ended. At the end of the file the row ends.
\<close>

definition frame_char where
  "frame_char irq fd c eof irqs s = do {
     v \<leftarrow> uld8 s c;
     if v \<noteq> of_char (CHR ''\<newline>'') then do {
       (num_bytes, irqs, s) \<leftarrow> ece391_read irq fd c 1 irqs s;
       if num_bytes = 0 then do { s \<leftarrow> ust8 c (of_char (CHR ''\<newline>'')) s; Some (1 :: i32, irqs, s) }
       else Some (eof, irqs, s)
     }
     else Some (eof, irqs, s)
   }"

definition not_blank :: "u8 \<Rightarrow> bool" where
  "not_blank c \<longleftrightarrow> c \<noteq> of_char (CHR '' '') \<and> c \<noteq> of_char (CHR ''\<newline>'')"

definition or_space :: "u8 \<Rightarrow> u8" where
  "or_space c = (if c = of_char (CHR ''\<newline>'') then of_char (CHR '' '') else c)"

text \<open>One character of each frame becomes a blinking character.\<close>

definition add_cell where
  "add_cell f temp bst v0 v1 loc s =
     (if not_blank v0 \<or> not_blank v1 then do {
        s \<leftarrow> ust8 (bst + ON_CHAR) (or_space v0) s;
        s \<leftarrow> ust8 (bst + OFF_CHAR) (or_space v1) s;
        s \<leftarrow> st16 ust8 (bst + LOCATION) (ucast (loc :: i32)) s;
        (_, s) \<leftarrow> mp1_ioctl uld8 ust8 f temp bst 0 s;
        Some s
      }
      else Some s)"

partial_function (option) add_row where
  "add_row irq f temp fd0 fd1 c0 c1 bst row col eof0 eof1 irqs s = do {
     (eof0, irqs, s) \<leftarrow> frame_char irq fd0 c0 eof0 irqs s;
     (eof1, irqs, s) \<leftarrow> frame_char irq fd1 c1 eof1 irqs s;
     v0 \<leftarrow> uld8 s c0;
     v1 \<leftarrow> uld8 s c1;
     if v0 = of_char (CHR ''\<newline>'') \<and> v1 = of_char (CHR ''\<newline>'') then Some (eof0, eof1, irqs, s)
     else do {
       s \<leftarrow> add_cell f temp bst v0 v1 (row * 80 + col + 40) s;
       add_row irq f temp fd0 fd1 c0 c1 bst row (col + 1) eof0 eof1 irqs s
     }
   }"

text \<open>After a row: a frame that has ended stays at the end of its row, and is closed (again).\<close>

definition next_row where
  "next_row irq fd c eof irqs s =
     (if eof \<noteq> (0 :: i32) then do {
        s \<leftarrow> ust8 c (of_char (CHR ''\<newline>'')) s;
        (_, irqs, s) \<leftarrow> ece391_close irq fd irqs s;
        Some (irqs, s)
      }
      else do { s \<leftarrow> ust8 c (of_char (CHR ''0'')) s; Some (irqs, s) })"

partial_function (option) add_rows where
  "add_rows irq f temp fd0 fd1 c0 c1 bst row eof0 eof1 irqs s =
     (if eof0 = 0 \<or> eof1 = 0 then do {
        (eof0, eof1, irqs, s) \<leftarrow> add_row irq f temp fd0 fd1 c0 c1 bst row 0 eof0 eof1 irqs s;
        (irqs, s) \<leftarrow> next_row irq fd0 c0 eof0 irqs s;
        (irqs, s) \<leftarrow> next_row irq fd1 c1 eof1 irqs s;
        add_rows irq f temp fd0 fd1 c0 c1 bst (row + 1) eof0 eof1 irqs s
      }
      else Some (irqs, s))"

text \<open>A frame that cannot be opened ends the program (\<open>Inl\<close>).\<close>

definition add_frames where
  "add_frames irq f temp c0 c1 bst f0 f1 irqs s = do {
     s \<leftarrow> ust8 c0 (of_char (CHR ''0'')) s;
     s \<leftarrow> ust8 c1 (of_char (CHR ''0'')) s;
     s \<leftarrow> st16 ust8 (bst + ON_LENGTH) 15 s;
     s \<leftarrow> st16 ust8 (bst + OFF_LENGTH) 15 s;
     (fd0, irqs, s) \<leftarrow> ece391_open irq f0 irqs s;
     if fd0 <s 0 then map_option Inl (ece391_halt (-1) s)
     else do {
       (fd1, irqs, s) \<leftarrow> ece391_open irq f1 irqs s;
       if fd1 <s 0 then map_option Inl (ece391_halt (-1) s)
       else map_option Inr (add_rows irq f temp fd0 fd1 c0 c1 bst 0 0 0 irqs s)
     }
   }"

text \<open>A hundred ticks of the clock.\<close>

definition animate where
  "animate irq f rtc_fd garbage irqs s =
     for_each (\<lambda>i (irqs, s). do {
       (_, irqs, s) \<leftarrow> ece391_read irq rtc_fd garbage 4 irqs s;
       s \<leftarrow> mp1_rtc_tasklet uld8 ust8 f s;
       Some (irqs, s)
     }) [0..<100] (irqs, s)"

definition fish where
  "fish irq lit f temp ret_val garbage bst c0 c1 bst' irqs s = do {
     s \<leftarrow> ece391_memset ust8 (blink_array f) 0 (16 * 80 * 25) s;
     (v, irqs, s) \<leftarrow> mp1_set_video_mode irq f irqs s;
     if v = 0 then Some (Inr (-1 :: i32, irqs, s))
     else do {
       (rtc_fd, irqs, s) \<leftarrow> ece391_open irq (lit ''rtc'') irqs s;
       r \<leftarrow> add_frames irq f temp c0 c1 bst' (lit ''frame0.txt'') (lit ''frame1.txt'') irqs s;
       case r of Inl gone \<Rightarrow> Some (Inl gone)
       | Inr (irqs, s) \<Rightarrow> do {
         s \<leftarrow> write_bytes ust8 ret_val (le_bytes 32) s;
         (r, irqs, s) \<leftarrow> ece391_write irq rtc_fd ret_val 4 irqs s;
         s \<leftarrow> write_bytes ust8 ret_val (le_bytes r) s;
         (irqs, s) \<leftarrow> animate irq f rtc_fd garbage irqs s;
         s \<leftarrow> ust8 (bst + ON_CHAR) (of_char (CHR ''I'')) s;
         s \<leftarrow> ust8 (bst + OFF_CHAR) (of_char (CHR ''M'')) s;
         s \<leftarrow> st16 ust8 (bst + ON_LENGTH) 7 s;
         s \<leftarrow> st16 ust8 (bst + OFF_LENGTH) 6 s;
         s \<leftarrow> st16 ust8 (bst + LOCATION) (6 * 80 + 60) s;
         (_, s) \<leftarrow> mp1_ioctl uld8 ust8 f temp bst 0 s;
         (irqs, s) \<leftarrow> animate irq f rtc_fd garbage irqs s;
         (_, s) \<leftarrow> mp1_ioctl uld8 ust8 f temp (push_bit 16 40 OR (6 * 80 + 60)) 3 s;
         (irqs, s) \<leftarrow> animate irq f rtc_fd garbage irqs s;
         (_, s) \<leftarrow> mp1_ioctl uld8 ust8 f temp (6 * 80 + 60) 1 s;
         (irqs, s) \<leftarrow> animate irq f rtc_fd garbage irqs s;
         (_, irqs, s) \<leftarrow> ece391_close irq rtc_fd irqs s;
         Some (Inr (0, irqs, s))
       }
     }
   }"

end
