(* ===== verification/Fish_Spec.thy ===== *)
theory Fish_Spec
  imports Fish
begin

text \<open>
  What \<open>add_frames\<close> of \<open>fish.c\<close> does on the kernel: it reads two text files in step, row by row, and
  adds a blinking character for every place where not both have a blank. The theory puts the file
  calls, the list of \<open>blink.S\<close> and the screen of \<open>sys_vidmap\<close> together.
\<close>

section \<open>Frames of text\<close>

abbreviation (input) "nl \<equiv> (10 :: u8)"
abbreviation (input) "blank \<equiv> (32 :: u8)"

lemma char_codes [simp]: "(of_char (CHR ''\<newline>'') :: u8) = 10" "(of_char (CHR '' '') :: u8) = 32" "(of_char (CHR ''0'') :: u8) = 48"
  by simp_all

text \<open>The rows of a text: what follows the last newline is a row of its own.\<close>

primrec text_rows :: "u8 list \<Rightarrow> u8 list list" where
  "text_rows [] = [[]]"
| "text_rows (c # t) = (if c = nl then [] # text_rows t else (c # hd (text_rows t)) # tl (text_rows t))"

type_synonym cell = "nat \<times> u8 \<times> u8"

fun row_cells :: "nat \<Rightarrow> u8 list \<Rightarrow> u8 list \<Rightarrow> cell list" where
  "row_cells k [] [] = []"
| "row_cells k (a # as) [] = (k, a, blank) # row_cells (k + 1) as []"
| "row_cells k [] (b # bs) = (k, blank, b) # row_cells (k + 1) [] bs"
| "row_cells k (a # as) (b # bs) = (k, a, b) # row_cells (k + 1) as bs"

text \<open>The frames begin in column 40.\<close>

fun frame_cells :: "nat \<Rightarrow> u8 list list \<Rightarrow> u8 list list \<Rightarrow> cell list" where
  "frame_cells r [] [] = []"
| "frame_cells r (a # as) [] = row_cells (80 * r + 40) a [] @ frame_cells (r + 1) as []"
| "frame_cells r [] (b # bs) = row_cells (80 * r + 40) [] b @ frame_cells (r + 1) [] bs"
| "frame_cells r (a # as) (b # bs) = row_cells (80 * r + 40) a b @ frame_cells (r + 1) as bs"

definition frame_blink :: "nat \<Rightarrow> u8 \<Rightarrow> u8 \<Rightarrow> mp1_blink_struct" where
  "frame_blink k a b = \<lparr>location = of_nat k, on_char = a, off_char = b, on_length = 15, off_length = 15, countdown = 0, status = 0\<rparr>"

fun place_cell :: "cell \<Rightarrow> mp1_blink_struct list \<times> u8 list \<Rightarrow> mp1_blink_struct list \<times> u8 list" where
  "place_cell (k, a, b) st = (if a = blank \<and> b = blank then st else snd (blink_spec (Add (frame_blink k a b)) st))"

lemma text_rows_line:
  "text_rows t = takeWhile (\<lambda>c. c \<noteq> nl) t # (case dropWhile (\<lambda>c. c \<noteq> nl) t of [] \<Rightarrow> [] | _ # r \<Rightarrow> text_rows r)"
  by (induction t) simp_all

section \<open>What the calls leave alone\<close>

text \<open>A program cannot reach the kernel's memory.\<close>

definition kernel_hidden :: "'a mach_scheme \<Rightarrow> bool" where
  "kernel_hidden s \<longleftrightarrow> (\<forall>a p. xlate User s a = Some p \<longrightarrow> region p \<noteq> 1)"

text \<open>Of the program's memory and screen at most \<open>W\<close> has changed, of the kernel's nothing.\<close>

definition kept_but :: "u32 set \<Rightarrow> 'a proc_state_scheme \<Rightarrow> 'a proc_state_scheme \<Rightarrow> bool" where
  "kept_but W s s' \<longleftrightarrow> (\<forall>pr. xlate pr s' = xlate pr s) \<and> (\<forall>a. region a = 1 \<longrightarrow> ld8 s' a = ld8 s a) \<and>
     (\<forall>b \<in> fish_space - W. uld8 s' b = uld8 s b) \<and> boot_block s' = boot_block s \<and> stack_junk s' = stack_junk s"

interpretation kb: effect "kept_but W" for W
  by unfold_locales (auto simp: kept_but_def)

lemma kept_but_mono: "kept_but W s s' \<Longrightarrow> W \<subseteq> V \<Longrightarrow> kept_but V s s'"
  by (auto simp: kept_but_def)

lemma kept_but_then: "kept_but W s s1 \<Longrightarrow> kept_but V s1 s' \<Longrightarrow> W \<union> V \<subseteq> U \<Longrightarrow> kept_but U s s'"
  by (rule kb.eff_trans [of U s s1]) (auto intro: kept_but_mono)

lemma kept_but_ld: "kept_but W s s' \<Longrightarrow> user_addr b \<Longrightarrow> b \<notin> W \<Longrightarrow> uld8 s' b = uld8 s b"
  by (simp add: kept_but_def fish_space_def)

lemma kept_but_ld16: "kept_but W s s' \<Longrightarrow> in_program a 2 \<Longrightarrow> span a 2 \<inter> W = {} \<Longrightarrow> ld16 (uld8 s') a = ld16 (uld8 s) a"
  using in_program_offset(1) [of a 2 0] in_program_offset(1) [of a 2 1] kept_but_ld [of W s s']
  by (intro ld16_cong) (auto simp: span_2)

lemma kept_but_hidden: "kept_but W s s' \<Longrightarrow> kernel_hidden s \<Longrightarrow> kernel_hidden s'"
  by (simp add: kept_but_def kernel_hidden_def)

text \<open>The stores of the program.\<close>

lemma running_stores:
  fixes s s' :: "'a proc_state_scheme"
  assumes r: "running n con s" and h: "kernel_hidden s" and a: "alters uld8 (hidden User) fish_space W s s'"
  shows "\<exists>con'. running n con' s'" "kept_but W s s'" "own_table s' = own_table s"
proof -
  have hd: "hidden User s' = hidden User s" using a by (simp add: alters_def)
  note e = hidden_eqD [OF hd]
  obtain q where q: "s' = s\<lparr>phys := q\<rparr>" using e(1) by blast
  note f = in_memory_fields [OF e(1)]
  show "own_table s' = own_table s" by (rule f)
  have x: "xlate pr s' = xlate pr s" for pr by (subst e(1)) simp
  have k: "kernel_mapped s" using r by (simp add: running_def user_page_def)
  have "ld8 s' b = ld8 s b" if "region b = 1" for b
  proof -
    have "b \<notin> ran (xlate User s)" using h that by (auto simp: kernel_hidden_def ran_def)
    then show ?thesis using e(2) [of b] kernel_page_xlate [OF k that] by (simp add: ld8_def x)
  qed
  moreover have "stack_junk s' = stack_junk s" by (simp add: q)
  ultimately show "kept_but W s s'" using a x f(4) by (simp add: kept_but_def alters_def)
  obtain g cx cy where con: "con = (g, cx, cy)" by (cases con)
  let ?t = "unat (term_in_service s)"
  have "console s' ?t (glyphs (page_bytes s' (frame_for s ?t)), cx, cy)"
    using r by (simp add: running_def con console_def f) (simp add: q)
  moreover have "user_page n s'" using r by (simp add: running_def user_page_def kernel_mapped_def q)
  ultimately have "running n (glyphs (page_bytes s' (frame_for s ?t)), cx, cy) s'" using r by (simp add: running_def f)
  then show "\<exists>con'. running n con' s'" by blast
qed

text \<open>The calls.\<close>

lemma cells_kept:
  fixes s s' :: "'a proc_state_scheme"
  assumes r: "running n con s" and o: "owns (xlate User) fish_space s" and c: "only_cells n B s s'" and b: "boot_block s' = boot_block s" "stack_junk s' = stack_junk s"
    and B: "\<And>a. a \<in> B \<Longrightarrow> user_addr a"
  shows "kept_but B s s'"
proof -
  have u: "user_page n s" "kernel_mapped s" "n < 6" using r by (simp_all add: running_def user_page_def)
  have x: "xlate pr s' = xlate pr s" and p: "q \<notin> cell_of n ` B \<Longrightarrow> phys s' q = phys s q" for pr q
    using c by (simp_all add: only_cells_def)
  have "ld8 s' a = ld8 s a" if "region a = 1" for a
  proof -
    have "a \<notin> cell_of n ` B" using region_low [OF that] cell_of_high [OF u(3) B] by fastforce
    then show ?thesis using p kernel_page_xlate [OF u(2) that] by (simp add: ld8_def x)
  qed
  moreover have "uld8 s' a = uld8 s a" if "a \<in> fish_space" "a \<notin> B" for a
  proof -
    have "xlate User s a \<noteq> Some (cell_of n b)" if "b \<in> B" for b
    proof
      assume "xlate User s a = Some (cell_of n b)"
      then have "xlate User s a = xlate User s b" using user_xlate [OF u(1) B [OF that]] by simp
      moreover have "b \<in> fish_space" using B [OF that] by (simp add: fish_space_def)
      ultimately have "a = b" using o \<open>a \<in> fish_space\<close> by (auto simp: owns_def dest: inj_onD)
      then show False using that \<open>a \<notin> B\<close> by simp
    qed
    then show ?thesis using p by (cases "xlate User s a") (auto simp: uld8_def x)
  qed
  ultimately show ?thesis using x b by (simp add: kept_but_def)
qed

section \<open>Reading a frame\<close>

text \<open>
  Where the reading of a text stands: at a position, with the last character read; behind the end of
  a row; or behind the end of the text.
\<close>

datatype reader = Reading nat u8 | RowEnd nat | Ended

fun read_char :: "u8 list \<Rightarrow> reader \<Rightarrow> reader" where
  "read_char txt (Reading p v) =
     (if p < length txt then if txt ! p = nl then RowEnd (p + 1) else Reading (p + 1) (txt ! p) else Ended)"
| "read_char txt R = R"

fun eof_flag :: "reader \<Rightarrow> i32" where
  "eof_flag Ended = 1"
| "eof_flag R = 0"

fun last_char :: "reader \<Rightarrow> u8" where
  "last_char (Reading p v) = v"
| "last_char R = nl"

fun position_of :: "u8 list \<Rightarrow> reader \<Rightarrow> nat" where
  "position_of txt (Reading p v) = p"
| "position_of txt (RowEnd p) = p"
| "position_of txt Ended = length txt"

definition text_file :: "'a proc_state_scheme \<Rightarrow> u32 \<Rightarrow> u8 list \<Rightarrow> bool" where
  "text_file s ino txt \<longleftrightarrow> (\<exists>c blks bs l. module_file (ld8 s) (boot_block s) ino c blks bs l \<and> txt = take (unat l) bs)"

text \<open>Descriptor \<open>i\<close> reads the text into the byte at \<open>c\<close>; once it has ended it may be closed.\<close>

definition reads :: "'a proc_state_scheme \<Rightarrow> nat \<Rightarrow> u32 \<Rightarrow> u8 list \<Rightarrow> reader \<Rightarrow> bool" where
  "reads s i c txt R \<longleftrightarrow> uld8 s c = Some (last_char R) \<and> (\<forall>p v. R = Reading p v \<longrightarrow> v \<noteq> nl) \<and> position_of txt R \<le> length txt \<and>
     i \<in> {2..<8} \<and> in_program c 1 \<and> fot_ptr (own_table s ! i) = File_fot \<and>
     (if R = Ended then flags (own_table s ! i) \<in> {0, 1}
      else flags (own_table s ! i) = 1 \<and> file_position (own_table s ! i) = of_nat (position_of txt R) \<and>
        text_file s (inode (own_table s ! i)) txt)"

lemma text_file_kept: "text_file s ino txt \<Longrightarrow> kept_but W s s' \<Longrightarrow> text_file s' ino txt"
  unfolding text_file_def kept_but_def using module_file_cong by metis

lemma reads_kept:
  assumes "reads s i c txt R" "kept_but W s s'" "c \<notin> W" "own_table s' ! i = own_table s ! i"
  shows "reads s' i c txt R"
proof -
  have "user_addr c" using assms(1) in_program_offset(1) [of c 1 0] by (simp add: reads_def)
  then show ?thesis
    using assms text_file_kept [OF _ assms(2)] kept_but_ld [OF assms(2)] by (cases "R = Ended") (auto simp: reads_def)
qed

text \<open>The program between two steps.\<close>

definition fish_runs :: "nat \<Rightarrow> 'a proc_state_scheme \<Rightarrow> bool" where
  "fish_runs n s \<longleftrightarrow> (\<exists>con. running n con s) \<and> owns (xlate User) fish_space s \<and> kernel_hidden s"

lemma fish_runs_kept: "fish_runs n s \<Longrightarrow> kept_but W s s' \<Longrightarrow> running n con s' \<Longrightarrow> fish_runs n s'"
proof -
  assume a: "fish_runs n s" "kept_but W s s'" "running n con s'"
  then have "owns (xlate User) fish_space s'" by (simp add: fish_runs_def owns_def kept_but_def)
  then show ?thesis using a kept_but_hidden [OF a(2)] unfolding fish_runs_def by blast
qed

lemma fish_stores:
  fixes s s' :: "'a proc_state_scheme"
  assumes "fish_runs n s" "alters uld8 (hidden User) fish_space W s s'"
  shows "fish_runs n s'" "kept_but W s s'" "own_table s' = own_table s"
  using assms running_stores [of n _ s W s'] fish_runs_kept [of n s W s'] unfolding fish_runs_def by blast+

lemma program_space: "in_program a k \<Longrightarrow> span a k \<subseteq> fish_space"
  using span_in_program by (auto simp: fish_space_def)

lemma fish_ust8:
  fixes s :: "'a proc_state_scheme"
  assumes "fish_runs n s" "user_addr a"
  shows "\<exists>s'. ust8 a v s = Some s' \<and> fish_runs n s' \<and> kept_but {a} s s' \<and> own_table s' = own_table s \<and> uld8 s' a = Some v"
proof -
  have o: "owns (xlate User) fish_space s" "a \<in> fish_space" using assms by (simp_all add: fish_runs_def fish_space_def)
  obtain s' where "ust8 a v s = Some s'" "uld8 s' a = Some v" "alters uld8 (hidden User) fish_space {a} s s'"
    using umem.st_owned [OF o] by blast
  then show ?thesis using fish_stores [OF assms(1)] by blast
qed

lemma fish_st16:
  fixes s :: "'a proc_state_scheme"
  assumes "fish_runs n s" "in_program a 2"
  shows "\<exists>s'. st16 ust8 a v s = Some s' \<and> fish_runs n s' \<and> kept_but (span a 2) s s' \<and> own_table s' = own_table s \<and>
    ld16 (uld8 s') a = Some v"
proof -
  have o: "owns (xlate User) fish_space s" using assms by (simp add: fish_runs_def)
  obtain s' where "st16 ust8 a v s = Some s'" "ld16 (uld8 s') a = Some v" "alters uld8 (hidden User) fish_space (span a 2) s s'"
    using umem.st16_owned [OF o program_space [OF assms(2)]] by blast
  then show ?thesis using fish_stores [OF assms(1)] by blast
qed

lemma frame_char_reads:
  fixes s :: "'a proc_state_scheme"
  assumes r: "fish_runs n s" and R: "reads s i c txt R"
  shows "\<exists>s'. frame_char irq (of_nat i) c (eof_flag R) irqs s = Some (eof_flag (read_char txt R), irqs, s') \<and> fish_runs n s' \<and>
    reads s' i c txt (read_char txt R) \<and> kept_but {c} s s' \<and> (\<forall>j. j \<noteq> i \<longrightarrow> own_table s' ! j = own_table s ! j)"
proof (cases R)
  case (Reading p v)
  obtain con where con: "running n con s" and o: "owns (xlate User) fish_space s" using r by (auto simp: fish_runs_def)
  have t: "table_ok (own_table s)" using con by (simp add: running_def)
  let ?d = "own_table s ! i"
  have f: "uld8 s c = Some v" "v \<noteq> nl" "p \<le> length txt" "i \<in> {2..<8}" "in_program c 1" "fot_ptr ?d = File_fot" "flags ?d = 1"
    "file_position ?d = of_nat p" "text_file s (inode ?d) txt"
    using R by (simp_all add: reads_def Reading)
  have uc: "user_addr c" using in_program_offset(1) [OF f(5), of 0] by simp
  obtain cn blks bs l where m: "module_file (ld8 s) (boot_block s) (inode ?d) cn blks bs l" "txt = take (unat l) bs"
    using f(9) by (auto simp: text_file_def)
  have len: "length txt = unat l" "unat l \<le> length bs" "length bs < 2 ^ 31" using m by (simp_all add: module_file_def)
  have up: "unat (file_position ?d) = p" using f(3,8) len by (simp add: unat_of_nat_u32)
  show ?thesis
  proof (cases "p < length txt")
    case True
    obtain s' where s': "ece391_read irq (of_nat i) c (of_nat 1) irqs s = Some (of_nat 1, irqs, s')" "running n con s'"
      "user_effect n (span c 1) s s'" "bytes_at (uld8 s') c (take 1 (drop p bs))"
      "own_table s' = (own_table s)[i := ?d\<lparr>file_position := file_position ?d + of_nat 1\<rparr>]" "only_cells n (span c 1) s s'"
      using read_file_memory [OF con f(4) refl f(6,7) m(1) f(5), of irq irqs] True len by (auto simp: up)
    have c1: "span c 1 = {c}" by (auto simp: span_def)
    have k: "kept_but {c} s s'"
      using cells_kept [OF con o s'(6)] s'(3) uc unfolding c1 by (simp add: user_effect_def)
    have "take 1 (drop p bs) = [txt ! p]" using True len m(2) by (simp add: take_Suc hd_drop_conv_nth)
    then have v: "uld8 s' c = Some (txt ! p)" using s'(4) by (simp add: bytes_at_Cons)
    have len8: "length (own_table s) = 8" using t by (simp add: table_ok_def)
    then have d': "own_table s' ! i = ?d\<lparr>file_position := of_nat (p + 1)\<rparr>" using s'(5) f(4,8) by simp
    have "reads s' i c txt (read_char txt R)"
      using v d' f True text_file_kept [OF f(9) k] by (simp add: reads_def Reading)
    moreover have "frame_char irq (of_nat i) c (eof_flag R) irqs s = Some (eof_flag (read_char txt R), irqs, s')"
      using f(1,2) s'(1) True by (simp add: frame_char_def Reading)
    ultimately show ?thesis using fish_runs_kept [OF r k s'(2)] k s'(5) by auto
  next
    case False
    have e: "ece391_read irq (of_nat i) c 1 irqs s = Some (0, irqs, s)"
      using False up len by (intro read_file_end [OF t f(4) refl f(6,7) m(1)]) simp
    obtain s' where s': "ust8 c nl s = Some s'" "fish_runs n s'" "kept_but {c} s s'" "own_table s' = own_table s" "uld8 s' c = Some nl"
      using fish_ust8 [OF r uc] by blast
    have "reads s' i c txt (read_char txt R)" using s'(4,5) f False by (simp add: reads_def Reading)
    moreover have "frame_char irq (of_nat i) c (eof_flag R) irqs s = Some (eof_flag (read_char txt R), irqs, s')"
      using f(1,2) e s'(1) False by (simp add: frame_char_def Reading)
    ultimately show ?thesis using s' by auto
  qed
next
  case (RowEnd p)
  then show ?thesis using r R kb.eff_refl [of "{c}" s] by (auto simp: frame_char_def reads_def)
next
  case Ended
  then show ?thesis using r R kb.eff_refl [of "{c}" s] by (auto simp: frame_char_def reads_def)
qed

section \<open>Adding a cell\<close>

text \<open>The local variables: the two characters and the structure, apart from each other and from the module.\<close>

definition fish_locals :: "fish_vars \<Rightarrow> u32 \<Rightarrow> u32 \<Rightarrow> u32 \<Rightarrow> u32 \<Rightarrow> bool" where
  "fish_locals f temp c0 c1 bst \<longleftrightarrow> fish_data f temp \<and> in_program c0 1 \<and> in_program c1 1 \<and> in_program bst 16 \<and> c0 \<noteq> c1 \<and>
     {c0, c1} \<inter> span bst 16 = {} \<and> ({c0, c1} \<union> span bst 16) \<inter>
       (span (blink_array f) 32000 \<union> span (mp1_list_head f) 4 \<union> span (vmem_base_addr f) 4 \<union> span temp 16) = {}"

definition fish_inv :: "nat \<Rightarrow> fish_vars \<Rightarrow> u32 \<Rightarrow> u32 \<Rightarrow> mp1_blink_struct list \<times> u8 list \<Rightarrow> 'a proc_state_scheme \<Rightarrow> bool" where
  "fish_inv n f temp bst st s \<longleftrightarrow> fish_runs n s \<and> (\<exists>ps. fish_blinks f temp ps (fst st) (snd st) s) \<and>
     ld16 (uld8 s) (bst + ON_LENGTH) = Some 15 \<and> ld16 (uld8 s) (bst + OFF_LENGTH) = Some 15"

lemma kept_blinks:
  fixes s s' :: "'a proc_state_scheme"
  assumes b: "fish_blinks f temp ps bs vid s" and k: "kept_but W s s'" and o: "owns (xlate User) fish_space s'"
    and W: "W \<inter> (span (blink_array f) 32000 \<union> span (mp1_list_head f) 4 \<union> span (vmem_base_addr f) 4 \<union> span ONE_GIG 4000) = {}"
  shows "fish_blinks f temp ps bs vid s'"
proof -
  have "alters uld8 (\<lambda>_ :: 'a proc_state_scheme. ()) fish_space W s s'" using k by (simp add: alters_def kept_but_def)
  then show ?thesis using blinking_same [OF _ _ o W] b unfolding fish_blinks_def by blast
qed

lemma locals_fields:
  assumes "fish_locals f temp c0 c1 bst"
  shows "in_program (bst + 4) 2" "in_program (bst + 6) 2" "span (bst + 4) 2 \<subseteq> span bst 16" "span (bst + 6) 2 \<subseteq> span bst 16"
    "user_addr c0" "user_addr c1" "span bst 16 \<inter> span ONE_GIG 4000 = {}" "c0 \<notin> span ONE_GIG 4000" "c1 \<notin> span ONE_GIG 4000"
    "user_addr (bst + 2)" "user_addr (bst + 3)" "in_program bst 2"
proof -
  have p: "in_program bst 16" "in_program c0 1" "in_program c1 1" using assms by (simp_all add: fish_locals_def)
  show "in_program (bst + 4) 2" "in_program (bst + 6) 2"
    using in_program_drop [OF p(1), of 4 2] in_program_drop [OF p(1), of 6 2] by simp_all
  show "span (bst + 4) 2 \<subseteq> span bst 16" "span (bst + 6) 2 \<subseteq> span bst 16" by (rule struct_fields)+
  show "user_addr c0" "user_addr c1" using in_program_offset(1) [OF p(2), of 0] in_program_offset(1) [OF p(3), of 0] by simp_all
  show "user_addr (bst + 2)" "user_addr (bst + 3)" using in_program_offset(1) [OF p(1), of 2] in_program_offset(1) [OF p(1), of 3] by simp_all
  show "in_program bst 2" using p(1) by (rule in_program_take) simp
  show "span bst 16 \<inter> span ONE_GIG 4000 = {}" using program_apart_screen [OF p(1)] .
  show "c0 \<notin> span ONE_GIG 4000" "c1 \<notin> span ONE_GIG 4000"
    using program_apart_screen [OF p(2)] program_apart_screen [OF p(3)] span_self [of 1 c0] span_self [of 1 c1] by auto
qed

lemma inv_kept:
  fixes s s' :: "'a proc_state_scheme"
  assumes l: "fish_locals f temp c0 c1 bst" and i: "fish_inv n f temp bst st s" and k: "kept_but W s s'" and r: "fish_runs n s'"
    and W: "W \<subseteq> {c0, c1}"
  shows "fish_inv n f temp bst st s'"
proof -
  note L = locals_fields [OF l]
  have apart: "W \<inter> span bst 16 = {}"
    "W \<inter> (span (blink_array f) 32000 \<union> span (mp1_list_head f) 4 \<union> span (vmem_base_addr f) 4 \<union> span ONE_GIG 4000) = {}"
    using l W L(8,9) unfolding fish_locals_def by blast+
  have "owns (xlate User) fish_space s'" using r by (simp add: fish_runs_def)
  then have "\<exists>ps. fish_blinks f temp ps (fst st) (snd st) s'" using i kept_blinks [OF _ k _ apart(2)] unfolding fish_inv_def by blast
  moreover have "ld16 (uld8 s') (bst + 4) = ld16 (uld8 s) (bst + 4)" "ld16 (uld8 s') (bst + 6) = ld16 (uld8 s) (bst + 6)"
    using kept_but_ld16 [OF k L(1)] kept_but_ld16 [OF k L(2)] L(3,4) apart(1) by blast+
  ultimately show ?thesis using i r by (simp add: fish_inv_def)
qed

lemma ucast_of_nat_u16: "k < 2 ^ 32 \<Longrightarrow> (ucast (of_nat k :: u32) :: u16) = of_nat k"
proof -
  assume "k < 2 ^ 32"
  then have "(of_nat (unat (of_nat k :: u32)) :: u16) = of_nat k" by (simp only: unat_of_nat_u32)
  then show ?thesis by simp
qed

text \<open>The structure on the stack is filled in.\<close>

lemma fill_struct:
  fixes s :: "'a proc_state_scheme"
  assumes l: "fish_locals f temp c0 c1 bst" and i: "fish_inv n f temp bst st s"
  shows "\<exists>s1 s2 s3 c t. ust8 (bst + ON_CHAR) a s = Some s1 \<and> ust8 (bst + OFF_CHAR) b s1 = Some s2 \<and> st16 ust8 (bst + LOCATION) k s2 = Some s3 \<and>
    fish_inv n f temp bst st s3 \<and> kept_but (span bst 16) s s3 \<and> own_table s3 = own_table s \<and>
    blink_at (uld8 s3) bst \<lparr>location = k, on_char = a, off_char = b, on_length = 15, off_length = 15, countdown = c, status = t\<rparr>"
proof -
  note L = locals_fields [OF l]
  have r: "fish_runs n s" using i by (simp add: fish_inv_def)
  have p: "in_program bst 16" using l by (simp add: fish_locals_def)
  obtain s1 where s1: "ust8 (bst + 2) a s = Some s1" "fish_runs n s1" "kept_but {bst + 2} s s1" "own_table s1 = own_table s" "uld8 s1 (bst + 2) = Some a"
    using fish_ust8 [OF r L(10)] by blast
  obtain s2 where s2: "ust8 (bst + 3) b s1 = Some s2" "fish_runs n s2" "kept_but {bst + 3} s1 s2" "own_table s2 = own_table s1" "uld8 s2 (bst + 3) = Some b"
    using fish_ust8 [OF s1(2) L(11)] by blast
  obtain s3 where s3: "st16 ust8 bst k s2 = Some s3" "fish_runs n s3" "kept_but (span bst 2) s2 s3" "own_table s3 = own_table s2"
    "ld16 (uld8 s3) bst = Some k"
    using fish_st16 [OF s2(2) L(12)] by blast
  have k12: "kept_but {bst, bst + 1, bst + 2, bst + 3} s s3"
    using kept_but_then [OF kept_but_then [OF s1(3) s2(3) subset_refl] s3(3)] by (auto simp: span_2)
  have k3: "kept_but (span bst 16) s s3"
    using struct_fields(1-3) [of bst] by (intro kept_but_mono [OF k12]) (auto simp: span_2)
  have on: "uld8 s3 (bst + 2) = Some a" "uld8 s3 (bst + 3) = Some b"
    using kept_but_ld [OF s2(3) L(10)] kept_but_ld [OF s3(3) L(10)] kept_but_ld [OF s3(3) L(11)] s1(5) s2(5) by (simp_all add: span_2)
  have len: "ld16 (uld8 s3) (bst + 4) = Some 15" "ld16 (uld8 s3) (bst + 6) = Some 15"
    using kept_but_ld16 [OF k12 L(1)] kept_but_ld16 [OF k12 L(2)] i by (simp_all add: fish_inv_def span_2)
  have rd: "\<exists>v. uld8 s3 (bst + of_nat j) = Some v" if "j < 16" for j
  proof -
    have "bst + of_nat j \<in> fish_space" using in_program_offset(1) [OF p that] by (simp add: fish_space_def)
    then have "xlate User s3 (bst + of_nat j) \<noteq> None" using s3(2) by (simp add: fish_runs_def owns_def)
    then show ?thesis by (auto simp: uld8_def)
  qed
  have "\<exists>c. ld16 (uld8 s3) (bst + 8) = Some c" "\<exists>t. ld16 (uld8 s3) (bst + 10) = Some t"
    using rd [of 8] rd [of 9] rd [of 10] rd [of 11] by (auto simp: ld16_def add.assoc)
  then obtain c t where ct: "ld16 (uld8 s3) (bst + 8) = Some c" "ld16 (uld8 s3) (bst + 10) = Some t" by blast
  have "owns (xlate User) fish_space s3" using s3(2) by (simp add: fish_runs_def)
  moreover have "span bst 16 \<inter> (span (blink_array f) 32000 \<union> span (mp1_list_head f) 4 \<union> span (vmem_base_addr f) 4 \<union> span ONE_GIG 4000) = {}"
    using l L(7) unfolding fish_locals_def by blast
  ultimately have "\<exists>ps. fish_blinks f temp ps (fst st) (snd st) s3" using i kept_blinks [OF _ k3] unfolding fish_inv_def by blast
  then have "fish_inv n f temp bst st s3" using s3(2) len by (simp add: fish_inv_def)
  moreover have "blink_at (uld8 s3) bst \<lparr>location = k, on_char = a, off_char = b, on_length = 15, off_length = 15, countdown = c, status = t\<rparr>"
    using s3(5) on len ct by (simp add: blink_at_def)
  ultimately show ?thesis using s1(1,4) s2(1,4) s3(1,4) k3 by auto
qed

abbreviation module_space :: "fish_vars \<Rightarrow> u32 \<Rightarrow> u32 \<Rightarrow> u32 set" where
  "module_space f temp bst \<equiv> span bst 16 \<union> span temp 16 \<union> span (blink_array f) 32000 \<union> span (mp1_list_head f) 4 \<union> span ONE_GIG 4000"

lemma add_cell_places:
  fixes s :: "'a proc_state_scheme"
  assumes l: "fish_locals f temp c0 c1 bst" and i: "fish_inv n f temp bst st s" and k: "0 < k" "k < 65536"
  shows "\<exists>s'. add_cell f temp bst v0 v1 (of_nat k) s = Some s' \<and> fish_inv n f temp bst (place_cell (k, or_space v0, or_space v1) st) s' \<and>
    kept_but (module_space f temp bst) s s' \<and> own_table s' = own_table s"
proof (cases "not_blank v0 \<or> not_blank v1")
  case False
  then have "place_cell (k, or_space v0, or_space v1) st = st" by (auto simp: not_blank_def or_space_def)
  moreover have "add_cell f temp bst v0 v1 (of_nat k) s = Some s" using False by (simp add: add_cell_def)
  ultimately show ?thesis using i kb.eff_refl by fastforce
next
  case True
  have nb: "\<not> (or_space v0 = blank \<and> or_space v1 = blank)" using True by (auto simp: not_blank_def or_space_def split: if_splits)
  let ?a = "or_space v0" and ?b = "or_space v1" and ?k = "of_nat k :: u16"
  obtain s1 s2 s3 c t where s: "ust8 (bst + ON_CHAR) ?a s = Some s1" "ust8 (bst + OFF_CHAR) ?b s1 = Some s2" "st16 ust8 (bst + LOCATION) ?k s2 = Some s3"
    "fish_inv n f temp bst st s3" "kept_but (span bst 16) s s3" "own_table s3 = own_table s"
    "blink_at (uld8 s3) bst \<lparr>location = ?k, on_char = ?a, off_char = ?b, on_length = 15, off_length = 15, countdown = c, status = t\<rparr>"
    using fill_struct [OF l i] by blast
  let ?B = "\<lparr>location = ?k, on_char = ?a, off_char = ?b, on_length = 15, off_length = 15, countdown = c, status = t\<rparr>"
  obtain ps where ps: "fish_blinks f temp ps (fst st) (snd st) s3" using s(4) by (auto simp: fish_inv_def)
  have r3: "fish_runs n s3" using s(4) by (simp add: fish_inv_def)
  have "?k \<noteq> 0"
  proof -
    have "unat ?k = k" using k(2) by (simp add: unat_of_nat take_bit_nat_eq_self)
    then show ?thesis using k(1) by auto
  qed
  moreover have "argument_apart f ONE_GIG temp fish_space bst"
    using l locals_fields(7) [OF l] program_space [of bst 16] unfolding fish_locals_def argument_apart_def by blast
  ultimately have "cmd_arg (uld8 s3) f ONE_GIG temp fish_space bst (Add ?B)" using s(7) by simp
  then obtain s4 ps' where s4: "mp1_ioctl_add uld8 ust8 f temp bst s3 = Some (fst (blink_spec (Add ?B) st), s4)"
    "blinking (xlate User) uld8 f ONE_GIG temp fish_space ps' (fst (snd (blink_spec (Add ?B) st))) (snd (snd (blink_spec (Add ?B) st))) s4"
    "alters uld8 (hidden User) fish_space (span temp 16 \<union> span (blink_array f) 32000 \<union> span (mp1_list_head f) 4 \<union> span ONE_GIG 4000) s3 s4"
    using usermem.add_refines [OF ps [unfolded fish_blinks_def], of bst ?B] by (auto simp del: blink_spec.simps cmd_arg.simps)
  note k4 = fish_stores [OF r3 s4(3)]
  have sp: "snd (blink_spec (Add ?B) st) = place_cell (k, ?a, ?b) st"
    using nb by (cases st) (simp add: frame_blink_def)
  have "add_cell f temp bst v0 v1 (of_nat k) s = Some s4"
    using True s(1-3) s4(1) k(2) by (simp add: add_cell_def mp1_ioctl_def ucast_of_nat_u16 del: blink_spec.simps)
  moreover have "fish_inv n f temp bst (place_cell (k, ?a, ?b) st) s4"
  proof -
    have "span bst 16 \<inter> (span temp 16 \<union> span (blink_array f) 32000 \<union> span (mp1_list_head f) 4 \<union> span ONE_GIG 4000) = {}"
      using l locals_fields(7) [OF l] unfolding fish_locals_def by blast
    then have "ld16 (uld8 s4) (bst + 4) = ld16 (uld8 s3) (bst + 4)" "ld16 (uld8 s4) (bst + 6) = ld16 (uld8 s3) (bst + 6)"
      using kept_but_ld16 [OF k4(2)] locals_fields(1-4) [OF l] by blast+
    then show ?thesis using s(4) s4(2) k4(1) sp by (auto simp: fish_inv_def fish_blinks_def simp del: place_cell.simps)
  qed
  moreover have "kept_but (module_space f temp bst) s s4" using s(5) k4(2) by (rule kept_but_then) auto
  ultimately show ?thesis using s(6) k4(3) by auto
qed

section \<open>Rows\<close>

text \<open>What is left of the row, and where the reading stands behind it.\<close>

fun row_rest :: "u8 list \<Rightarrow> reader \<Rightarrow> u8 list" where
  "row_rest txt (Reading p v) = takeWhile (\<lambda>c. c \<noteq> nl) (drop p txt)"
| "row_rest txt R = []"

fun row_end :: "u8 list \<Rightarrow> reader \<Rightarrow> reader" where
  "row_end txt (Reading p v) =
     (let q = p + length (takeWhile (\<lambda>c. c \<noteq> nl) (drop p txt)) in if q < length txt then RowEnd (q + 1) else Ended)"
| "row_end txt R = R"

lemma read_char_row:
  "last_char (read_char txt R) = (case row_rest txt R of [] \<Rightarrow> nl | x # _ \<Rightarrow> x)"
  "row_rest txt (read_char txt R) = tl (row_rest txt R)"
  "row_end txt (read_char txt R) = row_end txt R"
  "row_rest txt R = [] \<Longrightarrow> position_of txt R \<le> length txt \<Longrightarrow> read_char txt R = row_end txt R"
proof -
  have "last_char (read_char txt R) = (case row_rest txt R of [] \<Rightarrow> nl | x # _ \<Rightarrow> x) \<and>
    row_rest txt (read_char txt R) = tl (row_rest txt R) \<and> row_end txt (read_char txt R) = row_end txt R \<and>
    (row_rest txt R = [] \<longrightarrow> position_of txt R \<le> length txt \<longrightarrow> read_char txt R = row_end txt R)"
  proof (cases R)
    case (Reading p v)
    show ?thesis
    proof (cases "p < length txt")
      case True
      then have e: "drop p txt = txt ! p # drop (Suc p) txt" by (simp add: Cons_nth_drop_Suc)
      show ?thesis using True by (cases "txt ! p = nl") (simp_all add: Reading e Let_def)
    qed (simp add: Reading Let_def)
  qed simp_all
  then show "last_char (read_char txt R) = (case row_rest txt R of [] \<Rightarrow> nl | x # _ \<Rightarrow> x)"
    "row_rest txt (read_char txt R) = tl (row_rest txt R)" "row_end txt (read_char txt R) = row_end txt R"
    "row_rest txt R = [] \<Longrightarrow> position_of txt R \<le> length txt \<Longrightarrow> read_char txt R = row_end txt R"
    by simp_all
qed

lemma row_rest_char: "x \<in> set (row_rest txt R) \<Longrightarrow> x \<noteq> nl"
  by (cases R) (auto dest: set_takeWhileD)

lemma row_cells_Cons:
  "as \<noteq> [] \<or> bs \<noteq> [] \<Longrightarrow>
   row_cells k as bs = (k, or_space (case as of [] \<Rightarrow> nl | x # _ \<Rightarrow> x), or_space (case bs of [] \<Rightarrow> nl | x # _ \<Rightarrow> x)) #
     row_cells (k + 1) (tl as) (tl bs)"
  if "\<And>x. x \<in> set as \<union> set bs \<Longrightarrow> x \<noteq> nl"
  using that by (cases as; cases bs) (auto simp: or_space_def)

text \<open>Two readers at work.\<close>

definition both_read where
  "both_read s i0 i1 c0 c1 t0 t1 R0 R1 \<longleftrightarrow> reads s i0 c0 t0 R0 \<and> reads s i1 c1 t1 R1 \<and> i0 \<noteq> (i1 :: nat)"

lemma add_row_adds:
  fixes s :: "'a proc_state_scheme"
  assumes l: "fish_locals f temp c0 c1 bst"
  shows "fish_inv n f temp bst st s \<Longrightarrow> both_read s i0 i1 c0 c1 t0 t1 R0 R1 \<Longrightarrow>
    (\<forall>(k, a, b) \<in> set (row_cells (80 * row + 40 + col) (row_rest t0 R0) (row_rest t1 R1)). k < 65536) \<Longrightarrow>
    \<exists>s'. add_row irq f temp (of_nat i0) (of_nat i1) c0 c1 bst (of_nat row) (of_nat col) (eof_flag R0) (eof_flag R1) irqs s =
      Some (eof_flag (row_end t0 R0), eof_flag (row_end t1 R1), irqs, s') \<and>
      fish_inv n f temp bst (fold place_cell (row_cells (80 * row + 40 + col) (row_rest t0 R0) (row_rest t1 R1)) st) s' \<and>
      both_read s' i0 i1 c0 c1 t0 t1 (row_end t0 R0) (row_end t1 R1)"
proof (induction "length (row_rest t0 R0) + length (row_rest t1 R1)" arbitrary: col R0 R1 st s rule: less_induct)
  case less
  let ?L0 = "row_rest t0 R0" and ?L1 = "row_rest t1 R1" and ?R0 = "read_char t0 R0" and ?R1 = "read_char t1 R1"
  have R: "reads s i0 c0 t0 R0" "reads s i1 c1 t1 R1" "i0 \<noteq> i1" using less.prems(2) by (simp_all add: both_read_def)
  have c01: "c0 \<noteq> c1" using l by (simp add: fish_locals_def)
  have r: "fish_runs n s" using less.prems(1) by (simp add: fish_inv_def)
  obtain s1 where s1: "frame_char irq (of_nat i0) c0 (eof_flag R0) irqs s = Some (eof_flag ?R0, irqs, s1)" "fish_runs n s1"
    "reads s1 i0 c0 t0 ?R0" "kept_but {c0} s s1" "\<forall>j. j \<noteq> i0 \<longrightarrow> own_table s1 ! j = own_table s ! j"
    using frame_char_reads [OF r R(1)] by blast
  have "reads s1 i1 c1 t1 R1" using reads_kept [OF R(2) s1(4)] s1(5) R(3) c01 by auto
  then obtain s2 where s2: "frame_char irq (of_nat i1) c1 (eof_flag R1) irqs s1 = Some (eof_flag ?R1, irqs, s2)" "fish_runs n s2"
    "reads s2 i1 c1 t1 ?R1" "kept_but {c1} s1 s2" "\<forall>j. j \<noteq> i1 \<longrightarrow> own_table s2 ! j = own_table s1 ! j"
    using frame_char_reads [OF s1(2)] by blast
  have R0: "reads s2 i0 c0 t0 ?R0" using reads_kept [OF s1(3) s2(4)] s2(5) R(3) c01 by auto
  have "fish_inv n f temp bst st s1" using inv_kept [OF l less.prems(1) s1(4,2)] by simp
  then have i2: "fish_inv n f temp bst st s2" using inv_kept [OF l _ s2(4,2)] by simp
  let ?v0 = "last_char ?R0" and ?v1 = "last_char ?R1"
  have v: "uld8 s2 c0 = Some ?v0" "uld8 s2 c1 = Some ?v1" using R0 s2(3) by (simp_all add: reads_def)
  note ch = read_char_row(1)
  have nls: "?v0 = nl \<longleftrightarrow> ?L0 = []" "?v1 = nl \<longleftrightarrow> ?L1 = []"
    using row_rest_char [of _ t0 R0] row_rest_char [of _ t1 R1] by (auto simp: ch split: list.splits)
  have unfold: "add_row irq f temp (of_nat i0) (of_nat i1) c0 c1 bst (of_nat row) (of_nat col) (eof_flag R0) (eof_flag R1) irqs s =
    (if ?L0 = [] \<and> ?L1 = [] then Some (eof_flag ?R0, eof_flag ?R1, irqs, s2)
     else do { s \<leftarrow> add_cell f temp bst ?v0 ?v1 (of_nat row * 80 + of_nat col + 40) s2;
       add_row irq f temp (of_nat i0) (of_nat i1) c0 c1 bst (of_nat row) (of_nat col + 1) (eof_flag ?R0) (eof_flag ?R1) irqs s })"
    by (subst add_row.simps) (simp add: s1(1) s2(1) v nls)
  show ?case
  proof (cases "?L0 = [] \<and> ?L1 = []")
    case True
    have "?R0 = row_end t0 R0" "?R1 = row_end t1 R1"
      using read_char_row(4) [of t0 R0] read_char_row(4) [of t1 R1] True R(1,2) by (simp_all add: reads_def)
    then show ?thesis using True unfold i2 R0 s2(3) R(3) by (simp add: both_read_def)
  next
    case False
    let ?k = "80 * row + 40 + col"
    have cells: "row_cells ?k ?L0 ?L1 = (?k, or_space ?v0, or_space ?v1) # row_cells (?k + 1) (tl ?L0) (tl ?L1)"
      unfolding ch using row_rest_char [of _ t0 R0] row_rest_char [of _ t1 R1] False by (intro row_cells_Cons) auto
    then have k: "0 < ?k" "?k < 65536" using less.prems(3) by simp_all
    have loc: "of_nat row * 80 + of_nat col + 40 = (of_nat ?k :: i32)" by (simp add: algebra_simps)
    obtain s3 where s3: "add_cell f temp bst ?v0 ?v1 (of_nat ?k) s2 = Some s3"
      "fish_inv n f temp bst (place_cell (?k, or_space ?v0, or_space ?v1) st) s3" "kept_but (module_space f temp bst) s2 s3"
      "own_table s3 = own_table s2"
      using add_cell_places [OF l i2 k] by blast
    have "c0 \<notin> module_space f temp bst" "c1 \<notin> module_space f temp bst"
      using l locals_fields(8,9) [OF l] unfolding fish_locals_def by blast+
    then have b3: "both_read s3 i0 i1 c0 c1 t0 t1 ?R0 ?R1"
      using reads_kept [OF R0 s3(3)] reads_kept [OF s2(3) s3(3)] s3(4) R(3) by (simp add: both_read_def)
    have tls: "row_rest t0 ?R0 = tl ?L0" "row_rest t1 ?R1 = tl ?L1" by (rule read_char_row)+
    have "length (row_rest t0 ?R0) + length (row_rest t1 ?R1) < length ?L0 + length ?L1"
      unfolding tls using False by (cases ?L0; cases ?L1) auto
    moreover have "\<forall>(k, a, b) \<in> set (row_cells (80 * row + 40 + (col + 1)) (row_rest t0 ?R0) (row_rest t1 ?R1)). k < 65536"
      using less.prems(3) cells unfolding tls by (simp add: add.assoc)
    ultimately obtain s' where s':
      "add_row irq f temp (of_nat i0) (of_nat i1) c0 c1 bst (of_nat row) (of_nat (col + 1)) (eof_flag ?R0) (eof_flag ?R1) irqs s3 =
        Some (eof_flag (row_end t0 ?R0), eof_flag (row_end t1 ?R1), irqs, s')"
      "fish_inv n f temp bst (fold place_cell (row_cells (80 * row + 40 + (col + 1)) (tl ?L0) (tl ?L1)) (place_cell (?k, or_space ?v0, or_space ?v1) st)) s'"
      "both_read s' i0 i1 c0 c1 t0 t1 (row_end t0 ?R0) (row_end t1 ?R1)"
      using less.hyps [OF _ s3(2) b3, of "col + 1"] unfolding tls by blast
    have nx: "(of_nat col :: i32) + 1 = of_nat (col + 1)" by simp
    have "add_row irq f temp (of_nat i0) (of_nat i1) c0 c1 bst (of_nat row) (of_nat col) (eof_flag R0) (eof_flag R1) irqs s =
      add_row irq f temp (of_nat i0) (of_nat i1) c0 c1 bst (of_nat row) (of_nat (col + 1)) (eof_flag ?R0) (eof_flag ?R1) irqs s3"
      unfolding unfold loc nx s3(1) using False by auto
    moreover have "80 * row + 40 + (col + 1) = ?k + 1" by simp
    ultimately show ?thesis using s' unfolding cells read_char_row(3) by (simp only: fold_simps) blast
  qed
qed

text \<open>The start of the next row.\<close>

fun next_reader :: "reader \<Rightarrow> reader" where
  "next_reader (RowEnd p) = Reading p (of_char (CHR ''0''))"
| "next_reader R = R"

lemma next_row_starts:
  fixes s :: "'a proc_state_scheme"
  assumes r: "fish_runs n s" and R: "reads s i c txt R" "R = RowEnd p \<or> R = Ended"
  shows "\<exists>s'. next_row irq (of_nat i) c (eof_flag R) irqs s = Some (irqs, s') \<and> fish_runs n s' \<and> reads s' i c txt (next_reader R) \<and>
    kept_but {c} s s' \<and> (\<forall>j. j \<noteq> i \<longrightarrow> own_table s' ! j = own_table s ! j)"
proof -
  have c: "in_program c 1" and i: "2 \<le> i" "i < 8" using R(1) by (simp_all add: reads_def)
  have uc: "user_addr c" using in_program_offset(1) [OF c, of 0] by simp
  let ?v = "if R = Ended then nl else 48"
  obtain s1 where s1: "ust8 c ?v s = Some s1" "fish_runs n s1" "kept_but {c} s s1" "own_table s1 = own_table s" "uld8 s1 c = Some ?v"
    using fish_ust8 [OF r uc] by blast
  show ?thesis
  proof (cases "R = Ended")
    case False
    then have R': "R = RowEnd p" using R(2) by simp
    have "reads s1 i c txt (next_reader R)" using R(1) s1(4,5) text_file_kept [OF _ s1(3)] by (simp add: reads_def R')
    moreover have "next_row irq (of_nat i) c (eof_flag R) irqs s = Some (irqs, s1)" using s1(1) by (simp add: next_row_def R')
    ultimately show ?thesis using s1 by auto
  next
    case True
    have d: "fot_ptr (own_table s1 ! i) = File_fot" "flags (own_table s1 ! i) \<in> {0, 1}"
      using R(1) True by (simp_all add: reads_def s1(4))
    obtain con where con: "running n con s1" and o: "owns (xlate User) fish_space s1" using s1(2) by (auto simp: fish_runs_def)
    have t: "table_ok (own_table s1)" using con by (simp add: running_def)
    show ?thesis
    proof (cases "flags (own_table s1 ! i) = 0")
      case closed: True
      have "next_row irq (of_nat i) c (eof_flag R) irqs s = Some (irqs, s1)"
        using close_closed [OF t i(2) closed, of irq irqs] s1(1) by (simp add: next_row_def True)
      moreover have "reads s1 i c txt (next_reader R)" using R(1) s1(4,5) by (simp add: reads_def True)
      ultimately show ?thesis using s1 by auto
    next
      case False
      then have "flags (own_table s1 ! i) = 1" using d(2) by simp
      then obtain s2 where s2: "ece391_close irq (of_nat i) irqs s1 = Some (0, irqs, s2)" "running n con s2" "user_effect n {} s1 s2"
        "own_table s2 = (own_table s1)[i := (own_table s1 ! i)\<lparr>flags := 0\<rparr>]" "only_cells n {} s1 s2"
        using close_file_returns [OF con i d(1)] by blast
      have k: "kept_but {} s1 s2" using cells_kept [OF con o s2(5)] s2(3) by (simp add: user_effect_def)
      have len: "length (own_table s1) = 8" using t by (simp add: table_ok_def)
      have "uld8 s2 c = Some nl" using kept_but_ld [OF k uc] s1(5) True by simp
      then have "reads s2 i c txt (next_reader R)" using R(1) s2(4) i len d(1) by (simp add: reads_def True)
      moreover have "next_row irq (of_nat i) c (eof_flag R) irqs s = Some (irqs, s2)"
        using s2(1) s1(1) by (simp add: next_row_def True)
      moreover have "kept_but {c} s s2" using s1(3) k by (rule kept_but_then) simp
      ultimately show ?thesis using fish_runs_kept [OF s1(2) k s2(2)] s2(4) s1(4) by auto
    qed
  qed
qed

section \<open>Both frames\<close>

fun rows_of :: "u8 list \<Rightarrow> reader \<Rightarrow> u8 list list" where
  "rows_of txt (Reading p v) = text_rows (drop p txt)"
| "rows_of txt (RowEnd p) = text_rows (drop p txt)"
| "rows_of txt Ended = []"

definition first_row :: "u8 list list \<Rightarrow> u8 list" where
  "first_row rs = (case rs of [] \<Rightarrow> [] | r # _ \<Rightarrow> r)"

lemma rows_step:
  assumes "\<And>p. R \<noteq> RowEnd p"
  shows "first_row (rows_of txt R) = row_rest txt R" "rows_of txt (next_reader (row_end txt R)) = tl (rows_of txt R)"
    "rows_of txt R \<noteq> [] \<longleftrightarrow> eof_flag R = 0" "(\<exists>p. row_end txt R = RowEnd p) \<or> row_end txt R = Ended"
    "next_reader (row_end txt R) \<noteq> RowEnd p"
proof -
  have "first_row (rows_of txt R) = row_rest txt R \<and> rows_of txt (next_reader (row_end txt R)) = tl (rows_of txt R) \<and>
    (rows_of txt R \<noteq> [] \<longleftrightarrow> eof_flag R = 0) \<and> ((\<exists>p. row_end txt R = RowEnd p) \<or> row_end txt R = Ended) \<and>
    next_reader (row_end txt R) \<noteq> RowEnd p"
  proof (cases R)
    case (Reading p v)
    let ?t = "drop p txt"
    let ?q = "p + length (takeWhile (\<lambda>c. c \<noteq> nl) ?t)"
    have d: "dropWhile (\<lambda>c. c \<noteq> nl) ?t = drop ?q txt" by (simp add: dropWhile_eq_drop add.commute)
    have "drop ?q txt = txt ! ?q # drop (?q + 1) txt" if "?q < length txt" using that by (simp add: Cons_nth_drop_Suc)
    then have "tl (text_rows ?t) = (if ?q < length txt then text_rows (drop (?q + 1) txt) else [])"
      by (subst text_rows_line) (simp add: d)
    then show ?thesis using text_rows_line [of ?t] by (simp add: Reading first_row_def Let_def)
  qed (use assms in \<open>simp_all add: first_row_def\<close>)
  then show "first_row (rows_of txt R) = row_rest txt R" "rows_of txt (next_reader (row_end txt R)) = tl (rows_of txt R)"
    "rows_of txt R \<noteq> [] \<longleftrightarrow> eof_flag R = 0" "(\<exists>p. row_end txt R = RowEnd p) \<or> row_end txt R = Ended"
    "next_reader (row_end txt R) \<noteq> RowEnd p"
    by blast+
qed

lemma frame_cells_step:
  "A \<noteq> [] \<or> B \<noteq> [] \<Longrightarrow> frame_cells r A B = row_cells (80 * r + 40) (first_row A) (first_row B) @ frame_cells (r + 1) (tl A) (tl B)"
  by (cases A; cases B) (simp_all add: first_row_def)

lemma add_rows_adds:
  fixes s :: "'a proc_state_scheme"
  assumes l: "fish_locals f temp c0 c1 bst"
  shows "fish_inv n f temp bst st s \<Longrightarrow> both_read s i0 i1 c0 c1 t0 t1 R0 R1 \<Longrightarrow> (\<And>p. R0 \<noteq> RowEnd p) \<Longrightarrow> (\<And>p. R1 \<noteq> RowEnd p) \<Longrightarrow>
    (\<forall>(k, a, b) \<in> set (frame_cells row (rows_of t0 R0) (rows_of t1 R1)). k < 65536) \<Longrightarrow>
    \<exists>s'. add_rows irq f temp (of_nat i0) (of_nat i1) c0 c1 bst (of_nat row) (eof_flag R0) (eof_flag R1) irqs s = Some (irqs, s') \<and>
      fish_inv n f temp bst (fold place_cell (frame_cells row (rows_of t0 R0) (rows_of t1 R1)) st) s'"
proof (induction "length (rows_of t0 R0) + length (rows_of t1 R1)" arbitrary: row R0 R1 st s rule: less_induct)
  case less
  note S0 = rows_step [of R0 t0, OF less.prems(3)] and S1 = rows_step [of R1 t1, OF less.prems(4)]
  show ?case
  proof (cases "eof_flag R0 = 0 \<or> eof_flag R1 = 0")
    case False
    then have "rows_of t0 R0 = []" "rows_of t1 R1 = []" using S0(3) S1(3) by blast+
    then show ?thesis using less.prems(1) False by (subst add_rows.simps) simp
  next
    case True
    let ?E0 = "row_end t0 R0" and ?E1 = "row_end t1 R1" and ?A = "rows_of t0 R0" and ?B = "rows_of t1 R1"
    have c01: "c0 \<noteq> c1" using l by (simp add: fish_locals_def)
    have i01: "i0 \<noteq> i1" using less.prems(2) by (simp add: both_read_def)
    have ne: "?A \<noteq> [] \<or> ?B \<noteq> []" using True S0(3) S1(3) by blast
    have cells: "frame_cells row ?A ?B = row_cells (80 * row + 40 + 0) (row_rest t0 R0) (row_rest t1 R1) @ frame_cells (row + 1) (tl ?A) (tl ?B)"
      using frame_cells_step [OF ne] S0(1) S1(1) by simp
    then have "\<forall>(k, a, b) \<in> set (row_cells (80 * row + 40 + 0) (row_rest t0 R0) (row_rest t1 R1)). k < 65536" using less.prems(5) by simp
    then obtain s1 where s1: "add_row irq f temp (of_nat i0) (of_nat i1) c0 c1 bst (of_nat row) (of_nat 0) (eof_flag R0) (eof_flag R1) irqs s =
        Some (eof_flag ?E0, eof_flag ?E1, irqs, s1)"
      "fish_inv n f temp bst (fold place_cell (row_cells (80 * row + 40 + 0) (row_rest t0 R0) (row_rest t1 R1)) st) s1"
      "both_read s1 i0 i1 c0 c1 t0 t1 ?E0 ?E1"
      using add_row_adds [OF l less.prems(1,2), of row 0 irq irqs] by blast
    have r1: "fish_runs n s1" and E: "reads s1 i0 c0 t0 ?E0" "reads s1 i1 c1 t1 ?E1"
      using s1(2,3) by (simp_all add: fish_inv_def both_read_def)
    obtain s2 where s2: "next_row irq (of_nat i0) c0 (eof_flag ?E0) irqs s1 = Some (irqs, s2)" "fish_runs n s2"
      "reads s2 i0 c0 t0 (next_reader ?E0)" "kept_but {c0} s1 s2" "\<forall>j. j \<noteq> i0 \<longrightarrow> own_table s2 ! j = own_table s1 ! j"
      using next_row_starts [OF r1 E(1)] S0(4) by metis
    have "reads s2 i1 c1 t1 ?E1" using reads_kept [OF E(2) s2(4)] s2(5) i01 c01 by auto
    then obtain s3 where s3: "next_row irq (of_nat i1) c1 (eof_flag ?E1) irqs s2 = Some (irqs, s3)" "fish_runs n s3"
      "reads s3 i1 c1 t1 (next_reader ?E1)" "kept_but {c1} s2 s3" "\<forall>j. j \<noteq> i1 \<longrightarrow> own_table s3 ! j = own_table s2 ! j"
      using next_row_starts [OF s2(2)] S1(4) by metis
    have "reads s3 i0 c0 t0 (next_reader ?E0)" using reads_kept [OF s2(3) s3(4)] s3(5) i01 c01 by auto
    then have b3: "both_read s3 i0 i1 c0 c1 t0 t1 (next_reader ?E0) (next_reader ?E1)" using s3(3) i01 by (simp add: both_read_def)
    have i3: "fish_inv n f temp bst (fold place_cell (row_cells (80 * row + 40 + 0) (row_rest t0 R0) (row_rest t1 R1)) st) s3"
      using inv_kept [OF l inv_kept [OF l s1(2) s2(4,2)] s3(4,2)] by simp
    have "length (rows_of t0 (next_reader ?E0)) + length (rows_of t1 (next_reader ?E1)) < length ?A + length ?B"
      unfolding S0(2) S1(2) using ne by (cases ?A; cases ?B) auto
    moreover have "\<forall>(k, a, b) \<in> set (frame_cells (row + 1) (rows_of t0 (next_reader ?E0)) (rows_of t1 (next_reader ?E1))). k < 65536"
      unfolding S0(2) S1(2) using less.prems(5) cells by simp
    moreover have flags: "eof_flag (next_reader ?E0) = eof_flag ?E0" "eof_flag (next_reader ?E1) = eof_flag ?E1"
      using S0(4) S1(4) by auto
    ultimately obtain s' where s': "add_rows irq f temp (of_nat i0) (of_nat i1) c0 c1 bst (of_nat (row + 1)) (eof_flag ?E0) (eof_flag ?E1) irqs s3 = Some (irqs, s')"
      "fish_inv n f temp bst (fold place_cell (frame_cells (row + 1) (tl ?A) (tl ?B))
        (fold place_cell (row_cells (80 * row + 40 + 0) (row_rest t0 R0) (row_rest t1 R1)) st)) s'"
      using less.hyps [OF _ i3 b3 S0(5) S1(5), of "row + 1"] unfolding S0(2) S1(2) flags by blast
    have "add_rows irq f temp (of_nat i0) (of_nat i1) c0 c1 bst (of_nat row) (eof_flag R0) (eof_flag R1) irqs s = Some (irqs, s')"
      using True s1(1) s2(1) s3(1) s'(1) by (subst add_rows.simps) (simp add: add.commute)
    then show ?thesis using s'(2) unfolding cells by (simp only: fold_append comp_apply) blast
  qed
qed

text \<open>The first two free descriptors.\<close>

lemma find_filter: "find P xs = (case filter P xs of [] \<Rightarrow> None | x # _ \<Rightarrow> Some x)"
  by (induction xs) simp_all

lemma free_twice:
  assumes "filter (\<lambda>i. flags (ds ! i) = 0) [2..<8] = i # j # is" "length ds = 8" "flags d = 1"
  shows "find (\<lambda>i. flags (ds ! i) = 0) [2..<8] = Some i" "find (\<lambda>k. flags (ds[i := d] ! k) = 0) [2..<8] = Some j" "i \<noteq> j"
    "i \<in> {2..<8}" "j \<in> {2..<8}"
proof -
  have "i \<in> set (filter (\<lambda>i. flags (ds ! i) = 0) [2..<8])" "j \<in> set (filter (\<lambda>i. flags (ds ! i) = 0) [2..<8])"
    using assms(1) by simp_all
  then show i: "i \<in> {2..<8}" and "j \<in> {2..<8}" by simp_all
  have dist: "distinct (i # j # is)" using distinct_filter [of "[2..<8]"] assms(1) by (metis distinct_upt)
  then show "i \<noteq> j" by simp
  show "find (\<lambda>i. flags (ds ! i) = 0) [2..<8] = Some i" by (simp add: find_filter assms(1))
  have "filter (\<lambda>k. flags (ds[i := d] ! k) = 0) [2..<8] = filter (\<lambda>k. k \<noteq> i) (filter (\<lambda>k. flags (ds ! k) = 0) [2..<8])"
    unfolding filter_filter using assms(2,3) i by (intro filter_cong) (auto simp: nth_list_update)
  also have "\<dots> = j # is" unfolding assms(1) using dist by (auto simp: filter_id_conv)
  finally show "find (\<lambda>k. flags (ds[i := d] ! k) = 0) [2..<8] = Some j" by (simp add: find_filter)
qed

section \<open>add_frames\<close>

text \<open>A name of the program that one of its files has.\<close>

definition names_text :: "u8 list list \<Rightarrow> u32 \<Rightarrow> u8 list \<Rightarrow> u32 set \<Rightarrow> 'a proc_state_scheme \<Rightarrow> bool" where
  "names_text es a txt W s \<longleftrightarrow> (\<exists>nm e. in_program a (Suc (length nm)) \<and> cstr_at (uld8 s) a nm \<and> span a (Suc (length nm)) \<inter> W = {} \<and>
     find (\<lambda>e. ename e = nm) es = Some e \<and> file_type e \<noteq> Some 0 \<and> file_type e \<noteq> Some 1 \<and> text_file s (the (inode_num e)) txt)"

lemma kept_but_bytes:
  assumes "kept_but W s s'" "in_program a (length bs)" "span a (length bs) \<inter> W = {}"
  shows "bytes_at (uld8 s') a bs \<longleftrightarrow> bytes_at (uld8 s) a bs"
proof -
  have "uld8 s' (a + of_nat i) = uld8 s (a + of_nat i)" if "i < length bs" for i
    using kept_but_ld [OF assms(1) in_program_offset(1) [OF assms(2) that]] spanI [OF that, of a] assms(3) by blast
  then show ?thesis by (simp add: bytes_at_def)
qed

lemma names_kept: "names_text es a txt W s \<Longrightarrow> kept_but W s s' \<Longrightarrow> names_text es a txt W s'"
proof -
  assume n: "names_text es a txt W s" and k: "kept_but W s s'"
  obtain nm e where "in_program a (Suc (length nm))" "cstr_at (uld8 s) a nm" "span a (Suc (length nm)) \<inter> W = {}"
    "find (\<lambda>e. ename e = nm) es = Some e" "file_type e \<noteq> Some 0" "file_type e \<noteq> Some 1" "text_file s (the (inode_num e)) txt"
    using n by (auto simp: names_text_def)
  moreover from this have "cstr_at (uld8 s') a nm" using kept_but_bytes [OF k, of a "nm @ [0]"] by (simp add: cstr_at_def)
  ultimately show "names_text es a txt W s'" using text_file_kept [OF _ k] unfolding names_text_def by blast
qed

lemma names_mono: "names_text es a txt W s \<Longrightarrow> V \<subseteq> W \<Longrightarrow> names_text es a txt V s"
  unfolding names_text_def by blast

lemma directory_kept: "module_directory s es \<Longrightarrow> kept_but W s s' \<Longrightarrow> module_directory s' es"
  using module_directory_cong [of s es s'] by (simp add: kept_but_def)

lemma open_text:
  fixes s :: "'a proc_state_scheme"
  assumes r: "fish_runs n s" and d: "module_directory s es" and nm: "names_text es a txt W s"
    and i: "find (\<lambda>i. flags (own_table s ! i) = 0) [2..<8] = Some i" and c: "uld8 s c = Some v" "in_program c 1" "v \<noteq> nl"
  shows "\<exists>s' d. ece391_open irq a irqs s = Some (of_nat i, irqs, s') \<and> fish_runs n s' \<and> kept_but {} s s' \<and>
    own_table s' = (own_table s)[i := d] \<and> flags d = 1 \<and> reads s' i c txt (Reading 0 v)"
proof -
  obtain con where con: "running n con s" and o: "owns (xlate User) fish_space s" using r by (auto simp: fish_runs_def)
  have t: "length (own_table s) = 8" using con by (simp add: running_def table_ok_def)
  obtain str e where e: "in_program a (Suc (length str))" "cstr_at (uld8 s) a str" "find (\<lambda>e. ename e = str) es = Some e"
    "file_type e \<noteq> Some 0" "file_type e \<noteq> Some 1" "text_file s (the (inode_num e)) txt"
    using nm by (auto simp: names_text_def)
  obtain s' where s': "ece391_open irq a irqs s = Some (of_nat i, irqs, s')" "running n con s'" "user_effect n {} s s'"
    "own_table s' = (own_table s)[i := opened e]" "quietly s s'"
    using open_returns [OF con _ _ e(1-3) i, of irq irqs] d by (auto simp: module_directory_def)
  have k: "kept_but {} s s'" using cells_kept [OF con o quiet_cells [OF s'(5), of n "{}"]] s'(3) by (simp add: user_effect_def)
  have i8: "i \<in> {2..<8}" using i by (auto simp: find_Some_iff)
  have "uld8 s' c = Some v" using kept_but_ld [OF k _] in_program_offset(1) [OF c(2), of 0] c(1) by simp
  then have "reads s' i c txt (Reading 0 v)"
    using i8 t s'(4) e(4-6) c(2,3) text_file_kept [OF e(6) k] by (simp add: reads_def opened_def)
  moreover have "flags (opened e) = 1" by (simp add: opened_def)
  ultimately show ?thesis using s'(1,4) k fish_runs_kept [OF r k s'(2)] by blast
qed

lemma not_negative: "i < 8 \<Longrightarrow> \<not> (of_nat i :: i32) <s 0"
  by (simp add: word_sless_alt sint_of_nat_u32)

lemma add_frames_adds:
  fixes s :: "'a proc_state_scheme"
  assumes l: "fish_locals f temp c0 c1 bst" and r: "fish_runs n s" and b: "fish_blinks f temp ps bs vid s"
    and d: "module_directory s es" and n0: "names_text es f0 t0 ({c0, c1} \<union> span bst 16) s" and n1: "names_text es f1 t1 ({c0, c1} \<union> span bst 16) s"
    and free: "filter (\<lambda>i. flags (own_table s ! i) = 0) [2..<8] = i0 # i1 # is"
    and small: "\<forall>(k, a, b) \<in> set (frame_cells 0 (text_rows t0) (text_rows t1)). k < 65536"
  shows "\<exists>s'. add_frames irq f temp c0 c1 bst f0 f1 irqs s = Some (Inr (irqs, s')) \<and>
    fish_inv n f temp bst (fold place_cell (frame_cells 0 (text_rows t0) (text_rows t1)) (bs, vid)) s'"
proof -
  note L = locals_fields [OF l]
  let ?W = "{c0, c1} \<union> span bst 16"
  have c01: "c0 \<noteq> c1" "c0 \<notin> span bst 16" "c1 \<notin> span bst 16" "in_program c0 1" "in_program c1 1"
    using l by (simp_all add: fish_locals_def)
  obtain s1 where s1: "ust8 c0 48 s = Some s1" "fish_runs n s1" "kept_but {c0} s s1" "own_table s1 = own_table s" "uld8 s1 c0 = Some 48"
    using fish_ust8 [OF r L(5)] by blast
  obtain s2 where s2: "ust8 c1 48 s1 = Some s2" "fish_runs n s2" "kept_but {c1} s1 s2" "own_table s2 = own_table s1" "uld8 s2 c1 = Some 48"
    using fish_ust8 [OF s1(2) L(6)] by blast
  obtain s3 where s3: "st16 ust8 (bst + 4) 15 s2 = Some s3" "fish_runs n s3" "kept_but (span (bst + 4) 2) s2 s3" "own_table s3 = own_table s2"
    "ld16 (uld8 s3) (bst + 4) = Some 15"
    using fish_st16 [OF s2(2) L(1)] by blast
  obtain s4 where s4: "st16 ust8 (bst + 6) 15 s3 = Some s4" "fish_runs n s4" "kept_but (span (bst + 6) 2) s3 s4" "own_table s4 = own_table s3"
    "ld16 (uld8 s4) (bst + 6) = Some 15"
    using fish_st16 [OF s3(2) L(2)] by blast
  have k4: "kept_but ?W s s4"
  proof -
    have "kept_but ?W s s1" "kept_but ?W s1 s2" "kept_but ?W s2 s3" "kept_but ?W s3 s4"
      using kept_but_mono [OF s1(3), of ?W] kept_but_mono [OF s2(3), of ?W] kept_but_mono [OF s3(3), of ?W] kept_but_mono [OF s4(3), of ?W] L(3,4)
      by auto
    then show ?thesis by (meson kb.eff_trans)
  qed
  have v: "uld8 s4 c0 = Some 48" "uld8 s4 c1 = Some 48" "ld16 (uld8 s4) (bst + 4) = Some 15"
  proof -
    have x: "x \<notin> span (bst + 4) 2 \<and> x \<notin> span (bst + 6) 2" if "x \<notin> span bst 16" for x using that L(3,4) by blast
    show "uld8 s4 c1 = Some 48"
      using kept_but_ld [OF s3(3) L(6)] kept_but_ld [OF s4(3) L(6)] s2(5) x [OF c01(3)] by simp
    show "uld8 s4 c0 = Some 48"
      using kept_but_ld [OF s2(3) L(5)] kept_but_ld [OF s3(3) L(5)] kept_but_ld [OF s4(3) L(5)] s1(5) x [OF c01(2)] c01(1) by simp
    show "ld16 (uld8 s4) (bst + 4) = Some 15" using kept_but_ld16 [OF s4(3) L(1)] s3(5) by (simp add: span_2)
  qed
  have own4: "own_table s4 = own_table s" using s1(4) s2(4) s3(4) s4(4) by simp
  have inv4: "fish_inv n f temp bst (bs, vid) s4"
  proof -
    have "?W \<inter> (span (blink_array f) 32000 \<union> span (mp1_list_head f) 4 \<union> span (vmem_base_addr f) 4 \<union> span ONE_GIG 4000) = {}"
      using l L(7-9) unfolding fish_locals_def by blast
    moreover have "owns (xlate User) fish_space s4" using s4(2) by (simp add: fish_runs_def)
    ultimately have "fish_blinks f temp ps bs vid s4" using kept_blinks [OF b k4] by blast
    then show ?thesis using s4(2,5) v(3) by (auto simp: fish_inv_def)
  qed
  have t8: "length (own_table s) = 8" using r by (auto simp: fish_runs_def running_def table_ok_def)
  have fr: "find (\<lambda>i. flags (own_table s4 ! i) = 0) [2..<8] = Some i0" using free by (simp add: own4 find_filter)
  obtain s5 d0 where s5: "ece391_open irq f0 irqs s4 = Some (of_nat i0, irqs, s5)" "fish_runs n s5" "kept_but {} s4 s5"
    "own_table s5 = (own_table s4)[i0 := d0]" "flags d0 = 1" "reads s5 i0 c0 t0 (Reading 0 48)"
    using open_text [OF s4(2) directory_kept [OF d k4] names_kept [OF n0 k4] fr v(1) c01(4), where irq = irq and irqs = irqs] by auto
  note ft = free_twice [OF free t8 s5(5)]
  have k5: "kept_but ?W s s5" using k4 s5(3) by (rule kept_but_then) simp
  have fr5: "find (\<lambda>i. flags (own_table s5 ! i) = 0) [2..<8] = Some i1" using ft(2) by (simp only: s5(4) own4)
  have v5: "uld8 s5 c1 = Some 48" using kept_but_ld [OF s5(3) L(6)] v(2) by simp
  obtain s6 d1 where s6: "ece391_open irq f1 irqs s5 = Some (of_nat i1, irqs, s6)" "fish_runs n s6" "kept_but {} s5 s6"
    "own_table s6 = (own_table s5)[i1 := d1]" "reads s6 i1 c1 t1 (Reading 0 48)"
    using open_text [OF s5(2) directory_kept [OF d k5] names_kept [OF n1 k5] fr5 v5 c01(5), where irq = irq and irqs = irqs] by auto
  have "reads s6 i0 c0 t0 (Reading 0 48)" using reads_kept [OF s5(6) s6(3)] s6(4) ft(3) by simp
  then have b6: "both_read s6 i0 i1 c0 c1 t0 t1 (Reading 0 48) (Reading 0 48)" using s6(5) ft(3) by (simp add: both_read_def)
  have inv6: "fish_inv n f temp bst (bs, vid) s6"
    using inv_kept [OF l inv_kept [OF l inv4 s5(3,2)] s6(3,2)] by simp
  obtain s' where s': "add_rows irq f temp (of_nat i0) (of_nat i1) c0 c1 bst (of_nat 0) 0 0 irqs s6 = Some (irqs, s')"
    "fish_inv n f temp bst (fold place_cell (frame_cells 0 (text_rows t0) (text_rows t1)) (bs, vid)) s'"
    using add_rows_adds [OF l inv6 b6, of 0 irq irqs] small by auto
  have "add_frames irq f temp c0 c1 bst f0 f1 irqs s = Some (Inr (irqs, s'))"
    using s1(1) s2(1) s3(1) s4(1) s5(1) s6(1) s'(1) not_negative [of i0] not_negative [of i1] ft(4,5) by (simp add: add_frames_def)
  then show ?thesis using s'(2) by blast
qed

text \<open>The tables of \<open>initialize_page\<close>, with the page of a program, hide the kernel.\<close>

lemma tables_hide_kernel:
  assumes u: "linked u" and n: "n < 6"
    and s: "paging s" "page_directory s = (page_directory (initialize_page u))(32 := program_page n)"
      "page_table s = page_table (initialize_page u)" "page_table_vid s = page_table_vid (initialize_page u)"
      "page_table_at s = page_table_at u" "page_table_vid_at s = page_table_vid_at u"
  shows "kernel_hidden s"
  unfolding kernel_hidden_def
proof (intro allI impI notI)
  fix a p
  assume x: "xlate User s a = Some p" and p: "region p = 1"
  note low = region_low [OF p]
  have p1: "paging (initialize_page u)" "page_table_at (initialize_page u) = page_table_at u" "page_table_vid_at (initialize_page u) = page_table_vid_at u"
    by (simp_all add: initialize_page_eq)
  show False
  proof (cases "region a = 32")
    case True
    have pg: "user_page n s" using n s(1,2) by (simp add: user_page_def kernel_mapped_def) (simp add: initialize_page_eq)
    have "unat a div 2 ^ 22 = 32" using True small_address(1) [of "unat a"] unat_u32_less [of a] by simp
    then have "unat a div 0x400000 = 32" by simp
    then have "user_addr a" using mult_div_mod_eq [of "0x400000" "unat a"] mod_less_divisor [of "0x400000" "unat a"]
      by (simp add: user_addr_def)
    then show False using x user_xlate [OF pg] cell_of_high [OF n] low by fastforce
  next
    case False
    then have "page_directory s (unat (drop_bit 22 a)) = page_directory (initialize_page u) (unat (drop_bit 22 a))"
      by (simp add: s(2) region_def)
    then have "xlate User s a = xlate User (initialize_page u) a"
      using s(1,3-6) p1 by (simp add: xlate_def table_at_def Let_def)
    then have v: "region a = 256" "page_in_region a < 4" "p = VIM_MEM_INDEX + (a - ONE_GIG)"
      using x initialize_page_maps [OF u, of User a] by (auto split: if_splits)
    have a: "a = ONE_GIG + of_nat (page_in_region a) * FOUR_KB + take_bit 12 a"
      using address_split [of a] unfolding v(1) by (simp add: add.assoc)
    have "a - ONE_GIG = of_nat (page_in_region a) * FOUR_KB + take_bit 12 a" by (subst (1) a) simp
    moreover have t: "unat (take_bit 12 a) < 4096" using take_bit_nat_less_exp [of 12 "unat a"] by (simp add: unsigned_take_bit_eq)
    have "(of_nat (page_in_region a * 4096 + unat (take_bit 12 a)) :: u32) = of_nat (page_in_region a) * FOUR_KB + take_bit 12 a" by simp
    ultimately have p': "p = of_nat (0xB8000 + (page_in_region a * 4096 + unat (take_bit 12 a)))" by (simp add: v(3))
    have "unat p = 0xB8000 + (page_in_region a * 4096 + unat (take_bit 12 a))"
      unfolding p' using v(2) t by (intro unat_of_nat_u32) simp
    then show False using low v(2) t by simp
  qed
qed

section \<open>The animation on the kernel\<close>

text \<open>
  C33. The frames of \<open>fish\<close>: with the screen mapped and two descriptors free, \<open>add_frames\<close> opens the two
  files it is given, reads them to their ends and returns. For every place where not both texts have
  a blank it has added one character that blinks between the two, row by row from column 40 of the
  screen and in the order of the files; a row or a text that ends before the other counts as blank.
\<close>

theorem add_frames_shows:
  fixes s :: "'a proc_state_scheme"
  assumes "fish_locals f temp c0 c1 bst" "fish_runs n s" "fish_blinks f temp ps bs vid s" "module_directory s es"
    and "names_text es f0 t0 ({c0, c1} \<union> span bst 16) s" "names_text es f1 t1 ({c0, c1} \<union> span bst 16) s"
    and "filter (\<lambda>i. flags (own_table s ! i) = 0) [2..<8] = i0 # i1 # is"
    and "\<forall>(k, a, b) \<in> set (frame_cells 0 (text_rows t0) (text_rows t1)). k < 65536"
  shows "\<exists>s' ps' bs' vid'. add_frames irq f temp c0 c1 bst f0 f1 irqs s = Some (Inr (irqs, s')) \<and>
    fold place_cell (frame_cells 0 (text_rows t0) (text_rows t1)) (bs, vid) = (bs', vid') \<and>
    fish_blinks f temp ps' bs' vid' s' \<and> fish_runs n s'"
proof -
  obtain bs' vid' where r: "fold place_cell (frame_cells 0 (text_rows t0) (text_rows t1)) (bs, vid) = (bs', vid')" by fastforce
  show ?thesis using add_frames_adds [OF assms, of irq irqs] unfolding r fish_inv_def by auto
qed

subsection \<open>A machine on which the program runs\<close>

lemma demo_tables: "\<exists>u. linked u \<and> demo_tty = initialize_page u"
proof -
  have "linked u \<Longrightarrow> demo_tty = initialize_page u \<Longrightarrow> ?thesis" for u by blast
  from this [OF _ demo_tty_def] show ?thesis by (simp add: linked_def)
qed

lemma demo_user_hidden: "kernel_hidden (demo_user strs p)"
proof -
  obtain u where u: "linked u" "demo_tty = initialize_page u" using demo_tables by blast
  have "paging (demo_user strs p)" "page_directory (demo_user strs p) = (page_directory (initialize_page u))(32 := program_page 1)"
    "page_table (demo_user strs p) = page_table (initialize_page u)" "page_table_vid (demo_user strs p) = page_table_vid (initialize_page u)"
    "page_table_at (demo_user strs p) = page_table_at u" "page_table_vid_at (demo_user strs p) = page_table_vid_at u"
    unfolding u(2) [symmetric]
    by (simp_all add: demo_user_def demo_proc_def kbd_state.defs demo_kbd_def tty_state.defs)
      (simp_all add: u(2) initialize_page_eq)
  then show ?thesis by (intro tables_hide_kernel [OF u(1), of 1]) simp_all
qed

lemma demo_user_displays:
  assumes "short_lits strs" "table_ok (file_descs p)"
  shows "displays (demo_user strs p) 0xB8000"
proof -
  have "video_ok (demo_user strs p)" using demo_user_running [OF assms] by (simp add: running_def demo_screen_def console_def)
  moreover have "page_table_vid (demo_user strs p) 0 = 0xB8000 OR 7"
    by (simp add: demo_user_def demo_proc_def kbd_state.defs demo_kbd_def tty_state.defs) (simp add: demo_tty_def initialize_page_eq)
  ultimately show ?thesis by (simp add: displays_paged)
qed

lemma demo_user_fish:
  assumes "short_lits strs" "table_ok (file_descs p)"
  shows "fish_runs 1 (demo_user strs p)"
  using owns_space [OF demo_user_page demo_user_displays [OF assms]] demo_user_running [OF assms] demo_user_hidden [of strs p]
  unfolding fish_runs_def by fastforce

text \<open>The program before \<open>add_frames\<close>: the array is clear, the screen is mapped and its address stored.\<close>

lemma demo_user_zero:
  assumes "short_lits strs" "n < 0x400000" "0x49000 \<le> n"
  shows "uld8 (demo_user strs p) (0x8000000 + of_nat n) = Some 0"
proof -
  have a: "unat (0x8000000 + of_nat n :: u32) = 0x8000000 + n" "unat (0xC00000 + of_nat n :: u32) = 0xC00000 + n"
    using unat_of_nat_u32 [of "0x8000000 + n"] unat_of_nat_u32 [of "0xC00000 + n"] assms(2) by simp_all
  have "find (in_seg (0xC00000 + of_nat n)) (lit_segs strs) = None \<and> image_bytes (lit_segs strs) (0xC00000 + of_nat n) = 0"
  proof (rule image_none)
    fix seg assume "seg \<in> set (lit_segs strs)"
    then obtain k where k: "k < length strs" "seg = (0xC48000 + 64 * of_nat k, chars (strs ! k) @ [0])" by (auto simp: lit_segs_def)
    moreover have "length (strs ! k) < 64" "k < 64" using assms(1) k(1) by (auto simp: short_lits_def)
    ultimately show "\<not> in_seg (0xC00000 + of_nat n) seg" using assms(3) a lit_base [of k] by (simp add: not_in_seg_above)
  qed
  moreover have "find (in_seg (0xC00000 + of_nat n)) sys_image = None" using a by (intro sys_image_above) simp
  ultimately have "image_bytes (user_image strs) (0xC00000 + of_nat n) = 0" by (simp add: user_image_def image_append)
  moreover have "user_addr (0x8000000 + of_nat n)" "cell_of 1 (0x8000000 + of_nat n) = 0xC00000 + of_nat n"
    using a assms(2) by (simp_all add: user_addr_def cell_of_def)
  ultimately show ?thesis using uld8_cell [OF demo_user_page] by simp
qed

lemma running_page: "fish_runs n s \<Longrightarrow> user_page n s"
  by (auto simp: fish_runs_def running_def)

lemma demo_fish_mapped:
  assumes l: "short_lits strs" and t: "table_ok (file_descs p)"
  shows "\<exists>s vid. kept_but (span 0x8110010 4) (demo_user strs p) s \<and> fish_runs 1 s \<and> own_table s = file_descs p \<and>
    fish_blinks demo_fish_vars 0x8120000 [] [] vid s"
proof -
  let ?d = "demo_user strs p" and ?W = "span 0x8110010 4 :: u32 set"
  note r = demo_user_fish [OF l t]
  have p4: "in_program 0x8110010 4" by (simp add: in_program_def)
  have o: "owns (xlate User) fish_space ?d" using r by (simp add: fish_runs_def)
  obtain s where s: "ld32 (uld8 s) 0x8110010 = Some ONE_GIG" "alters uld8 (hidden User) fish_space ?W ?d s"
    using umem.st32_owned [OF o program_space [OF p4], of ONE_GIG] by blast
  note f = fish_stores [OF r s(2)]
  have d: "displays s 0xB8000"
  proof -
    have "hidden User s = hidden User ?d" using s(2) by (simp add: alters_def)
    then obtain q where q: "s = ?d\<lparr>phys := q\<rparr>" using hidden_eqD(1) by blast
    have "displays s F = displays ?d F" for F unfolding q by (simp add: displays_def video_ok_def linked_def)
    then show ?thesis using demo_user_displays [OF l t] by simp
  qed
  have z: "uld8 s (0x8000000 + of_nat k) = Some 0" if k: "k < 0x110010" "0x49000 \<le> k" for k
  proof -
    have u: "unat (0x8000000 + of_nat k :: u32) = 0x8000000 + k" using unat_of_nat_u32 [of "0x8000000 + k"] k(1) by simp
    then have "user_addr (0x8000000 + of_nat k)" "0x8000000 + of_nat k \<notin> ?W"
      using k(1) span_range [OF p4, of "0x8000000 + of_nat k"] by (auto simp: user_addr_def)
    then show ?thesis using kept_but_ld [OF f(2)] demo_user_zero [OF l, of k] k by simp
  qed
  have "\<exists>vid. fish_blinks demo_fish_vars 0x8120000 [] [] vid s"
  proof (rule fish_blinks_start [OF running_page [OF f(1)] d _ demo_fish_data])
    have "uld8 s (0x8100000 + of_nat i) = Some 0" if "i < 32000" for i using z [of "0x100000 + i"] that by simp
    then show "bytes_at (uld8 s) (blink_array demo_fish_vars) (replicate 32000 0)" by (simp add: bytes_at_def demo_fish_vars_def)
    show "ld32 (uld8 s) (mp1_list_head demo_fish_vars) = Some 0"
      using z [of "0x110000"] z [of "0x110001"] z [of "0x110002"] z [of "0x110003"]
      by (simp add: ld32_def demo_fish_vars_def le_word_def)
    show "ld32 (uld8 s) (vmem_base_addr demo_fish_vars) = Some ONE_GIG" using s(1) by (simp add: demo_fish_vars_def)
  qed simp
  then show ?thesis using f by auto
qed

text \<open>The one file of the machine, as a text, and its rows.\<close>

lemma demo_text: "take 40 demo_block = demo_elf"
proof (rule nth_equalityI)
  show len: "length (take 40 demo_block) = length demo_elf" by (simp add: demo_block_def demo_elf_def)
  fix i assume "i < length (take 40 demo_block)"
  then have i: "i < 40" by simp
  have u: "unat (0x502000 + of_nat i :: u32) = 0x502000 + i" "unat (of_nat i :: u32) = i"
    using unat_of_nat_u32 [of "0x502000 + i"] unat_of_nat_u32 [of i] i by simp_all
  have "\<not> in_seg (0x502000 + of_nat i) seg" if "seg \<in> set (take 4 sys_image)" for seg
    using that u i by (auto simp: sys_image_def demo_entry_def not_in_seg_above)
  then have "find (in_seg (0x502000 + of_nat i)) (take 4 sys_image) = None" by (simp add: find_None_iff)
  moreover have "sys_image = take 4 sys_image @ (0x502000, demo_elf) # drop 5 sys_image" by (simp add: sys_image_def)
  ultimately have "image_bytes sys_image (0x502000 + of_nat i) = image_bytes ((0x502000, demo_elf) # drop 5 sys_image) (0x502000 + of_nat i)"
    using image_append [of "take 4 sys_image" "(0x502000, demo_elf) # drop 5 sys_image"] by simp
  also have "\<dots> = demo_elf ! i" using i u by (simp add: image_bytes_def) (simp add: demo_elf_def)
  finally show "take 40 demo_block ! i = demo_elf ! i" using i by (simp add: demo_block_def)
qed

lemma one_row: "nl \<notin> set t \<Longrightarrow> text_rows t = [t]"
  by (induction t) auto

lemma row_cells_range: "(j, a, b) \<in> set (row_cells k as bs) \<Longrightarrow> j < k + max (length as) (length bs)"
  by (induction k as bs rule: row_cells.induct) auto

lemma demo_row: "text_rows demo_elf = [demo_elf]"
  by (intro one_row) (simp add: demo_elf_def)

lemma demo_cells: "\<forall>(k, a, b) \<in> set (frame_cells 0 (text_rows demo_elf) (text_rows demo_elf)). k < 65536"
proof -
  have "length demo_elf = 40" by (simp add: demo_elf_def)
  then show ?thesis using row_cells_range [of _ _ _ 40 demo_elf demo_elf] by (fastforce simp: demo_row)
qed

lemma demo_user_name:
  assumes "str = ''sh''" "span (demo_lit [str] str) 3 \<inter> W = {}"
  shows "names_text [demo_entry [46] 1 0, demo_entry [115, 104] 2 0] (demo_lit [str] str) demo_elf W (demo_user [str] p)"
proof -
  have l: "short_lits [str]" by (simp add: short_lits_def assms(1) chars_def)
  have c: "chars str = [115, 104]" by (simp add: assms(1) chars_def)
  note f = demo_entry_fields [of "[115, 104]" 2 0]
  have "text_file (demo_user [str] p) 0 demo_elf"
    using demo_user_file [OF l, of p] demo_text unfolding text_file_def by (intro exI conjI) auto
  moreover have "in_program (demo_lit [str] str) (Suc (length [115, 104 :: u8]))" "cstr_at (uld8 (demo_user [str] p)) (demo_lit [str] str) [115, 104]"
    using demo_user_lit [OF l, of str p] by (simp_all add: lit_at_def c) (simp_all add: assms(1))
  ultimately show ?thesis
    unfolding names_text_def using f assms(2) [unfolded numeral_3_eq_3] demo_enames
    by (intro exI [of _ "[115, 104]"] exI [of _ "demo_entry [115, 104] 2 0"]) simp
qed

theorem add_frames_shows_witness:
  "\<exists>(s :: proc_state) s' vid ps' bs' vid'. fish_blinks demo_fish_vars 0x8120000 [] [] vid s \<and>
    add_frames (\<lambda>_ _. None) demo_fish_vars 0x8120000 0x8130000 0x8130001 0x8130010 0x8048000 0x8048000 [()] s = Some (Inr ([()], s')) \<and>
    fold place_cell (row_cells 40 demo_elf demo_elf) ([], vid) = (bs', vid') \<and> fish_blinks demo_fish_vars 0x8120000 ps' bs' vid' s'"
proof -
  let ?f = demo_fish_vars and ?W = "{0x8130000, 0x8130001} \<union> span 0x8130010 16 :: u32 set"
  let ?es = "[demo_entry [46] 1 0, demo_entry [115, 104] 2 0]" and ?d = "demo_user [''sh''] demo_pcb"
  have l: "short_lits [''sh'']" by (simp add: short_lits_def chars_def)
  obtain s vid where s: "kept_but (span 0x8110010 4) ?d s" "fish_runs 1 s" "own_table s = file_descs demo_pcb" "fish_blinks ?f 0x8120000 [] [] vid s"
    using demo_fish_mapped [OF l demo_table] by blast
  have lc: "fish_locals ?f 0x8120000 0x8130000 0x8130001 0x8130010"
    using demo_fish_data unfolding fish_locals_def Int_Un_distrib Int_Un_distrib2
    by (auto simp: demo_fish_vars_def in_program_def apart_spans dest!: demo_span [rotated])
  have a: "demo_lit [''sh''] ''sh'' = 0x8048000" by (simp add: demo_lit_def)
  have "span (demo_lit [''sh''] ''sh'') 3 \<inter> (?W \<union> span 0x8110010 4) = {}"
    unfolding a Int_Un_distrib by (auto simp: apart_spans dest!: demo_span [rotated])
  from names_kept [OF demo_user_name [OF refl this] kept_but_mono [OF s(1)]]
  have nm: "names_text ?es 0x8048000 demo_elf ?W s" unfolding a by (auto intro: names_mono)
  have d: "module_directory s ?es" using directory_kept [OF demo_user_directory [OF l] s(1)] .
  have free: "filter (\<lambda>i. flags (own_table s ! i) = 0) [2..<8] = 2 # 3 # [4, 5, 6, 7]"
    by (simp add: s(3) demo_pcb_def closed_desc_def upt_conv_Cons)
  have e: "frame_cells 0 (text_rows demo_elf) (text_rows demo_elf) = row_cells 40 demo_elf demo_elf" by (simp add: demo_row)
  show ?thesis
    using add_frames_shows [OF lc s(2,4) d nm nm free demo_cells, of "\<lambda>_ _. None" "[()]"] s(4) unfolding e by blast
qed

end
