(* ===== verification/Emulate.thy ===== *)
theory Emulate
  imports Blink
begin

text \<open>
  \<open>ece391emulate.c\<close>: the system calls of the programs, made with those of Linux, so that a program can
  run without the kernel. The C library and Linux are a parameter: a record of functions on the
  process, which is its memory, the static variables of the file and whatever else there is
  (\<open>world\<close>). The two copies of the file under \<open>src\<close> are the same.
\<close>

section \<open>The process\<close>

record 'w linux =
  mem :: "u32 \<Rightarrow> u8 option"
  start_esp :: u32
  dir_fd :: i32
  dir :: u32
  mem_fd :: i32
  world :: 'w

definition linux_st :: "u32 \<Rightarrow> u8 \<Rightarrow> ('w, 'z) linux_scheme \<Rightarrow> ('w, 'z) linux_scheme option" where
  "linux_st a v s = (if mem s a = None then None else Some (s\<lparr>mem := (mem s)(a \<mapsto> v)\<rparr>))"

text \<open>
  How a child ended, as the macros of \<open>sys/wait.h\<close> read it off a status word: with an exit status, or
  by a signal. \<open>Executed\<close>: a child was forked, its \<open>execv\<close> succeeded, and \<open>wait\<close> reports how the new
  program ended; \<open>Not_executed\<close>: its \<open>execv\<close> returned; \<open>No_fork\<close>: \<open>fork\<close> answered -1, and \<open>wait\<close> reports
  another child of the process or fails and stores nothing.
\<close>

datatype wait_status = Exited u8 | Signaled i32

datatype child_run = Executed wait_status | Not_executed | No_fork "wait_status option"

text \<open>
  \<open>int80\<close> is a raw system call: its number and three arguments. \<open>opendir\<close> and \<open>readdir\<close> answer 0 for
  \<open>NULL\<close>; \<open>readdir\<close> answers the address of \<open>d_name\<close>. \<open>mmap_low\<close> maps the first megabyte of the memory
  device, -1 is \<open>MAP_FAILED\<close>. \<open>child\<close> is \<open>fork\<close>, the child's \<open>execv\<close> with a path and pointers to the
  arguments, and the parent's \<open>wait\<close>.
\<close>

record 'w libc =
  int80 :: "u32 \<Rightarrow> u32 \<Rightarrow> u32 \<Rightarrow> u32 \<Rightarrow> 'w linux \<Rightarrow> u32 \<times> 'w linux"
  opendir :: "u32 \<Rightarrow> 'w linux \<Rightarrow> u32 \<times> 'w linux"
  readdir :: "u32 \<Rightarrow> 'w linux \<Rightarrow> u32 \<times> 'w linux"
  closedir :: "u32 \<Rightarrow> 'w linux \<Rightarrow> 'w linux"
  open_path :: "u32 \<Rightarrow> i32 \<Rightarrow> 'w linux \<Rightarrow> i32 \<times> 'w linux"
  close_fd :: "i32 \<Rightarrow> 'w linux \<Rightarrow> 'w linux"
  mmap_low :: "i32 \<Rightarrow> 'w linux \<Rightarrow> u32 \<times> 'w linux"
  child :: "u32 \<Rightarrow> u32 list \<Rightarrow> 'w linux \<Rightarrow> child_run \<times> 'w linux"

abbreviation (input) "O_RDONLY \<equiv> (0 :: i32)"
abbreviation (input) "O_RDWR \<equiv> (2 :: i32)"

section \<open>The wrappers\<close>

text \<open>An answer above \<open>0xFFFFC000\<close> is an error number.\<close>

definition linux_result :: "u32 \<Rightarrow> i32" where
  "linux_result v = (if v \<le> 0xFFFFC000 then v else -1)"

definition linux_call where
  "linux_call C n b c d s = (let (v, s) = int80 C n b c d s in (linux_result v, s))"

definition raw_halt where "raw_halt C v c d s = linux_call C 1 v c d s"
definition raw_read where "raw_read C fd buf nbytes s = linux_call C 3 fd buf nbytes s"
definition raw_write where "raw_write C fd buf nbytes s = linux_call C 4 fd buf nbytes s"
definition raw_close where "raw_close C fd c d s = linux_call C 6 fd c d s"

text \<open>\<open>_start\<close>: \<open>c\<close> and \<open>d\<close> are what the wrapper finds where further arguments would be.\<close>

definition emu_start where
  "emu_start C main sp c d s = do {
     (v, s) \<leftarrow> main (s\<lparr>start_esp := sp\<rparr>);
     Some (raw_halt C v c d s)
   }"

section \<open>ece391_execute\<close>

definition word_char :: "u8 \<Rightarrow> bool" where
  "word_char c \<longleftrightarrow> c \<noteq> of_char (CHR '' '') \<and> c \<noteq> of_char (CHR ''\<newline>'')"

partial_function (option) skip_word :: "(u32 \<Rightarrow> u8 option) \<Rightarrow> u32 \<Rightarrow> u32 option" where
  "skip_word r scan = do {
     c \<leftarrow> r scan;
     if c \<noteq> 0 \<and> word_char c then skip_word r (scan + 1) else Some scan
   }"

partial_function (option) skip_spaces :: "(u32 \<Rightarrow> u8 option) \<Rightarrow> u32 \<Rightarrow> u32 option" where
  "skip_spaces r scan = do {
     c \<leftarrow> r scan;
     if c = of_char (CHR '' '') then skip_spaces r (scan + 1) else Some scan
   }"

text \<open>The array \<open>args\<close> has room for 1024 pointers.\<close>

definition add_arg :: "u32 \<Rightarrow> u32 list \<Rightarrow> u32 list option" where
  "add_arg p args = (if length args < 1024 then Some (args @ [p]) else None)"

partial_function (option) parse_args ::
  "('m \<Rightarrow> u32 \<Rightarrow> u8 option) \<Rightarrow> (u32 \<Rightarrow> u8 \<Rightarrow> 'm \<Rightarrow> 'm option) \<Rightarrow> u32 \<Rightarrow> u32 list \<Rightarrow> 'm \<Rightarrow> (u32 list \<times> 'm) option" where
  "parse_args ld st scan args m = do {
     scan \<leftarrow> skip_spaces (ld m) scan;
     c \<leftarrow> ld m scan;
     if c = 0 \<or> c = of_char (CHR ''\<newline>'') then do {
       m \<leftarrow> st scan 0 m;
       Some (args, m)
     }
     else do {
       args \<leftarrow> add_arg scan args;
       scan \<leftarrow> skip_word (ld m) scan;
       c \<leftarrow> ld m scan;
       if c \<noteq> 0 then do {
         m \<leftarrow> st scan 0 m;
         parse_args ld st (scan + 1) args m
       }
       else parse_args ld st scan args m
     }
   }"

text \<open>The path and the arguments, made in the buffer at \<open>buf\<close>.\<close>

definition split_args where
  "split_args ld st buf command m = do {
     m \<leftarrow> st buf (of_char (CHR ''.'')) m;
     m \<leftarrow> st (buf + 1) (of_char (CHR ''/'')) m;
     m \<leftarrow> ece391_strcpy ld st (buf + 2) command m;
     scan \<leftarrow> skip_word (ld m) (buf + 2);
     c \<leftarrow> ld m scan;
     (args, m) \<leftarrow> (if c \<noteq> 0 then do {
         m \<leftarrow> st scan 0 m;
         parse_args ld st (scan + 1) [buf] m
       }
       else Some ([buf], m));
     args' \<leftarrow> add_arg 0 args;
     Some (args, m)
   }"

definition child_status :: "wait_status \<Rightarrow> i32" where
  "child_status w = (case w of Exited v \<Rightarrow> ucast v | Signaled sig \<Rightarrow> if sig = 9 then -1 else 256)"

text \<open>
  A child whose \<open>execv\<close> returns kills itself with signal 9. Only the answer 0 of \<open>fork\<close> is tested: when
  it fails, the parent waits all the same and reads a status that nobody wrote, \<open>junk\<close>.
\<close>

definition emu_execute where
  "emu_execute C junk buf command s = do {
     n \<leftarrow> ece391_strlen (mem s) command;
     if 1023 < n then Some (-1, s)
     else do {
       (args, s) \<leftarrow> split_args mem linux_st buf command s;
       let (run, s) = child C buf args s;
       let status = (case run of Executed w \<Rightarrow> w | Not_executed \<Rightarrow> Signaled 9
         | No_fork w \<Rightarrow> (case w of Some w \<Rightarrow> w | None \<Rightarrow> junk));
       Some (child_status status, s)
     }
   }"

section \<open>ece391_getargs\<close>

text \<open>\<open>Inl\<close> is the return of -1 from within the loop.\<close>

partial_function (option) join_args ::
  "('m \<Rightarrow> u32 \<Rightarrow> u8 option) \<Rightarrow> (u32 \<Rightarrow> u8 \<Rightarrow> 'm \<Rightarrow> 'm option) \<Rightarrow> u32 \<Rightarrow> i32 \<Rightarrow> i32 \<Rightarrow> u32 \<Rightarrow> i32 \<Rightarrow> 'm \<Rightarrow>
   ('m + u32 \<times> i32 \<times> 'm) option" where
  "join_args ld st argv argc idx buf nbytes m =
     (if idx <s argc then do {
        p \<leftarrow> ld32 (ld m) (argv + 4 * idx);
        len \<leftarrow> ece391_strlen (ld m) p;
        if nbytes <s len then Some (Inl m)
        else do {
          m \<leftarrow> ece391_strcpy ld st buf p m;
          if argc \<le>s idx + 1 then Some (Inr (buf + len, nbytes - len, m))
          else if nbytes - len <s 1 then Some (Inl m)
          else do {
            m \<leftarrow> st (buf + len) (of_char (CHR '' '')) m;
            join_args ld st argv argc (idx + 1) (buf + len + 1) (nbytes - len - 1) m
          }
        }
      }
      else Some (Inr (buf, nbytes, m)))"

definition getargs_at where
  "getargs_at ld st sp buf nbytes m = do {
     argc \<leftarrow> ld32 (ld m) sp;
     r \<leftarrow> join_args ld st (sp + 4) argc 1 buf nbytes m;
     case r of Inl m \<Rightarrow> Some (-1 :: i32, m)
     | Inr (buf, nbytes, m) \<Rightarrow>
         if nbytes <s 1 then Some (-1, m)
         else do { m \<leftarrow> st buf 0 m; Some (0, m) }
   }"

definition emu_getargs where
  "emu_getargs buf nbytes s = getargs_at mem linux_st (start_esp s) buf nbytes s"

section \<open>Files and directories\<close>

definition emu_open where
  "emu_open C lit filename edx s = do {
     v \<leftarrow> ece391_strcmp (mem s) filename (lit ''.'');
     if v = 0 then
       let (d, s) = opendir C (lit ''.'') s;
           s = s\<lparr>dir := d\<rparr>;
           (fd, s) = open_path C (lit ''/dev/null'') O_RDONLY s;
           s = s\<lparr>dir_fd := fd\<rparr>
       in Some (dir_fd s, s)
     else
       let (rval, s) = int80 C 5 filename O_RDONLY edx s
       in Some (if rval > 0xFFFFC000 then -1 else rval, s)
   }"

text \<open>Not a directory that is open.\<close>

definition plain_fd :: "i32 \<Rightarrow> ('w, 'z) linux_scheme \<Rightarrow> bool" where
  "plain_fd fd s \<longleftrightarrow> dir s = 0 \<or> dir_fd s \<noteq> fd"

text \<open>The copy of a name: \<open>Inl\<close> is a return from within the loop.\<close>

partial_function (option) copy_name ::
  "('m \<Rightarrow> u32 \<Rightarrow> u8 option) \<Rightarrow> (u32 \<Rightarrow> u8 \<Rightarrow> 'm \<Rightarrow> 'm option) \<Rightarrow> u32 \<Rightarrow> u32 \<Rightarrow> i32 \<Rightarrow> i32 \<Rightarrow> 'm \<Rightarrow>
   (i32 \<times> 'm + u32 \<times> i32 \<times> 'm) option" where
  "copy_name ld st to from copied nbytes m = do {
     c \<leftarrow> ld m from;
     if c \<noteq> 0 then do {
       m \<leftarrow> st to c m;
       if copied + 1 = nbytes then Some (Inl (nbytes, m))
       else if copied + 1 = 32 then Some (Inl (32, m))
       else copy_name ld st (to + 1) (from + 1) (copied + 1) nbytes m
     }
     else Some (Inr (to, copied, m))
   }"

partial_function (option) pad_name ::
  "(u32 \<Rightarrow> u8 \<Rightarrow> 'm \<Rightarrow> 'm option) \<Rightarrow> u32 \<Rightarrow> i32 \<Rightarrow> i32 \<Rightarrow> 'm \<Rightarrow> (i32 \<times> 'm) option" where
  "pad_name st to copied nbytes m =
     (if copied <s nbytes \<and> copied <s 32 then do {
        m \<leftarrow> st to 0 m;
        pad_name st (to + 1) (copied + 1) nbytes m
      }
      else Some (copied, m))"

definition deliver_name where
  "deliver_name ld st buf name nbytes m = do {
     r \<leftarrow> copy_name ld st buf name 0 nbytes m;
     case r of Inl (n, m) \<Rightarrow> Some (n, m) | Inr (to, copied, m) \<Rightarrow> pad_name st to copied nbytes m
   }"

definition emu_read where
  "emu_read C fd buf nbytes s =
     (if plain_fd fd s then Some (raw_read C fd buf nbytes s)
      else let (de, s) = readdir C (dir s) s
           in if de = 0 then Some (0, s) else deliver_name mem linux_st buf de nbytes s)"

definition emu_write where
  "emu_write C fd buf nbytes s = (if plain_fd fd s then raw_write C fd buf nbytes s else (-1, s))"

definition emu_close where
  "emu_close C fd c d s =
     (if plain_fd fd s then raw_close C fd c d s
      else let s = closedir C (dir s) s;
               s = s\<lparr>dir := 0\<rparr>;
               s = close_fd C (dir_fd s) s;
               s = s\<lparr>dir_fd := -1\<rparr>
           in (0, s))"

text \<open>The address of the screen is at \<open>0xB8000\<close> in the mapped memory.\<close>

definition emu_vidmap where
  "emu_vidmap C lit screen_start s = do {
     let s = (if mem_fd s = -1 then (let (fd, s) = open_path C (lit ''/dev/mem'') O_RDWR s in s\<lparr>mem_fd := fd\<rparr>) else s);
     let (image, s) = mmap_low C (mem_fd s) s;
     if image = -1 then Some (-1 :: i32, s)
     else do {
       s \<leftarrow> st32 linux_st screen_start (image + 0xB8000) s;
       Some (0, s)
     }
   }"

end
