(* ===== verification/Emulate_Spec.thy ===== *)
theory Emulate_Spec
  imports Emulate Blink_Spec
begin

text \<open>
  What the emulated calls do with the command line: \<open>ece391_execute\<close> splits it into words for the new
  program, \<open>ece391_getargs\<close> in that program puts them together again. The parts that work on memory
  are proved in the locale \<open>memory\<close>, whose interpretation is the memory of the Linux process.
\<close>

section \<open>Words\<close>

abbreviation (input) "blank8 \<equiv> (32 :: u8)"
abbreviation (input) "newline8 \<equiv> (10 :: u8)"

lemma word_char_code: "word_char c \<longleftrightarrow> c \<noteq> blank8 \<and> c \<noteq> newline8"
  by (simp add: word_char_def)

text \<open>The words of a text. Where a word should begin, a newline ends the text.\<close>

function split_words :: "u8 list \<Rightarrow> u8 list list" where
  "split_words t = (case dropWhile (\<lambda>c. c = blank8) t of [] \<Rightarrow> []
     | c # r \<Rightarrow> if c = newline8 then [] else takeWhile word_char (c # r) # split_words (drop 1 (dropWhile word_char (c # r))))"
  by pat_completeness auto
termination
proof (relation "measure length")
  fix t :: "u8 list" and c r
  assume d: "dropWhile (\<lambda>c. c = blank8) t = c # r" and c: "c \<noteq> newline8"
  have "c \<noteq> blank8" using hd_dropWhile [of "\<lambda>c. c = blank8" t] d by simp
  then have "dropWhile word_char (c # r) = dropWhile word_char r" using c by (simp add: word_char_code)
  moreover have "length (c # r) \<le> length t" using length_dropWhile_le [of "\<lambda>c. c = blank8" t] d by simp
  moreover have "length (dropWhile word_char r) \<le> length r" by (rule length_dropWhile_le)
  ultimately show "(drop 1 (dropWhile word_char (c # r)), t) \<in> measure length" by simp
qed simp

declare split_words.simps [simp del]

text \<open>The path of the program, in the working directory, and its arguments.\<close>

definition split_command :: "u8 list \<Rightarrow> u8 list list" where
  "split_command cs = ([46, 47] @ takeWhile word_char cs) # split_words (drop 1 (dropWhile word_char cs))"

fun join_words :: "u8 list list \<Rightarrow> u8 list" where
  "join_words [] = []"
| "join_words [w] = w"
| "join_words (w # ws) = w @ blank8 # join_words ws"

lemma split_cases:
  obtains (none) sp where "t = sp" "set sp \<subseteq> {blank8}" "split_words t = []"
    | (ends) sp r where "t = sp @ newline8 # r" "set sp \<subseteq> {blank8}" "split_words t = []"
    | (last) sp w where "t = sp @ w" "set sp \<subseteq> {blank8}" "w \<noteq> []" "\<forall>c \<in> set w. word_char c" "split_words t = [w]"
    | (word) sp w c r where "t = sp @ w @ c # r" "set sp \<subseteq> {blank8}" "w \<noteq> []" "\<forall>c \<in> set w. word_char c" "\<not> word_char c"
        "split_words t = w # split_words r"
proof -
  let ?sp = "takeWhile (\<lambda>c. c = blank8) t" and ?d = "dropWhile (\<lambda>c. c = blank8) t"
  have t: "t = ?sp @ ?d" by simp
  have sp: "set ?sp \<subseteq> {blank8}" by (auto dest: set_takeWhileD)
  show thesis
  proof (cases ?d)
    case Nil
    then have "split_words t = []" by (subst split_words.simps) (simp only: list.case)
    moreover have "t = ?sp" using t Nil by (metis append_Nil2)
    ultimately
    show thesis using none sp by blast
  next
    case (Cons c r)
    show thesis
    proof (cases "c = newline8")
      case True
      then have "split_words t = []" "t = ?sp @ newline8 # r" using split_words.simps [of t] t Cons by simp_all
      then show thesis using ends sp by blast
    next
      case False
      have "c \<noteq> blank8" using hd_dropWhile [of "\<lambda>c. c = blank8" t] Cons by simp
      then have c: "word_char c" using False by (simp add: word_char_code)
      define u v where "u = takeWhile word_char (c # r)" and "v = dropWhile word_char (c # r)"
      have w: "u \<noteq> []" "\<forall>c \<in> set u. word_char c" using c by (auto simp: u_def dest: set_takeWhileD)
      have s: "split_words t = u # split_words (drop 1 v)" using split_words.simps [of t] Cons False by (simp add: u_def v_def)
      have tw: "t = ?sp @ u @ v" using t Cons takeWhile_dropWhile_id [of word_char "c # r"] by (simp add: u_def v_def)
      show thesis
      proof (cases v)
        case Nil
        then have "split_words (drop 1 v) = []" by (subst split_words.simps) simp
        then have "split_words t = [u]" "t = ?sp @ u" using s tw Nil by simp_all
        then show thesis using last sp w by blast
      next
        case (Cons e r')
        have "\<not> word_char e" using hd_dropWhile [of word_char "c # r"] Cons by (simp add: v_def)
        moreover have "split_words t = u # split_words r'" "t = ?sp @ u @ e # r'" using s tw Cons by simp_all
        ultimately show thesis using word sp w by blast
      qed
    qed
  qed
qed

lemma split_words_length: "2 * length (split_words t) \<le> length t + 1"
proof (induction t rule: measure_induct_rule [of length])
  case (less t)
  show ?case
  proof (cases rule: split_cases [of t])
    case (last sp w)
    then show ?thesis by (cases w) simp_all
  next
    case (word sp w c r)
    then have "2 * length (split_words r) \<le> length r + 1" by (intro less) simp
    moreover have "1 \<le> length w" using word(3) by (cases w) simp_all
    ultimately show ?thesis using word(1,6) by simp
  qed simp_all
qed

text \<open>Words survive being joined and split.\<close>

lemma split_words_word:
  "word_char c \<Longrightarrow> split_words (c # r) = takeWhile word_char (c # r) # split_words (drop 1 (dropWhile word_char (c # r)))"
  by (subst split_words.simps) (simp add: word_char_code)

lemma split_first_word:
  "w \<noteq> [] \<Longrightarrow> \<forall>c \<in> set w. word_char c \<Longrightarrow> split_words w = [w]"
  "w \<noteq> [] \<Longrightarrow> \<forall>c \<in> set w. word_char c \<Longrightarrow> split_words (w @ blank8 # r) = w # split_words r"
proof -
  assume w: "w \<noteq> []" "\<forall>c \<in> set w. word_char c"
  obtain c w' where c: "w = c # w'" "word_char c" using w by (cases w) auto
  have t: "takeWhile word_char w = w" "dropWhile word_char w = []" using w(2) by simp_all
  show "split_words w = [w]"
    using split_words_word [OF c(2), of w'] unfolding c(1) [symmetric] t by (simp add: split_words.simps [of "[]"])
  have "takeWhile word_char (w @ blank8 # r) = w" "dropWhile word_char (w @ blank8 # r) = blank8 # r"
    using w(2) by (simp_all add: takeWhile_append dropWhile_append word_char_code)
  then show "split_words (w @ blank8 # r) = w # split_words r"
    using split_words_word [OF c(2), of "w' @ blank8 # r"] c(1) by simp
qed

lemma split_join: "\<forall>w \<in> set ws. w \<noteq> [] \<and> (\<forall>c \<in> set w. word_char c) \<Longrightarrow> split_words (join_words ws) = ws"
  by (induction ws rule: join_words.induct) (simp_all add: split_first_word split_words.simps [of "[]"])

section \<open>Scanning\<close>

lemma skip_word_stops:
  "bytes_at r a (w @ [c]) \<Longrightarrow> \<forall>c \<in> set w. c \<noteq> 0 \<and> word_char c \<Longrightarrow> c = 0 \<or> \<not> word_char c \<Longrightarrow> skip_word r a = Some (a + of_nat (length w))"
proof (induction w arbitrary: a)
  case Nil
  then show ?case by (subst skip_word.simps) (auto simp: bytes_at_Cons)
next
  case (Cons b w)
  then show ?case by (subst skip_word.simps) (simp add: bytes_at_Cons add.assoc)
qed

lemma skip_spaces_stops:
  "bytes_at r a (sp @ [c]) \<Longrightarrow> set sp \<subseteq> {blank8} \<Longrightarrow> c \<noteq> blank8 \<Longrightarrow> skip_spaces r a = Some (a + of_nat (length sp))"
proof (induction sp arbitrary: a)
  case Nil
  then show ?case by (subst skip_spaces.simps) (simp add: bytes_at_Cons)
next
  case (Cons b sp)
  then show ?case by (subst skip_spaces.simps) (simp add: bytes_at_Cons add.assoc)
qed

lemma span_offset: "i < 2 ^ 32 \<Longrightarrow> k + n \<le> 2 ^ 32 \<Longrightarrow> a + of_nat i \<in> span (a + of_nat k) n \<longleftrightarrow> k \<le> i \<and> i < k + n"
proof
  assume b: "i < 2 ^ 32" "k + n \<le> 2 ^ 32"
  assume "a + of_nat i \<in> span (a + of_nat k) n"
  then obtain j where j: "j < n" "a + of_nat i = a + of_nat (k + j)" by (auto simp: span_def add.assoc)
  then have "i = k + j" using b add_of_nat_eq_u32_iff [of i "k + j" a] by simp
  then show "k \<le> i \<and> i < k + n" using j(1) by simp
next
  assume "k \<le> i \<and> i < k + n"
  moreover from this have "a + of_nat i = a + of_nat k + of_nat (i - k)" by (simp add: add.assoc flip: of_nat_add)
  moreover have "i - k < n" using calculation(1) by linarith
  ultimately show "a + of_nat i \<in> span (a + of_nat k) n" using spanI [of "i - k" n "a + of_nat k"] by metis
qed

lemma span_apart:
  "j + n \<le> 2 ^ 32 \<Longrightarrow> j' + n' \<le> 2 ^ 32 \<Longrightarrow> j + n \<le> j' \<or> j' + n' \<le> j \<Longrightarrow> span (a + of_nat j) n \<inter> span (a + of_nat j') n' = {}"
proof -
  assume b: "j + n \<le> 2 ^ 32" "j' + n' \<le> 2 ^ 32" "j + n \<le> j' \<or> j' + n' \<le> j"
  have "a + of_nat j + of_nat i \<notin> span (a + of_nat j') n'" if "i < n" for i
    using span_offset [of "j + i" j' n' a] b that by (auto simp: add.assoc)
  then show ?thesis by (auto simp: span_def [of "a + of_nat j"])
qed

lemma span_1: "span a 1 = {a}"
  by (auto simp: span_def)

text \<open>Of a run of \<open>N\<close> bytes one part is kept while another changes.\<close>

lemma bytes_part:
  assumes "alters ld rest A (span (a + of_nat j') n) m m'" "span a N \<subseteq> A" "N \<le> 2 ^ 32"
    "j + length w \<le> N" "j' + n \<le> N" "j + length w \<le> j' \<or> j' + n \<le> j"
  shows "bytes_at (ld m') (a + of_nat j) w \<longleftrightarrow> bytes_at (ld m) (a + of_nat j) w"
proof -
  have "span (a + of_nat j) (length w) \<subseteq> A" using assms(2) span_sub [OF assms(4), of a] by blast
  moreover have "span (a + of_nat j) (length w) \<inter> span (a + of_nat j') n = {}" using assms(3-6) by (intro span_apart) auto
  ultimately show ?thesis by (intro bytes_alters [OF assms(1)]) blast
qed

text \<open>An argument of the process: a pointer in the vector at \<open>argv\<close> and its text, both within \<open>S\<close>.\<close>

definition arg_at :: "(u32 \<Rightarrow> u8 option) \<Rightarrow> u32 set \<Rightarrow> u32 \<Rightarrow> nat \<Rightarrow> u8 list \<Rightarrow> bool" where
  "arg_at r S argv i w \<longleftrightarrow> (\<exists>p. ld32 r (argv + 4 * of_nat i) = Some p \<and> cstr_at r p w \<and> span (argv + 4 * of_nat i) 4 \<subseteq> S \<and>
     span p (Suc (length w)) \<subseteq> S \<and> length w < 2 ^ 31)"

primrec args_at :: "(u32 \<Rightarrow> u8 option) \<Rightarrow> u32 set \<Rightarrow> u32 \<Rightarrow> nat \<Rightarrow> u8 list list \<Rightarrow> bool" where
  "args_at r S argv k [] \<longleftrightarrow> True"
| "args_at r S argv k (w # ws) \<longleftrightarrow> arg_at r S argv k w \<and> args_at r S argv (Suc k) ws"

lemma arg_alters: "arg_at (ld m) S argv i w \<Longrightarrow> alters ld rest A W m m' \<Longrightarrow> S \<subseteq> A - W \<Longrightarrow> arg_at (ld m') S argv i w"
proof -
  assume a: "arg_at (ld m) S argv i w" "alters ld rest A W m m'" "S \<subseteq> A - W"
  then obtain p where p: "ld32 (ld m) (argv + 4 * of_nat i) = Some p" "cstr_at (ld m) p w" "span (argv + 4 * of_nat i) 4 \<subseteq> S"
    "span p (Suc (length w)) \<subseteq> S" "length w < 2 ^ 31" by (auto simp: arg_at_def)
  have "cstr_at (ld m') p w" using p(2,4) a(3) bytes_alters [OF a(2), of p "w @ [0]"] by (auto simp: cstr_at_def)
  moreover have "ld32 (ld m') (argv + 4 * of_nat i) = Some p" using ld32_alters [OF a(2), of "argv + 4 * of_nat i"] p(1,3) a(3) by auto
  ultimately show ?thesis using p by (auto simp: arg_at_def)
qed

lemma args_alters: "args_at (ld m) S argv k ws \<Longrightarrow> alters ld rest A W m m' \<Longrightarrow> S \<subseteq> A - W \<Longrightarrow> args_at (ld m') S argv k ws"
  by (induction ws arbitrary: k) (auto intro: arg_alters)

lemma join_Cons: "ws \<noteq> [] \<Longrightarrow> join_words (w # ws) = w @ blank8 # join_words ws"
  by (cases ws) simp_all

section \<open>Splitting and joining in memory\<close>

context memory
begin

lemma strcpy_owned:
  assumes "owns cell A m" "cstr_at (ld m) s cs" "span d (Suc (length cs)) \<subseteq> A" "span s (Suc (length cs)) \<subseteq> A"
    "span s (Suc (length cs)) \<inter> span d (Suc (length cs)) = {}" "length cs < 2 ^ 31"
  shows "\<exists>m'. ece391_strcpy ld st d s m = Some m' \<and> cstr_at (ld m') d cs \<and> alters ld rest A (span d (Suc (length cs))) m m'"
  using assms
proof (induction cs arbitrary: m d s)
  case Nil
  have "d \<in> A" using Nil.prems(3) by (auto simp: span_def)
  then obtain m' where "st d 0 m = Some m'" "ld m' d = Some 0" "alters ld rest A {d} m m'" using st_owned [OF Nil.prems(1)] by blast
  then show ?case using Nil.prems(2) by (subst ece391_strcpy.simps) (simp add: cstr_at_Nil span_1 [simplified])
next
  case (Cons c cs)
  let ?D = "span d (Suc (length (c # cs)))" and ?d = "span (d + 1) (Suc (length cs))" and ?s = "span (s + 1) (Suc (length cs))"
  have sub: "?d \<subseteq> ?D" "?s \<subseteq> span s (Suc (length (c # cs)))" "d \<in> ?D"
    using span_sub [of 1 "Suc (length cs)" "Suc (length (c # cs))"] span_self by simp_all
  have d: "d \<notin> ?d" using span_offset [of 0 1 "Suc (length cs)" d] Cons.prems(6) by simp
  have c: "c \<noteq> 0" "ld m s = Some c" "cstr_at (ld m) (s + 1) cs" using Cons.prems(2) by (auto simp: cstr_at_Cons)
  obtain m1 where m1: "st d c m = Some m1" "ld m1 d = Some c" "alters ld rest A {d} m m1"
    using st_owned [OF Cons.prems(1)] sub(3) Cons.prems(3) by blast
  have "cstr_at (ld m1) (s + 1) cs"
    using c(3) bytes_alters [OF m1(3), of "s + 1" "cs @ [0]"] sub Cons.prems(4,5) unfolding cstr_at_def by auto
  moreover have "owns cell A m1" using Cons.prems(1) owns_alters [OF m1(3)] by simp
  moreover have "?d \<subseteq> A" "?s \<subseteq> A" "?s \<inter> ?d = {}" using sub Cons.prems(3-5) by blast+
  ultimately obtain m' where m': "ece391_strcpy ld st (d + 1) (s + 1) m1 = Some m'" "cstr_at (ld m') (d + 1) cs" "alters ld rest A ?d m1 m'"
    using Cons.IH [of m1 "s + 1" "d + 1"] Cons.prems(6) by auto
  have "ld m' d = Some c" using alters_ld [OF m'(3) _ d] m1(2) sub(3) Cons.prems(3) by auto
  moreover have "alters ld rest A ?D m m'" using m1(3) m'(3) by (rule alters_then) (use sub in blast)
  ultimately show ?case using c(1,2) m1(1) m'(1,2) by (subst ece391_strcpy.simps) (auto simp: cstr_at_Cons)
qed

lemma parse_args_words:
  assumes "owns cell A m" "bytes_at (ld m) scan (t @ [0])" "0 \<notin> set t" "span scan (Suc (length t)) \<subseteq> A" "length t < 2 ^ 31"
    "length args + length (split_words t) \<le> 1024"
  shows "\<exists>m' ps. parse_args ld st scan args m = Some (args @ ps, m') \<and> list_all2 (cstr_at (ld m')) ps (split_words t) \<and>
    ld m' (scan + of_nat (length t)) = Some 0 \<and> alters ld rest A (span scan (Suc (length t))) m m'"
  using assms
proof (induction t arbitrary: m scan args rule: measure_induct_rule [of length])
  case (less t)
  note o = less.prems(1) and b = less.prems(2) and z = less.prems(3) and A = less.prems(4) and len = less.prems(5)
  have in_span: "scan + of_nat k \<in> span scan (Suc (length t))" if "k \<le> length t" for k using spanI [of k "Suc (length t)" scan] that by simp
  have stops: ?case if sp: "bytes_at (ld m) scan (sp @ [c])" "set sp \<subseteq> {blank8}" "c = 0 \<or> c = newline8" "length sp \<le> length t"
      "split_words t = []" for sp c
  proof -
    let ?a = "scan + of_nat (length sp)"
    have a: "?a \<in> A" "?a \<in> span scan (Suc (length t))" using in_span [OF sp(4)] A by auto
    obtain m' where m': "st ?a 0 m = Some m'" "ld m' ?a = Some 0" "alters ld rest A {?a} m m'" using st_owned [OF o a(1)] by blast
    have "c \<noteq> blank8" using sp(3) by auto
    then have "parse_args ld st scan args m = Some (args @ [], m')"
      using skip_spaces_stops [OF sp(1,2)] sp(1,3) m'(1) by (subst parse_args.simps) (auto simp: bytes_at_append bytes_at_Cons)
    moreover have "ld m' (scan + of_nat (length t)) = Some 0"
      using m'(2) alters_ld [OF m'(3), of "scan + of_nat (length t)"] bytes_at_nth [OF b, of "length t"] in_span [of "length t"] A
      by (cases "scan + of_nat (length t) = ?a") auto
    moreover have "alters ld rest A (span scan (Suc (length t))) m m'" using m'(3) a(2) by (auto intro: alters_mono)
    ultimately show ?thesis using sp(5) by (intro exI [of _ m'] exI [of _ "[]"]) simp
  qed
  have kept: "bytes_at (ld m') (scan + of_nat j) w \<longleftrightarrow> bytes_at (ld m) (scan + of_nat j) w"
    if "alters ld rest A (span (scan + of_nat j') n) m m'" "j + length w \<le> Suc (length t)" "j' + n \<le> Suc (length t)" "j + length w \<le> j' \<or> j' + n \<le> j"
    for m m' j j' n w
    using bytes_part [OF that(1) A _ that(2-4)] len by simp
  have one_word: "parse_args ld st scan args m = (if c = 0 then parse_args ld st (scan + of_nat (length sp + length w)) (args @ [scan + of_nat (length sp)]) m
      else do { m \<leftarrow> st (scan + of_nat (length sp + length w)) 0 m;
             parse_args ld st (scan + of_nat (length sp + length w) + 1) (args @ [scan + of_nat (length sp)]) m })"
    if w: "bytes_at (ld m) scan (sp @ w @ [c])" "set sp \<subseteq> {blank8}" "w \<noteq> []" "\<forall>c \<in> set w. word_char c" "c = 0 \<or> \<not> word_char c" "0 \<notin> set w"
      "split_words t = w # ws" for sp w c ws
  proof -
    obtain d w' where d: "w = d # w'" "d \<noteq> 0" "d \<noteq> blank8" "d \<noteq> newline8" using w(3,4,6) by (cases w) (auto simp: word_char_code)
    define a e where "a = scan + of_nat (length sp)" and "e = scan + of_nat (length sp + length w)"
    have ae: "a + of_nat (length w) = e" by (simp add: a_def e_def add.assoc)
    have "bytes_at (ld m) scan (sp @ [d])" "bytes_at (ld m) a (w @ [c])" using w(1) d(1) by (simp_all add: a_def bytes_at_append bytes_at_Cons)
    moreover from this(2) have "ld m a = Some d" "ld m e = Some c" using d(1) by (simp_all add: bytes_at_append bytes_at_Cons add.assoc flip: ae)
    moreover have "length args < 1024" using less.prems(6) w(7) by simp
    moreover have "\<forall>c \<in> set w. c \<noteq> 0 \<and> word_char c" using w(4,6) by metis
    ultimately show ?thesis
      using skip_spaces_stops [of "ld m" scan sp d] skip_word_stops [of "ld m" a w c] d(2-4) w(2,5)
      unfolding e_def [symmetric] a_def [symmetric] ae
      by (subst parse_args.simps) (simp add: add_arg_def)
  qed
  show ?case
  proof (cases rule: split_cases [of t])
    case (none sp)
    then show ?thesis using b by (intro stops [of sp 0]) simp_all
  next
    case (ends sp r)
    then show ?thesis using b by (intro stops [of sp newline8]) (simp_all add: bytes_at_append bytes_at_Cons)
  next
    case (last sp w)
    let ?e = "scan + of_nat (length t)"
    have tl: "length t = length sp + length w" "0 < length t" using last(1,3) by simp_all
    have e: "bytes_at (ld m) ?e ([] @ [0])" "bytes_at (ld m) (scan + of_nat (length sp)) w"
      using b unfolding last(1) by (simp_all add: bytes_at_append bytes_at_Cons add.assoc)
    have "parse_args ld st scan args m = parse_args ld st ?e (args @ [scan + of_nat (length sp)]) m"
      using one_word [of sp w 0 "[]"] b z last by (simp add: tl(1))
    moreover obtain m' ps where m': "parse_args ld st ?e (args @ [scan + of_nat (length sp)]) m = Some ((args @ [scan + of_nat (length sp)]) @ ps, m')"
      "list_all2 (cstr_at (ld m')) ps (split_words [])" "ld m' (?e + of_nat (length ([] :: u8 list))) = Some 0"
      "alters ld rest A (span ?e (Suc (length ([] :: u8 list)))) m m'"
      using less.IH [of "[]" m ?e "args @ [scan + of_nat (length sp)]"] o e(1) A span_sub [of "length t" 1 "Suc (length t)" scan] tl(2) less.prems(6) last(5)
      by (fastforce simp: split_words.simps [of "[]"])
    moreover have "bytes_at (ld m') (scan + of_nat (length sp)) w" using kept [OF m'(4), of "length sp" w] e(2) tl by simp
    then have "cstr_at (ld m') (scan + of_nat (length sp)) w"
      using m'(3) z unfolding last(1) by (auto simp: cstr_at_def bytes_at_append bytes_at_Cons add.assoc)
    moreover have "alters ld rest A (span scan (Suc (length t))) m m'"
      using m'(4) span_sub [of "length t" 1 "Suc (length t)" scan] by (intro alters_mono [OF m'(4)]) simp
    ultimately show ?thesis using last(5) by (intro exI [of _ m'] exI [of _ "[scan + of_nat (length sp)]"]) (simp add: split_words.simps [of "[]"])
  next
    case (word sp w c r)
    let ?k = "length sp + length w" let ?e = "scan + of_nat ?k" and ?a = "scan + of_nat (length sp)"
    have tl: "length t = ?k + Suc (length r)" using word(1) by simp
    have e: "bytes_at (ld m) (scan + of_nat (Suc ?k)) (r @ [0])" "bytes_at (ld m) ?a w" "c \<noteq> 0" "?e \<in> A"
      using b z A in_span [of ?k] unfolding word(1) by (auto simp: bytes_at_append bytes_at_Cons ac_simps)
    have s1: "?e + 1 = scan + of_nat (Suc ?k)" by simp
    obtain m1 where m1: "st ?e 0 m = Some m1" "ld m1 ?e = Some 0" "alters ld rest A (span ?e 1) m m1"
      using st_owned [OF o e(4)] unfolding span_1 by blast
    have p: "parse_args ld st scan args m = parse_args ld st (scan + of_nat (Suc ?k)) (args @ [?a]) m1"
    proof -
      have "bytes_at (ld m) scan (sp @ w @ [c])" using b unfolding word(1) by (simp add: bytes_at_append bytes_at_Cons)
      moreover have "0 \<notin> set w" using z word(1) by simp
      ultimately show ?thesis
        using one_word [OF _ word(2-4) _ _ word(6), of c] word(5) m1(1) e(3) s1 by (simp only: if_False Option.bind.bind_lunit simp_thms)
    qed
    have b1: "bytes_at (ld m1) (scan + of_nat (Suc ?k)) (r @ [0])" "bytes_at (ld m1) ?a w"
      using kept [OF m1(3), of "Suc ?k" "r @ [0]"] kept [OF m1(3), of "length sp" w] e tl by simp_all
    have "owns cell A m1" using o owns_alters [OF m1(3)] by simp
    then obtain m' ps where m': "parse_args ld st (scan + of_nat (Suc ?k)) (args @ [?a]) m1 = Some ((args @ [?a]) @ ps, m')"
      "list_all2 (cstr_at (ld m')) ps (split_words r)" "ld m' (scan + of_nat (Suc ?k) + of_nat (length r)) = Some 0"
      "alters ld rest A (span (scan + of_nat (Suc ?k)) (Suc (length r))) m1 m'"
      using less.IH [of r m1 "scan + of_nat (Suc ?k)" "args @ [?a]"] b1(1) z A span_sub [of "Suc ?k" "Suc (length r)" "Suc (length t)" scan] tl len less.prems(6) word(1,6)
      by auto
    have "bytes_at (ld m') ?a w" using kept [OF m'(4), of "length sp" w] b1(2) tl by simp
    moreover have "bytes_at (ld m') ?e [0]" using kept [OF m'(4), of ?k "[0]"] m1(2) tl by (simp add: bytes_at_Cons)
    ultimately have "cstr_at (ld m') ?a w"
      using z unfolding word(1) by (auto simp: cstr_at_def bytes_at_append add.assoc)
    moreover have "alters ld rest A (span scan (Suc (length t))) m m'"
      using m1(3) m'(4) span_sub [of ?k 1 "Suc (length t)" scan] span_sub [of "Suc ?k" "Suc (length r)" "Suc (length t)" scan] tl
      by (intro alters_then [OF m1(3) m'(4)]) auto
    moreover have "ld m' (scan + of_nat (length t)) = Some 0" using m'(3) tl by (simp add: ac_simps)
    ultimately show ?thesis using p m'(1,2) word(6) by (intro exI [of _ m'] exI [of _ "?a # ps"]) simp
  qed
qed

lemma split_args_words:
  assumes o: "owns cell A m" and cs: "cstr_at (ld m) command cs" "length cs \<le> 1023" and A: "span buf 1026 \<subseteq> A" "span command (Suc (length cs)) \<subseteq> A"
    and d: "span command (Suc (length cs)) \<inter> span buf 1026 = {}"
  shows "\<exists>m' ps. split_args ld st buf command m = Some (buf # ps, m') \<and> list_all2 (cstr_at (ld m')) (buf # ps) (split_command cs) \<and>
    alters ld rest A (span buf 1026) m m'"
proof -
  let ?l = "length cs" define w v where "w = takeWhile word_char cs" and "v = dropWhile word_char cs"
  have wv: "cs = w @ v" by (simp add: w_def v_def)
  have z: "0 \<notin> set cs" using cs(1) by (simp add: cstr_at_def)
  have two: "span buf 2 \<subseteq> span buf 1026" using span_sub [of 0 2 1026 buf] by simp
  obtain m2 where m2: "write_bytes st buf [46, 47] m = Some m2" "bytes_at (ld m2) buf [46, 47]" "alters ld rest A (span buf 2) m m2"
  proof -
    have "length [46, 47 :: u8] = 2" by simp
    then show thesis using write_owned [OF o, of buf "[46, 47]"] A(1) two that by (auto simp del: write_bytes.simps list.size)
  qed
  have "bytes_at (ld m2) command (cs @ [0])"
    using bytes_alters [OF m2(3), of command "cs @ [0]"] cs(1) A(2) d two by (auto simp: cstr_at_def)
  then have c2: "cstr_at (ld m2) command cs" using z by (simp add: cstr_at_def)
  have sub: "span (buf + of_nat 2) (Suc ?l) \<subseteq> span buf 1026" using cs(2) by (intro span_sub) simp
  obtain m3 where m3: "ece391_strcpy ld st (buf + 2) command m2 = Some m3" "cstr_at (ld m3) (buf + 2) cs"
    "alters ld rest A (span (buf + of_nat 2) (Suc ?l)) m2 m3"
  proof -
    have "span (buf + of_nat 2) (Suc ?l) \<subseteq> A" "span command (Suc ?l) \<inter> span (buf + of_nat 2) (Suc ?l) = {}" using A(1) sub d by blast+
    then show thesis using strcpy_owned [OF _ c2, of A "buf + 2"] o owns_alters [OF m2(3)] A(2) cs(2) that by auto
  qed
  note part = bytes_part [OF _ A(1)]
  have "bytes_at (ld m3) buf [46, 47]" using part [OF m3(3), of 0 "[46, 47]"] m2(2) cs(2) by simp
  then have b3: "bytes_at (ld m3) buf ([46, 47] @ w @ v @ [0])" using m3(2) wv by (simp add: bytes_at_append bytes_at_Cons cstr_at_def add.assoc)
  have a3: "alters ld rest A (span buf 1026) m m3" using m2(3) m3(3) by (rule alters_then) (use sub two in blast)
  have o3: "owns cell A m3" using o owns_alters [OF a3] by simp
  let ?e = "buf + of_nat (2 + length w)"
  have word: "\<forall>c \<in> set w. c \<noteq> 0 \<and> word_char c" using z wv unfolding w_def by (auto dest: set_takeWhileD)
  have start: "split_args ld st buf command m = do {
      (args, m) \<leftarrow> (if hd (v @ [0]) \<noteq> 0 then do { m \<leftarrow> st ?e 0 m3; parse_args ld st (?e + 1) [buf] m } else Some ([buf], m3));
      args' \<leftarrow> add_arg 0 args; Some (args, m) }"
  proof -
    have e: "buf + 2 + of_nat (length w) = ?e" by simp
    have "hd (v @ [0]) = 0 \<or> \<not> word_char (hd (v @ [0]))" using hd_dropWhile [of word_char cs] unfolding v_def [symmetric] by (cases v) simp_all
    moreover have "bytes_at (ld m3) (buf + 2) (w @ [hd (v @ [0])])"
      using b3 by (cases v) (simp_all add: bytes_at_append bytes_at_Cons add.assoc)
    ultimately have "skip_word (ld m3) (buf + 2) = Some ?e" "ld m3 ?e = Some (hd (v @ [0]))"
      using skip_word_stops [OF _ word] unfolding e [symmetric] by (auto simp: bytes_at_append bytes_at_Cons)
    then show ?thesis using m2(1) m3(1) by (simp add: split_args_def Option.bind_eq_Some_conv) (auto simp: Option.bind_eq_Some_conv)
  qed
  have sc: "split_command cs = ([46, 47] @ w) # split_words (drop 1 v)" by (simp add: split_command_def w_def v_def)
  show ?thesis
  proof (cases v)
    case Nil
    have "cstr_at (ld m3) buf ([46, 47] @ w)" using b3 z wv Nil by (simp add: cstr_at_def)
    moreover have "split_command cs = [[46, 47] @ w]" unfolding sc by (simp add: Nil split_words.simps [of "[]"])
    ultimately show ?thesis using start a3 Nil by (intro exI [of _ m3] exI [of _ "[]"]) (simp add: add_arg_def)
  next
    case (Cons c r)
    have cl: "length cs = length w + Suc (length r)" "c \<noteq> 0" using wv z Cons by auto
    have e: "?e \<in> A" "?e \<in> span buf 1026" using spanI [of "2 + length w" 1026 buf] A(1) cl(1) cs(2) by auto
    obtain m4 where m4: "st ?e 0 m3 = Some m4" "ld m4 ?e = Some 0" "alters ld rest A (span ?e 1) m3 m4"
      using st_owned [OF o3 e(1)] unfolding span_1 by blast
    let ?f = "buf + of_nat (3 + length w)"
    have f: "?e + 1 = ?f" by simp
    have b4: "bytes_at (ld m4) buf ([46, 47] @ w)" "bytes_at (ld m4) ?f (r @ [0])"
      using part [OF m4(3), of 0 "[46, 47] @ w"] part [OF m4(3), of "3 + length w" "r @ [0]"] b3 cl(1) cs(2) unfolding Cons
      by (simp_all add: bytes_at_append bytes_at_Cons ac_simps)
    have fs: "span ?f (Suc (length r)) \<subseteq> span buf 1026" using cl(1) cs(2) by (intro span_sub) simp
    have "length [buf] + length (split_words r) \<le> 1024" using split_words_length [of r] cl(1) cs(2) by simp
    moreover have "owns cell A m4" using o3 owns_alters [OF m4(3)] by simp
    moreover have "0 \<notin> set r" using z wv Cons by simp
    ultimately obtain m' ps where m': "parse_args ld st ?f [buf] m4 = Some ([buf] @ ps, m')" "list_all2 (cstr_at (ld m')) ps (split_words r)"
      "alters ld rest A (span ?f (Suc (length r))) m4 m'"
      using parse_args_words [OF _ b4(2), of A "[buf]"] fs A(1) cl(1) cs(2) by auto
    have "bytes_at (ld m') buf ([46, 47] @ w)" "bytes_at (ld m') ?e [0]"
      using part [OF m'(3), of 0 "[46, 47] @ w"] part [OF m'(3), of "2 + length w" "[0]"] b4(1) m4(2) cl(1) cs(2) by (simp_all add: bytes_at_Cons)
    then have "cstr_at (ld m') buf ([46, 47] @ w)" using z wv by (simp add: cstr_at_def bytes_at_append bytes_at_Cons add.assoc)
    moreover have "split_command cs = ([46, 47] @ w) # split_words r" unfolding sc by (simp add: Cons)
    moreover have "alters ld rest A (span buf 1026) m m4" using a3 m4(3) by (rule alters_then) (use e(2) span_1 in auto)
    then have "alters ld rest A (span buf 1026) m m'" using m'(3) by (rule alters_then) (use fs in blast)
    moreover have "split_args ld st buf command m = Some (buf # ps, m')"
    proof -
      have "length (split_words r) < 1023" using split_words_length [of r] cl(1) cs(2) by simp
      moreover have "length ps = length (split_words r)" using m'(2) by (rule list_all2_lengthD)
      ultimately show ?thesis unfolding start f using m4(1) m'(1) Cons cl(2) by (simp add: add_arg_def)
    qed
    ultimately show ?thesis using m'(2) by (intro exI [of _ m'] exI [of _ ps]) simp
  qed
qed

lemma join_args_joins:
  assumes "owns cell A m" "args_at (ld m) S argv idx ws" "S \<subseteq> A - span buf (Suc nb)" "span buf (Suc nb) \<subseteq> A"
    "nb < 2 ^ 31 - 1" "idx + length ws < 2 ^ 31 - 1"
  shows "\<exists>m'. alters ld rest A (span buf (Suc nb)) m m' \<and>
    (if length (join_words ws) \<le> nb
     then join_args ld st argv (of_nat (idx + length ws)) (of_nat idx) buf (of_nat nb) m =
         Some (Inr (buf + of_nat (length (join_words ws)), of_nat (nb - length (join_words ws)), m')) \<and> bytes_at (ld m') buf (join_words ws)
     else join_args ld st argv (of_nat (idx + length ws)) (of_nat idx) buf (of_nat nb) m = Some (Inl m'))"
  using assms
proof (induction ws arbitrary: m idx buf nb)
  case Nil
  have "\<not> (of_nat idx :: i32) <s of_nat idx" by simp
  then show ?case by (intro exI [of _ m]) (subst join_args.simps, simp add: alt.eff_refl)
next
  case (Cons w ws)
  note o = Cons.prems(1) and S = Cons.prems(3) and A = Cons.prems(4)
  let ?B = "span buf (Suc nb)" and ?j = "join_args ld st argv (of_nat (idx + length (w # ws))) (of_nat idx) buf (of_nat nb) m"
  obtain p where p: "ld32 (ld m) (argv + 4 * of_nat idx) = Some p" "cstr_at (ld m) p w" "span p (Suc (length w)) \<subseteq> S" "length w < 2 ^ 31"
    using Cons.prems(2) by (auto simp: arg_at_def)
  have lt: "(of_nat idx :: i32) <s of_nat (idx + length (w # ws))" using Cons.prems(6) of_nat_sless_iff [of idx "idx + length (w # ws)"] by simp
  have len: "(of_nat nb :: i32) <s of_nat (length w) \<longleftrightarrow> nb < length w" using of_nat_sless_iff [of nb "length w"] p(4) Cons.prems(5) by simp
  show ?case
  proof (cases "nb < length w")
    case True
    then have "?j = Some (Inl m)" using p(1) ece391_strlen_cstr [OF p(2)] lt len by (subst join_args.simps) simp
    moreover have "\<not> length (join_words (w # ws)) \<le> nb" using True by (cases ws) simp_all
    ultimately show ?thesis by (auto simp: alt.eff_refl)
  next
    case False
    have sub: "span buf (Suc (length w)) \<subseteq> ?B" using span_sub [of 0 "Suc (length w)" "Suc nb" buf] False by simp
    obtain m1 where m1: "ece391_strcpy ld st buf p m = Some m1" "cstr_at (ld m1) buf w" "alters ld rest A (span buf (Suc (length w))) m m1"
    proof -
      have "span buf (Suc (length w)) \<subseteq> A" "span p (Suc (length w)) \<subseteq> A" "span p (Suc (length w)) \<inter> span buf (Suc (length w)) = {}"
        using sub A S p(3) by blast+
      then show thesis using strcpy_owned [OF o p(2)] p(4) that by blast
    qed
    have a1: "alters ld rest A ?B m m1" using m1(3) sub by (rule alters_mono)
    have more: "?j = (if ws = [] then Some (Inr (buf + of_nat (length w), of_nat (nb - length w), m1))
        else if nb = length w then Some (Inl m1)
        else do { m \<leftarrow> st (buf + of_nat (length w)) 32 m1;
          join_args ld st argv (of_nat (Suc idx + length ws)) (of_nat (Suc idx)) (buf + of_nat (Suc (length w))) (of_nat (nb - length w) - 1) m })"
    proof -
      define argc i N L :: i32 where "argc = of_nat (idx + length (w # ws))" and "i = of_nat idx" and "N = of_nat nb" and "L = of_nat (length w)"
      note defs = argc_def i_def N_def L_def
      have "i <s argc" "\<not> N <s L" "ld32 (ld m) (argv + 4 * i) = Some p" "ece391_strlen (ld m) p = Some L"
        using lt len False p(1) ece391_strlen_cstr [OF p(2)] unfolding defs by simp_all
      then have raw: "join_args ld st argv argc i buf N m = (if argc \<le>s i + 1 then Some (Inr (buf + L, N - L, m1))
          else if N - L <s 1 then Some (Inl m1)
          else do { m \<leftarrow> st (buf + L) 32 m1; join_args ld st argv argc (i + 1) (buf + L + 1) (N - L - 1) m })"
        using m1(1) by (subst join_args.simps) simp
      have 1: "N - L = of_nat (nb - length w)" using False by (simp add: defs of_nat_diff)
      have 2: "i + 1 = of_nat (Suc idx)" "argc = of_nat (Suc idx + length ws)" by (simp_all add: defs)
      have 3: "argc \<le>s i + 1 \<longleftrightarrow> ws = []"
        using of_nat_sless_iff [of "Suc idx" "Suc idx + length ws"] Cons.prems(6) unfolding 2 by (simp add: signed.not_less [symmetric] del: of_nat_Suc of_nat_add)
      have 4: "N - L <s 1 \<longleftrightarrow> nb = length w"
        using of_nat_sless_iff [of "nb - length w" 1] Cons.prems(5) False unfolding 1 by auto
      have 5: "buf + L + 1 = buf + of_nat (Suc (length w))" by (simp add: defs)
      show ?thesis using raw unfolding 3 4 5 unfolding 1 2 by (simp only: defs list.size(4) add_Suc add_Suc_right add_0_right)
    qed
    consider "ws = []" | "ws \<noteq> []" "nb = length w" | "ws \<noteq> []" "length w < nb" using False by linarith
    then show ?thesis
    proof cases
      case 1
      then show ?thesis using more a1 m1(2) False by (intro exI [of _ m1]) (simp add: cstr_at_def bytes_at_append)
    next
      case 2
      then show ?thesis using more a1 by (intro exI [of _ m1]) (simp add: join_Cons)
    next
      case 3
      let ?e = "buf + of_nat (length w)" and ?f = "buf + of_nat (Suc (length w))" and ?n = "nb - Suc (length w)"
      have e: "?e \<in> ?B" "?e \<in> A" using spanI [of "length w" "Suc nb" buf] 3(2) A by auto
      have o1: "owns cell A m1" using o owns_alters [OF a1] by simp
      obtain m2 where m2: "st ?e 32 m1 = Some m2" "ld m2 ?e = Some 32" "alters ld rest A (span ?e 1) m1 m2"
        using st_owned [OF o1 e(2)] unfolding span_1 by blast
      have a2: "alters ld rest A ?B m m2" using a1 m2(3) by (rule alters_then) (use e(1) span_1 in auto)
      have f: "span ?f (Suc ?n) \<subseteq> ?B" using 3(2) by (intro span_sub) simp
      have "owns cell A m2" "args_at (ld m2) S argv (Suc idx) ws"
        using o owns_alters [OF a2] args_alters [OF _ a2 S] Cons.prems(2) by simp_all
      moreover have "S \<subseteq> A - span ?f (Suc ?n)" "span ?f (Suc ?n) \<subseteq> A" using S A f by blast+
      ultimately obtain m' where m': "alters ld rest A (span ?f (Suc ?n)) m2 m'"
        "if length (join_words ws) \<le> ?n
         then join_args ld st argv (of_nat (Suc idx + length ws)) (of_nat (Suc idx)) ?f (of_nat ?n) m2 =
             Some (Inr (?f + of_nat (length (join_words ws)), of_nat (?n - length (join_words ws)), m')) \<and> bytes_at (ld m') ?f (join_words ws)
         else join_args ld st argv (of_nat (Suc idx + length ws)) (of_nat (Suc idx)) ?f (of_nat ?n) m2 = Some (Inl m')"
        using Cons.IH [of m2 "Suc idx" ?f ?n] Cons.prems(5,6) by fastforce
      have a': "alters ld rest A ?B m m'" using a2 m'(1) by (rule alters_then) (use f in blast)
      have n1: "(of_nat (nb - length w) :: i32) - 1 = of_nat ?n" using 3(2) by (simp add: of_nat_diff)
      have j: "?j = join_args ld st argv (of_nat (Suc idx + length ws)) (of_nat (Suc idx)) ?f (of_nat ?n) m2"
        using more 3 m2(1) unfolding n1 by (simp del: of_nat_Suc of_nat_add of_nat_diff)
      note part = bytes_part [OF _ A _]
      have "bytes_at (ld m') (buf + of_nat 0) w" "bytes_at (ld m') ?e [32]"
        using part [OF m2(3), of 0 w] part [OF m'(1), of 0 w] part [OF m'(1), of "length w" "[32]"] m1(2) m2(2) 3(2) Cons.prems(5)
        by (simp_all add: cstr_at_def bytes_at_append bytes_at_Cons)
      then have b: "bytes_at (ld m') buf (join_words (w # ws))" if "bytes_at (ld m') ?f (join_words ws)"
        using that 3(1) by (simp add: join_Cons bytes_at_append bytes_at_Cons ac_simps)
      have jl: "length (join_words (w # ws)) = Suc (length w) + length (join_words ws)" using 3(1) by (simp add: join_Cons)
      show ?thesis
      proof (cases "length (join_words ws) \<le> ?n")
        case True
        then have le: "length (join_words (w # ws)) \<le> nb" using jl 3(2) by linarith
        have "?n - length (join_words ws) = nb - length (join_words (w # ws))" using jl by simp
        moreover have "?f + of_nat (length (join_words ws)) = buf + of_nat (length (join_words (w # ws)))" unfolding jl by simp
        ultimately show ?thesis using m'(2) a' b True unfolding j if_P [OF le] by (intro exI [of _ m']) (simp del: of_nat_Suc of_nat_add of_nat_diff)
      next
        case False
        then have "\<not> length (join_words (w # ws)) \<le> nb" using jl 3(2) by linarith
        then show ?thesis using m'(2) a' False unfolding j by (intro exI [of _ m']) simp
      qed
    qed
  qed
qed

lemma getargs_at_joins:
  assumes o: "owns cell A m" and argc: "ld32 (ld m) sp = Some (of_nat (Suc (length ws)))" and ws: "args_at (ld m) S (sp + 4) 1 ws"
    and S: "S \<subseteq> A - span buf (Suc nb)" "span buf (Suc nb) \<subseteq> A" and l: "nb < 2 ^ 31 - 1" "Suc (length ws) < 2 ^ 31 - 1"
  shows "\<exists>m'. getargs_at ld st sp buf (of_nat nb) m = Some (if length (join_words ws) < nb then 0 else -1, m') \<and>
    alters ld rest A (span buf (Suc nb)) m m' \<and> (length (join_words ws) < nb \<longrightarrow> bytes_at (ld m') buf (join_words ws @ [0]))"
proof -
  let ?l = "length (join_words ws)" and ?B = "span buf (Suc nb)"
  obtain m1 where a: "alters ld rest A ?B m m1"
    and j: "if ?l \<le> nb then join_args ld st (sp + 4) (of_nat (1 + length ws)) (of_nat 1) buf (of_nat nb) m =
         Some (Inr (buf + of_nat ?l, of_nat (nb - ?l), m1)) \<and> bytes_at (ld m1) buf (join_words ws)
       else join_args ld st (sp + 4) (of_nat (1 + length ws)) (of_nat 1) buf (of_nat nb) m = Some (Inl m1)"
    using join_args_joins [OF o ws S l(1)] l(2) by auto
  consider "nb < ?l" | "?l = nb" | "?l < nb" by linarith
  then show ?thesis
  proof cases
    case 3
    let ?e = "buf + of_nat ?l"
    have e: "?e \<in> ?B" "?e \<in> A" using spanI [of ?l "Suc nb" buf] 3 S(2) by auto
    obtain m2 where m2: "st ?e 0 m1 = Some m2" "ld m2 ?e = Some 0" "alters ld rest A (span ?e 1) m1 m2"
      using st_owned [OF _ e(2)] o owns_alters [OF a] unfolding span_1 by blast
    have "bytes_at (ld m2) (buf + of_nat 0) (join_words ws)"
      using bytes_part [OF m2(3) S(2), of 0 "join_words ws"] j 3 l(1) by simp
    moreover have "alters ld rest A ?B m m2" using a m2(3) by (rule alters_then) (use e(1) span_1 in auto)
    moreover have "\<not> (of_nat (nb - ?l) :: i32) <s 1" using of_nat_sless_iff [of "nb - ?l" 1] 3 l(1) by auto
    ultimately show ?thesis
      using argc j 3 m2(1,2) by (intro exI [of _ m2]) (simp add: getargs_at_def bytes_at_append bytes_at_Cons del: of_nat_diff)
  qed (use a j argc of_nat_sless_iff [of 0 1] in \<open>auto simp: getargs_at_def\<close>)
qed

end

section \<open>The memory of the Linux process\<close>

definition linux_cell :: "('w, 'z) linux_scheme \<Rightarrow> u32 \<Rightarrow> u32 option" where
  "linux_cell s a = map_option (\<lambda>_. a) (mem s a)"

definition linux_rest :: "('w, 'z) linux_scheme \<Rightarrow> ('w, 'z) linux_scheme" where
  "linux_rest s = s\<lparr>mem := (\<lambda>a. map_option (\<lambda>_. 0) (mem s a))\<rparr>"

lemma linux_rest_mem: "linux_rest s' = linux_rest s \<Longrightarrow> mem s' a = None \<longleftrightarrow> mem s a = None"
proof -
  assume "linux_rest s' = linux_rest s"
  then have "mem (linux_rest s') a = mem (linux_rest s) a" by simp
  then show ?thesis by (cases "mem s a"; cases "mem s' a") (simp_all add: linux_rest_def)
qed

interpretation lin: memory linux_cell mem linux_st linux_rest
proof unfold_locales
  fix s s' :: "('w, 'z) linux_scheme"
  assume r: "linux_rest s' = linux_rest s"
  show "linux_cell s' = linux_cell s"
  proof
    fix a show "linux_cell s' a = linux_cell s a"
      using linux_rest_mem [OF r, of a] by (cases "mem s a"; cases "mem s' a") (simp_all add: linux_cell_def)
  qed
qed (auto simp: linux_cell_def linux_st_def linux_rest_def fun_eq_iff split: if_splits)

lemma linux_owns: "owns linux_cell (dom (mem s)) s"
  by (auto simp: owns_def linux_cell_def inj_on_def)

lemma linux_alters: "alters mem linux_rest (dom (mem s)) W s s' \<Longrightarrow> s' = s\<lparr>mem := mem s'\<rparr> \<and> (\<forall>a. a \<notin> W \<longrightarrow> mem s' a = mem s a)"
proof -
  assume a: "alters mem linux_rest (dom (mem s)) W s s'"
  then have r: "linux_rest s' = linux_rest s" by (simp add: alters_def)
  have "(linux_rest s')\<lparr>mem := mem s'\<rparr> = (linux_rest s)\<lparr>mem := mem s'\<rparr>" using r by simp
  then have "s' = s\<lparr>mem := mem s'\<rparr>" by (simp add: linux_rest_def)
  moreover have "mem s' a = mem s a" if "a \<notin> W" for a
    using alters_ld [OF a, of a] linux_rest_mem [OF r, of a] that by (cases "mem s a") auto
  ultimately show ?thesis by blast
qed

text \<open>
  C35. The emulated \<open>ece391_execute\<close>: a command of more than 1023 characters is refused; otherwise the
  child gets as its path and arguments exactly the words of the command, the first with \<open>./\<close> before it,
  each terminated in the buffer, whose 1026 bytes and the 1024 pointers suffice; nothing else has
  changed. When a child is forked, the answer is its status, -1 when it could not be executed or was
  killed by signal 9, and 256 for any other signal. When \<open>fork\<close> fails, the code waits all the same and
  the answer is made from whatever the status word holds: that of another child, or what was on the
  stack.
\<close>

theorem execute_passes_words:
  fixes s :: "'w linux"
  assumes "cstr_at (mem s) command cs" "length cs < 2 ^ 31" "span buf 1026 \<subseteq> dom (mem s)"
    and "span command (Suc (length cs)) \<inter> span buf 1026 = {}"
  shows "if 1023 < length cs then emu_execute C junk buf command s = Some (-1, s)
    else \<exists>ps s'. emu_execute C junk buf command s = Some (case child C buf (buf # ps) s' of
          (Executed (Exited v), s'') \<Rightarrow> (ucast v, s'') | (Executed (Signaled sig), s'') \<Rightarrow> (if sig = 9 then -1 else 256, s'')
        | (Not_executed, s'') \<Rightarrow> (-1, s'') | (No_fork (Some w), s'') \<Rightarrow> (child_status w, s'')
        | (No_fork None, s'') \<Rightarrow> (child_status junk, s'')) \<and>
      list_all2 (cstr_at (mem s')) (buf # ps) (split_command cs) \<and>
      s' = s\<lparr>mem := mem s'\<rparr> \<and> (\<forall>a. a \<notin> span buf 1026 \<longrightarrow> mem s' a = mem s a)"
proof (cases "1023 < length cs")
  case True
  then have "(1023 :: u32) < of_nat (length cs)" using assms(2) unat_of_nat_u32 [of "length cs"] by (simp add: word_less_nat_alt)
  then show ?thesis using True ece391_strlen_cstr [OF assms(1)] by (simp add: emu_execute_def)
next
  case False
  then have l: "\<not> (1023 :: u32) < of_nat (length cs)" using unat_of_nat_u32 [of "length cs"] by (simp add: word_less_nat_alt)
  have "mem s (command + of_nat i) \<noteq> None" if "i < Suc (length cs)" for i
    using assms(1) bytes_at_nth [of "mem s" command "cs @ [0]" i] that by (simp add: cstr_at_def)
  then have "span command (Suc (length cs)) \<subseteq> dom (mem s)" by (auto simp: span_def)
  then obtain s' ps where s': "split_args mem linux_st buf command s = Some (buf # ps, s')" "list_all2 (cstr_at (mem s')) (buf # ps) (split_command cs)"
    "alters mem linux_rest (dom (mem s)) (span buf 1026) s s'"
    using lin.split_args_words [OF linux_owns assms(1) _ assms(3) _ assms(4)] False by auto
  have "emu_execute C junk buf command s = Some (case child C buf (buf # ps) s' of
          (Executed (Exited v), s'') \<Rightarrow> (ucast v, s'') | (Executed (Signaled sig), s'') \<Rightarrow> (if sig = 9 then -1 else 256, s'')
        | (Not_executed, s'') \<Rightarrow> (-1, s'') | (No_fork (Some w), s'') \<Rightarrow> (child_status w, s'')
        | (No_fork None, s'') \<Rightarrow> (child_status junk, s''))"
    using s'(1) l ece391_strlen_cstr [OF assms(1)]
    by (auto simp: emu_execute_def child_status_def Let_def split: prod.splits option.splits wait_status.splits child_run.splits)
  then show ?thesis using False s'(2) linux_alters [OF s'(3)] by auto
qed

lemma set_join: "set (join_words ws) \<subseteq> insert blank8 (\<Union> (set ` set ws))"
  by (induction ws rule: join_words.induct) auto

lemma split_path: "\<forall>c \<in> set path. word_char c \<Longrightarrow> split_command (path @ blank8 # t) = ([46, 47] @ path) # split_words t"
proof -
  assume "\<forall>c \<in> set path. word_char c"
  then have "takeWhile word_char (path @ blank8 # t) = path" "dropWhile word_char (path @ blank8 # t) = blank8 # t"
    by (simp_all add: takeWhile_append dropWhile_append word_char_code)
  then show ?thesis by (simp add: split_command_def)
qed

lemma args_no_zero: "args_at r S argv k ws \<Longrightarrow> w \<in> set ws \<Longrightarrow> 0 \<notin> set w"
  by (induction ws arbitrary: k) (auto simp: arg_at_def cstr_at_def)

text \<open>
  C34. Arguments come through: in a process whose arguments are the words into which \<open>ece391_execute\<close>
  splits a path followed by some words, \<open>ece391_getargs\<close> delivers those words, separated by single
  blanks and terminated, and answers 0; when they and the zero do not fit into the buffer it answers
  -1. It writes at most one byte behind the buffer.
\<close>

theorem getargs_recovers_words:
  fixes s :: "('w, 'z) linux_scheme"
  assumes path: "\<forall>c \<in> set path. word_char c" and ws: "\<forall>w \<in> set ws. w \<noteq> [] \<and> (\<forall>c \<in> set w. word_char c)"
    and argc: "ld32 (mem s) (start_esp s) = Some (of_nat (length (split_command (path @ blank8 # join_words ws))))"
    and argv: "args_at (mem s) S (start_esp s + 4) 0 (split_command (path @ blank8 # join_words ws))"
    and S: "S \<subseteq> dom (mem s) - span buf (Suc nb)" "span buf (Suc nb) \<subseteq> dom (mem s)"
    and l: "nb < 2 ^ 31 - 1" "Suc (length ws) < 2 ^ 31 - 1"
  shows "\<exists>s'. emu_getargs buf (of_nat nb) s = Some (if length (join_words ws) < nb then 0 else -1, s') \<and>
    (length (join_words ws) < nb \<longrightarrow> cstr_at (mem s') buf (join_words ws)) \<and>
    s' = s\<lparr>mem := mem s'\<rparr> \<and> (\<forall>a. a \<notin> span buf (Suc nb) \<longrightarrow> mem s' a = mem s a)"
proof -
  have sc: "split_command (path @ blank8 # join_words ws) = ([46, 47] @ path) # ws" using split_path [OF path] split_join [OF ws] by simp
  have a: "args_at (mem s) S (start_esp s + 4) 1 ws" using argv unfolding sc by simp
  obtain s' where s': "getargs_at mem linux_st (start_esp s) buf (of_nat nb) s = Some (if length (join_words ws) < nb then 0 else -1, s')"
    "alters mem linux_rest (dom (mem s)) (span buf (Suc nb)) s s'" "length (join_words ws) < nb \<longrightarrow> bytes_at (mem s') buf (join_words ws @ [0])"
    using lin.getargs_at_joins [OF linux_owns _ a S l] argc unfolding sc by auto
  moreover have "0 \<notin> set (join_words ws)" using set_join [of ws] args_no_zero [OF a] by auto
  ultimately show ?thesis using linux_alters [OF s'(2)] by (intro exI [of _ s']) (simp add: emu_getargs_def cstr_at_def)
qed

text \<open>A process with the command \<open>cat f\<close> in its memory, which was itself started with it.\<close>

definition demo_linux :: "unit linux" where
  "demo_linux = \<lparr>mem = (\<lambda>a. if unat a < 0x4000 then Some (image_bytes [(0x1000, le_bytes 2 @ le_bytes 0x1100 @ le_bytes 0x1110),
       (0x1100, [46, 47, 99, 97, 116, 0]), (0x1110, [102, 0]), (0x1200, [99, 97, 116, 32, 102, 0])] a) else None),
     start_esp = 0x1000, dir_fd = -1, dir = 0, mem_fd = -1, world = ()\<rparr>"

definition demo_libc :: "unit libc" where
  "demo_libc = \<lparr>int80 = (\<lambda>_ _ _ _ s. (0, s)), opendir = (\<lambda>_ s. (0, s)), readdir = (\<lambda>_ s. (0, s)), closedir = (\<lambda>_ s. s),
     open_path = (\<lambda>_ _ s. (3, s)), close_fd = (\<lambda>_ s. s), mmap_low = (\<lambda>_ s. (-1, s)),
     child = (\<lambda>_ _ s. (Executed (Exited 7), s))\<rparr>"

lemma demo_linux_dom: "unat a + k \<le> 0x4000 \<Longrightarrow> span a k \<subseteq> dom (mem demo_linux)"
  using demo_span [of a k] by (fastforce simp: demo_linux_def)

lemma demo_split: "split_command ([99, 97, 116] @ blank8 # join_words [[102]]) = [[46, 47, 99, 97, 116], [102]]"
  using split_path [of "[99, 97, 116]" "join_words [[102]]"] split_join [of "[[102]]"] by (simp add: word_char_code)

theorem execute_passes_words_witness:
  "(\<exists>ps s' :: unit linux. emu_execute demo_libc (Exited 0) 0x2000 0x1200 demo_linux = Some (7, s') \<and>
      list_all2 (cstr_at (mem s')) (0x2000 # ps) [[46, 47, 99, 97, 116], [102]]) \<and>
    (\<exists>s' :: unit linux. emu_execute (demo_libc\<lparr>child := (\<lambda>_ _ s. (No_fork None, s))\<rparr>) (Exited 0) 0x2000 0x1200 demo_linux =
      Some (0, s'))"
proof -
  have "cstr_at (mem demo_linux) 0x1200 [99, 97, 116, 32, 102]"
    by (simp add: cstr_at_def bytes_at_Cons demo_linux_def image_bytes_def le_bytes_def)
  moreover have "split_command [99, 97, 116, 32, 102] = [[46, 47, 99, 97, 116], [102]]" using demo_split by simp
  ultimately show ?thesis
    using execute_passes_words [of demo_linux "0x1200" "[99, 97, 116, 32, 102]" "0x2000" demo_libc "Exited 0"]
      execute_passes_words [of demo_linux "0x1200" "[99, 97, 116, 32, 102]" "0x2000"
        "demo_libc\<lparr>child := (\<lambda>_ _ s. (No_fork None, s))\<rparr>" "Exited 0"] demo_linux_dom [of "0x2000" 1026]
    by (auto simp: apart_spans demo_libc_def child_status_def)
qed

theorem getargs_recovers_words_witness:
  "\<exists>s'. emu_getargs 0x2000 (of_nat 2) demo_linux = Some (0, s') \<and> cstr_at (mem s') 0x2000 [102]"
proof -
  let ?S = "span 0x1000 0x300 :: u32 set"
  have sub: "span a k \<subseteq> ?S" if "0x1000 \<le> unat a" "unat a + k \<le> 0x1300" for a k
  proof -
    have "a = 0x1000 + of_nat (unat a - 0x1000)" using that(1) by (simp add: of_nat_diff)
    then show ?thesis using span_sub [of "unat a - 0x1000" k "0x300" "0x1000"] that by simp
  qed
  have "args_at (mem demo_linux) ?S 0x1004 0 [[46, 47, 99, 97, 116], [102]]"
    using sub [of "0x1004" 4] sub [of "0x1008" 4] sub [of "0x1100" "Suc (Suc (Suc (Suc (Suc (Suc 0)))))"] sub [of "0x1110" "Suc (Suc 0)"]
    by (simp add: arg_at_def cstr_at_def bytes_at_Cons ld32_def demo_linux_def image_bytes_def le_bytes_def le_word_def)
  moreover have "ld32 (mem demo_linux) (start_esp demo_linux) = Some 2" "start_esp demo_linux = 0x1000"
    by (simp_all add: ld32_def demo_linux_def image_bytes_def le_bytes_def le_word_def)
  moreover have "?S \<subseteq> dom (mem demo_linux) - span 0x2000 (Suc 2)"
    using demo_linux_dom [of "0x1000" "0x300"] apart_spans [of "0x1000" "0x300" "0x2000" "Suc 2"] by auto
  ultimately show ?thesis
    using getargs_recovers_words [of "[99, 97, 116]" "[[102]]" demo_linux ?S "0x2000" 2] demo_linux_dom [of "0x2000" "Suc 2"]
    unfolding demo_split by (auto simp: word_char_code)
qed

end
