(* ===== verification/Spec2Isabelle.thy ===== *)
theory Spec2Isabelle
  imports Kernel_Tests Isolation Fish_Spec Emulate_Spec
begin

text \<open>
  A verification development for the kernel under \<open>src/student-distrib\<close>: a 32-bit x86 kernel with
  paging, a read-only file system, three terminals, at most six processes and a scheduler on the
  PIT; and for the programs that run on it, \<open>src/syscalls\<close> and \<open>src/fish\<close>. Everything is
  translated from the C and assembly sources as functions on one state record that grows from
  theory to theory in the order the components depend on each other; only the emulation on Linux
  has a process of its own.

  \<^bold>\<open>How the program hangs together.\<close> \<open>kernel.c\<close> sets up descriptors, interrupt gates (\<open>idt.c\<close>),
  interrupt controllers (\<open>i8259.c\<close>), devices and page tables (\<open>page.c\<close>) and executes the shell.
  Programs enter the kernel through \<open>syscall_linker\<close> and the calls of \<open>syscalls.c\<close>, which reach the
  drivers (\<open>terminal.c\<close>, \<open>rtc.c\<close>, \<open>file.c\<close>) through the jump tables of the descriptors in the process
  control block. The keyboard interrupt (\<open>keyboard.c\<close>) edits a line, draws it with \<open>putc\<close> (\<open>lib.c\<close>)
  and hands it to a waiting \<open>terminal_read\<close>; the clock interrupt ends the wait of \<open>rtc_read\<close>; the
  timer interrupt (\<open>task_switch.c\<close>) switches between the terminals. All drawing goes through one
  page of virtual memory, and \<open>page_table_vid[0]\<close> decides whose screen it is. The programs reach
  the kernel only through the wrappers of \<open>ece391syscall.S\<close> and, after \<open>sys_vidmap\<close>, through the page
  of the screen at one gigabyte.

  \<^bold>\<open>Theories and sources.\<close>
  \<^item> \<open>Kernel_Prelude\<close>: integer types as words (\<open>int32_t\<close> compared with signed \<open>\<le>s\<close>), array access that
    fails outside the array, loops (\<open>for_each\<close>, \<open>spin\<close>), and the locale \<open>effect\<close>: a reflexive and
    transitive relation of states that operations obey.
  \<^item> \<open>Memory\<close>: byte-addressed memory as the locale \<open>memory\<close> (what a load sees after a store), with the
    lemmas on runs of bytes; interpreted by a C object on its own and, in \<open>Paging\<close>, by the machine.
  \<^item> \<open>Paging\<close> (\<open>page.c\<close>, \<open>page.h\<close>): the tables, the page walk, \<open>initialize_page\<close>.
  \<^item> \<open>Lib_String\<close> (\<open>lib.c\<close>): string and memory routines over the locale \<open>memory\<close>.
  \<^item> \<open>File_System\<close> (\<open>file.c\<close>); \<open>Pic\<close> (\<open>i8259.c\<close>, port input and output of \<open>lib.h\<close>); \<open>Idt\<close> (\<open>idt.c\<close>,
    \<open>x86_desc.h\<close>); \<open>Console\<close> and \<open>Printf\<close> (the output half of \<open>lib.c\<close>; the locale \<open>typing\<close> is what
    drawing with \<open>putc\<close> promises); \<open>Terminal\<close> (\<open>terminal.c\<close>);
    \<open>Rtc\<close> (\<open>rtc.c\<close>); \<open>Keyboard\<close> (\<open>keyboard.c\<close>); \<open>Exceptions\<close> (\<open>interrupts.c\<close>).
  \<^item> \<open>Frames\<close>: what each driver can change, as interpretations of \<open>effect\<close>.
  \<^item> \<open>Process\<close> (\<open>syscalls.c\<close>, \<open>syscall_linker\<close> of \<open>x86_desc.S\<close>): control blocks, the ten calls.
    \<open>Syscall_Safety\<close> holds what no call can disturb, \<open>Syscall_Spec\<close> what the single calls deliver,
    \<open>Execution\<close> what \<open>sys_execute\<close> and \<open>sys_halt\<close> do.
  \<^item> \<open>Scheduler\<close> (\<open>task_switch.c\<close>).
  \<^item> \<open>Boot\<close> (\<open>kernel.c\<close>, \<open>multiboot.h\<close>, the descriptors of \<open>x86_desc.h\<close>): \<open>entry\<close> from the multiboot loader
    to the first program; \<open>Boot_Spec\<close> has its properties. \<open>Kernel_Tests\<close> (\<open>tests.c\<close>) runs the tests of
    the kernel on the tables the kernel builds.
  \<^item> \<open>Userland\<close> (\<open>ece391syscall.S\<close>, \<open>ece391support.c\<close>): system calls from a program and its support
    routines, with what each call does to the program's memory. \<open>User_Programs\<close> (\<open>cat\<close>,
    \<open>ls\<close>, \<open>grep\<close>, \<open>counter\<close>, \<open>hello\<close>, \<open>pingpong\<close>, \<open>testprint\<close>, \<open>shell\<close>) and \<open>User_Tests\<close> (\<open>syserr\<close>,
    \<open>sigtest\<close>) are the programs; \<open>User_Machine\<close> is the machine on which their properties are applied.
    \<open>Isolation\<close> is what a program reaches through its calls when its buffers are its own.
  \<^item> \<open>Blink\<close> (\<open>blink.S\<close>, the memory routines of \<open>fish.c\<close>): a linked list of blinking characters in the
    memory of a program; \<open>Blink_Spec\<close> refines it to a list and a screen, in the locale
    \<open>readable_memory\<close> that extends \<open>memory\<close>. \<open>Fish\<close> (\<open>fish.c\<close>) is the program, \<open>Fish_Spec\<close> what its
    \<open>add_frames\<close> does on the kernel.
  \<^item> \<open>Emulate\<close> and \<open>Emulate_Spec\<close> (\<open>ece391emulate.c\<close>): the calls of the programs on Linux, which are a
    parameter; how a command line is split for a program and put together again by it.

  \<^bold>\<open>Conventions.\<close> A function that can fault, run out of an array or not return is a function into
  \<open>option\<close>, and \<open>None\<close> is that outcome; the properties that a call returns say \<open>Some\<close>. Loops with no
  bound in the code are \<open>partial_function (option)\<close>, so that not returning is \<open>None\<close>; a wait for an
  interrupt takes the interrupts that arrive as a list and is \<open>None\<close> when they do not suffice. There
  is no fuel. Ports are a log of accesses; what a device answers, where the linker puts symbols and
  what uninitialised stack bytes hold are parameters in the state.

  \<^bold>\<open>What the lemmas show.\<close> Paging gives every address the translation the kernel intends; the memory
  routines are bytewise copies and fills for every alignment; the file system finds names and
  delivers the bytes of the blocks; \<open>putc\<close> refines typing on an abstract screen of 25 rows; the
  keyboard handler refines line editing; a program whose calls name buffers in its own page changes
  no memory above 4 MB outside that page, and no other process, table or control block; \<open>sys_execute\<close>
  starts the named program, and what it refuses leaves no trace; \<open>sys_halt\<close> undoes it; on one of the
  two sides of the merge conflict in \<open>task_switch.c\<close> ticks of the PIT refine a round robin of three
  contexts, and every context comes back unchanged while processes neither start nor end; booted by
  a multiboot loader the kernel enters the shell. On top of the kernel the programs do what their
  users see: \<open>cat\<close> types a file, \<open>ls\<close> the directory, the shell starts the typed command, and
  \<open>add_frames\<close> of \<open>fish\<close> turns two text files into blinking characters.

  \<^bold>\<open>Not modelled.\<close> \<open>boot.S\<close>, which loads segment registers and calls \<open>entry\<close>; segmentation is flat, so
  no address goes through a descriptor; the contents of the general registers across traps; \<open>pcb.c\<close>,
  whose code is commented out; the accessors of \<open>lib.h\<close> that nothing uses (16 and 32 bit ports, the
  saving of flags).

  Three differences from the machine bear on what the theorems mean.
  \<^item> There is no translation cache: the page walk sees a change of a table at once. The code reloads
    CR3 in \<open>page.c\<close> (line 37), \<open>syscalls.c\<close> (77, 223) and \<open>task_switch.c\<close> (208), but not after its
    changes of \<open>page_table_vid[0]\<close> in \<open>lib.c\<close> (223, 226), \<open>keyboard.c\<close> (183, 516) and \<open>syscalls.c\<close>
    (539, 542). There the processor may go on with the old entry and draw on the page of another
    terminal, which \<open>README.txt\<close> reports. So what the theorems say of screens holds where the entry
    is not cached; what they say of \<open>sys_vidmap\<close> is about the table.
  \<^item> Control blocks, page tables and the process table are typed objects apart from the byte memory.
    In the source they lie in the kernel's page. \<open>sys_read\<close> and \<open>sys_getargs\<close> store through pointers
    they do not check (\<open>syscalls.c\<close>, 338 to 358 and 496 to 519), so on the machine a call can be given
    a pointer to them; the model cannot express that store. The properties of \<open>Isolation\<close> take
    buffers in the program's page, and show that then no byte of the kernel's page is written.
  \<^item> A system call is one step, except where it waits. Its gate is a trap gate (\<open>idt.c\<close>, 62), so on
    the machine the clock, the keyboard and the timer can interrupt it anywhere.
\<close>

end
